(* ===== verification/Prelude.thy ===== *)
theory Prelude
  imports Main "HOL-Library.Word"
begin

text \<open>
  Shared vocabulary of the development: the machine integer types of the Rust sources,
  saturating and checked arithmetic, little-endian byte strings, slices and in-place writes of
  byte buffers, and the result type of fallible operations.

  Conventions. \<open>u8\<close> to \<open>u64\<close> are words of that width, so \<open>+\<close> is Rust's \<open>wrapping_add\<close>.
  A \<open>usize\<close> is a \<open>nat\<close>: lengths of Rust buffers never exceed \<open>isize::MAX\<close>; the places where the
  sources saturate on \<open>usize\<close> write the 64-bit bound out (\<open>usize_max\<close>).
  A \<open>Result<T, E>\<close> is \<open>'e + 'a\<close> with \<open>Inl\<close> for \<open>Err\<close>.
\<close>

type_synonym u8 = "8 word"
type_synonym u16 = "16 word"
type_synonym u32 = "32 word"
type_synonym u64 = "64 word"
type_synonym bytes = "8 word list"
type_synonym ('e, 'a) result = "'e + 'a"

named_theorems layout_simps \<open>lengths and positions of fixed wire layouts\<close>
named_theorems arith_simps \<open>unsigned values of saturating and checked operations\<close>

section \<open>Results\<close>

definition rbind :: "'e + 'a \<Rightarrow> ('a \<Rightarrow> 'e + 'b) \<Rightarrow> 'e + 'b" where
  "rbind r f = (case r of Inl e \<Rightarrow> Inl e | Inr a \<Rightarrow> f a)"

definition map_err :: "('e \<Rightarrow> 'f) \<Rightarrow> 'e + 'a \<Rightarrow> 'f + 'a" where
  "map_err g r = (case r of Inl e \<Rightarrow> Inl (g e) | Inr a \<Rightarrow> Inr a)"

definition is_ok :: "'e + 'a \<Rightarrow> bool" where
  "is_ok r = (case r of Inl _ \<Rightarrow> False | Inr _ \<Rightarrow> True)"

lemma rbind_simps [simp]:
  "rbind (Inl e) f = Inl e"
  "rbind (Inr a) f = f a"
  by (simp_all add: rbind_def)

lemma rbind_eq_Inr: "rbind r f = Inr b \<longleftrightarrow> (\<exists>a. r = Inr a \<and> f a = Inr b)"
  by (cases r) auto

lemma rbind_eq_Inl: "rbind r f = Inl e \<longleftrightarrow> r = Inl e \<or> (\<exists>a. r = Inr a \<and> f a = Inl e)"
  by (cases r) auto

lemma map_err_simps [simp]:
  "map_err g (Inl e) = Inl (g e)"
  "map_err g (Inr a) = Inr a"
  by (simp_all add: map_err_def)

lemma map_err_eq_Inr [simp]: "map_err g r = Inr a \<longleftrightarrow> r = Inr a"
  by (cases r) auto

lemma is_ok_simps [simp]: "is_ok (Inr a)" "\<not> is_ok (Inl e)"
  by (simp_all add: is_ok_def)

lemma is_ok_iff: "is_ok r \<longleftrightarrow> (\<exists>a. r = Inr a)"
  by (cases r) auto

section \<open>Saturating and checked arithmetic\<close>

definition sat_add :: "'a::len word \<Rightarrow> 'a word \<Rightarrow> 'a word" where
  "sat_add a b = (if uint a + uint b < 2 ^ LENGTH('a) then a + b else - 1)"

definition sat_sub :: "'a::len word \<Rightarrow> 'a word \<Rightarrow> 'a word" where
  "sat_sub a b = (if b \<le> a then a - b else 0)"

definition sat_mul :: "'a::len word \<Rightarrow> 'a word \<Rightarrow> 'a word" where
  "sat_mul a b = (if uint a * uint b < 2 ^ LENGTH('a) then a * b else - 1)"

definition checked_add :: "'a::len word \<Rightarrow> 'a word \<Rightarrow> 'a word option" where
  "checked_add a b = (if uint a + uint b < 2 ^ LENGTH('a) then Some (a + b) else None)"

definition checked_sub :: "'a::len word \<Rightarrow> 'a word \<Rightarrow> 'a word option" where
  "checked_sub a b = (if b \<le> a then Some (a - b) else None)"

definition usize_max :: nat where
  "usize_max = 2 ^ 64 - 1"

definition usize_sat_add :: "nat \<Rightarrow> nat \<Rightarrow> nat" where
  "usize_sat_add a b = min (a + b) usize_max"

definition usize_sat_mul :: "nat \<Rightarrow> nat \<Rightarrow> nat" where
  "usize_sat_mul a b = min (a * b) usize_max"

text \<open>\<open>div_ceil\<close> as the standard library computes it: quotient, plus one for a remainder.\<close>

definition div_ceil :: "nat \<Rightarrow> nat \<Rightarrow> nat" where
  "div_ceil a b = (if a mod b = 0 then a div b else a div b + 1)"

lemma unat_max_word: "unat (- 1 :: 'a::len word) = 2 ^ LENGTH('a) - 1"
  by (simp add: unsigned_minus_1_eq_mask mask_eq_exp_minus_1)

lemma unat_plus_no_overflow:
  "unat a + unat b < 2 ^ LENGTH('a) \<Longrightarrow> unat (a + b) = unat a + unat (b :: 'a::len word)"
  by (simp add: unat_word_ariths)

lemma uint_add_less_iff:
  "uint a + uint (b :: 'a::len word) < 2 ^ LENGTH('a) \<longleftrightarrow> unat a + unat b < 2 ^ LENGTH('a)"
proof -
  have "unat a + unat b < 2 ^ LENGTH('a) \<longleftrightarrow> int (unat a + unat b) < int (2 ^ LENGTH('a))"
    by (simp only: of_nat_less_iff)
  also have "\<dots> \<longleftrightarrow> uint a + uint b < 2 ^ LENGTH('a)" by simp
  finally show ?thesis ..
qed

lemma uint_mult_less_iff:
  "uint a * uint (b :: 'a::len word) < 2 ^ LENGTH('a) \<longleftrightarrow> unat a * unat b < 2 ^ LENGTH('a)"
proof -
  have "unat a * unat b < 2 ^ LENGTH('a) \<longleftrightarrow> int (unat a * unat b) < int (2 ^ LENGTH('a))"
    by (simp only: of_nat_less_iff)
  also have "\<dots> \<longleftrightarrow> uint a * uint b < 2 ^ LENGTH('a)" by simp
  finally show ?thesis ..
qed

lemma unat_sat_add [arith_simps]:
  "unat (sat_add a b :: 'a::len word) = min (unat a + unat b) (2 ^ LENGTH('a) - 1)"
  by (auto simp: sat_add_def uint_add_less_iff unat_plus_no_overflow unat_max_word)

lemma unat_sat_sub [arith_simps]: "unat (sat_sub a b) = unat a - unat b"
  by (auto simp: sat_sub_def unat_sub word_le_nat_alt)

lemma unat_sat_mul [arith_simps]:
  "unat (sat_mul a b :: 'a::len word) = min (unat a * unat b) (2 ^ LENGTH('a) - 1)"
  by (auto simp: sat_mul_def uint_mult_less_iff unat_word_ariths unat_max_word)

lemma checked_add_Some [arith_simps]:
  "checked_add a b = Some c \<longleftrightarrow> unat a + unat b < 2 ^ LENGTH('a) \<and> c = a + (b :: 'a::len word)"
  by (auto simp: checked_add_def uint_add_less_iff)

lemma checked_sub_Some [arith_simps]:
  "checked_sub a b = Some c \<longleftrightarrow> b \<le> a \<and> c = a - b"
  by (auto simp: checked_sub_def)

lemma sat_add_mono1: "a \<le> sat_add a b"
proof -
  have "unat a < 2 ^ LENGTH('a)" by (rule unsigned_less)
  then have "unat a \<le> 2 ^ LENGTH('a) - 1" by linarith
  then show ?thesis by (simp add: word_le_nat_alt unat_sat_add)
qed

lemma sat_add_Suc_no_overflow:
  "unat a < 2 ^ LENGTH('a) - 1 \<Longrightarrow> unat (sat_add a (1 :: 'a::len word)) = Suc (unat a)"
  by (simp add: unat_sat_add)

lemma div_ceil_0 [simp]: "div_ceil 0 b = 0"
  by (simp add: div_ceil_def)

lemma div_ceil_le_iff: "0 < b \<Longrightarrow> div_ceil a b \<le> n \<longleftrightarrow> a \<le> n * b"
proof -
  assume b: "0 < b"
  define q r where "q = a div b" and "r = a mod b"
  have a: "a = q * b + r" and r: "r < b"
    using b by (simp_all add: q_def r_def)
  have step: "q * b + r \<le> n * b \<longleftrightarrow> q + (if r = 0 then 0 else 1) \<le> n" (is "?l \<longleftrightarrow> ?r")
  proof
    assume ?l
    then have "q * b \<le> n * b" by linarith
    then have "q \<le> n" using b by simp
    moreover have "r = 0 \<or> q \<noteq> n" using \<open>?l\<close> by auto
    ultimately show ?r by auto
  next
    assume ?r
    then have "(q + (if r = 0 then 0 else 1)) * b \<le> n * b" by (rule mult_le_mono1)
    then show ?l using r by (auto simp: algebra_simps split: if_splits)
  qed
  have "div_ceil a b = q + (if r = 0 then 0 else 1)"
    by (simp add: div_ceil_def q_def r_def)
  then show ?thesis
    using step by (simp only: a [symmetric])
qed

lemma div_ceil_pos: "0 < a \<Longrightarrow> 0 < b \<Longrightarrow> 0 < div_ceil a b"
  using div_ceil_le_iff [of b a 0] by auto

lemma div_ceil_upper: "0 < b \<Longrightarrow> a \<le> div_ceil a b * b"
  using div_ceil_le_iff [of b a "div_ceil a b"] by simp

lemma div_ceil_lower: "0 < b \<Longrightarrow> n < div_ceil a b \<Longrightarrow> n * b < a"
  using div_ceil_le_iff [of b a n] by linarith

lemma div_ceil_mult [simp]: "0 < b \<Longrightarrow> div_ceil (n * b) b = n"
  by (simp add: div_ceil_def)

section \<open>Little-endian bytes\<close>

text \<open>\<open>to_le_bytes\<close> and \<open>from_le_bytes\<close>: \<open>n\<close> bytes, least significant first.\<close>

primrec le_split :: "nat \<Rightarrow> 'a::len word \<Rightarrow> bytes" where
  "le_split 0 w = []"
| "le_split (Suc n) w = ucast w # le_split n (drop_bit 8 w)"

primrec le_join :: "bytes \<Rightarrow> 'a::len word" where
  "le_join [] = 0"
| "le_join (b # bs) = or (ucast b) (push_bit 8 (le_join bs))"

abbreviation le16 :: "u16 \<Rightarrow> bytes" where "le16 \<equiv> le_split 2"
abbreviation le32 :: "u32 \<Rightarrow> bytes" where "le32 \<equiv> le_split 4"
abbreviation le64 :: "u64 \<Rightarrow> bytes" where "le64 \<equiv> le_split 8"

lemma length_le_split [simp, layout_simps]: "length (le_split n w) = n"
  by (induction n arbitrary: w) simp_all

lemma le_join_split_take_bit: "le_join (le_split n w) = take_bit (8 * n) (w :: 'a::len word)"
proof (induction n arbitrary: w)
  case (Suc n)
  show ?case
  proof (rule bit_word_eqI)
    fix k assume k: "k < LENGTH('a)"
    show "bit (le_join (le_split (Suc n) w) :: 'a word) k = bit (take_bit (8 * Suc n) w) k"
      using k Suc by (auto simp: bit_simps)
  qed
qed simp

lemma le_join_split:
  assumes "LENGTH('a) \<le> 8 * n"
  shows "le_join (le_split n w) = (w :: 'a::len word)"
  using assms by (simp add: le_join_split_take_bit take_bit_word_eq_self)

lemma bit_le_join: "bit (le_join bs :: 'a::len word) k \<Longrightarrow> k < 8 * length bs"
  by (induction bs arbitrary: k) (fastforce simp: bit_simps dest: bit_imp_le_length)+

lemma le_split_join:
  assumes "8 * length bs \<le> LENGTH('a::len)"
  shows "le_split (length bs) (le_join bs :: 'a word) = bs"
  using assms
proof (induction bs)
  case (Cons b bs)
  have 1: "ucast (or (ucast b) (push_bit 8 (le_join bs)) :: 'a word) = b"
    using Cons.prems by (intro bit_word_eqI) (auto simp: bit_simps)
  have 2: "drop_bit 8 (or (ucast b) (push_bit 8 (le_join bs)) :: 'a word) = le_join bs"
  proof (rule bit_word_eqI)
    fix k
    show "bit (drop_bit 8 (or (ucast b) (push_bit 8 (le_join bs)) :: 'a word)) k
        = bit (le_join bs :: 'a word) k"
      using Cons.prems bit_le_join [of bs k, where ?'a = 'a]
      by (auto simp: bit_simps dest: bit_imp_le_length)
  qed
  show ?case
    using Cons 1 2 by simp
qed simp

section \<open>Slices and writes\<close>

text \<open>
  \<open>sub_slice bs i j\<close> is \<open>&bs[i..j]\<close>; the sources take it only where \<open>i <= j <= len\<close>, which every
  use in this development has as a guard. \<open>put off ys bs\<close> is
  \<open>bs[off..off + ys.len()].copy_from_slice(ys)\<close>.
\<close>

definition sub_slice :: "'a list \<Rightarrow> nat \<Rightarrow> nat \<Rightarrow> 'a list" where
  "sub_slice xs i j = take (j - i) (drop i xs)"

definition put :: "nat \<Rightarrow> 'a list \<Rightarrow> 'a list \<Rightarrow> 'a list" where
  "put off ys xs = take off xs @ ys @ drop (off + length ys) xs"

primrec put_all :: "(nat \<times> 'a list) list \<Rightarrow> 'a list \<Rightarrow> 'a list" where
  "put_all [] xs = xs"
| "put_all (f # fs) xs = put_all fs (put (fst f) (snd f) xs)"

lemma length_sub_slice [simp, layout_simps]:
  "j \<le> length xs \<Longrightarrow> length (sub_slice xs i j) = j - i"
  by (simp add: sub_slice_def)

lemma length_put [simp, layout_simps]:
  "off + length ys \<le> length xs \<Longrightarrow> length (put off ys xs) = length xs"
  by (simp add: put_def)

text \<open>Writes that tile a range one after the other write the concatenation of their bytes.\<close>

primrec tiles :: "nat \<Rightarrow> (nat \<times> 'a list) list \<Rightarrow> bool" where
  "tiles off [] = True"
| "tiles off (f # fs) = (fst f = off \<and> tiles (off + length (snd f)) fs)"

lemma put_all_tiles:
  "tiles off fs \<Longrightarrow> off + length (concat (map snd fs)) \<le> length xs \<Longrightarrow>
   put_all fs xs = take off xs @ concat (map snd fs) @ drop (off + length (concat (map snd fs))) xs"
proof (induction fs arbitrary: off xs)
  case (Cons f fs)
  let ?xs = "put (fst f) (snd f) xs"
  have "put_all fs ?xs = take (off + length (snd f)) ?xs @ concat (map snd fs)
      @ drop (off + length (snd f) + length (concat (map snd fs))) ?xs"
    using Cons.prems by (intro Cons.IH) (auto simp: put_def)
  moreover have "take (off + length (snd f)) ?xs = take off xs @ snd f"
    using Cons.prems by (simp add: put_def)
  moreover have "drop (off + length (snd f) + n) ?xs = drop (off + length (snd f) + n) xs" for n
    using Cons.prems by (simp add: put_def add.commute)
  ultimately show ?case by (simp add: add.assoc)
qed simp

lemma sub_slice_append_left [simp]:
  "j \<le> length xs \<Longrightarrow> sub_slice (xs @ ys) i j = sub_slice xs i j"
  by (cases "i \<le> j") (simp_all add: sub_slice_def)

lemma sub_slice_skip:
  "length xs \<le> i \<Longrightarrow> sub_slice (xs @ ys) i j = sub_slice ys (i - length xs) (j - length xs)"
  by (cases "i \<le> j") (simp_all add: sub_slice_def)

lemma sub_slice_prefix: "length xs = n \<Longrightarrow> sub_slice (xs @ ys) 0 n = xs"
  by (simp add: sub_slice_def)

lemma sub_slice_0_length [simp]: "sub_slice xs 0 (length xs) = xs"
  by (simp add: sub_slice_def)

lemma sub_slice_take: "j \<le> n \<Longrightarrow> sub_slice (take n xs) i j = sub_slice xs i j"
  by (cases "i \<le> j") (simp_all add: sub_slice_def drop_take min_def)

lemma sub_slice_append_adjacent:
  "i \<le> j \<Longrightarrow> j \<le> k \<Longrightarrow> sub_slice xs i j @ sub_slice xs j k = sub_slice xs i k"
proof -
  assume "i \<le> j" "j \<le> k"
  then have k: "k - i = (j - i) + (k - j)" and j: "drop j xs = drop (j - i) (drop i xs)" by simp_all
  show ?thesis by (simp only: sub_slice_def k take_add j)
qed

text \<open>
  Reading a tile back: a buffer that starts with the concatenation of the tiles has each of them
  at its offset, and a buffer that has each tile at its offset starts with the concatenation.
\<close>

abbreviation tile_bytes :: "(nat \<times> 'a list) list \<Rightarrow> 'a list" where
  "tile_bytes fs \<equiv> concat (map snd fs)"

lemma sub_slice_tile_offset:
  "tiles off fs \<Longrightarrow> f \<in> set fs \<Longrightarrow> length pre = off \<Longrightarrow>
   sub_slice (pre @ tile_bytes fs @ rest) (fst f) (fst f + length (snd f)) = snd f"
proof (induction fs arbitrary: off pre)
  case (Cons g fs)
  show ?case
  proof (cases "f = g")
    case True
    then show ?thesis using Cons.prems by (simp add: sub_slice_def)
  next
    case False
    then have "sub_slice ((pre @ snd g) @ tile_bytes fs @ rest) (fst f) (fst f + length (snd f)) = snd f"
      using Cons.prems by (intro Cons.IH) auto
    then show ?thesis by simp
  qed
qed simp

lemma sub_slice_tile:
  "tiles 0 fs \<Longrightarrow> (i, ys) \<in> set fs \<Longrightarrow> j = i + length ys \<Longrightarrow>
   sub_slice (tile_bytes fs @ rest) i j = ys"
  using sub_slice_tile_offset [of 0 fs "(i, ys)" "[]" rest] by simp

lemma sub_slice_single: "i < length xs \<Longrightarrow> sub_slice xs i (Suc i) = [xs ! i]"
  by (simp add: sub_slice_def take_Suc_conv_app_nth)

lemma tiles_bound:
  "tiles off fs \<Longrightarrow> f \<in> set fs \<Longrightarrow> fst f + length (snd f) \<le> off + length (tile_bytes fs)"
proof (induction fs arbitrary: off)
  case (Cons g fs)
  then show ?case by (cases "f = g") (auto dest!: Cons.IH)
qed simp

lemma nth_tile:
  assumes "tiles 0 fs" "(i, [y]) \<in> set fs"
  shows "(tile_bytes fs @ rest) ! i = y"
proof -
  have "i < length (tile_bytes fs @ rest)" using tiles_bound [OF assms] by simp
  then show ?thesis
    using sub_slice_tile [OF assms, of "Suc i" rest] by (simp add: sub_slice_single)
qed

lemma take_tiles_offset:
  "tiles off fs \<Longrightarrow>
   (\<And>i ys. (i, ys) \<in> set fs \<Longrightarrow> sub_slice xs i (i + length ys) = ys) \<Longrightarrow>
   sub_slice xs off (off + length (tile_bytes fs)) = tile_bytes fs"
proof (induction fs arbitrary: off)
  case (Cons f fs)
  have f: "sub_slice xs off (off + length (snd f)) = snd f"
    using Cons.prems(1) Cons.prems(2) [of "fst f" "snd f"] by (cases f) simp
  let ?m = "off + length (snd f)"
  have fs: "sub_slice xs ?m (?m + length (tile_bytes fs)) = tile_bytes fs"
    using Cons.prems by (intro Cons.IH) auto
  have end_pos: "off + length (tile_bytes (f # fs)) = ?m + length (tile_bytes fs)" by simp
  have "sub_slice xs off ?m @ sub_slice xs ?m (?m + length (tile_bytes fs))
      = sub_slice xs off (?m + length (tile_bytes fs))"
    by (rule sub_slice_append_adjacent) simp_all
  then show ?case
    unfolding end_pos by (simp only: f fs list.map concat.simps)
qed (simp add: sub_slice_def)

lemma take_tiles:
  assumes "tiles 0 fs" "\<And>i ys. (i, ys) \<in> set fs \<Longrightarrow> sub_slice xs i (i + length ys) = ys"
  shows "take (length (tile_bytes fs)) xs = tile_bytes fs"
  using take_tiles_offset [OF assms] by (simp add: sub_slice_def)

end
