(* ===== verification/Sequence.thy ===== *)
theory Sequence
  imports Prelude "HOL-Library.While_Combinator"
begin

text \<open>
  \<^verbatim>\<open>sequence.rs\<close>: the receive-side sequence tracker. \<open>missing\<close> and \<open>future_received\<close> are the two
  hash sets of the source; \<open>next_expected\<close> is the first sequence not yet received in order. All
  arithmetic wraps at 32 bits, as \<open>wrapping_add\<close> and \<open>wrapping_sub\<close> do.
\<close>

section \<open>State and observations\<close>

definition MAX_TRACKED_GAP :: u32 where
  "MAX_TRACKED_GAP = 4096"

definition I32_MAX :: u32 where
  "I32_MAX = 2147483647"

record sequence_observation =
  obs_sequence :: u32
  obs_expected :: u32
  obs_missing_before :: u32
  obs_duplicate_or_reordered :: bool

record sequence_stats =
  received :: u64
  missing_count :: u64
  duplicate_or_reordered :: u64
  highest_seen :: "u32 option"

record sequence_tracker =
  next_expected :: "u32 option"
  missing :: "u32 set"
  future_received :: "u32 set"
  tracker_stats :: sequence_stats

definition sequence_stats_default :: sequence_stats where
  "sequence_stats_default =
     \<lparr>received = 0, missing_count = 0, duplicate_or_reordered = 0, highest_seen = None\<rparr>"

definition tracker_new :: sequence_tracker where
  "tracker_new =
     \<lparr>next_expected = None, missing = {}, future_received = {}, tracker_stats = sequence_stats_default\<rparr>"

section \<open>Operations\<close>

text \<open>The loop \<open>while self.future_received.remove(&next)\<close> of \<open>advance_expected\<close>.\<close>

function skip_received :: "u32 \<Rightarrow> u32 set \<Rightarrow> u32 set \<Rightarrow> u32 \<times> u32 set \<times> u32 set" where
  "skip_received next future mis =
     (if next \<in> future then skip_received (next + 1) (future - {next}) (mis - {next})
      else (next, future, mis))"
  by pat_completeness auto
termination
proof (relation "measure (\<lambda>(next, future, mis). card future)", goal_cases)
  case (2 "next" future mis)
  then have "card (future - {next}) < card future"
    by (intro card_Diff1_less) simp_all
  then show ?case by simp
qed simp

declare skip_received.simps [simp del]

definition advance_expected :: "sequence_tracker \<Rightarrow> u32 \<Rightarrow> sequence_tracker" where
  "advance_expected t s =
     (case skip_received (s + 1) (future_received t) (missing t - {s}) of
       (next, future, mis) \<Rightarrow>
         t\<lparr>missing := mis, future_received := future, next_expected := Some next\<rparr>)"

text \<open>The loop that records a gap: \<open>n\<close> consecutive sequences from \<open>m\<close> on become missing.\<close>

fun insert_run :: "nat \<Rightarrow> u32 \<Rightarrow> u32 set \<Rightarrow> u32 set" where
  "insert_run 0 m mis = mis"
| "insert_run (Suc n) m mis = insert_run n (m + 1) (insert m mis)"

definition forward_diff :: "u32 \<Rightarrow> bool" where
  "forward_diff d \<longleftrightarrow> d \<le> I32_MAX"

definition track_sequence :: "sequence_tracker \<Rightarrow> u32 \<Rightarrow> sequence_tracker \<times> bool" where
  \<comment> \<open>lines 62 to 82 of \<open>observe\<close>: the new tracker and whether the branch found a duplicate\<close>
  "track_sequence t s =
     (let expected = (case next_expected t of Some e \<Rightarrow> e | None \<Rightarrow> s);
          diff = s - expected;
          forward = (next_expected t = None \<or> forward_diff diff)
      in if next_expected t = None then (t\<lparr>next_expected := Some (s + 1)\<rparr>, False)
         else if s \<in> missing t then
           (let t1 = t\<lparr>missing := missing t - {s}\<rparr>
            in (if s = expected then advance_expected t1 s else t1, True))
         else if forward then
           (if diff = 0 then (advance_expected t s, False)
            else
              (t\<lparr>missing := insert_run (unat (min diff MAX_TRACKED_GAP)) expected (missing t),
                 future_received := insert s (future_received t)\<rparr>,
               s \<in> future_received t))
         else (t, False))"

definition highest_after :: "u32 option \<Rightarrow> u32 \<Rightarrow> u32" where
  "highest_after h s =
     (case h of None \<Rightarrow> s | Some highest \<Rightarrow> if forward_diff (s - highest) then s else highest)"

definition observe :: "sequence_tracker \<Rightarrow> u32 \<Rightarrow> sequence_tracker \<times> sequence_observation" where
  "observe t s =
     (let expected = (case next_expected t of Some e \<Rightarrow> e | None \<Rightarrow> s);
          diff = s - expected;
          forward = (next_expected t = None \<or> forward_diff diff);
          missing_before = (if forward then diff else 0);
          st1 = (tracker_stats t)
            \<lparr>received := sat_add (received (tracker_stats t)) 1,
             highest_seen := Some (highest_after (highest_seen (tracker_stats t)) s)\<rparr>;
          (t1, dup_branch) = track_sequence (t\<lparr>tracker_stats := st1\<rparr>) s;
          dup = (\<not> forward \<or> dup_branch);
          st2 = (tracker_stats t1)\<lparr>missing_count := of_nat (card (missing t1))\<rparr>;
          st3 = (if dup then st2\<lparr>duplicate_or_reordered := sat_add (duplicate_or_reordered st2) 1\<rparr>
                 else st2)
      in (t1\<lparr>tracker_stats := st3\<rparr>,
          \<lparr>obs_sequence = s, obs_expected = expected, obs_missing_before = missing_before,
           obs_duplicate_or_reordered = dup\<rparr>))"

fun observe_all :: "sequence_tracker \<Rightarrow> u32 list \<Rightarrow> sequence_tracker" where
  "observe_all t [] = t"
| "observe_all t (s # ss) = observe_all (fst (observe t s)) ss"

section \<open>Runs of consecutive sequence numbers\<close>

text \<open>\<open>ahead e n\<close>: the \<open>n\<close> sequence numbers from \<open>e\<close> on, across the wrap at \<open>2 ^ 32\<close>.\<close>

definition ahead :: "u32 \<Rightarrow> nat \<Rightarrow> u32 set" where
  "ahead e n = {x. unat (x - e) < n}"

lemma ahead_0 [simp]: "ahead e 0 = {}"
  by (simp add: ahead_def)

lemma unat_u32_less: "unat (x :: u32) < 4294967296"
  using unsigned_less [of x] by simp

lemma unat_diff_Suc:
  assumes "x \<noteq> (e :: u32)"
  shows "unat (x - e) = Suc (unat (x - (e + 1)))"
proof -
  have "x - e \<noteq> 0" using assms by simp
  then have "unat (x - e - 1) = unat (x - e) - 1" and "unat (x - e) \<noteq> 0"
    by (simp_all add: unat_minus_one unat_eq_0)
  then show ?thesis by (simp add: diff_diff_eq)
qed

lemma ahead_Suc: "ahead e (Suc n) = insert e (ahead (e + 1) n)"
proof (intro set_eqI)
  fix x
  show "x \<in> ahead e (Suc n) \<longleftrightarrow> x \<in> insert e (ahead (e + 1) n)"
    using unat_diff_Suc [of x e] by (cases "x = e") (auto simp: ahead_def)
qed

lemma unat_diff_of_nat:
  fixes x e :: u32
  assumes "j \<le> unat (x - e)"
  shows "unat (x - (e + of_nat j)) = unat (x - e) - j"
proof -
  have j: "unat (of_nat j :: u32) = j"
    using assms unat_u32_less [of "x - e"] by (simp add: unat_of_nat)
  then have "(of_nat j :: u32) \<le> x - e"
    using assms by (simp add: word_le_nat_alt)
  then have "unat (x - e - of_nat j) = unat (x - e) - j"
    by (simp add: unat_sub j)
  then show ?thesis by (simp add: diff_diff_eq)
qed

lemma mem_ahead_of_nat:
  "k < 4294967296 \<Longrightarrow> e + of_nat k \<in> ahead e n \<longleftrightarrow> k < n"
  by (simp add: ahead_def unat_of_nat)

lemma ahead_subsetD:
  assumes "ahead e j \<subseteq> ahead e k" "j \<le> 4294967296"
  shows "j \<le> k"
proof (rule ccontr)
  assume "\<not> j \<le> k"
  then have "k < j" and "k < 4294967296" using assms(2) by simp_all
  then have "e + of_nat k \<in> ahead e j" and "e + of_nat k \<notin> ahead e k"
    by (simp_all add: mem_ahead_of_nat)
  with assms(1) show False by blast
qed

lemma ahead_snoc:
  assumes "n < 4294967296"
  shows "ahead e (Suc n) = insert (e + of_nat n) (ahead e n)"
proof (intro set_eqI)
  fix x :: u32
  have "unat (x - e) = n \<longleftrightarrow> x = e + of_nat n"
  proof
    assume "unat (x - e) = n"
    moreover have "of_nat (unat (x - e)) = x - e" by simp
    ultimately have "x - e = of_nat n" by simp
    then show "x = e + of_nat n" by (simp add: diff_eq_eq add.commute)
  next
    assume "x = e + of_nat n"
    then show "unat (x - e) = n" using assms by (simp add: unat_of_nat)
  qed
  then show "x \<in> ahead e (Suc n) \<longleftrightarrow> x \<in> insert (e + of_nat n) (ahead e n)"
    by (auto simp: ahead_def less_Suc_eq)
qed

lemma card_ahead: "n \<le> 4294967296 \<Longrightarrow> card (ahead e n) = n"
proof (induction n)
  case (Suc n)
  then have "e + of_nat n \<notin> ahead e n" by (simp add: mem_ahead_of_nat)
  with Suc show ?case by (simp add: ahead_snoc)
qed simp

lemma ahead_mono: "m \<le> n \<Longrightarrow> ahead e m \<subseteq> ahead e n"
  by (auto simp: ahead_def)

lemma insert_run_ahead: "insert_run n m mis = mis \<union> ahead m n"
  by (induction n arbitrary: m mis) (auto simp: ahead_Suc)

section \<open>The skip loop\<close>

lemma card_u32_le: "card (F :: u32 set) \<le> 4294967296"
proof -
  have "card F \<le> card (UNIV :: u32 set)" by (intro card_mono) simp_all
  then show ?thesis by (simp add: card_word)
qed

lemma skip_received_spec:
  "\<exists>j. j \<le> card F \<and> ahead n j \<subseteq> F \<and> n + of_nat j \<notin> F - ahead n j \<and>
     skip_received n F M = (n + of_nat j, F - ahead n j, M - ahead n j)"
proof (induction n F M rule: skip_received.induct)
  case (1 n F M)
  show ?case
  proof (cases "n \<in> F")
    case True
    from "1.IH" [OF True] obtain j where
      j: "j \<le> card (F - {n})" "ahead (n + 1) j \<subseteq> F - {n}"
        "n + 1 + of_nat j \<notin> (F - {n}) - ahead (n + 1) j"
        "skip_received (n + 1) (F - {n}) (M - {n})
           = (n + 1 + of_nat j, (F - {n}) - ahead (n + 1) j, (M - {n}) - ahead (n + 1) j)"
      by blast
    have "Suc j \<le> card F"
    proof -
      have "Suc (card (F - {n})) = card F" using True by (intro card.remove [symmetric]) simp_all
      with j(1) show ?thesis by simp
    qed
    moreover have "ahead n (Suc j) \<subseteq> F" using j(2) True by (auto simp: ahead_Suc)
    moreover have "n + of_nat (Suc j) \<notin> F - ahead n (Suc j)"
      using j(3) by (auto simp: ahead_Suc add.assoc)
    moreover have "skip_received n F M
        = (n + of_nat (Suc j), F - ahead n (Suc j), M - ahead n (Suc j))"
    proof -
      have "skip_received n F M = skip_received (n + 1) (F - {n}) (M - {n})"
        using True by (subst skip_received.simps) simp
      moreover have "A - {n} - ahead (n + 1) j = A - ahead n (Suc j)" for A :: "u32 set"
        by (auto simp: ahead_Suc)
      ultimately show ?thesis by (simp add: j(4) add.assoc)
    qed
    ultimately show ?thesis by blast
  next
    case False
    then show ?thesis by (intro exI [of _ 0]) (simp add: skip_received.simps [of n F M])
  qed
qed

text \<open>The loop as the code writes it: a guard that removes an element, and a body.\<close>

definition catch_up_guard :: "u32 \<times> u32 set \<times> u32 set \<Rightarrow> bool" where
  "catch_up_guard st = (case st of (next, future, mis) \<Rightarrow> next \<in> future)"

definition catch_up_body :: "u32 \<times> u32 set \<times> u32 set \<Rightarrow> u32 \<times> u32 set \<times> u32 set" where
  "catch_up_body st = (case st of (next, future, mis) \<Rightarrow> (next + 1, future - {next}, mis - {next}))"

lemma catch_up_simps:
  "catch_up_guard (n, F, M) = (n \<in> F)" "catch_up_body (n, F, M) = (n + 1, F - {n}, M - {n})"
  by (simp_all add: catch_up_guard_def catch_up_body_def)

lemma catch_up_while: "while_option catch_up_guard catch_up_body (n, F, M) = Some (skip_received n F M)"
proof (induction n F M rule: skip_received.induct)
  case (1 n F M)
  show ?case
  proof (cases "n \<in> F")
    case True
    then show ?thesis
      using 1 [OF True] by (subst while_option_unfold, subst skip_received.simps) (simp add: catch_up_simps)
  next
    case False
    then show ?thesis
      by (subst while_option_unfold, subst skip_received.simps) (simp add: catch_up_simps)
  qed
qed

text \<open>
  C40. The catch-up loop of the sequence tracker ends. Started at any sequence and from any state, also where
  the 32-bit sequence numbers wrap around, the loop of \<open>advance_expected\<close> stops after at most as many
  rounds as packets were waiting, with a next expected sequence that is not waiting, and
  \<open>advance_expected\<close> stores what it computed.
\<close>
theorem catch_up_terminates:
  "\<exists>next future mis j.
     while_option catch_up_guard catch_up_body (s + 1, future_received t, missing t - {s}) = Some (next, future, mis) \<and>
     advance_expected t s = t\<lparr>missing := mis, future_received := future, next_expected := Some next\<rparr> \<and>
     next \<notin> future \<and> j \<le> card (future_received t) \<and> next = s + 1 + of_nat j"
proof -
  obtain j where j: "j \<le> card (future_received t)" "s + 1 + of_nat j \<notin> future_received t - ahead (s + 1) j"
      "skip_received (s + 1) (future_received t) (missing t - {s}) =
        (s + 1 + of_nat j, future_received t - ahead (s + 1) j, missing t - {s} - ahead (s + 1) j)"
    using skip_received_spec [of "future_received t" "s + 1" "missing t - {s}"] by blast
  show ?thesis
    unfolding catch_up_while advance_expected_def j(3) prod.case using j(1,2) by blast
qed

lemma skip_received_run:
  assumes "k < 4294967296"
  shows "skip_received n (ahead n k) M = (n + of_nat k, {}, M - ahead n k)"
proof -
  obtain j where j: "j \<le> card (ahead n k)" "ahead n j \<subseteq> ahead n k"
      "n + of_nat j \<notin> ahead n k - ahead n j"
      "skip_received n (ahead n k) M = (n + of_nat j, ahead n k - ahead n j, M - ahead n j)"
    using skip_received_spec [of "ahead n k" n M] by blast
  have "j \<le> k" using j(1) assms by (simp add: card_ahead)
  moreover have "\<not> j < k"
    using j(3) \<open>j \<le> k\<close> assms by (auto simp: mem_ahead_of_nat)
  ultimately have "j = k" by simp
  with j(4) show ?thesis by simp
qed

section \<open>The tracker's invariant\<close>

text \<open>
  Relative to \<open>next_expected = e\<close>: recorded losses lie in the \<open>MAX_TRACKED_GAP\<close> sequences from
  \<open>e\<close> on, early arrivals in the forward half of the sequence space and not at \<open>e\<close> itself, and
  the published \<open>missing\<close> statistic is the size of the loss set.
\<close>

definition window_inv :: "sequence_tracker \<Rightarrow> bool" where
  "window_inv t \<longleftrightarrow>
     (case next_expected t of
        None \<Rightarrow> missing t = {} \<and> future_received t = {}
      | Some e \<Rightarrow> missing t \<subseteq> ahead e 4096 \<and> future_received t \<subseteq> ahead e 2147483648 \<and>
                  e \<notin> future_received t)"

definition tracker_inv :: "sequence_tracker \<Rightarrow> bool" where
  "tracker_inv t \<longleftrightarrow>
     window_inv t \<and> missing_count (tracker_stats t) = of_nat (card (missing t))"

lemma ahead_shift:
  assumes "x \<in> ahead e n" "x \<notin> ahead e j"
  shows "x \<in> ahead (e + of_nat j) (n - j)"
  using assms unat_diff_of_nat [of j x e] by (auto simp: ahead_def not_less)

lemma advance_expected_spec:
  assumes "missing t \<subseteq> ahead e 4096" "future_received t \<subseteq> ahead e 2147483648"
    and "e \<notin> future_received t"
  shows "window_inv (advance_expected t e)"
proof -
  let ?F = "future_received t"
  obtain j where j: "j \<le> card ?F" "ahead (e + 1) j \<subseteq> ?F" "e + 1 + of_nat j \<notin> ?F - ahead (e + 1) j"
      "skip_received (e + 1) ?F (missing t - {e})
        = (e + 1 + of_nat j, ?F - ahead (e + 1) j, missing t - {e} - ahead (e + 1) j)"
    using skip_received_spec [of ?F "e + 1" "missing t - {e}"] by blast
  have e': "e + 1 + of_nat j = e + of_nat (Suc j)" by simp
  have M: "missing t - {e} - ahead (e + 1) j \<subseteq> ahead (e + of_nat (Suc j)) 4096"
  proof
    fix x assume "x \<in> missing t - {e} - ahead (e + 1) j"
    then have "x \<in> ahead e 4096" "x \<notin> ahead e (Suc j)" using assms(1) by (auto simp: ahead_Suc)
    then have "x \<in> ahead (e + of_nat (Suc j)) (4096 - Suc j)" by (rule ahead_shift)
    then show "x \<in> ahead (e + of_nat (Suc j)) 4096" by (auto simp: ahead_def)
  qed
  have F: "?F - ahead (e + 1) j \<subseteq> ahead (e + of_nat (Suc j)) 2147483648"
  proof
    fix x assume "x \<in> ?F - ahead (e + 1) j"
    then have "x \<in> ahead e 2147483648" "x \<notin> ahead e (Suc j)"
      using assms(2,3) by (auto simp: ahead_Suc)
    then have "x \<in> ahead (e + of_nat (Suc j)) (2147483648 - Suc j)" by (rule ahead_shift)
    then show "x \<in> ahead (e + of_nat (Suc j)) 2147483648" by (auto simp: ahead_def)
  qed
  show ?thesis
    using M [folded e'] F [folded e'] j(3) by (simp add: advance_expected_def j(4) window_inv_def)
qed

lemma window_inv_SomeD:
  "window_inv t \<Longrightarrow> next_expected t = Some e \<Longrightarrow>
   missing t \<subseteq> ahead e 4096 \<and> future_received t \<subseteq> ahead e 2147483648 \<and> e \<notin> future_received t"
  by (simp add: window_inv_def)

lemma track_sequence_inv:
  assumes "window_inv t"
  shows "window_inv (fst (track_sequence t s))"
proof (cases "next_expected t")
  case None
  then show ?thesis using assms by (simp add: track_sequence_def window_inv_def)
next
  case (Some e)
  note inv = window_inv_SomeD [OF assms Some]
  consider (known) "s \<in> missing t" | (head) "s \<notin> missing t" "s = e"
    | (gap) "s \<notin> missing t" "s \<noteq> e" "forward_diff (s - e)"
    | (old) "s \<notin> missing t" "s \<noteq> e" "\<not> forward_diff (s - e)" by blast
  then show ?thesis
  proof cases
    case known
    have "window_inv (advance_expected (t\<lparr>missing := missing t - {s}\<rparr>) e)"
      using inv by (intro advance_expected_spec) auto
    moreover have "window_inv (t\<lparr>missing := missing t - {s}\<rparr>)"
      using Some inv by (auto simp: window_inv_def)
    ultimately show ?thesis using Some known
      by (cases "s = e") (simp_all add: track_sequence_def Let_def)
  next
    case head
    have "window_inv (advance_expected t e)" using inv by (intro advance_expected_spec) auto
    then show ?thesis using Some head by (simp add: track_sequence_def forward_diff_def I32_MAX_def)
  next
    case gap
    let ?n = "unat (min (s - e) MAX_TRACKED_GAP)"
    have "?n \<le> 4096"
      by (auto simp: min_def MAX_TRACKED_GAP_def word_le_nat_alt)
    then have "insert_run ?n e (missing t) \<subseteq> ahead e 4096"
      using inv ahead_mono [of ?n 4096 e] by (auto simp: insert_run_ahead)
    moreover have "s \<in> ahead e 2147483648"
      using gap by (simp add: ahead_def forward_diff_def I32_MAX_def word_le_nat_alt)
    ultimately show ?thesis
      using Some gap inv by (auto simp: track_sequence_def window_inv_def)
  next
    case old
    then show ?thesis using Some assms
      by (auto simp: track_sequence_def forward_diff_def I32_MAX_def)
  qed
qed

lemma track_sequence_stats: "tracker_stats (fst (track_sequence t s)) = tracker_stats t"
  by (auto simp: track_sequence_def advance_expected_def Let_def split: prod.splits option.splits)

lemma track_sequence_frame:
  "track_sequence (t\<lparr>tracker_stats := st\<rparr>) s
     = (fst (track_sequence t s)\<lparr>tracker_stats := st\<rparr>, snd (track_sequence t s))"
  by (auto simp: track_sequence_def advance_expected_def Let_def split: prod.splits option.splits)

lemma observe_state [simp]:
  "next_expected (fst (observe t s)) = next_expected (fst (track_sequence t s))"
  "missing (fst (observe t s)) = missing (fst (track_sequence t s))"
  "future_received (fst (observe t s)) = future_received (fst (track_sequence t s))"
  by (simp_all add: observe_def Let_def track_sequence_frame)

lemma observe_stats:
  "missing_count (tracker_stats (fst (observe t s))) = of_nat (card (missing (fst (observe t s))))"
  "received (tracker_stats (fst (observe t s))) = sat_add (received (tracker_stats t)) 1"
  "highest_seen (tracker_stats (fst (observe t s)))
     = Some (highest_after (highest_seen (tracker_stats t)) s)"
  by (simp_all add: observe_def Let_def track_sequence_frame)

lemma observe_duplicates:
  "duplicate_or_reordered (tracker_stats (fst (observe t s)))
     = (if obs_duplicate_or_reordered (snd (observe t s))
        then sat_add (duplicate_or_reordered (tracker_stats t)) 1
        else duplicate_or_reordered (tracker_stats t))"
  by (simp add: observe_def Let_def track_sequence_frame)

lemma window_inv_observe: "window_inv t \<Longrightarrow> window_inv (fst (observe t s))"
  using track_sequence_inv [of t s] by (simp add: window_inv_def split: option.splits)

lemma tracker_inv_new: "tracker_inv tracker_new"
  by (simp add: tracker_inv_def window_inv_def tracker_new_def sequence_stats_default_def)

lemma tracker_inv_observe: "tracker_inv t \<Longrightarrow> tracker_inv (fst (observe t s))"
  by (simp add: tracker_inv_def window_inv_observe observe_stats(1) del: observe_state)

lemma tracker_inv_observe_all: "tracker_inv t \<Longrightarrow> tracker_inv (observe_all t ss)"
  by (induction ss arbitrary: t) (simp_all add: tracker_inv_observe)

lemma tracker_inv_missing_bound:
  assumes "tracker_inv t"
  shows "card (missing t) \<le> 4096"
proof (cases "next_expected t")
  case None
  then show ?thesis using assms by (simp add: tracker_inv_def window_inv_def)
next
  case (Some e)
  then have "missing t \<subseteq> ahead e 4096" using assms by (simp add: tracker_inv_def window_inv_def)
  then have "card (missing t) \<le> card (ahead e 4096)" by (intro card_mono) simp_all
  then show ?thesis by (simp add: card_ahead)
qed

lemma observe_all_append: "observe_all t (xs @ ys) = observe_all (observe_all t xs) ys"
  by (induction xs arbitrary: t) simp_all

text \<open>
  C18. Every run of the tracker keeps its invariant, so the loss set never holds more than
  \<open>MAX_TRACKED_GAP\<close> sequences and the published count is exactly its size, whatever order,
  duplicates, gaps and wrap-arounds the network produces.
\<close>

theorem missing_bounded_and_counted:
  "tracker_inv (observe_all tracker_new ss)
   \<and> card (missing (observe_all tracker_new ss)) \<le> 4096
   \<and> unat (missing_count (tracker_stats (observe_all tracker_new ss)))
      = card (missing (observe_all tracker_new ss))"
proof -
  have inv: "tracker_inv (observe_all tracker_new ss)"
    by (intro tracker_inv_observe_all tracker_inv_new)
  moreover from inv have "card (missing (observe_all tracker_new ss)) \<le> 4096"
    by (rule tracker_inv_missing_bound)
  moreover from this inv have "unat (missing_count (tracker_stats (observe_all tracker_new ss)))
      = card (missing (observe_all tracker_new ss))"
    by (simp add: tracker_inv_def unat_of_nat)
  ultimately show ?thesis by blast
qed

section \<open>Behaviour on in-order, lossy and healed streams\<close>

definition run_from :: "u32 \<Rightarrow> nat \<Rightarrow> u32 list" where
  "run_from s n = map (\<lambda>k. s + of_nat k) [0..<n]"

lemma run_from_0 [simp]: "run_from s 0 = []"
  by (simp add: run_from_def)

lemma run_from_Suc: "run_from s (Suc n) = run_from s n @ [s + of_nat n]"
  by (simp add: run_from_def)

lemma sat_add_count: "Suc n < 2 ^ 64 \<Longrightarrow> sat_add (of_nat n) 1 = (of_nat (Suc n) :: u64)"
  by (intro word_unat_eq_iff [THEN iffD2]) (simp add: unat_sat_add unat_of_nat del: of_nat_Suc)

lemma forward_diff_0 [simp]: "forward_diff 0" and forward_diff_1 [simp]: "forward_diff 1"
  by (simp_all add: forward_diff_def I32_MAX_def word_le_nat_alt)

lemma in_order_state:
  assumes "Suc n < 2 ^ 64"
  shows "observe_all tracker_new (run_from s (Suc n)) =
    \<lparr>next_expected = Some (s + of_nat (Suc n)), missing = {}, future_received = {},
     tracker_stats = \<lparr>received = of_nat (Suc n), missing_count = 0, duplicate_or_reordered = 0,
                      highest_seen = Some (s + of_nat n)\<rparr>\<rparr>"
  using assms
proof (induction n)
  case 0
  show ?case
    by (simp add: run_from_def observe_def track_sequence_def tracker_new_def
        sequence_stats_default_def highest_after_def sat_add_def)
next
  case (Suc n)
  have "sat_add (of_nat (Suc n)) 1 = (of_nat (Suc (Suc n)) :: u64)"
    using Suc.prems by (intro sat_add_count) simp
  then show ?case
    using Suc
    by (subst run_from_Suc)
      (simp add: observe_all_append observe_def track_sequence_def advance_expected_def
        skip_received.simps [of _ "{}"] highest_after_def Let_def algebra_simps)
qed

text \<open>
  A stream received in order from any starting sequence, across the 32-bit wrap, reports no
  loss, no duplicate, and a \<open>received\<close> count equal to its length.
\<close>

lemma in_order_stream_is_clean:
  assumes "n < 2 ^ 64 - 1"
  shows "tracker_stats (observe_all tracker_new (run_from s (Suc n))) =
     \<lparr>received = of_nat (Suc n), missing_count = 0, duplicate_or_reordered = 0,
      highest_seen = Some (s + of_nat n)\<rparr>"
  using assms by (subst in_order_state) simp_all

theorem in_order_stream_is_clean_witness:
  "tracker_stats (observe_all tracker_new (run_from 4294967295 (Suc 1))) =
     \<lparr>received = 2, missing_count = 0, duplicate_or_reordered = 0, highest_seen = Some 0\<rparr>"
  using in_order_stream_is_clean [of 1 4294967295] by simp

text \<open>One packet \<open>s + 1\<close> is lost and \<open>n\<close> packets after it arrive in order.\<close>

definition gap_run :: "u32 \<Rightarrow> nat \<Rightarrow> sequence_tracker" where
  "gap_run s n = observe_all tracker_new (s # run_from (s + 2) n)"

lemma gap_run_Suc: "gap_run s (Suc n) = fst (observe (gap_run s n) (s + 2 + of_nat n))"
  by (simp add: gap_run_def run_from_Suc observe_all_append)

lemma gap_state:
  assumes "n < 2147483647"
  shows "let t = gap_run s n in next_expected t = Some (s + 1) \<and> missing t = ahead (s + 1) (min n 4096) \<and>
    future_received t = ahead (s + 2) n \<and>
    received (tracker_stats t) = of_nat (Suc n) \<and> duplicate_or_reordered (tracker_stats t) = 0"
  using assms
proof (induction n)
  case 0
  show ?case
    by (simp add: gap_run_def observe_def track_sequence_def tracker_new_def
        sequence_stats_default_def highest_after_def sat_add_def)
next
  case (Suc n)
  let ?t = "gap_run s n"
  let ?x = "s + 2 + of_nat n"
  have IH: "next_expected ?t = Some (s + 1)" "missing ?t = ahead (s + 1) (min n 4096)"
      "future_received ?t = ahead (s + 2) n" "received (tracker_stats ?t) = of_nat (Suc n)"
      "duplicate_or_reordered (tracker_stats ?t) = 0"
    using Suc by (simp_all add: Let_def)
  have diff: "?x - (s + 1) = of_nat (Suc n)" by simp
  have un: "unat (of_nat (Suc n) :: u32) = Suc n"
    using Suc.prems by (simp add: unat_of_nat del: of_nat_Suc)
  have notmis: "?x \<notin> ahead (s + 1) (min n 4096)" and notfut: "?x \<notin> ahead (s + 2) n"
    using Suc.prems un unfolding ahead_def by (simp_all add: diff unat_of_nat del: of_nat_Suc)
  have fwd: "forward_diff (of_nat (Suc n))"
    using Suc.prems un by (simp add: forward_diff_def I32_MAX_def word_le_nat_alt del: of_nat_Suc)
  have nz: "of_nat (Suc n) \<noteq> (0 :: u32)" using un by (metis nat.distinct(1) unat_0)
  have gap: "unat (min (of_nat (Suc n)) MAX_TRACKED_GAP) = min (Suc n) 4096"
    using un by (auto simp: min_def MAX_TRACKED_GAP_def word_le_nat_alt simp del: of_nat_Suc)
  have mis: "ahead (s + 1) (min n 4096) \<union> ahead (s + 1) (min (Suc n) 4096)
      = ahead (s + 1) (min (Suc n) 4096)"
    by (intro Un_absorb1 ahead_mono) (auto simp: min_def)
  have track: "track_sequence ?t ?x =
      (?t\<lparr>missing := ahead (s + 1) (min (Suc n) 4096), future_received := ahead (s + 2) (Suc n)\<rparr>, False)"
    using notmis notfut fwd nz gap mis Suc.prems
    by (simp only: track_sequence_def IH option.case diff Let_def)
      (simp add: IH insert_run_ahead ahead_snoc del: of_nat_Suc)
  have "sat_add (of_nat (Suc n)) 1 = (of_nat (Suc (Suc n)) :: u64)"
    using Suc.prems by (intro sat_add_count) simp
  moreover have "\<not> obs_duplicate_or_reordered (snd (observe ?t ?x))"
    using fwd diff by (simp add: observe_def Let_def track_sequence_frame track IH del: of_nat_Suc)
  ultimately show ?case
    by (simp add: gap_run_Suc track IH observe_stats observe_duplicates Let_def del: of_nat_Suc)
qed

text \<open>
  The tracker over-reports loss. After a single lost packet \<open>s + 1\<close>, followed by \<open>n\<close> packets
  that all arrive in order, the missing statistic is \<open>min n 4096\<close>, not 1: the packets received
  beyond the gap are inserted in the loss set again and again.
\<close>

lemma one_loss_counted_many_times:
  assumes "n < 2147483647"
  shows "unat (missing_count (tracker_stats (gap_run s n))) = min n 4096
    \<and> received (tracker_stats (gap_run s n)) = of_nat (Suc n)
    \<and> duplicate_or_reordered (tracker_stats (gap_run s n)) = 0"
proof -
  have "missing_count (tracker_stats (gap_run s n)) = of_nat (card (missing (gap_run s n)))"
    using tracker_inv_observe_all [OF tracker_inv_new, of "s # run_from (s + 2) n"]
    by (simp only: gap_run_def tracker_inv_def)
  with gap_state [OF assms, of s] show ?thesis
    by (simp add: Let_def card_ahead unat_of_nat)
qed

theorem one_loss_counted_many_times_witness:
  "unat (missing_count (tracker_stats (gap_run 9 1000))) = 1000"
  using one_loss_counted_many_times [of 1000 9] by simp

text \<open>
  The tracker's memory is not bounded by its gap limit: with one packet lost for good, every
  later packet stays in \<open>future_received\<close>, up to half the sequence space.
\<close>

lemma permanent_loss_grows_future_set:
  assumes "n < 2147483647"
  shows "card (future_received (gap_run s n)) = n \<and> next_expected (gap_run s n) = Some (s + 1)"
  using gap_state [OF assms, of s] assms by (simp add: Let_def card_ahead)

theorem permanent_loss_grows_future_set_witness:
  "card (future_received (gap_run 0 1000000)) = 1000000"
  using permanent_loss_grows_future_set [of 1000000 0] by simp

text \<open>
  A late arrival of the lost packet heals the tracker: the loss set and the early-arrival set
  are emptied, the expected sequence moves past everything received, and the packet is reported
  as reordered.
\<close>

lemma late_arrival_heals:
  assumes "0 < n" "n < 2147483647"
  shows "case observe (gap_run s n) (s + 1) of (t, obs) \<Rightarrow>
    next_expected t = Some (s + 2 + of_nat n) \<and> missing t = {} \<and> future_received t = {}
    \<and> missing_count (tracker_stats t) = 0 \<and> obs_duplicate_or_reordered obs"
proof -
  let ?t = "gap_run s n"
  have st: "next_expected ?t = Some (s + 1)" "missing ?t = ahead (s + 1) (min n 4096)"
      "future_received ?t = ahead (s + 2) n"
    using gap_state [OF assms(2), of s] by (simp_all add: Let_def)
  have mem: "s + 1 \<in> missing ?t" using assms(1) by (simp add: st ahead_def)
  have "min n 4096 = Suc (min n 4096 - 1)" using assms(1) by simp
  moreover have "min n 4096 - 1 \<le> n" by linarith
  ultimately have "ahead (s + 1) (min n 4096) - {s + 1} \<subseteq> ahead (s + 2) n"
    using ahead_Suc [of "s + 1" "min n 4096 - 1"] ahead_mono [of "min n 4096 - 1" n "s + 2"]
    by (auto simp: add.assoc)
  then have "missing (advance_expected (?t\<lparr>missing := missing ?t - {s + 1}\<rparr>) (s + 1)) = {}"
    and "future_received (advance_expected (?t\<lparr>missing := missing ?t - {s + 1}\<rparr>) (s + 1)) = {}"
    and "next_expected (advance_expected (?t\<lparr>missing := missing ?t - {s + 1}\<rparr>) (s + 1))
      = Some (s + 2 + of_nat n)"
    using assms(2)
    by (auto simp: advance_expected_def st skip_received_run add.assoc)
  moreover have "track_sequence ?t (s + 1)
      = (advance_expected (?t\<lparr>missing := missing ?t - {s + 1}\<rparr>) (s + 1), True)"
    using mem st(1) by (simp add: track_sequence_def Let_def)
  ultimately show ?thesis
    by (simp add: observe_def Let_def track_sequence_frame)
qed

theorem late_arrival_heals_witness:
  "missing (fst (observe (gap_run 4294967290 100) (4294967290 + 1))) = {}"
  using late_arrival_heals [of 100 4294967290] by (simp add: case_prod_beta)

end
