(* ===== verification/Crc.thy ===== *)
theory Crc
  imports Prelude
begin

text \<open>
  The packet checksum. The sources call the crate \<^verbatim>\<open>crc32fast\<close>, which is a parameter of this
  development (a function \<open>crc\<close> from the previous checksum and the bytes to the new one). The
  repository fixes its meaning in a test, against the bitwise CRC-32 below, so theorems that
  need more than an arbitrary \<open>crc\<close> assume \<open>crc = crc_reference\<close>.
\<close>

definition CRC_POLY :: u32 where
  "CRC_POLY = 0xEDB88320"

text \<open>One iteration of the inner loop: \<open>mask\<close> is all ones when the low bit is set.\<close>

definition crc_bit :: "u32 \<Rightarrow> u32" where
  "crc_bit c = xor (drop_bit 1 c) (and CRC_POLY (- (and c 1)))"

definition crc_byte :: "u32 \<Rightarrow> u8 \<Rightarrow> u32" where
  "crc_byte c b = (crc_bit ^^ 8) (xor c (ucast b))"

definition crc_reference :: "u32 \<Rightarrow> bytes \<Rightarrow> u32" where
  "crc_reference previous bs = not (foldl crc_byte (not previous) bs)"

type_synonym crc_fun = "u32 \<Rightarrow> bytes \<Rightarrow> u32"

definition crc32_ieee_update :: "crc_fun \<Rightarrow> u32 \<Rightarrow> bytes \<Rightarrow> u32" where
  "crc32_ieee_update crc previous bs = crc previous bs"

definition crc32_ieee :: "crc_fun \<Rightarrow> bytes \<Rightarrow> u32" where
  "crc32_ieee crc bs = crc32_ieee_update crc 0 bs"

definition packet_crc32 :: "crc_fun \<Rightarrow> bytes \<Rightarrow> bytes \<Rightarrow> u32" where
  "packet_crc32 crc header_without_crc payload =
     crc32_ieee_update crc (crc32_ieee crc header_without_crc) payload"

section \<open>Incremental checksums\<close>

lemma crc_reference_Nil [simp]: "crc_reference p [] = p"
  by (simp add: crc_reference_def)

lemma crc_reference_append:
  "crc_reference (crc_reference p xs) ys = crc_reference p (xs @ ys)"
  by (simp add: crc_reference_def)

lemma packet_crc32_reference:
  "packet_crc32 crc_reference prefix payload = crc_reference 0 (prefix @ payload)"
  by (simp add: packet_crc32_def crc32_ieee_def crc32_ieee_update_def crc_reference_append)

section \<open>A change of one byte changes the checksum\<close>

lemma mask_bit: "bit (- (and c 1) :: u32) k \<longleftrightarrow> k < 32 \<and> bit c 0"
proof (cases "bit c 0")
  case True
  then have "and c 1 = 1" by (simp add: and_one_eq odd_iff_mod_2_eq_one bit_0)
  then show ?thesis using True by (simp add: bit_simps)
next
  case False
  then have "and c 1 = 0" by (simp add: and_one_eq bit_0 even_iff_mod_2_eq_zero)
  then show ?thesis using False by (simp add: bit_simps)
qed

lemma crc_poly_top: "bit CRC_POLY 31"
  by (simp add: CRC_POLY_def)

lemma bit_crc_bit:
  "j < 32 \<Longrightarrow> bit (crc_bit c) j \<longleftrightarrow> bit c (Suc j) \<noteq> (bit CRC_POLY j \<and> bit c 0)"
  by (simp only: crc_bit_def bit_xor_iff bit_and_iff mask_bit bit_drop_bit_eq o_def add_Suc
      plus_nat.add_0 One_nat_def) simp

lemma bit_32_False: "\<not> bit (c :: u32) 32"
  by (auto dest: bit_imp_le_length)

lemma crc_bit_inj: "crc_bit c = crc_bit c' \<Longrightarrow> c = c'"
proof -
  assume eq: "crc_bit c = crc_bit c'"
  have top: "bit (crc_bit x) 31 \<longleftrightarrow> bit x 0" for x
    using bit_crc_bit [of 31 x] crc_poly_top bit_32_False [of x] by simp
  then have b0: "bit c 0 \<longleftrightarrow> bit c' 0" using eq by metis
  show "c = c'"
  proof (rule bit_word_eqI)
    fix k assume "k < LENGTH(32)"
    then show "bit c k \<longleftrightarrow> bit c' k"
      using b0 bit_crc_bit [of "k - 1" c] bit_crc_bit [of "k - 1" c'] eq by (cases k) auto
  qed
qed

lemma crc_bit_iter_inj: "(crc_bit ^^ n) c = (crc_bit ^^ n) c' \<Longrightarrow> c = c'"
  by (induction n) (auto dest: crc_bit_inj)

lemma xor_cancel_right: "xor a m = xor b m \<Longrightarrow> a = b" for a b m :: "'a::len word"
  by (intro bit_word_eqI) (metis bit_xor_iff)

lemma xor_cancel_left: "xor m a = xor m b \<Longrightarrow> a = b" for a b m :: "'a::len word"
  by (intro bit_word_eqI) (metis bit_xor_iff)

lemma crc_byte_inj_state: "crc_byte c b = crc_byte c' b \<Longrightarrow> c = c'"
  unfolding crc_byte_def by (blast dest: crc_bit_iter_inj xor_cancel_right)

lemma crc_byte_inj_byte: "crc_byte c b = crc_byte c b' \<Longrightarrow> b = b'"
proof -
  assume "crc_byte c b = crc_byte c b'"
  then have "ucast b = (ucast b' :: u32)"
    unfolding crc_byte_def by (blast dest: crc_bit_iter_inj xor_cancel_left)
  then have eq: "bit (ucast b :: u32) k \<longleftrightarrow> bit (ucast b' :: u32) k" for k by simp
  show "b = b'"
  proof (rule bit_word_eqI)
    fix k assume "k < LENGTH(8)"
    then show "bit b k \<longleftrightarrow> bit b' k" using eq [of k] by (simp add: bit_simps)
  qed
qed

lemma crc_fold_inj: "foldl crc_byte c bs = foldl crc_byte c' bs \<Longrightarrow> c = c'"
  by (induction bs arbitrary: c c') (auto dest: crc_byte_inj_state)

lemma crc_reference_detects_byte:
  assumes "x \<noteq> y"
  shows "crc_reference p (xs @ x # ys) \<noteq> crc_reference p (xs @ y # ys)"
proof
  assume "crc_reference p (xs @ x # ys) = crc_reference p (xs @ y # ys)"
  then have "foldl crc_byte (crc_byte (foldl crc_byte (not p) xs) x) ys
      = foldl crc_byte (crc_byte (foldl crc_byte (not p) xs) y) ys"
    by (simp add: crc_reference_def)
  then have "x = y" by (blast dest: crc_fold_inj crc_byte_inj_byte)
  with assms show False by simp
qed

lemma crc_reference_detects_update:
  assumes "i < length bs" "y \<noteq> bs ! i"
  shows "crc_reference p (bs[i := y]) \<noteq> crc_reference p bs"
proof -
  have "crc_reference p (take i bs @ y # drop (Suc i) bs)
      \<noteq> crc_reference p (take i bs @ bs ! i # drop (Suc i) bs)"
    using assms(2) by (rule crc_reference_detects_byte)
  then show ?thesis
    using assms(1) by (simp add: upd_conv_take_nth_drop id_take_nth_drop [symmetric])
qed

text \<open>The published check value of CRC-32/IEEE: the nine ASCII digits.\<close>

lemma crc_byte_unroll:
  "crc_byte c b =
     crc_bit (crc_bit (crc_bit (crc_bit (crc_bit (crc_bit (crc_bit (crc_bit (xor c (ucast b)))))))))"
  by (simp add: crc_byte_def eval_nat_numeral)

lemmas crc_eval = crc_reference_def crc_byte_unroll crc_bit_def CRC_POLY_def

lemma crc_reference_check_value:
  "crc_reference 0 [0x31, 0x32, 0x33, 0x34, 0x35, 0x36, 0x37, 0x38, 0x39] = 0xCBF43926"
  by (simp add: crc_eval)

end
