(* ===== verification/Header_Interface.thy ===== *)
theory Header_Interface
  imports Prelude
begin

text \<open>
  What the three fixed-width headers of the sources promise: the RQD2 datagram header, the media
  fragment header and the audio shard header each have an \<open>encode\<close> into a caller's buffer and a
  \<open>decode\<close> of a buffer. \<open>ok h n\<close> says that \<open>h\<close> may be written to a buffer of \<open>n\<close> bytes, and
  \<open>wire h\<close> are the bytes written.
\<close>

locale header_codec =
  fixes hlen :: nat
    and ok :: "'h \<Rightarrow> nat \<Rightarrow> bool"
    and wire :: "'h \<Rightarrow> bytes"
    and enc :: "'h \<Rightarrow> bytes \<Rightarrow> 'e + bytes"
    and dec :: "bytes \<Rightarrow> 'e + 'h"
  assumes ok_length: "ok h n \<Longrightarrow> hlen \<le> n"
    and wire_length: "length (wire h) = hlen"
    and enc_ok: "ok h (length bs) \<Longrightarrow> enc h bs = Inr (wire h @ drop hlen bs)"
    and enc_only_ok: "enc h bs = Inr bs' \<Longrightarrow> ok h (length bs)"
    and dec_wire: "ok h (hlen + length rest) \<Longrightarrow> dec (wire h @ rest) = Inr h"
begin

lemma enc_eq: "enc h bs = Inr bs' \<longleftrightarrow> ok h (length bs) \<and> bs' = wire h @ drop hlen bs"
  using enc_ok enc_only_ok by (metis Inr_inject)

lemma enc_keeps_length: "enc h bs = Inr bs' \<Longrightarrow> length bs' = length bs"
  using ok_length by (auto simp: enc_eq wire_length)

lemma enc_keeps_tail: "enc h bs = Inr bs' \<Longrightarrow> drop hlen bs' = drop hlen bs"
  by (auto simp: enc_eq wire_length)

lemma round_trip: "enc h bs = Inr bs' \<Longrightarrow> dec bs' = Inr h"
  using ok_length by (auto simp: enc_eq intro!: dec_wire)

lemma enc_injective:
  "enc h bs = Inr out \<Longrightarrow> enc h' bs' = Inr out' \<Longrightarrow> take hlen out = take hlen out' \<Longrightarrow>
   length out = length out' \<Longrightarrow> h = h'"
proof -
  assume a: "enc h bs = Inr out" "enc h' bs' = Inr out'"
    and t: "take hlen out = take hlen out'" and l: "length out = length out'"
  have w: "wire h = wire h'" using a t by (auto simp: enc_eq wire_length)
  have "dec out = Inr h" using a(1) by (rule round_trip)
  moreover have "ok h' (length out)"
    using enc_keeps_length [OF a(2)] enc_only_ok [OF a(2)] l by simp
  then have "dec (wire h' @ drop hlen out) = Inr h'"
    using ok_length by (intro dec_wire) auto
  moreover have "wire h' @ drop hlen out = out"
    using a(1) w by (auto simp: enc_eq wire_length)
  ultimately show "h = h'" by simp
qed

end

text \<open>A strict codec accepts nothing but what \<open>encode\<close> writes.\<close>

locale strict_header_codec = header_codec +
  assumes dec_only_wire: "dec bs = Inr h \<Longrightarrow> ok h (length bs) \<and> take hlen bs = wire h"
begin

lemma dec_eq: "dec bs = Inr h \<longleftrightarrow> ok h (length bs) \<and> take hlen bs = wire h"
proof
  assume r: "ok h (length bs) \<and> take hlen bs = wire h"
  then have "bs = wire h @ drop hlen bs" by (metis append_take_drop_id)
  moreover have "dec (wire h @ drop hlen bs) = Inr h"
    using r ok_length by (intro dec_wire) auto
  ultimately show "dec bs = Inr h" by simp
qed (rule dec_only_wire)

lemma re_encode: "dec bs = Inr h \<Longrightarrow> length bs' = length bs \<Longrightarrow> enc h bs' = Inr (take hlen bs @ drop hlen bs')"
  by (simp add: dec_eq enc_eq)

lemma re_encode_self: "dec bs = Inr h \<Longrightarrow> enc h bs = Inr bs"
  by (simp add: re_encode)

end

end
