(* ===== verification/Wire.thy ===== *)
theory Wire
  imports Crc Header_Interface
begin

text \<open>
  \<^verbatim>\<open>lib.rs\<close>, lines 62 to 763: the RQD2 datagram header, its block geometry, the coding profile and
  the error type. Every operation that can fail returns \<open>datagram_fec_error + _\<close>, in the order of
  checks of the source. Payload arguments are byte lists; a datagram is the 32-byte header followed
  by the serialized packet and, for repair audio, an eight-byte session trailer.
\<close>

section \<open>Constants and configuration\<close>

definition DATAGRAM_MAGIC :: bytes where "DATAGRAM_MAGIC = [0x52, 0x51, 0x44, 0x32]"
definition DATAGRAM_VERSION :: u8 where "DATAGRAM_VERSION = 2"
definition DATAGRAM_KIND_RAPTORQ :: u8 where "DATAGRAM_KIND_RAPTORQ = 1"
definition DATAGRAM_FLAG_PACKET_CRC32 :: u8 where "DATAGRAM_FLAG_PACKET_CRC32 = 1"
definition DATAGRAM_FLAG_AUDIO_SESSION_ID :: u8 where "DATAGRAM_FLAG_AUDIO_SESSION_ID = 2"
definition DATAGRAM_AUDIO_SESSION_ID_LEN :: nat where "DATAGRAM_AUDIO_SESSION_ID_LEN = 8"
definition SUPPORTED_PACKET_FLAGS :: u8 where
  "SUPPORTED_PACKET_FLAGS = or DATAGRAM_FLAG_PACKET_CRC32 DATAGRAM_FLAG_AUDIO_SESSION_ID"
definition HEADER_LEN :: nat where "HEADER_LEN = 32"
definition ENCODING_PACKET_HEADER_LEN :: nat where "ENCODING_PACKET_HEADER_LEN = 4"
definition DEFAULT_SYMBOL_SIZE :: u16 where "DEFAULT_SYMBOL_SIZE = 1316"
definition DEFAULT_SOURCE_SYMBOLS :: u16 where "DEFAULT_SOURCE_SYMBOLS = 4"
definition DEFAULT_REPAIR_SYMBOLS :: u32 where "DEFAULT_REPAIR_SYMBOLS = 1"
definition MAX_SOURCE_SYMBOLS_PER_BLOCK :: u32 where "MAX_SOURCE_SYMBOLS_PER_BLOCK = 56403"
definition RAPTORQ_ENCODING_SYMBOL_ID_LIMIT :: u32 where "RAPTORQ_ENCODING_SYMBOL_ID_LIMIT = 16777216"
definition HARD_MAX_REPAIR_SOURCE_BYTES :: nat where "HARD_MAX_REPAIR_SOURCE_BYTES = 17039360"
definition HARD_MAX_ADDITIONAL_REPAIR_BYTES :: nat where "HARD_MAX_ADDITIONAL_REPAIR_BYTES = 16777216"
definition COMPLETED_WINDOW :: u32 where "COMPLETED_WINDOW = 64"
definition U32_MAX :: nat where "U32_MAX = 4294967295"

lemmas wire_consts [layout_simps] =
  DATAGRAM_MAGIC_def DATAGRAM_VERSION_def DATAGRAM_KIND_RAPTORQ_def
  DATAGRAM_FLAG_PACKET_CRC32_def DATAGRAM_FLAG_AUDIO_SESSION_ID_def
  DATAGRAM_AUDIO_SESSION_ID_LEN_def SUPPORTED_PACKET_FLAGS_def HEADER_LEN_def
  ENCODING_PACKET_HEADER_LEN_def MAX_SOURCE_SYMBOLS_PER_BLOCK_def U32_MAX_def

record datagram_fec_config =
  cfg_source_symbols :: u16
  cfg_repair_symbols :: u32
  cfg_symbol_size :: u16

definition datagram_fec_config_default :: datagram_fec_config where
  "datagram_fec_config_default =
     \<lparr>cfg_source_symbols = DEFAULT_SOURCE_SYMBOLS, cfg_repair_symbols = DEFAULT_REPAIR_SYMBOLS,
      cfg_symbol_size = DEFAULT_SYMBOL_SIZE\<rparr>"

definition max_payload_len :: "datagram_fec_config \<Rightarrow> nat" where
  "max_payload_len c = unat (max (cfg_source_symbols c) 1) * unat (max (cfg_symbol_size c) 1)"

definition datagram_size_for_symbol_size :: "u16 \<Rightarrow> nat" where
  "datagram_size_for_symbol_size s = HEADER_LEN + ENCODING_PACKET_HEADER_LEN + unat s"

definition config_datagram_size :: "datagram_fec_config \<Rightarrow> nat" where
  "config_datagram_size c = datagram_size_for_symbol_size (cfg_symbol_size c)"

definition source_symbol_count :: "nat \<Rightarrow> u16 \<Rightarrow> u16" where
  "source_symbol_count byte_len s =
     (if byte_len = 0 then 1
      else of_nat (min (div_ceil byte_len (unat (max s 1))) 65535))"

section \<open>Errors\<close>

datatype datagram_fec_error =
    HeaderTooShort nat
  | PacketTooShort nat
  | InvalidMagic bytes
  | UnsupportedVersion u8
  | UnsupportedHeaderLength u8
  | UnsupportedPacketKind u8
  | UnsupportedPacketFlags u8
  | InvalidSourceSymbols u16
  | InvalidSymbolSize u16
  | InvalidTransferLength u32
  | SourceSymbolLimitExceeded u32 u32
  | SourceSymbolCountMismatch u16 u32
  | PayloadLengthMismatch nat nat
  | SymbolSizeMismatch nat nat
  | UnsupportedSourceBlockNumber u8
  | InconsistentBlockGeometry u32
  | PacketCrc32Mismatch u32 u32
  | PayloadTooLong nat
  | PayloadTooLargeForBlock nat nat
  | TransferLengthMismatch u32 nat
  | RepairSourceTooLarge nat nat
  | AdditionalRepairSymbolCount u32 u32
  | AdditionalRepairOutputTooLarge nat nat
  | RepairSymbolIdExhausted u16 u32 u32

section \<open>Block geometry and profile\<close>

definition u32_div_ceil :: "u32 \<Rightarrow> u32 \<Rightarrow> u32" where
  "u32_div_ceil a b = of_nat (div_ceil (unat a) (unat b))"

definition validate_one_block_geometry ::
    "u32 \<Rightarrow> u16 \<Rightarrow> u16 \<Rightarrow> (datagram_fec_error, unit) result" where
  "validate_one_block_geometry transfer_length source_symbols symbol_size =
     (if source_symbols = 0 then Inl (InvalidSourceSymbols source_symbols)
      else if symbol_size = 0 then Inl (InvalidSymbolSize symbol_size)
      else if transfer_length = 0 then Inl (InvalidTransferLength transfer_length)
      else if (ucast source_symbols :: u32) > MAX_SOURCE_SYMBOLS_PER_BLOCK then
        Inl (SourceSymbolLimitExceeded (ucast source_symbols) MAX_SOURCE_SYMBOLS_PER_BLOCK)
      else
        (let required = u32_div_ceil transfer_length (ucast symbol_size)
         in if required > MAX_SOURCE_SYMBOLS_PER_BLOCK then
              Inl (SourceSymbolLimitExceeded required MAX_SOURCE_SYMBOLS_PER_BLOCK)
            else if ucast source_symbols \<noteq> required then
              Inl (SourceSymbolCountMismatch source_symbols required)
            else Inr ()))"

record raptorq_block_profile =
  prof_block_id :: u32
  prof_transfer_length :: u32
  prof_source_symbols :: u16
  prof_symbol_size :: u16

definition block_profile_new ::
    "u32 \<Rightarrow> u32 \<Rightarrow> u16 \<Rightarrow> u16 \<Rightarrow> (datagram_fec_error, raptorq_block_profile) result" where
  "block_profile_new block_id transfer_length source_symbols symbol_size =
     rbind (validate_one_block_geometry transfer_length source_symbols symbol_size) (\<lambda>_.
       Inr \<lparr>prof_block_id = block_id, prof_transfer_length = transfer_length,
            prof_source_symbols = source_symbols, prof_symbol_size = symbol_size\<rparr>)"

section \<open>The header\<close>

record datagram_fec_header =
  packet_kind :: u8
  packet_flags :: u8
  hdr_block_id :: u32
  hdr_transfer_length :: u32
  packet_sequence :: u32
  hdr_source_symbols :: u16
  hdr_symbol_size :: u16
  payload_len :: u32
  hdr_packet_crc32 :: u32

definition payload_extension_len :: "datagram_fec_header \<Rightarrow> nat" where
  "payload_extension_len h =
     (if and (packet_flags h) DATAGRAM_FLAG_AUDIO_SESSION_ID \<noteq> 0
      then DATAGRAM_AUDIO_SESSION_ID_LEN else 0)"

definition header_datagram_size :: "datagram_fec_header \<Rightarrow> nat" where
  "header_datagram_size h =
     datagram_size_for_symbol_size (hdr_symbol_size h) + payload_extension_len h"

definition validate_fields :: "datagram_fec_header \<Rightarrow> (datagram_fec_error, unit) result" where
  "validate_fields h =
     (if packet_kind h \<noteq> DATAGRAM_KIND_RAPTORQ then Inl (UnsupportedPacketKind (packet_kind h))
      else if and (packet_flags h) (not SUPPORTED_PACKET_FLAGS) \<noteq> 0 then
        Inl (UnsupportedPacketFlags (packet_flags h))
      else validate_one_block_geometry (hdr_transfer_length h) (hdr_source_symbols h)
             (hdr_symbol_size h))"

text \<open>The writes of \<open>encode_prefix\<close>, as (offset, bytes).\<close>

definition prefix_fields :: "datagram_fec_header \<Rightarrow> (nat \<times> bytes) list" where
  "prefix_fields h =
     [(0, DATAGRAM_MAGIC), (4, [DATAGRAM_VERSION]), (5, [of_nat HEADER_LEN]),
      (6, [packet_kind h]), (7, [packet_flags h]),
      (8, le32 (hdr_block_id h)), (12, le32 (hdr_transfer_length h)),
      (16, le32 (packet_sequence h)), (20, le16 (hdr_source_symbols h)),
      (22, le16 (hdr_symbol_size h)), (24, le32 (payload_len h))]"

definition encode_prefix :: "datagram_fec_header \<Rightarrow> bytes \<Rightarrow> (datagram_fec_error, bytes) result" where
  "encode_prefix h bs =
     (if length bs < HEADER_LEN - 4 then Inl (HeaderTooShort (length bs))
      else rbind (validate_fields h) (\<lambda>_. Inr (put_all (prefix_fields h) bs)))"

definition header_encode :: "datagram_fec_header \<Rightarrow> bytes \<Rightarrow> (datagram_fec_error, bytes) result" where
  "header_encode h bs =
     (if length bs < HEADER_LEN then Inl (HeaderTooShort (length bs))
      else rbind (validate_fields h) (\<lambda>_.
           rbind (encode_prefix h bs) (\<lambda>bs1. Inr (put 28 (le32 (hdr_packet_crc32 h)) bs1))))"

definition header_decode :: "bytes \<Rightarrow> (datagram_fec_error, datagram_fec_header) result" where
  "header_decode bs =
     (if length bs < HEADER_LEN then Inl (HeaderTooShort (length bs))
      else if sub_slice bs 0 4 \<noteq> DATAGRAM_MAGIC then Inl (InvalidMagic (sub_slice bs 0 4))
      else if bs ! 4 \<noteq> DATAGRAM_VERSION then Inl (UnsupportedVersion (bs ! 4))
      else if unat (bs ! 5) \<noteq> HEADER_LEN then Inl (UnsupportedHeaderLength (bs ! 5))
      else
        (let h = \<lparr>packet_kind = bs ! 6, packet_flags = bs ! 7,
                  hdr_block_id = le_join (sub_slice bs 8 12),
                  hdr_transfer_length = le_join (sub_slice bs 12 16),
                  packet_sequence = le_join (sub_slice bs 16 20),
                  hdr_source_symbols = le_join (sub_slice bs 20 22),
                  hdr_symbol_size = le_join (sub_slice bs 22 24),
                  payload_len = le_join (sub_slice bs 24 28),
                  hdr_packet_crc32 = le_join (sub_slice bs 28 32)\<rparr>
         in rbind (validate_fields h) (\<lambda>_. Inr h)))"

definition decode_header :: "bytes \<Rightarrow> (datagram_fec_error, datagram_fec_header) result" where
  "decode_header datagram = header_decode datagram"

definition compute_packet_crc32 ::
    "crc_fun \<Rightarrow> datagram_fec_header \<Rightarrow> bytes \<Rightarrow> (datagram_fec_error, u32) result" where
  "compute_packet_crc32 crc h payload =
     (let expected = unat (payload_len h) + payload_extension_len h
      in if length payload \<noteq> expected then Inl (PayloadLengthMismatch expected (length payload))
         else rbind (encode_prefix h (replicate (HEADER_LEN - 4) 0)) (\<lambda>prefix.
              Inr (packet_crc32 crc prefix payload)))"

definition header_raptorq ::
    "crc_fun \<Rightarrow> u32 \<Rightarrow> u32 \<Rightarrow> u32 \<Rightarrow> u16 \<Rightarrow> u16 \<Rightarrow> bytes \<Rightarrow>
     (datagram_fec_error, datagram_fec_header) result" where
  "header_raptorq crc block_id transfer_length sequence source_symbols symbol_size payload =
     (if length payload > U32_MAX then Inl (PayloadTooLong (length payload))
      else
        (let header = \<lparr>packet_kind = DATAGRAM_KIND_RAPTORQ,
                       packet_flags = DATAGRAM_FLAG_PACKET_CRC32,
                       hdr_block_id = block_id, hdr_transfer_length = transfer_length,
                       packet_sequence = sequence, hdr_source_symbols = source_symbols,
                       hdr_symbol_size = symbol_size, payload_len = of_nat (length payload),
                       hdr_packet_crc32 = 0\<rparr>
         in rbind (compute_packet_crc32 crc header payload) (\<lambda>c.
              Inr (header\<lparr>hdr_packet_crc32 := c\<rparr>))))"

definition header_payload ::
    "crc_fun \<Rightarrow> datagram_fec_header \<Rightarrow> bytes \<Rightarrow> (datagram_fec_error, bytes) result" where
  "header_payload crc h datagram =
     (if length datagram < HEADER_LEN then Inl (HeaderTooShort (length datagram))
      else
        (let expected = unat (payload_len h) + payload_extension_len h;
             actual = length datagram - HEADER_LEN;
             wire_payload = drop HEADER_LEN datagram;
             result = Inr (take (unat (payload_len h)) wire_payload)
         in if actual \<noteq> expected then Inl (PayloadLengthMismatch expected actual)
            else if and (packet_flags h) DATAGRAM_FLAG_PACKET_CRC32 \<noteq> 0 then
              rbind (compute_packet_crc32 crc h wire_payload) (\<lambda>actual_crc32.
                if actual_crc32 \<noteq> hdr_packet_crc32 h
                then Inl (PacketCrc32Mismatch (hdr_packet_crc32 h) actual_crc32)
                else result)
            else result))"

definition header_audio_session_id ::
    "crc_fun \<Rightarrow> datagram_fec_header \<Rightarrow> bytes \<Rightarrow> (datagram_fec_error, u64 option) result" where
  "header_audio_session_id crc h datagram =
     rbind (header_payload crc h datagram) (\<lambda>_.
       if and (packet_flags h) DATAGRAM_FLAG_AUDIO_SESSION_ID = 0 then Inr None
       else
         (let start = HEADER_LEN + unat (payload_len h)
          in Inr (Some (le_join (sub_slice datagram start (start + DATAGRAM_AUDIO_SESSION_ID_LEN))))))"

definition block_profile_from_header ::
    "datagram_fec_header \<Rightarrow> (datagram_fec_error, raptorq_block_profile) result" where
  "block_profile_from_header h =
     rbind (validate_fields h) (\<lambda>_.
       block_profile_new (hdr_block_id h) (hdr_transfer_length h) (hdr_source_symbols h)
         (hdr_symbol_size h))"

section \<open>The header codec\<close>

definition header_fields :: "datagram_fec_header \<Rightarrow> (nat \<times> bytes) list" where
  "header_fields h = prefix_fields h @ [(28, le32 (hdr_packet_crc32 h))]"

definition header_wire :: "datagram_fec_header \<Rightarrow> bytes" where
  "header_wire h = tile_bytes (header_fields h)"

definition prefix_wire :: "datagram_fec_header \<Rightarrow> bytes" where
  "prefix_wire h = tile_bytes (prefix_fields h)"

definition header_ok :: "datagram_fec_header \<Rightarrow> nat \<Rightarrow> bool" where
  "header_ok h n = (HEADER_LEN \<le> n \<and> validate_fields h = Inr ())"

lemma tiles_header: "tiles 0 (prefix_fields h)" "tiles 0 (header_fields h)"
  by (simp_all add: prefix_fields_def header_fields_def layout_simps)

lemma length_prefix_wire [simp, layout_simps]: "length (prefix_wire h) = 28"
  by (simp add: prefix_wire_def prefix_fields_def layout_simps)

lemma length_header_wire [simp, layout_simps]: "length (header_wire h) = 32"
  by (simp add: header_wire_def header_fields_def prefix_fields_def layout_simps)

lemma header_wire_split: "header_wire h = prefix_wire h @ le32 (hdr_packet_crc32 h)"
  by (simp add: header_wire_def header_fields_def prefix_wire_def)

lemma encode_prefix_eq:
  "encode_prefix h bs =
     (if length bs < 28 then Inl (HeaderTooShort (length bs))
      else rbind (validate_fields h) (\<lambda>_. Inr (prefix_wire h @ drop 28 bs)))"
proof (cases "length bs < 28")
  case False
  then have "put_all (prefix_fields h) bs = prefix_wire h @ drop 28 bs"
    using put_all_tiles [OF tiles_header(1), of h bs]
    by (simp add: prefix_wire_def [symmetric])
  with False show ?thesis by (simp add: encode_prefix_def HEADER_LEN_def)
qed (simp add: encode_prefix_def HEADER_LEN_def)

lemma header_encode_eq:
  "header_encode h bs =
     (if length bs < 32 then Inl (HeaderTooShort (length bs))
      else rbind (validate_fields h) (\<lambda>_. Inr (header_wire h @ drop 32 bs)))"
  by (cases "validate_fields h")
    (simp_all add: header_encode_def encode_prefix_eq HEADER_LEN_def header_wire_split put_def)

lemma header_field_reads:
  "sub_slice (header_wire h @ rest) 0 4 = DATAGRAM_MAGIC"
  "(header_wire h @ rest) ! 4 = DATAGRAM_VERSION"
  "(header_wire h @ rest) ! 5 = of_nat HEADER_LEN"
  "(header_wire h @ rest) ! 6 = packet_kind h"
  "(header_wire h @ rest) ! 7 = packet_flags h"
  "sub_slice (header_wire h @ rest) 8 12 = le32 (hdr_block_id h)"
  "sub_slice (header_wire h @ rest) 12 16 = le32 (hdr_transfer_length h)"
  "sub_slice (header_wire h @ rest) 16 20 = le32 (packet_sequence h)"
  "sub_slice (header_wire h @ rest) 20 22 = le16 (hdr_source_symbols h)"
  "sub_slice (header_wire h @ rest) 22 24 = le16 (hdr_symbol_size h)"
  "sub_slice (header_wire h @ rest) 24 28 = le32 (payload_len h)"
  "sub_slice (header_wire h @ rest) 28 32 = le32 (hdr_packet_crc32 h)"
  unfolding header_wire_def
  by (rule sub_slice_tile [OF tiles_header(2)] nth_tile [OF tiles_header(2)];
      simp add: header_fields_def prefix_fields_def DATAGRAM_MAGIC_def)+

lemma header_decode_wire: "header_decode (header_wire h @ rest) = rbind (validate_fields h) (\<lambda>_. Inr h)"
  by (cases h) (simp add: header_decode_def header_field_reads le_join_split wire_consts Let_def)

lemma header_decode_Inr:
  assumes "header_decode bs = Inr h"
  shows "32 \<le> length bs" "validate_fields h = Inr ()" "take 32 bs = header_wire h"
proof -
  have len: "32 \<le> length bs"
    and fields: "sub_slice bs 0 4 = DATAGRAM_MAGIC" "bs ! 4 = DATAGRAM_VERSION" "unat (bs ! 5) = HEADER_LEN"
      "packet_kind h = bs ! 6" "packet_flags h = bs ! 7"
      "hdr_block_id h = le_join (sub_slice bs 8 12)" "hdr_transfer_length h = le_join (sub_slice bs 12 16)"
      "packet_sequence h = le_join (sub_slice bs 16 20)" "hdr_source_symbols h = le_join (sub_slice bs 20 22)"
      "hdr_symbol_size h = le_join (sub_slice bs 22 24)" "payload_len h = le_join (sub_slice bs 24 28)"
      "hdr_packet_crc32 h = le_join (sub_slice bs 28 32)"
    and valid: "validate_fields h = Inr ()"
    using assms
    by (auto simp: header_decode_def Let_def rbind_eq_Inr HEADER_LEN_def split: if_splits)
  show "32 \<le> length bs" "validate_fields h = Inr ()" by (fact len valid)+
  have word: "le_split 4 (le_join (sub_slice bs i j) :: u32) = sub_slice bs i j"
    if "j = i + 4" "j \<le> 32" for i j
    using le_split_join [of "sub_slice bs i j", where ?'a = 32] that len by simp
  have half: "le_split 2 (le_join (sub_slice bs i j) :: u16) = sub_slice bs i j"
    if "j = i + 2" "j \<le> 32" for i j
    using le_split_join [of "sub_slice bs i j", where ?'a = 16] that len by simp
  have byte: "sub_slice bs 4 5 = [bs ! 4]" "sub_slice bs 5 6 = [bs ! 5]" "sub_slice bs 6 7 = [bs ! 6]"
    "sub_slice bs 7 8 = [bs ! 7]"
    using len sub_slice_single [of 4 bs] sub_slice_single [of 5 bs] sub_slice_single [of 6 bs]
      sub_slice_single [of 7 bs] by simp_all
  have five: "bs ! 5 = of_nat HEADER_LEN"
    using fields(3) by (simp add: HEADER_LEN_def word_unat_eq_iff)
  have slices: "header_fields h = map (\<lambda>(i, j). (i, sub_slice bs i j))
      [(0, 4), (4, 5), (5, 6), (6, 7), (7, 8), (8, 12), (12, 16), (16, 20), (20, 22), (22, 24),
       (24, 28), (28, 32)]"
    using fields(1,2) five by (simp add: header_fields_def prefix_fields_def fields(4-) word half byte)
  have "take (length (tile_bytes (header_fields h))) bs = tile_bytes (header_fields h)"
  proof (rule take_tiles [OF tiles_header(2)])
    fix i ys assume "(i, ys) \<in> set (header_fields h)"
    then show "sub_slice bs i (i + length ys) = ys"
      using len unfolding slices by auto
  qed
  then show "take 32 bs = header_wire h"
    by (simp add: header_wire_def [symmetric])
qed

interpretation rqd2: strict_header_codec HEADER_LEN header_ok header_wire header_encode header_decode
proof (unfold_locales, goal_cases)
  case (3 h bs)
  then show ?case by (simp add: header_ok_def header_encode_eq HEADER_LEN_def)
next
  case (4 h bs bs')
  then show ?case
    by (auto simp: header_ok_def header_encode_eq HEADER_LEN_def rbind_eq_Inr split: if_splits)
qed (auto simp: header_ok_def HEADER_LEN_def header_decode_wire dest: header_decode_Inr)

section \<open>Geometry\<close>

lemma unat_u32_div_ceil [simp]: "0 < b \<Longrightarrow> unat (u32_div_ceil a b) = div_ceil (unat a) (unat b)"
proof -
  assume b: "0 < b"
  then have b1: "1 \<le> unat b" by (simp add: word_gt_0 Suc_le_eq unat_gt_0)
  then have "unat a \<le> unat a * unat b" by simp
  then have "div_ceil (unat a) (unat b) \<le> unat a"
    using div_ceil_le_iff [of "unat b" "unat a" "unat a"] b1 by simp
  then have "div_ceil (unat a) (unat b) < 2 ^ LENGTH(32)"
    by (rule le_less_trans) (rule unsigned_less)
  then show ?thesis by (simp add: u32_div_ceil_def unat_of_nat del: of_nat_Suc)
qed

lemma unat_ucast_16_32 [simp]: "unat (ucast (w :: u16) :: u32) = unat w"
proof -
  have "unat w < 2 ^ LENGTH(16)" by (rule unsigned_less)
  then show ?thesis by (simp add: unsigned_ucast_eq take_bit_nat_eq_self)
qed

lemma unat_u16_pos: "(w :: u16) \<noteq> 0 \<Longrightarrow> 0 < unat w"
  by (simp add: unat_gt_0)

lemma validate_geometry_ok:
  "validate_one_block_geometry len k s = Inr () \<longleftrightarrow>
     0 < unat s \<and> 0 < unat len \<and> unat k = div_ceil (unat len) (unat s) \<and> unat k \<le> 56403"
proof (cases "s = 0 \<or> len = 0 \<or> k = 0")
  case True
  moreover have "0 < unat len \<Longrightarrow> 0 < unat s \<Longrightarrow> 0 < div_ceil (unat len) (unat s)"
    by (rule div_ceil_pos)
  ultimately show ?thesis by (cases "len = 0"; cases "s = 0") (auto simp: validate_one_block_geometry_def unat_gt_0)
next
  case False
  then have z: "0 < unat s" "0 < unat len" by (simp_all add: unat_gt_0)
  have uz: "0 < (ucast s :: u32)" using z(1) by (simp add: word_less_nat_alt)
  define r where "r = u32_div_ceil len (ucast s)"
  have r: "unat r = div_ceil (unat len) (unat s)"
    using unat_u32_div_ceil [OF uz, of len] by (simp add: r_def)
  have "validate_one_block_geometry len k s = Inr () \<longleftrightarrow>
      (ucast k :: u32) \<le> 56403 \<and> r \<le> 56403 \<and> ucast k = r"
    using False
    by (simp add: validate_one_block_geometry_def r_def [symmetric] MAX_SOURCE_SYMBOLS_PER_BLOCK_def
        not_less) (auto simp: not_le)
  also have "\<dots> \<longleftrightarrow> unat k \<le> 56403 \<and> unat r \<le> 56403 \<and> unat k = unat r"
    by (simp only: word_le_nat_alt word_unat_eq_iff unat_ucast_16_32) simp
  finally show ?thesis using z r by auto
qed

lemma validate_fields_ok:
  "validate_fields h = Inr () \<longleftrightarrow>
     packet_kind h = 1 \<and> and (packet_flags h) (not 3) = 0 \<and>
     validate_one_block_geometry (hdr_transfer_length h) (hdr_source_symbols h) (hdr_symbol_size h) = Inr ()"
  by (auto simp: validate_fields_def wire_consts)

section \<open>Accepted datagrams\<close>

text \<open>
  The first two steps of every receive path (\<open>push_datagram\<close>, \<open>from_datagram\<close>): decode the header,
  then take the payload, which checks the length and the checksum.
\<close>

definition accept_datagram ::
    "crc_fun \<Rightarrow> bytes \<Rightarrow> (datagram_fec_error, datagram_fec_header \<times> bytes) result" where
  "accept_datagram crc d =
     rbind (header_decode d) (\<lambda>h. rbind (header_payload crc h d) (\<lambda>p. Inr (h, p)))"

definition crc_checked :: "datagram_fec_header \<Rightarrow> bool" where
  "crc_checked h = (and (packet_flags h) DATAGRAM_FLAG_PACKET_CRC32 \<noteq> 0)"

lemma compute_packet_crc32_eq:
  "validate_fields h = Inr () \<Longrightarrow>
   length payload = unat (payload_len h) + payload_extension_len h \<Longrightarrow>
   compute_packet_crc32 crc h payload = Inr (packet_crc32 crc (prefix_wire h) payload)"
  by (simp add: compute_packet_crc32_def encode_prefix_eq HEADER_LEN_def)

lemma header_payload_Inr:
  assumes "validate_fields h = Inr ()"
  shows "header_payload crc h d = Inr p \<longleftrightarrow>
     length d = 32 + unat (payload_len h) + payload_extension_len h \<and>
     (crc_checked h \<longrightarrow> packet_crc32 crc (prefix_wire h) (drop 32 d) = hdr_packet_crc32 h) \<and>
     p = take (unat (payload_len h)) (drop 32 d)"
  using assms
  by (auto simp: header_payload_def HEADER_LEN_def Let_def crc_checked_def compute_packet_crc32_eq
      rbind_eq_Inr split: if_splits)

lemma accept_Inr:
  "accept_datagram crc d = Inr (h, p) \<longleftrightarrow>
     header_decode d = Inr h \<and>
     length d = 32 + unat (payload_len h) + payload_extension_len h \<and>
     (crc_checked h \<longrightarrow> packet_crc32 crc (prefix_wire h) (drop 32 d) = hdr_packet_crc32 h) \<and>
     p = take (unat (payload_len h)) (drop 32 d)"
  using header_payload_Inr header_decode_Inr(2)
  by (auto simp: accept_datagram_def rbind_eq_Inr)

lemma decode_prefix:
  assumes "header_decode d = Inr h"
  shows "take 28 d = prefix_wire h" "sub_slice d 28 32 = le32 (hdr_packet_crc32 h)"
    "packet_flags h = d ! 7"
proof -
  have w: "take 32 d = prefix_wire h @ le32 (hdr_packet_crc32 h)"
    using header_decode_Inr(3) [OF assms] by (simp add: header_wire_split)
  have "take 28 d = take 28 (take 32 d)" by simp
  then show "take 28 d = prefix_wire h" by (simp add: w)
  have "sub_slice d 28 32 = drop 28 (take 32 d)" by (simp add: sub_slice_def drop_take)
  then show "sub_slice d 28 32 = le32 (hdr_packet_crc32 h)" by (simp add: w)
  show "packet_flags h = d ! 7"
    using assms by (auto simp: header_decode_def Let_def rbind_eq_Inr split: if_splits)
qed

lemma accepted_crc:
  assumes "accept_datagram crc_reference d = Inr (h, p)" "crc_checked h"
  shows "crc_reference 0 (take 28 d @ drop 32 d) = le_join (sub_slice d 28 32)"
  using assms by (auto simp: accept_Inr decode_prefix le_join_split packet_crc32_reference)

lemma covered_update:
  assumes "i < length d" "i < 28 \<or> 32 \<le> i" "y \<noteq> d ! i" "32 \<le> length d"
  shows "crc_reference 0 (take 28 (d[i := y]) @ drop 32 (d[i := y]))
      \<noteq> crc_reference 0 (take 28 d @ drop 32 d)"
proof -
  define k where "k = (if i < 28 then i else i - 4)"
  have "take 28 (d[i := y]) @ drop 32 (d[i := y]) = (take 28 d @ drop 32 d)[k := y]"
    using assms by (auto simp: k_def take_update_swap drop_update_swap list_update_append list_update_beyond)
  moreover have "(take 28 d @ drop 32 d) ! k = d ! i" "k < length (take 28 d @ drop 32 d)"
    using assms by (auto simp: k_def nth_append)
  ultimately show ?thesis
    using crc_reference_detects_update [of k "take 28 d @ drop 32 d" y 0] assms(3) by simp
qed

lemma corrupted_rejected:
  assumes acc: "accept_datagram crc_reference d = Inr (h, p)" "crc_checked h"
    and i: "i < length d" "i \<noteq> 7" and y: "y \<noteq> d ! i"
  shows "\<not> is_ok (accept_datagram crc_reference (d[i := y]))"
proof
  let ?d = "d[i := y]"
  assume "is_ok (accept_datagram crc_reference ?d)"
  then obtain h' p' where acc': "accept_datagram crc_reference ?d = Inr (h', p')"
    by (auto simp: is_ok_iff)
  have len: "32 \<le> length d" using acc by (auto simp: accept_Inr)
  have "packet_flags h' = packet_flags h"
    using acc acc' i by (auto simp: accept_Inr dest!: decode_prefix(3))
  then have "crc_checked h'" using acc(2) by (simp add: crc_checked_def)
  with acc' have new: "crc_reference 0 (take 28 ?d @ drop 32 ?d) = le_join (sub_slice ?d 28 32)"
    by (rule accepted_crc)
  have old: "crc_reference 0 (take 28 d @ drop 32 d) = le_join (sub_slice d 28 32)"
    using acc by (rule accepted_crc)
  show False
  proof (cases "i < 28 \<or> 32 \<le> i")
    case True
    then have "sub_slice ?d 28 32 = sub_slice d 28 32"
      by (auto simp: sub_slice_def drop_update_swap drop_take list_eq_iff_nth_eq)
    then show False using covered_update [OF i(1) True y len] new old by simp
  next
    case False
    then have "take 28 ?d = take 28 d" "drop 32 ?d = drop 32 d" by simp_all
    then have "(le_join (sub_slice ?d 28 32) :: u32) = le_join (sub_slice d 28 32)"
      using new old by simp
    then have "sub_slice ?d 28 32 = sub_slice d 28 32"
      using le_split_join [of "sub_slice d 28 32", where ?'a = 32]
        le_split_join [of "sub_slice ?d 28 32", where ?'a = 32] len by simp
    then have "sub_slice ?d 28 32 ! (i - 28) = sub_slice d 28 32 ! (i - 28)" by simp
    then show False using False len y i(1) by (auto simp: sub_slice_def)
  qed
qed

lemma frame_accepted:
  assumes "header_raptorq crc b len s k z payload = Inr h" "header_encode h (replicate 32 0) = Inr pre"
  shows "accept_datagram crc (pre @ payload) = Inr (h, payload)"
proof -
  have le: "\<not> length payload > U32_MAX"
    using assms(1) by (auto simp: header_raptorq_def)
  then have ul: "unat (of_nat (length payload) :: u32) = length payload"
    by (simp add: unat_of_nat U32_MAX_def take_bit_nat_eq_self)
  have h: "payload_len h = of_nat (length payload)" "payload_extension_len h = 0" "crc_checked h"
    and crc: "compute_packet_crc32 crc (h\<lparr>hdr_packet_crc32 := 0\<rparr>) payload = Inr (hdr_packet_crc32 h)"
    using assms(1) le
    by (auto simp: header_raptorq_def Let_def rbind_eq_Inr payload_extension_len_def crc_checked_def
        wire_consts)
  have valid: "validate_fields h = Inr ()"
    using assms(2) by (auto simp: header_encode_eq rbind_eq_Inr)
  moreover have "validate_fields (h\<lparr>hdr_packet_crc32 := 0\<rparr>) = validate_fields h"
    by (simp add: validate_fields_def)
  ultimately have valid0: "validate_fields (h\<lparr>hdr_packet_crc32 := 0\<rparr>) = Inr ()" by simp
  have pw: "prefix_wire (h\<lparr>hdr_packet_crc32 := 0\<rparr>) = prefix_wire h"
    by (simp add: prefix_wire_def prefix_fields_def)
  have "packet_crc32 crc (prefix_wire h) payload = hdr_packet_crc32 h"
    using crc valid0 h ul
    by (simp add: compute_packet_crc32_eq pw payload_extension_len_def)
  moreover have pre: "pre = header_wire h"
    using assms(2) by (auto simp: header_encode_eq rbind_eq_Inr)
  ultimately show ?thesis
    using h ul valid by (simp add: accept_Inr header_decode_wire)
qed

section \<open>Properties of the header and of accepted datagrams\<close>

definition example_datagram :: bytes where
  "example_datagram =
     [0x52, 0x51, 0x44, 0x32, 2, 32, 1, 1, 9, 0, 0, 0, 2, 0, 0, 0, 5, 0, 0, 0, 1, 0, 2, 0, 6, 0, 0, 0,
      0x2e, 0xb3, 0x2b, 0x36, 0, 0, 0, 0, 17, 34]"

definition example_header :: datagram_fec_header where
  "example_header =
     \<lparr>packet_kind = 1, packet_flags = 1, hdr_block_id = 9, hdr_transfer_length = 2,
      packet_sequence = 5, hdr_source_symbols = 1, hdr_symbol_size = 2, payload_len = 6,
      hdr_packet_crc32 = 0x362bb32e\<rparr>"

lemma example_decodes: "header_decode example_datagram = Inr example_header"
  by (simp add: example_datagram_def header_decode_def sub_slice_def wire_consts validate_fields_ok
      Let_def example_header_def validate_fields_def validate_one_block_geometry_def u32_div_ceil_def div_ceil_def)

lemma example_crc: "crc_reference 0 (take 28 example_datagram @ drop 32 example_datagram) = 0x362bb32e"
  by (simp add: example_datagram_def crc_eval)

lemma example_accepted: 
  "accept_datagram crc_reference example_datagram = Inr (example_header, [0, 0, 0, 0, 17, 34])"
  using decode_prefix(1) [OF example_decodes] example_crc
  by (simp add: accept_Inr example_decodes packet_crc32_reference) (simp add: example_header_def example_datagram_def payload_extension_len_def wire_consts)

lemma header_wire_flags:
  "header_wire (h\<lparr>packet_flags := f\<rparr>) = (header_wire h)[7 := f]"
proof -
  let ?pre = "DATAGRAM_MAGIC @ [DATAGRAM_VERSION, of_nat HEADER_LEN, packet_kind h]"
  let ?post = "tile_bytes (drop 5 (header_fields h))"
  have wire: "header_wire g = ?pre @ packet_flags g # ?post"
    if "packet_kind g = packet_kind h" "drop 5 (header_fields g) = drop 5 (header_fields h)" for g
    using that by (simp add: header_wire_def header_fields_def prefix_fields_def)
  have "(header_wire h)[length ?pre := f] = ?pre @ f # ?post"
    by (simp only: wire list_update_length)
  moreover have "length ?pre = 7" by (simp add: DATAGRAM_MAGIC_def)
  ultimately show ?thesis
    using wire [of "h\<lparr>packet_flags := f\<rparr>"] by (simp add: header_fields_def prefix_fields_def)
qed

text \<open>
  C12. The header codec is exact. A buffer decodes to a header precisely when encoding that header
  into the same buffer succeeds and changes nothing: every accepted buffer is canonical, and every
  encoded header decodes to itself.
\<close>
theorem header_codec_exact: "header_decode bs = Inr h \<longleftrightarrow> header_encode h bs = Inr bs"
  using rqd2.re_encode_self rqd2.round_trip by blast

text \<open>
  One-block geometry. The check accepts a transfer length, source symbol count K and symbol
  size exactly when K is positive, at most 56403 (the RFC 6330 limit), and the K symbols hold the
  transfer with the last one not empty.
\<close>
lemma geometry_characterised:
  "validate_one_block_geometry len k s = Inr () \<longleftrightarrow>
     0 < unat k \<and> unat k \<le> 56403 \<and> unat len \<le> unat k * unat s \<and> (unat k - 1) * unat s < unat len"
proof -
  have "unat k = div_ceil (unat len) (unat s) \<longleftrightarrow>
      unat len \<le> unat k * unat s \<and> (unat k - 1) * unat s < unat len"
    if "0 < unat s" "0 < unat k"
  proof -
    have "unat k = div_ceil (unat len) (unat s) \<longleftrightarrow>
        div_ceil (unat len) (unat s) \<le> unat k \<and> \<not> div_ceil (unat len) (unat s) \<le> unat k - 1"
      using that(2) by auto
    then show ?thesis using that(1) by (simp add: div_ceil_le_iff not_le)
  qed
  moreover have "0 < unat len \<Longrightarrow> 0 < unat s \<Longrightarrow> 0 < div_ceil (unat len) (unat s)"
    by (rule div_ceil_pos)
  ultimately show ?thesis
    by (cases "unat s = 0"; cases "unat len = 0"; cases "unat k = 0") (auto simp: validate_geometry_ok)
qed

text \<open>
  C5. A single corrupted byte is caught. If a datagram with the checksum flag is accepted, then
  changing any one of its bytes other than the flag byte (position 7), header, checksum, payload or
  session trailer, makes the receive path reject it.
\<close>
theorem single_byte_corruption_rejected:
  assumes "accept_datagram crc_reference d = Inr (h, p)" "crc_checked h"
    and "i < length d" "i \<noteq> 7" "y \<noteq> d ! i"
  shows "\<not> is_ok (accept_datagram crc_reference (d[i := y]))"
  using assms by (rule corrupted_rejected)

theorem single_byte_corruption_rejected_witness:
  "\<not> is_ok (accept_datagram crc_reference (example_datagram[37 := 35]))"
  using single_byte_corruption_rejected [OF example_accepted, of 37 35]
  by (simp add: example_header_def example_datagram_def crc_checked_def wire_consts)

text \<open>
  The checksum flag is not protected by the checksum. Clearing the flag byte of an accepted
  datagram and then overwriting any byte of its payload gives a datagram that is accepted, with the
  overwritten payload, whatever the checksum function.
\<close>
lemma cleared_crc_flag_accepts_corruption:
  assumes "accept_datagram crc d = Inr (h, p)" "packet_flags h = DATAGRAM_FLAG_PACKET_CRC32"
    and "32 \<le> j" "j < length d"
  shows "accept_datagram crc (d[7 := 0, j := y]) = Inr (h\<lparr>packet_flags := 0\<rparr>, p[j - 32 := y])"
proof -
  let ?h = "h\<lparr>packet_flags := 0\<rparr>"
  have h: "header_decode d = Inr h" and len: "length d = 32 + unat (payload_len h)"
    and p: "p = drop 32 d"
    using assms by (auto simp: accept_Inr payload_extension_len_def wire_consts)
  have "d = header_wire h @ drop 32 d"
    using header_decode_Inr(3) [OF h] by (metis append_take_drop_id)
  then have "d[7 := 0, j := y] = (header_wire h @ drop 32 d)[7 := 0, j := y]" by simp
  also have "\<dots> = header_wire ?h @ p[j - 32 := y]"
    using assms(3) by (simp add: list_update_append header_wire_flags p)
  finally have d: "d[7 := 0, j := y] = header_wire ?h @ p[j - 32 := y]" .
  have "validate_fields ?h = Inr ()"
    using header_decode_Inr(2) [OF h] by (simp add: validate_fields_ok)
  then show ?thesis
    unfolding d
    by (simp add: accept_Inr header_decode_wire len p crc_checked_def payload_extension_len_def wire_consts)
qed

theorem cleared_crc_flag_accepts_corruption_witness:
  "accept_datagram crc_reference (example_datagram[7 := 0, 36 := 99]) =
     Inr (example_header\<lparr>packet_flags := 0\<rparr>, [0, 0, 0, 0, 99, 34])"
  using cleared_crc_flag_accepts_corruption [OF example_accepted, of 36 99]
  by (simp add: example_header_def example_datagram_def wire_consts)

text \<open>
  What the encoders frame, the receivers accept. A header built by \<open>DatagramFecHeader::raptorq\<close>
  for a payload, encoded into 32 bytes and followed by that payload, passes the receive path, which
  returns the same header and payload.
\<close>
lemma framed_payload_accepted:
  assumes "header_raptorq crc block len seq k s payload = Inr h"
    and "header_encode h (replicate HEADER_LEN 0) = Inr pre"
  shows "accept_datagram crc (pre @ payload) = Inr (h, payload)"
  using assms by (intro frame_accepted) (auto simp: HEADER_LEN_def)

theorem framed_payload_accepted_witness:
  "\<exists>h pre. header_raptorq crc_reference 9 2 5 1 2 [0, 0, 0, 0, 17, 34] = Inr h \<and>
     accept_datagram crc_reference (pre @ [0, 0, 0, 0, 17, 34]) = Inr (h, [0, 0, 0, 0, 17, 34])"
proof -
  have "prefix_wire example_header = prefix_wire (example_header\<lparr>hdr_packet_crc32 := 0\<rparr>)"
    by (simp add: prefix_wire_def prefix_fields_def)
  then have crc: "crc_reference 0 (prefix_wire (example_header\<lparr>hdr_packet_crc32 := 0\<rparr>) @ [0, 0, 0, 0, 17, 34])
      = 0x362bb32e"
    using decode_prefix(1) [OF example_decodes] example_crc by (simp add: example_datagram_def)
  have valid: "validate_fields example_header = Inr ()"
    using example_decodes by (rule header_decode_Inr)
  then have "validate_fields (example_header\<lparr>hdr_packet_crc32 := 0\<rparr>) = Inr ()"
    by (simp add: validate_fields_ok)
  then have "compute_packet_crc32 crc_reference (example_header\<lparr>hdr_packet_crc32 := 0\<rparr>)
      [0, 0, 0, 0, 17, 34] = Inr 0x362bb32e"
    by (subst compute_packet_crc32_eq)
      (simp_all add: packet_crc32_reference crc, simp add: example_header_def payload_extension_len_def wire_consts)
  then have r: "header_raptorq crc_reference 9 2 5 1 2 [0, 0, 0, 0, 17, 34] = Inr example_header"
    by (simp add: header_raptorq_def wire_consts example_header_def)
  have "header_encode example_header (replicate HEADER_LEN 0) = Inr (header_wire example_header)"
    using valid by (simp add: header_encode_eq HEADER_LEN_def)
  from framed_payload_accepted [OF r this] r show ?thesis by blast
qed

end
