(* ===== verification/Raptorq_Codec.thy ===== *)
theory Raptorq_Codec
  imports Wire
begin

text \<open>
  The boundary to the crate \<^verbatim>\<open>raptorq\<close>, which is not part of the repository. Its functions are a
  parameter of the development (the record \<open>raptorq\<close> below), passed to every operation that calls
  it. Theorems that depend on more than "some functions" assume \<open>rq_lawful\<close>: a packet survives
  serialization and takes four bytes more than its symbol; a block of \<open>K\<close> source symbols is
  encoded as the systematic packets with identifiers \<open>0 .. K-1\<close> followed by the requested repair
  packets with the next identifiers, all of source block 0 and of one symbol each; and a decoder
  fed packets of one encoded block returns that block or nothing, and returns it at the latest when
  every source packet has been pushed. The end of the theory builds a codec that has these laws.
\<close>

section \<open>The interface\<close>

datatype oti = OTI (oti_transfer_length: u64) (oti_symbol_size: u16) (oti_source_blocks: u8)
  (oti_sub_blocks: u16) (oti_alignment: u8)

record encoding_packet =
  pkt_source_block :: u8
  pkt_symbol_id :: u32
  pkt_data :: bytes

record ('e, 'd) raptorq =
  rq_encoder :: "bytes \<Rightarrow> oti \<Rightarrow> 'e"
  rq_config_symbol_size :: "'e \<Rightarrow> u16"
  rq_encoded_packets :: "'e \<Rightarrow> u32 \<Rightarrow> encoding_packet list"
  rq_repair_packets :: "'e \<Rightarrow> u32 \<Rightarrow> u32 \<Rightarrow> encoding_packet list"
  rq_serialize :: "encoding_packet \<Rightarrow> bytes"
  rq_deserialize :: "bytes \<Rightarrow> encoding_packet"
  rq_decoder :: "oti \<Rightarrow> 'd"
  rq_decode :: "'d \<Rightarrow> encoding_packet \<Rightarrow> 'd \<times> bytes option"

definition exact_one_block_oti :: "u64 \<Rightarrow> u16 \<Rightarrow> oti" where
  "exact_one_block_oti transfer_length symbol_size = OTI transfer_length (max symbol_size 1) 1 1 1"

definition header_oti :: "datagram_fec_header \<Rightarrow> oti" where
  "header_oti h = exact_one_block_oti (ucast (hdr_transfer_length h)) (hdr_symbol_size h)"

definition profile_oti :: "raptorq_block_profile \<Rightarrow> oti" where
  "profile_oti p = exact_one_block_oti (ucast (prof_transfer_length p)) (prof_symbol_size p)"

section \<open>Parsing a complete datagram\<close>

definition profile_from_datagram ::
    "crc_fun \<Rightarrow> ('e, 'd) raptorq \<Rightarrow> bytes \<Rightarrow> (datagram_fec_error, raptorq_block_profile) result" where
  "profile_from_datagram crc rq datagram =
     (if length datagram < HEADER_LEN + ENCODING_PACKET_HEADER_LEN then
        Inl (PacketTooShort (length datagram))
      else rbind (header_decode datagram) (\<lambda>header.
           rbind (header_payload crc header datagram) (\<lambda>payload.
             if length payload < ENCODING_PACKET_HEADER_LEN then Inl (PacketTooShort (length datagram))
             else
               (let packet = rq_deserialize rq payload
                in if pkt_source_block packet \<noteq> 0 then
                     Inl (UnsupportedSourceBlockNumber (pkt_source_block packet))
                   else if length (pkt_data packet) \<noteq> unat (hdr_symbol_size header) then
                     Inl (SymbolSizeMismatch (unat (hdr_symbol_size header)) (length (pkt_data packet)))
                   else block_profile_from_header header))))"

section \<open>The assumed behaviour\<close>

text \<open>Data, symbol size and repair count of a block that the one-block geometry admits.\<close>

definition block_symbols :: "bytes \<Rightarrow> u16 \<Rightarrow> nat" where
  "block_symbols data s = div_ceil (length data) (unat s)"

definition block_data :: "bytes \<Rightarrow> u16 \<Rightarrow> bool" where
  "block_data data s =
     (0 < unat s \<and> 0 < length data \<and> length data \<le> U32_MAX \<and> block_symbols data s \<le> 56403)"

definition block_encoder :: "('e, 'd) raptorq \<Rightarrow> bytes \<Rightarrow> u16 \<Rightarrow> 'e" where
  "block_encoder rq data s = rq_encoder rq data (exact_one_block_oti (of_nat (length data)) s)"

text \<open>Packet with a given identifier: a systematic one below \<open>K\<close>, a repair one from \<open>K\<close> on.\<close>

definition block_packet :: "('e, 'd) raptorq \<Rightarrow> bytes \<Rightarrow> u16 \<Rightarrow> nat \<Rightarrow> encoding_packet" where
  "block_packet rq data s i =
     (let k = block_symbols data s; e = block_encoder rq data s
      in if i < k then rq_encoded_packets rq e 0 ! i
         else rq_repair_packets rq e (of_nat (i - k)) 1 ! 0)"

definition serialization_law :: "('e, 'd) raptorq \<Rightarrow> bool" where
  "serialization_law rq \<longleftrightarrow>
     (\<forall>p. unat (pkt_symbol_id p) < 2 ^ 24 \<longrightarrow>
        rq_deserialize rq (rq_serialize rq p) = p \<and>
        length (rq_serialize rq p) = ENCODING_PACKET_HEADER_LEN + length (pkt_data p))"

definition encoder_law :: "('e, 'd) raptorq \<Rightarrow> bool" where
  "encoder_law rq \<longleftrightarrow>
     (\<forall>data s. block_data data s \<longrightarrow>
        rq_config_symbol_size rq (block_encoder rq data s) = s \<and>
        (\<forall>i < 2 ^ 24.
           pkt_source_block (block_packet rq data s i) = 0 \<and>
           pkt_symbol_id (block_packet rq data s i) = of_nat i \<and>
           length (pkt_data (block_packet rq data s i)) = unat s) \<and>
        (\<forall>r. block_symbols data s + unat r \<le> 2 ^ 24 \<longrightarrow>
           rq_encoded_packets rq (block_encoder rq data s) r =
             map (block_packet rq data s) [0..<block_symbols data s + unat r]) \<and>
        (\<forall>a n. block_symbols data s + unat a + unat n \<le> 2 ^ 24 \<longrightarrow>
           rq_repair_packets rq (block_encoder rq data s) a n =
             map (block_packet rq data s)
               [block_symbols data s + unat a..<block_symbols data s + unat a + unat n]))"

text \<open>Feeding packets to a decoder until it returns something.\<close>

primrec codec_run :: "('e, 'd) raptorq \<Rightarrow> 'd \<Rightarrow> encoding_packet list \<Rightarrow> bytes option" where
  "codec_run rq d [] = None"
| "codec_run rq d (p # ps) =
     (case rq_decode rq d p of (d', Some out) \<Rightarrow> Some out | (d', None) \<Rightarrow> codec_run rq d' ps)"

definition block_decoder :: "('e, 'd) raptorq \<Rightarrow> nat \<Rightarrow> u16 \<Rightarrow> 'd" where
  "block_decoder rq len s = rq_decoder rq (exact_one_block_oti (of_nat len) s)"

definition decoder_law :: "('e, 'd) raptorq \<Rightarrow> bool" where
  "decoder_law rq \<longleftrightarrow>
     (\<forall>data s ids. block_data data s \<longrightarrow> (\<forall>i \<in> set ids. i < 2 ^ 24) \<longrightarrow>
        (let out = codec_run rq (block_decoder rq (length data) s) (map (block_packet rq data s) ids)
         in out \<in> {None, Some data} \<and>
            ({0..<block_symbols data s} \<subseteq> set ids \<longrightarrow> out = Some data)))"

definition rq_lawful :: "('e, 'd) raptorq \<Rightarrow> bool" where
  "rq_lawful rq \<longleftrightarrow> serialization_law rq \<and> encoder_law rq \<and> decoder_law rq"

section \<open>A codec with these laws\<close>

text \<open>
  A systematic codec whose repair packets repeat source symbols in turn. It needs every source
  symbol, from either kind of packet, to decode. Its encoder is the data with its transmission
  information, its decoder that information with the symbols received so far.
\<close>

definition pad_symbol :: "bytes \<Rightarrow> nat \<Rightarrow> nat \<Rightarrow> bytes" where
  "pad_symbol data s i = take s (drop (i * s) data @ replicate s 0)"

definition rep_packet :: "bytes \<times> oti \<Rightarrow> nat \<Rightarrow> encoding_packet" where
  "rep_packet e i =
     (let data = fst e; s = unat (oti_symbol_size (snd e))
      in \<lparr>pkt_source_block = 0, pkt_symbol_id = of_nat i,
          pkt_data = pad_symbol data s (i mod div_ceil (length data) s)\<rparr>)"

definition rep_serialize :: "encoding_packet \<Rightarrow> bytes" where
  "rep_serialize p =
     pkt_source_block p # ucast (drop_bit 16 (pkt_symbol_id p)) # ucast (drop_bit 8 (pkt_symbol_id p))
       # ucast (pkt_symbol_id p) # pkt_data p"

definition rep_deserialize :: "bytes \<Rightarrow> encoding_packet" where
  "rep_deserialize bs =
     (case bs of
        a # b # c # d # rest \<Rightarrow>
          \<lparr>pkt_source_block = a,
           pkt_symbol_id = or (or (push_bit 16 (ucast b)) (push_bit 8 (ucast c))) (ucast d),
           pkt_data = rest\<rparr>
      | _ \<Rightarrow> \<lparr>pkt_source_block = 0, pkt_symbol_id = 0, pkt_data = []\<rparr>)"

type_synonym rep_decoder = "oti \<times> (nat \<rightharpoonup> bytes)"

definition rep_decode :: "rep_decoder \<Rightarrow> encoding_packet \<Rightarrow> rep_decoder \<times> bytes option" where
  "rep_decode d p =
     (let len = unat (oti_transfer_length (fst d));
          k = div_ceil len (unat (oti_symbol_size (fst d)));
          m = (snd d)(unat (pkt_symbol_id p) mod k \<mapsto> pkt_data p)
      in ((fst d, m),
          if list_all (\<lambda>i. m i \<noteq> None) [0..<k]
          then Some (take len (concat (map (\<lambda>i. the (m i)) [0..<k]))) else None))"

definition rep_codec :: "(bytes \<times> oti, rep_decoder) raptorq" where
  "rep_codec =
     \<lparr>rq_encoder = (\<lambda>data info. (data, info)),
      rq_config_symbol_size = (\<lambda>e. oti_symbol_size (snd e)),
      rq_encoded_packets = (\<lambda>e r.
        map (rep_packet e) [0..<div_ceil (length (fst e)) (unat (oti_symbol_size (snd e))) + unat r]),
      rq_repair_packets = (\<lambda>e a n.
        (let k = div_ceil (length (fst e)) (unat (oti_symbol_size (snd e)))
         in map (rep_packet e) [k + unat a..<k + unat a + unat n])),
      rq_serialize = rep_serialize,
      rq_deserialize = rep_deserialize,
      rq_decoder = (\<lambda>info. (info, \<lambda>_. None)),
      rq_decode = rep_decode\<rparr>"

lemma rep_codec_simps [simp]:
  "rq_encoder rep_codec = (\<lambda>data info. (data, info))"
  "rq_config_symbol_size rep_codec e = oti_symbol_size (snd e)"
  "rq_encoded_packets rep_codec e r =
     map (rep_packet e) [0..<div_ceil (length (fst e)) (unat (oti_symbol_size (snd e))) + unat r]"
  "rq_repair_packets rep_codec e a n =
     map (rep_packet e)
       [div_ceil (length (fst e)) (unat (oti_symbol_size (snd e))) + unat a..<
        div_ceil (length (fst e)) (unat (oti_symbol_size (snd e))) + unat a + unat n]"
  "rq_serialize rep_codec = rep_serialize"
  "rq_deserialize rep_codec = rep_deserialize"
  "rq_decoder rep_codec = (\<lambda>info. (info, \<lambda>_. None))"
  "rq_decode rep_codec = rep_decode"
  by (simp_all add: rep_codec_def Let_def)

lemma rep_serialization: "serialization_law rep_codec"
proof -
  have "or (or (push_bit 16 (ucast (ucast (drop_bit 16 e) :: u8))) (push_bit 8 (ucast (ucast (drop_bit 8 e) :: u8))))
      (ucast (ucast e :: u8)) = e" if "unat e < 2 ^ 24" for e :: u32
  proof (rule bit_word_eqI)
    fix k assume k: "k < LENGTH(32)"
    have "take_bit 24 (unat e) = unat e"
      using that by (rule take_bit_nat_eq_self)
    then have "bit (unat e) k \<Longrightarrow> k < 24" by (metis bit_take_bit_iff)
    then have hi: "bit e k \<Longrightarrow> k < 24" using k by (simp add: bit_unsigned_iff)
    show "bit (or (or (push_bit 16 (ucast (ucast (drop_bit 16 e) :: u8)))
        (push_bit 8 (ucast (ucast (drop_bit 8 e) :: u8)))) (ucast (ucast e :: u8)) :: u32) k = bit e k"
      using k hi by (cases "k < 8"; cases "k < 16") (auto simp: bit_simps)
  qed
  then show ?thesis
    by (simp add: serialization_law_def rep_serialize_def rep_deserialize_def
        ENCODING_PACKET_HEADER_LEN_def)
qed

lemma max_symbol_size: "0 < unat (s :: u16) \<Longrightarrow> max s 1 = s"
proof -
  assume "0 < unat s"
  then have "1 \<le> s" by (simp add: word_le_nat_alt)
  then show ?thesis by (rule max_absorb1)
qed

lemma rep_block_encoder:
  "0 < unat s \<Longrightarrow> block_encoder rep_codec data s = (data, OTI (of_nat (length data)) s 1 1 1)"
  by (simp add: block_encoder_def exact_one_block_oti_def max_symbol_size)

lemma rep_block_packet:
  assumes "block_data data s" "i < 2 ^ 24"
  shows "block_packet rep_codec data s i = rep_packet (data, OTI (of_nat (length data)) s 1 1 1) i"
proof (cases "i < block_symbols data s")
  case True
  then show ?thesis
    using assms
    by (simp add: block_packet_def block_data_def rep_block_encoder)
      (simp add: block_symbols_def)
next
  case False
  then have "unat (of_nat (i - block_symbols data s) :: u32) = i - block_symbols data s"
    using assms(2) by (simp only: unat_of_nat) (simp add: take_bit_nat_eq_self)
  then show ?thesis
    using False assms
    by (simp add: block_packet_def block_data_def rep_block_encoder)
      (simp add: block_symbols_def)
qed

lemma rep_encoder_law: "encoder_law rep_codec"
proof -
  have "rq_config_symbol_size rep_codec (block_encoder rep_codec data s) = s \<and>
    (\<forall>i < 2 ^ 24. pkt_source_block (block_packet rep_codec data s i) = 0 \<and>
       pkt_symbol_id (block_packet rep_codec data s i) = of_nat i \<and>
       length (pkt_data (block_packet rep_codec data s i)) = unat s) \<and>
    (\<forall>r. block_symbols data s + unat r \<le> 2 ^ 24 \<longrightarrow>
       rq_encoded_packets rep_codec (block_encoder rep_codec data s) r =
         map (block_packet rep_codec data s) [0..<block_symbols data s + unat r]) \<and>
    (\<forall>a n. block_symbols data s + unat a + unat n \<le> 2 ^ 24 \<longrightarrow>
       rq_repair_packets rep_codec (block_encoder rep_codec data s) a n =
         map (block_packet rep_codec data s)
           [block_symbols data s + unat a..<block_symbols data s + unat a + unat n])"
    if bd: "block_data data s" for data s
  proof -
    have s: "0 < unat s" using bd by (simp add: block_data_def)
    show ?thesis
      using bd
      by (auto simp: rep_block_packet rep_block_encoder [OF s] rep_packet_def pad_symbol_def
          block_symbols_def Let_def)
  qed
  then show ?thesis unfolding encoder_law_def by blast
qed

lemma pad_symbols_concat:
  "n * s \<le> length data \<Longrightarrow> concat (map (pad_symbol data s) [0..<n]) = take (n * s) data"
proof (induction n)
  case (Suc n)
  have "pad_symbol data s n = take s (drop (n * s) data)"
    using Suc.prems by (simp add: pad_symbol_def)
  moreover have "Suc n * s = n * s + s" by simp
  ultimately show ?case using Suc by (simp only: take_add) simp
qed simp

lemma take_pad_symbols:
  assumes "0 < s" "data \<noteq> []"
  shows "take (length data) (concat (map (pad_symbol data s) [0..<div_ceil (length data) s])) = data"
proof -
  obtain n where n: "div_ceil (length data) s = Suc n"
    using assms div_ceil_pos [of "length data" s] by (metis Suc_pred length_greater_0_conv)
  have le: "n * s < length data" "length data \<le> n * s + s"
    using div_ceil_lower [OF assms(1), of n "length data"] div_ceil_upper [OF assms(1), of "length data"]
    by (simp_all add: n add.commute)
  have "concat (map (pad_symbol data s) [0..<Suc n]) = take (n * s) data @ pad_symbol data s n"
    using le by (simp add: pad_symbols_concat)
  also have "take (length data) \<dots> = take (n * s) data @ take (length data - n * s) (pad_symbol data s n)"
    using le by (simp add: min_def)
  also have "take (length data - n * s) (pad_symbol data s n) = drop (n * s) data"
    using le by (simp add: pad_symbol_def min_def)
  finally show ?thesis by (simp add: n)
qed

lemma rep_codec_run:
  assumes bd: "block_data data s" and k: "k = block_symbols data s"
    and info: "info = OTI (of_nat (length data)) s 1 1 1"
    and ids: "\<forall>i \<in> set ids. i < 2 ^ 24"
    and known: "\<forall>j. m j = None \<or> (m j = Some (pad_symbol data (unat s) j) \<and> j < k)"
  shows "codec_run rep_codec (info, m) (map (block_packet rep_codec data s) ids) \<in> {None, Some data}
    \<and> (ids \<noteq> [] \<longrightarrow> {0..<k} \<subseteq> dom m \<union> (\<lambda>i. i mod k) ` set ids \<longrightarrow>
        codec_run rep_codec (info, m) (map (block_packet rep_codec data s) ids) = Some data)"
  using ids known
proof (induction ids arbitrary: m)
  case (Cons i ids)
  have s: "0 < unat s" "data \<noteq> []" and kp: "0 < k" and kd: "k = div_ceil (length data) (unat s)"
    using bd div_ceil_pos [of "length data" "unat s"] by (auto simp: block_data_def k block_symbols_def)
  have len: "unat (of_nat (length data) :: u64) = length data"
    using bd by (simp add: block_data_def unat_of_nat U32_MAX_def take_bit_nat_eq_self)
  have i: "unat (of_nat i :: u32) = i"
    using Cons.prems(1) by (simp add: unat_of_nat take_bit_nat_eq_self)
  define m1 where "m1 = m(i mod k \<mapsto> pad_symbol data (unat s) (i mod k))"
  have known': "\<forall>j. m1 j = None \<or> (m1 j = Some (pad_symbol data (unat s) j) \<and> j < k)"
    using Cons.prems(2) kp by (simp add: m1_def)
  let ?all = "list_all (\<lambda>j. m1 j \<noteq> None) [0..<k]"
  have the: "map (\<lambda>j. the (m1 j)) [0..<k] = map (pad_symbol data (unat s)) [0..<k]" if ?all
  proof (rule map_cong)
    fix j assume "j \<in> set [0..<k]"
    then have "m1 j \<noteq> None" using that by (auto simp: list_all_iff)
    then show "the (m1 j) = pad_symbol data (unat s) j" using known' [rule_format, of j] by auto
  qed simp
  have out: "take (length data) (concat (map (\<lambda>j. the (m1 j)) [0..<k])) = data" if ?all
    using take_pad_symbols [OF s] by (simp only: the [OF that] kd [symmetric])
  have step: "rep_decode (info, m) (block_packet rep_codec data s i) =
      ((info, m1), if ?all then Some data else None)"
    using Cons.prems(1)
    by (simp add: rep_decode_def rep_block_packet [OF bd] rep_packet_def info len i Let_def out
        kd [symmetric] m1_def [symmetric] del: fun_upd_apply not_None_eq)
  show ?case
  proof (cases ?all)
    case True
    then show ?thesis using step by simp
  next
    case False
    then have run: "codec_run rep_codec (info, m) (map (block_packet rep_codec data s) (i # ids)) =
        codec_run rep_codec (info, m1) (map (block_packet rep_codec data s) ids)"
      using step by simp
    have "ids \<noteq> []" if sub: "{0..<k} \<subseteq> dom m \<union> (\<lambda>i. i mod k) ` set (i # ids)"
    proof
      assume "ids = []"
      then have "{0..<k} \<subseteq> dom m1" using sub by (auto simp: m1_def)
      with False show False by (auto simp: list_all_iff)
    qed
    moreover have "dom m1 \<union> (\<lambda>i. i mod k) ` set ids = dom m \<union> (\<lambda>i. i mod k) ` set (i # ids)"
      by (auto simp: m1_def)
    ultimately show ?thesis
      using Cons.IH [of m1] Cons.prems(1) known' unfolding run by auto
  qed
qed simp

lemma rep_decoder_law: "decoder_law rep_codec"
proof -
  have "codec_run rep_codec (block_decoder rep_codec (length data) s)
      (map (block_packet rep_codec data s) ids) \<in> {None, Some data} \<and>
    ({0..<block_symbols data s} \<subseteq> set ids \<longrightarrow>
      codec_run rep_codec (block_decoder rep_codec (length data) s)
        (map (block_packet rep_codec data s) ids) = Some data)"
    if bd: "block_data data s" and ids: "\<forall>i \<in> set ids. i < 2 ^ 24" for data s ids
  proof -
    let ?k = "block_symbols data s"
    have s: "0 < unat s" and kp: "0 < ?k"
      using bd div_ceil_pos [of "length data" "unat s"] by (auto simp: block_data_def block_symbols_def)
    have dec: "block_decoder rep_codec (length data) s = (OTI (of_nat (length data)) s 1 1 1, \<lambda>_. None)"
      by (simp add: block_decoder_def exact_one_block_oti_def max_symbol_size s)
    have "ids \<noteq> [] \<and> {0..<?k} \<subseteq> dom (\<lambda>_. None) \<union> (\<lambda>i. i mod ?k) ` set ids"
      if sub: "{0..<?k} \<subseteq> set ids"
    proof
      show "ids \<noteq> []" using sub kp by auto
      show "{0..<?k} \<subseteq> dom (\<lambda>_. None) \<union> (\<lambda>i. i mod ?k) ` set ids"
        using sub by (force intro!: image_eqI)
    qed
    then show ?thesis
      using rep_codec_run [OF bd refl refl ids, of "\<lambda>_. None"] unfolding dec by blast
  qed
  then show ?thesis unfolding decoder_law_def Let_def by blast
qed

lemma rep_codec_lawful: "rq_lawful rep_codec"
  by (simp add: rq_lawful_def rep_serialization rep_encoder_law rep_decoder_law)

end
