(* ===== verification/Buffer_Pool.thy ===== *)
theory Buffer_Pool
  imports Prelude "HOL-Library.Multiset"
begin

text \<open>
  \<^verbatim>\<open>DatagramBufferPool\<close> of \<^verbatim>\<open>lib.rs\<close>: caller-owned buffers that the encoder reuses. A buffer is its
  capacity and its contents; a fresh \<open>Vec::with_capacity(n)\<close> is modelled with capacity exactly \<open>n\<close>
  (the standard library may round up, which no operation here depends on).
\<close>

record buffer =
  buf_capacity :: nat
  buf_contents :: bytes

type_synonym buffer_pool = "buffer list"

definition vec_with_capacity :: "nat \<Rightarrow> buffer" where
  "vec_with_capacity n = \<lparr>buf_capacity = n, buf_contents = []\<rparr>"

definition buffer_clear :: "buffer \<Rightarrow> buffer" where
  "buffer_clear b = b\<lparr>buf_contents := []\<rparr>"

definition pool_new :: buffer_pool where
  "pool_new = []"

definition pool_available :: "buffer_pool \<Rightarrow> nat" where
  "pool_available pool = length pool"

text \<open>The scan of \<open>take\<close>: position so far, best index, best capacity, remaining buffers.\<close>

primrec best_fit :: "nat \<Rightarrow> nat \<Rightarrow> nat option \<Rightarrow> nat \<Rightarrow> buffer list \<Rightarrow> nat option" where
  "best_fit min_capacity index best_index best_capacity [] = best_index"
| "best_fit min_capacity index best_index best_capacity (b # bs) =
     (if min_capacity \<le> buf_capacity b \<and> buf_capacity b < best_capacity
      then best_fit min_capacity (Suc index) (Some index) (buf_capacity b) bs
      else best_fit min_capacity (Suc index) best_index best_capacity bs)"

text \<open>\<open>Vec::swap_remove\<close>: the last element takes the place of the removed one.\<close>

definition swap_remove :: "nat \<Rightarrow> 'a list \<Rightarrow> 'a \<times> 'a list" where
  "swap_remove i xs = (xs ! i, butlast (xs[i := last xs]))"

definition pool_take :: "nat \<Rightarrow> buffer_pool \<Rightarrow> buffer \<times> buffer_pool" where
  "pool_take min_capacity pool =
     (case best_fit min_capacity 0 None usize_max pool of
        Some index \<Rightarrow> (let (b, rest) = swap_remove index pool in (buffer_clear b, rest))
      | None \<Rightarrow> (vec_with_capacity min_capacity, pool))"

definition pool_recycle :: "buffer \<Rightarrow> buffer_pool \<Rightarrow> buffer_pool" where
  "pool_recycle b pool = pool @ [buffer_clear b]"

primrec pool_recycle_many :: "buffer list \<Rightarrow> buffer_pool \<Rightarrow> buffer_pool" where
  "pool_recycle_many [] pool = pool"
| "pool_recycle_many (b # bs) pool = pool_recycle_many bs (pool_recycle b pool)"

section \<open>Best fit\<close>

definition fits :: "nat \<Rightarrow> buffer \<Rightarrow> bool" where
  "fits n b = (n \<le> buf_capacity b \<and> buf_capacity b < usize_max)"

text \<open>What the scan keeps: the best index so far is the first least sufficient buffer of the prefix.\<close>

definition best_so_far :: "nat \<Rightarrow> buffer list \<Rightarrow> nat option \<Rightarrow> nat \<Rightarrow> bool" where
  "best_so_far n seen bi bc =
     (case bi of
        None \<Rightarrow> bc = usize_max \<and> (\<forall>b\<in>set seen. \<not> fits n b)
      | Some i \<Rightarrow> i < length seen \<and> fits n (seen ! i) \<and> bc = buf_capacity (seen ! i) \<and>
                  (\<forall>b\<in>set seen. fits n b \<longrightarrow> bc \<le> buf_capacity b))"

lemma best_fit_invariant:
  "best_so_far n seen bi bc \<Longrightarrow>
   \<exists>bc'. best_so_far n (seen @ bs) (best_fit n (length seen) bi bc bs) bc'"
proof (induction bs arbitrary: seen bi bc)
  case (Cons b bs)
  have bound: "bc \<le> usize_max"
    using Cons.prems by (auto simp: best_so_far_def fits_def split: option.splits)
  let ?better = "n \<le> buf_capacity b \<and> buf_capacity b < bc"
  have "best_so_far n (seen @ [b]) (if ?better then Some (length seen) else bi)
      (if ?better then buf_capacity b else bc)"
    using Cons.prems bound
    by (fastforce simp: best_so_far_def fits_def nth_append split: option.splits)
  from Cons.IH [OF this] show ?case by (cases ?better) (simp_all only: append.assoc append_Cons append_Nil length_append_singleton best_fit.simps if_True if_False simp_thms)
qed auto

lemma best_fit_result: "\<exists>bc. best_so_far n pool (best_fit n 0 None usize_max pool) bc"
  using best_fit_invariant [of n "[]" None usize_max pool] by (simp add: best_so_far_def)

lemma mset_swap_remove:
  "i < length xs \<Longrightarrow> mset xs = add_mset (fst (swap_remove i xs)) (mset (snd (swap_remove i xs)))"
proof -
  assume i: "i < length xs"
  then obtain ys z where xs: "xs = ys @ [z]" by (cases xs rule: rev_exhaust) auto
  show ?thesis
  proof (cases "i < length ys")
    case True
    then have "ys ! i \<in># mset ys" by simp
    with True show ?thesis
      by (simp add: swap_remove_def xs list_update_append butlast_append nth_append mset_update)
  next
    case False
    then show ?thesis using i by (simp add: swap_remove_def xs list_update_append nth_append)
  qed
qed

text \<open>
  The pool hands out a best fit and loses nothing. Taking a buffer for \<open>n\<close> bytes returns an
  empty buffer; if some pooled buffer is large enough, it is one of least sufficient capacity and
  the others stay in the pool, otherwise a new buffer of that capacity is made and the pool is
  unchanged.
\<close>
lemma pool_take_best_fit:
  assumes "pool_take n pool = (b, pool')"
  shows "buf_contents b = [] \<and>
    (if \<exists>c \<in> set pool. fits n c
     then \<exists>c \<in> set pool. fits n c \<and> b = buffer_clear c \<and> mset pool = add_mset c (mset pool') \<and>
       (\<forall>c' \<in> set pool. fits n c' \<longrightarrow> buf_capacity b \<le> buf_capacity c')
     else b = vec_with_capacity n \<and> pool' = pool)"
proof (cases "best_fit n 0 None usize_max pool")
  case None
  then show ?thesis
    using assms best_fit_result [of n pool]
    by (auto simp: pool_take_def best_so_far_def vec_with_capacity_def)
next
  case (Some i)
  then have i: "i < length pool" "fits n (pool ! i)"
    and least: "\<forall>c \<in> set pool. fits n c \<longrightarrow> buf_capacity (pool ! i) \<le> buf_capacity c"
    using best_fit_result [of n pool] by (auto simp: best_so_far_def)
  have b: "b = buffer_clear (pool ! i)" "pool' = snd (swap_remove i pool)"
    using assms Some by (auto simp: pool_take_def swap_remove_def)
  moreover have "mset pool = add_mset (pool ! i) (mset pool')"
    using mset_swap_remove [OF i(1)] b(2) by (simp add: swap_remove_def)
  moreover have "pool ! i \<in> set pool" using i(1) by (rule nth_mem)
  ultimately show ?thesis using i(2) least by (auto simp: buffer_clear_def)
qed

theorem pool_take_best_fit_witness:
  "\<exists>c \<in> {\<lparr>buf_capacity = 9, buf_contents = [1]\<rparr>, \<lparr>buf_capacity = 4, buf_contents = []\<rparr>}.
     fits 3 c \<and> buf_capacity c = 4"
  using pool_take_best_fit [of 3 "[\<lparr>buf_capacity = 9, buf_contents = [1]\<rparr>, \<lparr>buf_capacity = 4, buf_contents = []\<rparr>]"
      "\<lparr>buf_capacity = 4, buf_contents = []\<rparr>" "[\<lparr>buf_capacity = 9, buf_contents = [1]\<rparr>]"]
  by (simp add: pool_take_def usize_max_def swap_remove_def buffer_clear_def fits_def)

end
