(* ===== verification/Fec_Encoder.thy ===== *)
theory Fec_Encoder
  imports Raptorq_Codec Buffer_Pool
begin

text \<open>
  \<^verbatim>\<open>DatagramFecEncoder\<close> of \<^verbatim>\<open>lib.rs\<close> (lines 921 to 1198). The state is the next block id, the next packet
  sequence and the configuration. An encoding operation returns the new state, the pool when one
  was passed, and the datagrams or the error; on an error it returns the state the source leaves
  behind, in which packet sequences already used stay used.
\<close>

section \<open>State and configuration\<close>

record fec_encoder =
  enc_block_id :: u32
  enc_packet_sequence :: u32
  enc_config :: datagram_fec_config

definition encoder_new :: fec_encoder where
  "encoder_new =
     \<lparr>enc_block_id = 0, enc_packet_sequence = 0, enc_config = datagram_fec_config_default\<rparr>"

definition set_source_symbols :: "u16 \<Rightarrow> fec_encoder \<Rightarrow> fec_encoder" where
  "set_source_symbols k e = e\<lparr>enc_config := (enc_config e)\<lparr>cfg_source_symbols := max k 1\<rparr>\<rparr>"

definition set_repair_symbols :: "u32 \<Rightarrow> fec_encoder \<Rightarrow> fec_encoder" where
  "set_repair_symbols r e = e\<lparr>enc_config := (enc_config e)\<lparr>cfg_repair_symbols := r\<rparr>\<rparr>"

definition set_symbol_size :: "u16 \<Rightarrow> fec_encoder \<Rightarrow> fec_encoder" where
  "set_symbol_size s e = e\<lparr>enc_config := (enc_config e)\<lparr>cfg_symbol_size := max s 1\<rparr>\<rparr>"

definition set_block_id :: "u32 \<Rightarrow> fec_encoder \<Rightarrow> fec_encoder" where
  "set_block_id b e = e\<lparr>enc_block_id := b\<rparr>"

section \<open>Encoding one block\<close>

text \<open>
  The packet loop. \<open>pool\<close> is the optional caller-owned pool; the contents of a buffer taken from it
  are cleared and overwritten, so only its removal from the pool shows.
\<close>

definition take_buffer :: "nat \<Rightarrow> buffer_pool option \<Rightarrow> buffer \<times> buffer_pool option" where
  "take_buffer n pool =
     (case pool of
        Some p \<Rightarrow> (let (b, p') = pool_take n p in (b, Some p'))
      | None \<Rightarrow> (vec_with_capacity n, None))"

definition resize_zero :: "nat \<Rightarrow> bytes \<Rightarrow> bytes" where
  "resize_zero n bs = take n bs @ replicate (n - length bs) 0"

primrec encode_packets ::
    "crc_fun \<Rightarrow> ('e, 'd) raptorq \<Rightarrow> u32 \<Rightarrow> u32 \<Rightarrow> u16 \<Rightarrow> u16 \<Rightarrow> encoding_packet list \<Rightarrow>
     u32 \<Rightarrow> buffer_pool option \<Rightarrow>
     u32 \<times> buffer_pool option \<times> (datagram_fec_error, bytes list) result" where
  "encode_packets crc rq block len k s [] seq pool = (seq, pool, Inr [])"
| "encode_packets crc rq block len k s (packet # packets) seq pool =
     (let serialized = rq_serialize rq packet
      in case header_raptorq crc block len seq k s serialized of
           Inl e \<Rightarrow> (seq, pool, Inl e)
         | Inr header \<Rightarrow>
             (let (buffer, pool1) = take_buffer (HEADER_LEN + length serialized) pool;
                  datagram = resize_zero HEADER_LEN (buf_contents (buffer_clear buffer))
              in case header_encode header datagram of
                   Inl e \<Rightarrow> (seq, pool1, Inl e)
                 | Inr datagram1 \<Rightarrow>
                     (let (seq2, pool2, r) = encode_packets crc rq block len k s packets (seq + 1) pool1
                      in (seq2, pool2, rbind r (\<lambda>ds. Inr ((datagram1 @ serialized) # ds))))))"

definition encode_one_block_with_optional_pool ::
    "crc_fun \<Rightarrow> ('e, 'd) raptorq \<Rightarrow> fec_encoder \<Rightarrow> bytes \<Rightarrow> u32 \<Rightarrow> buffer_pool option \<Rightarrow>
     fec_encoder \<times> buffer_pool option \<times> (datagram_fec_error, bytes list) result" where
  "encode_one_block_with_optional_pool crc rq e data repair_symbols pool =
     (let encoder = rq_encoder rq data
            (exact_one_block_oti (of_nat (length data)) (cfg_symbol_size (enc_config e)));
          packets = rq_encoded_packets rq encoder repair_symbols;
          symbol_size = rq_config_symbol_size rq encoder;
          source_symbols = source_symbol_count (length data) symbol_size;
          (seq, pool1, r) = encode_packets crc rq (enc_block_id e) (of_nat (length data))
            source_symbols symbol_size packets (enc_packet_sequence e) pool;
          e1 = e\<lparr>enc_packet_sequence := seq\<rparr>
      in case r of
           Inl err \<Rightarrow> (e1, pool1, Inl err)
         | Inr datagrams \<Rightarrow> (e1\<lparr>enc_block_id := enc_block_id e1 + 1\<rparr>, pool1, Inr datagrams))"

definition drop_pool :: "'s \<times> buffer_pool option \<times> 'r \<Rightarrow> 's \<times> 'r" where
  "drop_pool x = (case x of (e, pool, r) \<Rightarrow> (e, r))"

definition keep_pool :: "buffer_pool \<Rightarrow> 's \<times> buffer_pool option \<times> 'r \<Rightarrow> 's \<times> buffer_pool \<times> 'r" where
  "keep_pool pool x = (case x of (e, p, r) \<Rightarrow> (e, case p of Some p' \<Rightarrow> p' | None \<Rightarrow> pool, r))"

definition encode_object_with_repair_symbols ::
    "crc_fun \<Rightarrow> ('e, 'd) raptorq \<Rightarrow> fec_encoder \<Rightarrow> bytes \<Rightarrow> u32 \<Rightarrow>
     fec_encoder \<times> (datagram_fec_error, bytes list) result" where
  "encode_object_with_repair_symbols crc rq e data repair_symbols =
     (if length data > U32_MAX then (e, Inl (PayloadTooLong (length data)))
      else drop_pool (encode_one_block_with_optional_pool crc rq e data repair_symbols None))"

definition encode_object ::
    "crc_fun \<Rightarrow> ('e, 'd) raptorq \<Rightarrow> fec_encoder \<Rightarrow> bytes \<Rightarrow>
     fec_encoder \<times> (datagram_fec_error, bytes list) result" where
  "encode_object crc rq e data =
     encode_object_with_repair_symbols crc rq e data (cfg_repair_symbols (enc_config e))"

definition encode_block_with_repair_symbols ::
    "crc_fun \<Rightarrow> ('e, 'd) raptorq \<Rightarrow> fec_encoder \<Rightarrow> bytes \<Rightarrow> u32 \<Rightarrow>
     fec_encoder \<times> (datagram_fec_error, bytes list) result" where
  "encode_block_with_repair_symbols crc rq e data repair_symbols =
     (if length data > U32_MAX then (e, Inl (PayloadTooLong (length data)))
      else if length data > max_payload_len (enc_config e) then
        (e, Inl (PayloadTooLargeForBlock (length data) (max_payload_len (enc_config e))))
      else drop_pool (encode_one_block_with_optional_pool crc rq e data repair_symbols None))"

definition encode_block ::
    "crc_fun \<Rightarrow> ('e, 'd) raptorq \<Rightarrow> fec_encoder \<Rightarrow> bytes \<Rightarrow>
     fec_encoder \<times> (datagram_fec_error, bytes list) result" where
  "encode_block crc rq e data =
     encode_block_with_repair_symbols crc rq e data (cfg_repair_symbols (enc_config e))"

definition encode_block_with_repair_symbols_reusing ::
    "crc_fun \<Rightarrow> ('e, 'd) raptorq \<Rightarrow> fec_encoder \<Rightarrow> bytes \<Rightarrow> u32 \<Rightarrow> buffer_pool \<Rightarrow>
     fec_encoder \<times> buffer_pool \<times> (datagram_fec_error, bytes list) result" where
  "encode_block_with_repair_symbols_reusing crc rq e data repair_symbols pool =
     (if length data > U32_MAX then (e, pool, Inl (PayloadTooLong (length data)))
      else if length data > max_payload_len (enc_config e) then
        (e, pool, Inl (PayloadTooLargeForBlock (length data) (max_payload_len (enc_config e))))
      else keep_pool pool
             (encode_one_block_with_optional_pool crc rq e data repair_symbols (Some pool)))"

definition encode_block_reusing ::
    "crc_fun \<Rightarrow> ('e, 'd) raptorq \<Rightarrow> fec_encoder \<Rightarrow> bytes \<Rightarrow> buffer_pool \<Rightarrow>
     fec_encoder \<times> buffer_pool \<times> (datagram_fec_error, bytes list) result" where
  "encode_block_reusing crc rq e data pool =
     encode_block_with_repair_symbols_reusing crc rq e data (cfg_repair_symbols (enc_config e)) pool"

section \<open>Splitting a payload into blocks\<close>

text \<open>\<open>slice::chunks\<close>; \<open>n\<close> is never 0 in the sources.\<close>

function chunks :: "nat \<Rightarrow> 'a list \<Rightarrow> 'a list list" where
  "chunks n xs = (if xs = [] \<or> n = 0 then [] else take n xs # chunks n (drop n xs))"
  by pat_completeness auto
termination
  by (relation "measure (\<lambda>(n, xs). length xs)") auto

declare chunks.simps [simp del]

fun encode_chunks ::
    "crc_fun \<Rightarrow> ('e, 'd) raptorq \<Rightarrow> fec_encoder \<Rightarrow> buffer_pool option \<Rightarrow> bytes list \<Rightarrow>
     fec_encoder \<times> buffer_pool option \<times> (datagram_fec_error, bytes list) result" where
  "encode_chunks crc rq e pool [] = (e, pool, Inr [])"
| "encode_chunks crc rq e pool (chunk # rest) =
     (case encode_one_block_with_optional_pool crc rq e chunk (cfg_repair_symbols (enc_config e)) pool of
        (e1, pool1, Inl err) \<Rightarrow> (e1, pool1, Inl err)
      | (e1, pool1, Inr ds) \<Rightarrow>
          (case encode_chunks crc rq e1 pool1 rest of
             (e2, pool2, r) \<Rightarrow> (e2, pool2, rbind r (\<lambda>more. Inr (ds @ more)))))"

definition encode_payload_with_pool ::
    "crc_fun \<Rightarrow> ('e, 'd) raptorq \<Rightarrow> fec_encoder \<Rightarrow> bytes \<Rightarrow> buffer_pool option \<Rightarrow>
     fec_encoder \<times> buffer_pool option \<times> (datagram_fec_error, bytes list) result" where
  "encode_payload_with_pool crc rq e data pool =
     (if length data > U32_MAX then (e, pool, Inl (PayloadTooLong (length data)))
      else
        (case encode_chunks crc rq e pool (chunks (max (max_payload_len (enc_config e)) 1) data) of
           (e1, pool1, Inl err) \<Rightarrow> (e1, pool1, Inl err)
         | (e1, pool1, Inr ds) \<Rightarrow>
             if data = [] then
               (case encode_one_block_with_optional_pool crc rq e1 data
                       (cfg_repair_symbols (enc_config e1)) pool1 of
                  (e2, pool2, r) \<Rightarrow> (e2, pool2, rbind r (\<lambda>more. Inr (ds @ more))))
             else (e1, pool1, Inr ds)))"

definition encode_payload ::
    "crc_fun \<Rightarrow> ('e, 'd) raptorq \<Rightarrow> fec_encoder \<Rightarrow> bytes \<Rightarrow>
     fec_encoder \<times> (datagram_fec_error, bytes list) result" where
  "encode_payload crc rq e data = drop_pool (encode_payload_with_pool crc rq e data None)"

definition encode_payload_reusing ::
    "crc_fun \<Rightarrow> ('e, 'd) raptorq \<Rightarrow> fec_encoder \<Rightarrow> bytes \<Rightarrow> buffer_pool \<Rightarrow>
     fec_encoder \<times> buffer_pool \<times> (datagram_fec_error, bytes list) result" where
  "encode_payload_reusing crc rq e data pool =
     keep_pool pool (encode_payload_with_pool crc rq e data (Some pool))"

section \<open>What the packet loop produces\<close>

definition framed_header ::
    "crc_fun \<Rightarrow> u32 \<Rightarrow> u32 \<Rightarrow> u16 \<Rightarrow> u16 \<Rightarrow> u32 \<Rightarrow> bytes \<Rightarrow> datagram_fec_header" where
  "framed_header crc block len k s seq payload =
     (let h = \<lparr>packet_kind = DATAGRAM_KIND_RAPTORQ, packet_flags = DATAGRAM_FLAG_PACKET_CRC32,
               hdr_block_id = block, hdr_transfer_length = len, packet_sequence = seq,
               hdr_source_symbols = k, hdr_symbol_size = s, payload_len = of_nat (length payload),
               hdr_packet_crc32 = 0\<rparr>
      in h\<lparr>hdr_packet_crc32 := packet_crc32 crc (prefix_wire h) payload\<rparr>)"

definition frame :: "crc_fun \<Rightarrow> u32 \<Rightarrow> u32 \<Rightarrow> u16 \<Rightarrow> u16 \<Rightarrow> u32 \<Rightarrow> bytes \<Rightarrow> bytes" where
  "frame crc block len k s seq payload =
     header_wire (framed_header crc block len k s seq payload) @ payload"

primrec frame_all :: "crc_fun \<Rightarrow> u32 \<Rightarrow> u32 \<Rightarrow> u16 \<Rightarrow> u16 \<Rightarrow> u32 \<Rightarrow> bytes list \<Rightarrow> bytes list" where
  "frame_all crc block len k s seq [] = []"
| "frame_all crc block len k s seq (p # ps) =
     frame crc block len k s seq p # frame_all crc block len k s (seq + 1) ps"

lemma length_frame_all [simp]: "length (frame_all crc block len k s seq ps) = length ps"
  by (induction ps arbitrary: seq) simp_all

lemma nth_frame_all:
  "i < length ps \<Longrightarrow>
   frame_all crc block len k s seq ps ! i = frame crc block len k s (seq + of_nat i) (ps ! i)"
  by (induction ps arbitrary: seq i) (auto simp: nth_Cons algebra_simps split: nat.splits)

lemma framed_header_simps [simp]:
  "packet_kind (framed_header crc block len k s seq p) = 1"
  "packet_flags (framed_header crc block len k s seq p) = 1"
  "hdr_block_id (framed_header crc block len k s seq p) = block"
  "hdr_transfer_length (framed_header crc block len k s seq p) = len"
  "packet_sequence (framed_header crc block len k s seq p) = seq"
  "hdr_source_symbols (framed_header crc block len k s seq p) = k"
  "hdr_symbol_size (framed_header crc block len k s seq p) = s"
  "payload_len (framed_header crc block len k s seq p) = of_nat (length p)"
  by (simp_all add: framed_header_def wire_consts Let_def)

lemma validate_framed_header:
  "validate_fields (framed_header crc block len k s seq p) = validate_one_block_geometry len k s"
  by (simp add: validate_fields_def wire_consts)

lemma header_raptorq_eq:
  "length p \<le> U32_MAX \<Longrightarrow>
   header_raptorq crc block len seq k s p =
     rbind (validate_one_block_geometry len k s) (\<lambda>_. Inr (framed_header crc block len k s seq p))"
  by (cases "validate_one_block_geometry len k s")
    (simp_all add: header_raptorq_def framed_header_def compute_packet_crc32_def encode_prefix_eq
      validate_fields_def payload_extension_len_def wire_consts unat_of_nat take_bit_nat_eq_self Let_def)

lemma frame_accepted_eq:
  assumes "length p \<le> U32_MAX" "validate_one_block_geometry len k s = Inr ()"
  shows "accept_datagram crc (frame crc block len k s seq p)
      = Inr (framed_header crc block len k s seq p, p)"
proof -
  let ?h = "framed_header crc block len k s seq p"
  have "header_raptorq crc block len seq k s p = Inr ?h"
    using assms by (simp add: header_raptorq_eq)
  moreover have "header_encode ?h (replicate 32 0) = Inr (header_wire ?h)"
    using assms by (simp add: header_encode_eq validate_framed_header)
  ultimately show ?thesis
    unfolding frame_def by (rule frame_accepted)
qed

lemma drop_pool_eq: "drop_pool x = (fst x, snd (snd x))"
  by (simp add: drop_pool_def split: prod.split)

lemma encode_packets_ok:
  assumes "validate_one_block_geometry len k s = Inr ()"
    and "\<forall>p \<in> set packets. length (rq_serialize rq p) \<le> U32_MAX"
  shows "drop_pool (encode_packets crc rq block len k s packets seq pool) =
    (seq + of_nat (length packets),
     Inr (frame_all crc block len k s seq (map (rq_serialize rq) packets)))"
  using assms(2)
proof (induction packets arbitrary: seq pool)
  case Nil
  then show ?case by (simp add: drop_pool_def)
next
  case (Cons p ps)
  let ?h = "framed_header crc block len k s seq (rq_serialize rq p)"
  have enc: "header_encode ?h (replicate HEADER_LEN 0) = Inr (header_wire ?h)"
    using assms(1) by (simp add: header_encode_eq validate_framed_header HEADER_LEN_def)
  obtain b q where t: "take_buffer (HEADER_LEN + length (rq_serialize rq p)) pool = (b, q)" by fastforce
  have "fst (encode_packets crc rq block len k s ps (seq + 1) q) = seq + 1 + of_nat (length ps)"
    "snd (snd (encode_packets crc rq block len k s ps (seq + 1) q)) =
       Inr (frame_all crc block len k s (seq + 1) (map (rq_serialize rq) ps))"
    using Cons.IH [of "seq + 1" q] Cons.prems by (simp_all add: drop_pool_eq)
  then show ?case
    using Cons.prems assms(1) enc t
    by (simp add: header_raptorq_eq drop_pool_eq resize_zero_def buffer_clear_def frame_def
        case_prod_beta Let_def)
qed

lemma encode_packets_bad:
  assumes "validate_one_block_geometry len k s = Inl err" "packets \<noteq> []"
  shows "\<exists>err'. drop_pool (encode_packets crc rq block len k s packets seq pool) = (seq, Inl err')"
proof -
  obtain p ps where "packets = p # ps" using assms(2) by (cases packets) auto
  moreover have "\<exists>err'. header_raptorq crc block len seq k s (rq_serialize rq p) = Inl err'"
    using assms(1) header_raptorq_eq [of "rq_serialize rq p" crc block len seq k s]
    by (cases "length (rq_serialize rq p) \<le> U32_MAX") (auto simp: header_raptorq_def)
  ultimately show ?thesis by (auto simp: drop_pool_def)
qed

lemma encode_packets_pool:
  "drop_pool (encode_packets crc rq block len k s packets seq pool) =
   drop_pool (encode_packets crc rq block len k s packets seq pool')"
proof (induction packets arbitrary: seq pool pool')
  case (Cons p ps)
  show ?case
  proof (cases "header_raptorq crc block len seq k s (rq_serialize rq p)")
    case (Inr h)
    let ?n = "HEADER_LEN + length (rq_serialize rq p)"
    obtain b1 q1 where t1: "take_buffer ?n pool = (b1, q1)" by fastforce
    obtain b2 q2 where t2: "take_buffer ?n pool' = (b2, q2)" by fastforce
    have "fst (encode_packets crc rq block len k s ps (seq + 1) q1) = fst (encode_packets crc rq block len k s ps (seq + 1) q2)"
      "snd (snd (encode_packets crc rq block len k s ps (seq + 1) q1)) = snd (snd (encode_packets crc rq block len k s ps (seq + 1) q2))"
      using Cons.IH [of "seq + 1" q1 q2] by (simp_all add: drop_pool_eq)
    then show ?thesis
      using Inr t1 t2
      by (cases "header_encode h (replicate HEADER_LEN 0)")
        (simp_all add: drop_pool_eq resize_zero_def buffer_clear_def case_prod_beta Let_def)
  qed (simp add: drop_pool_eq)
qed (simp add: drop_pool_eq)


section \<open>Encoding a block with a lawful codec\<close>

lemma lawful_serialize:
  assumes "rq_lawful rq" "block_data data s" "i < 2 ^ 24"
  shows "rq_deserialize rq (rq_serialize rq (block_packet rq data s i)) = block_packet rq data s i"
    "length (rq_serialize rq (block_packet rq data s i)) = 4 + unat s"
    "pkt_source_block (block_packet rq data s i) = 0"
    "pkt_symbol_id (block_packet rq data s i) = of_nat i"
    "length (pkt_data (block_packet rq data s i)) = unat s"
proof -
  have p: "pkt_source_block (block_packet rq data s i) = 0"
      "pkt_symbol_id (block_packet rq data s i) = of_nat i"
      "length (pkt_data (block_packet rq data s i)) = unat s"
    using assms by (auto simp: rq_lawful_def encoder_law_def)
  then show "pkt_source_block (block_packet rq data s i) = 0"
      "pkt_symbol_id (block_packet rq data s i) = of_nat i"
      "length (pkt_data (block_packet rq data s i)) = unat s" by blast+
  have "unat (pkt_symbol_id (block_packet rq data s i)) < 2 ^ 24"
    using p(2) assms(3) by (simp add: unat_of_nat take_bit_nat_eq_self)
  then show "rq_deserialize rq (rq_serialize rq (block_packet rq data s i)) = block_packet rq data s i"
      "length (rq_serialize rq (block_packet rq data s i)) = 4 + unat s"
    using assms(1) p(3)
    by (simp_all add: rq_lawful_def serialization_law_def ENCODING_PACKET_HEADER_LEN_def)
qed

definition block_frames ::
    "crc_fun \<Rightarrow> ('e, 'd) raptorq \<Rightarrow> u32 \<Rightarrow> u32 \<Rightarrow> bytes \<Rightarrow> u16 \<Rightarrow> nat list \<Rightarrow> bytes list" where
  "block_frames crc rq block seq data s ids =
     frame_all crc block (of_nat (length data)) (of_nat (block_symbols data s)) s seq
       (map (\<lambda>i. rq_serialize rq (block_packet rq data s i)) ids)"

lemma length_block_frames [simp]: "length (block_frames crc rq block seq data s ids) = length ids"
  by (simp add: block_frames_def)

lemma block_data_geometry:
  assumes "block_data data s"
  shows "validate_one_block_geometry (of_nat (length data)) (of_nat (block_symbols data s)) s = Inr ()"
    "source_symbol_count (length data) s = of_nat (block_symbols data s)"
    "unat (of_nat (block_symbols data s) :: u16) = block_symbols data s"
    "unat (of_nat (length data) :: u32) = length data" "0 < block_symbols data s"
proof -
  have b: "0 < unat s" "0 < length data" "length data \<le> 4294967295" "block_symbols data s \<le> 56403"
    using assms by (auto simp: block_data_def U32_MAX_def)
  show 1: "unat (of_nat (block_symbols data s) :: u16) = block_symbols data s"
    using b by (simp add: unat_of_nat take_bit_nat_eq_self)
  show 2: "unat (of_nat (length data) :: u32) = length data"
    using b by (simp add: unat_of_nat take_bit_nat_eq_self)
  show "validate_one_block_geometry (of_nat (length data)) (of_nat (block_symbols data s)) s = Inr ()"
    using b by (simp add: validate_geometry_ok 1 2) (simp add: block_symbols_def)
  show "source_symbol_count (length data) s = of_nat (block_symbols data s)"
    using b by (simp add: source_symbol_count_def max_symbol_size block_symbols_def)
  show "0 < block_symbols data s" using b by (simp add: block_symbols_def div_ceil_pos)
qed

lemma serialize_bound:
  "rq_lawful rq \<Longrightarrow> block_data data s \<Longrightarrow> i < 2 ^ 24 \<Longrightarrow>
   length (rq_serialize rq (block_packet rq data s i)) \<le> U32_MAX"
proof -
  assume a: "rq_lawful rq" "block_data data s" "i < 2 ^ 24"
  have "unat s < 2 ^ LENGTH(16)" by (rule unsigned_less)
  then show ?thesis using lawful_serialize(2) [OF a] by (simp add: U32_MAX_def)
qed

lemma encode_one_block_lawful:
  assumes lawful: "rq_lawful rq" and bd: "block_data data (cfg_symbol_size (enc_config e))"
    and ids: "block_symbols data (cfg_symbol_size (enc_config e)) + unat r \<le> 2 ^ 24"
  shows "drop_pool (encode_one_block_with_optional_pool crc rq e data r pool) =
    (e\<lparr>enc_block_id := enc_block_id e + 1,
       enc_packet_sequence := enc_packet_sequence e +
         of_nat (block_symbols data (cfg_symbol_size (enc_config e)) + unat r)\<rparr>,
     Inr (block_frames crc rq (enc_block_id e) (enc_packet_sequence e) data
       (cfg_symbol_size (enc_config e)) [0..<block_symbols data (cfg_symbol_size (enc_config e)) + unat r]))"
proof -
  let ?s = "cfg_symbol_size (enc_config e)"
  let ?ids = "[0..<block_symbols data ?s + unat r]"
  have enc: "rq_encoder rq data (exact_one_block_oti (of_nat (length data)) ?s) = block_encoder rq data ?s"
    by (simp add: block_encoder_def)
  have size: "rq_config_symbol_size rq (block_encoder rq data ?s) = ?s"
    and packets: "rq_encoded_packets rq (block_encoder rq data ?s) r = map (block_packet rq data ?s) ?ids"
    using lawful bd ids by (auto simp: rq_lawful_def encoder_law_def)
  have "\<forall>p \<in> set (map (block_packet rq data ?s) ?ids). length (rq_serialize rq p) \<le> U32_MAX"
    using serialize_bound [OF lawful bd] ids by auto
  from encode_packets_ok [OF block_data_geometry(1) [OF bd] this, of crc "enc_block_id e" "enc_packet_sequence e" pool]
  show ?thesis
    by (auto simp: encode_one_block_with_optional_pool_def enc size packets block_data_geometry(2) [OF bd]
        drop_pool_eq block_frames_def o_def Let_def case_prod_beta)
qed

lemma block_frame_accepted:
  assumes lawful: "rq_lawful rq" and bd: "block_data data s" and ids: "\<forall>i \<in> set ids. i < 2 ^ 24"
    and j: "j < length ids"
  shows "accept_datagram crc (block_frames crc rq block seq data s ids ! j) =
    Inr (framed_header crc block (of_nat (length data)) (of_nat (block_symbols data s)) s
           (seq + of_nat j) (rq_serialize rq (block_packet rq data s (ids ! j))),
         rq_serialize rq (block_packet rq data s (ids ! j)))"
  using j ids nth_mem [OF j]
  by (simp add: block_frames_def nth_frame_all frame_accepted_eq block_data_geometry(1) [OF bd]
      serialize_bound [OF lawful bd])

section \<open>Payloads of several blocks\<close>

lemma concat_chunks: "0 < n \<Longrightarrow> concat (chunks n xs) = xs"
  by (induction n xs rule: chunks.induct) (subst chunks.simps, auto)

lemma chunks_Nil [simp]: "chunks n [] = []"
  by (simp add: chunks.simps)

lemma chunk_bounds: "c \<in> set (chunks n xs) \<Longrightarrow> c \<noteq> [] \<and> length c \<le> n"
  by (induction n xs rule: chunks.induct) (subst (asm) (2) chunks.simps, auto split: if_splits)

lemma length_chunks: "0 < n \<Longrightarrow> length (chunks n xs) = div_ceil (length xs) n"
proof (induction n xs rule: chunks.induct)
  case (1 n xs)
  show ?case
  proof (cases "xs = []")
    case False
    then have "length (chunks n xs) = Suc (div_ceil (length xs - n) n)"
      using 1 by (subst chunks.simps) simp
    also have "\<dots> = div_ceil (length xs) n"
    proof (cases "length xs \<le> n")
      case True
      then have "div_ceil (length xs) n \<le> 1" "0 < div_ceil (length xs) n"
        using False 1(2) div_ceil_le_iff [of n "length xs" 1] div_ceil_pos [of "length xs" n] by simp_all
      then show ?thesis using True by simp
    next
      case longer: False
      then show ?thesis
        using 1(2) by (auto simp: div_ceil_def le_mod_geq le_div_geq)
    qed
    finally show ?thesis .
  qed simp
qed

lemma encode_one_block_pool:
  "drop_pool (encode_one_block_with_optional_pool crc rq e data r pool) =
   drop_pool (encode_one_block_with_optional_pool crc rq e data r pool')"
proof -
  note eq = encode_packets_pool [of crc rq "enc_block_id e" "of_nat (length data)"
    _ _ _ "enc_packet_sequence e" pool pool']
  show ?thesis
    using eq
    by (auto simp: encode_one_block_with_optional_pool_def drop_pool_eq Let_def case_prod_beta
        split: sum.splits)
qed

lemma encode_chunks_pool:
  "drop_pool (encode_chunks crc rq e pool cs) = drop_pool (encode_chunks crc rq e pool' cs)"
proof (induction cs arbitrary: e pool pool')
  case (Cons c cs)
  let ?one = "encode_one_block_with_optional_pool crc rq e c (cfg_repair_symbols (enc_config e))"
  obtain e1 p1 r1 where a: "?one pool = (e1, p1, r1)" by (cases "?one pool") auto
  obtain p2 where b: "?one pool' = (e1, p2, r1)"
    using encode_one_block_pool [of crc rq e c "cfg_repair_symbols (enc_config e)" pool pool'] a
    by (cases "?one pool'") (auto simp: drop_pool_eq)
  show ?case
    using Cons.IH [of e1 p1 p2] a b by (cases r1) (auto simp: drop_pool_eq split: prod.splits)
qed (simp add: drop_pool_eq)

lemma encode_payload_pool:
  "drop_pool (encode_payload_with_pool crc rq e data pool) =
   drop_pool (encode_payload_with_pool crc rq e data pool')"
proof -
  let ?cs = "encode_chunks crc rq e"
  let ?c = "chunks (max (max_payload_len (enc_config e)) 1) data"
  obtain e1 p1 r1 where a: "?cs pool ?c = (e1, p1, r1)" by (cases "?cs pool ?c") auto
  obtain p2 where b: "?cs pool' ?c = (e1, p2, r1)"
    using encode_chunks_pool [of crc rq e pool ?c pool'] a
    by (cases "?cs pool' ?c") (auto simp: drop_pool_eq)
  show ?thesis
    using encode_one_block_pool [of crc rq e1 data "cfg_repair_symbols (enc_config e1)" p1 p2] a b
    by (cases r1) (auto simp: encode_payload_with_pool_def drop_pool_eq split: prod.splits)
qed

section \<open>Properties of the encoder\<close>

text \<open>
  C17. Buffer reuse is invisible. Encoding a payload with a caller's buffer pool, whatever the pool
  holds, produces the same datagrams, the same error and the same encoder state as encoding it with
  fresh buffers.
\<close>
theorem reuse_equals_fresh:
  "encode_payload crc rq e data =
     (let (e', pool', r) = encode_payload_reusing crc rq e data pool in (e', r))"
  using encode_payload_pool [of crc rq e data None "Some pool"]
  by (auto simp: encode_payload_def encode_payload_reusing_def keep_pool_def drop_pool_eq
      split: prod.splits)

text \<open>
  C13. One block on the wire. With a lawful codec, a nonempty payload that fits the configured block
  is encoded into exactly K source and r repair datagrams. Datagram \<open>i\<close> passes the receive path,
  carries the encoder's block id, the block geometry, packet sequence \<open>first + i\<close> and the packet with
  encoding symbol id \<open>i\<close>; afterwards the block id has advanced by one and the packet sequence by
  the number of datagrams, both wrapping.
\<close>
theorem encode_block_on_the_wire:
  assumes "rq_lawful rq" "block_data data (cfg_symbol_size (enc_config e))"
    and "length data \<le> max_payload_len (enc_config e)"
    and "block_symbols data (cfg_symbol_size (enc_config e)) + unat (cfg_repair_symbols (enc_config e)) \<le> 2 ^ 24"
  shows "\<exists>ds. encode_block crc rq e data =
      (e\<lparr>enc_block_id := enc_block_id e + 1,
         enc_packet_sequence := enc_packet_sequence e + of_nat (length ds)\<rparr>, Inr ds) \<and>
    length ds = block_symbols data (cfg_symbol_size (enc_config e)) + unat (cfg_repair_symbols (enc_config e)) \<and>
    (\<forall>i < length ds. \<exists>h p. accept_datagram crc (ds ! i) = Inr (h, p) \<and>
       hdr_block_id h = enc_block_id e \<and> packet_sequence h = enc_packet_sequence e + of_nat i \<and>
       unat (hdr_transfer_length h) = length data \<and>
       unat (hdr_source_symbols h) = block_symbols data (cfg_symbol_size (enc_config e)) \<and>
       hdr_symbol_size h = cfg_symbol_size (enc_config e) \<and>
       pkt_symbol_id (rq_deserialize rq p) = of_nat i \<and>
       length p = ENCODING_PACKET_HEADER_LEN + unat (cfg_symbol_size (enc_config e)))"
proof -
  let ?s = "cfg_symbol_size (enc_config e)"
  let ?n = "block_symbols data ?s + unat (cfg_repair_symbols (enc_config e))"
  let ?ds = "block_frames crc rq (enc_block_id e) (enc_packet_sequence e) data ?s [0..<?n]"
  have "encode_block crc rq e data =
      (e\<lparr>enc_block_id := enc_block_id e + 1,
         enc_packet_sequence := enc_packet_sequence e + of_nat (length ?ds)\<rparr>, Inr ?ds)"
    using assms encode_one_block_lawful [OF assms(1,2,4), of crc None]
    by (simp add: encode_block_def encode_block_with_repair_symbols_def block_data_def)
  moreover have "\<exists>h p. accept_datagram crc (?ds ! i) = Inr (h, p) \<and>
       hdr_block_id h = enc_block_id e \<and> packet_sequence h = enc_packet_sequence e + of_nat i \<and>
       unat (hdr_transfer_length h) = length data \<and>
       unat (hdr_source_symbols h) = block_symbols data ?s \<and> hdr_symbol_size h = ?s \<and>
       pkt_symbol_id (rq_deserialize rq p) = of_nat i \<and> length p = ENCODING_PACKET_HEADER_LEN + unat ?s"
    if "i < length ?ds" for i
  proof -
    have i: "i < ?n" "i < 2 ^ 24" using that assms(4) by simp_all
    show ?thesis
      using block_frame_accepted [OF assms(1,2), of "[0..<?n]" i crc] assms(4) i
        lawful_serialize [OF assms(1,2) i(2)] block_data_geometry [OF assms(2)]
      by (simp add: ENCODING_PACKET_HEADER_LEN_def)
  qed
  ultimately show ?thesis by (intro exI [of _ ?ds]) simp
qed

definition small_encoder :: fec_encoder where
  "small_encoder =
     \<lparr>enc_block_id = 9, enc_packet_sequence = 5,
      enc_config = \<lparr>cfg_source_symbols = 4, cfg_repair_symbols = 1, cfg_symbol_size = 2\<rparr>\<rparr>"

theorem encode_block_on_the_wire_witness:
  "\<exists>ds. encode_block crc_reference rep_codec small_encoder [1, 2, 3] =
     (small_encoder\<lparr>enc_block_id := 10, enc_packet_sequence := 8\<rparr>, Inr ds) \<and> length ds = 3"
proof -
  have "block_data [1, 2, 3] 2" "block_symbols [1, 2, 3] 2 = 2"
    by (simp_all add: block_data_def block_symbols_def div_ceil_def U32_MAX_def)
  then show ?thesis
    using encode_block_on_the_wire [OF rep_codec_lawful, of "[1, 2, 3]" small_encoder crc_reference]
    by (auto simp: small_encoder_def max_payload_len_def)
qed

text \<open>
  An empty payload cannot be sent. \<open>encode_payload\<close> has a branch for empty data, but a header
  with transfer length 0 is invalid, so whenever the codec yields any packet for the empty block the
  call fails and leaves the encoder as it was.
\<close>
lemma empty_payload_is_an_error:
  assumes "rq_encoded_packets rq (rq_encoder rq [] (exact_one_block_oti 0 (cfg_symbol_size (enc_config e))))
      (cfg_repair_symbols (enc_config e)) \<noteq> []"
  shows "\<exists>err. encode_payload crc rq e [] = (e, Inl err)"
proof -
  let ?enc = "rq_encoder rq [] (exact_one_block_oti 0 (cfg_symbol_size (enc_config e)))"
  obtain err where bad: "validate_one_block_geometry 0 1 (rq_config_symbol_size rq ?enc) = Inl err"
    by (cases "validate_one_block_geometry 0 1 (rq_config_symbol_size rq ?enc)")
      (auto simp: validate_geometry_ok)
  obtain err' where "drop_pool (encode_packets crc rq (enc_block_id e) 0 1 (rq_config_symbol_size rq ?enc)
      (rq_encoded_packets rq ?enc (cfg_repair_symbols (enc_config e))) (enc_packet_sequence e) None) =
      (enc_packet_sequence e, Inl err')"
    using encode_packets_bad [OF bad assms] by blast
  then show ?thesis
    by (auto simp: encode_payload_def encode_payload_with_pool_def encode_one_block_with_optional_pool_def
        source_symbol_count_def drop_pool_eq Let_def case_prod_beta U32_MAX_def)
qed

theorem empty_payload_is_an_error_witness:
  "\<exists>err. encode_payload crc_reference rep_codec small_encoder [] = (small_encoder, Inl err)"
  using empty_payload_is_an_error [of rep_codec small_encoder crc_reference]
  by (simp add: small_encoder_def exact_one_block_oti_def)

end
