(* ===== verification/Repair_Encoder.thy ===== *)
theory Repair_Encoder
  imports Fec_Encoder
begin

text \<open>
  \<^verbatim>\<open>RaptorQRepairEncoder\<close> of \<^verbatim>\<open>lib.rs\<close> (lines 765 to 919): repair symbols on demand for an existing
  block. The state is the profile, the codec's encoder for the block, and the two cursors; the
  repair cursor is the ordinal of the next repair symbol, so its encoding symbol id is the source
  symbol count plus the cursor.
\<close>

definition HARD_MAX_EXTRA_REPAIR_SYMBOLS :: u32 where
  "HARD_MAX_EXTRA_REPAIR_SYMBOLS = 4096"

record 'e repair_encoder =
  rep_profile :: raptorq_block_profile
  rep_encoder :: 'e
  next_repair_symbol :: u32
  next_packet_sequence :: u32

definition validate_repair_symbol_range ::
    "raptorq_block_profile \<Rightarrow> u32 \<Rightarrow> u32 \<Rightarrow> (datagram_fec_error, unit) result" where
  "validate_repair_symbol_range profile next_symbol requested =
     (case checked_add next_symbol requested of
        None \<Rightarrow> Inl (RepairSymbolIdExhausted (prof_source_symbols profile) next_symbol requested)
      | Some end_symbol \<Rightarrow>
          if end_symbol > RAPTORQ_ENCODING_SYMBOL_ID_LIMIT - ucast (prof_source_symbols profile)
          then Inl (RepairSymbolIdExhausted (prof_source_symbols profile) next_symbol requested)
          else Inr ())"

definition repair_encoder_new ::
    "('e, 'd) raptorq \<Rightarrow> bytes \<Rightarrow> raptorq_block_profile \<Rightarrow> u32 \<Rightarrow> u32 \<Rightarrow>
     (datagram_fec_error, 'e repair_encoder) result" where
  "repair_encoder_new rq source profile already_emitted sequence =
     rbind (validate_one_block_geometry (prof_transfer_length profile) (prof_source_symbols profile)
              (prof_symbol_size profile)) (\<lambda>_.
       if unat (prof_transfer_length profile) > HARD_MAX_REPAIR_SOURCE_BYTES then
         Inl (RepairSourceTooLarge (unat (prof_transfer_length profile)) HARD_MAX_REPAIR_SOURCE_BYTES)
       else if length source \<noteq> unat (prof_transfer_length profile) then
         Inl (TransferLengthMismatch (prof_transfer_length profile) (length source))
       else rbind (validate_repair_symbol_range profile already_emitted 0) (\<lambda>_.
         Inr \<lparr>rep_profile = profile, rep_encoder = rq_encoder rq source (profile_oti profile),
              next_repair_symbol = already_emitted, next_packet_sequence = sequence\<rparr>))"

definition next_encoding_symbol_id :: "'e repair_encoder \<Rightarrow> u32 option" where
  "next_encoding_symbol_id r =
     (case checked_add (ucast (prof_source_symbols (rep_profile r))) (next_repair_symbol r) of
        None \<Rightarrow> None
      | Some esi \<Rightarrow> if esi < RAPTORQ_ENCODING_SYMBOL_ID_LIMIT then Some esi else None)"

text \<open>The packet loop of \<open>encode_additional\<close>; on an error the call returns and \<open>self\<close> is untouched.\<close>

primrec additional_packets ::
    "crc_fun \<Rightarrow> ('e, 'd) raptorq \<Rightarrow> raptorq_block_profile \<Rightarrow> encoding_packet list \<Rightarrow> u32 \<Rightarrow>
     (datagram_fec_error, bytes list \<times> u32) result" where
  "additional_packets crc rq profile [] seq = Inr ([], seq)"
| "additional_packets crc rq profile (packet # packets) seq =
     (let serialized = rq_serialize rq packet
      in rbind (header_raptorq crc (prof_block_id profile) (prof_transfer_length profile) seq
                  (prof_source_symbols profile) (prof_symbol_size profile) serialized) (\<lambda>header.
         rbind (header_encode header (replicate HEADER_LEN 0)) (\<lambda>datagram.
         rbind (additional_packets crc rq profile packets (seq + 1)) (\<lambda>(ds, seq').
           Inr ((datagram @ serialized) # ds, seq')))))"

definition encode_additional ::
    "crc_fun \<Rightarrow> ('e, 'd) raptorq \<Rightarrow> 'e repair_encoder \<Rightarrow> u32 \<Rightarrow>
     'e repair_encoder \<times> (datagram_fec_error, bytes list) result" where
  "encode_additional crc rq r repair_symbols =
     (if repair_symbols = 0 \<or> repair_symbols > HARD_MAX_EXTRA_REPAIR_SYMBOLS then
        (r, Inl (AdditionalRepairSymbolCount repair_symbols HARD_MAX_EXTRA_REPAIR_SYMBOLS))
      else
        (let profile = rep_profile r;
             output_bytes = usize_sat_mul (datagram_size_for_symbol_size (prof_symbol_size profile))
               (unat repair_symbols)
         in if output_bytes > HARD_MAX_ADDITIONAL_REPAIR_BYTES then
              (r, Inl (AdditionalRepairOutputTooLarge output_bytes HARD_MAX_ADDITIONAL_REPAIR_BYTES))
            else
              (case validate_repair_symbol_range profile (next_repair_symbol r) repair_symbols of
                 Inl e \<Rightarrow> (r, Inl e)
               | Inr _ \<Rightarrow>
                   (case additional_packets crc rq profile
                           (rq_repair_packets rq (rep_encoder r) (next_repair_symbol r) repair_symbols)
                           (next_packet_sequence r) of
                      Inl e \<Rightarrow> (r, Inl e)
                    | Inr (datagrams, seq) \<Rightarrow>
                        (r\<lparr>next_repair_symbol := next_repair_symbol r + repair_symbols,
                           next_packet_sequence := seq\<rparr>, Inr datagrams)))))"

section \<open>The cursor stays inside the 24-bit namespace\<close>

definition repair_inv :: "('e, 'd) raptorq \<Rightarrow> bytes \<Rightarrow> 'e repair_encoder \<Rightarrow> bool" where
  "repair_inv rq source r \<longleftrightarrow>
     block_data source (prof_symbol_size (rep_profile r)) \<and>
     unat (prof_transfer_length (rep_profile r)) = length source \<and>
     unat (prof_source_symbols (rep_profile r)) = block_symbols source (prof_symbol_size (rep_profile r)) \<and>
     rep_encoder r = block_encoder rq source (prof_symbol_size (rep_profile r)) \<and>
     unat (prof_source_symbols (rep_profile r)) + unat (next_repair_symbol r) \<le> 2 ^ 24"

lemma validate_repair_symbol_range_ok:
  "validate_repair_symbol_range profile next_symbol requested = Inr () \<longleftrightarrow>
     unat (prof_source_symbols profile) + unat next_symbol + unat requested \<le> 2 ^ 24"
proof -
  have k: "unat (prof_source_symbols profile) < 2 ^ LENGTH(16)" by (rule unsigned_less)
  have cap: "unat (RAPTORQ_ENCODING_SYMBOL_ID_LIMIT - ucast (prof_source_symbols profile))
      = 16777216 - unat (prof_source_symbols profile)"
    using k by (simp add: RAPTORQ_ENCODING_SYMBOL_ID_LIMIT_def unat_sub word_le_nat_alt)
  show ?thesis
  proof (cases "unat next_symbol + unat requested < 2 ^ 32")
    case True
    then have "checked_add next_symbol requested = Some (next_symbol + requested)"
      "unat (next_symbol + requested) = unat next_symbol + unat requested"
      by (simp_all add: checked_add_Some unat_plus_no_overflow)
    then show ?thesis
      using k cap by (auto simp: validate_repair_symbol_range_def word_less_nat_alt)
  next
    case False
    then have "checked_add next_symbol requested = None"
      using checked_add_Some [of next_symbol requested] by (cases "checked_add next_symbol requested") auto
    then show ?thesis using False by (simp add: validate_repair_symbol_range_def)
  qed
qed

lemma profile_encoder:
  assumes "unat (prof_transfer_length p) = length source"
  shows "rq_encoder rq source (profile_oti p) = block_encoder rq source (prof_symbol_size p)"
proof -
  have "(ucast (prof_transfer_length p) :: u64) = of_nat (unat (prof_transfer_length p))" by simp
  then have "(ucast (prof_transfer_length p) :: u64) = of_nat (length source)" by (simp only: assms)
  then show ?thesis by (simp add: profile_oti_def block_encoder_def)
qed

lemma repair_encoder_new_inv:
  "repair_encoder_new rq source profile emitted seq = Inr r \<Longrightarrow> repair_inv rq source r"
proof -
  assume new: "repair_encoder_new rq source profile emitted seq = Inr r"
  have len: "unat (prof_transfer_length profile) < 2 ^ LENGTH(32)" by (rule unsigned_less)
  from new have g: "validate_one_block_geometry (prof_transfer_length profile)
      (prof_source_symbols profile) (prof_symbol_size profile) = Inr ()"
    and l: "length source = unat (prof_transfer_length profile)"
    and range: "validate_repair_symbol_range profile emitted 0 = Inr ()"
    and r: "r = \<lparr>rep_profile = profile, rep_encoder = rq_encoder rq source (profile_oti profile),
              next_repair_symbol = emitted, next_packet_sequence = seq\<rparr>"
    by (auto simp: repair_encoder_new_def rbind_eq_Inr split: if_splits)
  show ?thesis
    using g l range len
    by (simp add: repair_inv_def r profile_encoder validate_repair_symbol_range_ok
        validate_geometry_ok block_data_def block_symbols_def U32_MAX_def)
qed

lemma additional_packets_ok:
  assumes "validate_one_block_geometry (prof_transfer_length p) (prof_source_symbols p) (prof_symbol_size p) = Inr ()"
    and "\<forall>q \<in> set packets. length (rq_serialize rq q) \<le> U32_MAX"
  shows "additional_packets crc rq p packets seq =
    Inr (frame_all crc (prof_block_id p) (prof_transfer_length p) (prof_source_symbols p)
           (prof_symbol_size p) seq (map (rq_serialize rq) packets), seq + of_nat (length packets))"
  using assms(2)
proof (induction packets arbitrary: seq)
  case (Cons q qs)
  let ?h = "framed_header crc (prof_block_id p) (prof_transfer_length p) (prof_source_symbols p)
      (prof_symbol_size p) seq (rq_serialize rq q)"
  have "header_encode ?h (replicate HEADER_LEN 0) = Inr (header_wire ?h)"
    using assms(1) by (simp add: header_encode_eq validate_framed_header HEADER_LEN_def)
  then show ?case
    using Cons assms(1) by (simp add: header_raptorq_eq frame_def Let_def)
qed simp

text \<open>What a successful call returns: the frames of the next repair symbols, in order.\<close>

definition repair_frames ::
    "crc_fun \<Rightarrow> ('e, 'd) raptorq \<Rightarrow> bytes \<Rightarrow> 'e repair_encoder \<Rightarrow> nat \<Rightarrow> bytes list" where
  "repair_frames crc rq source r n =
     block_frames crc rq (prof_block_id (rep_profile r)) (next_packet_sequence r) source
       (prof_symbol_size (rep_profile r))
       [block_symbols source (prof_symbol_size (rep_profile r)) + unat (next_repair_symbol r)..<
        block_symbols source (prof_symbol_size (rep_profile r)) + unat (next_repair_symbol r) + n]"

lemma repair_inv_geometry:
  assumes "repair_inv rq source r"
  shows "prof_transfer_length (rep_profile r) = of_nat (length source)"
    "prof_source_symbols (rep_profile r) = of_nat (block_symbols source (prof_symbol_size (rep_profile r)))"
    "validate_one_block_geometry (prof_transfer_length (rep_profile r))
       (prof_source_symbols (rep_profile r)) (prof_symbol_size (rep_profile r)) = Inr ()"
proof -
  let ?s = "prof_symbol_size (rep_profile r)"
  have bd: "block_data source ?s" using assms by (simp add: repair_inv_def)
  show len: "prof_transfer_length (rep_profile r) = of_nat (length source)"
    and k: "prof_source_symbols (rep_profile r) = of_nat (block_symbols source ?s)"
    using assms block_data_geometry(3,4) [OF bd] by (simp_all add: repair_inv_def word_unat_eq_iff)
  show "validate_one_block_geometry (prof_transfer_length (rep_profile r))
       (prof_source_symbols (rep_profile r)) ?s = Inr ()"
    using block_data_geometry(1) [OF bd] by (simp only: len k)
qed

lemma encode_additional_cases:
  assumes lawful: "rq_lawful rq" and inv: "repair_inv rq source r"
    and run: "encode_additional crc rq r n = (r', res)"
  shows "(\<exists>e. res = Inl e \<and> r' = r) \<or>
    (res = Inr (repair_frames crc rq source r (unat n)) \<and>
     r' = r\<lparr>next_repair_symbol := next_repair_symbol r + n,
            next_packet_sequence := next_packet_sequence r + n\<rparr> \<and>
     unat (prof_source_symbols (rep_profile r)) + unat (next_repair_symbol r) + unat n \<le> 2 ^ 24 \<and>
     0 < unat n \<and> unat n \<le> 4096)"
proof (cases "validate_repair_symbol_range (rep_profile r) (next_repair_symbol r) n = Inr () \<and>
    0 < unat n \<and> unat n \<le> 4096")
  case False
  then have "\<exists>e. res = Inl e \<and> r' = r"
    using run
    by (auto simp: encode_additional_def Let_def HARD_MAX_EXTRA_REPAIR_SYMBOLS_def word_less_nat_alt
        unat_gt_0 split: if_splits sum.splits prod.splits)
  then show ?thesis ..
next
  case True
  let ?s = "prof_symbol_size (rep_profile r)"
  let ?a = "block_symbols source ?s + unat (next_repair_symbol r)"
  have bd: "block_data source ?s" and k: "unat (prof_source_symbols (rep_profile r)) = block_symbols source ?s"
    and enc: "rep_encoder r = block_encoder rq source ?s"
    using inv by (auto simp: repair_inv_def)
  have top: "?a + unat n \<le> 2 ^ 24"
    using True k by (simp add: validate_repair_symbol_range_ok)
  have "rq_repair_packets rq (rep_encoder r) (next_repair_symbol r) n =
      map (block_packet rq source ?s) [?a..<?a + unat n]"
    using lawful bd enc top by (auto simp: rq_lawful_def encoder_law_def)
  moreover have "\<forall>q \<in> set (map (block_packet rq source ?s) [?a..<?a + unat n]).
      length (rq_serialize rq q) \<le> U32_MAX"
    using serialize_bound [OF lawful bd] top by auto
  ultimately have packets: "additional_packets crc rq (rep_profile r)
      (rq_repair_packets rq (rep_encoder r) (next_repair_symbol r) n) (next_packet_sequence r) =
      Inr (repair_frames crc rq source r (unat n), next_packet_sequence r + n)"
    using repair_inv_geometry [OF inv]
    by (simp add: additional_packets_ok repair_frames_def block_frames_def o_def)
  have small: "n \<noteq> 0" "\<not> n > HARD_MAX_EXTRA_REPAIR_SYMBOLS"
    using True by (auto simp: HARD_MAX_EXTRA_REPAIR_SYMBOLS_def word_less_nat_alt)
  show ?thesis
    using run small True packets top k
    by (auto simp: encode_additional_def Let_def split: if_splits)
qed

lemma encode_additional_inv:
  assumes "rq_lawful rq" "repair_inv rq source r" "encode_additional crc rq r n = (r', res)"
  shows "repair_inv rq source r'"
proof -
  consider "r' = r" | "r' = r\<lparr>next_repair_symbol := next_repair_symbol r + n,
            next_packet_sequence := next_packet_sequence r + n\<rparr>"
      "unat (prof_source_symbols (rep_profile r)) + unat (next_repair_symbol r) + unat n \<le> 2 ^ 24"
    using encode_additional_cases [OF assms] by blast
  then show ?thesis
  proof cases
    case 2
    then have "unat (next_repair_symbol r + n) = unat (next_repair_symbol r) + unat n"
      by (intro unat_plus_no_overflow) simp
    then show ?thesis using 2 assms(2) by (simp add: repair_inv_def)
  qed (use assms(2) in simp)
qed

text \<open>A producer's calls one after the other, collecting the datagrams of the successful ones.\<close>

primrec encode_additional_all ::
    "crc_fun \<Rightarrow> ('e, 'd) raptorq \<Rightarrow> 'e repair_encoder \<Rightarrow> u32 list \<Rightarrow> 'e repair_encoder \<times> bytes list" where
  "encode_additional_all crc rq r [] = (r, [])"
| "encode_additional_all crc rq r (n # ns) =
     (case encode_additional crc rq r n of
        (r1, res) \<Rightarrow>
          (case encode_additional_all crc rq r1 ns of
             (r2, rest) \<Rightarrow> (r2, (case res of Inl _ \<Rightarrow> [] | Inr ds \<Rightarrow> ds) @ rest)))"

text \<open>The encoding symbol id of an accepted datagram.\<close>

definition datagram_symbol_id :: "crc_fun \<Rightarrow> ('e, 'd) raptorq \<Rightarrow> bytes \<Rightarrow> u32 option" where
  "datagram_symbol_id crc rq d =
     (case accept_datagram crc d of
        Inl _ \<Rightarrow> None | Inr (h, p) \<Rightarrow> Some (pkt_symbol_id (rq_deserialize rq p)))"

lemma map_symbol_ids:
  assumes "rq_lawful rq" "block_data data s" "\<forall>i \<in> set ids. i < 2 ^ 24"
  shows "map (datagram_symbol_id crc rq) (block_frames crc rq block seq data s ids) =
    map (\<lambda>i. Some (of_nat i)) ids"
proof (rule nth_equalityI)
  fix j assume "j < length (map (datagram_symbol_id crc rq) (block_frames crc rq block seq data s ids))"
  then have j: "j < length ids" by simp
  then have "ids ! j < 2 ^ 24" using assms(3) by simp
  then show "map (datagram_symbol_id crc rq) (block_frames crc rq block seq data s ids) ! j =
      map (\<lambda>i. Some (of_nat i)) ids ! j"
    using j block_frame_accepted [OF assms(1,2,3) j] lawful_serialize [OF assms(1,2)]
    by (simp add: datagram_symbol_id_def)
qed simp

lemma repair_frame_ids:
  assumes lawful: "rq_lawful rq" and inv: "repair_inv rq source r"
    and top: "unat (prof_source_symbols (rep_profile r)) + unat (next_repair_symbol r) + n \<le> 2 ^ 24"
  shows "map (datagram_symbol_id crc rq) (repair_frames crc rq source r n) =
    map (\<lambda>i. Some (of_nat i)) [unat (prof_source_symbols (rep_profile r)) + unat (next_repair_symbol r)..<
       unat (prof_source_symbols (rep_profile r)) + unat (next_repair_symbol r) + n]"
  using inv top unfolding repair_frames_def
  by (subst map_symbol_ids [OF lawful]) (auto simp: repair_inv_def)

lemma encode_additional_all_ids:
  assumes "rq_lawful rq" "repair_inv rq source r" "encode_additional_all crc rq r ns = (r', ds)"
  shows "rep_profile r' = rep_profile r \<and> repair_inv rq source r' \<and>
    unat (next_repair_symbol r') = unat (next_repair_symbol r) + length ds \<and>
    map (datagram_symbol_id crc rq) ds =
      map (\<lambda>i. Some (of_nat i)) [unat (prof_source_symbols (rep_profile r)) + unat (next_repair_symbol r)..<
         unat (prof_source_symbols (rep_profile r)) + unat (next_repair_symbol r')]"
  using assms(2,3)
proof (induction ns arbitrary: r r' ds)
  case (Cons n ns)
  obtain r1 res where one: "encode_additional crc rq r n = (r1, res)" by fastforce
  obtain rest where all: "encode_additional_all crc rq r1 ns = (r', rest)"
    and ds: "ds = (case res of Inl _ \<Rightarrow> [] | Inr ds \<Rightarrow> ds) @ rest"
    using Cons.prems(2) one by (auto split: prod.splits)
  have inv1: "repair_inv rq source r1"
    using encode_additional_inv [OF assms(1) Cons.prems(1) one] .
  note IH = Cons.IH [OF inv1 all]
  from encode_additional_cases [OF assms(1) Cons.prems(1) one] show ?case
  proof (elim disjE exE conjE)
    fix e assume "res = Inl e" "r1 = r"
    then show ?thesis using IH ds by simp
  next
    let ?k = "unat (prof_source_symbols (rep_profile r))"
    assume res: "res = Inr (repair_frames crc rq source r (unat n))"
      and r1: "r1 = r\<lparr>next_repair_symbol := next_repair_symbol r + n,
            next_packet_sequence := next_packet_sequence r + n\<rparr>"
      and top: "?k + unat (next_repair_symbol r) + unat n \<le> 2 ^ 24"
    have next1: "unat (next_repair_symbol r1) = unat (next_repair_symbol r) + unat n"
      using top by (simp add: r1 unat_plus_no_overflow)
    have len: "length (repair_frames crc rq source r (unat n)) = unat n"
      by (simp add: repair_frames_def)
    have le: "?k + unat (next_repair_symbol r) \<le> ?k + unat (next_repair_symbol r1)"
      "?k + unat (next_repair_symbol r1) \<le> ?k + unat (next_repair_symbol r')"
      using IH next1 by simp_all
    have "[?k + unat (next_repair_symbol r)..<?k + unat (next_repair_symbol r')] =
        [?k + unat (next_repair_symbol r)..<?k + unat (next_repair_symbol r1)] @
        [?k + unat (next_repair_symbol r1)..<?k + unat (next_repair_symbol r')]"
      using le by (metis le_add_diff_inverse upt_add_eq_append)
    then show ?thesis
      using IH ds res len next1 repair_frame_ids [OF assms(1) Cons.prems(1) top, of crc]
      by (simp add: r1 add.assoc)
  qed
qed simp

lemma next_encoding_symbol_id_eq:
  assumes "unat (prof_source_symbols (rep_profile r)) + unat (next_repair_symbol r) < 2 ^ 24"
  shows "next_encoding_symbol_id r =
    Some (of_nat (unat (prof_source_symbols (rep_profile r)) + unat (next_repair_symbol r)))"
proof -
  let ?k = "ucast (prof_source_symbols (rep_profile r)) :: u32"
  have sum: "unat ?k + unat (next_repair_symbol r) < 2 ^ LENGTH(32)" using assms by simp
  then have add: "checked_add ?k (next_repair_symbol r) = Some (?k + next_repair_symbol r)"
    by (simp add: checked_add_Some)
  have val: "unat (?k + next_repair_symbol r) =
      unat (prof_source_symbols (rep_profile r)) + unat (next_repair_symbol r)"
    using unat_plus_no_overflow [OF sum] by simp
  have "?k + next_repair_symbol r = of_nat (unat (?k + next_repair_symbol r))"
    by (simp only: of_nat_unat ucast_id)
  then have eq: "?k + next_repair_symbol r =
      of_nat (unat (prof_source_symbols (rep_profile r)) + unat (next_repair_symbol r))"
    by (simp only: val)
  have "?k + next_repair_symbol r < RAPTORQ_ENCODING_SYMBOL_ID_LIMIT"
    using assms by (simp add: word_less_nat_alt val RAPTORQ_ENCODING_SYMBOL_ID_LIMIT_def)
  then have "next_encoding_symbol_id r = Some (?k + next_repair_symbol r)"
    by (simp add: next_encoding_symbol_id_def add)
  then show ?thesis by (simp only: eq)
qed

section \<open>Properties of the repair encoder\<close>

text \<open>
  C16. An on-demand repair call is all or nothing. On a producer created by \<open>new\<close> for some source, or
  reached from one by earlier calls, a call either fails and changes nothing, or returns exactly the
  requested number of datagrams, between 1 and 4096, advances the repair cursor by that number
  without overflow, and starts at the symbol id that \<open>next_encoding_symbol_id\<close> announced.
\<close>
theorem repair_call_all_or_nothing:
  assumes "rq_lawful rq" "repair_encoder_new rq source profile emitted seq = Inr r0"
    and "encode_additional_all crc rq r0 ns = (r, earlier)"
    and "encode_additional crc rq r n = (r', res)"
  shows "(case res of
      Inl e \<Rightarrow> r' = r
    | Inr ds \<Rightarrow> length ds = unat n \<and> 1 \<le> length ds \<and> length ds \<le> 4096 \<and>
        unat (next_repair_symbol r') = unat (next_repair_symbol r) + length ds \<and>
        next_packet_sequence r' = next_packet_sequence r + of_nat (length ds) \<and>
        datagram_symbol_id crc rq (hd ds) = next_encoding_symbol_id r)"
proof -
  have inv: "repair_inv rq source r"
    using encode_additional_all_ids [OF assms(1) repair_encoder_new_inv [OF assms(2)] assms(3)] by simp
  from encode_additional_cases [OF assms(1) inv assms(4)] show ?thesis
  proof (elim disjE exE conjE)
    let ?k = "unat (prof_source_symbols (rep_profile r)) + unat (next_repair_symbol r)"
    let ?ds = "repair_frames crc rq source r (unat n)"
    assume res: "res = Inr ?ds" and r': "r' = r\<lparr>next_repair_symbol := next_repair_symbol r + n,
            next_packet_sequence := next_packet_sequence r + n\<rparr>"
      and top: "?k + unat n \<le> 2 ^ 24" and n: "0 < unat n" "unat n \<le> 4096"
    have ids: "map (datagram_symbol_id crc rq) ?ds = map (\<lambda>i. Some (of_nat i)) [?k..<?k + unat n]"
      using repair_frame_ids [OF assms(1) inv top] .
    then have len: "length ?ds = unat n" by (metis diff_add_inverse length_map length_upt)
    then have ne: "?ds \<noteq> []" using n by auto
    then have "datagram_symbol_id crc rq (hd ?ds) = hd (map (datagram_symbol_id crc rq) ?ds)"
      by (simp add: list.map_sel)
    also have "\<dots> = Some (of_nat ?k)" using ids n by (simp add: upt_conv_Cons)
    also have "\<dots> = next_encoding_symbol_id r"
      using top n by (subst next_encoding_symbol_id_eq) auto
    finally have "datagram_symbol_id crc rq (hd ?ds) = next_encoding_symbol_id r" .
    moreover have "unat (next_repair_symbol r + n) = unat (next_repair_symbol r) + unat n"
      using top by (intro unat_plus_no_overflow) simp
    ultimately show ?thesis using n len by (simp add: res r')
  qed simp
qed

text \<open>
  C7. Repair symbols never repeat. However a producer is driven, including calls that fail, the
  encoding symbol ids of everything it returns are consecutive, start right after the source symbols
  and the repair symbols already emitted, are pairwise different and stay inside 24 bits.
\<close>
theorem repair_symbols_never_repeat:
  assumes "rq_lawful rq" "repair_encoder_new rq source profile emitted seq = Inr r"
    and "encode_additional_all crc rq r ns = (r', ds)"
  shows "map (datagram_symbol_id crc rq) ds =
      map (\<lambda>i. Some (of_nat i)) [unat (prof_source_symbols profile) + unat emitted..<
        unat (prof_source_symbols profile) + unat emitted + length ds] \<and>
    unat (prof_source_symbols profile) + unat emitted + length ds \<le> 2 ^ 24 \<and>
    distinct (map (datagram_symbol_id crc rq) ds)"
proof -
  have r: "rep_profile r = profile" "next_repair_symbol r = emitted"
    using assms(2) by (auto simp: repair_encoder_new_def rbind_eq_Inr split: if_splits)
  note all = encode_additional_all_ids [OF assms(1) repair_encoder_new_inv [OF assms(2)] assms(3)]
  let ?a = "unat (prof_source_symbols profile) + unat emitted"
  have ids: "map (datagram_symbol_id crc rq) ds = map (\<lambda>i. Some (of_nat i)) [?a..<?a + length ds]"
    using all r by (simp add: add.assoc)
  moreover have top: "?a + length ds \<le> 2 ^ 24"
    using all r by (auto simp: repair_inv_def)
  moreover have "inj_on (\<lambda>i. Some (of_nat i :: u32)) (set [?a..<?a + length ds])"
  proof (rule inj_onI)
    fix i j assume "i \<in> set [?a..<?a + length ds]" "j \<in> set [?a..<?a + length ds]"
      "Some (of_nat i :: u32) = Some (of_nat j)"
    then show "i = j"
      using top by (auto dest!: arg_cong [where f = unat] simp: unat_of_nat take_bit_nat_eq_self)
  qed
  ultimately show ?thesis by (simp add: distinct_map)
qed

definition small_profile :: raptorq_block_profile where
  "small_profile =
     \<lparr>prof_block_id = 9, prof_transfer_length = 3, prof_source_symbols = 2, prof_symbol_size = 2\<rparr>"

lemma small_repair_encoder:
  "\<exists>r. repair_encoder_new rep_codec [1, 2, 3] small_profile 0 8 = Inr r"
  by (simp add: repair_encoder_new_def small_profile_def validate_one_block_geometry_def u32_div_ceil_def
      div_ceil_def MAX_SOURCE_SYMBOLS_PER_BLOCK_def HARD_MAX_REPAIR_SOURCE_BYTES_def
      validate_repair_symbol_range_def checked_add_def RAPTORQ_ENCODING_SYMBOL_ID_LIMIT_def)

theorem repair_call_all_or_nothing_witness:
  "\<exists>r r' res. repair_encoder_new rep_codec [1, 2, 3] small_profile 0 8 = Inr r \<and>
     encode_additional crc_reference rep_codec r 0 = (r', res) \<and> r' = r"
proof -
  obtain r where r: "repair_encoder_new rep_codec [1, 2, 3] small_profile 0 8 = Inr r"
    using small_repair_encoder by blast
  obtain r' res where "encode_additional crc_reference rep_codec r 0 = (r', res)" by fastforce
  with repair_call_all_or_nothing [OF rep_codec_lawful r, of crc_reference "[]" r "[]" 0 r' res] r
  show ?thesis by (cases res) auto
qed

theorem repair_symbols_never_repeat_witness:
  "\<exists>r r' ds. repair_encoder_new rep_codec [1, 2, 3] small_profile 0 8 = Inr r \<and>
     encode_additional_all crc_reference rep_codec r [2, 0, 1] = (r', ds) \<and>
     distinct (map (datagram_symbol_id crc_reference rep_codec) ds)"
proof -
  obtain r where r: "repair_encoder_new rep_codec [1, 2, 3] small_profile 0 8 = Inr r"
    using small_repair_encoder by blast
  obtain r' ds where "encode_additional_all crc_reference rep_codec r [2, 0, 1] = (r', ds)" by fastforce
  with repair_symbols_never_repeat [OF rep_codec_lawful r this] r show ?thesis by blast
qed

end
