(* ===== verification/Float_Rounding.thy ===== *)
theory Float_Rounding
  imports Prelude Complex_Main "HOL-Library.Log_Nat"
begin

text \<open>
  Rounding of rational numbers to binary floating point numbers of \<open>p + 1\<close> significant bits, to nearest with ties
  to even, with subnormals below the exponent \<open>emin + p\<close>. Shared by the models of \<^verbatim>\<open>f32\<close> and \<^verbatim>\<open>f64\<close>.
\<close>

section \<open>Rounding\<close>

definition pow2 :: "int \<Rightarrow> rat" where
  "pow2 e = (if 0 \<le> e then 2 ^ nat e else 1 / 2 ^ nat (- e))"

text \<open>The exponent of the leading bit of a positive number.\<close>

definition ilog2 :: "rat \<Rightarrow> int" where
  "ilog2 x = (let (a, b) = quotient_of x; k = bitlen a - bitlen b in if pow2 k \<le> x then k else k - 1)"

definition round_half_even :: "rat \<Rightarrow> int" where
  "round_half_even q =
     (let f = \<lfloor>q\<rfloor>; d = q - of_int f
      in if d < 1 / 2 then f else if d > 1 / 2 then f + 1 else if even f then f else f + 1)"

definition quantum :: "nat \<Rightarrow> int \<Rightarrow> rat \<Rightarrow> int" where
  "quantum p emin x = max (ilog2 x - int p) emin"

definition round_to :: "nat \<Rightarrow> int \<Rightarrow> rat \<Rightarrow> rat" where
  "round_to p emin x = of_int (round_half_even (x / pow2 (quantum p emin x))) * pow2 (quantum p emin x)"

section \<open>Powers, logarithms and rounding to integers\<close>

lemma pow2_pos [simp]: "0 < pow2 e"
  by (simp add: pow2_def)

lemma pow2_nonzero [simp]: "pow2 e \<noteq> 0"
  using pow2_pos [of e] by linarith

lemma pow2_div_mono: "x \<le> y \<Longrightarrow> x / pow2 e \<le> y / pow2 e"
  by (intro divide_right_mono less_imp_le [OF pow2_pos])

lemma pow2_nat: "0 \<le> e \<Longrightarrow> pow2 e = of_int (2 ^ nat e)"
  by (simp add: pow2_def)

lemma pow2_powi: "pow2 e = 2 powi e"
  by (simp add: pow2_def power_int_def inverse_eq_divide power_one_over)

lemma pow2_add: "pow2 (a + b) = pow2 a * pow2 b"
  by (simp add: pow2_powi power_int_add)

lemma pow2_diff: "pow2 (a - b) = pow2 a / pow2 b"
  by (simp add: pow2_powi power_int_diff)

lemma pow2_mono: "a \<le> b \<Longrightarrow> pow2 a \<le> pow2 b"
  by (simp add: pow2_powi power_int_increasing)

lemma pow2_less_iff: "pow2 a < pow2 b \<longleftrightarrow> a < b"
proof (cases "a < b")
  case True
  then have "2 powi a < (2 powi b :: rat)" by (rule power_int_strict_increasing) simp
  then show ?thesis using True by (simp add: pow2_powi)
next
  case False
  then show ?thesis using pow2_mono [of b a] by simp
qed

lemma bitlen_int_bounds: "0 < a \<Longrightarrow> pow2 (bitlen a - 1) \<le> of_int a \<and> (of_int a :: rat) < pow2 (bitlen a)"
proof -
  assume a: "0 < a"
  then have b: "2 ^ nat (bitlen a - 1) \<le> a" "a < 2 ^ nat (bitlen a)"
    using bitlen_bounds [of a] by simp_all
  have pos: "0 < bitlen a" using a bitlen_nonneg [of a] bitlen_eq_zero_iff [of a] by linarith
  have "(of_int (2 ^ nat (bitlen a - 1)) :: rat) \<le> of_int a" using b(1) by (simp only: of_int_le_iff)
  moreover have "(of_int a :: rat) < of_int (2 ^ nat (bitlen a))" using b(2) by (simp only: of_int_less_iff)
  ultimately show ?thesis using pos by (simp add: pow2_nat)
qed

lemma ilog2_bounds:
  assumes "0 < x"
  shows "pow2 (ilog2 x) \<le> x" "x < pow2 (ilog2 x + 1)"
proof -
  obtain a b where q: "quotient_of x = (a, b)" by (cases "quotient_of x")
  have b: "0 < b" using q by (rule quotient_of_denom_pos)
  have x: "x = of_int a / of_int b" using q by (rule quotient_of_div)
  then have a: "0 < a" using assms b by (simp add: zero_less_divide_iff)
  let ?k = "bitlen a - bitlen b"
  have lo: "pow2 (?k - 1) \<le> x" and hi: "x < pow2 (?k + 1)"
  proof -
    note A = bitlen_int_bounds [OF a] and B = bitlen_int_bounds [OF b]
    have "pow2 (?k - 1) = pow2 (bitlen a - 1) / pow2 (bitlen b)"
      by (simp flip: pow2_diff) (simp add: algebra_simps)
    also have "\<dots> \<le> of_int a / of_int b"
      using A B a b by (intro frac_le) auto
    finally show "pow2 (?k - 1) \<le> x" using x by simp
    have "of_int a / of_int b < pow2 (bitlen a) / (of_int b :: rat)"
      using A b by (intro divide_strict_right_mono) auto
    also have "\<dots> \<le> pow2 (bitlen a) / pow2 (bitlen b - 1)"
      using B b by (intro divide_left_mono) (auto intro: less_imp_le)
    also have "\<dots> = pow2 (?k + 1)"
      by (simp flip: pow2_diff) (simp add: algebra_simps)
    finally show "x < pow2 (?k + 1)" using x by simp
  qed
  show "pow2 (ilog2 x) \<le> x" "x < pow2 (ilog2 x + 1)"
    using lo hi by (auto simp: ilog2_def q Let_def)
qed

lemma ilog2_unique:
  assumes "pow2 k \<le> x" "x < pow2 (k + 1)"
  shows "ilog2 x = k"
proof -
  have x: "0 < x" using assms(1) pow2_pos [of k] by linarith
  have "pow2 k < pow2 (ilog2 x + 1)" "pow2 (ilog2 x) < pow2 (k + 1)"
    using assms ilog2_bounds [OF x] by linarith+
  then show ?thesis by (simp add: pow2_less_iff)
qed

lemma ilog2_mono: "0 < x \<Longrightarrow> x \<le> y \<Longrightarrow> ilog2 x \<le> ilog2 y"
proof -
  assume "0 < x" "x \<le> y"
  then have "pow2 (ilog2 x) < pow2 (ilog2 y + 1)"
    using ilog2_bounds(1) [of x] ilog2_bounds(2) [of y] by linarith
  then show ?thesis by (simp add: pow2_less_iff)
qed

lemma round_half_even_bounds: "\<lfloor>q\<rfloor> \<le> round_half_even q" "round_half_even q \<le> \<lfloor>q\<rfloor> + 1"
  by (simp_all add: round_half_even_def Let_def)

lemma round_half_even_int [simp]: "round_half_even (of_int n) = n"
  by (simp add: round_half_even_def)

lemma round_half_even_mono: "p \<le> q \<Longrightarrow> round_half_even p \<le> round_half_even q"
proof (cases "\<lfloor>p\<rfloor> = \<lfloor>q\<rfloor>")
  case True
  moreover assume "p \<le> q"
  ultimately show ?thesis by (auto simp: round_half_even_def Let_def)
next
  case False
  moreover assume "p \<le> q"
  ultimately have "\<lfloor>p\<rfloor> + 1 \<le> \<lfloor>q\<rfloor>" using floor_mono [of p q] by linarith
  then show ?thesis using round_half_even_bounds [of p] round_half_even_bounds [of q] by linarith
qed

section \<open>Rounding is monotone\<close>

lemma round_to_mono:
  assumes "0 < x" "x \<le> y"
  shows "round_to p emin x \<le> round_to p emin y"
proof -
  let ?a = "quantum p emin x" and ?b = "quantum p emin y"
  have log: "ilog2 x \<le> ilog2 y" using assms by (rule ilog2_mono)
  show ?thesis
  proof (cases "?a = ?b")
    case True
    have "x / pow2 ?b \<le> y / pow2 ?b" using assms by (intro pow2_div_mono)
    then have "round_half_even (x / pow2 ?b) \<le> round_half_even (y / pow2 ?b)"
      by (rule round_half_even_mono)
    then have "(of_int (round_half_even (x / pow2 ?b)) :: rat) \<le> of_int (round_half_even (y / pow2 ?b))"
      by (simp only: of_int_le_iff)
    then show ?thesis using True by (simp add: round_to_def mult_right_mono)
  next
    case False
    then have less: "ilog2 x < ilog2 y" and b: "?b = ilog2 y - int p" and a: "?a \<le> ilog2 y"
      using log by (auto simp: quantum_def max_def split: if_splits)
    let ?B = "pow2 (ilog2 y)"
    have "x \<le> ?B"
      using ilog2_bounds(2) [of x] pow2_mono [of "ilog2 x + 1" "ilog2 y"] less assms by linarith
    then have "x / pow2 ?a \<le> ?B / pow2 ?a" by (rule pow2_div_mono)
    also have "\<dots> = of_int (2 ^ nat (ilog2 y - ?a))"
      using a by (simp only: pow2_diff [symmetric] pow2_nat diff_ge_0_iff_ge)
    finally have "round_half_even (x / pow2 ?a) \<le> 2 ^ nat (ilog2 y - ?a)"
      using round_half_even_mono by (metis round_half_even_int)
    then have "(of_int (round_half_even (x / pow2 ?a)) :: rat) \<le> of_int (2 ^ nat (ilog2 y - ?a))"
      by (simp only: of_int_le_iff)
    also have "\<dots> = ?B / pow2 ?a"
      using a by (simp only: pow2_diff [symmetric] pow2_nat diff_ge_0_iff_ge)
    finally have X: "round_to p emin x \<le> ?B" by (simp add: round_to_def field_simps)
    have "?B / pow2 ?b \<le> y / pow2 ?b"
      using ilog2_bounds(1) [of y] assms by (intro pow2_div_mono) simp
    moreover have B: "?B / pow2 ?b = of_int (2 ^ p)"
      using b by (simp only: pow2_diff [symmetric] pow2_nat) (simp add: pow2_def)
    ultimately have "2 ^ p \<le> round_half_even (y / pow2 ?b)"
      using round_half_even_mono by (metis round_half_even_int)
    then have "of_int (2 ^ p) \<le> (of_int (round_half_even (y / pow2 ?b)) :: rat)"
      by (simp only: of_int_le_iff)
    then have "?B \<le> round_to p emin y"
      unfolding B [symmetric] by (simp add: round_to_def field_simps)
    with X show ?thesis by linarith
  qed
qed

lemma round_to_nonneg: "0 < x \<Longrightarrow> 0 \<le> round_to p emin x"
proof -
  assume "0 < x"
  then have "0 / pow2 (quantum p emin x) \<le> x / pow2 (quantum p emin x)"
    by (intro pow2_div_mono) simp
  then have "round_half_even 0 \<le> round_half_even (x / pow2 (quantum p emin x))"
    by (intro round_half_even_mono) simp
  then have "0 \<le> round_half_even (x / pow2 (quantum p emin x))"
    using round_half_even_int [of 0] by simp
  then show ?thesis
    using pow2_pos [of "quantum p emin x"] by (simp add: round_to_def mult_nonneg_nonneg less_imp_le)
qed

section \<open>Relative error and exactness\<close>

lemma round_half_even_nearest: "\<bar>of_int (round_half_even q) - q\<bar> \<le> 1 / 2"
proof -
  have "of_int \<lfloor>q\<rfloor> \<le> q" "q < of_int \<lfloor>q\<rfloor> + 1" by linarith+
  then show ?thesis unfolding round_half_even_def Let_def by (cases "q - of_int \<lfloor>q\<rfloor>" "1 / 2 :: rat" rule: linorder_cases) auto
qed

lemma round_to_nearest:
  assumes "pow2 (emin + int p) \<le> x"
  shows "\<bar>round_to p emin x - x\<bar> \<le> x / 2 ^ Suc p"
proof -
  let ?e = "quantum p emin x"
  have x: "0 < x" using assms pow2_pos [of "emin + int p"] by linarith
  have "emin + int p \<le> ilog2 x"
  proof (rule ccontr)
    assume "\<not> emin + int p \<le> ilog2 x"
    then have "pow2 (ilog2 x + 1) \<le> pow2 (emin + int p)" by (intro pow2_mono) simp
    then show False using ilog2_bounds(2) [OF x] assms by linarith
  qed
  then have e: "?e = ilog2 x - int p" by (simp add: quantum_def)
  have unit: "pow2 ?e \<le> x / 2 ^ p"
  proof -
    have "pow2 ?e = pow2 (ilog2 x) / pow2 (int p)" by (simp add: e pow2_diff)
    also have "\<dots> \<le> x / pow2 (int p)" by (rule pow2_div_mono) (rule ilog2_bounds(1) [OF x])
    also have "pow2 (int p) = 2 ^ p" by (simp add: pow2_def)
    finally show ?thesis .
  qed
  have "round_to p emin x - x = (of_int (round_half_even (x / pow2 ?e)) - x / pow2 ?e) * pow2 ?e"
    by (simp add: round_to_def left_diff_distrib)
  also have "\<bar>\<dots>\<bar> \<le> 1 / 2 * pow2 ?e"
    unfolding abs_mult abs_of_pos [OF pow2_pos]
    by (intro mult_right_mono round_half_even_nearest less_imp_le [OF pow2_pos])
  also have "\<dots> \<le> x / 2 ^ Suc p" using unit by simp
  finally show ?thesis .
qed

lemma round_to_upper:
  assumes "pow2 (emin + int p) \<le> x"
  shows "round_to p emin x \<le> x * (1 + 1 / 2 ^ p)"
proof -
  have "0 < x" using assms pow2_pos [of "emin + int p"] by linarith
  then have "x / 2 ^ Suc p \<le> x / 2 ^ p" by (simp add: field_simps)
  then have "round_to p emin x \<le> x + x / 2 ^ p" using abs_le_D1 [OF round_to_nearest [OF assms]] by linarith
  then show ?thesis by (simp add: distrib_left)
qed

text \<open>A multiple of the quantum is not changed.\<close>

lemma round_to_exact:
  assumes "x = of_int n * pow2 e" "quantum p emin x \<le> e"
  shows "round_to p emin x = x"
proof -
  let ?q = "quantum p emin x"
  have "pow2 e = of_int (2 ^ nat (e - ?q)) * pow2 ?q"
    using assms(2) pow2_nat [of "e - ?q"] by (simp add: pow2_diff field_simps)
  then have "x / pow2 ?q = of_int (n * 2 ^ nat (e - ?q))"
    unfolding assms(1) by (metis nonzero_mult_div_cancel_right mult.assoc of_int_mult pow2_nonzero)
  then have "round_to p emin x = x / pow2 ?q * pow2 ?q" by (simp only: round_to_def round_half_even_int)
  then show ?thesis by simp
qed

end
