(* ===== verification/F32.thy ===== *)
theory F32
  imports Float_Rounding
begin

text \<open>
  Rust's \<open>f32\<close>: IEEE 754 binary32 with rounding to nearest, ties to even, and subnormals. A finite
  value is its rational number; the sign of zero is not kept, since no operation of the sources
  can tell it (no divisor there can be zero). Operations round the exact result;
  \<open>as\<close> conversions to integers truncate, saturate and send NaN to 0; \<open>max\<close> ignores a NaN
  operand; \<open>clamp\<close> keeps a NaN. \<open>clamp\<close> panics unless its bounds are ordered, which the
  development proves of every call instead of returning an option.
\<close>

datatype f32 = NaN | PosInf | NegInf | Fin rat

section \<open>Rounding\<close>

definition round_pos :: "rat \<Rightarrow> rat" where
  "round_pos = round_to 23 (-149)"

definition f32_round :: "rat \<Rightarrow> f32" where
  "f32_round x =
     (if x = 0 then Fin 0
      else if 0 < x then (if round_pos x < pow2 128 then Fin (round_pos x) else PosInf)
      else (if round_pos (- x) < pow2 128 then Fin (- round_pos (- x)) else NegInf))"

section \<open>Operations\<close>

fun f32_add :: "f32 \<Rightarrow> f32 \<Rightarrow> f32" where
  "f32_add (Fin x) (Fin y) = f32_round (x + y)"
| "f32_add NaN _ = NaN"
| "f32_add _ NaN = NaN"
| "f32_add PosInf NegInf = NaN"
| "f32_add NegInf PosInf = NaN"
| "f32_add PosInf _ = PosInf"
| "f32_add _ PosInf = PosInf"
| "f32_add NegInf _ = NegInf"
| "f32_add _ NegInf = NegInf"

definition f32_inf_mul :: "bool \<Rightarrow> rat \<Rightarrow> f32" where
  "f32_inf_mul positive x =
     (if x = 0 then NaN else if (0 < x) = positive then PosInf else NegInf)"

fun f32_mul :: "f32 \<Rightarrow> f32 \<Rightarrow> f32" where
  "f32_mul (Fin x) (Fin y) = f32_round (x * y)"
| "f32_mul NaN _ = NaN"
| "f32_mul _ NaN = NaN"
| "f32_mul PosInf PosInf = PosInf"
| "f32_mul NegInf NegInf = PosInf"
| "f32_mul PosInf NegInf = NegInf"
| "f32_mul NegInf PosInf = NegInf"
| "f32_mul PosInf (Fin y) = f32_inf_mul True y"
| "f32_mul NegInf (Fin y) = f32_inf_mul False y"
| "f32_mul (Fin x) PosInf = f32_inf_mul True x"
| "f32_mul (Fin x) NegInf = f32_inf_mul False x"

text \<open>Division; a zero divisor counts as positive zero.\<close>

fun f32_div :: "f32 \<Rightarrow> f32 \<Rightarrow> f32" where
  "f32_div (Fin x) (Fin y) =
     (if y = 0 then (if x = 0 then NaN else if 0 < x then PosInf else NegInf) else f32_round (x / y))"
| "f32_div NaN _ = NaN"
| "f32_div _ NaN = NaN"
| "f32_div PosInf (Fin y) = (if y < 0 then NegInf else PosInf)"
| "f32_div NegInf (Fin y) = (if y < 0 then PosInf else NegInf)"
| "f32_div (Fin x) _ = Fin 0"
| "f32_div _ _ = NaN"

fun f32_le :: "f32 \<Rightarrow> f32 \<Rightarrow> bool" where
  "f32_le NaN _ = False"
| "f32_le _ NaN = False"
| "f32_le NegInf _ = True"
| "f32_le _ PosInf = True"
| "f32_le (Fin x) (Fin y) = (x \<le> y)"
| "f32_le (Fin _) NegInf = False"
| "f32_le PosInf _ = False"

fun f32_lt :: "f32 \<Rightarrow> f32 \<Rightarrow> bool" where
  "f32_lt NaN _ = False"
| "f32_lt _ NaN = False"
| "f32_lt NegInf y = (y \<noteq> NegInf)"
| "f32_lt x PosInf = (x \<noteq> PosInf)"
| "f32_lt (Fin x) (Fin y) = (x < y)"
| "f32_lt (Fin _) NegInf = False"
| "f32_lt PosInf _ = False"

definition f32_max :: "f32 \<Rightarrow> f32 \<Rightarrow> f32" where
  "f32_max x y = (if x = NaN then y else if y = NaN then x else if f32_lt x y then y else x)"

definition f32_clamp :: "f32 \<Rightarrow> f32 \<Rightarrow> f32 \<Rightarrow> f32" where
  "f32_clamp x lo hi = (if f32_lt x lo then lo else if f32_lt hi x then hi else x)"

fun f32_ceil :: "f32 \<Rightarrow> f32" where
  "f32_ceil (Fin x) = f32_round (of_int \<lceil>x\<rceil>)"
| "f32_ceil x = x"

text \<open>\<open>as u32\<close> and \<open>as u64\<close>: truncation, saturating at both ends.\<close>

fun f32_to_word :: "f32 \<Rightarrow> 'a::len word" where
  "f32_to_word NaN = 0"
| "f32_to_word NegInf = 0"
| "f32_to_word PosInf = - 1"
| "f32_to_word (Fin x) =
     (if x \<le> 0 then 0 else if \<lfloor>x\<rfloor> \<ge> 2 ^ LENGTH('a) then - 1 else of_int \<lfloor>x\<rfloor>)"

definition f32_of_nat :: "nat \<Rightarrow> f32" where
  "f32_of_nat n = f32_round (of_nat n)"

definition f32_lit :: "rat \<Rightarrow> f32" where
  "f32_lit x = f32_round x"

section \<open>Rounding is monotone\<close>

lemma round_pos_mono: "0 < x \<Longrightarrow> x \<le> y \<Longrightarrow> round_pos x \<le> round_pos y"
  by (simp add: round_pos_def round_to_mono)

lemma round_pos_nonneg: "0 < x \<Longrightarrow> 0 \<le> round_pos x"
  by (simp add: round_pos_def round_to_nonneg)

lemma f32_round_0 [simp]: "f32_round 0 = Fin 0"
  by (simp add: f32_round_def)

lemma f32_round_mono:
  assumes "x \<le> y"
  shows "f32_le (f32_round x) (f32_round y)"
proof -
  consider "0 < x" | "x \<le> 0" "0 \<le> y" | "y < 0" using assms by linarith
  then show ?thesis
  proof cases
    case 1
    then show ?thesis using assms round_pos_mono [of x y] by (auto simp: f32_round_def)
  next
    case 2
    have "x < 0 \<Longrightarrow> 0 \<le> round_pos (- x)" "0 < y \<Longrightarrow> 0 \<le> round_pos y"
      by (auto intro: round_pos_nonneg)
    then show ?thesis using 2 by (auto simp: f32_round_def)
  next
    case 3
    then show ?thesis using assms round_pos_mono [of "- y" "- x"] by (auto simp: f32_round_def)
  qed
qed

section \<open>Order, bounds and conversions\<close>

definition not_nan :: "f32 \<Rightarrow> bool" where
  "not_nan x \<longleftrightarrow> x \<noteq> NaN"

text \<open>Zero or more, and not NaN.\<close>

definition f32_nonneg :: "f32 \<Rightarrow> bool" where
  "f32_nonneg x \<longleftrightarrow> f32_le (Fin 0) x"

lemma f32_le_refl [simp]: "f32_le x x \<longleftrightarrow> x \<noteq> NaN"
  by (cases x) simp_all

lemma f32_le_trans [trans]: "f32_le x y \<Longrightarrow> f32_le y z \<Longrightarrow> f32_le x z"
  by (cases x; cases y; cases z) simp_all

lemma f32_le_not_nan: "f32_le x y \<Longrightarrow> x \<noteq> NaN \<and> y \<noteq> NaN"
  by (cases x; cases y) simp_all

lemma f32_not_le: "x \<noteq> NaN \<Longrightarrow> y \<noteq> NaN \<Longrightarrow> f32_lt x y \<longleftrightarrow> \<not> f32_le y x"
  by (cases x; cases y) auto

lemma f32_lt_le: "f32_lt x y \<Longrightarrow> f32_le x y"
  by (cases x; cases y) simp_all

lemma f32_le_total: "x \<noteq> NaN \<Longrightarrow> y \<noteq> NaN \<Longrightarrow> f32_le x y \<or> f32_le y x"
  by (cases x; cases y) auto

lemma f32_lt_le_trans: "f32_lt x y \<Longrightarrow> f32_le y z \<Longrightarrow> f32_lt x z"
  by (cases x; cases y; cases z) simp_all

lemma f32_nonneg_simps [simp]:
  "f32_nonneg (Fin x) \<longleftrightarrow> 0 \<le> x" "f32_nonneg PosInf" "\<not> f32_nonneg NaN" "\<not> f32_nonneg NegInf"
  by (simp_all add: f32_nonneg_def)

lemma f32_max_zero: "f32_nonneg (f32_max x (Fin 0))"
  by (cases x) (auto simp: f32_max_def)

lemma f32_max_ge: "y \<noteq> NaN \<Longrightarrow> f32_le y (f32_max x y)"
  by (cases x; cases y) (auto simp: f32_max_def)

lemma f32_clamp_bounds:
  "f32_le lo hi \<Longrightarrow> x \<noteq> NaN \<Longrightarrow> f32_le lo (f32_clamp x lo hi) \<and> f32_le (f32_clamp x lo hi) hi"
  by (cases x; cases lo; cases hi) (auto simp: f32_clamp_def)

lemma f32_clamp_nan [simp]: "f32_clamp NaN lo hi = NaN"
  by (cases hi) (simp_all add: f32_clamp_def)

lemma f32_clamp_not_nan: "f32_le lo hi \<Longrightarrow> x \<noteq> NaN \<Longrightarrow> f32_clamp x lo hi \<noteq> NaN"
  by (auto dest: f32_clamp_bounds f32_le_not_nan)

lemma f32_clamp_mono:
  "f32_le lo hi \<Longrightarrow> f32_le x y \<Longrightarrow> f32_le (f32_clamp x lo hi) (f32_clamp y lo hi)"
  by (cases x; cases y; cases lo; cases hi) (auto simp: f32_clamp_def)

lemma f32_round_not_nan [simp]: "f32_round x \<noteq> NaN"
  by (simp add: f32_round_def)

lemma f32_round_nonneg: "0 \<le> x \<Longrightarrow> f32_nonneg (f32_round x)"
  using f32_round_mono [of 0 x] by (simp add: f32_nonneg_def)

lemma f32_round_extremes [simp]: "f32_le (f32_round x) PosInf" "f32_le NegInf (f32_round x)"
  using f32_round_not_nan [of x] by (cases "f32_round x"; simp)+

lemma f32_add_nonneg: "f32_nonneg x \<Longrightarrow> f32_nonneg y \<Longrightarrow> f32_nonneg (f32_add x y)"
  by (cases x; cases y) (simp_all add: f32_round_nonneg)

lemma f32_add_mono:
  assumes "f32_le x x'" "f32_le y y'" "f32_nonneg x" "f32_nonneg y"
  shows "f32_le (f32_add x y) (f32_add x' y')"
  using assms by (cases x; cases x'; cases y; cases y') (auto simp: f32_round_mono)

lemma f32_mul_nonneg: "f32_nonneg x \<Longrightarrow> 0 < c \<Longrightarrow> f32_nonneg (f32_mul (Fin c) x)"
  by (cases x) (simp_all add: f32_round_nonneg f32_inf_mul_def)

lemma f32_mul_mono:
  "f32_le x y \<Longrightarrow> f32_nonneg x \<Longrightarrow> 0 < c \<Longrightarrow> f32_le (f32_mul (Fin c) x) (f32_mul (Fin c) y)"
  by (cases x; cases y) (simp_all add: f32_round_mono f32_inf_mul_def f32_round_extremes mult_left_mono)

lemma f32_ceil_mono: "f32_le x y \<Longrightarrow> f32_le (f32_ceil x) (f32_ceil y)"
  by (cases x; cases y) (auto simp: ceiling_mono f32_round_extremes intro!: f32_round_mono split: f32.splits)

lemma f32_to_word_mono:
  assumes "f32_le x y"
  shows "(f32_to_word x :: 'a::len word) \<le> f32_to_word y"
proof (cases "\<exists>a b. x = Fin a \<and> y = Fin b")
  case True
  then obtain a b where xy: "x = Fin a" "y = Fin b" and ab: "a \<le> b" using assms by auto
  have fl: "\<lfloor>a\<rfloor> \<le> \<lfloor>b\<rfloor>" using ab by (rule floor_mono)
  show ?thesis
  proof (cases "0 < a \<and> \<lfloor>b\<rfloor> < 2 ^ LENGTH('a)")
    case True
    then have r: "0 \<le> \<lfloor>a\<rfloor>" "\<lfloor>a\<rfloor> < 2 ^ LENGTH('a)" "0 \<le> \<lfloor>b\<rfloor>" using fl by linarith+
    then have "uint (of_int \<lfloor>a\<rfloor> :: 'a word) = \<lfloor>a\<rfloor>" "uint (of_int \<lfloor>b\<rfloor> :: 'a word) = \<lfloor>b\<rfloor>"
      using True by (simp_all add: uint_word_of_int)
    then show ?thesis using True r ab fl by (simp add: xy word_le_def)
  next
    case False
    then show ?thesis using ab fl by (auto simp: xy not_less)
  qed
next
  case False
  then show ?thesis using assms by (cases x; cases y) auto
qed

lemma f32_to_word_nat_le:
  assumes "f32_le x (Fin (of_nat n))" "n < 2 ^ LENGTH('a)"
  shows "unat (f32_to_word x :: 'a::len word) \<le> n"
proof -
  have "unat (f32_to_word (Fin (of_nat n)) :: 'a word) \<le> n"
    using assms(2) by (auto simp: unat_of_nat take_bit_nat_eq_self not_le)
  then show ?thesis
    using f32_to_word_mono [OF assms(1), where ?'a = 'a] by (simp add: word_le_nat_alt)
qed

section \<open>Relative error\<close>

lemma round_pos_upper: "pow2 (-126) \<le> x \<Longrightarrow> round_pos x \<le> x * (1 + 1 / 2 ^ 23)"
  using round_to_upper [of "-149" 23 x] by (simp add: round_pos_def)

lemma eval_examples:
  "f32_lit (8 / 100) = Fin (5368709 / 67108864)"
  "f32_lit (99 / 100) = Fin (8304722 / 8388608)"
  by (code_simp)+

end
