(* ===== verification/Adaptive.thy ===== *)
theory Adaptive
  imports F32 Wire Sequence
begin

text \<open>
  \<^verbatim>\<open>adaptive.rs\<close>: the controller that chooses block geometry and repair counts from network metrics and
  adapts a target bitrate, with \<^verbatim>\<open>SequenceStats::loss_fraction\<close> of \<^verbatim>\<open>sequence.rs\<close>.
  Floating point values are those of \<open>F32\<close>; the \<open>u64\<close> and \<open>f32\<close> \<open>clamp\<close> of the source panic on
  unordered bounds, and \<open>controller_inv\<close> below rules that out.
\<close>

section \<open>Metrics\<close>

definition loss_fraction :: "sequence_stats \<Rightarrow> f32" where
  "loss_fraction st =
     (let total = sat_add (received st) (missing_count st)
      in if total = 0 then Fin 0
         else f32_div (f32_of_nat (unat (missing_count st))) (f32_of_nat (unat total)))"

record network_metrics =
  nm_loss_fraction :: f32
  nm_rtt_ms :: f32
  nm_jitter_ms :: f32
  nm_queue_delay_ms :: f32
  nm_available_bitrate_bps :: "u64 option"

definition network_metrics_default :: network_metrics where
  "network_metrics_default =
     \<lparr>nm_loss_fraction = Fin 0, nm_rtt_ms = Fin 0, nm_jitter_ms = Fin 0, nm_queue_delay_ms = Fin 0,
      nm_available_bitrate_bps = None\<rparr>"

record metrics_observation =
  ob_sequence_stats :: sequence_stats
  ob_rtt_ms :: f32
  ob_jitter_ms :: f32
  ob_queue_delay_ms :: f32
  ob_available_bitrate_bps :: "u64 option"
  ob_loss_fraction_override :: "f32 option"

definition observation_new :: "sequence_stats \<Rightarrow> metrics_observation" where
  "observation_new st =
     \<lparr>ob_sequence_stats = st, ob_rtt_ms = Fin 0, ob_jitter_ms = Fin 0, ob_queue_delay_ms = Fin 0,
      ob_available_bitrate_bps = None, ob_loss_fraction_override = None\<rparr>"

definition into_metrics :: "metrics_observation \<Rightarrow> network_metrics" where
  "into_metrics o' =
     \<lparr>nm_loss_fraction = f32_clamp (case ob_loss_fraction_override o' of
          Some l \<Rightarrow> l | None \<Rightarrow> loss_fraction (ob_sequence_stats o')) (Fin 0) (Fin 1),
      nm_rtt_ms = f32_max (ob_rtt_ms o') (Fin 0),
      nm_jitter_ms = f32_max (ob_jitter_ms o') (Fin 0),
      nm_queue_delay_ms = f32_max (ob_queue_delay_ms o') (Fin 0),
      nm_available_bitrate_bps = ob_available_bitrate_bps o'\<rparr>"

section \<open>Policy and congestion configuration\<close>

datatype media_priority = Audio | VideoKey | VideoDelta | Data

record fec_policy =
  pol_min_source_symbols :: u16
  pol_max_source_symbols :: u16
  pol_min_repair_symbols :: u32
  pol_max_repair_symbols :: u32
  pol_delta_repair_floor_source_symbols :: u16
  pol_delta_repair_floor_symbols :: u32
  pol_loss_repair_safety_symbols :: u32
  pol_min_repair_ratio :: f32
  pol_max_repair_ratio :: f32
  pol_keyframe_repair_boost :: f32
  pol_audio_repair_boost :: f32
  pol_symbol_size :: u16

definition fec_policy_default :: fec_policy where
  "fec_policy_default =
     \<lparr>pol_min_source_symbols = DEFAULT_SOURCE_SYMBOLS, pol_max_source_symbols = 48,
      pol_min_repair_symbols = 0, pol_max_repair_symbols = 16,
      pol_delta_repair_floor_source_symbols = 8, pol_delta_repair_floor_symbols = 1,
      pol_loss_repair_safety_symbols = 1, pol_min_repair_ratio = f32_lit (5 / 100),
      pol_max_repair_ratio = f32_lit (35 / 100), pol_keyframe_repair_boost = f32_lit (10 / 100),
      pol_audio_repair_boost = f32_lit (8 / 100), pol_symbol_size = DEFAULT_SYMBOL_SIZE\<rparr>"

definition normalized :: "fec_policy \<Rightarrow> fec_policy" where
  "normalized p =
     (let min_source = max (pol_min_source_symbols p) 1;
          max_source = max (pol_max_source_symbols p) min_source;
          min_ratio = f32_max (pol_min_repair_ratio p) (Fin 0);
          max_ratio = f32_max (pol_max_repair_ratio p) min_ratio;
          min_repair = min (pol_min_repair_symbols p) (pol_max_repair_symbols p);
          delta_floor = min (pol_delta_repair_floor_symbols p) (pol_max_repair_symbols p);
          safety = min (pol_loss_repair_safety_symbols p) (pol_max_repair_symbols p)
      in \<lparr>pol_min_source_symbols = min_source, pol_max_source_symbols = max_source,
          pol_min_repair_symbols = min_repair, pol_max_repair_symbols = pol_max_repair_symbols p,
          pol_delta_repair_floor_source_symbols = max (pol_delta_repair_floor_source_symbols p) 1,
          pol_delta_repair_floor_symbols = delta_floor, pol_loss_repair_safety_symbols = safety,
          pol_min_repair_ratio = min_ratio, pol_max_repair_ratio = max_ratio,
          pol_keyframe_repair_boost = f32_max (pol_keyframe_repair_boost p) (Fin 0),
          pol_audio_repair_boost = f32_max (pol_audio_repair_boost p) (Fin 0),
          pol_symbol_size = max (pol_symbol_size p) 1\<rparr>)"

record congestion_config =
  cc_min_bitrate_bps :: u64
  cc_max_bitrate_bps :: u64
  cc_initial_bitrate_bps :: u64
  cc_additive_increase_bps :: u64
  cc_multiplicative_decrease :: f32
  cc_high_loss_threshold :: f32
  cc_high_queue_delay_ms :: f32
  cc_high_rtt_ms :: f32

definition congestion_config_default :: congestion_config where
  "congestion_config_default =
     \<lparr>cc_min_bitrate_bps = 256000, cc_max_bitrate_bps = 25000000, cc_initial_bitrate_bps = 4000000,
      cc_additive_increase_bps = 250000, cc_multiplicative_decrease = f32_lit (80 / 100),
      cc_high_loss_threshold = f32_lit (8 / 100), cc_high_queue_delay_ms = Fin 80,
      cc_high_rtt_ms = Fin 250\<rparr>"

text \<open>\<open>Ord::clamp\<close> on integers.\<close>

definition clamp_word :: "'a::linorder \<Rightarrow> 'a \<Rightarrow> 'a \<Rightarrow> 'a" where
  "clamp_word x lo hi = (if x < lo then lo else if x > hi then hi else x)"

definition congestion_config_normalized :: "congestion_config \<Rightarrow> congestion_config" where
  "congestion_config_normalized c =
     (let min_bitrate = max (cc_min_bitrate_bps c) 1;
          max_bitrate = max (cc_max_bitrate_bps c) min_bitrate
      in \<lparr>cc_min_bitrate_bps = min_bitrate, cc_max_bitrate_bps = max_bitrate,
          cc_initial_bitrate_bps = clamp_word (cc_initial_bitrate_bps c) min_bitrate max_bitrate,
          cc_additive_increase_bps = max (cc_additive_increase_bps c) 1,
          cc_multiplicative_decrease =
            f32_clamp (cc_multiplicative_decrease c) (f32_lit (1 / 10)) (f32_lit (99 / 100)),
          cc_high_loss_threshold = f32_clamp (cc_high_loss_threshold c) (Fin 0) (Fin 1),
          cc_high_queue_delay_ms = f32_max (cc_high_queue_delay_ms c) (Fin 1),
          cc_high_rtt_ms = f32_max (cc_high_rtt_ms c) (Fin 1)\<rparr>)"

section \<open>The controller\<close>

record fec_decision =
  dcn_config :: datagram_fec_config
  dcn_repair_ratio :: f32
  dcn_source_symbols_for_payload :: u16
  dcn_expected_datagrams :: u32

record congestion_decision =
  cd_target_bitrate_bps :: u64
  cd_congestion_limited :: bool
  cd_should_drop_delta_frame :: bool
  cd_request_keyframe :: bool

record adaptive_controller =
  ctl_policy :: fec_policy
  ctl_congestion :: congestion_config
  ctl_metrics :: network_metrics
  ctl_target :: u64

definition controller_new :: "fec_policy \<Rightarrow> congestion_config \<Rightarrow> adaptive_controller" where
  "controller_new policy congestion =
     (let c = congestion_config_normalized congestion
      in \<lparr>ctl_policy = normalized policy, ctl_congestion = c, ctl_metrics = network_metrics_default,
          ctl_target = clamp_word (cc_initial_bitrate_bps c) (cc_min_bitrate_bps c)
            (cc_max_bitrate_bps c)\<rparr>)"

definition controller_default :: adaptive_controller where
  "controller_default = controller_new fec_policy_default congestion_config_default"

definition congested :: "congestion_config \<Rightarrow> network_metrics \<Rightarrow> f32 \<Rightarrow> bool" where
  "congested c metrics loss \<longleftrightarrow>
     f32_le (cc_high_loss_threshold c) loss \<or>
     f32_le (cc_high_queue_delay_ms c) (nm_queue_delay_ms metrics) \<or>
     f32_le (cc_high_rtt_ms c) (nm_rtt_ms metrics)"

definition update_network_metrics ::
    "adaptive_controller \<Rightarrow> network_metrics \<Rightarrow> adaptive_controller \<times> congestion_decision" where
  "update_network_metrics ctl metrics =
     (let c = ctl_congestion ctl;
          loss = f32_clamp (nm_loss_fraction metrics) (Fin 0) (Fin 1);
          is_congested = congested c metrics loss;
          target1 =
            (if is_congested then
               clamp_word (f32_to_word (f32_mul (f32_of_nat (unat (ctl_target ctl)))
                   (cc_multiplicative_decrease c)))
                 (cc_min_bitrate_bps c) (cc_max_bitrate_bps c)
             else clamp_word (sat_add (ctl_target ctl) (cc_additive_increase_bps c))
                 (cc_min_bitrate_bps c) (cc_max_bitrate_bps c));
          target2 = (case nm_available_bitrate_bps metrics of
              Some available \<Rightarrow>
                clamp_word (min target1 available) (cc_min_bitrate_bps c) (cc_max_bitrate_bps c)
            | None \<Rightarrow> target1)
      in (ctl\<lparr>ctl_target := target2, ctl_metrics := metrics\<lparr>nm_loss_fraction := loss\<rparr>\<rparr>,
          \<lparr>cd_target_bitrate_bps = target2, cd_congestion_limited = is_congested,
           cd_should_drop_delta_frame = (is_congested \<and> f32_le (cc_high_loss_threshold c) loss),
           cd_request_keyframe = f32_le (f32_lit (20 / 100)) loss\<rparr>))"

definition update_from_observation ::
    "adaptive_controller \<Rightarrow> metrics_observation \<Rightarrow> adaptive_controller \<times> congestion_decision" where
  "update_from_observation ctl ob = update_network_metrics ctl (into_metrics ob)"

text \<open>Pressure of jitter or queueing delay, scaled to at most 0.04.\<close>

definition pressure :: "f32 \<Rightarrow> rat \<Rightarrow> f32" where
  "pressure value scale =
     (if f32_le value (Fin 0) then Fin 0
      else f32_mul (f32_clamp (f32_div value (Fin scale)) (Fin 0) (Fin 1)) (f32_lit (4 / 100)))"

definition priority_boost :: "fec_policy \<Rightarrow> media_priority \<Rightarrow> f32" where
  "priority_boost p priority =
     (case priority of
        Audio \<Rightarrow> pol_audio_repair_boost p
      | VideoKey \<Rightarrow> pol_keyframe_repair_boost p
      | VideoDelta \<Rightarrow> Fin 0
      | Data \<Rightarrow> Fin 0)"

definition repair_ratio :: "adaptive_controller \<Rightarrow> media_priority \<Rightarrow> f32" where
  "repair_ratio ctl priority =
     (let p = ctl_policy ctl; m = ctl_metrics ctl;
          loss = f32_clamp (nm_loss_fraction m) (Fin 0) (Fin 1);
          jitter_pressure = pressure (nm_jitter_ms m) 80;
          queue_pressure = pressure (nm_queue_delay_ms m) 200
      in f32_clamp
           (f32_add (f32_add (f32_add (f32_add (pol_min_repair_ratio p) (f32_mul loss (Fin (3 / 2))))
              jitter_pressure) queue_pressure) (priority_boost p priority))
           (pol_min_repair_ratio p) (pol_max_repair_ratio p))"

definition base_repair :: "adaptive_controller \<Rightarrow> u16 \<Rightarrow> media_priority \<Rightarrow> u32" where
  "base_repair ctl source_symbols priority =
     (let ratio = repair_ratio ctl priority;
          raw = f32_mul (f32_of_nat (unat source_symbols)) ratio
      in if f32_lt raw (Fin 1) then
           (if priority = Audio \<and> f32_lt (Fin 0) (nm_loss_fraction (ctl_metrics ctl)) then 1
            else if priority = VideoKey \<and> f32_lt (pol_min_repair_ratio (ctl_policy ctl)) ratio then 1
            else 0)
         else f32_to_word (f32_ceil raw))"

definition repair_symbols_for :: "adaptive_controller \<Rightarrow> u16 \<Rightarrow> media_priority \<Rightarrow> u32" where
  "repair_symbols_for ctl source_symbols priority =
     (let p = ctl_policy ctl;
          source = max source_symbols 1;
          media_floor =
            (if priority = VideoDelta \<and> source \<ge> pol_delta_repair_floor_source_symbols p
             then pol_delta_repair_floor_symbols p else 0);
          repair = max (max (base_repair ctl source priority) (pol_min_repair_symbols p)) media_floor;
          tail_safety_eligible =
            (priority = Audio \<or> priority = VideoKey \<or> source \<ge> pol_delta_repair_floor_source_symbols p);
          loss_safety =
            (if f32_lt (Fin 0) (nm_loss_fraction (ctl_metrics ctl)) \<and> tail_safety_eligible
             then pol_loss_repair_safety_symbols p else 0)
      in min (sat_add repair loss_safety) (pol_max_repair_symbols p))"

definition symbol_size_for_payload :: "adaptive_controller \<Rightarrow> nat \<Rightarrow> media_priority \<Rightarrow> u16" where
  "symbol_size_for_payload ctl payload_length priority =
     (let configured = max (pol_symbol_size (ctl_policy ctl)) 1
      in if priority \<noteq> Audio then configured
         else min configured (of_nat (clamp_word payload_length 1 65535)))"

definition decide :: "adaptive_controller \<Rightarrow> nat \<Rightarrow> media_priority \<Rightarrow> fec_decision" where
  "decide ctl payload_length priority =
     (let symbol_size = symbol_size_for_payload ctl payload_length priority;
          for_payload = source_symbol_count payload_length symbol_size;
          source_symbols = min (max for_payload (pol_min_source_symbols (ctl_policy ctl)))
            (pol_max_source_symbols (ctl_policy ctl));
          repair_symbols = repair_symbols_for ctl for_payload priority
      in \<lparr>dcn_config = \<lparr>cfg_source_symbols = source_symbols, cfg_repair_symbols = repair_symbols,
                       cfg_symbol_size = symbol_size\<rparr>,
          dcn_repair_ratio = repair_ratio ctl priority,
          dcn_source_symbols_for_payload = for_payload,
          dcn_expected_datagrams = ucast for_payload + repair_symbols\<rparr>)"

section \<open>Invariant of the controller\<close>

definition policy_ok :: "fec_policy \<Rightarrow> bool" where
  "policy_ok p \<longleftrightarrow>
     1 \<le> pol_min_source_symbols p \<and> pol_min_source_symbols p \<le> pol_max_source_symbols p \<and>
     pol_min_repair_symbols p \<le> pol_max_repair_symbols p \<and>
     pol_delta_repair_floor_symbols p \<le> pol_max_repair_symbols p \<and>
     pol_loss_repair_safety_symbols p \<le> pol_max_repair_symbols p \<and>
     f32_nonneg (pol_min_repair_ratio p) \<and> f32_le (pol_min_repair_ratio p) (pol_max_repair_ratio p) \<and>
     f32_nonneg (pol_keyframe_repair_boost p) \<and> f32_nonneg (pol_audio_repair_boost p) \<and>
     1 \<le> pol_symbol_size p"

definition congestion_ok :: "congestion_config \<Rightarrow> bool" where
  "congestion_ok c \<longleftrightarrow>
     1 \<le> cc_min_bitrate_bps c \<and> cc_min_bitrate_bps c \<le> cc_max_bitrate_bps c \<and>
     1 \<le> cc_additive_increase_bps c \<and>
     (cc_multiplicative_decrease c = NaN \<or>
      (f32_le (f32_lit (1 / 10)) (cc_multiplicative_decrease c) \<and>
       f32_le (cc_multiplicative_decrease c) (f32_lit (99 / 100))))"

definition controller_inv :: "adaptive_controller \<Rightarrow> bool" where
  "controller_inv ctl \<longleftrightarrow>
     policy_ok (ctl_policy ctl) \<and> congestion_ok (ctl_congestion ctl) \<and>
     cc_min_bitrate_bps (ctl_congestion ctl) \<le> ctl_target ctl \<and>
     ctl_target ctl \<le> cc_max_bitrate_bps (ctl_congestion ctl)"

lemma clamp_word_bounds: "lo \<le> hi \<Longrightarrow> lo \<le> clamp_word x lo hi \<and> clamp_word x lo hi \<le> hi"
  by (auto simp: clamp_word_def)

lemma clamp_word_mono: "lo \<le> hi \<Longrightarrow> x \<le> y \<Longrightarrow> clamp_word x lo hi \<le> clamp_word y lo hi"
  by (auto simp: clamp_word_def)

lemma clamp_word_id: "lo \<le> x \<Longrightarrow> x \<le> hi \<Longrightarrow> clamp_word x lo hi = x"
  by (auto simp: clamp_word_def)

lemma normalized_ok: "policy_ok (normalized p)"
proof -
  let ?lo = "f32_max (pol_min_repair_ratio p) (Fin 0)"
  have "f32_nonneg ?lo" by (rule f32_max_zero)
  moreover from this have "?lo \<noteq> NaN" by auto
  then have "f32_le ?lo (f32_max (pol_max_repair_ratio p) ?lo)" by (rule f32_max_ge)
  ultimately show ?thesis by (simp add: policy_ok_def normalized_def Let_def f32_max_zero)
qed

lemma lit_order: "f32_le (f32_lit (1 / 10)) (f32_lit (99 / 100))"
  by (simp add: f32_lit_def f32_round_mono)

lemma congestion_normalized_ok: "congestion_ok (congestion_config_normalized c)"
  using f32_clamp_bounds [OF lit_order, of "cc_multiplicative_decrease c"]
  by (cases "cc_multiplicative_decrease c = NaN")
    (auto simp: congestion_ok_def congestion_config_normalized_def Let_def)

lemma controller_new_inv: "controller_inv (controller_new policy congestion)"
  using congestion_normalized_ok [of congestion]
    clamp_word_bounds [of "cc_min_bitrate_bps (congestion_config_normalized congestion)"
      "cc_max_bitrate_bps (congestion_config_normalized congestion)"
      "cc_initial_bitrate_bps (congestion_config_normalized congestion)"]
  by (simp add: controller_inv_def controller_new_def Let_def normalized_ok congestion_ok_def)

lemma update_frame:
  "ctl_policy (fst (update_network_metrics ctl m)) = ctl_policy ctl"
  "ctl_congestion (fst (update_network_metrics ctl m)) = ctl_congestion ctl"
  "ctl_metrics (fst (update_network_metrics ctl m)) =
     m\<lparr>nm_loss_fraction := f32_clamp (nm_loss_fraction m) (Fin 0) (Fin 1)\<rparr>"
  "cd_target_bitrate_bps (snd (update_network_metrics ctl m)) = ctl_target (fst (update_network_metrics ctl m))"
  by (simp_all add: update_network_metrics_def Let_def)

lemma update_inv: "controller_inv ctl \<Longrightarrow> controller_inv (fst (update_network_metrics ctl m))"
  using clamp_word_bounds [of "cc_min_bitrate_bps (ctl_congestion ctl)" "cc_max_bitrate_bps (ctl_congestion ctl)"]
  by (auto simp: controller_inv_def congestion_ok_def update_network_metrics_def Let_def split: option.split)

text \<open>A controller that the program can have: made by \<open>new\<close> and driven by updates.\<close>

definition run_updates :: "network_metrics list \<Rightarrow> adaptive_controller \<Rightarrow> adaptive_controller" where
  "run_updates ms ctl = fold (\<lambda>m c. fst (update_network_metrics c m)) ms ctl"

lemma run_updates_inv: "controller_inv ctl \<Longrightarrow> controller_inv (run_updates ms ctl)"
  by (induction ms arbitrary: ctl) (simp_all add: run_updates_def update_inv)

lemma run_updates_frame:
  "ctl_policy (run_updates ms ctl) = ctl_policy ctl"
  "ctl_congestion (run_updates ms ctl) = ctl_congestion ctl"
  by (induction ms arbitrary: ctl) (simp_all add: run_updates_def update_frame)

section \<open>Loss fraction\<close>

lemma f32_round_one [simp]: "f32_round 1 = Fin 1"
  by code_simp

lemma f32_round_top: "f32_round (2 ^ 64) = Fin (2 ^ 64)"
  by code_simp

lemma f32_of_nat_range:
  assumes "1 \<le> n" "n \<le> 2 ^ 64"
  shows "\<exists>r. f32_of_nat n = Fin r \<and> 1 \<le> r \<and> r \<le> 2 ^ 64"
proof -
  have n: "(1 :: rat) \<le> of_nat n" "(of_nat n :: rat) \<le> of_nat (2 ^ 64)"
    using assms by (simp, simp only: of_nat_le_iff)
  have "f32_le (f32_round 1) (f32_of_nat n)"
    unfolding f32_of_nat_def using n(1) by (rule f32_round_mono)
  moreover have "f32_le (f32_of_nat n) (f32_round (2 ^ 64))"
    unfolding f32_of_nat_def using n(2) by (intro f32_round_mono) simp
  ultimately show ?thesis unfolding f32_round_top f32_round_one by (cases "f32_of_nat n") auto
qed

lemma f32_of_nat_nonneg: "f32_nonneg (f32_of_nat n)"
  by (simp add: f32_of_nat_def f32_round_nonneg)

lemma f32_of_nat_mono: "m \<le> n \<Longrightarrow> f32_le (f32_of_nat m) (f32_of_nat n)"
  by (simp add: f32_of_nat_def f32_round_mono)

lemma loss_fraction_range: "f32_le (Fin 0) (loss_fraction st) \<and> f32_le (loss_fraction st) (Fin 1)"
proof (cases "sat_add (received st) (missing_count st) = 0")
  case False
  let ?t = "unat (sat_add (received st) (missing_count st))" and ?m = "unat (missing_count st)"
  have t: "1 \<le> ?t" using False by (simp add: Suc_le_eq unat_gt_0)
  have t64: "?t < 2 ^ LENGTH(64)" and m64: "?m < 2 ^ LENGTH(64)" by (rule unsigned_less)+
  have le: "?m \<le> ?t" using m64 by (simp add: unat_sat_add)
  obtain r where r: "f32_of_nat ?t = Fin r" "1 \<le> r"
    using f32_of_nat_range [OF t] t64 by auto
  obtain q where q: "f32_of_nat ?m = Fin q" "0 \<le> q" "q \<le> r"
    using f32_of_nat_mono [OF le] f32_of_nat_nonneg [of ?m] r by (cases "f32_of_nat ?m") auto
  have "0 \<le> q / r" "q / r \<le> 1" using q r by simp_all
  then have "f32_le (f32_round 0) (f32_round (q / r))" by (intro f32_round_mono)
  moreover have "f32_le (f32_round (q / r)) (f32_round 1)"
    using \<open>q / r \<le> 1\<close> by (rule f32_round_mono)
  ultimately show ?thesis using False r q by (simp add: loss_fraction_def)
qed (simp add: loss_fraction_def)

section \<open>Congested updates\<close>

lemma decrease_lt:
  assumes "t < 2 ^ 64" "1 \<le> t"
    and d: "d = NaN \<or> (f32_le (f32_lit (1 / 10)) d \<and> f32_le d (f32_lit (99 / 100)))"
  shows "unat (f32_to_word (f32_mul (f32_of_nat t) d) :: u64) \<le> t"
proof (cases "d = NaN")
  case True
  obtain r where "f32_of_nat t = Fin r" using f32_of_nat_range [of t] assms by auto
  then show ?thesis using True by simp
next
  case False
  have lits: "f32_lit (1 / 10) = Fin (13421773 / 134217728)" "f32_lit (99 / 100) = Fin (8304722 / 8388608)"
    by code_simp+
  obtain q where q: "d = Fin q" "13421773 / 134217728 \<le> q" "q \<le> 8304722 / 8388608"
    using d False unfolding lits by (cases d) auto
  obtain r where r: "f32_of_nat t = Fin r" "1 \<le> r" "r \<le> 2 ^ 64"
    using f32_of_nat_range [of t] assms by auto
  let ?u = "1 + 1 / 2 ^ 23 :: rat"
  have small: "pow2 (-126) \<le> 1 / 2 ^ 23" by (simp add: pow2_def)
  have "round_pos (of_nat t) = r"
    using r assms(2) by (auto simp: f32_of_nat_def f32_round_def split: if_splits)
  moreover have "round_pos (of_nat t) \<le> of_nat t * ?u"
    using assms(2) small by (intro round_pos_upper) (simp add: order_trans [OF small])
  ultimately have rt: "r \<le> of_nat t * ?u" by simp
  have rq: "0 < r * q" "pow2 (-126) \<le> r * q"
  proof -
    have "1 * (13421773 / 134217728) \<le> r * q" using r q by (intro mult_mono) auto
    then show "0 < r * q" "pow2 (-126) \<le> r * q" using small by simp_all
  qed
  have "round_pos (r * q) \<le> r * q * ?u" by (rule round_pos_upper) (rule rq)
  also have "\<dots> \<le> (of_nat t * ?u) * (8304722 / 8388608) * ?u"
    using rt q r by (intro mult_right_mono mult_mono) auto
  also have "\<dots> = of_nat t * (?u * (8304722 / 8388608) * ?u)" by simp
  also have "\<dots> \<le> of_nat t * 1" by (intro mult_left_mono) simp_all
  finally have le: "round_pos (r * q) \<le> of_nat t" by simp
  also have "\<dots> < pow2 128"
  proof -
    have "(of_nat t :: rat) < of_nat (2 ^ 64)" using assms(1) by (simp only: of_nat_less_iff)
    then show ?thesis by (simp add: pow2_def)
  qed
  finally have "f32_mul (f32_of_nat t) d = Fin (round_pos (r * q))"
    using r q rq by (simp add: f32_round_def)
  then show ?thesis
    using le assms(1) by (intro f32_to_word_nat_le) simp_all
qed

lemma congested_target:
  assumes inv: "controller_inv ctl" and c: "cd_congestion_limited (snd (update_network_metrics ctl m))"
  shows "ctl_target (fst (update_network_metrics ctl m)) \<le> ctl_target ctl"
proof -
  let ?c = "ctl_congestion ctl" and ?t = "ctl_target ctl"
  let ?d = "f32_to_word (f32_mul (f32_of_nat (unat ?t)) (cc_multiplicative_decrease ?c)) :: u64"
  have b: "cc_min_bitrate_bps ?c \<le> ?t" "?t \<le> cc_max_bitrate_bps ?c" "1 \<le> ?t"
    using inv by (auto simp: controller_inv_def congestion_ok_def)
  have t: "unat ?t < 2 ^ 64" using unsigned_less [of ?t] by simp
  have "unat ?d \<le> unat ?t"
    using inv b(3) by (intro decrease_lt [OF t]) (auto simp: controller_inv_def congestion_ok_def word_le_nat_alt)
  then have d: "?d \<le> ?t" by (simp add: word_le_nat_alt)
  then have "clamp_word ?d (cc_min_bitrate_bps ?c) (cc_max_bitrate_bps ?c) \<le> ?t"
    using b(1,2) by (auto simp: clamp_word_def)
  moreover have "clamp_word (min x a) (cc_min_bitrate_bps ?c) (cc_max_bitrate_bps ?c) \<le> ?t"
    if "x \<le> ?t" for x a
    using that b(1,2) by (auto simp: clamp_word_def min_def)
  ultimately show ?thesis
    using c by (auto simp: update_network_metrics_def Let_def split: option.split)
qed

section \<open>Monotonicity in the loss\<close>

lemma f32_mul_comm: "f32_mul x y = f32_mul y x"
  by (cases x; cases y) (simp_all add: mult.commute)

lemma pressure_nonneg:
  assumes "value \<noteq> NaN" "0 < scale"
  shows "f32_nonneg (pressure value scale)"
proof (cases "f32_le value (Fin 0)")
  case False
  have lit: "f32_lit (4 / 100) = Fin (5368709 / 134217728)" by code_simp
  have "f32_div value (Fin scale) \<noteq> NaN" using assms by (cases "value") auto
  then have "f32_nonneg (f32_clamp (f32_div value (Fin scale)) (Fin 0) (Fin 1))"
    using f32_clamp_bounds [of "Fin 0" "Fin 1"] by (simp add: f32_nonneg_def)
  then show ?thesis
    using False lit by (simp add: pressure_def f32_mul_comm [of _ "Fin (5368709 / 134217728)"] f32_mul_nonneg)
qed (simp add: pressure_def)

definition with_loss :: "f32 \<Rightarrow> adaptive_controller \<Rightarrow> adaptive_controller" where
  "with_loss l ctl = ctl\<lparr>ctl_metrics := (ctl_metrics ctl)\<lparr>nm_loss_fraction := l\<rparr>\<rparr>"

lemma repair_ratio_mono:
  assumes ok: "policy_ok (ctl_policy ctl)" and l: "f32_le l l'"
    and m: "nm_jitter_ms (ctl_metrics ctl) \<noteq> NaN" "nm_queue_delay_ms (ctl_metrics ctl) \<noteq> NaN"
  shows "f32_le (repair_ratio (with_loss l ctl) priority) (repair_ratio (with_loss l' ctl) priority)"
    "f32_nonneg (repair_ratio (with_loss l ctl) priority)"
proof -
  let ?p = "ctl_policy ctl"
  let ?j = "pressure (nm_jitter_ms (ctl_metrics ctl)) 80"
  let ?q = "pressure (nm_queue_delay_ms (ctl_metrics ctl)) 200"
  let ?b = "priority_boost ?p priority"
  let ?base = "\<lambda>x. f32_add (pol_min_repair_ratio ?p) (f32_mul (f32_clamp x (Fin 0) (Fin 1)) (Fin (3 / 2)))"
  have nn: "f32_nonneg ?j" "f32_nonneg ?q" "f32_nonneg ?b" "f32_nonneg (pol_min_repair_ratio ?p)"
    using ok m by (auto simp: policy_ok_def priority_boost_def pressure_nonneg split: media_priority.split)
  have bounds: "f32_le (pol_min_repair_ratio ?p) (pol_max_repair_ratio ?p)" using ok by (simp add: policy_ok_def)
  have lnn: "l \<noteq> NaN" "l' \<noteq> NaN" using f32_le_not_nan [OF l] by simp_all
  have cl: "f32_nonneg (f32_clamp x (Fin 0) (Fin 1))" if "x \<noteq> NaN" for x
    using f32_clamp_bounds [of "Fin 0" "Fin 1" x] that by (simp add: f32_nonneg_def)
  have refl: "f32_le x x" if "f32_nonneg x" for x using that by (cases x) simp_all
  have mul: "f32_le (f32_mul (f32_clamp l (Fin 0) (Fin 1)) (Fin (3 / 2)))
      (f32_mul (f32_clamp l' (Fin 0) (Fin 1)) (Fin (3 / 2)))"
    using f32_clamp_mono [OF _ l, of "Fin 0" "Fin 1"] cl [OF lnn(1)]
    by (simp add: f32_mul_comm [of _ "Fin (3 / 2)"] f32_mul_mono)
  have mnn: "f32_nonneg (f32_mul (f32_clamp x (Fin 0) (Fin 1)) (Fin (3 / 2)))" if "x \<noteq> NaN" for x
    using cl [OF that] by (simp add: f32_mul_comm [of _ "Fin (3 / 2)"] f32_mul_nonneg)
  have sum: "f32_le (f32_add (f32_add (f32_add (?base l) ?j) ?q) ?b)
      (f32_add (f32_add (f32_add (?base l') ?j) ?q) ?b)"
    using nn mnn [OF lnn(1)] mul by (intro f32_add_mono refl f32_add_nonneg) auto
  then show "f32_le (repair_ratio (with_loss l ctl) priority) (repair_ratio (with_loss l' ctl) priority)"
    using bounds by (simp add: repair_ratio_def with_loss_def Let_def f32_clamp_mono)
  have "f32_add (f32_add (f32_add (?base l) ?j) ?q) ?b \<noteq> NaN" using f32_le_not_nan [OF sum] by simp
  then have "f32_le (pol_min_repair_ratio ?p) (repair_ratio (with_loss l ctl) priority)"
    using f32_clamp_bounds [OF bounds] by (simp add: repair_ratio_def with_loss_def Let_def)
  then show "f32_nonneg (repair_ratio (with_loss l ctl) priority)"
    using nn(4) f32_le_trans unfolding f32_nonneg_def by blast
qed

lemma one_le_ceil:
  assumes "f32_le (Fin 1) x"
  shows "(1 :: u32) \<le> f32_to_word (f32_ceil x)"
proof -
  have "f32_le (f32_ceil (Fin 1)) (f32_ceil x)" using assms by (rule f32_ceil_mono)
  then have "(f32_to_word (Fin 1) :: u32) \<le> f32_to_word (f32_ceil x)"
    by (intro f32_to_word_mono) simp
  then show ?thesis by simp
qed

lemma base_repair_mono:
  assumes ok: "policy_ok (ctl_policy ctl)" and l: "f32_le l l'" and k: "1 \<le> k"
    and m: "nm_jitter_ms (ctl_metrics ctl) \<noteq> NaN" "nm_queue_delay_ms (ctl_metrics ctl) \<noteq> NaN"
  shows "base_repair (with_loss l ctl) k priority \<le> base_repair (with_loss l' ctl) k priority"
proof -
  let ?r = "repair_ratio (with_loss l ctl) priority" and ?r' = "repair_ratio (with_loss l' ctl) priority"
  let ?raw = "f32_mul (f32_of_nat (unat k)) ?r" and ?raw' = "f32_mul (f32_of_nat (unat k)) ?r'"
  have kb: "1 \<le> unat k" "unat k \<le> 2 ^ 64"
    using k unsigned_less [of k, where ?'a = nat] by (simp_all add: word_le_nat_alt)
  obtain c where c: "f32_of_nat (unat k) = Fin c" "1 \<le> c" using f32_of_nat_range [OF kb] by auto
  have rr: "f32_le ?r ?r'" and nn: "f32_nonneg ?r" using repair_ratio_mono [OF ok l m] by blast+
  have raw: "f32_le ?raw ?raw'" unfolding c(1) using rr nn c(2) by (intro f32_mul_mono) auto
  have raw_nan: "?raw \<noteq> NaN" "?raw' \<noteq> NaN" using f32_le_not_nan [OF raw] by simp_all
  have loss: "f32_lt (Fin 0) l \<Longrightarrow> f32_lt (Fin 0) l'" using l f32_lt_le_trans by blast
  have ratio: "f32_lt (pol_min_repair_ratio (ctl_policy ctl)) ?r \<Longrightarrow> f32_lt (pol_min_repair_ratio (ctl_policy ctl)) ?r'"
    using rr f32_lt_le_trans by blast
  have sel: "nm_loss_fraction (ctl_metrics (with_loss x ctl)) = x" "ctl_policy (with_loss x ctl) = ctl_policy ctl" for x
    by (simp_all add: with_loss_def)
  show ?thesis
  proof (cases "f32_lt ?raw' (Fin 1)")
    case True
    then have "f32_lt ?raw (Fin 1)"
      using raw raw_nan by (auto simp: f32_not_le dest: f32_le_trans)
    then show ?thesis using True loss ratio by (auto simp: base_repair_def Let_def sel)
  next
    case False
    then have one: "(1 :: u32) \<le> f32_to_word (f32_ceil ?raw')"
      using raw_nan by (intro one_le_ceil) (simp add: f32_not_le)
    show ?thesis
    proof (cases "f32_lt ?raw (Fin 1)")
      case True
      then show ?thesis using False one by (auto simp: base_repair_def Let_def sel intro: order_trans)
    next
      case raw1: False
      have "(f32_to_word (f32_ceil ?raw) :: u32) \<le> f32_to_word (f32_ceil ?raw')"
        using raw by (intro f32_to_word_mono f32_ceil_mono)
      then show ?thesis using False raw1 by (simp add: base_repair_def Let_def)
    qed
  qed
qed

lemma sat_add_mono: "a \<le> a' \<Longrightarrow> b \<le> b' \<Longrightarrow> sat_add a b \<le> sat_add a' b'"
  by (simp add: word_le_nat_alt unat_sat_add)

lemma repair_symbols_for_mono:
  assumes ok: "policy_ok (ctl_policy ctl)" and l: "f32_le l l'"
    and m: "nm_jitter_ms (ctl_metrics ctl) \<noteq> NaN" "nm_queue_delay_ms (ctl_metrics ctl) \<noteq> NaN"
  shows "repair_symbols_for (with_loss l ctl) k priority \<le> repair_symbols_for (with_loss l' ctl) k priority"
proof -
  let ?k = "max k 1"
  have base: "base_repair (with_loss l ctl) ?k priority \<le> base_repair (with_loss l' ctl) ?k priority"
    by (rule base_repair_mono [OF ok l _ m]) simp
  have loss: "f32_lt (Fin 0) l \<Longrightarrow> f32_lt (Fin 0) l'" using l f32_lt_le_trans by blast
  have sel: "nm_loss_fraction (ctl_metrics (with_loss x ctl)) = x" "ctl_policy (with_loss x ctl) = ctl_policy ctl" for x
    by (simp_all add: with_loss_def)
  show ?thesis
    unfolding repair_symbols_for_def Let_def sel
    using loss by (intro min.mono sat_add_mono max.mono base order_refl) auto
qed

lemma repair_symbols_for_bounds:
  assumes "policy_ok (ctl_policy ctl)"
  shows "pol_min_repair_symbols (ctl_policy ctl) \<le> repair_symbols_for ctl k priority"
    "repair_symbols_for ctl k priority \<le> pol_max_repair_symbols (ctl_policy ctl)"
proof -
  have "pol_min_repair_symbols (ctl_policy ctl) \<le> sat_add (max (max b (pol_min_repair_symbols (ctl_policy ctl))) f) s"
    for b f s by (rule order_trans [OF _ sat_add_mono1]) (simp add: le_max_iff_disj)
  then show "pol_min_repair_symbols (ctl_policy ctl) \<le> repair_symbols_for ctl k priority"
    using assms by (simp add: repair_symbols_for_def Let_def policy_ok_def)
  show "repair_symbols_for ctl k priority \<le> pol_max_repair_symbols (ctl_policy ctl)"
    by (simp add: repair_symbols_for_def Let_def)
qed

section \<open>Properties of the controller\<close>

text \<open>
  C20. The controller stays in range. Whatever policy, congestion configuration and metrics (NaN and
  infinite ones included) a controller is built from and driven with, its target bitrate stays
  between the normalised bounds, which are ordered and positive, and the bounds of every clamp it
  makes are ordered, so no clamp panics.
\<close>
theorem controller_stays_in_range:
  "let ctl = run_updates ms (controller_new policy congestion); c = ctl_congestion ctl; p = ctl_policy ctl
   in 1 \<le> cc_min_bitrate_bps c \<and> cc_min_bitrate_bps c \<le> ctl_target ctl \<and>
      ctl_target ctl \<le> cc_max_bitrate_bps c \<and>
      f32_le (pol_min_repair_ratio p) (pol_max_repair_ratio p) \<and> f32_nonneg (pol_min_repair_ratio p) \<and>
      1 \<le> pol_min_source_symbols p \<and> pol_min_source_symbols p \<le> pol_max_source_symbols p \<and>
      f32_le (f32_lit (1 / 10)) (f32_lit (99 / 100))"
  using run_updates_inv [OF controller_new_inv, of ms policy congestion] lit_order
  by (simp add: Let_def controller_inv_def congestion_ok_def policy_ok_def)

text \<open>
  The controller backs off. When an update finds the network congested, the target bitrate does
  not grow, although the decrease is computed in single precision; when it does not and no available
  bitrate is reported, the target does not shrink; and a reported available bitrate caps the target,
  down to the configured minimum.
\<close>
lemma congestion_response:
  assumes "ctl = run_updates ms (controller_new policy congestion)"
    and "update_network_metrics ctl m = (ctl', decision)"
  shows "(cd_congestion_limited decision \<longrightarrow> ctl_target ctl' \<le> ctl_target ctl) \<and>
    (\<not> cd_congestion_limited decision \<and> nm_available_bitrate_bps m = None \<longrightarrow>
       ctl_target ctl \<le> ctl_target ctl') \<and>
    (\<forall>a. nm_available_bitrate_bps m = Some a \<longrightarrow>
       ctl_target ctl' \<le> max a (cc_min_bitrate_bps (ctl_congestion ctl)))"
proof -
  have inv: "controller_inv ctl" using assms(1) by (simp add: run_updates_inv controller_new_inv)
  have e: "ctl' = fst (update_network_metrics ctl m)" "decision = snd (update_network_metrics ctl m)"
    using assms(2) by simp_all
  let ?c = "ctl_congestion ctl"
  have b: "cc_min_bitrate_bps ?c \<le> ctl_target ctl" "ctl_target ctl \<le> cc_max_bitrate_bps ?c"
    using inv by (simp_all add: controller_inv_def)
  have "ctl_target ctl \<le> clamp_word (sat_add (ctl_target ctl) x) (cc_min_bitrate_bps ?c) (cc_max_bitrate_bps ?c)"
    for x using b sat_add_mono1 [of "ctl_target ctl" x] by (auto simp: clamp_word_def)
  moreover have "clamp_word (min x a) (cc_min_bitrate_bps ?c) (cc_max_bitrate_bps ?c) \<le> max a (cc_min_bitrate_bps ?c)"
    for x a using b by (auto simp: clamp_word_def min_def max_def)
  ultimately show ?thesis
    using congested_target [OF inv, of m] unfolding e
    by (auto simp: update_network_metrics_def Let_def)
qed

text \<open>
  Repair counts respect the policy. The number of repair symbols lies between the policy's
  minimum and maximum for every block size and priority, whatever the metrics.
\<close>
lemma repair_symbols_within_policy:
  "let ctl = run_updates ms (controller_new policy congestion)
   in pol_min_repair_symbols (normalized policy) \<le> repair_symbols_for ctl k priority \<and>
      repair_symbols_for ctl k priority \<le> pol_max_repair_symbols policy"
proof -
  let ?ctl = "run_updates ms (controller_new policy congestion)"
  have p: "ctl_policy ?ctl = normalized policy"
    by (simp add: run_updates_frame controller_new_def Let_def)
  have "pol_max_repair_symbols (normalized policy) = pol_max_repair_symbols policy"
    by (simp add: normalized_def Let_def)
  then show ?thesis
    using repair_symbols_for_bounds [of ?ctl k priority] by (simp add: p normalized_ok)
qed

text \<open>
  C19. More loss, more repair. With the other metrics unchanged and not NaN, a larger loss fraction
  never yields fewer repair symbols, through the rounding of every single-precision step and the
  ceiling, for every block size and priority.
\<close>
theorem repair_monotone_in_loss:
  assumes "f32_le l l'" "nm_jitter_ms m \<noteq> NaN" "nm_queue_delay_ms m \<noteq> NaN"
  shows "repair_symbols_for (fst (update_network_metrics (controller_new policy congestion)
           (m\<lparr>nm_loss_fraction := l\<rparr>))) k priority
    \<le> repair_symbols_for (fst (update_network_metrics (controller_new policy congestion)
           (m\<lparr>nm_loss_fraction := l'\<rparr>))) k priority"
proof -
  let ?ctl = "\<lambda>x. fst (update_network_metrics (controller_new policy congestion) (m\<lparr>nm_loss_fraction := x\<rparr>))"
  have same: "repair_symbols_for (?ctl x) k priority =
      repair_symbols_for (with_loss (f32_clamp x (Fin 0) (Fin 1)) (?ctl l)) k priority" for x
  proof -
    have eq: "ctl_metrics (?ctl x) = ctl_metrics (with_loss (f32_clamp x (Fin 0) (Fin 1)) (?ctl l))"
      "ctl_policy (?ctl x) = ctl_policy (with_loss (f32_clamp x (Fin 0) (Fin 1)) (?ctl l))"
      by (simp_all add: with_loss_def update_frame)
    show ?thesis
      unfolding repair_symbols_for_def base_repair_def repair_ratio_def Let_def eq ..
  qed
  have "f32_le (f32_clamp l (Fin 0) (Fin 1)) (f32_clamp l' (Fin 0) (Fin 1))"
    using assms(1) by (intro f32_clamp_mono) simp_all
  moreover have "policy_ok (ctl_policy (?ctl l))"
    using update_inv [OF controller_new_inv] by (simp add: controller_inv_def)
  ultimately show ?thesis
    unfolding same [of l] same [of l'] using assms(2,3)
    by (intro repair_symbols_for_mono) (simp_all add: update_frame)
qed

theorem repair_monotone_in_loss_witness:
  "repair_symbols_for (fst (update_network_metrics controller_default network_metrics_default)) 20 VideoDelta
   \<le> repair_symbols_for (fst (update_network_metrics controller_default
        (network_metrics_default\<lparr>nm_loss_fraction := f32_lit (1 / 10)\<rparr>))) 20 VideoDelta"
proof -
  have "f32_le (Fin 0) (f32_lit (1 / 10))" by code_simp
  from repair_monotone_in_loss [OF this, of network_metrics_default fec_policy_default
      congestion_config_default 20 VideoDelta]
  show ?thesis by (simp add: network_metrics_default_def controller_default_def)
qed

text \<open>
  The decided block holds the payload. For a controller made by \<open>new\<close>, the decision's symbol size
  is positive, its block size is within the policy, and the source symbols for the payload, unless
  capped at 65535, hold it; an audio payload no longer than the policy's symbol gets one symbol of
  exactly its own length.
\<close>
lemma decision_geometry:
  assumes "0 < len" "dcn = decide (run_updates ms (controller_new policy congestion)) len priority"
  shows "1 \<le> cfg_symbol_size (dcn_config dcn) \<and>
    pol_min_source_symbols (normalized policy) \<le> cfg_source_symbols (dcn_config dcn) \<and>
    cfg_source_symbols (dcn_config dcn) \<le> pol_max_source_symbols (normalized policy) \<and>
    (len \<le> unat (dcn_source_symbols_for_payload dcn) * unat (cfg_symbol_size (dcn_config dcn)) \<or>
     unat (dcn_source_symbols_for_payload dcn) = 65535) \<and>
    (priority = Audio \<and> len \<le> unat (pol_symbol_size (normalized policy)) \<longrightarrow>
     unat (cfg_symbol_size (dcn_config dcn)) = len \<and> dcn_source_symbols_for_payload dcn = 1)"
proof -
  let ?ctl = "run_updates ms (controller_new policy congestion)"
  have p: "ctl_policy ?ctl = normalized policy"
    by (simp add: run_updates_frame controller_new_def Let_def)
  have ok: "policy_ok (normalized policy)" by (rule normalized_ok)
  let ?s = "symbol_size_for_payload ?ctl len priority"
  let ?k = "source_symbol_count len ?s"
  have size: "1 \<le> pol_symbol_size (normalized policy)" using ok by (simp add: policy_ok_def)
  have lim: "unat (pol_symbol_size (normalized policy)) < 2 ^ LENGTH(16)" by (rule unsigned_less)
  have cl: "unat (of_nat (clamp_word len 1 65535) :: u16) = clamp_word len 1 65535"
    by (simp add: clamp_word_def unat_of_nat take_bit_nat_eq_self)
  have s: "unat ?s = (if priority = Audio then min (unat (pol_symbol_size (normalized policy))) (clamp_word len 1 65535)
      else unat (pol_symbol_size (normalized policy)))"
    using size cl by (simp add: symbol_size_for_payload_def p max_absorb1 min_def word_le_nat_alt Let_def)
  have spos: "1 \<le> unat ?s"
    using s size by (auto simp: word_le_nat_alt clamp_word_def)
  then have smax: "max ?s 1 = ?s" by (simp add: max_absorb1 word_le_nat_alt)
  have k: "unat ?k = min (div_ceil len (unat ?s)) 65535"
    using assms(1) by (simp add: source_symbol_count_def smax unat_of_nat take_bit_nat_eq_self)
  have hold: "len \<le> unat ?k * unat ?s \<or> unat ?k = 65535"
    using div_ceil_upper [of "unat ?s" len] spos by (auto simp: k min_def)
  have exact: "unat ?s = len \<and> ?k = 1" if "priority = Audio" "len \<le> unat (pol_symbol_size (normalized policy))"
  proof -
    have "unat ?s = len" using s that assms(1) lim by (simp add: clamp_word_def)
    moreover from this have "unat ?k = unat (1 :: u16)"
      using k div_ceil_mult [of len 1] assms(1) by simp
    ultimately show ?thesis by (simp only: word_unat_eq_iff)
  qed
  have src: "pol_min_source_symbols (normalized policy) \<le>
      min (max ?k (pol_min_source_symbols (normalized policy))) (pol_max_source_symbols (normalized policy))"
    using ok by (simp add: policy_ok_def)
  have sw: "1 \<le> ?s" using spos by (simp add: word_le_nat_alt)
  have d: "cfg_symbol_size (dcn_config dcn) = ?s" "dcn_source_symbols_for_payload dcn = ?k"
    "cfg_source_symbols (dcn_config dcn) =
      min (max ?k (pol_min_source_symbols (normalized policy))) (pol_max_source_symbols (normalized policy))"
    by (simp_all add: assms(2) decide_def Let_def p)
  show ?thesis
    unfolding d using sw hold exact src by (intro conjI impI min.cobounded2) blast+
qed

theorem decision_geometry_witness:
  "cfg_symbol_size (dcn_config (decide controller_default 100 Audio)) = 100"
proof -
  let ?d = "decide controller_default 100 Audio"
  have "?d = decide (run_updates [] (controller_new fec_policy_default congestion_config_default)) 100 Audio"
    by (simp add: run_updates_def controller_default_def)
  moreover have "unat (pol_symbol_size (normalized fec_policy_default)) = 1316"
    by (simp add: normalized_def fec_policy_default_def DEFAULT_SYMBOL_SIZE_def Let_def max_def
        word_le_nat_alt)
  ultimately have "unat (cfg_symbol_size (dcn_config ?d)) = 100"
    using decision_geometry [of 100 ?d "[]" fec_policy_default congestion_config_default Audio] by simp
  then show ?thesis by (simp add: word_unat_eq_iff)
qed

text \<open>
  A loss fraction is a fraction. The loss computed from sequence counters, with saturating
  addition and single-precision division, lies between 0 and 1 and is never NaN.
\<close>
lemma loss_fraction_in_unit_interval:
  "f32_le (Fin 0) (loss_fraction st) \<and> f32_le (loss_fraction st) (Fin 1)"
  by (rule loss_fraction_range)

text \<open>
  A NaN jitter disables ratio-based repair. \<open>update_network_metrics\<close> stores the jitter it is given;
  when that is NaN, the repair ratio is NaN and the ratio contributes no repair symbols, however
  large the reported loss.
\<close>
lemma nan_jitter_disables_ratio:
  assumes "nm_jitter_ms m = NaN"
  shows "let ctl = fst (update_network_metrics (controller_new policy congestion) m)
    in repair_ratio ctl priority = NaN \<and> base_repair ctl k priority = 0"
proof -
  let ?ctl = "fst (update_network_metrics (controller_new policy congestion) m)"
  have "f32_add (f32_add (f32_add x NaN) y) z = NaN" for x y z
    by (cases x; cases y; cases z) simp_all
  moreover have "pressure NaN 80 = NaN" by (simp add: pressure_def)
  ultimately have ratio: "repair_ratio ?ctl priority = NaN"
    using assms by (simp add: repair_ratio_def Let_def update_frame)
  have "f32_mul x NaN = NaN" for x by (cases x) simp_all
  then have "base_repair ?ctl k priority = 0"
    by (simp add: base_repair_def Let_def ratio)
  with ratio show ?thesis by (simp add: Let_def)
qed

theorem nan_jitter_disables_ratio_witness:
  "base_repair (fst (update_network_metrics controller_default
     (network_metrics_default\<lparr>nm_loss_fraction := Fin 1, nm_jitter_ms := NaN\<rparr>))) 40 VideoKey = 0"
  using nan_jitter_disables_ratio [of "network_metrics_default\<lparr>nm_loss_fraction := Fin 1, nm_jitter_ms := NaN\<rparr>"
      fec_policy_default congestion_config_default VideoKey 40]
  by (simp add: controller_default_def Let_def)

lemma congestion_response_witness:
  "ctl_target (fst (update_network_metrics controller_default
     (network_metrics_default\<lparr>nm_available_bitrate_bps := Some 300000\<rparr>))) \<le> 300000"
proof -
  let ?m = "network_metrics_default\<lparr>nm_available_bitrate_bps := Some 300000\<rparr>"
  obtain ctl' d where u: "update_network_metrics controller_default ?m = (ctl', d)" by fastforce
  have "controller_default = run_updates [] (controller_new fec_policy_default congestion_config_default)"
    by (simp add: run_updates_def controller_default_def)
  from congestion_response [OF this u]
  have "ctl_target ctl' \<le> max 300000 (cc_min_bitrate_bps (ctl_congestion controller_default))" by simp
  moreover have "cc_min_bitrate_bps (ctl_congestion controller_default) = 256000"
    by (simp add: controller_default_def controller_new_def congestion_config_normalized_def
        congestion_config_default_def Let_def max_def word_le_nat_alt)
  ultimately show ?thesis using u by (simp add: max_def word_le_nat_alt)
qed

end
