(* ===== verification/Media_Wire.thy ===== *)
theory Media_Wire
  imports Adaptive
begin

text \<open>
  \<^verbatim>\<open>media.rs\<close>, lines 1 to 274: media metadata, the 44-byte fragment header that precedes each fragment
  of an access unit, and the unfragmented serialized form. A signed 16-bit delta between decode and
  presentation time is a \<open>u16\<close> read with \<open>sint\<close>.
\<close>

section \<open>Metadata and errors\<close>

definition MEDIA_FRAME_HEADER_LEN :: nat where "MEDIA_FRAME_HEADER_LEN = 44"
definition NO_DTS_DELTA_MS :: u16 where "NO_DTS_DELTA_MS = 0x8000"

datatype media_codec = Codec_Unknown | Codec_H264 | Codec_Opus | Codec_Aac | Codec_Data

definition codec_to_u8 :: "media_codec \<Rightarrow> u8" where
  "codec_to_u8 c =
     (case c of Codec_Unknown \<Rightarrow> 0 | Codec_H264 \<Rightarrow> 1 | Codec_Opus \<Rightarrow> 2 | Codec_Aac \<Rightarrow> 3 | Codec_Data \<Rightarrow> 255)"

definition codec_from_u8 :: "u8 \<Rightarrow> media_codec" where
  "codec_from_u8 v =
     (if v = 1 then Codec_H264 else if v = 2 then Codec_Opus else if v = 3 then Codec_Aac
      else if v = 255 then Codec_Data else Codec_Unknown)"

definition FLAG_KEYFRAME :: u16 where "FLAG_KEYFRAME = 1"
definition FLAG_CODEC_CONFIG :: u16 where "FLAG_CODEC_CONFIG = 2"
definition FLAG_DISCONTINUITY :: u16 where "FLAG_DISCONTINUITY = 4"
definition FLAG_END_OF_STREAM :: u16 where "FLAG_END_OF_STREAM = 8"
definition FLAG_INITIALIZATION :: u16 where "FLAG_INITIALIZATION = 16"

definition flags_contain :: "u16 \<Rightarrow> u16 \<Rightarrow> bool" where
  "flags_contain flags b = (and flags b \<noteq> 0)"

definition flags_with :: "u16 \<Rightarrow> u16 \<Rightarrow> u16" where
  "flags_with flags b = or flags b"

definition is_keyframe :: "u16 \<Rightarrow> bool" where
  "is_keyframe flags = (and flags FLAG_KEYFRAME \<noteq> 0)"

definition codec_priority :: "media_codec \<Rightarrow> u16 \<Rightarrow> media_priority" where
  "codec_priority c flags =
     (case c of
        Codec_Opus \<Rightarrow> Audio
      | Codec_Aac \<Rightarrow> Audio
      | Codec_H264 \<Rightarrow> (if is_keyframe flags then VideoKey else VideoDelta)
      | Codec_Unknown \<Rightarrow> Data
      | Codec_Data \<Rightarrow> Data)"

record media_metadata =
  md_stream_id :: u64
  md_sequence :: u64
  md_pts_ms :: u64
  md_dts_ms :: "u64 option"
  md_duration_ms :: u32
  md_codec :: media_codec
  md_flags :: u16

definition metadata_new :: "u64 \<Rightarrow> u64 \<Rightarrow> u64 \<Rightarrow> media_codec \<Rightarrow> media_metadata" where
  "metadata_new stream seq pts codec =
     \<lparr>md_stream_id = stream, md_sequence = seq, md_pts_ms = pts, md_dts_ms = None,
      md_duration_ms = 0, md_codec = codec, md_flags = 0\<rparr>"

definition metadata_priority :: "media_metadata \<Rightarrow> media_priority" where
  "metadata_priority m = codec_priority (md_codec m) (md_flags m)"

record fragment_header =
  fh_metadata :: media_metadata
  fh_fragment_index :: u16
  fh_fragment_count :: u16
  fh_access_unit_len :: u32
  fh_fragment_offset :: u32

datatype media_fec_error =
    MediaFec datagram_fec_error
  | MediaHeaderTooShort nat
  | FlagsTooLarge u16
  | DurationTooLarge u32
  | DtsDeltaOutOfRange u64 u64
  | InvalidDtsDelta u64 u16
  | BlockTooSmall nat nat
  | TooManyFragments nat
  | AccessUnitTooLarge nat
  | MediaInvalidFragmentIndex u16 u16
  | ConflictingMetadata
  | ConflictingAccessUnitLength
  | AccessUnitLengthMismatch nat nat
  | IncompleteFrame

section \<open>The fragment header\<close>

definition encode_dts_delta_ms :: "media_metadata \<Rightarrow> (media_fec_error, u16) result" where
  "encode_dts_delta_ms m =
     (case md_dts_ms m of
        None \<Rightarrow> Inr NO_DTS_DELTA_MS
      | Some dts \<Rightarrow>
          (let delta = uint dts - uint (md_pts_ms m)
           in if delta < -32767 \<or> delta > 32767 then Inl (DtsDeltaOutOfRange (md_pts_ms m) dts)
              else Inr (of_int delta)))"

definition decode_dts_ms :: "u64 \<Rightarrow> u16 \<Rightarrow> (media_fec_error, u64 option) result" where
  "decode_dts_ms pts delta =
     (if delta = NO_DTS_DELTA_MS then Inr None
      else if sint delta < 0 then
        (case checked_sub pts (of_int (- sint delta)) of
           Some dts \<Rightarrow> Inr (Some dts) | None \<Rightarrow> Inl (InvalidDtsDelta pts delta))
      else
        (case checked_add pts (of_int (sint delta)) of
           Some dts \<Rightarrow> Inr (Some dts) | None \<Rightarrow> Inl (InvalidDtsDelta pts delta)))"

definition fragment_fields :: "fragment_header \<Rightarrow> u16 \<Rightarrow> (nat \<times> bytes) list" where
  "fragment_fields h delta =
     [(0, [codec_to_u8 (md_codec (fh_metadata h))]), (1, [ucast (md_flags (fh_metadata h))]),
      (2, le16 (fh_fragment_index h)), (4, le16 (fh_fragment_count h)),
      (6, le16 (ucast (md_duration_ms (fh_metadata h)))), (8, le64 (md_stream_id (fh_metadata h))),
      (16, le64 (md_sequence (fh_metadata h))), (24, le64 (md_pts_ms (fh_metadata h))),
      (32, le32 (fh_access_unit_len h)), (36, le32 (fh_fragment_offset h)), (40, le16 delta),
      (42, [0, 0])]"

definition fragment_encode :: "fragment_header \<Rightarrow> bytes \<Rightarrow> (media_fec_error, bytes) result" where
  "fragment_encode h bs =
     (if length bs < MEDIA_FRAME_HEADER_LEN then Inl (MediaHeaderTooShort (length bs))
      else if md_flags (fh_metadata h) > 255 then Inl (FlagsTooLarge (md_flags (fh_metadata h)))
      else if md_duration_ms (fh_metadata h) > 65535 then
        Inl (DurationTooLarge (md_duration_ms (fh_metadata h)))
      else rbind (encode_dts_delta_ms (fh_metadata h)) (\<lambda>delta.
           Inr (put_all (fragment_fields h delta) bs)))"

definition fragment_decode :: "bytes \<Rightarrow> (media_fec_error, fragment_header) result" where
  "fragment_decode bs =
     (if length bs < MEDIA_FRAME_HEADER_LEN then Inl (MediaHeaderTooShort (length bs))
      else
        (let pts = le_join (sub_slice bs 24 32); delta = le_join (sub_slice bs 40 42)
         in rbind (decode_dts_ms pts delta) (\<lambda>dts.
            Inr \<lparr>fh_metadata =
                  \<lparr>md_stream_id = le_join (sub_slice bs 8 16), md_sequence = le_join (sub_slice bs 16 24),
                   md_pts_ms = pts, md_dts_ms = dts,
                   md_duration_ms = ucast (le_join (sub_slice bs 6 8) :: u16),
                   md_codec = codec_from_u8 (bs ! 0), md_flags = ucast (bs ! 1)\<rparr>,
                 fh_fragment_index = le_join (sub_slice bs 2 4),
                 fh_fragment_count = le_join (sub_slice bs 4 6),
                 fh_access_unit_len = le_join (sub_slice bs 32 36),
                 fh_fragment_offset = le_join (sub_slice bs 36 40)\<rparr>)))"

section \<open>Unfragmented access units\<close>

record access_unit =
  au_metadata :: media_metadata
  au_payload :: bytes

text \<open>The error is the formatted message of the source, kept as its two numbers.\<close>

definition decode_serialized_media_access_unit ::
    "bytes \<Rightarrow> (u32 \<times> nat, access_unit option) result" where
  "decode_serialized_media_access_unit bs =
     (if length bs < MEDIA_FRAME_HEADER_LEN then Inr None
      else
        (case fragment_decode (sub_slice bs 0 MEDIA_FRAME_HEADER_LEN) of
           Inl _ \<Rightarrow> Inr None
         | Inr header \<Rightarrow>
             if fh_fragment_index header \<noteq> 0 \<or> fh_fragment_count header \<noteq> 1 \<or>
                fh_fragment_offset header \<noteq> 0 then Inr None
             else
               (let payload_length = length bs - MEDIA_FRAME_HEADER_LEN
                in if unat (fh_access_unit_len header) \<noteq> payload_length then
                     Inl (fh_access_unit_len header, payload_length)
                   else Inr (Some \<lparr>au_metadata = fh_metadata header,
                                  au_payload = drop MEDIA_FRAME_HEADER_LEN bs\<rparr>))))"

section \<open>The codec laws\<close>

definition fragment_ok :: "fragment_header \<Rightarrow> nat \<Rightarrow> bool" where
  "fragment_ok h n \<longleftrightarrow>
     MEDIA_FRAME_HEADER_LEN \<le> n \<and> md_flags (fh_metadata h) \<le> 255 \<and>
     md_duration_ms (fh_metadata h) \<le> 65535 \<and>
     (\<forall>dts. md_dts_ms (fh_metadata h) = Some dts \<longrightarrow>
        \<bar>uint dts - uint (md_pts_ms (fh_metadata h))\<bar> \<le> 32767)"

definition dts_delta :: "media_metadata \<Rightarrow> u16" where
  "dts_delta m = (case md_dts_ms m of
     None \<Rightarrow> NO_DTS_DELTA_MS | Some dts \<Rightarrow> of_int (uint dts - uint (md_pts_ms m)))"

definition fragment_wire :: "fragment_header \<Rightarrow> bytes" where
  "fragment_wire h = tile_bytes (fragment_fields h (dts_delta (fh_metadata h)))"

lemma tiles_fragment: "tiles 0 (fragment_fields h delta)"
  by (simp add: fragment_fields_def layout_simps)

lemma length_fragment_wire [simp, layout_simps]: "length (fragment_wire h) = 44"
  by (simp add: fragment_wire_def fragment_fields_def layout_simps)

lemma codec_round_trip [simp]: "codec_from_u8 (codec_to_u8 c) = c"
  by (cases c) (simp_all add: codec_to_u8_def codec_from_u8_def)

lemma fragment_ok_delta:
  "fragment_ok h n \<Longrightarrow> encode_dts_delta_ms (fh_metadata h) = Inr (dts_delta (fh_metadata h))"
  by (auto simp: fragment_ok_def encode_dts_delta_ms_def dts_delta_def Let_def split: option.split)

lemma sint_small: "\<bar>d\<bar> \<le> 32767 \<Longrightarrow> sint (of_int d :: u16) = d"
  by (simp add: sint_sbintrunc' signed_take_bit_int_eq_self)

lemma decode_delta:
  assumes "fragment_ok h n"
  shows "decode_dts_ms (md_pts_ms (fh_metadata h)) (dts_delta (fh_metadata h)) = Inr (md_dts_ms (fh_metadata h))"
proof (cases "md_dts_ms (fh_metadata h)")
  case None
  then show ?thesis by (simp add: decode_dts_ms_def dts_delta_def)
next
  case (Some dts)
  let ?pts = "md_pts_ms (fh_metadata h)"
  let ?d = "uint dts - uint ?pts"
  have d: "\<bar>?d\<bar> \<le> 32767" using assms Some by (simp add: fragment_ok_def)
  have si: "sint (of_int ?d :: u16) = ?d" using d by (rule sint_small)
  have not_none: "(of_int ?d :: u16) \<noteq> NO_DTS_DELTA_MS"
  proof
    assume "(of_int ?d :: u16) = NO_DTS_DELTA_MS"
    then have "?d = sint NO_DTS_DELTA_MS" using si by simp
    also have "\<dots> = -32768" by (simp add: NO_DTS_DELTA_MS_def)
    finally show False using d by simp
  qed
  have bounds: "0 \<le> uint ?pts" "uint ?pts < 2 ^ 64" "0 \<le> uint dts" "uint dts < 2 ^ 64"
    using uint_lt2p [of ?pts] uint_lt2p [of dts] by simp_all
  show ?thesis
  proof (cases "?d < 0")
    case True
    have "uint (of_int (- ?d) :: u64) = - ?d"
      using True d by (simp only: uint_word_of_int) (simp add: mod_pos_pos_trivial)
    moreover have "?pts - of_int (- ?d) = dts" by simp
    ultimately have "checked_sub ?pts (of_int (- ?d)) = Some dts"
      using True bounds by (simp add: checked_sub_def word_le_def)
    then show ?thesis using True not_none si Some by (simp add: decode_dts_ms_def dts_delta_def)
  next
    case False
    have "uint (of_int ?d :: u64) = ?d"
      using False d by (simp only: uint_word_of_int) (simp add: mod_pos_pos_trivial)
    moreover have "?pts + of_int ?d = dts" by simp
    ultimately have "checked_add ?pts (of_int ?d) = Some dts"
      using False bounds by (simp add: checked_add_def)
    then show ?thesis using False not_none si Some by (simp add: decode_dts_ms_def dts_delta_def)
  qed
qed

lemma fragment_encode_ok:
  "fragment_ok h (length bs) \<Longrightarrow> fragment_encode h bs = Inr (fragment_wire h @ drop 44 bs)"
proof -
  assume ok: "fragment_ok h (length bs)"
  have len: "length (tile_bytes (fragment_fields h (dts_delta (fh_metadata h)))) = 44"
    using length_fragment_wire [of h] by (simp add: fragment_wire_def)
  then have "put_all (fragment_fields h (dts_delta (fh_metadata h))) bs = fragment_wire h @ drop 44 bs"
    using put_all_tiles [OF tiles_fragment, of h "dts_delta (fh_metadata h)" bs] ok
    by (simp add: fragment_wire_def fragment_ok_def MEDIA_FRAME_HEADER_LEN_def)
  then show ?thesis
    using ok fragment_ok_delta [OF ok]
    by (auto simp: fragment_encode_def fragment_ok_def not_less not_le)
qed

lemma fragment_encode_only_ok: "fragment_encode h bs = Inr bs' \<Longrightarrow> fragment_ok h (length bs)"
  by (auto simp: fragment_encode_def fragment_ok_def encode_dts_delta_ms_def rbind_eq_Inr Let_def not_less
      abs_le_iff split: if_splits option.splits)

lemma fragment_field_reads:
  "(fragment_wire h @ rest) ! 0 = codec_to_u8 (md_codec (fh_metadata h))"
  "(fragment_wire h @ rest) ! 1 = ucast (md_flags (fh_metadata h))"
  "sub_slice (fragment_wire h @ rest) 2 4 = le16 (fh_fragment_index h)"
  "sub_slice (fragment_wire h @ rest) 4 6 = le16 (fh_fragment_count h)"
  "sub_slice (fragment_wire h @ rest) 6 8 = le16 (ucast (md_duration_ms (fh_metadata h)))"
  "sub_slice (fragment_wire h @ rest) 8 16 = le64 (md_stream_id (fh_metadata h))"
  "sub_slice (fragment_wire h @ rest) 16 24 = le64 (md_sequence (fh_metadata h))"
  "sub_slice (fragment_wire h @ rest) 24 32 = le64 (md_pts_ms (fh_metadata h))"
  "sub_slice (fragment_wire h @ rest) 32 36 = le32 (fh_access_unit_len h)"
  "sub_slice (fragment_wire h @ rest) 36 40 = le32 (fh_fragment_offset h)"
  "sub_slice (fragment_wire h @ rest) 40 42 = le16 (dts_delta (fh_metadata h))"
  unfolding fragment_wire_def
  by (rule sub_slice_tile [OF tiles_fragment] nth_tile [OF tiles_fragment]; simp add: fragment_fields_def)+

lemma ucast_down_up:
  "w \<le> 255 \<Longrightarrow> (ucast (ucast (w :: u16) :: u8) :: u16) = w"
  "v \<le> 65535 \<Longrightarrow> (ucast (ucast (v :: u32) :: u16) :: u32) = v"
  by (simp_all add: word_unat_eq_iff unsigned_ucast_eq unsigned_take_bit_eq take_bit_nat_eq_self word_le_nat_alt)

lemma fragment_decode_wire:
  assumes ok: "fragment_ok h n"
  shows "fragment_decode (fragment_wire h @ rest) = Inr h"
proof -
  have small: "md_flags (fh_metadata h) \<le> 255" "md_duration_ms (fh_metadata h) \<le> 65535"
    using ok by (simp_all add: fragment_ok_def)
  have len: "\<not> length (fragment_wire h @ rest) < MEDIA_FRAME_HEADER_LEN"
    by (simp add: MEDIA_FRAME_HEADER_LEN_def)
  show ?thesis
    unfolding fragment_decode_def if_not_P [OF len] fragment_field_reads Let_def
    using decode_delta [OF ok] small
    by (cases h; cases "fh_metadata h") (simp add: le_join_split ucast_down_up)
qed

interpretation media_header: header_codec MEDIA_FRAME_HEADER_LEN fragment_ok fragment_wire fragment_encode fragment_decode
proof (unfold_locales, goal_cases)
  case (3 h bs)
  then show ?case by (simp add: fragment_encode_ok MEDIA_FRAME_HEADER_LEN_def)
next
  case (4 h bs bs')
  then show ?case by (rule fragment_encode_only_ok)
next
  case (5 h rest)
  then show ?case by (rule fragment_decode_wire)
qed (simp_all add: fragment_ok_def MEDIA_FRAME_HEADER_LEN_def)

section \<open>Properties of the media headers\<close>

text \<open>
  The fragment header round trip. Whatever \<open>encode\<close> accepts, with a decode time before or after the
  presentation time or none, \<open>decode\<close> returns unchanged, and the bytes after the header are kept. A
  metadata record is accepted exactly when its flags fit a byte, its duration two bytes and its
  decode time lies within 32767 ms of the presentation time.
\<close>
lemma fragment_header_round_trip:
  assumes "44 \<le> length bs"
  shows "(is_ok (fragment_encode h bs) \<longleftrightarrow>
      unat (md_flags (fh_metadata h)) \<le> 255 \<and> unat (md_duration_ms (fh_metadata h)) \<le> 65535 \<and>
      (case md_dts_ms (fh_metadata h) of None \<Rightarrow> True
       | Some dts \<Rightarrow> \<bar>uint dts - uint (md_pts_ms (fh_metadata h))\<bar> \<le> 32767)) \<and>
    (\<forall>bs'. fragment_encode h bs = Inr bs' \<longrightarrow>
       fragment_decode bs' = Inr h \<and> drop 44 bs' = drop 44 bs \<and> length bs' = length bs)"
proof -
  have "is_ok (fragment_encode h bs) \<longleftrightarrow> fragment_ok h (length bs)"
    using media_header.enc_eq [of h bs] by (auto simp: is_ok_iff)
  then show ?thesis
    using assms media_header.round_trip [of h bs] media_header.enc_keeps_tail [of h bs]
      media_header.enc_keeps_length [of h bs]
    by (auto simp: fragment_ok_def MEDIA_FRAME_HEADER_LEN_def word_le_nat_alt split: option.splits)
qed

definition example_metadata :: media_metadata where
  "example_metadata = (metadata_new 7 3 1000 Codec_H264)\<lparr>md_dts_ms := Some 960, md_flags := 1\<rparr>"

definition example_fragment :: fragment_header where
  "example_fragment =
     \<lparr>fh_metadata = example_metadata, fh_fragment_index = 0, fh_fragment_count = 1,
      fh_access_unit_len = 2, fh_fragment_offset = 0\<rparr>"

lemma fragment_header_round_trip_example:
  "\<exists>bs'. fragment_encode example_fragment (replicate 44 0) = Inr bs' \<and>
     fragment_decode bs' = Inr example_fragment"
  using fragment_header_round_trip [of "replicate 44 0" example_fragment]
  by (auto simp: example_fragment_def example_metadata_def metadata_new_def is_ok_iff)

lemma fragment_decode_prefix:
  "44 \<le> length bs \<Longrightarrow> fragment_decode (sub_slice bs 0 44) = fragment_decode bs"
  by (simp add: fragment_decode_def MEDIA_FRAME_HEADER_LEN_def sub_slice_take sub_slice_def [of bs 0 44] Let_def)

text \<open>
  Serialized access units. A header for a whole access unit (fragment 0 of 1, offset 0, the
  payload's length) followed by the payload parses back to the metadata and the payload.
\<close>
lemma serialized_access_unit_round_trip:
  assumes "fragment_encode h (replicate 44 0) = Inr hdr"
    and "fh_fragment_index h = 0" "fh_fragment_count h = 1" "fh_fragment_offset h = 0"
    and "unat (fh_access_unit_len h) = length payload"
  shows "decode_serialized_media_access_unit (hdr @ payload) =
    Inr (Some \<lparr>au_metadata = fh_metadata h, au_payload = payload\<rparr>)"
proof -
  have hdr: "hdr = fragment_wire h" and ok: "fragment_ok h 44"
    using media_header.enc_eq [of h "replicate 44 0" hdr] assms(1)
    by (simp_all add: MEDIA_FRAME_HEADER_LEN_def)
  have "fragment_decode (sub_slice (hdr @ payload) 0 44) = Inr h"
    using fragment_decode_wire [OF ok, of "[]"] by (simp add: hdr sub_slice_def)
  then show ?thesis
    using assms(2-) by (simp add: decode_serialized_media_access_unit_def hdr MEDIA_FRAME_HEADER_LEN_def)
qed

theorem serialized_access_unit_round_trip_witness:
  "\<exists>hdr. decode_serialized_media_access_unit (hdr @ [8, 9]) =
     Inr (Some \<lparr>au_metadata = example_metadata, au_payload = [8, 9]\<rparr>)"
proof -
  have "fragment_ok example_fragment (length (replicate 44 0 :: bytes))"
    by (simp add: fragment_ok_def example_fragment_def example_metadata_def metadata_new_def
        MEDIA_FRAME_HEADER_LEN_def word_le_nat_alt)
  then have "fragment_encode example_fragment (replicate 44 0) = Inr (fragment_wire example_fragment)"
    using fragment_encode_ok by fastforce
  from serialized_access_unit_round_trip [OF this, of "[8, 9]"] show ?thesis
    by (auto simp: example_fragment_def)
qed

end
