(* ===== verification/Fec_Decoder.thy ===== *)
theory Fec_Decoder
  imports Fec_Encoder Sequence
begin

text \<open>
  \<^verbatim>\<open>DatagramFecDecoder\<close> of \<^verbatim>\<open>lib.rs\<close> (lines 1200 to 1312): one flow of datagrams. The state holds a
  codec decoder with its geometry for every block in flight, the ids of completed or expired blocks,
  and the sequence tracker. \<open>push_datagram\<close> returns the state the source leaves behind, also when it
  fails after the tracker has observed the packet.
\<close>

section \<open>State and operations\<close>

record 'd block_state =
  bs_decoder :: 'd
  bs_transfer_length :: u32
  bs_source_symbols :: u16
  bs_symbol_size :: u16

record 'd fec_decoder =
  dec_blocks :: "u32 \<rightharpoonup> 'd block_state"
  dec_completed :: "u32 set"
  dec_tracker :: sequence_tracker

definition decoder_new :: "'d fec_decoder" where
  "decoder_new = \<lparr>dec_blocks = (\<lambda>_. None), dec_completed = {}, dec_tracker = tracker_new\<rparr>"

definition kept_by_prune :: "u32 \<Rightarrow> u32 \<Rightarrow> bool" where
  "kept_by_prune current block_id =
     (current < COMPLETED_WINDOW \<or> block_id \<ge> current - COMPLETED_WINDOW)"

definition prune :: "u32 \<Rightarrow> 'd fec_decoder \<Rightarrow> 'd fec_decoder" where
  "prune current d =
     d\<lparr>dec_blocks := (\<lambda>b. if kept_by_prune current b then dec_blocks d b else None),
       dec_completed := {b \<in> dec_completed d. kept_by_prune current b}\<rparr>"

definition complete_block :: "u32 \<Rightarrow> 'd fec_decoder \<Rightarrow> 'd fec_decoder" where
  "complete_block b d =
     prune b (d\<lparr>dec_blocks := (dec_blocks d)(b := None), dec_completed := insert b (dec_completed d)\<rparr>)"

definition geometry_conflict :: "datagram_fec_header \<Rightarrow> 'd block_state \<Rightarrow> bool" where
  "geometry_conflict h bs =
     (bs_transfer_length bs \<noteq> hdr_transfer_length h \<or> bs_source_symbols bs \<noteq> hdr_source_symbols h \<or>
      bs_symbol_size bs \<noteq> hdr_symbol_size h)"

definition push_datagram ::
    "crc_fun \<Rightarrow> ('e, 'd) raptorq \<Rightarrow> 'd fec_decoder \<Rightarrow> bytes \<Rightarrow>
     'd fec_decoder \<times> (datagram_fec_error, bytes option) result" where
  "push_datagram crc rq d datagram =
     (if length datagram < HEADER_LEN + ENCODING_PACKET_HEADER_LEN then
        (d, Inl (PacketTooShort (length datagram)))
      else
        (case header_decode datagram of
           Inl e \<Rightarrow> (d, Inl e)
         | Inr header \<Rightarrow>
             (case header_payload crc header datagram of
                Inl e \<Rightarrow> (d, Inl e)
              | Inr payload \<Rightarrow>
                  if length payload < ENCODING_PACKET_HEADER_LEN then
                    (d, Inl (PacketTooShort (length datagram)))
                  else
                    (let d1 = d\<lparr>dec_tracker := fst (observe (dec_tracker d) (packet_sequence header))\<rparr>;
                         block_id = hdr_block_id header
                     in if block_id \<in> dec_completed d1 then (d1, Inr None)
                        else
                          (let packet = rq_deserialize rq payload
                           in if pkt_source_block packet \<noteq> 0 then
                                (d1, Inl (UnsupportedSourceBlockNumber (pkt_source_block packet)))
                              else if length (pkt_data packet) \<noteq> unat (hdr_symbol_size header) then
                                (d1, Inl (SymbolSizeMismatch (unat (hdr_symbol_size header))
                                            (length (pkt_data packet))))
                              else if (case dec_blocks d1 block_id of
                                         None \<Rightarrow> False | Some bs \<Rightarrow> geometry_conflict header bs) then
                                (d1\<lparr>dec_blocks := (dec_blocks d1)(block_id := None)\<rparr>,
                                 Inl (InconsistentBlockGeometry block_id))
                              else
                                (let bs = (case dec_blocks d1 block_id of
                                             Some bs \<Rightarrow> bs
                                           | None \<Rightarrow>
                                               \<lparr>bs_decoder = rq_decoder rq (header_oti header),
                                                bs_transfer_length = hdr_transfer_length header,
                                                bs_source_symbols = hdr_source_symbols header,
                                                bs_symbol_size = hdr_symbol_size header\<rparr>);
                                     (decoder, out) = rq_decode rq (bs_decoder bs) packet;
                                     d2 = d1\<lparr>dec_blocks :=
                                            (dec_blocks d1)(block_id \<mapsto> bs\<lparr>bs_decoder := decoder\<rparr>)\<rparr>
                                 in case out of
                                      None \<Rightarrow> (d2, Inr None)
                                    | Some decoded \<Rightarrow> (complete_block block_id d2, Inr (Some decoded))))))))"

definition expire_block :: "u32 \<Rightarrow> 'd fec_decoder \<Rightarrow> 'd fec_decoder" where
  "expire_block b d = complete_block b d"

definition in_flight_block_count :: "'d fec_decoder \<Rightarrow> nat" where
  "in_flight_block_count d = card (dom (dec_blocks d))"

definition decoder_sequence_stats :: "'d fec_decoder \<Rightarrow> sequence_stats" where
  "decoder_sequence_stats d = tracker_stats (dec_tracker d)"

text \<open>A flow: datagrams in order of arrival, with every result, and what it delivers.\<close>

primrec push_all ::
    "crc_fun \<Rightarrow> ('e, 'd) raptorq \<Rightarrow> 'd fec_decoder \<Rightarrow> bytes list \<Rightarrow>
     'd fec_decoder \<times> (datagram_fec_error, bytes option) result list" where
  "push_all crc rq d [] = (d, [])"
| "push_all crc rq d (x # xs) =
     (case push_datagram crc rq d x of
        (d1, r) \<Rightarrow> (case push_all crc rq d1 xs of (d2, rs) \<Rightarrow> (d2, r # rs)))"

primrec delivered :: "('e, 'a option) result list \<Rightarrow> 'a list" where
  "delivered [] = []"
| "delivered (r # rs) =
     (case r of Inr (Some out) \<Rightarrow> out # delivered rs | _ \<Rightarrow> delivered rs)"

definition all_ok :: "('e + 'a) list \<Rightarrow> bool" where
  "all_ok rs = list_all is_ok rs"

section \<open>One accepted packet\<close>

definition observed :: "'d fec_decoder \<Rightarrow> u32 \<Rightarrow> 'd fec_decoder" where
  "observed d seq = d\<lparr>dec_tracker := fst (observe (dec_tracker d) seq)\<rparr>"

lemma observed_simps [simp]:
  "dec_blocks (observed d seq) = dec_blocks d" "dec_completed (observed d seq) = dec_completed d"
  by (simp_all add: observed_def)

lemma accept_split:
  "accept_datagram crc x = Inr (h, p) \<Longrightarrow> header_decode x = Inr h \<and> header_payload crc h x = Inr p"
  by (auto simp: accept_datagram_def rbind_eq_Inr)

text \<open>What the codec step of \<open>push_datagram\<close> does to a block that is not completed.\<close>

definition block_or_new :: "('e, 'd) raptorq \<Rightarrow> 'd fec_decoder \<Rightarrow> datagram_fec_header \<Rightarrow> 'd block_state" where
  "block_or_new rq d h =
     (case dec_blocks d (hdr_block_id h) of
        Some bs \<Rightarrow> bs
      | None \<Rightarrow> \<lparr>bs_decoder = rq_decoder rq (header_oti h), bs_transfer_length = hdr_transfer_length h,
                bs_source_symbols = hdr_source_symbols h, bs_symbol_size = hdr_symbol_size h\<rparr>)"

lemma push_accepted:
  assumes acc: "accept_datagram crc x = Inr (h, p)" and p: "4 \<le> length p"
    and packet: "pkt_source_block (rq_deserialize rq p) = 0"
      "length (pkt_data (rq_deserialize rq p)) = unat (hdr_symbol_size h)"
  shows "push_datagram crc rq d x =
    (if hdr_block_id h \<in> dec_completed d then (observed d (packet_sequence h), Inr None)
     else if \<exists>bs. dec_blocks d (hdr_block_id h) = Some bs \<and> geometry_conflict h bs then
       ((observed d (packet_sequence h))\<lparr>dec_blocks := (dec_blocks d)(hdr_block_id h := None)\<rparr>,
        Inl (InconsistentBlockGeometry (hdr_block_id h)))
     else
       (case rq_decode rq (bs_decoder (block_or_new rq d h)) (rq_deserialize rq p) of
          (decoder, out) \<Rightarrow>
            (let d2 = (observed d (packet_sequence h))\<lparr>dec_blocks :=
                (dec_blocks d)(hdr_block_id h \<mapsto> (block_or_new rq d h)\<lparr>bs_decoder := decoder\<rparr>)\<rparr>
             in case out of None \<Rightarrow> (d2, Inr None)
                | Some decoded \<Rightarrow> (complete_block (hdr_block_id h) d2, Inr (Some decoded)))))"
proof -
  have parts: "header_decode x = Inr h" "header_payload crc h x = Inr p"
    using accept_split [OF acc] by simp_all
  have len: "\<not> length x < HEADER_LEN + ENCODING_PACKET_HEADER_LEN"
    using acc p by (auto simp: accept_Inr wire_consts)
  have "\<not> length p < ENCODING_PACKET_HEADER_LEN" using p by (simp add: ENCODING_PACKET_HEADER_LEN_def)
  then show ?thesis
    using len parts packet
    by (auto simp: push_datagram_def Let_def observed_def [symmetric] block_or_new_def
        split: option.splits prod.splits)
qed

lemma complete_block_simps:
  "dec_blocks (complete_block b d) c = (if c \<noteq> b \<and> kept_by_prune b c then dec_blocks d c else None)"
  "dec_completed (complete_block b d) = {c. (c = b \<or> c \<in> dec_completed d) \<and> kept_by_prune b c}"
  "dec_tracker (complete_block b d) = dec_tracker d"
  by (auto simp: complete_block_def prune_def)

lemma kept_self: "kept_by_prune b b"
proof (cases "b < 64")
  case False
  then have le: "64 \<le> b" by (simp add: not_less)
  then have "unat (b - 64) = unat b - 64" by (simp add: unat_sub)
  then have "b - 64 \<le> b" by (simp add: word_le_nat_alt)
  then show ?thesis by (simp add: kept_by_prune_def COMPLETED_WINDOW_def)
qed (simp add: kept_by_prune_def COMPLETED_WINDOW_def)

lemma completed_self: "b \<in> dec_completed (complete_block b d)"
  by (simp add: complete_block_simps kept_self)

section \<open>Frames of one block, in any order\<close>

text \<open>\<open>sent crc rq b data s (q, i)\<close> is the datagram with packet sequence \<open>q\<close> and symbol id \<open>i\<close>.\<close>

definition sent :: "crc_fun \<Rightarrow> ('e, 'd) raptorq \<Rightarrow> u32 \<Rightarrow> bytes \<Rightarrow> u16 \<Rightarrow> u32 \<times> nat \<Rightarrow> bytes" where
  "sent crc rq b data s x =
     frame crc b (of_nat (length data)) (of_nat (block_symbols data s)) s (fst x)
       (rq_serialize rq (block_packet rq data s (snd x)))"

lemma block_frames_sent:
  "block_frames crc rq b seq data s ids =
     map (sent crc rq b data s) (map (\<lambda>j. (seq + of_nat j, ids ! j)) [0..<length ids])"
  by (rule nth_equalityI) (simp_all add: block_frames_def nth_frame_all sent_def)

lemma sent_accepted:
  assumes "rq_lawful rq" "block_data data s" "i < 2 ^ 24"
  shows "accept_datagram crc (sent crc rq b data s (q, i)) =
    Inr (framed_header crc b (of_nat (length data)) (of_nat (block_symbols data s)) s q
           (rq_serialize rq (block_packet rq data s i)), rq_serialize rq (block_packet rq data s i))"
  using block_data_geometry(1) [OF assms(2)] serialize_bound [OF assms]
  by (simp add: sent_def frame_accepted_eq)

definition matching_block :: "bytes \<Rightarrow> u16 \<Rightarrow> 'd block_state \<Rightarrow> bool" where
  "matching_block data s bs \<longleftrightarrow>
     bs_transfer_length bs = of_nat (length data) \<and>
     bs_source_symbols bs = of_nat (block_symbols data s) \<and> bs_symbol_size bs = s"

text \<open>The codec decoder that the next packet of the block meets.\<close>

definition current_decoder :: "('e, 'd) raptorq \<Rightarrow> 'd fec_decoder \<Rightarrow> u32 \<Rightarrow> bytes \<Rightarrow> u16 \<Rightarrow> 'd" where
  "current_decoder rq d b data s =
     (case dec_blocks d b of Some bs \<Rightarrow> bs_decoder bs | None \<Rightarrow> block_decoder rq (length data) s)"

text \<open>A datagram that carries packet \<open>i\<close> of the block, whatever its flags, sequence and trailer.\<close>

definition carries ::
    "crc_fun \<Rightarrow> ('e, 'd) raptorq \<Rightarrow> u32 \<Rightarrow> bytes \<Rightarrow> u16 \<Rightarrow> nat \<Rightarrow> datagram_fec_header \<Rightarrow> bytes \<Rightarrow> bool" where
  "carries crc rq b data s i h x \<longleftrightarrow>
     accept_datagram crc x = Inr (h, rq_serialize rq (block_packet rq data s i)) \<and>
     hdr_block_id h = b \<and> hdr_transfer_length h = of_nat (length data) \<and>
     hdr_source_symbols h = of_nat (block_symbols data s) \<and> hdr_symbol_size h = s"

lemma sent_carries:
  "rq_lawful rq \<Longrightarrow> block_data data s \<Longrightarrow> i < 2 ^ 24 \<Longrightarrow>
   carries crc rq b data s i (framed_header crc b (of_nat (length data)) (of_nat (block_symbols data s)) s q
     (rq_serialize rq (block_packet rq data s i))) (sent crc rq b data s (q, i))"
  by (simp add: carries_def sent_accepted)

lemma header_oti_carried:
  assumes "block_data data s" "hdr_transfer_length h = of_nat (length data)" "hdr_symbol_size h = s"
  shows "rq_decoder rq (header_oti h) = block_decoder rq (length data) s"
proof -
  have "(ucast (of_nat (length data) :: u32) :: u64) = of_nat (unat (of_nat (length data) :: u32))" by simp
  then have "(ucast (of_nat (length data) :: u32) :: u64) = of_nat (length data)"
    by (simp only: block_data_geometry(4) [OF assms(1)])
  then show ?thesis by (simp add: header_oti_def block_decoder_def assms(2,3))
qed

lemma push_carried:
  assumes lawful: "rq_lawful rq" and bd: "block_data data s" and i: "i < 2 ^ 24"
    and x: "carries crc rq b data s i h x"
    and match: "\<forall>bs. dec_blocks d b = Some bs \<longrightarrow> matching_block data s bs"
    and out: "rq_decode rq (current_decoder rq d b data s) (block_packet rq data s i) = (dec, out)"
    and push: "push_datagram crc rq d x = (d', r)"
  shows "dec_tracker d' = fst (observe (dec_tracker d) (packet_sequence h))"
    "b \<in> dec_completed d \<Longrightarrow> r = Inr None \<and> dec_blocks d' = dec_blocks d \<and> dec_completed d' = dec_completed d"
    "b \<notin> dec_completed d \<Longrightarrow> r = Inr out \<and>
       (case out of
          None \<Rightarrow> dec_completed d' = dec_completed d \<and>
            (\<exists>bs. dec_blocks d' = (dec_blocks d)(b \<mapsto> bs) \<and> matching_block data s bs \<and> bs_decoder bs = dec)
        | Some _ \<Rightarrow> (\<forall>c. dec_blocks d' c = (if c \<noteq> b \<and> kept_by_prune b c then dec_blocks d c else None)) \<and>
            dec_completed d' = {c. (c = b \<or> c \<in> dec_completed d) \<and> kept_by_prune b c})"
proof -
  let ?p = "rq_serialize rq (block_packet rq data s i)" and ?q = "packet_sequence h"
  have acc: "accept_datagram crc x = Inr (h, ?p)" and hdr: "hdr_block_id h = b"
      "hdr_transfer_length h = of_nat (length data)" "hdr_source_symbols h = of_nat (block_symbols data s)"
      "hdr_symbol_size h = s"
    using x by (simp_all add: carries_def)
  note pk = lawful_serialize [OF lawful bd i]
  have l4: "4 \<le> length ?p" and sbn: "pkt_source_block (rq_deserialize rq ?p) = 0"
    and size: "length (pkt_data (rq_deserialize rq ?p)) = unat (hdr_symbol_size h)"
    using pk by (simp_all add: hdr)
  have push': "push_datagram crc rq d x =
    (if b \<in> dec_completed d then (observed d ?q, Inr None)
     else if \<exists>bs. dec_blocks d b = Some bs \<and> geometry_conflict h bs then
       ((observed d ?q)\<lparr>dec_blocks := (dec_blocks d)(b := None)\<rparr>, Inl (InconsistentBlockGeometry b))
     else
       (case rq_decode rq (bs_decoder (block_or_new rq d h)) (block_packet rq data s i) of
          (decoder, out) \<Rightarrow>
            (let d2 = (observed d ?q)\<lparr>dec_blocks :=
                (dec_blocks d)(b \<mapsto> (block_or_new rq d h)\<lparr>bs_decoder := decoder\<rparr>)\<rparr>
             in case out of None \<Rightarrow> (d2, Inr None)
                | Some decoded \<Rightarrow> (complete_block b d2, Inr (Some decoded)))))"
    using push_accepted [OF acc l4 sbn size, of d] unfolding hdr(1) pk(1) .
  have no_conflict: "\<not> (\<exists>bs. dec_blocks d b = Some bs \<and> geometry_conflict h bs)"
    using match by (auto simp: geometry_conflict_def matching_block_def hdr)
  have new: "bs_decoder (block_or_new rq d h) = current_decoder rq d b data s"
    "matching_block data s (block_or_new rq d h)"
    using match by (auto simp: block_or_new_def current_decoder_def header_oti_carried [OF bd hdr(2,4)] hdr
        matching_block_def split: option.splits)
  note eq = push' [unfolded if_not_P [OF no_conflict] new(1) out push prod.case]
  show "dec_tracker d' = fst (observe (dec_tracker d) ?q)"
    using eq by (auto simp: observed_def complete_block_simps Let_def split: if_splits option.splits)
  show "b \<in> dec_completed d \<Longrightarrow> r = Inr None \<and> dec_blocks d' = dec_blocks d \<and> dec_completed d' = dec_completed d"
    using eq by simp
  show "b \<notin> dec_completed d \<Longrightarrow> r = Inr out \<and>
       (case out of
          None \<Rightarrow> dec_completed d' = dec_completed d \<and>
            (\<exists>bs. dec_blocks d' = (dec_blocks d)(b \<mapsto> bs) \<and> matching_block data s bs \<and> bs_decoder bs = dec)
        | Some _ \<Rightarrow> (\<forall>c. dec_blocks d' c = (if c \<noteq> b \<and> kept_by_prune b c then dec_blocks d c else None)) \<and>
            dec_completed d' = {c. (c = b \<or> c \<in> dec_completed d) \<and> kept_by_prune b c})"
    using eq new(2)
    by (cases out) (auto simp: Let_def complete_block_simps matching_block_def intro!: exI)
qed

lemma push_sent:
  assumes lawful: "rq_lawful rq" and bd: "block_data data s" and i: "i < 2 ^ 24"
    and match: "\<forall>bs. dec_blocks d b = Some bs \<longrightarrow> matching_block data s bs"
    and out: "rq_decode rq (current_decoder rq d b data s) (block_packet rq data s i) = (dec, out)"
    and push: "push_datagram crc rq d (sent crc rq b data s (q, i)) = (d', r)"
  shows "dec_tracker d' = fst (observe (dec_tracker d) q)"
    "b \<in> dec_completed d \<Longrightarrow> r = Inr None \<and> dec_blocks d' = dec_blocks d \<and> dec_completed d' = dec_completed d"
    "b \<notin> dec_completed d \<Longrightarrow> r = Inr out \<and>
       (case out of
          None \<Rightarrow> dec_completed d' = dec_completed d \<and>
            (\<exists>bs. dec_blocks d' = (dec_blocks d)(b \<mapsto> bs) \<and> matching_block data s bs \<and> bs_decoder bs = dec)
        | Some _ \<Rightarrow> (\<forall>c. dec_blocks d' c = (if c \<noteq> b \<and> kept_by_prune b c then dec_blocks d c else None)) \<and>
            dec_completed d' = {c. (c = b \<or> c \<in> dec_completed d) \<and> kept_by_prune b c})"
  using push_carried [OF lawful bd i sent_carries [OF lawful bd i] match out push] by simp_all

lemma push_all_append:
  "push_all crc rq d (xs @ ys) =
    (case push_all crc rq d xs of (d1, rs) \<Rightarrow> (case push_all crc rq d1 ys of (d2, qs) \<Rightarrow> (d2, rs @ qs)))"
  by (induction xs arbitrary: d) (auto split: prod.splits)

lemma delivered_append [simp]: "delivered (rs @ qs) = delivered rs @ delivered qs"
  by (induction rs) (auto split: sum.splits option.splits)

lemma all_ok_simps [simp]:
  "all_ok []" "all_ok (r # rs) \<longleftrightarrow> is_ok r \<and> all_ok rs" "all_ok (rs @ qs) \<longleftrightarrow> all_ok rs \<and> all_ok qs"
  by (simp_all add: all_ok_def)

lemma completed_stream:
  assumes lawful: "rq_lawful rq" and bd: "block_data data s" and ids: "\<forall>x \<in> set xs. snd x < 2 ^ 24"
    and match: "\<forall>bs. dec_blocks d b = Some bs \<longrightarrow> matching_block data s bs"
    and c: "b \<in> dec_completed d" and push: "push_all crc rq d (map (sent crc rq b data s) xs) = (d', rs)"
  shows "all_ok rs \<and> delivered rs = [] \<and> dec_blocks d' = dec_blocks d \<and> dec_completed d' = dec_completed d"
  using ids match c push
proof (induction xs arbitrary: d d' rs)
  case (Cons x xs)
  obtain d1 r where one: "push_datagram crc rq d (sent crc rq b data s x) = (d1, r)" by fastforce
  obtain d2 qs where rest: "push_all crc rq d1 (map (sent crc rq b data s) xs) = (d2, qs)" by fastforce
  obtain dec out where out: "rq_decode rq (current_decoder rq d b data s) (block_packet rq data s (snd x)) = (dec, out)"
    by fastforce
  have i: "snd x < 2 ^ 24" using Cons.prems(1) by simp
  have st: "r = Inr None" "dec_blocks d1 = dec_blocks d" "dec_completed d1 = dec_completed d"
    using push_sent(2) [OF lawful bd i Cons.prems(2) out, of crc "fst x" d1 r] one Cons.prems(3)
    by simp_all
  have "all_ok qs \<and> delivered qs = [] \<and> dec_blocks d2 = dec_blocks d1 \<and> dec_completed d2 = dec_completed d1"
    using Cons.IH [OF _ _ _ rest] Cons.prems st by simp
  then show ?case using Cons.prems(4) one rest st by auto
qed simp

lemma block_stream:
  assumes lawful: "rq_lawful rq" and bd: "block_data data s" and ids: "\<forall>x \<in> set xs. snd x < 2 ^ 24"
    and match: "\<forall>bs. dec_blocks d b = Some bs \<longrightarrow> matching_block data s bs"
    and c: "b \<notin> dec_completed d" and push: "push_all crc rq d (map (sent crc rq b data s) xs) = (d', rs)"
    and run: "run = codec_run rq (current_decoder rq d b data s) (map (block_packet rq data s) (map snd xs))"
  shows "all_ok rs \<and> delivered rs = (case run of None \<Rightarrow> [] | Some out \<Rightarrow> [out]) \<and>
    dec_completed d' \<subseteq> insert b (dec_completed d) \<and> dom (dec_blocks d') \<subseteq> insert b (dom (dec_blocks d)) \<and>
    (b \<in> dec_completed d' \<longleftrightarrow> run \<noteq> None) \<and> (run \<noteq> None \<longrightarrow> dec_blocks d' b = None)"
  using ids match c push run
proof (induction xs arbitrary: d d' rs)
  case (Cons x xs)
  obtain d1 r where one: "push_datagram crc rq d (sent crc rq b data s x) = (d1, r)" by fastforce
  obtain d2 qs where rest: "push_all crc rq d1 (map (sent crc rq b data s) xs) = (d2, qs)" by fastforce
  have result: "d' = d2" "rs = r # qs" using Cons.prems(4) one rest by auto
  obtain dec out where out: "rq_decode rq (current_decoder rq d b data s) (block_packet rq data s (snd x)) = (dec, out)"
    by fastforce
  have i: "snd x < 2 ^ 24" and ids: "\<forall>x \<in> set xs. snd x < 2 ^ 24" using Cons.prems(1) by simp_all
  note st = push_sent(3) [OF lawful bd i Cons.prems(2) out, of crc "fst x" d1 r, unfolded prod.collapse,
      OF one Cons.prems(3)]
  show ?case
  proof (cases out)
    case None
    obtain bs where d1: "dec_completed d1 = dec_completed d" "dec_blocks d1 = (dec_blocks d)(b \<mapsto> bs)"
        "matching_block data s bs" "bs_decoder bs = dec" and r: "r = Inr None"
      using st None by auto
    have cur: "current_decoder rq d1 b data s = dec" by (simp add: current_decoder_def d1)
    have "run = codec_run rq (current_decoder rq d1 b data s) (map (block_packet rq data s) (map snd xs))"
      using Cons.prems(5) out None by (simp add: cur)
    from Cons.IH [OF ids _ _ rest this] show ?thesis
      using Cons.prems(3) d1 r by (auto simp: result)
  next
    case (Some decoded)
    have d1: "\<forall>c. dec_blocks d1 c = (if c \<noteq> b \<and> kept_by_prune b c then dec_blocks d c else None)"
      "dec_completed d1 = {c. (c = b \<or> c \<in> dec_completed d) \<and> kept_by_prune b c}" and r: "r = Inr (Some decoded)"
      using st Some by auto
    have run: "run = Some decoded" using Cons.prems(5) out Some by simp
    have b: "b \<in> dec_completed d1" using d1(2) kept_self by simp
    have "all_ok qs \<and> delivered qs = [] \<and> dec_blocks d2 = dec_blocks d1 \<and> dec_completed d2 = dec_completed d1"
      by (rule completed_stream [OF lawful bd ids _ b rest]) (simp add: d1)
    then show ?thesis
      using d1 r b run by (auto simp: result split: if_splits)
  qed
qed auto

lemma codec_run_once:
  assumes "rq_lawful rq" "block_data data s" "\<forall>i \<in> set ids. i < 2 ^ 24"
  shows "codec_run rq (block_decoder rq (length data) s) (map (block_packet rq data s) ids) \<in> {None, Some data}"
    "{0..<block_symbols data s} \<subseteq> set ids \<Longrightarrow>
     codec_run rq (block_decoder rq (length data) s) (map (block_packet rq data s) ids) = Some data"
  using assms unfolding rq_lawful_def decoder_law_def Let_def by blast+

section \<open>Properties of the decoder\<close>

text \<open>
  C6. One block over a lossy, reordering, duplicating link. Push any datagrams of one encoded block,
  in any order, with any of them missing or repeated and with any packet sequence numbers, into a
  decoder that does not know the block. No push fails, and the flow delivers exactly what the codec
  alone makes of the same packets, once: nothing, or the original data.
\<close>
theorem block_delivery_refines_codec:
  assumes "rq_lawful rq" "block_data data s" "\<forall>x \<in> set xs. snd x < 2 ^ 24"
    and "dec_blocks d b = None" "b \<notin> dec_completed d"
    and "push_all crc rq d (map (sent crc rq b data s) xs) = (d', rs)"
  shows "all_ok rs \<and>
    delivered rs = (case codec_run rq (block_decoder rq (length data) s)
        (map (block_packet rq data s) (map snd xs)) of None \<Rightarrow> [] | Some out \<Rightarrow> [out]) \<and>
    (delivered rs = [] \<or> delivered rs = [data])"
proof -
  have cur: "current_decoder rq d b data s = block_decoder rq (length data) s"
    by (simp add: current_decoder_def assms(4))
  have ids: "\<forall>i \<in> set (map snd xs). i < 2 ^ 24" using assms(3) by auto
  show ?thesis
    using block_stream [OF assms(1,2,3) _ assms(5,6) refl] codec_run_once(1) [OF assms(1,2) ids]
    by (auto simp: assms(4) cur)
qed

text \<open>
  C14. Systematic recovery. If every source packet of a block is among the datagrams that arrive, in
  any order, mixed with repair packets and duplicates, the decoder delivers the block, exactly once,
  remembers it as completed and retains no decoding state for it.
\<close>
theorem all_sources_recover_block:
  assumes "rq_lawful rq" "block_data data s" "\<forall>x \<in> set xs. snd x < 2 ^ 24"
    and "{0..<block_symbols data s} \<subseteq> snd ` set xs"
    and "dec_blocks d b = None" "b \<notin> dec_completed d"
    and "push_all crc rq d (map (sent crc rq b data s) xs) = (d', rs)"
  shows "delivered rs = [data] \<and> b \<in> dec_completed d' \<and> dec_blocks d' b = None"
proof -
  have cur: "current_decoder rq d b data s = block_decoder rq (length data) s"
    by (simp add: current_decoder_def assms(5))
  have ids: "\<forall>i \<in> set (map snd xs). i < 2 ^ 24" using assms(3) by auto
  show ?thesis
    using block_stream [OF assms(1,2,3) _ assms(6,7) refl] codec_run_once(2) [OF assms(1,2) ids] assms(4)
    by (simp add: assms(5) cur)
qed

lemma small_block: "block_data [1, 2, 3] 2" "block_symbols [1, 2, 3] 2 = 2"
  by (simp_all add: block_data_def block_symbols_def div_ceil_def U32_MAX_def)

theorem block_delivery_refines_codec_witness:
  "\<exists>d' rs. push_all crc_reference rep_codec decoder_new
       (map (sent crc_reference rep_codec 9 [1, 2, 3] 2) [(5, 0), (5, 0), (7, 2)]) = (d', rs) \<and>
     all_ok rs \<and> (delivered rs = [] \<or> delivered rs = [[1, 2, 3]])"
proof -
  obtain d' rs where push: "push_all crc_reference rep_codec decoder_new
       (map (sent crc_reference rep_codec 9 [1, 2, 3] 2) [(5, 0), (5, 0), (7, 2)]) = (d', rs)" by fastforce
  show ?thesis
    using block_delivery_refines_codec [OF rep_codec_lawful small_block(1) _ _ _ push] push
    by (auto simp: decoder_new_def)
qed

theorem all_sources_recover_block_witness:
  "\<exists>d' rs. push_all crc_reference rep_codec decoder_new
       (map (sent crc_reference rep_codec 9 [1, 2, 3] 2) [(7, 2), (6, 1), (5, 0), (6, 1)]) = (d', rs) \<and>
     delivered rs = [[1, 2, 3]]"
proof -
  obtain d' rs where push: "push_all crc_reference rep_codec decoder_new
       (map (sent crc_reference rep_codec 9 [1, 2, 3] 2) [(7, 2), (6, 1), (5, 0), (6, 1)]) = (d', rs)"
    by fastforce
  have "{0..<block_symbols [1, 2, 3] 2} \<subseteq> snd ` set [(7 :: u32, 2 :: nat), (6, 1), (5, 0), (6, 1)]"
    by (auto simp: small_block(2) less_Suc_eq numeral_2_eq_2)
  from all_sources_recover_block [OF rep_codec_lawful small_block(1) _ this _ _ push] push
  show ?thesis by (auto simp: decoder_new_def)
qed

section \<open>Failures, suppression and pruning\<close>

lemma push_datagram_cases:
  assumes "push_datagram crc rq d x = (d', r)"
  shows "(\<exists>e. r = Inl e \<and> d' = d) \<or>
    (\<exists>h p. accept_datagram crc x = Inr (h, p) \<and>
      ((hdr_block_id h \<in> dec_completed d \<and> r = Inr None \<and> d' = observed d (packet_sequence h)) \<or>
       (hdr_block_id h \<notin> dec_completed d \<and>
        ((\<exists>e. r = Inl e \<and> d' = observed d (packet_sequence h)) \<or>
         (dec_blocks d (hdr_block_id h) \<noteq> None \<and> r = Inl (InconsistentBlockGeometry (hdr_block_id h)) \<and>
          d' = (observed d (packet_sequence h))\<lparr>dec_blocks := (dec_blocks d)(hdr_block_id h := None)\<rparr>) \<or>
         (\<exists>bs. r = Inr None \<and>
          d' = (observed d (packet_sequence h))\<lparr>dec_blocks := (dec_blocks d)(hdr_block_id h \<mapsto> bs)\<rparr>) \<or>
         (\<exists>out bs. r = Inr (Some out) \<and> d' = complete_block (hdr_block_id h)
            ((observed d (packet_sequence h))\<lparr>dec_blocks := (dec_blocks d)(hdr_block_id h \<mapsto> bs)\<rparr>))))))"
proof (cases "accept_datagram crc x")
  case (Inl e)
  then have "(\<exists>e. header_decode x = Inl e) \<or> (\<exists>h e. header_decode x = Inr h \<and> header_payload crc h x = Inl e)"
    by (auto simp: accept_datagram_def rbind_eq_Inl)
  then have "\<exists>e. r = Inl e \<and> d' = d"
    using assms by (auto simp: push_datagram_def split: if_splits)
  then show ?thesis ..
next
  case (Inr hp)
  obtain h p where acc: "accept_datagram crc x = Inr (h, p)" using Inr by (cases hp) auto
  then have parts: "header_decode x = Inr h" "header_payload crc h x = Inr p"
    by (auto dest: accept_split)
  show ?thesis
  proof (cases "length x < HEADER_LEN + ENCODING_PACKET_HEADER_LEN \<or> length p < ENCODING_PACKET_HEADER_LEN")
    case True
    then have "\<exists>e. r = Inl e \<and> d' = d"
      using assms parts by (auto simp: push_datagram_def split: if_splits)
    then show ?thesis ..
  next
    case False
    show ?thesis
      using assms False acc parts
      by (auto simp: push_datagram_def Let_def observed_def [symmetric]
          split: if_splits option.splits prod.splits)
  qed
qed

text \<open>
  What a failing push can change. When \<open>push_datagram\<close> returns an error, no block becomes
  completed and no decoding state is touched, except that a geometry conflict discards the block it
  names, which was in flight.
\<close>
lemma failed_push_effect:
  assumes "push_datagram crc rq d x = (d', Inl err)"
  shows "dec_completed d' = dec_completed d \<and>
    (dec_blocks d' = dec_blocks d \<or>
     (\<exists>b. err = InconsistentBlockGeometry b \<and> dec_blocks d b \<noteq> None \<and>
        dec_blocks d' = (dec_blocks d)(b := None)))"
  using push_datagram_cases [OF assms] by auto

lemma failed_push_effect_witness:
  "dec_blocks (fst (push_datagram crc_reference rep_codec decoder_new [1, 2, 3])) = (\<lambda>_. None)"
  using failed_push_effect [of crc_reference rep_codec decoder_new "[1, 2, 3]" decoder_new "PacketTooShort 3"]
  by (simp add: push_datagram_def wire_consts decoder_new_def)

text \<open>A flow in which the caller also expires blocks, and the blocks that end in one of its steps.\<close>

datatype flow_op = FlowPush bytes | FlowExpire u32

definition flow_step ::
    "crc_fun \<Rightarrow> ('e, 'd) raptorq \<Rightarrow> flow_op \<Rightarrow> 'd fec_decoder \<Rightarrow>
     'd fec_decoder \<times> (datagram_fec_error, bytes option) result" where
  "flow_step crc rq op d =
     (case op of FlowPush x \<Rightarrow> push_datagram crc rq d x | FlowExpire c \<Rightarrow> (expire_block c d, Inr None))"

primrec run_flow ::
    "crc_fun \<Rightarrow> ('e, 'd) raptorq \<Rightarrow> flow_op list \<Rightarrow> 'd fec_decoder \<Rightarrow>
     'd fec_decoder \<times> (datagram_fec_error, bytes option) result list" where
  "run_flow crc rq [] d = (d, [])"
| "run_flow crc rq (op # ops) d =
     (case flow_step crc rq op d of
        (d1, r) \<Rightarrow> (case run_flow crc rq ops d1 of (d2, rs) \<Rightarrow> (d2, r # rs)))"

fun ends_block :: "flow_op \<times> (datagram_fec_error, bytes option) result \<Rightarrow> u32 \<Rightarrow> bool" where
  "ends_block (FlowExpire c, r) b \<longleftrightarrow> c = b"
| "ends_block (FlowPush x, Inr (Some out)) b \<longleftrightarrow> (\<exists>h. header_decode x = Inr h \<and> hdr_block_id h = b)"
| "ends_block (FlowPush x, r) b \<longleftrightarrow> False"

lemma kept_by_prune_iff: "kept_by_prune c b \<longleftrightarrow> unat c \<le> unat b + 64"
proof (cases "c < 64")
  case False
  then have "unat (c - 64) = unat c - 64" by (simp add: unat_sub not_less)
  then show ?thesis using False by (auto simp: kept_by_prune_def COMPLETED_WINDOW_def word_le_nat_alt)
next
  case True
  then show ?thesis by (simp add: kept_by_prune_def COMPLETED_WINDOW_def word_less_nat_alt)
qed

lemma flow_step_keeps:
  assumes step: "flow_step crc rq op d = (d1, r)" and b: "b \<in> dec_completed d" "dec_blocks d b = None"
    and near: "\<forall>c. ends_block (op, r) c \<longrightarrow> unat c \<le> unat b + 64"
  shows "b \<in> dec_completed d1 \<and> dec_blocks d1 b = None" "op = FlowPush x \<Longrightarrow> \<not> ends_block (FlowPush x, r) b"
proof -
  have "b \<in> dec_completed d1 \<and> dec_blocks d1 b = None \<and> (op = FlowPush x \<longrightarrow> \<not> ends_block (FlowPush x, r) b)"
  proof (cases op)
    case (FlowExpire c)
    then show ?thesis
      using step near b by (auto simp: flow_step_def expire_block_def complete_block_simps kept_by_prune_iff)
  next
    case (FlowPush y)
    then have push: "push_datagram crc rq d y = (d1, r)" using step by (simp add: flow_step_def)
    have hdr: "header_decode y = Inr h" if "accept_datagram crc y = Inr (h, p)" for h p
      using accept_split [OF that] by simp
    show ?thesis
      using push_datagram_cases [OF push] b near hdr unfolding FlowPush
      by (auto simp: complete_block_simps kept_by_prune_iff)
  qed
  then show "b \<in> dec_completed d1 \<and> dec_blocks d1 b = None" "op = FlowPush x \<Longrightarrow> \<not> ends_block (FlowPush x, r) b"
    by simp_all
qed

lemma run_flow_keeps:
  "run_flow crc rq ops d = (d', rs) \<Longrightarrow> b \<in> dec_completed d \<Longrightarrow> dec_blocks d b = None \<Longrightarrow>
   \<forall>step \<in> set (zip ops rs). \<forall>c. ends_block step c \<longrightarrow> unat c \<le> unat b + 64 \<Longrightarrow>
   b \<in> dec_completed d' \<and> dec_blocks d' b = None \<and> (\<forall>(op, r) \<in> set (zip ops rs). \<forall>x. op = FlowPush x \<longrightarrow> \<not> ends_block (op, r) b)"
proof (induction ops arbitrary: d rs)
  case (Cons op ops)
  obtain d1 r where one: "flow_step crc rq op d = (d1, r)" by fastforce
  obtain qs where rest: "run_flow crc rq ops d1 = (d', qs)" "rs = r # qs"
    using Cons.prems(1) one by (auto split: prod.splits)
  have near: "\<forall>c. ends_block (op, r) c \<longrightarrow> unat c \<le> unat b + 64"
      "\<forall>step \<in> set (zip ops qs). \<forall>c. ends_block step c \<longrightarrow> unat c \<le> unat b + 64"
    using Cons.prems(4) by (simp_all add: rest(2))
  note st = flow_step_keeps [OF one Cons.prems(2,3) near(1)]
  show ?case using Cons.IH [OF rest(1) _ _ near(2)] st rest(2) by auto
qed simp

text \<open>
  C15. An expired block stays gone for as long as its id is in the window. After \<open>expire_block\<close> let any datagrams
  arrive, valid or not, of this block and of others, and let any other blocks be expired, in any order, as long as no
  block is completed or expired whose id is more than 64 ahead. Then no datagram of the block has delivered anything
  and the id is still in the duplicate-suppression set without any decoding state; and since that holds of every part
  of the run, none was there in between. The bound is exact: the first block further ahead that ends makes the decoder
  forget the id.
\<close>
theorem expired_block_stays_gone:
  assumes "run_flow crc rq ops (expire_block b d) = (d', rs)"
    and "\<forall>step \<in> set (zip ops rs). \<forall>c. ends_block step c \<longrightarrow> unat c \<le> unat b + 64"
  shows "(\<forall>(op, r) \<in> set (zip ops rs). \<forall>x h out. op = FlowPush x \<longrightarrow> header_decode x = Inr h \<longrightarrow>
      hdr_block_id h = b \<longrightarrow> r \<noteq> Inr (Some out)) \<and>
    b \<in> dec_completed d' \<and> dec_blocks d' b = None \<and>
    (\<forall>c. unat b + 64 < unat c \<longrightarrow> b \<notin> dec_completed (expire_block c d'))"
proof -
  have b: "b \<in> dec_completed (expire_block b d)" "dec_blocks (expire_block b d) b = None"
    by (simp_all add: expire_block_def completed_self) (simp add: complete_block_simps)
  note kept = run_flow_keeps [OF assms(1) b assms(2)]
  then have "\<forall>(op, r) \<in> set (zip ops rs). \<forall>x h out. op = FlowPush x \<longrightarrow> header_decode x = Inr h \<longrightarrow>
      hdr_block_id h = b \<longrightarrow> r \<noteq> Inr (Some out)" by fastforce
  moreover have "\<forall>c. unat b + 64 < unat c \<longrightarrow> b \<notin> dec_completed (expire_block c d')"
    by (auto simp: expire_block_def complete_block_simps kept_by_prune_iff)
  ultimately show ?thesis using kept by blast
qed

theorem expired_block_stays_gone_witness:
  "\<exists>d' rs. run_flow crc_reference rep_codec [FlowExpire 73, FlowPush example_datagram, FlowPush example_datagram]
       (expire_block 9 decoder_new) = (d', rs) \<and>
     (\<forall>r \<in> set (tl rs). \<forall>out. r \<noteq> Inr (Some out)) \<and> dec_blocks d' 9 = None \<and> 9 \<in> dec_completed d'"
proof -
  let ?ops = "[FlowExpire 73, FlowPush example_datagram, FlowPush example_datagram]"
  have id: "hdr_block_id example_header = 9" by (simp add: example_header_def)
  have in9: "9 \<in> dec_completed (expire_block 73 (expire_block 9 decoder_new))"
    by (simp add: expire_block_def complete_block_simps kept_by_prune_iff)
  obtain d1 r1 where one: "push_datagram crc_reference rep_codec (expire_block 73 (expire_block 9 decoder_new)) example_datagram = (d1, r1)"
    by fastforce
  obtain d2 r2 where two: "push_datagram crc_reference rep_codec d1 example_datagram = (d2, r2)" by fastforce
  have run: "run_flow crc_reference rep_codec ?ops (expire_block 9 decoder_new) = (d2, [Inr None, r1, r2])"
    by (simp add: flow_step_def one two)
  have end9: "c = 9" if "ends_block (FlowPush example_datagram, r) c"
    for c and r :: "(datagram_fec_error, bytes option) result"
    using that by (cases "((FlowPush example_datagram, r), c)" rule: ends_block.cases) (auto simp: example_decodes id)
  have near: "\<forall>step \<in> set (zip ?ops [Inr None, r1, r2]). \<forall>c. ends_block step c \<longrightarrow> unat c \<le> unat (9 :: u32) + 64"
    by (auto dest: end9)
  show ?thesis
    using expired_block_stays_gone [OF run near] run by (auto simp: example_decodes id)
qed

lemma kept_window:
  assumes "kept_by_prune b c" "c \<le> b"
  shows "unat b - 64 \<le> unat c \<and> unat c \<le> unat b"
proof -
  have le: "unat c \<le> unat b" using assms(2) by (simp add: word_le_nat_alt)
  show ?thesis
  proof (cases "b < 64")
    case True
    then have "unat b < 64" by (simp add: word_less_nat_alt)
    then show ?thesis using le by simp
  next
    case False
    then have "64 \<le> b" by (simp add: not_less)
    then have "unat (b - 64) = unat b - 64" by (simp add: unat_sub)
    then show ?thesis using assms(1) le False
      by (simp add: kept_by_prune_def COMPLETED_WINDOW_def word_le_nat_alt)
  qed
qed

text \<open>
  The window of remembered blocks. Right after block \<open>b\<close> completes or expires, at most 65 ids up to
  \<open>b\<close> are retained, in flight and completed together; so a flow whose block ids do not exceed the one
  that completes keeps bounded state.
\<close>
lemma retained_ids_bounded:
  "card {c \<in> dom (dec_blocks (complete_block b d)) \<union> dec_completed (complete_block b d). c \<le> b} \<le> 65"
proof -
  let ?S = "{c \<in> dom (dec_blocks (complete_block b d)) \<union> dec_completed (complete_block b d). c \<le> b}"
  have "unat ` ?S \<subseteq> {unat b - 64..unat b}"
    using kept_window by (fastforce simp: complete_block_simps split: if_splits)
  then have "card (unat ` ?S) \<le> card {unat b - 64..unat b}"
    by (rule card_mono [rotated]) simp
  moreover have "card (unat ` ?S) = card ?S"
    by (intro card_image inj_onI) (simp add: word_unat_eq_iff)
  ultimately show ?thesis by simp
qed

definition expire_all :: "u32 list \<Rightarrow> 'd fec_decoder \<Rightarrow> 'd fec_decoder" where
  "expire_all bs d = fold expire_block bs d"

lemma expire_descending:
  "n \<le> unat (w :: u32) \<Longrightarrow>
   unat ` dec_completed (expire_all (map of_nat (rev [unat w - n..<unat w])) (decoder_new :: 'd fec_decoder))
     = {unat w - n..<unat w}"
proof (induction n)
  case 0
  then show ?case by (simp add: expire_all_def decoder_new_def)
next
  case (Suc n)
  let ?m = "unat w - Suc n"
  let ?d = "expire_all (map of_nat (rev [unat w - n..<unat w])) (decoder_new :: 'd fec_decoder)"
  have m: "Suc ?m = unat w - n" "?m < unat w" using Suc.prems by simp_all
  have b: "unat (of_nat ?m :: u32) = ?m"
  proof -
    have "unat w < 2 ^ LENGTH(32)" by (rule unsigned_less)
    then show ?thesis using m by (simp only: unat_of_nat) (simp add: take_bit_nat_eq_self)
  qed
  have list: "rev [?m..<unat w] = rev [unat w - n..<unat w] @ [?m]"
    using m by (simp add: upt_conv_Cons)
  have IH: "unat ` dec_completed ?d = {unat w - n..<unat w}" using Suc by simp
  have kept: "kept_by_prune (of_nat ?m) c" if "c \<in> dec_completed ?d \<or> c = of_nat ?m" for c
  proof -
    have c: "?m \<le> unat c" using that IH b m by (auto dest!: arg_cong [where f = "\<lambda>S. unat c \<in> S"])
    show ?thesis
    proof (cases "(of_nat ?m :: u32) < 64")
      case False
      then have "unat (of_nat ?m - 64 :: u32) = ?m - 64"
        by (simp add: not_less unat_sub b)
      moreover have "?m - 64 \<le> unat c" using c by linarith
      ultimately have "of_nat ?m - 64 \<le> c" by (simp only: word_le_nat_alt)
      then show ?thesis by (simp add: kept_by_prune_def COMPLETED_WINDOW_def)
    qed (simp add: kept_by_prune_def COMPLETED_WINDOW_def)
  qed
  have "dec_completed (expire_all (map of_nat (rev [?m..<unat w])) (decoder_new :: 'd fec_decoder)) =
      insert (of_nat ?m) (dec_completed ?d)"
    using kept by (auto simp: list expire_all_def expire_block_def complete_block_simps)
  then show ?case using IH b m by auto
qed

text \<open>
  Descending block ids are never forgotten. The pruning compares ids with the one that just
  completed, so a receiver that expires blocks in descending order keeps every one of them in its
  completed set: for any count \<open>w\<close> up to the whole id space, all \<open>w\<close> ids are retained.
\<close>
lemma descending_ids_never_pruned:
  "card (dec_completed (expire_all (map of_nat (rev [0..<unat (w :: u32)])) (decoder_new :: 'd fec_decoder))) = unat w"
proof -
  let ?C = "dec_completed (expire_all (map of_nat (rev [0..<unat w])) (decoder_new :: 'd fec_decoder))"
  have "card (unat ` ?C) = unat w" using expire_descending [of "unat w" w, where ?'d = 'd] by simp
  moreover have "card (unat ` ?C) = card ?C"
    by (intro card_image inj_onI) (simp add: word_unat_eq_iff)
  ultimately show ?thesis by simp
qed

end
