(* ===== verification/Payload_Transfer.thy ===== *)
theory Payload_Transfer
  imports Fec_Decoder
begin

text \<open>
  Encoder and decoder together: a payload split into blocks by \<open>encode_payload\<close>, sent over a link that
  loses, repeats and reorders datagrams inside each block, and pushed into a \<open>DatagramFecDecoder\<close>.
\<close>

section \<open>Blocks of a payload\<close>

definition good_chunk :: "u16 \<Rightarrow> u32 \<Rightarrow> bytes \<Rightarrow> bool" where
  "good_chunk s r c \<longleftrightarrow> block_data c s \<and> block_symbols c s + unat r \<le> 2 ^ 24"

text \<open>Arrivals, one list of (packet sequence, symbol id) for every block.\<close>

definition arrivals_ok :: "u16 \<Rightarrow> bytes \<Rightarrow> (u32 \<times> nat) list \<Rightarrow> bool" where
  "arrivals_ok s c xs \<longleftrightarrow> (\<forall>x \<in> set xs. snd x < 2 ^ 24) \<and> {0..<block_symbols c s} \<subseteq> snd ` set xs"

primrec arrivals ::
    "crc_fun \<Rightarrow> ('e, 'd) raptorq \<Rightarrow> u16 \<Rightarrow> u32 \<Rightarrow> (bytes \<times> (u32 \<times> nat) list) list \<Rightarrow> bytes list" where
  "arrivals crc rq s b [] = []"
| "arrivals crc rq s b (x # xs) =
     map (sent crc rq b (fst x) s) (snd x) @ arrivals crc rq s (b + 1) xs"

definition unknown_from :: "'d fec_decoder \<Rightarrow> u32 \<Rightarrow> nat \<Rightarrow> bool" where
  "unknown_from d b n \<longleftrightarrow>
     (\<forall>j < n. b + of_nat j \<notin> dec_completed d \<and> dec_blocks d (b + of_nat j) = None)"

lemma unknown_from_step:
  assumes "unknown_from d b (Suc n)" "Suc n \<le> 2 ^ 32"
    and "dec_completed d' \<subseteq> insert b (dec_completed d)"
    and "dom (dec_blocks d') \<subseteq> insert b (dom (dec_blocks d))"
  shows "unknown_from d' (b + 1) n"
proof -
  have "b + 1 + of_nat j \<notin> dec_completed d' \<and> dec_blocks d' (b + 1 + of_nat j) = None" if "j < n" for j
  proof -
    have "(of_nat (Suc j) :: u32) \<noteq> 0"
    proof
      assume "(of_nat (Suc j) :: u32) = 0"
      then have "unat (of_nat (Suc j) :: u32) = 0" by simp
      moreover have "unat (of_nat (Suc j) :: u32) = Suc j"
        using that assms(2) by (simp add: unat_of_nat take_bit_nat_eq_self del: of_nat_Suc)
      ultimately show False by simp
    qed
    then have ne: "b + of_nat (Suc j) \<noteq> b" by simp
    have un: "b + of_nat (Suc j) \<notin> dec_completed d" "dec_blocks d (b + of_nat (Suc j)) = None"
      using assms(1) that unfolding unknown_from_def by blast+
    have eq: "b + 1 + of_nat j = b + of_nat (Suc j)" by (simp add: add.assoc)
    show ?thesis unfolding eq using ne un assms(3,4) by blast
  qed
  then show ?thesis by (simp add: unknown_from_def)
qed

lemma arrivals_delivered:
  assumes lawful: "rq_lawful rq"
    and good: "\<forall>x \<in> set xs. block_data (fst x) s \<and> arrivals_ok s (fst x) (snd x)"
    and len: "length xs \<le> 2 ^ 32" and un: "unknown_from d b (length xs)"
    and push: "push_all crc rq d (arrivals crc rq s b xs) = (d', rs)"
  shows "all_ok rs \<and> delivered rs = map fst xs"
  using good len un push
proof (induction xs arbitrary: d d' rs b)
  case (Cons x xs)
  obtain d1 r1 where one: "push_all crc rq d (map (sent crc rq b (fst x) s) (snd x)) = (d1, r1)" by fastforce
  obtain d2 r2 where two: "push_all crc rq d1 (arrivals crc rq s (b + 1) xs) = (d2, r2)" by fastforce
  have rs: "rs = r1 @ r2" using Cons.prems(4) one two by (simp add: push_all_append)
  have bd: "block_data (fst x) s" and ids: "\<forall>y \<in> set (snd x). snd y < 2 ^ 24"
    and src: "{0..<block_symbols (fst x) s} \<subseteq> set (map snd (snd x))"
    using Cons.prems(1) by (auto simp: arrivals_ok_def)
  have new: "b \<notin> dec_completed d" "dec_blocks d b = None"
    using Cons.prems(3) by (auto simp: unknown_from_def dest!: spec [of _ 0])
  have cur: "current_decoder rq d b (fst x) s = block_decoder rq (length (fst x)) s"
    by (simp add: current_decoder_def new)
  have run: "codec_run rq (block_decoder rq (length (fst x)) s)
      (map (block_packet rq (fst x) s) (map snd (snd x))) = Some (fst x)"
    using codec_run_once(2) [OF lawful bd _ src] ids by auto
  have st: "all_ok r1 \<and> delivered r1 = [fst x] \<and> dec_completed d1 \<subseteq> insert b (dec_completed d) \<and>
      dom (dec_blocks d1) \<subseteq> insert b (dom (dec_blocks d))"
    using block_stream [OF lawful bd ids _ new(1) one refl] run by (simp add: new cur)
  then have "unknown_from d1 (b + 1) (length xs)"
    using unknown_from_step [of d b "length xs" d1] Cons.prems(2,3) by simp
  then have "all_ok r2 \<and> delivered r2 = map fst xs"
    using Cons.IH [OF _ _ _ two] Cons.prems(1,2) by simp
  then show ?case using st rs by simp
qed simp

section \<open>What \<open>encode_payload\<close> sends\<close>

primrec chunk_frames ::
    "crc_fun \<Rightarrow> ('e, 'd) raptorq \<Rightarrow> u16 \<Rightarrow> u32 \<Rightarrow> u32 \<Rightarrow> u32 \<Rightarrow> bytes list \<Rightarrow> bytes list" where
  "chunk_frames crc rq s r b seq [] = []"
| "chunk_frames crc rq s r b seq (c # cs) =
     block_frames crc rq b seq c s [0..<block_symbols c s + unat r] @
     chunk_frames crc rq s r (b + 1) (seq + of_nat (block_symbols c s + unat r)) cs"

lemma encode_chunks_lawful:
  assumes lawful: "rq_lawful rq"
    and good: "\<forall>c \<in> set cs. good_chunk (cfg_symbol_size (enc_config e)) (cfg_repair_symbols (enc_config e)) c"
  shows "\<exists>e'. drop_pool (encode_chunks crc rq e pool cs) = (e',
    Inr (chunk_frames crc rq (cfg_symbol_size (enc_config e)) (cfg_repair_symbols (enc_config e))
           (enc_block_id e) (enc_packet_sequence e) cs))"
  using good
proof (induction cs arbitrary: e pool)
  case (Cons c cs)
  let ?r = "cfg_repair_symbols (enc_config e)" and ?s = "cfg_symbol_size (enc_config e)"
  obtain e1 p1 r1 where one: "encode_one_block_with_optional_pool crc rq e c ?r pool = (e1, p1, r1)"
    by (cases "encode_one_block_with_optional_pool crc rq e c ?r pool") auto
  have bd: "block_data c ?s" "block_symbols c ?s + unat ?r \<le> 2 ^ 24"
    using Cons.prems by (auto simp: good_chunk_def)
  have e1: "e1 = e\<lparr>enc_block_id := enc_block_id e + 1,
       enc_packet_sequence := enc_packet_sequence e + of_nat (block_symbols c ?s + unat ?r)\<rparr>"
    and r1: "r1 = Inr (block_frames crc rq (enc_block_id e) (enc_packet_sequence e) c ?s
       [0..<block_symbols c ?s + unat ?r])"
    using encode_one_block_lawful [OF lawful bd, of crc pool] one by (simp_all add: drop_pool_eq)
  obtain e2 where "drop_pool (encode_chunks crc rq e1 p1 cs) = (e2,
      Inr (chunk_frames crc rq ?s ?r (enc_block_id e1) (enc_packet_sequence e1) cs))"
    using Cons.IH [of e1 p1] Cons.prems by (auto simp: e1)
  then show ?case
    using one r1 by (auto simp: drop_pool_eq e1 split: prod.splits)
qed (simp add: drop_pool_eq)

text \<open>The lossless, ordered link is one of the links above.\<close>

primrec in_order :: "u16 \<Rightarrow> u32 \<Rightarrow> u32 \<Rightarrow> bytes list \<Rightarrow> (bytes \<times> (u32 \<times> nat) list) list" where
  "in_order s r seq [] = []"
| "in_order s r seq (c # cs) =
     (c, map (\<lambda>j. (seq + of_nat j, j)) [0..<block_symbols c s + unat r]) #
     in_order s r (seq + of_nat (block_symbols c s + unat r)) cs"

lemma in_order_chunks [simp]: "map fst (in_order s r seq cs) = cs" "length (in_order s r seq cs) = length cs"
  by (induction cs arbitrary: seq) simp_all

lemma chunk_frames_arrivals:
  "chunk_frames crc rq s r b seq cs = arrivals crc rq s b (in_order s r seq cs)"
  by (induction cs arbitrary: b seq) (simp_all add: block_frames_sent)

lemma in_order_good:
  "\<forall>c \<in> set cs. good_chunk s r c \<Longrightarrow> x \<in> set (in_order s r seq cs) \<Longrightarrow>
   block_data (fst x) s \<and> arrivals_ok s (fst x) (snd x)"
  by (induction cs arbitrary: seq) (auto simp: good_chunk_def arrivals_ok_def image_image)

section \<open>End to end\<close>

text \<open>An encoder whose configuration the one-block geometry admits, and a payload it may carry.\<close>

definition sendable :: "fec_encoder \<Rightarrow> bytes \<Rightarrow> bool" where
  "sendable e data \<longleftrightarrow>
     0 < unat (cfg_symbol_size (enc_config e)) \<and> 0 < unat (cfg_source_symbols (enc_config e)) \<and>
     unat (cfg_source_symbols (enc_config e)) \<le> 56403 \<and>
     unat (cfg_source_symbols (enc_config e)) + unat (cfg_repair_symbols (enc_config e)) \<le> 2 ^ 24 \<and>
     data \<noteq> [] \<and> length data \<le> U32_MAX"

abbreviation payload_chunks :: "fec_encoder \<Rightarrow> bytes \<Rightarrow> bytes list" where
  "payload_chunks e data \<equiv> chunks (max_payload_len (enc_config e)) data"

lemma max_payload_len_sendable:
  assumes "sendable e data"
  shows "max_payload_len (enc_config e) =
      unat (cfg_source_symbols (enc_config e)) * unat (cfg_symbol_size (enc_config e))"
    "0 < max_payload_len (enc_config e)"
  using assms by (simp_all add: sendable_def max_payload_len_def max_symbol_size)

lemma sendable_chunks:
  assumes "sendable e data"
  shows "\<forall>c \<in> set (payload_chunks e data).
    good_chunk (cfg_symbol_size (enc_config e)) (cfg_repair_symbols (enc_config e)) c"
proof
  fix c assume c: "c \<in> set (payload_chunks e data)"
  let ?s = "unat (cfg_symbol_size (enc_config e))" and ?k = "unat (cfg_source_symbols (enc_config e))"
  have "c \<noteq> []" "length c \<le> ?k * ?s"
    using chunk_bounds [OF c] by (simp_all add: max_payload_len_sendable [OF assms])
  moreover have "length c \<le> length data"
  proof -
    have "length c \<le> length (concat (payload_chunks e data))"
      using c by (auto simp: length_concat intro!: member_le_sum_list)
    then show ?thesis using max_payload_len_sendable(2) [OF assms] by (simp add: concat_chunks)
  qed
  ultimately show "good_chunk (cfg_symbol_size (enc_config e)) (cfg_repair_symbols (enc_config e)) c"
    using assms div_ceil_le_iff [of ?s "length c" ?k]
    by (auto simp: good_chunk_def block_data_def block_symbols_def sendable_def)
qed

lemma encode_payload_lawful:
  assumes "rq_lawful rq" "sendable e data"
  shows "\<exists>e'. encode_payload crc rq e data = (e', Inr (arrivals crc rq (cfg_symbol_size (enc_config e))
      (enc_block_id e) (in_order (cfg_symbol_size (enc_config e)) (cfg_repair_symbols (enc_config e))
        (enc_packet_sequence e) (payload_chunks e data))))"
proof -
  let ?c = "payload_chunks e data"
  have n: "max (max_payload_len (enc_config e)) (Suc 0) = max_payload_len (enc_config e)"
    using max_payload_len_sendable(2) [OF assms(2)] by simp
  obtain e' where "drop_pool (encode_chunks crc rq e None ?c) = (e',
      Inr (chunk_frames crc rq (cfg_symbol_size (enc_config e)) (cfg_repair_symbols (enc_config e))
        (enc_block_id e) (enc_packet_sequence e) ?c))"
    using encode_chunks_lawful [OF assms(1) sendable_chunks [OF assms(2)]] by blast
  then obtain p where "encode_chunks crc rq e None ?c = (e', p,
      Inr (chunk_frames crc rq (cfg_symbol_size (enc_config e)) (cfg_repair_symbols (enc_config e))
        (enc_block_id e) (enc_packet_sequence e) ?c))"
    by (cases "encode_chunks crc rq e None ?c") (simp add: drop_pool_eq)
  moreover have "data \<noteq> []" "\<not> length data > U32_MAX"
    using assms(2) by (auto simp: sendable_def)
  ultimately show ?thesis
    by (simp add: encode_payload_def encode_payload_with_pool_def n drop_pool_eq chunk_frames_arrivals)
qed

lemma list_all2_fst:
  "list_all2 R xs ys \<Longrightarrow> (\<And>x y. R x y \<Longrightarrow> fst x = fst y) \<Longrightarrow> map fst xs = map fst ys"
  by (induction rule: list_all2_induct) auto

lemma list_all2_partner: "list_all2 R xs ys \<Longrightarrow> x \<in> set xs \<Longrightarrow> \<exists>y \<in> set ys. R x y"
  by (induction rule: list_all2_induct) auto

lemma payload_chunk_count:
  assumes "sendable e data"
  shows "length (payload_chunks e data) \<le> 2 ^ 32"
proof -
  have pos: "0 < max_payload_len (enc_config e)" by (rule max_payload_len_sendable(2) [OF assms])
  then have "length (payload_chunks e data) = div_ceil (length data) (max_payload_len (enc_config e))"
    by (rule length_chunks)
  also have "\<dots> \<le> length data"
    using pos by (simp add: div_ceil_le_iff)
  also have "\<dots> \<le> 2 ^ 32" using assms by (simp add: sendable_def U32_MAX_def)
  finally show ?thesis .
qed

lemma unknown_new: "unknown_from decoder_new b n"
  by (simp add: unknown_from_def decoder_new_def)

text \<open>What reaches the receiver of the chunks of a payload: of each block some packets, all source packets among them.\<close>

definition survivors :: "u16 \<Rightarrow> (bytes \<times> (u32 \<times> nat) list) list \<Rightarrow> (bytes \<times> (u32 \<times> nat) list) list \<Rightarrow> bool" where
  "survivors s got sent_blocks \<longleftrightarrow>
     list_all2 (\<lambda>got sent_block. fst got = fst sent_block \<and> set (snd got) \<subseteq> set (snd sent_block) \<and>
       {0..<block_symbols (fst got) s} \<subseteq> snd ` set (snd got)) got sent_blocks"

lemma survivors_good:
  assumes "sendable e data"
    and "survivors (cfg_symbol_size (enc_config e)) xs
         (in_order (cfg_symbol_size (enc_config e)) (cfg_repair_symbols (enc_config e))
            (enc_packet_sequence e) (payload_chunks e data))"
  shows "map fst xs = payload_chunks e data"
    and "\<forall>x \<in> set xs. block_data (fst x) (cfg_symbol_size (enc_config e)) \<and>
      arrivals_ok (cfg_symbol_size (enc_config e)) (fst x) (snd x)"
proof -
  let ?s = "cfg_symbol_size (enc_config e)"
  let ?sent = "in_order ?s (cfg_repair_symbols (enc_config e)) (enc_packet_sequence e) (payload_chunks e data)"
  note surv = assms(2) [unfolded survivors_def]
  show "map fst xs = payload_chunks e data"
    using list_all2_fst [OF surv] by simp
  show "\<forall>x \<in> set xs. block_data (fst x) ?s \<and> arrivals_ok ?s (fst x) (snd x)"
  proof
    fix x assume "x \<in> set xs"
    then obtain y where y: "y \<in> set ?sent" and rel: "fst x = fst y" "set (snd x) \<subseteq> set (snd y)"
        "{0..<block_symbols (fst x) ?s} \<subseteq> snd ` set (snd x)"
      using list_all2_partner [OF surv] by blast
    show "block_data (fst x) ?s \<and> arrivals_ok ?s (fst x) (snd x)"
      using in_order_good [OF sendable_chunks [OF assms(1)] y] rel by (auto simp: arrivals_ok_def)
  qed
qed

lemma payload_delivered:
  assumes "rq_lawful rq" "sendable e data"
    and "survivors (cfg_symbol_size (enc_config e)) xs
         (in_order (cfg_symbol_size (enc_config e)) (cfg_repair_symbols (enc_config e))
            (enc_packet_sequence e) (payload_chunks e data))"
    and "push_all crc rq decoder_new (arrivals crc rq (cfg_symbol_size (enc_config e)) (enc_block_id e) xs) = (d', rs)"
  shows "all_ok rs \<and> delivered rs = payload_chunks e data"
proof -
  note good = survivors_good [OF assms(2,3)]
  have len: "length xs \<le> 2 ^ 32"
    using payload_chunk_count [OF assms(2)] good(1) by (metis length_map)
  show ?thesis
    using arrivals_delivered [OF assms(1) good(2) len unknown_new assms(4)] by (simp add: good(1))
qed

lemma concat_payload_chunks: "sendable e data \<Longrightarrow> concat (payload_chunks e data) = data"
  using max_payload_len_sendable(2) by (simp add: concat_chunks)

lemma length_arrivals:
  assumes "rq_lawful rq" "\<forall>x \<in> set xs. block_data (fst x) s \<and> arrivals_ok s (fst x) (snd x)"
    and "d \<in> set (arrivals crc rq s b xs)"
  shows "length d = HEADER_LEN + ENCODING_PACKET_HEADER_LEN + unat s"
  using assms(2,3)
proof (induction xs arbitrary: b)
  case (Cons x xs)
  have "length (sent crc rq b (fst x) s y) = HEADER_LEN + ENCODING_PACKET_HEADER_LEN + unat s"
    if "y \<in> set (snd x)" for y
    using that Cons.prems(1) lawful_serialize(2) [OF assms(1), of "fst x" s "snd y"]
    by (auto simp: sent_def frame_def arrivals_ok_def HEADER_LEN_def ENCODING_PACKET_HEADER_LEN_def)
  then show ?case using Cons by auto
qed simp

text \<open>
  C4. A payload survives loss. The datagrams of \<open>encode_payload\<close> are those of the payload's chunks, one
  block after the other. Let every block's datagrams arrive in any order, repeated or missing, as
  long as each source packet of the block arrives at least once. Pushing what arrives into a fresh
  decoder never fails, and the delivered blocks, concatenated, are the payload.
\<close>
theorem payload_survives_loss:
  assumes "rq_lawful rq" "sendable e data"
    and "survivors (cfg_symbol_size (enc_config e)) xs
         (in_order (cfg_symbol_size (enc_config e)) (cfg_repair_symbols (enc_config e))
            (enc_packet_sequence e) (payload_chunks e data))"
    and "push_all crc rq decoder_new (arrivals crc rq (cfg_symbol_size (enc_config e)) (enc_block_id e) xs) = (d', rs)"
  shows "(\<exists>e'. encode_payload crc rq e data = (e', Inr (arrivals crc rq (cfg_symbol_size (enc_config e))
      (enc_block_id e) (in_order (cfg_symbol_size (enc_config e)) (cfg_repair_symbols (enc_config e))
        (enc_packet_sequence e) (payload_chunks e data))))) \<and>
    all_ok rs \<and> concat (delivered rs) = data"
  using encode_payload_lawful [OF assms(1,2)] payload_delivered [OF assms]
    concat_payload_chunks [OF assms(2)] by auto

text \<open>
  Payload round trip. Encoding a payload that the configuration admits succeeds, and pushing the
  datagrams in order into a fresh decoder never fails and delivers the payload's blocks, each once
  and in order.
\<close>
lemma payload_round_trip:
  assumes "rq_lawful rq" "sendable e data"
  shows "\<exists>e' ds d' rs. encode_payload crc rq e data = (e', Inr ds) \<and>
    push_all crc rq decoder_new ds = (d', rs) \<and> all_ok rs \<and>
    delivered rs = payload_chunks e data \<and> concat (delivered rs) = data"
proof -
  let ?s = "cfg_symbol_size (enc_config e)"
  let ?sent = "in_order ?s (cfg_repair_symbols (enc_config e)) (enc_packet_sequence e) (payload_chunks e data)"
  obtain e' where enc: "encode_payload crc rq e data = (e', Inr (arrivals crc rq ?s (enc_block_id e) ?sent))"
    using encode_payload_lawful [OF assms] by blast
  obtain d' rs where push: "push_all crc rq decoder_new (arrivals crc rq ?s (enc_block_id e) ?sent) = (d', rs)"
    by fastforce
  have good: "\<forall>x \<in> set ?sent. block_data (fst x) ?s \<and> arrivals_ok ?s (fst x) (snd x)"
    using in_order_good [OF sendable_chunks [OF assms(2)]] by blast
  have "all_ok rs \<and> delivered rs = map fst ?sent"
    using payload_chunk_count [OF assms(2)]
    by (intro arrivals_delivered [OF assms(1) good _ unknown_new push]) simp
  then show ?thesis
    using enc push max_payload_len_sendable(2) [OF assms(2)] by (auto simp: concat_chunks)
qed

lemma small_sendable: "sendable small_encoder [1, 2, 3]"
  by (simp add: sendable_def small_encoder_def U32_MAX_def)

theorem payload_round_trip_witness:
  "\<exists>e' ds d' rs. encode_payload crc_reference rep_codec small_encoder [1, 2, 3] = (e', Inr ds) \<and>
     push_all crc_reference rep_codec decoder_new ds = (d', rs) \<and> concat (delivered rs) = [1, 2, 3]"
  using payload_round_trip [OF rep_codec_lawful small_sendable, of crc_reference] by blast

lemma small_chunks: "payload_chunks small_encoder [1, 2, 3] = [[1, 2, 3]]"
  by (simp add: small_encoder_def max_payload_len_def chunks.simps)

lemma small_survivors:
  "survivors 2 [([1, 2, 3], [(6, 1), (7, 2), (5, 0), (6, 1)])] (in_order 2 1 5 (payload_chunks small_encoder [1, 2, 3]))"
  unfolding small_chunks survivors_def
  by (auto simp: small_block less_Suc_eq numeral_2_eq_2 upt_conv_Cons)

theorem payload_survives_loss_witness:
  "\<exists>d' rs. push_all crc_reference rep_codec decoder_new
       (arrivals crc_reference rep_codec 2 9 [([1, 2, 3], [(6, 1), (7, 2), (5, 0), (6, 1)])]) = (d', rs) \<and>
     concat (delivered rs) = [1, 2, 3]"
proof -
  let ?xs = "[([1, 2, 3], [(6, 1), (7, 2), (5, 0), (6, 1)])] :: (bytes \<times> (u32 \<times> nat) list) list"
  obtain d' rs where push: "push_all crc_reference rep_codec decoder_new
      (arrivals crc_reference rep_codec 2 9 ?xs) = (d', rs)" by fastforce
  show ?thesis
    using small_survivors payload_survives_loss [OF rep_codec_lawful small_sendable, of ?xs crc_reference d' rs] push
    by (auto simp: small_encoder_def)
qed

end
