(* ===== verification/Interleaving.thy ===== *)
theory Interleaving
  imports Payload_Transfer
begin

text \<open>
  Several blocks of one flow in flight at the same time: the datagrams of different blocks arrive
  interleaved, and every block behaves as if it were alone on the link, as long as the block ids lie in
  one pruning window of \<^verbatim>\<open>DatagramFecDecoder\<close>.
\<close>

section \<open>Interleaved blocks\<close>

text \<open>A datagram on the link: its block id, its packet sequence and its symbol id.\<close>

type_synonym link_item = "u32 \<times> u32 \<times> nat"

definition send_item ::
    "crc_fun \<Rightarrow> ('e, 'd) raptorq \<Rightarrow> (u32 \<Rightarrow> bytes) \<Rightarrow> u16 \<Rightarrow> link_item \<Rightarrow> bytes" where
  "send_item crc rq data s x = sent crc rq (fst x) (data (fst x)) s (snd x)"

definition items_of :: "u32 \<Rightarrow> link_item list \<Rightarrow> (u32 \<times> nat) list" where
  "items_of b xs = map snd (filter (\<lambda>x. fst x = b) xs)"

definition results_of :: "u32 \<Rightarrow> link_item list \<Rightarrow> 'r list \<Rightarrow> 'r list" where
  "results_of b xs rs = map snd (filter (\<lambda>y. fst (fst y) = b) (zip xs rs))"

lemma items_of_simps [simp]:
  "items_of b [] = []" "items_of b (x # xs) = (if fst x = b then snd x # items_of b xs else items_of b xs)"
  by (simp_all add: items_of_def)

lemma results_of_simps [simp]:
  "results_of b [] rs = []"
  "results_of b (x # xs) (r # rs) = (if fst x = b then r # results_of b xs rs else results_of b xs rs)"
  by (simp_all add: results_of_def)

text \<open>Block ids so close together that completing one prunes none of the others.\<close>

definition window :: "u32 set \<Rightarrow> bool" where
  "window B \<longleftrightarrow> (\<forall>b \<in> B. \<forall>c \<in> B. kept_by_prune b c)"

definition known_blocks_match :: "(u32 \<Rightarrow> bytes) \<Rightarrow> u16 \<Rightarrow> u32 set \<Rightarrow> 'd fec_decoder \<Rightarrow> bool" where
  "known_blocks_match data s B d \<longleftrightarrow>
     (\<forall>b \<in> B. \<forall>bs. dec_blocks d b = Some bs \<longrightarrow> matching_block (data b) s bs)"

text \<open>What the codec alone makes of the packets of one block.\<close>

definition block_outcome ::
    "('e, 'd) raptorq \<Rightarrow> (u32 \<Rightarrow> bytes) \<Rightarrow> u16 \<Rightarrow> 'd fec_decoder \<Rightarrow> u32 \<Rightarrow> (u32 \<times> nat) list \<Rightarrow> bytes list" where
  "block_outcome rq data s d b xs =
     (if b \<in> dec_completed d then []
      else case codec_run rq (current_decoder rq d b (data b) s)
                  (map (block_packet rq (data b) s) (map snd xs)) of
             None \<Rightarrow> [] | Some out \<Rightarrow> [out])"

lemma push_item:
  assumes lawful: "rq_lawful rq" and w: "window B" and bd: "\<forall>b \<in> B. block_data (data b) s"
    and x: "fst x \<in> B" "snd (snd x) < 2 ^ 24" and match: "known_blocks_match data s B d"
    and push: "push_datagram crc rq d (send_item crc rq data s x) = (d1, r)"
  shows "is_ok r" "known_blocks_match data s B d1"
    "\<forall>c \<in> B. c \<noteq> fst x \<longrightarrow> block_outcome rq data s d1 c ys = block_outcome rq data s d c ys"
    "block_outcome rq data s d (fst x) (snd x # ys) =
     delivered [r] @ block_outcome rq data s d1 (fst x) ys"
proof -
  obtain b q i where xq: "x = (b, q, i)" by (cases x) auto
  have b: "b \<in> B" "i < 2 ^ 24" "block_data (data b) s" using x bd by (simp_all add: xq)
  have m: "\<forall>bs. dec_blocks d b = Some bs \<longrightarrow> matching_block (data b) s bs"
    using match b(1) by (simp add: known_blocks_match_def)
  obtain dec out where out: "rq_decode rq (current_decoder rq d b (data b) s) (block_packet rq (data b) s i) = (dec, out)"
    by fastforce
  have one: "push_datagram crc rq d (sent crc rq b (data b) s (q, i)) = (d1, r)"
    using push by (simp add: send_item_def xq)
  note st = push_sent(2,3) [OF lawful b(3,2) m out one]
  have kept: "kept_by_prune b c" if "c \<in> B" for c using w that b(1) by (simp add: window_def)
  have all: "is_ok r \<and> known_blocks_match data s B d1 \<and>
      (\<forall>c \<in> B. c \<noteq> b \<longrightarrow> block_outcome rq data s d1 c ys = block_outcome rq data s d c ys) \<and>
      block_outcome rq data s d b ((q, i) # ys) = delivered [r] @ block_outcome rq data s d1 b ys"
  proof (cases "b \<in> dec_completed d")
    case True
    then show ?thesis using st(1) match
      by (auto simp: known_blocks_match_def block_outcome_def current_decoder_def is_ok_def)
  next
    case False
    note st' = st(2) [OF False]
    show ?thesis
    proof (cases out)
      case None
      then show ?thesis using st' match False out
        by (auto simp: known_blocks_match_def block_outcome_def current_decoder_def is_ok_def split: if_splits)
    next
      case (Some z)
      then show ?thesis using st' match False out kept kept_self [of b] m
        by (auto simp: known_blocks_match_def block_outcome_def current_decoder_def is_ok_def)
    qed
  qed
  show "is_ok r" "known_blocks_match data s B d1"
    "\<forall>c \<in> B. c \<noteq> fst x \<longrightarrow> block_outcome rq data s d1 c ys = block_outcome rq data s d c ys"
    "block_outcome rq data s d (fst x) (snd x # ys) =
     delivered [r] @ block_outcome rq data s d1 (fst x) ys"
    using all by (simp_all add: xq)
qed

lemma interleaved_stream:
  assumes lawful: "rq_lawful rq" and w: "window B" and bd: "\<forall>b \<in> B. block_data (data b) s"
    and xs: "\<forall>x \<in> set xs. fst x \<in> B \<and> snd (snd x) < 2 ^ 24" and match: "known_blocks_match data s B d"
    and push: "push_all crc rq d (map (send_item crc rq data s) xs) = (d', rs)"
  shows "all_ok rs \<and> length rs = length xs \<and>
    (\<forall>b \<in> B. delivered (results_of b xs rs) = block_outcome rq data s d b (items_of b xs))"
  using xs match push
proof (induction xs arbitrary: d d' rs)
  case Nil
  then show ?case by (auto simp: block_outcome_def)
next
  case (Cons x xs)
  obtain d1 r where one: "push_datagram crc rq d (send_item crc rq data s x) = (d1, r)" by fastforce
  obtain d2 qs where rest: "push_all crc rq d1 (map (send_item crc rq data s) xs) = (d2, qs)" by fastforce
  have rs: "rs = r # qs" using Cons.prems(3) one rest by auto
  have x: "fst x \<in> B" "snd (snd x) < 2 ^ 24" using Cons.prems(1) by simp_all
  note st = push_item [OF lawful w bd x Cons.prems(2) one]
  have IH: "all_ok qs \<and> length qs = length xs \<and>
      (\<forall>b \<in> B. delivered (results_of b xs qs) = block_outcome rq data s d1 b (items_of b xs))"
    by (rule Cons.IH [OF _ st(2) rest]) (use Cons.prems(1) in simp)
  have "delivered (results_of b (x # xs) (r # qs)) = block_outcome rq data s d b (items_of b (x # xs))"
    if b: "b \<in> B" for b
  proof (cases "fst x = b")
    case True
    then show ?thesis using IH b st(4) [of "items_of b xs"] by (simp split: sum.splits option.splits)
  next
    case False
    then show ?thesis using IH b st(3) by auto
  qed
  then show ?case using IH st(1) rs by simp
qed

lemma delivered_by_block:
  "finite B \<Longrightarrow> length rs = length xs \<Longrightarrow> \<forall>x \<in> set xs. fst x \<in> B \<Longrightarrow>
   mset (delivered rs) = (\<Sum>b \<in> B. mset (delivered (results_of b xs rs)))"
proof (induction xs arbitrary: rs)
  case (Cons x xs)
  obtain r qs where rs: "rs = r # qs" using Cons.prems(2) by (cases rs) auto
  have IH: "mset (delivered qs) = (\<Sum>b \<in> B. mset (delivered (results_of b xs qs)))"
    using Cons rs by simp
  have "mset (delivered (results_of b (x # xs) (r # qs))) =
      (if fst x = b then mset (delivered [r]) else {#}) + mset (delivered (results_of b xs qs))" for b
    by (auto split: sum.splits option.splits)
  then have "(\<Sum>b \<in> B. mset (delivered (results_of b (x # xs) (r # qs)))) =
      mset (delivered [r]) + (\<Sum>b \<in> B. mset (delivered (results_of b xs qs)))"
    using Cons.prems(1,3) by (simp add: sum.distrib sum.delta del: delivered.simps results_of_simps)
  then show ?case using IH rs by (auto split: sum.splits option.splits)
qed simp

text \<open>
  C9. Blocks in flight do not disturb each other. Let the datagrams of several blocks, whose ids lie in
  one pruning window, arrive interleaved in any order, lost and repeated. No push fails, and each
  block delivers exactly what the codec alone makes of its own packets, in their order of arrival: the
  outcome of a block does not depend on the traffic of the others.
\<close>
theorem blocks_are_independent:
  assumes "rq_lawful rq" "window B" "\<forall>b \<in> B. block_data (data b) s"
    and "\<forall>x \<in> set xs. fst x \<in> B \<and> snd (snd x) < 2 ^ 24"
    and "\<forall>b \<in> B. dec_blocks d b = None \<and> b \<notin> dec_completed d"
    and "push_all crc rq d (map (send_item crc rq data s) xs) = (d', rs)"
  shows "all_ok rs \<and> length rs = length xs \<and>
    (\<forall>b \<in> B. delivered (results_of b xs rs) =
       (case codec_run rq (block_decoder rq (length (data b)) s)
          (map (block_packet rq (data b) s) (map snd (items_of b xs))) of None \<Rightarrow> [] | Some out \<Rightarrow> [out]))"
proof -
  have "known_blocks_match data s B d" using assms(5) by (simp add: known_blocks_match_def)
  from interleaved_stream [OF assms(1-4) this assms(6)] show ?thesis
    using assms(5) by (simp add: block_outcome_def current_decoder_def)
qed

theorem blocks_are_independent_witness:
  "\<exists>d' rs. push_all crc_reference rep_codec decoder_new
       (map (send_item crc_reference rep_codec (\<lambda>_. [1, 2, 3]) 2) [(9, 7, 1), (8, 3, 1), (9, 6, 0)]) = (d', rs) \<and>
     all_ok rs \<and> length rs = 3"
proof -
  let ?xs = "[(9, 7, 1), (8, 3, 1), (9, 6, 0)] :: link_item list"
  obtain d' rs where push: "push_all crc_reference rep_codec decoder_new
      (map (send_item crc_reference rep_codec (\<lambda>_. [1, 2, 3]) 2) ?xs) = (d', rs)" by fastforce
  have "window {8, 9}" by (simp add: window_def kept_by_prune_def COMPLETED_WINDOW_def)
  from blocks_are_independent [OF rep_codec_lawful this _ _ _ push] push show ?thesis
    by (auto simp: small_block decoder_new_def)
qed

lemma interleaved_delivery:
  assumes "rq_lawful rq" "window B" "finite B" "\<forall>b \<in> B. block_data (data b) s"
    and "\<forall>x \<in> set xs. fst x \<in> B \<and> snd (snd x) < 2 ^ 24"
    and "\<forall>b \<in> B. dec_blocks d b = None \<and> b \<notin> dec_completed d"
    and full: "\<forall>b \<in> B. {0..<block_symbols (data b) s} \<subseteq> snd ` set (items_of b xs)"
    and "push_all crc rq d (map (send_item crc rq data s) xs) = (d', rs)"
  shows "all_ok rs \<and> mset (delivered rs) = image_mset data (mset_set B)"
proof -
  have "known_blocks_match data s B d" using assms(6) by (simp add: known_blocks_match_def)
  note st = interleaved_stream [OF assms(1,2,4,5) this assms(8)]
  have "delivered (results_of b xs rs) = [data b]" if b: "b \<in> B" for b
  proof -
    have ids: "\<forall>i \<in> set (map snd (items_of b xs)). i < 2 ^ 24"
      using assms(5) by (auto simp: items_of_def)
    have "codec_run rq (block_decoder rq (length (data b)) s)
        (map (block_packet rq (data b) s) (map snd (items_of b xs))) = Some (data b)"
      by (rule codec_run_once(2) [OF assms(1) _ ids]) (use assms(4) full b in auto)
    then show ?thesis using st b assms(6) by (simp add: block_outcome_def current_decoder_def)
  qed
  then have "mset (delivered rs) = (\<Sum>b \<in> B. {#data b#})"
    using delivered_by_block [OF assms(3), of rs xs] st assms(5) by simp
  also have "\<dots> = image_mset data (mset_set B)"
    using assms(3) by (induction B) auto
  finally show ?thesis using st by simp
qed

lemma window_interval:
  assumes "unat b + n \<le> 2 ^ 32" "n \<le> 65"
  shows "window {b + of_nat j |j. j < n}" "inj_on (\<lambda>j. b + of_nat j) {..<n}"
    "\<And>j. j < n \<Longrightarrow> unat (b + of_nat j) = unat b + j"
proof -
  show val: "unat (b + of_nat j) = unat b + j" if "j < n" for j
  proof -
    have "unat (of_nat j :: u32) = j" using that assms(2) by (simp add: unat_of_nat take_bit_nat_eq_self)
    then show ?thesis using that assms(1) by (subst unat_add_lem [THEN iffD1]) simp_all
  qed
  show "inj_on (\<lambda>j. b + of_nat j) {..<n}"
    by (rule inj_onI) (metis val add_left_cancel lessThan_iff)
  have "kept_by_prune x c" if x: "unat b \<le> unat x" "unat x < unat b + n" and c: "unat b \<le> unat c" for x c
  proof (cases "x < 64")
    case False
    then have "64 \<le> x" by (simp add: not_less)
    then have "unat (x - 64) = unat x - 64" by (simp add: unat_sub)
    also have "\<dots> \<le> unat c" using x c assms(2) by linarith
    finally show ?thesis by (simp add: kept_by_prune_def COMPLETED_WINDOW_def word_le_nat_alt)
  qed (simp add: kept_by_prune_def COMPLETED_WINDOW_def)
  then show "window {b + of_nat j |j. j < n}"
    using val by (auto simp: window_def)
qed

end
