(* ===== verification/Media.thy ===== *)
theory Media
  imports Media_Wire Interleaving
begin

text \<open>
  \<^verbatim>\<open>media.rs\<close>, lines 276 to 758: access units split into fragments, one FEC block per fragment, the send
  plans over the resulting datagrams, and the decoder that reassembles fragments into access units.
\<close>

section \<open>Blocks, roles and plans\<close>

datatype datagram_role = SourceRole | RepairRole
datatype datagram_order = EncodedOrder | SourceFirst

record media_block =
  mb_block_id :: u32
  mb_fragment_index :: u16
  mb_source_symbols :: u16
  mb_repair_symbols :: u32
  mb_first_index :: nat
  mb_datagram_count :: nat
  mb_payload_len :: nat

record datagram_send =
  ds_datagram_index :: nat
  ds_block_id :: u32
  ds_fragment_index :: u16
  ds_role :: datagram_role

record frame_stats =
  fs_block_count :: nat
  fs_source_datagrams :: nat
  fs_repair_datagrams :: nat
  fs_wire_datagrams :: nat
  fs_protected_bytes :: nat
  fs_wire_bytes :: nat
  fs_recoverable_source_datagrams :: nat
  fs_max_block_datagrams :: nat

record encoded_media_frame =
  ef_sequence :: u64
  ef_metadata :: media_metadata
  ef_priority :: media_priority
  ef_fragment_count :: u16
  ef_decision :: fec_decision
  ef_blocks :: "media_block list"
  ef_datagrams :: "bytes list"

text \<open>A Rust range \<open>a..b\<close> is the list \<open>[a..<b]\<close>, empty when \<open>b <= a\<close>.\<close>

definition source_end :: "media_block \<Rightarrow> nat" where
  "source_end b = min (usize_sat_add (mb_first_index b) (unat (mb_source_symbols b)))
     (usize_sat_add (mb_first_index b) (mb_datagram_count b))"

definition source_datagram_indices :: "media_block \<Rightarrow> nat list" where
  "source_datagram_indices b = [mb_first_index b..<source_end b]"

definition repair_datagram_indices :: "media_block \<Rightarrow> nat list" where
  "repair_datagram_indices b =
     [source_end b..<usize_sat_add (mb_first_index b) (mb_datagram_count b)]"

definition block_datagram_role :: "media_block \<Rightarrow> nat \<Rightarrow> datagram_role option" where
  "block_datagram_role b i =
     (if i \<in> set (source_datagram_indices b) then Some SourceRole
      else if i \<in> set (repair_datagram_indices b) then Some RepairRole else None)"

fun find_map :: "('a \<Rightarrow> 'b option) \<Rightarrow> 'a list \<Rightarrow> 'b option" where
  "find_map f [] = None"
| "find_map f (x # xs) = (case f x of Some y \<Rightarrow> Some y | None \<Rightarrow> find_map f xs)"

definition frame_datagram_role :: "encoded_media_frame \<Rightarrow> nat \<Rightarrow> datagram_role option" where
  "frame_datagram_role f i = find_map (\<lambda>b. block_datagram_role b i) (ef_blocks f)"

definition send_entries :: "datagram_role \<Rightarrow> media_block \<Rightarrow> datagram_send list" where
  "send_entries role b =
     map (\<lambda>i. \<lparr>ds_datagram_index = i, ds_block_id = mb_block_id b,
               ds_fragment_index = mb_fragment_index b, ds_role = role\<rparr>)
       (case role of SourceRole \<Rightarrow> source_datagram_indices b | RepairRole \<Rightarrow> repair_datagram_indices b)"

definition datagram_send_plan :: "encoded_media_frame \<Rightarrow> datagram_order \<Rightarrow> datagram_send list" where
  "datagram_send_plan f order =
     (case order of
        EncodedOrder \<Rightarrow> concat (map (\<lambda>b. send_entries SourceRole b @ send_entries RepairRole b) (ef_blocks f))
      | SourceFirst \<Rightarrow> concat (map (send_entries SourceRole) (ef_blocks f)) @
          concat (map (send_entries RepairRole) (ef_blocks f)))"

definition source_first_datagram_indices :: "encoded_media_frame \<Rightarrow> nat list" where
  "source_first_datagram_indices f = map ds_datagram_index (datagram_send_plan f SourceFirst)"

definition encoded_frame_stats :: "encoded_media_frame \<Rightarrow> frame_stats" where
  "encoded_frame_stats f =
     \<lparr>fs_block_count = length (ef_blocks f),
      fs_source_datagrams = sum_list (map (unat \<circ> mb_source_symbols) (ef_blocks f)),
      fs_repair_datagrams = sum_list (map (unat \<circ> mb_repair_symbols) (ef_blocks f)),
      fs_wire_datagrams = length (ef_datagrams f),
      fs_protected_bytes = sum_list (map mb_payload_len (ef_blocks f)),
      fs_wire_bytes = sum_list (map length (ef_datagrams f)),
      fs_recoverable_source_datagrams = sum_list (map (unat \<circ> mb_repair_symbols) (ef_blocks f)),
      fs_max_block_datagrams = fold max (map mb_datagram_count (ef_blocks f)) 0\<rparr>"

definition overhead_bytes :: "frame_stats \<Rightarrow> nat" where
  "overhead_bytes st = fs_wire_bytes st - fs_protected_bytes st"

definition datagram_overhead_ratio :: "frame_stats \<Rightarrow> f32" where
  "datagram_overhead_ratio st =
     (if fs_source_datagrams st = 0 then Fin 0
      else f32_div (f32_of_nat (fs_wire_datagrams st)) (f32_of_nat (fs_source_datagrams st)))"

section \<open>The encoder\<close>

record media_encoder =
  me_fec :: fec_encoder
  me_controller :: adaptive_controller
  me_next_sequence :: u64

definition media_encoder_new :: "adaptive_controller \<Rightarrow> media_encoder" where
  "media_encoder_new ctl =
     \<lparr>me_fec = encoder_new, me_controller = ctl, me_next_sequence = 0\<rparr>"

definition allocate_sequence :: "media_encoder \<Rightarrow> media_encoder \<times> u64" where
  "allocate_sequence e = (e\<lparr>me_next_sequence := me_next_sequence e + 1\<rparr>, me_next_sequence e)"

definition encode_block_pooled ::
    "crc_fun \<Rightarrow> ('e, 'd) raptorq \<Rightarrow> fec_encoder \<Rightarrow> bytes \<Rightarrow> u32 \<Rightarrow> buffer_pool option \<Rightarrow>
     fec_encoder \<times> buffer_pool option \<times> (datagram_fec_error, bytes list) result" where
  "encode_block_pooled crc rq e data r pool =
     (case pool of
        Some p \<Rightarrow>
          (case encode_block_with_repair_symbols_reusing crc rq e data r p of
             (e1, p1, res) \<Rightarrow> (e1, Some p1, res))
      | None \<Rightarrow>
          (case encode_block_with_repair_symbols crc rq e data r of (e1, res) \<Rightarrow> (e1, None, res)))"

record fragment_job =
  fj_metadata :: media_metadata
  fj_payload :: bytes
  fj_config :: datagram_fec_config
  fj_priority :: media_priority
  fj_max_fragment :: nat
  fj_count :: nat

definition job_header :: "fragment_job \<Rightarrow> nat \<Rightarrow> fragment_header" where
  "job_header job i =
     \<lparr>fh_metadata = fj_metadata job, fh_fragment_index = of_nat i,
      fh_fragment_count = of_nat (fj_count job), fh_access_unit_len = of_nat (length (fj_payload job)),
      fh_fragment_offset = of_nat (i * fj_max_fragment job)\<rparr>"

definition job_fragment :: "fragment_job \<Rightarrow> nat \<Rightarrow> bytes" where
  "job_fragment job i =
     (let start = i * fj_max_fragment job;
          stop = min (start + fj_max_fragment job) (length (fj_payload job))
      in if start < stop then sub_slice (fj_payload job) start stop else [])"

text \<open>The fragment loop; \<open>n\<close> datagrams exist before the first fragment of the list.\<close>

fun encode_fragments ::
    "crc_fun \<Rightarrow> ('e, 'd) raptorq \<Rightarrow> adaptive_controller \<Rightarrow> fragment_job \<Rightarrow> fec_encoder \<Rightarrow>
     buffer_pool option \<Rightarrow> nat \<Rightarrow> nat list \<Rightarrow>
     fec_encoder \<times> buffer_pool option \<times> (media_fec_error, media_block list \<times> bytes list) result" where
  "encode_fragments crc rq ctl job e pool n [] = (e, pool, Inr ([], []))"
| "encode_fragments crc rq ctl job e pool n (i # rest) =
     (case fragment_encode (job_header job i) (replicate MEDIA_FRAME_HEADER_LEN 0) of
        Inl err \<Rightarrow> (e, pool, Inl err)
      | Inr header \<Rightarrow>
          (let block = header @ job_fragment job i;
               source_symbols = source_symbol_count (length block) (cfg_symbol_size (fj_config job));
               repair_symbols = repair_symbols_for ctl source_symbols (fj_priority job);
               e1 = set_symbol_size (cfg_symbol_size (fj_config job))
                      (set_source_symbols (cfg_source_symbols (fj_config job)) e);
               block_id = enc_block_id e1
           in case encode_block_pooled crc rq e1 block repair_symbols pool of
                (e2, pool2, Inl err) \<Rightarrow> (e2, pool2, Inl (MediaFec err))
              | (e2, pool2, Inr ds) \<Rightarrow>
                  (case encode_fragments crc rq ctl job e2 pool2 (n + length ds) rest of
                     (e3, pool3, r) \<Rightarrow>
                       (e3, pool3, rbind r (\<lambda>(blocks, datagrams).
                          Inr (\<lparr>mb_block_id = block_id, mb_fragment_index = of_nat i,
                                mb_source_symbols = source_symbols, mb_repair_symbols = repair_symbols,
                                mb_first_index = n, mb_datagram_count = length ds,
                                mb_payload_len = length block\<rparr> # blocks, ds @ datagrams))))))"

definition encode_frame_with_optional_pool ::
    "crc_fun \<Rightarrow> ('e, 'd) raptorq \<Rightarrow> media_encoder \<Rightarrow> media_metadata \<Rightarrow> bytes \<Rightarrow> buffer_pool option \<Rightarrow>
     media_encoder \<times> buffer_pool option \<times> (media_fec_error, encoded_media_frame) result" where
  "encode_frame_with_optional_pool crc rq e metadata payload pool =
     (let priority = metadata_priority metadata;
          decision = decide (me_controller e) (length payload + MEDIA_FRAME_HEADER_LEN) priority;
          max_block_payload = max_payload_len (dcn_config decision)
      in if max_block_payload \<le> MEDIA_FRAME_HEADER_LEN then
           (e, pool, Inl (BlockTooSmall max_block_payload MEDIA_FRAME_HEADER_LEN))
         else
           (let max_fragment = max_block_payload - MEDIA_FRAME_HEADER_LEN;
                frag_count = max (div_ceil (length payload) max_fragment) 1
            in if frag_count > 65535 then (e, pool, Inl (TooManyFragments frag_count))
               else if length payload > U32_MAX then (e, pool, Inl (AccessUnitTooLarge (length payload)))
               else
                 (case encode_fragments crc rq (me_controller e)
                         \<lparr>fj_metadata = metadata, fj_payload = payload, fj_config = dcn_config decision,
                          fj_priority = priority, fj_max_fragment = max_fragment, fj_count = frag_count\<rparr>
                         (me_fec e) pool 0 [0..<frag_count] of
                    (fec, pool1, r) \<Rightarrow>
                      (e\<lparr>me_fec := fec\<rparr>, pool1, rbind r (\<lambda>(blocks, datagrams).
                         Inr \<lparr>ef_sequence = md_sequence metadata, ef_metadata = metadata,
                              ef_priority = priority, ef_fragment_count = of_nat frag_count,
                              ef_decision = decision, ef_blocks = blocks,
                              ef_datagrams = datagrams\<rparr>)))))"

definition encode_frame ::
    "crc_fun \<Rightarrow> ('e, 'd) raptorq \<Rightarrow> media_encoder \<Rightarrow> media_metadata \<Rightarrow> bytes \<Rightarrow>
     media_encoder \<times> (media_fec_error, encoded_media_frame) result" where
  "encode_frame crc rq e metadata payload =
     drop_pool (encode_frame_with_optional_pool crc rq e metadata payload None)"

definition encode_frame_reusing ::
    "crc_fun \<Rightarrow> ('e, 'd) raptorq \<Rightarrow> media_encoder \<Rightarrow> media_metadata \<Rightarrow> bytes \<Rightarrow> buffer_pool \<Rightarrow>
     media_encoder \<times> buffer_pool \<times> (media_fec_error, encoded_media_frame) result" where
  "encode_frame_reusing crc rq e metadata payload pool =
     keep_pool pool (encode_frame_with_optional_pool crc rq e metadata payload (Some pool))"

section \<open>The decoder\<close>

record decoded_frame =
  df_metadata :: media_metadata
  df_payload :: bytes

record partial_frame =
  pf_metadata :: media_metadata
  pf_access_unit_len :: nat
  pf_fragments :: "bytes option list"
  pf_received :: u16

definition partial_new :: "media_metadata \<Rightarrow> u16 \<Rightarrow> nat \<Rightarrow> partial_frame" where
  "partial_new m frag_count len =
     \<lparr>pf_metadata = m, pf_access_unit_len = len, pf_fragments = replicate (unat frag_count) None,
      pf_received = 0\<rparr>"

definition partial_insert ::
    "partial_frame \<Rightarrow> fragment_header \<Rightarrow> bytes \<Rightarrow> (media_fec_error, partial_frame) result" where
  "partial_insert p h fragment =
     (if fh_metadata h \<noteq> pf_metadata p then Inl ConflictingMetadata
      else if unat (fh_access_unit_len h) \<noteq> pf_access_unit_len p then Inl ConflictingAccessUnitLength
      else
        (let index = unat (fh_fragment_index h)
         in if index \<ge> length (pf_fragments p) then
              Inl (MediaInvalidFragmentIndex (fh_fragment_index h) (of_nat (length (pf_fragments p))))
            else if pf_fragments p ! index = None then
              Inr (p\<lparr>pf_fragments := (pf_fragments p)[index := Some fragment],
                     pf_received := sat_add (pf_received p) 1\<rparr>)
            else Inr p))"

definition partial_is_complete :: "partial_frame \<Rightarrow> bool" where
  "partial_is_complete p = (unat (pf_received p) = length (pf_fragments p))"

primrec join_fragments :: "bytes option list \<Rightarrow> bytes option" where
  "join_fragments [] = Some []"
| "join_fragments (f # fs) =
     (case f of
        None \<Rightarrow> None
      | Some bs \<Rightarrow> (case join_fragments fs of None \<Rightarrow> None | Some r \<Rightarrow> Some (bs @ r)))"

definition partial_finish :: "partial_frame \<Rightarrow> (media_fec_error, decoded_frame) result" where
  "partial_finish p =
     (case join_fragments (pf_fragments p) of
        None \<Rightarrow> Inl IncompleteFrame
      | Some payload \<Rightarrow>
          if length payload \<noteq> pf_access_unit_len p then
            Inl (AccessUnitLengthMismatch (pf_access_unit_len p) (length payload))
          else Inr \<lparr>df_metadata = pf_metadata p, df_payload = payload\<rparr>)"

type_synonym frame_key = "u64 \<times> u64"

definition prune_completed :: "frame_key set \<Rightarrow> frame_key \<Rightarrow> frame_key set" where
  "prune_completed completed current =
     {c \<in> completed. fst c \<noteq> fst current \<or> snd current < 128 \<or> snd c \<ge> sat_sub (snd current) 128}"

record 'd media_decoder =
  mdec_fec :: "'d fec_decoder"
  mdec_partial :: "frame_key \<rightharpoonup> partial_frame"
  mdec_completed :: "frame_key set"

definition media_decoder_new :: "'d media_decoder" where
  "media_decoder_new = \<lparr>mdec_fec = decoder_new, mdec_partial = (\<lambda>_. None), mdec_completed = {}\<rparr>"

text \<open>What \<open>push_datagram\<close> does with a recovered block.\<close>

definition accept_block ::
    "'d media_decoder \<Rightarrow> bytes \<Rightarrow> 'd media_decoder \<times> (media_fec_error, decoded_frame option) result" where
  "accept_block d block =
     (if length block < MEDIA_FRAME_HEADER_LEN then (d, Inl (MediaHeaderTooShort (length block)))
      else
        (case fragment_decode (sub_slice block 0 MEDIA_FRAME_HEADER_LEN) of
           Inl err \<Rightarrow> (d, Inl err)
         | Inr h \<Rightarrow>
             if fh_fragment_count h = 0 \<or> fh_fragment_index h \<ge> fh_fragment_count h then
               (d, Inl (MediaInvalidFragmentIndex (fh_fragment_index h) (fh_fragment_count h)))
             else
               (let fragment = drop MEDIA_FRAME_HEADER_LEN block;
                    key = (md_stream_id (fh_metadata h), md_sequence (fh_metadata h))
                in if key \<in> mdec_completed d then (d, Inr None)
                   else
                     (let partial = (case mdec_partial d key of
                              Some p \<Rightarrow> p
                            | None \<Rightarrow> partial_new (fh_metadata h) (fh_fragment_count h)
                                (unat (fh_access_unit_len h)))
                      in case partial_insert partial h fragment of
                           Inl err \<Rightarrow>
                             (d\<lparr>mdec_partial := (mdec_partial d)(key \<mapsto> partial)\<rparr>, Inl err)
                         | Inr p \<Rightarrow>
                             if \<not> partial_is_complete p then
                               (d\<lparr>mdec_partial := (mdec_partial d)(key \<mapsto> p)\<rparr>, Inr None)
                             else
                               (d\<lparr>mdec_partial := (mdec_partial d)(key := None),
                                  mdec_completed := prune_completed (insert key (mdec_completed d)) key\<rparr>,
                                rbind (partial_finish p) (\<lambda>f. Inr (Some f)))))))"

definition media_push_datagram ::
    "crc_fun \<Rightarrow> ('e, 'd) raptorq \<Rightarrow> 'd media_decoder \<Rightarrow> bytes \<Rightarrow>
     'd media_decoder \<times> (media_fec_error, decoded_frame option) result" where
  "media_push_datagram crc rq d datagram =
     (case push_datagram crc rq (mdec_fec d) datagram of
        (fec, Inl err) \<Rightarrow> (d\<lparr>mdec_fec := fec\<rparr>, Inl (MediaFec err))
      | (fec, Inr None) \<Rightarrow> (d\<lparr>mdec_fec := fec\<rparr>, Inr None)
      | (fec, Inr (Some block)) \<Rightarrow> accept_block (d\<lparr>mdec_fec := fec\<rparr>) block)"

primrec media_push_all ::
    "crc_fun \<Rightarrow> ('e, 'd) raptorq \<Rightarrow> 'd media_decoder \<Rightarrow> bytes list \<Rightarrow>
     'd media_decoder \<times> (media_fec_error, decoded_frame option) result list" where
  "media_push_all crc rq d [] = (d, [])"
| "media_push_all crc rq d (x # xs) =
     (case media_push_datagram crc rq d x of
        (d1, r) \<Rightarrow> (case media_push_all crc rq d1 xs of (d2, rs) \<Rightarrow> (d2, r # rs)))"

section \<open>Tiling of the datagrams by the blocks\<close>

primrec blocks_tile :: "nat \<Rightarrow> media_block list \<Rightarrow> bool" where
  "blocks_tile n [] = True"
| "blocks_tile n (b # bs) = (mb_first_index b = n \<and> blocks_tile (n + mb_datagram_count b) bs)"

definition blocks_total :: "media_block list \<Rightarrow> nat" where
  "blocks_total bs = sum_list (map mb_datagram_count bs)"

lemma blocks_total_simps [simp]:
  "blocks_total [] = 0" "blocks_total (b # bs) = mb_datagram_count b + blocks_total bs"
  by (simp_all add: blocks_total_def)

lemma encode_fragments_tile:
  "encode_fragments crc rq ctl job e pool n is = (e', pool', Inr (blocks, ds)) \<Longrightarrow>
   blocks_tile n blocks \<and> blocks_total blocks = length ds"
proof (induction "is" arbitrary: e pool n e' pool' blocks ds)
  case (Cons i rest)
  then show ?case
    by (auto simp: rbind_eq_Inr Let_def split: sum.splits prod.splits)
qed auto

lemma encode_frame_fragments:
  assumes "encode_frame_with_optional_pool crc rq e md payload pool = (e', pool', Inr f)"
  shows "\<exists>job. (let decision = decide (me_controller e) (length payload + 44) (metadata_priority md);
        m = max_payload_len (dcn_config decision) - 44
      in job = \<lparr>fj_metadata = md, fj_payload = payload, fj_config = dcn_config decision,
           fj_priority = metadata_priority md, fj_max_fragment = m,
           fj_count = max (div_ceil (length payload) m) 1\<rparr>) \<and>
    0 < fj_max_fragment job \<and> fj_count job \<le> 65535 \<and> length payload \<le> U32_MAX \<and>
    encode_fragments crc rq (me_controller e) job (me_fec e) pool 0 [0..<fj_count job] =
      (me_fec e', pool', Inr (ef_blocks f, ef_datagrams f)) \<and> ef_metadata f = md"
  using assms
  by (auto simp: encode_frame_with_optional_pool_def Let_def MEDIA_FRAME_HEADER_LEN_def rbind_eq_Inr
      split: if_splits prod.splits)

lemma source_end_bounds:
  assumes "mb_first_index b + mb_datagram_count b \<le> usize_max"
  shows "usize_sat_add (mb_first_index b) (mb_datagram_count b) = mb_first_index b + mb_datagram_count b"
    "mb_first_index b \<le> source_end b" "source_end b \<le> mb_first_index b + mb_datagram_count b"
  using assms unfolding source_end_def usize_sat_add_def min_def by (auto simp del: of_nat_add)

lemma block_indices:
  assumes "mb_first_index b + mb_datagram_count b \<le> usize_max"
  shows "source_datagram_indices b @ repair_datagram_indices b =
    [mb_first_index b..<mb_first_index b + mb_datagram_count b]"
  unfolding source_datagram_indices_def repair_datagram_indices_def source_end_bounds(1) [OF assms]
  using source_end_bounds(2,3) [OF assms] upt_add_eq_append [of "mb_first_index b" "source_end b"]
  by (metis le_add_diff_inverse)

lemma block_role_iff:
  assumes "mb_first_index b + mb_datagram_count b \<le> usize_max"
  shows "block_datagram_role b i \<noteq> None \<longleftrightarrow> mb_first_index b \<le> i \<and> i < mb_first_index b + mb_datagram_count b"
    "i \<in> set (source_datagram_indices b) \<Longrightarrow> block_datagram_role b i = Some SourceRole"
    "i \<in> set (repair_datagram_indices b) \<Longrightarrow> block_datagram_role b i = Some RepairRole"
proof -
  have "i \<in> set (source_datagram_indices b @ repair_datagram_indices b) \<longleftrightarrow>
      mb_first_index b \<le> i \<and> i < mb_first_index b + mb_datagram_count b"
    unfolding block_indices [OF assms] by simp
  then show "block_datagram_role b i \<noteq> None \<longleftrightarrow> mb_first_index b \<le> i \<and> i < mb_first_index b + mb_datagram_count b"
    by (auto simp: block_datagram_role_def)
qed (auto simp: block_datagram_role_def source_datagram_indices_def repair_datagram_indices_def)

abbreviation block_entries :: "media_block \<Rightarrow> datagram_send list" where
  "block_entries b \<equiv> send_entries SourceRole b @ send_entries RepairRole b"

lemma send_entries_simps:
  "map ds_datagram_index (send_entries SourceRole b) = source_datagram_indices b"
  "map ds_datagram_index (send_entries RepairRole b) = repair_datagram_indices b"
  "map ds_role (send_entries r b) = replicate (length (send_entries r b)) r"
  by (simp_all add: send_entries_def comp_def map_replicate_const)

lemma entries_role:
  assumes "mb_first_index b + mb_datagram_count b \<le> usize_max" "x \<in> set (block_entries b)"
  shows "block_datagram_role b (ds_datagram_index x) = Some (ds_role x)"
  using assms(2) block_role_iff(2,3) [OF assms(1)] by (auto simp: send_entries_def)

lemma plan_indices:
  "blocks_tile n bs \<Longrightarrow> n + blocks_total bs \<le> usize_max \<Longrightarrow>
   map ds_datagram_index (concat (map block_entries bs)) = [n..<n + blocks_total bs]"
proof (induction bs arbitrary: n)
  case (Cons b bs)
  have le: "mb_first_index b + mb_datagram_count b \<le> usize_max" using Cons.prems by simp
  have "map ds_datagram_index (concat (map block_entries bs)) =
      [n + mb_datagram_count b..<n + mb_datagram_count b + blocks_total bs]"
    by (rule Cons.IH) (use Cons.prems in simp_all)
  moreover have "map ds_datagram_index (block_entries b) = [n..<n + mb_datagram_count b]"
    using block_indices [OF le] Cons.prems(1) by (simp add: send_entries_simps)
  ultimately show ?case
    using upt_add_eq_append [of n "n + mb_datagram_count b" "blocks_total bs"] by (simp add: add.assoc)
qed simp

lemma plan_roles:
  "blocks_tile n bs \<Longrightarrow> n + blocks_total bs \<le> usize_max \<Longrightarrow> x \<in> set (concat (map block_entries bs)) \<Longrightarrow>
   find_map (\<lambda>b. block_datagram_role b (ds_datagram_index x)) bs = Some (ds_role x)"
proof (induction bs arbitrary: n)
  case (Cons b bs)
  have le: "mb_first_index b + mb_datagram_count b \<le> usize_max" using Cons.prems by simp
  show ?case
  proof (cases "x \<in> set (block_entries b)")
    case True
    then show ?thesis using entries_role [OF le] by simp
  next
    case False
    then have x: "x \<in> set (concat (map block_entries bs))" using Cons.prems(3) by simp
    have idx: "map ds_datagram_index (concat (map block_entries bs)) =
        [n + mb_datagram_count b..<n + mb_datagram_count b + blocks_total bs]"
      by (rule plan_indices) (use Cons.prems in simp_all)
    have "ds_datagram_index x \<in> set (map ds_datagram_index (concat (map block_entries bs)))"
      unfolding set_map using x by (rule imageI)
    then have "n + mb_datagram_count b \<le> ds_datagram_index x"
      unfolding idx by simp
    then have "block_datagram_role b (ds_datagram_index x) = None"
      using block_role_iff(1) [OF le, of "ds_datagram_index x"] Cons.prems(1) by auto
    moreover have "find_map (\<lambda>b. block_datagram_role b (ds_datagram_index x)) bs = Some (ds_role x)"
      by (rule Cons.IH [OF _ _ x, of "n + mb_datagram_count b"]) (use Cons.prems in simp_all)
    ultimately show ?thesis by simp
  qed
qed simp

lemma mset_interleave:
  "mset (concat (map f bs) @ concat (map g bs)) = mset (concat (map (\<lambda>b. f b @ g b) bs))"
  by (induction bs) auto

lemma map_concat_replicate:
  "(\<And>b. map h (f b) = replicate (length (f b)) c) \<Longrightarrow>
   map h (concat (map f bs)) = replicate (length (concat (map f bs))) c"
  by (induction bs) (auto simp: replicate_add)

text \<open>
  C10. The send plans. For an encoded frame, the encoded plan lists the datagrams 0, 1, 2, ... in order;
  the source-first plan lists each of them exactly once, every source datagram before every repair
  datagram; and both plans give each datagram the role that \<open>datagram_role\<close> reports for it.
\<close>
theorem send_plans_cover_frame:
  assumes "encode_frame_with_optional_pool crc rq e md payload pool = (e', pool', Inr f)"
    and "length (ef_datagrams f) \<le> usize_max"
  shows "map ds_datagram_index (datagram_send_plan f EncodedOrder) = [0..<length (ef_datagrams f)] \<and>
    mset (source_first_datagram_indices f) = mset [0..<length (ef_datagrams f)] \<and>
    (\<exists>a b. map ds_role (datagram_send_plan f SourceFirst) = replicate a SourceRole @ replicate b RepairRole) \<and>
    (\<forall>x \<in> set (datagram_send_plan f order). frame_datagram_role f (ds_datagram_index x) = Some (ds_role x))"
proof -
  obtain job where "encode_fragments crc rq (me_controller e) job (me_fec e) pool 0 [0..<fj_count job] =
      (me_fec e', pool', Inr (ef_blocks f, ef_datagrams f))"
    using encode_frame_fragments [OF assms(1)] by blast
  note tile = encode_fragments_tile [OF this]
  have le: "0 + blocks_total (ef_blocks f) \<le> usize_max" using tile assms(2) by simp
  let ?all = "concat (map block_entries (ef_blocks f))"
  have enc: "datagram_send_plan f EncodedOrder = ?all" by (simp add: datagram_send_plan_def)
  have idx: "map ds_datagram_index ?all = [0..<length (ef_datagrams f)]"
    using plan_indices [OF conjunct1 [OF tile] le] tile by simp
  have perm: "mset (datagram_send_plan f SourceFirst) = mset ?all"
    unfolding datagram_send_plan_def datagram_order.case by (rule mset_interleave)
  then have sets: "set (datagram_send_plan f order) = set ?all"
    using enc mset_eq_setD [OF perm] by (cases order) simp_all
  have "mset (source_first_datagram_indices f) = mset (map ds_datagram_index ?all)"
    unfolding source_first_datagram_indices_def mset_map perm ..
  moreover have "\<exists>a b. map ds_role (datagram_send_plan f SourceFirst) = replicate a SourceRole @ replicate b RepairRole"
    unfolding datagram_send_plan_def datagram_order.case map_append
      map_concat_replicate [of _ "send_entries _", OF send_entries_simps(3)] by blast
  moreover have "frame_datagram_role f (ds_datagram_index x) = Some (ds_role x)"
    if "x \<in> set (datagram_send_plan f order)" for x
    using plan_roles [OF conjunct1 [OF tile] le] that sets by (simp add: frame_datagram_role_def)
  ultimately show ?thesis using enc idx by auto
qed

end
