(* ===== verification/Media_Transfer.thy ===== *)
theory Media_Transfer
  imports Media Adaptive
begin

text \<open>
  \<^verbatim>\<open>media.rs\<close> end to end: what \<open>encode_frame\<close> sends, how the decoder reassembles the fragments in any
  order, and the delivery of a frame over a link that loses, repeats and reorders datagrams.
\<close>

section \<open>What the fragment loop sends\<close>

definition fragment_block :: "fragment_job \<Rightarrow> nat \<Rightarrow> bytes" where
  "fragment_block job i = fragment_wire (job_header job i) @ job_fragment job i"

abbreviation job_symbol_size :: "fragment_job \<Rightarrow> u16" where
  "job_symbol_size job \<equiv> cfg_symbol_size (fj_config job)"

definition block_repair :: "adaptive_controller \<Rightarrow> fragment_job \<Rightarrow> nat \<Rightarrow> u32" where
  "block_repair ctl job i = repair_symbols_for ctl
     (of_nat (block_symbols (fragment_block job i) (job_symbol_size job))) (fj_priority job)"

definition block_count :: "adaptive_controller \<Rightarrow> fragment_job \<Rightarrow> nat \<Rightarrow> nat" where
  "block_count ctl job i = block_symbols (fragment_block job i) (job_symbol_size job) + unat (block_repair ctl job i)"

definition job_ok :: "adaptive_controller \<Rightarrow> fragment_job \<Rightarrow> nat \<Rightarrow> bool" where
  "job_ok ctl job i \<longleftrightarrow>
     fragment_ok (job_header job i) 44 \<and> block_data (fragment_block job i) (job_symbol_size job) \<and>
     length (fragment_block job i) \<le> max_payload_len (fj_config job) \<and> block_count ctl job i \<le> 2 ^ 24"

primrec layout :: "adaptive_controller \<Rightarrow> fragment_job \<Rightarrow> u32 \<Rightarrow> u32 \<Rightarrow> nat list \<Rightarrow> link_item list" where
  "layout ctl job b seq [] = []"
| "layout ctl job b seq (i # is) =
     map (\<lambda>t. (b, seq + of_nat t, t)) [0..<block_count ctl job i] @
     layout ctl job (b + 1) (seq + of_nat (block_count ctl job i)) is"

primrec layout_blocks :: "adaptive_controller \<Rightarrow> fragment_job \<Rightarrow> u32 \<Rightarrow> nat \<Rightarrow> nat list \<Rightarrow> media_block list" where
  "layout_blocks ctl job b n [] = []"
| "layout_blocks ctl job b n (i # is) =
     \<lparr>mb_block_id = b, mb_fragment_index = of_nat i,
      mb_source_symbols = of_nat (block_symbols (fragment_block job i) (job_symbol_size job)),
      mb_repair_symbols = block_repair ctl job i, mb_first_index = n,
      mb_datagram_count = block_count ctl job i, mb_payload_len = length (fragment_block job i)\<rparr> #
     layout_blocks ctl job (b + 1) (n + block_count ctl job i) is"

lemma encode_block_pooled_fst:
  "\<exists>pool'. encode_block_pooled crc rq e data r pool =
     (fst (encode_block_with_repair_symbols crc rq e data r), pool',
      snd (encode_block_with_repair_symbols crc rq e data r))"
  using encode_one_block_pool [of crc rq e data r pool None]
  by (cases pool) (auto simp: encode_block_pooled_def encode_block_with_repair_symbols_reusing_def
      encode_block_with_repair_symbols_def keep_pool_def drop_pool_eq split: prod.splits)

lemma encode_fragments_lawful:
  assumes lawful: "rq_lawful rq" and ok: "\<forall>i \<in> set is. job_ok ctl job i"
    and data: "\<forall>j < length is. data (b + of_nat j) = fragment_block job (is ! j)"
    and b: "enc_block_id e = b" and seq: "enc_packet_sequence e = seq"
  shows "\<exists>e' pool'. encode_fragments crc rq ctl job e pool n is = (e', pool',
    Inr (layout_blocks ctl job b n is,
         map (send_item crc rq data (job_symbol_size job)) (layout ctl job b seq is)))"
  using ok data b seq
proof (induction "is" arbitrary: e pool n b seq)
  case (Cons i rest)
  let ?s = "job_symbol_size job" and ?blk = "fragment_block job i" and ?c = "block_count ctl job i"
  let ?e1 = "set_symbol_size ?s (set_source_symbols (cfg_source_symbols (fj_config job)) e)"
  have i: "fragment_ok (job_header job i) 44" "block_data ?blk ?s" "length ?blk \<le> max_payload_len (fj_config job)"
    "?c \<le> 2 ^ 24"
    using Cons.prems(1) by (simp_all add: job_ok_def)
  have s1: "max ?s 1 = ?s"
    using i(2) by (simp add: block_data_def word_unat_eq_iff max_symbol_size)
  have e1: "cfg_symbol_size (enc_config ?e1) = ?s" "enc_block_id ?e1 = b" "enc_packet_sequence ?e1 = seq"
    "max_payload_len (enc_config ?e1) = max_payload_len (fj_config job)"
    using Cons.prems(3,4) s1
    by (auto simp: set_symbol_size_def set_source_symbols_def max_payload_len_def)
  have hdr: "fragment_encode (job_header job i) (replicate MEDIA_FRAME_HEADER_LEN 0) = Inr (fragment_wire (job_header job i))"
    using fragment_encode_ok [of "job_header job i" "replicate 44 0"] i(1)
    by (simp add: MEDIA_FRAME_HEADER_LEN_def)
  have src: "source_symbol_count (length ?blk) ?s = of_nat (block_symbols ?blk ?s)"
    by (rule block_data_geometry(2) [OF i(2)])
  have enc: "encode_block_with_repair_symbols crc rq ?e1 ?blk (block_repair ctl job i) =
      (?e1\<lparr>enc_block_id := b + 1, enc_packet_sequence := seq + of_nat ?c\<rparr>,
       Inr (block_frames crc rq b seq ?blk ?s [0..<?c]))"
    using encode_one_block_lawful [OF lawful, of ?blk ?e1 "block_repair ctl job i" crc None] i e1
    by (simp add: encode_block_with_repair_symbols_def block_data_def block_count_def)
  obtain pool2 where pooled: "encode_block_pooled crc rq ?e1 ?blk (block_repair ctl job i) pool =
      (?e1\<lparr>enc_block_id := b + 1, enc_packet_sequence := seq + of_nat ?c\<rparr>, pool2,
       Inr (block_frames crc rq b seq ?blk ?s [0..<?c]))"
    using encode_block_pooled_fst [of crc rq ?e1 ?blk "block_repair ctl job i" pool] enc by auto
  have data': "\<forall>j < length rest. data (b + 1 + of_nat j) = fragment_block job (rest ! j)"
  proof (intro allI impI)
    fix j assume "j < length rest"
    then show "data (b + 1 + of_nat j) = fragment_block job (rest ! j)"
      using Cons.prems(2) [rule_format, of "Suc j"] by (simp add: add.assoc)
  qed
  have head: "data b = ?blk" using Cons.prems(2) by (auto dest: spec [of _ 0])
  have rest: "\<exists>e' pool'. encode_fragments crc rq ctl job
      (?e1\<lparr>enc_block_id := b + 1, enc_packet_sequence := seq + of_nat ?c\<rparr>) pool2 (n + ?c) rest = (e', pool',
      Inr (layout_blocks ctl job (b + 1) (n + ?c) rest,
        map (send_item crc rq data ?s) (layout ctl job (b + 1) (seq + of_nat ?c) rest)))"
    by (rule Cons.IH [OF _ data']) (use Cons.prems(1) in simp_all)
  have frames: "block_frames crc rq b seq ?blk ?s [0..<?c] =
      map (send_item crc rq data ?s) (map (\<lambda>t. (b, seq + of_nat t, t)) [0..<?c])"
    by (simp add: block_frames_sent send_item_def head)
  show ?case
    using rest Cons.prems
    by (auto simp add: hdr src pooled frames Let_def block_repair_def [symmetric] fragment_block_def [symmetric] e1)
qed simp

lemma length_layout: "length (layout ctl job b seq is) = blocks_total (layout_blocks ctl job b n is)"
  by (induction "is" arbitrary: b seq n) auto

lemma layout_short:
  assumes "\<forall>i \<in> set is. job_ok ctl job i" "length is \<le> 65535"
  shows "0 + length (layout ctl job b seq is) \<le> usize_max"
proof -
  have "length (layout ctl job b seq is) \<le> length is * 2 ^ 24"
    using assms(1) by (induction "is" arbitrary: b seq) (auto simp: job_ok_def intro: add_mono)
  also have "\<dots> \<le> 65535 * 2 ^ 24" using assms(2) by (intro mult_le_mono) simp_all
  also have "\<dots> \<le> usize_max" by (simp add: usize_max_def)
  finally show ?thesis by simp
qed

lemma layout_tile: "blocks_tile n (layout_blocks ctl job b n is)"
  by (induction "is" arbitrary: b n) auto

lemma layout_items:
  "x \<in> set (layout ctl job b seq is) \<Longrightarrow> \<forall>i \<in> set is. job_ok ctl job i \<Longrightarrow>
   (\<exists>j < length is. fst x = b + of_nat j) \<and> snd (snd x) < 2 ^ 24"
proof (induction "is" arbitrary: b seq)
  case (Cons i rest)
  show ?case
  proof (cases "x \<in> set (layout ctl job (b + 1) (seq + of_nat (block_count ctl job i)) rest)")
    case True
    from Cons.IH [OF this] Cons.prems obtain j where "j < length rest" "fst x = b + 1 + of_nat j" "snd (snd x) < 2 ^ 24"
      by auto
    then show ?thesis by (auto intro!: exI [of _ "Suc j"] simp: add.assoc)
  next
    case False
    then show ?thesis using Cons.prems by (auto simp: job_ok_def intro!: exI [of _ 0])
  qed
qed simp

text \<open>Every source symbol sits at a position whose role is that of a source datagram.\<close>

lemma layout_sources:
  "\<forall>i \<in> set is. job_ok ctl job i \<Longrightarrow> n + length (layout ctl job b seq is) \<le> usize_max \<Longrightarrow> j < length is \<Longrightarrow>
   t < block_symbols (fragment_block job (is ! j)) (job_symbol_size job) \<Longrightarrow>
   \<exists>p < length (layout ctl job b seq is). fst (layout ctl job b seq is ! p) = b + of_nat j \<and>
     snd (snd (layout ctl job b seq is ! p)) = t \<and>
     find_map (\<lambda>m. block_datagram_role m (n + p)) (layout_blocks ctl job b n is) = Some SourceRole"
proof (induction "is" arbitrary: b seq n j)
  case (Cons i rest)
  let ?c = "block_count ctl job i"
  let ?head = "hd (layout_blocks ctl job b n (i # rest))"
  let ?tail = "layout ctl job (b + 1) (seq + of_nat ?c) rest"
  have head: "mb_first_index ?head = n" "mb_datagram_count ?head = ?c"
    "unat (mb_source_symbols ?head) = block_symbols (fragment_block job i) (job_symbol_size job)"
    using Cons.prems(1) block_data_geometry(3) by (auto simp: job_ok_def)
  have le: "n + ?c \<le> usize_max" using Cons.prems(2) by simp
  then have le': "mb_first_index ?head + mb_datagram_count ?head \<le> usize_max" by (simp only: head)
  show ?case
  proof (cases j)
    case 0
    then have t: "t < unat (mb_source_symbols ?head)" "t < ?c"
      using Cons.prems(4) unfolding head by (simp_all add: block_count_def)
    have "n + t < source_end ?head"
      using t le unfolding source_end_def head usize_sat_add_def by (auto simp: min_def)
    then have "n + t \<in> set (source_datagram_indices ?head)"
      unfolding source_datagram_indices_def head by simp
    then have "block_datagram_role ?head (n + t) = Some SourceRole"
      by (rule block_role_iff(2) [OF le'])
    then show ?thesis using t(2) 0 by (intro exI [of _ t]) (simp add: nth_append)
  next
    case (Suc k)
    obtain p where p: "p < length ?tail" "fst (?tail ! p) = b + 1 + of_nat k" "snd (snd (?tail ! p)) = t"
        "find_map (\<lambda>m. block_datagram_role m (n + ?c + p)) (layout_blocks ctl job (b + 1) (n + ?c) rest) = Some SourceRole"
      using Cons.IH [of "n + ?c" "b + 1" "seq + of_nat ?c" k] Cons.prems Suc by auto
    have "block_datagram_role ?head (n + (?c + p)) = None"
      using block_role_iff(1) [OF le', of "n + (?c + p)"] unfolding head by simp
    then show ?thesis using p Suc
      by (intro exI [of _ "?c + p"]) (simp add: nth_append add.assoc)
  qed
qed simp

section \<open>Reassembly\<close>

primrec accept_all ::
    "'d media_decoder \<Rightarrow> bytes list \<Rightarrow>
     'd media_decoder \<times> (media_fec_error, decoded_frame option) result list" where
  "accept_all d [] = (d, [])"
| "accept_all d (x # xs) =
     (case accept_block d x of (d1, r) \<Rightarrow> (case accept_all d1 xs of (d2, rs) \<Rightarrow> (d2, r # rs)))"

lemma accept_block_fec:
  "accept_block (d\<lparr>mdec_fec := f\<rparr>) x = (fst (accept_block d x)\<lparr>mdec_fec := f\<rparr>, snd (accept_block d x))"
  by (simp add: accept_block_def Let_def split: sum.split)

lemma accept_all_fec: "snd (accept_all (d\<lparr>mdec_fec := f\<rparr>) xs) = snd (accept_all d xs)"
proof (induction xs arbitrary: d)
  case (Cons x xs)
  then show ?case by (simp add: accept_block_fec case_prod_beta)
qed simp

lemma media_flow:
  assumes "push_all crc rq (mdec_fec d) xs = (f, rs)" "all_ok rs" "media_push_all crc rq d xs = (d', ms)"
  shows "delivered ms = delivered (snd (accept_all d (delivered rs))) \<and>
    (all_ok ms \<longleftrightarrow> all_ok (snd (accept_all d (delivered rs))))"
  using assms
proof (induction xs arbitrary: d rs ms)
  case (Cons x xs)
  obtain f1 r where one: "push_datagram crc rq (mdec_fec d) x = (f1, r)" by fastforce
  obtain qs where rest: "push_all crc rq f1 xs = (f, qs)" and rs: "rs = r # qs"
    using Cons.prems(1) one by (auto split: prod.splits)
  obtain o1 where r: "r = Inr o1" and ok: "all_ok qs" using Cons.prems(2) rs by (cases r) auto
  show ?case
  proof (cases o1)
    case None
    obtain d2 ns where m: "media_push_all crc rq (d\<lparr>mdec_fec := f1\<rparr>) xs = (d2, ns)" by fastforce
    have ms: "ms = Inr None # ns"
      using Cons.prems(3) one m by (simp add: media_push_datagram_def r None)
    show ?thesis
      using Cons.IH [of "d\<lparr>mdec_fec := f1\<rparr>" qs ns] rest ok m Cons.prems(3) one
      by (simp add: ms rs r None accept_all_fec media_push_datagram_def)
  next
    case (Some block)
    let ?d1 = "fst (accept_block d block)" and ?r1 = "snd (accept_block d block)"
    obtain d2 ns where m: "media_push_all crc rq (?d1\<lparr>mdec_fec := f1\<rparr>) xs = (d2, ns)" by fastforce
    have ms: "d' = d2" "ms = ?r1 # ns"
      using Cons.prems(3) one m by (simp_all add: media_push_datagram_def r Some accept_block_fec)
    have "snd (accept_all d (block # delivered qs)) = ?r1 # snd (accept_all ?d1 (delivered qs))"
      by (simp add: case_prod_beta)
    then show ?thesis
      using Cons.IH [of "?d1\<lparr>mdec_fec := f1\<rparr>" qs ns] rest ok m
      by (simp add: ms rs r Some accept_all_fec del: accept_all.simps split: sum.splits option.splits)
  qed
qed simp

definition job_key :: "fragment_job \<Rightarrow> frame_key" where
  "job_key job = (md_stream_id (fj_metadata job), md_sequence (fj_metadata job))"

definition partial_of :: "fragment_job \<Rightarrow> nat set \<Rightarrow> partial_frame" where
  "partial_of job S =
     \<lparr>pf_metadata = fj_metadata job, pf_access_unit_len = length (fj_payload job),
      pf_fragments = map (\<lambda>i. if i \<in> S then Some (job_fragment job i) else None) [0..<fj_count job],
      pf_received = of_nat (card S)\<rparr>"

definition pending :: "fragment_job \<Rightarrow> 'd media_decoder \<Rightarrow> nat set \<Rightarrow> bool" where
  "pending job d S \<longleftrightarrow> job_key job \<notin> mdec_completed d \<and>
     (case mdec_partial d (job_key job) of Some p \<Rightarrow> p = partial_of job S | None \<Rightarrow> S = {})"

definition job_frame :: "fragment_job \<Rightarrow> decoded_frame" where
  "job_frame job = \<lparr>df_metadata = fj_metadata job, df_payload = fj_payload job\<rparr>"

text \<open>A job as \<open>encode_frame\<close> makes it.\<close>

definition job_wf :: "fragment_job \<Rightarrow> bool" where
  "job_wf job \<longleftrightarrow> 0 < fj_max_fragment job \<and> 0 < fj_count job \<and> fj_count job \<le> 65535 \<and>
     length (fj_payload job) \<le> U32_MAX \<and> length (fj_payload job) \<le> fj_count job * fj_max_fragment job \<and>
     (\<forall>i < fj_count job. fragment_ok (job_header job i) 44)"

lemma fragments_prefix:
  "concat (map (job_fragment job) [0..<k]) = take (k * fj_max_fragment job) (fj_payload job)"
proof (induction k)
  case (Suc k)
  have "job_fragment job k = take (fj_max_fragment job) (drop (k * fj_max_fragment job) (fj_payload job))"
    by (auto simp: job_fragment_def Let_def sub_slice_def min_def)
  then show ?case
    using Suc by (simp add: take_add add.commute [of "fj_max_fragment job"])
qed simp

lemma join_Some: "join_fragments (map (Some \<circ> f) xs) = Some (concat (map f xs))"
  by (induction xs) simp_all

lemma partial_finish_full:
  assumes "job_wf job"
  shows "partial_finish (partial_of job {..<fj_count job}) = Inr (job_frame job)"
proof -
  have eq: "map (\<lambda>i. if i \<in> {..<fj_count job} then Some (job_fragment job i) else None) [0..<fj_count job] =
      map (Some \<circ> job_fragment job) [0..<fj_count job]" by simp
  have "concat (map (job_fragment job) [0..<fj_count job]) = fj_payload job"
    unfolding fragments_prefix using assms by (simp add: job_wf_def)
  then show ?thesis
    unfolding partial_finish_def partial_of_def partial_frame.select_convs eq join_Some
    by (simp add: job_frame_def)
qed

lemma unat_count: "n \<le> 65535 \<Longrightarrow> unat (of_nat n :: u16) = n"
  by (simp add: unat_of_nat take_bit_nat_eq_self)

lemma job_header_reads:
  assumes "job_wf job" "i < fj_count job"
  shows "unat (fh_fragment_index (job_header job i)) = i"
    "unat (fh_fragment_count (job_header job i)) = fj_count job"
    "unat (fh_access_unit_len (job_header job i)) = length (fj_payload job)"
    "fh_metadata (job_header job i) = fj_metadata job"
  using assms by (simp_all add: job_wf_def job_header_def unat_count unat_of_nat take_bit_nat_eq_self U32_MAX_def)

lemma partial_new_of:
  assumes "job_wf job" "i < fj_count job"
  shows "partial_new (fh_metadata (job_header job i)) (fh_fragment_count (job_header job i))
    (unat (fh_access_unit_len (job_header job i))) = partial_of job {}"
  by (simp add: partial_new_def partial_of_def job_header_reads [OF assms] map_replicate_const)

lemma partial_insert_of:
  assumes wf: "job_wf job" "i < fj_count job" and S: "S \<subseteq> {..<fj_count job}" "i \<notin> S"
  shows "partial_insert (partial_of job S) (job_header job i) (job_fragment job i) =
    Inr (partial_of job (insert i S))"
proof -
  note hdr = job_header_reads [OF wf]
  have fin: "finite S" using S(1) finite_subset by blast
  have "card S < card {..<fj_count job}"
    by (rule psubset_card_mono) (use S wf(2) in auto)
  then have c: "card S < fj_count job" by simp
  then have sat: "sat_add (of_nat (card S) :: u16) 1 = of_nat (Suc (card S))"
  proof -
    have a: "unat (of_nat (card S) :: u16) = card S" using c wf(1) by (simp add: unat_count job_wf_def)
    have "unat (of_nat (card S) :: u16) + unat (1 :: u16) \<le> 65535" using a c wf(1) by (simp add: job_wf_def)
    then have "unat (sat_add (of_nat (card S) :: u16) 1) = Suc (card S)"
      by (simp add: unat_sat_add a)
    moreover have "unat (of_nat (Suc (card S)) :: u16) = Suc (card S)"
      by (rule unat_count) (use c wf(1) in \<open>simp add: job_wf_def\<close>)
    ultimately show ?thesis by (simp only: word_unat_eq_iff)
  qed
  have upd: "(map (\<lambda>j. if j \<in> S then Some (job_fragment job j) else None) [0..<fj_count job])[i := Some (job_fragment job i)] =
      map (\<lambda>j. if j \<in> insert i S then Some (job_fragment job j) else None) [0..<fj_count job]"
    using S(2) wf(2) by (intro nth_equalityI) (auto simp: nth_list_update split: if_splits)
  show ?thesis
    using wf(2) S(2) fin sat upd
    by (simp add: partial_insert_def hdr partial_of_def Let_def)
qed

lemma partial_complete_of:
  assumes "job_wf job" "S \<subseteq> {..<fj_count job}"
  shows "partial_is_complete (partial_of job S) \<longleftrightarrow> S = {..<fj_count job}"
proof -
  have le: "card S \<le> fj_count job" using card_mono [OF _ assms(2)] by simp
  have "partial_is_complete (partial_of job S) \<longleftrightarrow> card S = card {..<fj_count job}"
    using le assms(1) by (simp add: partial_is_complete_def partial_of_def unat_count job_wf_def)
  also have "\<dots> \<longleftrightarrow> S = {..<fj_count job}"
    using card_subset_eq [OF _ assms(2)] by auto
  finally show ?thesis .
qed

lemma accept_fragment:
  assumes wf: "job_wf job" "i < fj_count job" and S: "S \<subseteq> {..<fj_count job}" "i \<notin> S" and pend: "pending job d S"
  shows "snd (accept_block d (fragment_block job i)) =
      (if insert i S = {..<fj_count job} then Inr (Some (job_frame job)) else Inr None)"
    "insert i S \<noteq> {..<fj_count job} \<Longrightarrow> pending job (fst (accept_block d (fragment_block job i))) (insert i S)"
proof -
  let ?b = "fragment_block job i" and ?h = "job_header job i"
  note hdr = job_header_reads [OF wf]
  have len: "\<not> length ?b < MEDIA_FRAME_HEADER_LEN" by (simp add: fragment_block_def MEDIA_FRAME_HEADER_LEN_def)
  have ok: "fragment_ok ?h 44" using wf by (simp add: job_wf_def)
  have dec: "fragment_decode (sub_slice ?b 0 MEDIA_FRAME_HEADER_LEN) = Inr ?h"
    using fragment_decode_wire [OF ok, of "[]"]
    by (simp add: fragment_block_def MEDIA_FRAME_HEADER_LEN_def sub_slice_def)
  have frag: "drop MEDIA_FRAME_HEADER_LEN ?b = job_fragment job i"
    by (simp add: fragment_block_def MEDIA_FRAME_HEADER_LEN_def)
  have idx: "\<not> (fh_fragment_count ?h = 0 \<or> fh_fragment_index ?h \<ge> fh_fragment_count ?h)"
    using wf(2) hdr(1,2) by (auto simp: word_le_nat_alt)
  have key: "(md_stream_id (fh_metadata ?h), md_sequence (fh_metadata ?h)) = job_key job"
    by (simp add: hdr job_key_def)
  have part: "(case mdec_partial d (job_key job) of Some p \<Rightarrow> p
      | None \<Rightarrow> partial_new (fh_metadata ?h) (fh_fragment_count ?h) (unat (fh_access_unit_len ?h))) = partial_of job S"
    using pend partial_new_of [OF wf] by (auto simp: pending_def split: option.splits)
  have fresh: "job_key job \<notin> mdec_completed d" using pend by (simp add: pending_def)
  have sub: "insert i S \<subseteq> {..<fj_count job}" using S wf(2) by auto
  have eq: "accept_block d ?b =
     (if \<not> partial_is_complete (partial_of job (insert i S)) then
        (d\<lparr>mdec_partial := (mdec_partial d)(job_key job \<mapsto> partial_of job (insert i S))\<rparr>, Inr None)
      else (d\<lparr>mdec_partial := (mdec_partial d)(job_key job := None),
              mdec_completed := prune_completed (insert (job_key job) (mdec_completed d)) (job_key job)\<rparr>,
            rbind (partial_finish (partial_of job (insert i S))) (\<lambda>f. Inr (Some f))))"
    unfolding accept_block_def if_not_P [OF len] dec sum.case if_not_P [OF idx] Let_def key if_not_P [OF fresh]
      part frag partial_insert_of [OF wf S] ..
  show "snd (accept_block d ?b) =
      (if insert i S = {..<fj_count job} then Inr (Some (job_frame job)) else Inr None)"
    unfolding eq partial_complete_of [OF wf(1) sub] using partial_finish_full [OF wf(1)] by simp
  show "insert i S \<noteq> {..<fj_count job} \<Longrightarrow> pending job (fst (accept_block d ?b)) (insert i S)"
    unfolding eq partial_complete_of [OF wf(1) sub] using fresh by (simp add: pending_def)
qed

lemma accept_fragments:
  assumes wf: "job_wf job"
  shows "distinct js \<Longrightarrow> set js \<inter> S = {} \<Longrightarrow> set js \<union> S = {..<fj_count job} \<Longrightarrow> js \<noteq> [] \<Longrightarrow> pending job d S \<Longrightarrow>
    all_ok (snd (accept_all d (map (fragment_block job) js))) \<and>
    delivered (snd (accept_all d (map (fragment_block job) js))) = [job_frame job]"
proof (induction js arbitrary: d S)
  case (Cons i js)
  have i: "i < fj_count job" "i \<notin> S" "S \<subseteq> {..<fj_count job}" using Cons.prems by auto
  note step = accept_fragment [OF wf i(1,3,2) Cons.prems(5)]
  show ?case
  proof (cases js)
    case Nil
    then have "insert i S = {..<fj_count job}" using Cons.prems(3) by simp
    then show ?thesis using step(1) by (simp add: Nil case_prod_beta is_ok_def)
  next
    case (Cons j rest)
    then have "j \<notin> insert i S" "j < fj_count job" using Cons.prems by auto
    then have ne: "insert i S \<noteq> {..<fj_count job}" by auto
    have "all_ok (snd (accept_all (fst (accept_block d (fragment_block job i))) (map (fragment_block job) js))) \<and>
        delivered (snd (accept_all (fst (accept_block d (fragment_block job i))) (map (fragment_block job) js))) = [job_frame job]"
      by (rule Cons.IH [OF _ _ _ _ step(2) [OF ne]]) (use Cons.prems Cons in auto)
    then show ?thesis using step(1) ne by (simp add: case_prod_beta is_ok_def)
  qed
qed simp

lemma mset_map_perm: "mset ys = mset (map f xs) \<Longrightarrow> \<exists>zs. ys = map f zs \<and> mset zs = mset xs"
proof (induction xs arbitrary: ys)
  case (Cons x xs)
  have "f x \<in> set ys" using mset_eq_setD [OF Cons.prems] by simp
  then obtain as bs where ys: "ys = as @ f x # bs" by (meson split_list)
  then have "mset (as @ bs) = mset (map f xs)" using Cons.prems by simp
  then obtain zs where zs: "as @ bs = map f zs" "mset zs = mset xs" using Cons.IH by blast
  then obtain z1 z2 where "zs = z1 @ z2" "as = map f z1" "bs = map f z2" by (auto simp: append_eq_map_conv)
  then show ?case using ys zs(2) by (intro exI [of _ "z1 @ x # z2"]) auto
qed simp

section \<open>Media frames end to end\<close>

definition frame_job :: "media_encoder \<Rightarrow> media_metadata \<Rightarrow> bytes \<Rightarrow> fragment_job" where
  "frame_job e md payload =
     (let config = dcn_config (decide (me_controller e) (length payload + 44) (metadata_priority md));
          m = max_payload_len config - 44
      in \<lparr>fj_metadata = md, fj_payload = payload, fj_config = config, fj_priority = metadata_priority md,
          fj_max_fragment = m, fj_count = max (div_ceil (length payload) m) 1\<rparr>)"

lemma frame_job_simps [simp]:
  "fj_metadata (frame_job e md payload) = md" "fj_payload (frame_job e md payload) = payload"
  "fj_priority (frame_job e md payload) = metadata_priority md"
  by (simp_all add: frame_job_def Let_def)

lemma frame_job_split:
  "fj_max_fragment (frame_job e md payload) = max_payload_len (fj_config (frame_job e md payload)) - 44"
  "fj_count (frame_job e md payload) =
     max (div_ceil (length payload) (max_payload_len (fj_config (frame_job e md payload)) - 44)) 1"
  by (simp_all add: frame_job_def Let_def)

text \<open>
  A frame the encoder's policy admits: every block stays within RaptorQ's \<open>K_max = 56403\<close> source
  symbols and 24-bit symbol ids, a block holds more than the fragment header, and the metadata fits
  the wire fields.
\<close>

definition media_sendable :: "media_encoder \<Rightarrow> media_metadata \<Rightarrow> bytes \<Rightarrow> bool" where
  "media_sendable e md payload \<longleftrightarrow>
     pol_max_source_symbols (ctl_policy (me_controller e)) \<le> 56403 \<and>
     unat (pol_max_repair_symbols (ctl_policy (me_controller e))) \<le> 2 ^ 24 - 56403 \<and>
     44 < max_payload_len (fj_config (frame_job e md payload)) \<and>
     fj_count (frame_job e md payload) \<le> 65535 \<and> length payload \<le> U32_MAX \<and>
     md_flags md \<le> 255 \<and> md_duration_ms md \<le> 65535 \<and>
     (\<forall>dts. md_dts_ms md = Some dts \<longrightarrow> \<bar>uint dts - uint (md_pts_ms md)\<bar> \<le> 32767)"

lemma symbol_size_pos: "0 < unat (symbol_size_for_payload ctl len priority)"
proof -
  have size: "1 \<le> max (pol_symbol_size (ctl_policy ctl)) 1" by (rule max.cobounded2)
  have cl: "unat (of_nat (clamp_word len 1 65535) :: u16) = clamp_word len 1 65535"
    by (simp add: clamp_word_def unat_of_nat take_bit_nat_eq_self)
  have "1 \<le> unat (max (pol_symbol_size (ctl_policy ctl)) 1)" using size by (simp add: word_le_nat_alt)
  then show ?thesis
    using cl by (auto simp: symbol_size_for_payload_def Let_def min_def clamp_word_def)
qed

lemma frame_job_geometry:
  assumes "media_sendable e md payload"
  defines "job \<equiv> frame_job e md payload"
  shows "0 < unat (job_symbol_size job)"
    "max_payload_len (fj_config job) = unat (max (cfg_source_symbols (fj_config job)) 1) * unat (job_symbol_size job)"
    "unat (max (cfg_source_symbols (fj_config job)) 1) \<le> 56403" "max_payload_len (fj_config job) \<le> U32_MAX"
proof -
  have eq: "cfg_symbol_size (fj_config job) = symbol_size_for_payload (me_controller e) (length payload + 44) (metadata_priority md)"
    by (simp add: job_def frame_job_def decide_def Let_def)
  show s: "0 < unat (job_symbol_size job)" unfolding eq by (rule symbol_size_pos)
  show m: "max_payload_len (fj_config job) = unat (max (cfg_source_symbols (fj_config job)) 1) * unat (job_symbol_size job)"
    using s by (simp add: max_payload_len_def max_symbol_size)
  have "cfg_source_symbols (fj_config job) \<le> pol_max_source_symbols (ctl_policy (me_controller e))"
    by (simp add: job_def frame_job_def decide_def Let_def)
  then have "cfg_source_symbols (fj_config job) \<le> 56403" using assms(1) unfolding media_sendable_def by (meson order_trans)
  then show k: "unat (max (cfg_source_symbols (fj_config job)) 1) \<le> 56403"
    by (simp add: word_le_nat_alt max_def)
  have "unat (job_symbol_size job) < 2 ^ LENGTH(16)" by (rule unsigned_less)
  then have "unat (job_symbol_size job) \<le> 65535" by simp
  then have "max_payload_len (fj_config job) \<le> 56403 * 65535" unfolding m using k by (intro mult_le_mono)
  then show "max_payload_len (fj_config job) \<le> U32_MAX" by (simp add: U32_MAX_def)
qed

lemma frame_job_wf:
  assumes "media_sendable e md payload"
  shows "job_wf (frame_job e md payload)"
proof -
  let ?m = "max_payload_len (fj_config (frame_job e md payload)) - 44"
  have m: "0 < ?m" using assms by (simp add: media_sendable_def)
  have "length payload \<le> div_ceil (length payload) ?m * ?m" by (rule div_ceil_upper [OF m])
  also have "\<dots> \<le> max (div_ceil (length payload) ?m) 1 * ?m" by (intro mult_le_mono) simp_all
  finally have hold: "length payload \<le> max (div_ceil (length payload) ?m) 1 * ?m" .
  show ?thesis
    using assms hold m
    by (simp add: job_wf_def media_sendable_def fragment_ok_def job_header_def MEDIA_FRAME_HEADER_LEN_def
        frame_job_split)
qed

lemma length_job_fragment: "length (job_fragment job i) \<le> fj_max_fragment job"
  by (auto simp: job_fragment_def Let_def)

lemma frame_job_ok:
  assumes "media_sendable e md payload" "i < fj_count (frame_job e md payload)"
  shows "job_ok (me_controller e) (frame_job e md payload) i"
proof -
  let ?job = "frame_job e md payload" and ?b = "fragment_block (frame_job e md payload) i"
  let ?k = "unat (max (cfg_source_symbols (fj_config ?job)) 1)"
  note geo = frame_job_geometry [OF assms(1)]
  have "44 < max_payload_len (fj_config ?job)" using assms(1) by (simp add: media_sendable_def)
  then have len: "length ?b \<le> max_payload_len (fj_config ?job)"
    using length_job_fragment [of ?job i] by (simp add: fragment_block_def frame_job_split)
  then have sym: "block_symbols ?b (job_symbol_size ?job) \<le> ?k"
    using geo(1) by (simp add: block_symbols_def div_ceil_le_iff geo(2))
  have "block_repair (me_controller e) ?job i \<le> pol_max_repair_symbols (ctl_policy (me_controller e))"
    by (simp add: block_repair_def repair_symbols_for_def Let_def)
  then have "unat (block_repair (me_controller e) ?job i) \<le> 2 ^ 24 - 56403"
    using assms(1) by (simp add: media_sendable_def word_le_nat_alt)
  then have "block_count (me_controller e) ?job i \<le> 2 ^ 24"
    using sym geo(3) by (simp add: block_count_def)
  moreover have "block_data ?b (job_symbol_size ?job)"
    using sym geo len by (simp add: block_data_def fragment_block_def)
  moreover have "fragment_ok (job_header ?job i) 44"
    using frame_job_wf [OF assms(1)] assms(2) unfolding job_wf_def by blast
  ultimately show ?thesis using len by (simp add: job_ok_def)
qed

definition frame_data :: "fragment_job \<Rightarrow> u32 \<Rightarrow> u32 \<Rightarrow> bytes" where
  "frame_data job b c = fragment_block job (unat (c - b))"

lemma frame_data_nth: "j < n \<Longrightarrow> n \<le> 65535 \<Longrightarrow> frame_data job b (b + of_nat j) = fragment_block job j"
  by (simp add: frame_data_def unat_of_nat take_bit_nat_eq_self)

lemma encode_frame_lawful:
  assumes "rq_lawful rq" "media_sendable e md payload"
  defines "job \<equiv> frame_job e md payload" and "b \<equiv> enc_block_id (me_fec e)"
    and "seq \<equiv> enc_packet_sequence (me_fec e)"
  shows "\<exists>e' pool' f. encode_frame_with_optional_pool crc rq e md payload pool = (e', pool', Inr f) \<and>
    ef_blocks f = layout_blocks (me_controller e) job b 0 [0..<fj_count job] \<and>
    ef_datagrams f = map (send_item crc rq (frame_data job b) (job_symbol_size job))
      (layout (me_controller e) job b seq [0..<fj_count job])"
proof -
  let ?data = "frame_data job b" and ?cfg = "dcn_config (decide (me_controller e) (length payload + 44) (metadata_priority md))"
  have cfg: "?cfg = fj_config job" by (simp add: job_def frame_job_def Let_def)
  have big: "44 < max_payload_len (fj_config job)" and n: "fj_count job \<le> 65535" and len: "length payload \<le> U32_MAX"
    using assms(2) by (simp_all add: media_sendable_def job_def)
  have eq: "\<lparr>fj_metadata = md, fj_payload = payload, fj_config = fj_config job, fj_priority = metadata_priority md,
      fj_max_fragment = max_payload_len (fj_config job) - 44, fj_count = fj_count job\<rparr> = job"
    by (simp add: job_def frame_job_def Let_def)
  have count: "max (div_ceil (length payload) (max_payload_len (fj_config job) - 44)) 1 = fj_count job"
    by (simp add: job_def frame_job_split)
  have ok: "\<forall>i \<in> set [0..<fj_count job]. job_ok (me_controller e) job i"
    using frame_job_ok [OF assms(2)] by (simp add: job_def)
  have data: "\<forall>j < length [0..<fj_count job]. ?data (b + of_nat j) = fragment_block job ([0..<fj_count job] ! j)"
    using frame_data_nth n by simp
  obtain e1 pool1 where enc: "encode_fragments crc rq (me_controller e) job (me_fec e) pool 0 [0..<fj_count job] =
      (e1, pool1, Inr (layout_blocks (me_controller e) job b 0 [0..<fj_count job],
         map (send_item crc rq ?data (job_symbol_size job)) (layout (me_controller e) job b seq [0..<fj_count job])))"
    using encode_fragments_lawful [where data = ?data and e = "me_fec e", OF assms(1) ok data] b_def seq_def by blast
  have g: "\<not> max_payload_len (fj_config job) \<le> 44" "\<not> 65535 < fj_count job" "\<not> U32_MAX < length payload"
    using big n len by simp_all
  show ?thesis
    unfolding encode_frame_with_optional_pool_def Let_def MEDIA_FRAME_HEADER_LEN_def cfg if_not_P [OF g(1)] count
      if_not_P [OF g(2)] if_not_P [OF g(3)] eq enc
    by simp
qed

text \<open>The blocks of a job, pushed interleaved, all come out, each once and in some order.\<close>

lemma layout_delivery:
  fixes job :: fragment_job and b :: u32 and ctl :: adaptive_controller and seq :: u32
  defines "n \<equiv> fj_count job" and "s \<equiv> job_symbol_size job"
  defines "L \<equiv> layout ctl job b seq [0..<n]"
  assumes lawful: "rq_lawful rq" and ok: "\<forall>i \<in> set [0..<n]. job_ok ctl job i"
    and n: "n \<le> 65" "unat b + n \<le> 2 ^ 32" and got: "set got \<subseteq> {..<length L}"
    and src: "\<forall>p < length L. find_map (\<lambda>m. block_datagram_role m p) (layout_blocks ctl job b 0 [0..<n]) =
        Some SourceRole \<longrightarrow> p \<in> set got"
    and push: "push_all crc rq decoder_new (map (send_item crc rq (frame_data job b) s) (map ((!) L) got)) = (d', rs)"
  shows "all_ok rs \<and> (\<exists>js. delivered rs = map (fragment_block job) js \<and> mset js = mset [0..<n])"
proof -
  let ?data = "frame_data job b" and ?B = "{b + of_nat j |j. j < n}" and ?xs = "map ((!) L) got"
  have data: "?data (b + of_nat j) = fragment_block job j" if "j < n" for j
    using frame_data_nth [OF that] n(1) by simp
  note win = window_interval [OF n(2,1)]
  have short: "0 + length L \<le> usize_max" unfolding L_def by (rule layout_short [OF ok]) (use n in simp)
  have g: "set ?xs \<subseteq> set L" using got by auto
  have B: "?B = (\<lambda>j. b + of_nat j) ` {..<n}" by auto
  have full: "{0..<block_symbols (?data c) s} \<subseteq> snd ` set (items_of c ?xs)" if c: "c \<in> ?B" for c
  proof
    fix t assume t: "t \<in> {0..<block_symbols (?data c) s}"
    obtain j where j: "j < n" "c = b + of_nat j" using c by blast
    have j': "j < length [0..<n]" "t < block_symbols (fragment_block job ([0..<n] ! j)) (job_symbol_size job)"
      using j t data [OF j(1)] by (simp_all add: s_def)
    obtain p where p: "p < length L" "fst (L ! p) = c" "snd (snd (L ! p)) = t"
        "find_map (\<lambda>m. block_datagram_role m (0 + p)) (layout_blocks ctl job b 0 [0..<n]) = Some SourceRole"
      using layout_sources [OF ok short [unfolded L_def] j'] unfolding L_def [symmetric] j(2) by blast
    then have "p \<in> set got" using src by simp
    then have "L ! p \<in> set ?xs" by simp
    then show "t \<in> snd ` set (items_of c ?xs)" using p(2,3) by (force simp: items_of_def)
  qed
  have items: "\<forall>x \<in> set ?xs. fst x \<in> ?B \<and> snd (snd x) < 2 ^ 24"
  proof
    fix x assume "x \<in> set ?xs"
    then have "x \<in> set (layout ctl job b seq [0..<n])" using g unfolding L_def by (rule rev_subsetD)
    from layout_items [OF this ok] show "fst x \<in> ?B \<and> snd (snd x) < 2 ^ 24" by auto
  qed
  have blocks: "\<forall>c \<in> ?B. block_data (?data c) s"
  proof
    fix c assume "c \<in> ?B"
    then obtain j where j: "j < n" "c = b + of_nat j" by blast
    have "job_ok ctl job j" using ok j(1) by simp
    then show "block_data (?data c) s" unfolding j(2) data [OF j(1)] job_ok_def s_def by blast
  qed
  have deliver: "all_ok rs \<and> mset (delivered rs) = image_mset ?data (mset_set ?B)"
  proof (rule interleaved_delivery [OF lawful win(1) _ blocks items _ _ push])
    show "finite ?B" unfolding B by simp
    show "\<forall>c \<in> ?B. dec_blocks decoder_new c = None \<and> c \<notin> dec_completed decoder_new"
      by (simp add: decoder_new_def)
    show "\<forall>c \<in> ?B. {0..<block_symbols (?data c) s} \<subseteq> snd ` set (items_of c ?xs)"
      using full by (intro ballI)
  qed
  have "image_mset ?data (mset_set ?B) = image_mset (\<lambda>j. ?data (b + of_nat j)) (mset_set {..<n})"
    unfolding B image_mset_mset_set [OF win(2), symmetric] by (simp add: multiset.map_comp comp_def)
  also have "\<dots> = image_mset (fragment_block job) (mset_set {..<n})"
    by (rule image_mset_cong) (use data in simp)
  also have "\<dots> = mset (map (fragment_block job) [0..<n])"
    by (simp add: lessThan_atLeast0)
  finally show ?thesis using deliver mset_map_perm [of "delivered rs" "fragment_block job" "[0..<n]"] by simp
qed

lemma accept_job:
  assumes wf: "job_wf job" and js: "mset js = mset [0..<fj_count job]"
  shows "all_ok (snd (accept_all (media_decoder_new :: 'd media_decoder) (map (fragment_block job) js))) \<and>
    delivered (snd (accept_all (media_decoder_new :: 'd media_decoder) (map (fragment_block job) js))) = [job_frame job]"
proof -
  have "distinct js" using mset_eq_imp_distinct_iff [OF js] by simp
  moreover have set: "set js = {..<fj_count job}" using mset_eq_setD [OF js] by (simp add: lessThan_atLeast0)
  moreover from this have "js \<noteq> []" using wf by (auto simp: job_wf_def)
  moreover have "pending job (media_decoder_new :: 'd media_decoder) {}"
    by (simp add: pending_def media_decoder_new_def)
  ultimately show ?thesis using accept_fragments [OF wf, where S = "{}"] by simp
qed

lemma layout_frame:
  fixes job :: fragment_job and b :: u32 and ctl :: adaptive_controller and seq :: u32
  defines "n \<equiv> fj_count job" and "s \<equiv> job_symbol_size job"
  defines "L \<equiv> layout ctl job b seq [0..<n]"
  assumes lawful: "rq_lawful rq" and wf: "job_wf job" and ok: "\<forall>i \<in> set [0..<n]. job_ok ctl job i"
    and n: "n \<le> 65" "unat b + n \<le> 2 ^ 32" and got: "set got \<subseteq> {..<length L}"
    and src: "\<forall>p < length L. find_map (\<lambda>m. block_datagram_role m p) (layout_blocks ctl job b 0 [0..<n]) =
        Some SourceRole \<longrightarrow> p \<in> set got"
    and push: "media_push_all crc rq media_decoder_new
        (map ((!) (map (send_item crc rq (frame_data job b) s) L)) got) = (d', rs)"
  shows "all_ok rs \<and> delivered rs = [job_frame job]"
proof -
  have map_eq: "map ((!) (map (send_item crc rq (frame_data job b) s) L)) got =
      map (send_item crc rq (frame_data job b) s) (map ((!) L) got)"
    using got by auto
  obtain fec qs where flow: "push_all crc rq decoder_new
      (map (send_item crc rq (frame_data job b) s) (map ((!) L) got)) = (fec, qs)" by fastforce
  have deliver: "all_ok qs \<and> (\<exists>js. delivered qs = map (fragment_block job) js \<and> mset js = mset [0..<n])"
    unfolding n_def
    by (rule layout_delivery [OF lawful ok [unfolded n_def] n [unfolded n_def] got [unfolded L_def n_def]
          src [unfolded L_def n_def] flow [unfolded L_def n_def s_def]])
  then obtain js where js: "delivered qs = map (fragment_block job) js" "mset js = mset [0..<fj_count job]"
    unfolding n_def by blast
  have "push_all crc rq (mdec_fec media_decoder_new)
      (map (send_item crc rq (frame_data job b) s) (map ((!) L) got)) = (fec, qs)"
    using flow by (simp add: media_decoder_new_def)
  from media_flow [OF this _ push [unfolded map_eq]] show ?thesis
    using accept_job [OF wf js(2)] conjunct1 [OF deliver] unfolding js(1) by simp
qed

text \<open>
  C8. Media frames survive loss and reordering. For a lawful codec and a frame the policy admits in at
  most 65 fragments, encoding succeeds. Let any of the frame's datagrams arrive, in any order and any
  number of times, the fragments' blocks interleaved, as long as every datagram that \<open>datagram_role\<close>
  calls a source datagram arrives at least once. Then no push into a fresh media decoder fails and the
  flow delivers exactly one frame: the metadata and the payload that were sent.
\<close>
theorem media_frame_survives_loss:
  assumes "rq_lawful rq" "media_sendable e md payload"
    and "fj_count (frame_job e md payload) \<le> 65"
    and "unat (enc_block_id (me_fec e)) + fj_count (frame_job e md payload) \<le> 2 ^ 32"
  shows "\<exists>e' f. encode_frame crc rq e md payload = (e', Inr f) \<and>
    (\<forall>got d' rs. set got \<subseteq> {..<length (ef_datagrams f)} \<longrightarrow>
       (\<forall>i < length (ef_datagrams f). frame_datagram_role f i = Some SourceRole \<longrightarrow> i \<in> set got) \<longrightarrow>
       media_push_all crc rq media_decoder_new (map ((!) (ef_datagrams f)) got) = (d', rs) \<longrightarrow>
       all_ok rs \<and> delivered rs = [\<lparr>df_metadata = md, df_payload = payload\<rparr>])"
proof -
  let ?job = "frame_job e md payload" and ?b = "enc_block_id (me_fec e)"
  obtain e' pool' f where enc: "encode_frame_with_optional_pool crc rq e md payload None = (e', pool', Inr f)"
    and f: "ef_blocks f = layout_blocks (me_controller e) ?job ?b 0 [0..<fj_count ?job]"
      "ef_datagrams f = map (send_item crc rq (frame_data ?job ?b) (job_symbol_size ?job))
        (layout (me_controller e) ?job ?b (enc_packet_sequence (me_fec e)) [0..<fj_count ?job])"
    using encode_frame_lawful [OF assms(1,2)] by blast
  have ok: "\<forall>i \<in> set [0..<fj_count ?job]. job_ok (me_controller e) ?job i"
    using frame_job_ok [OF assms(2)] by (simp)
  have "encode_frame crc rq e md payload = (e', Inr f)"
    using enc by (simp add: encode_frame_def drop_pool_eq)
  moreover have "all_ok rs \<and> delivered rs = [\<lparr>df_metadata = md, df_payload = payload\<rparr>]"
    if "set got \<subseteq> {..<length (ef_datagrams f)}"
      "\<forall>i < length (ef_datagrams f). frame_datagram_role f i = Some SourceRole \<longrightarrow> i \<in> set got"
      "media_push_all crc rq media_decoder_new (map ((!) (ef_datagrams f)) got) = (d', rs)"
    for got and d' :: "'b media_decoder" and rs
    using layout_frame [OF assms(1) frame_job_wf [OF assms(2)] ok assms(3,4) _ _ that(3) [unfolded f(2)]]
      that(1,2)
    unfolding frame_datagram_role_def f length_map by (simp add: job_frame_def)
  ultimately show ?thesis by blast
qed

definition example_encoder :: media_encoder where
  "example_encoder = media_encoder_new controller_default"

lemma example_policy:
  "pol_symbol_size (ctl_policy controller_default) = 1316"
  "pol_min_source_symbols (ctl_policy controller_default) = 4"
  "pol_max_source_symbols (ctl_policy controller_default) = 48"
  "pol_max_repair_symbols (ctl_policy controller_default) = 16"
  by (simp_all add: controller_default_def controller_new_def normalized_def fec_policy_default_def Let_def
      DEFAULT_SYMBOL_SIZE_def DEFAULT_SOURCE_SYMBOLS_def max_def word_le_nat_alt)

lemma example_config:
  "cfg_symbol_size (fj_config (frame_job example_encoder example_metadata [1, 2, 3])) = 1316"
  "cfg_source_symbols (fj_config (frame_job example_encoder example_metadata [1, 2, 3])) = 4"
proof -
  have prio: "metadata_priority example_metadata = VideoKey"
    by (simp add: metadata_priority_def codec_priority_def example_metadata_def metadata_new_def is_keyframe_def
        FLAG_KEYFRAME_def)
  have size: "symbol_size_for_payload controller_default 47 VideoKey = 1316"
    by (simp add: symbol_size_for_payload_def example_policy max_def word_le_nat_alt)
  have k: "source_symbol_count 47 1316 = 1"
    by (simp add: source_symbol_count_def div_ceil_def max_def word_le_nat_alt)
  show "cfg_symbol_size (fj_config (frame_job example_encoder example_metadata [1, 2, 3])) = 1316"
    "cfg_source_symbols (fj_config (frame_job example_encoder example_metadata [1, 2, 3])) = 4"
    by (simp_all add: frame_job_def decide_def Let_def example_encoder_def media_encoder_new_def prio size k
        example_policy max_def min_def word_le_nat_alt)
qed

lemma example_sendable:
  "media_sendable example_encoder example_metadata [1, 2, 3]"
  "fj_count (frame_job example_encoder example_metadata [1, 2, 3]) = 1"
  "enc_block_id (me_fec example_encoder) = 0"
proof -
  have len: "max_payload_len (fj_config (frame_job example_encoder example_metadata [1, 2, 3])) = 5264"
    by (simp add: max_payload_len_def example_config max_def word_le_nat_alt)
  show n: "fj_count (frame_job example_encoder example_metadata [1, 2, 3]) = 1"
    by (simp add: frame_job_split len div_ceil_def)
  have pol: "me_controller example_encoder = controller_default"
    by (simp add: example_encoder_def media_encoder_new_def)
  show "media_sendable example_encoder example_metadata [1, 2, 3]"
    unfolding media_sendable_def pol example_policy len n
    by (simp add: U32_MAX_def example_metadata_def metadata_new_def word_le_nat_alt)
  show "enc_block_id (me_fec example_encoder) = 0" 
    by (simp add: example_encoder_def media_encoder_new_def encoder_new_def)
qed

theorem media_frame_survives_loss_witness:
  "\<exists>e' f. encode_frame crc_reference rep_codec example_encoder example_metadata [1, 2, 3] = (e', Inr f) \<and>
     delivered (snd (media_push_all crc_reference rep_codec media_decoder_new (rev (ef_datagrams f)))) =
       [\<lparr>df_metadata = example_metadata, df_payload = [1, 2, 3]\<rparr>]"
proof -
  obtain e' f where enc: "encode_frame crc_reference rep_codec example_encoder example_metadata [1, 2, 3] = (e', Inr f)"
    and all: "\<And>got d' rs. set got \<subseteq> {..<length (ef_datagrams f)} \<Longrightarrow>
       (\<forall>i < length (ef_datagrams f). frame_datagram_role f i = Some SourceRole \<longrightarrow> i \<in> set got) \<Longrightarrow>
       media_push_all crc_reference rep_codec media_decoder_new (map ((!) (ef_datagrams f)) got) = (d', rs) \<Longrightarrow>
       delivered rs = [\<lparr>df_metadata = example_metadata, df_payload = [1, 2, 3]\<rparr>]"
    using media_frame_survives_loss [OF rep_codec_lawful example_sendable(1), of crc_reference]
      example_sendable(2,3) by auto
  have "map ((!) (ef_datagrams f)) (rev [0..<length (ef_datagrams f)]) = rev (ef_datagrams f)"
    by (simp add: rev_map [symmetric] map_nth)
  then show ?thesis
    using enc all [of "rev [0..<length (ef_datagrams f)]", OF _ _ prod.collapse [symmetric]]
    by (auto simp: lessThan_atLeast0)
qed

lemma encode_frame_pool:
  "drop_pool (encode_frame_with_optional_pool crc rq e md payload pool) =
   drop_pool (encode_frame_with_optional_pool crc rq e md payload pool')"
proof -
  have frag: "drop_pool (encode_fragments crc rq ctl job en p n is) = drop_pool (encode_fragments crc rq ctl job en p' n is)"
    for ctl job en p p' n "is"
  proof (induction "is" arbitrary: en p p' n)
    case (Cons i rest)
    let ?e1 = "set_symbol_size (cfg_symbol_size (fj_config job))
                      (set_source_symbols (cfg_source_symbols (fj_config job)) en)"
    obtain hdr where "fragment_encode (job_header job i) (replicate MEDIA_FRAME_HEADER_LEN 0) = Inr hdr \<or>
       (\<exists>err. fragment_encode (job_header job i) (replicate MEDIA_FRAME_HEADER_LEN 0) = Inl err)"
      by (cases "fragment_encode (job_header job i) (replicate MEDIA_FRAME_HEADER_LEN 0)") auto
    then show ?case
    proof
      assume h: "fragment_encode (job_header job i) (replicate MEDIA_FRAME_HEADER_LEN 0) = Inr hdr"
      let ?blk = "hdr @ job_fragment job i"
      let ?r = "repair_symbols_for ctl (source_symbol_count (length ?blk) (cfg_symbol_size (fj_config job))) (fj_priority job)"
      obtain q where q: "encode_block_pooled crc rq ?e1 ?blk ?r p =
         (fst (encode_block_with_repair_symbols crc rq ?e1 ?blk ?r), q, snd (encode_block_with_repair_symbols crc rq ?e1 ?blk ?r))"
        using encode_block_pooled_fst by blast
      obtain q' where q': "encode_block_pooled crc rq ?e1 ?blk ?r p' =
         (fst (encode_block_with_repair_symbols crc rq ?e1 ?blk ?r), q', snd (encode_block_with_repair_symbols crc rq ?e1 ?blk ?r))"
        using encode_block_pooled_fst by blast
      show ?case
      proof (cases "snd (encode_block_with_repair_symbols crc rq ?e1 ?blk ?r)")
        case (Inr ds)
        then show ?thesis
          using Cons.IH [of "fst (encode_block_with_repair_symbols crc rq ?e1 ?blk ?r)" q "n + length ds" q']
          unfolding encode_fragments.simps h sum.case Let_def q q' prod.case Inr
          by (simp add: drop_pool_eq case_prod_beta)
      next
        case (Inl err)
        then show ?thesis
          unfolding encode_fragments.simps h sum.case Let_def q q' prod.case Inl
          by (simp add: drop_pool_eq)
      qed
    qed (auto simp: drop_pool_eq)
  qed (simp add: drop_pool_eq)
  have fst_eq: "fst (encode_fragments crc rq (me_controller e) job (me_fec e) pool 0 is) =
      fst (encode_fragments crc rq (me_controller e) job (me_fec e) pool' 0 is)"
    and snd_eq: "snd (snd (encode_fragments crc rq (me_controller e) job (me_fec e) pool 0 is)) =
      snd (snd (encode_fragments crc rq (me_controller e) job (me_fec e) pool' 0 is))" for job "is"
    using frag [of "me_controller e" job "me_fec e" pool 0 "is" pool'] by (simp_all add: drop_pool_eq)
  show ?thesis
    unfolding encode_frame_with_optional_pool_def Let_def case_prod_beta drop_pool_eq
    by (simp only: if_distrib [of fst] if_distrib [of snd] fst_conv snd_conv fst_eq snd_eq)
qed

text \<open>A delivered frame is not delivered again while its key is remembered.\<close>

lemma prune_completed_self: "k \<in> prune_completed (insert k C) k"
  by (simp add: prune_completed_def word_le_nat_alt unat_sat_sub)

lemma finished_metadata:
  "partial_insert p h x = Inr q \<Longrightarrow> partial_finish q = Inr f \<Longrightarrow> df_metadata f = fh_metadata h"
  by (auto simp: partial_insert_def partial_finish_def Let_def split: if_splits option.splits)

lemma kept_frame_iff:
  "c \<in> prune_completed C k \<longleftrightarrow> c \<in> C \<and> (fst c = fst k \<longrightarrow> unat (snd k) \<le> unat (snd c) + 128)"
proof -
  have small: "snd k < 128 \<longleftrightarrow> unat (snd k) < 128" by (simp add: word_less_nat_alt)
  have behind: "sat_sub (snd k) 128 \<le> snd c \<longleftrightarrow> unat (snd k) \<le> unat (snd c) + 128"
    by (simp add: word_le_nat_alt unat_sat_sub le_diff_conv)
  show ?thesis unfolding prune_completed_def mem_Collect_eq behind small by auto
qed

lemma accept_some:
  assumes "accept_block d block = (d', Inr (Some f))"
  defines "key \<equiv> (md_stream_id (df_metadata f), md_sequence (df_metadata f))"
  shows "key \<notin> mdec_completed d" "key \<in> mdec_completed d'" "mdec_partial d' key = None"
proof -
  have "key \<notin> mdec_completed d \<and> key \<in> mdec_completed d' \<and> mdec_partial d' key = None"
    using assms(1) unfolding key_def
    by (auto simp: accept_block_def Let_def rbind_eq_Inr prune_completed_self dest: finished_metadata
        split: if_splits sum.splits)
  then show "key \<notin> mdec_completed d" "key \<in> mdec_completed d'" "mdec_partial d' key = None" by simp_all
qed

lemma accept_keeps:
  assumes "accept_block d block = (d', r)"
  shows "mdec_completed d' = mdec_completed d \<or>
      (\<exists>k. k \<notin> mdec_completed d \<and> mdec_completed d' = prune_completed (insert k (mdec_completed d)) k)"
    "key \<in> mdec_completed d \<Longrightarrow> mdec_partial d' key = mdec_partial d key"
  using assms by (auto simp: accept_block_def Let_def simp del: split_paired_Ex split_paired_All split: if_splits sum.splits)

lemma media_push_keeps:
  assumes "media_push_datagram crc rq d x = (d', r)"
  shows "mdec_completed d' = mdec_completed d \<or>
      (\<exists>k. k \<notin> mdec_completed d \<and> mdec_completed d' = prune_completed (insert k (mdec_completed d)) k)"
    "key \<in> mdec_completed d \<Longrightarrow> mdec_partial d' key = mdec_partial d key"
proof -
  obtain fec q where push: "push_datagram crc rq (mdec_fec d) x = (fec, q)" by fastforce
  show "mdec_completed d' = mdec_completed d \<or>
      (\<exists>k. k \<notin> mdec_completed d \<and> mdec_completed d' = prune_completed (insert k (mdec_completed d)) k)"
    "key \<in> mdec_completed d \<Longrightarrow> mdec_partial d' key = mdec_partial d key"
    using assms accept_keeps [of "d\<lparr>mdec_fec := fec\<rparr>"]
    by (auto simp: media_push_datagram_def push simp del: split_paired_Ex split_paired_All split: sum.splits option.splits)
qed

lemma media_push_some:
  assumes "media_push_datagram crc rq d x = (d', Inr (Some f))"
  defines "key \<equiv> (md_stream_id (df_metadata f), md_sequence (df_metadata f))"
  shows "key \<notin> mdec_completed d" "key \<in> mdec_completed d'" "mdec_partial d' key = None"
proof -
  obtain fec block where "accept_block (d\<lparr>mdec_fec := fec\<rparr>) block = (d', Inr (Some f))"
    using assms(1) by (auto simp: media_push_datagram_def split: prod.splits sum.splits option.splits)
  from accept_some [OF this]
  show "key \<notin> mdec_completed d" "key \<in> mdec_completed d'" "mdec_partial d' key = None"
    by (simp_all add: key_def)
qed

text \<open>
  No datagram of the run completes a frame of the stream of \<open>key\<close> that is more than 128 sequence numbers ahead
  of it: what the decoder newly remembers at each step is of another stream or not that far ahead.
\<close>
primrec none_far_ahead ::
    "crc_fun \<Rightarrow> ('e, 'd) raptorq \<Rightarrow> frame_key \<Rightarrow> 'd media_decoder \<Rightarrow> bytes list \<Rightarrow> bool" where
  "none_far_ahead crc rq key d [] = True"
| "none_far_ahead crc rq key d (x # xs) =
     (case media_push_datagram crc rq d x of
        (d1, r) \<Rightarrow> (\<forall>k \<in> mdec_completed d1 - mdec_completed d.
            fst k = fst key \<longrightarrow> unat (snd k) \<le> unat (snd key) + 128) \<and>
          none_far_ahead crc rq key d1 xs)"

lemma media_push_remembers:
  assumes push: "media_push_datagram crc rq d x = (d1, r)" and key: "key \<in> mdec_completed d"
    and near: "\<forall>k \<in> mdec_completed d1 - mdec_completed d. fst k = fst key \<longrightarrow> unat (snd k) \<le> unat (snd key) + 128"
  shows "key \<in> mdec_completed d1"
  using media_push_keeps(1) [OF push]
proof (elim disjE exE conjE)
  fix k
  assume k: "k \<notin> mdec_completed d" and d1: "mdec_completed d1 = prune_completed (insert k (mdec_completed d)) k"
  then have "k \<in> mdec_completed d1 - mdec_completed d" by (simp add: prune_completed_self)
  then show ?thesis using near key by (auto simp: d1 kept_frame_iff)
qed (simp add: key)

lemma media_run_remembers:
  "media_push_all crc rq d xs = (d', rs) \<Longrightarrow> none_far_ahead crc rq key d xs \<Longrightarrow> key \<in> mdec_completed d \<Longrightarrow>
   mdec_partial d key = None \<Longrightarrow>
   key \<in> mdec_completed d' \<and> mdec_partial d' key = None \<and>
   (\<forall>g. Inr (Some g) \<in> set rs \<longrightarrow> (md_stream_id (df_metadata g), md_sequence (df_metadata g)) \<noteq> key)"
proof (induction xs arbitrary: d rs)
  case (Cons x xs)
  obtain d1 r where one: "media_push_datagram crc rq d x = (d1, r)" by fastforce
  obtain d2 qs where rest: "media_push_all crc rq d1 xs = (d2, qs)" by fastforce
  have res: "d' = d2" "rs = r # qs" using Cons.prems(1) one rest by auto
  have near: "\<forall>k \<in> mdec_completed d1 - mdec_completed d. fst k = fst key \<longrightarrow> unat (snd k) \<le> unat (snd key) + 128"
      "none_far_ahead crc rq key d1 xs"
    using Cons.prems(2) by (simp_all add: one)
  have key: "key \<in> mdec_completed d1" "mdec_partial d1 key = None"
    using media_push_remembers [OF one Cons.prems(3) near(1)] media_push_keeps(2) [OF one Cons.prems(3)] Cons.prems(4)
    by simp_all
  have "(md_stream_id (df_metadata g), md_sequence (df_metadata g)) \<noteq> key" if "r = Inr (Some g)" for g
    using media_push_some(1) [OF one [unfolded that]] Cons.prems(3) by auto
  then show ?case using Cons.IH [OF rest [folded res(1)] near(2) key] by (auto simp: res)
qed simp

text \<open>
  C11. No duplicate frames. Push any datagram into a media decoder in any state and let it deliver a frame; then push
  any further datagrams, valid or not, of this frame and of others, as long as no frame of the same stream completes
  whose sequence number is more than 128 ahead. Then none of them delivers a frame with that stream and sequence
  number again, the frame is still remembered and has no reassembly state, and any further block of it, whatever it
  carries, leaves the reassembly as it is and delivers nothing. The bound is exact: a datagram that completes a frame
  further ahead on the stream makes the decoder forget the frame.
\<close>
theorem delivered_frame_suppressed:
  assumes "media_push_datagram crc rq d x = (d1, Inr (Some f))"
    and "media_push_all crc rq d1 xs = (d2, rs)"
    and "none_far_ahead crc rq (md_stream_id (df_metadata f), md_sequence (df_metadata f)) d1 xs"
  shows "(\<forall>g. Inr (Some g) \<in> set rs \<longrightarrow>
      (md_stream_id (df_metadata g), md_sequence (df_metadata g)) \<noteq> (md_stream_id (df_metadata f), md_sequence (df_metadata f))) \<and>
    (md_stream_id (df_metadata f), md_sequence (df_metadata f)) \<in> mdec_completed d2 \<and>
    mdec_partial d2 (md_stream_id (df_metadata f), md_sequence (df_metadata f)) = None \<and>
    (\<forall>later h. fragment_decode (sub_slice later 0 MEDIA_FRAME_HEADER_LEN) = Inr h \<longrightarrow>
       md_stream_id (fh_metadata h) = md_stream_id (df_metadata f) \<longrightarrow>
       md_sequence (fh_metadata h) = md_sequence (df_metadata f) \<longrightarrow>
       fst (accept_block d2 later) = d2 \<and> (\<forall>g. snd (accept_block d2 later) \<noteq> Inr (Some g))) \<and>
    (\<forall>y s. unat (md_sequence (df_metadata f)) + 128 < unat s \<longrightarrow>
       (md_stream_id (df_metadata f), s) \<in> mdec_completed (fst (media_push_datagram crc rq d2 y)) - mdec_completed d2 \<longrightarrow>
       (md_stream_id (df_metadata f), md_sequence (df_metadata f)) \<notin> mdec_completed (fst (media_push_datagram crc rq d2 y)))"
proof -
  let ?key = "(md_stream_id (df_metadata f), md_sequence (df_metadata f))"
  note kept = media_run_remembers [OF assms(2,3) media_push_some(2,3) [OF assms(1)]]
  have "fst (accept_block d2 later) = d2 \<and> (\<forall>g. snd (accept_block d2 later) \<noteq> Inr (Some g))"
    if "fragment_decode (sub_slice later 0 MEDIA_FRAME_HEADER_LEN) = Inr h"
      "md_stream_id (fh_metadata h) = md_stream_id (df_metadata f)"
      "md_sequence (fh_metadata h) = md_sequence (df_metadata f)" for later h
    using kept that by (simp add: accept_block_def Let_def)
  moreover have "?key \<notin> mdec_completed (fst (media_push_datagram crc rq d2 y))"
    if far: "unat (md_sequence (df_metadata f)) + 128 < unat s"
      and new: "(md_stream_id (df_metadata f), s) \<in> mdec_completed (fst (media_push_datagram crc rq d2 y)) - mdec_completed d2"
    for y s
    using media_push_keeps(1) [OF prod.collapse [symmetric], of crc rq d2 y] far new by (auto simp: kept_frame_iff)
  ultimately show ?thesis using kept by blast
qed

lemma example_frame_block:
  fixes crc :: crc_fun and b :: u32 and q :: u32
  defines "block \<equiv> fragment_wire example_fragment @ [8, 9]"
  assumes new: "dec_blocks (mdec_fec d) b = None" "b \<notin> dec_completed (mdec_fec d)"
    and push: "media_push_datagram crc rep_codec d (sent crc rep_codec b block 64 (q, 0)) = (d', r)"
  shows "\<exists>fec. (d', r) = accept_block (d\<lparr>mdec_fec := fec\<rparr>) block \<and>
    dec_completed fec \<subseteq> insert b (dec_completed (mdec_fec d)) \<and>
    dom (dec_blocks fec) \<subseteq> insert b (dom (dec_blocks (mdec_fec d)))"
proof -
  have len: "length block = 46" by (simp add: block_def)
  have one: "block_symbols block 64 = 1" by (simp add: block_symbols_def len div_ceil_def)
  have bd: "block_data block 64" by (simp add: block_data_def len one U32_MAX_def)
  obtain fec qs where all: "push_all crc rep_codec (mdec_fec d) (map (sent crc rep_codec b block 64) [(q, 0)]) = (fec, qs)"
    by fastforce
  have cur: "current_decoder rep_codec (mdec_fec d) b block 64 = block_decoder rep_codec (length block) 64"
    by (simp add: current_decoder_def new)
  have ran: "codec_run rep_codec (block_decoder rep_codec (length block) 64)
      (map (block_packet rep_codec block 64) (map snd [(q, 0 :: nat)])) = Some block"
    by (rule codec_run_once(2) [OF rep_codec_lawful bd]) (simp_all add: one)
  note flow = block_stream [OF rep_codec_lawful bd _ _ new(2) all refl, unfolded cur ran option.case]
  have "delivered qs = [block]" "dec_completed fec \<subseteq> insert b (dec_completed (mdec_fec d))"
      "dom (dec_blocks fec) \<subseteq> insert b (dom (dec_blocks (mdec_fec d)))"
    using flow by (simp_all add: new)
  moreover obtain x where x: "push_datagram crc rep_codec (mdec_fec d) (sent crc rep_codec b block 64 (q, 0)) = (fec, x)"
      "qs = [x]"
    using all by (auto split: prod.splits)
  ultimately have "x = Inr (Some block)" by (simp split: sum.splits option.splits)
  then have "(d', r) = accept_block (d\<lparr>mdec_fec := fec\<rparr>) block"
    using push x(1) by (simp add: media_push_datagram_def)
  then show ?thesis using \<open>dec_completed fec \<subseteq> _\<close> \<open>dom (dec_blocks fec) \<subseteq> _\<close> by blast
qed

lemma example_frame_decodes:
  "fragment_decode (sub_slice (fragment_wire example_fragment @ [8, 9]) 0 MEDIA_FRAME_HEADER_LEN) = Inr example_fragment"
proof -
  have "fragment_ok example_fragment 44"
    by (simp add: fragment_ok_def example_fragment_def example_metadata_def metadata_new_def
        MEDIA_FRAME_HEADER_LEN_def word_le_nat_alt)
  from fragment_decode_wire [OF this, of "[]"] show ?thesis
    by (simp add: MEDIA_FRAME_HEADER_LEN_def sub_slice_def)
qed

lemma example_frame_accepted:
  "accept_block (media_decoder_new\<lparr>mdec_fec := fec\<rparr>) (fragment_wire example_fragment @ [8, 9]) =
      (media_decoder_new\<lparr>mdec_fec := fec,
         mdec_completed := {(md_stream_id example_metadata, md_sequence example_metadata)}\<rparr>,
       Inr (Some \<lparr>df_metadata = example_metadata, df_payload = [8, 9]\<rparr>))"
proof -
  have "prune_completed {k} k = {k}" for k by (auto simp: kept_frame_iff)
  then show ?thesis
    using example_frame_decodes
    by (simp add: accept_block_def media_decoder_new_def Let_def example_fragment_def MEDIA_FRAME_HEADER_LEN_def
        partial_new_def partial_insert_def partial_is_complete_def partial_finish_def sat_add_def)
qed

lemma example_frame_again:
  fixes d :: "'d media_decoder"
  assumes "(md_stream_id example_metadata, md_sequence example_metadata) \<in> mdec_completed d"
  shows "accept_block d (fragment_wire example_fragment @ [8, 9]) = (d, Inr None)"
  using example_frame_decodes assms
  by (simp add: accept_block_def Let_def example_fragment_def MEDIA_FRAME_HEADER_LEN_def)

theorem delivered_frame_suppressed_witness:
  "let dg = (\<lambda>b. sent crc_reference rep_codec b (fragment_wire example_fragment @ [8, 9]) 64 (0, 0))
   in \<exists>d1 d2. media_push_datagram crc_reference rep_codec media_decoder_new (dg 0) =
          (d1, Inr (Some \<lparr>df_metadata = example_metadata, df_payload = [8, 9]\<rparr>)) \<and>
        media_push_all crc_reference rep_codec d1 [dg 1, []] = (d2, [Inr None, Inl (MediaFec (PacketTooShort 0))]) \<and>
        (md_stream_id example_metadata, md_sequence example_metadata) \<in> mdec_completed d2 \<and>
        (\<forall>g. snd (accept_block d2 (fragment_wire example_fragment @ [8, 9])) \<noteq> Inr (Some g))"
proof -
  let ?dg = "\<lambda>b. sent crc_reference rep_codec b (fragment_wire example_fragment @ [8, 9]) 64 (0, 0)"
  let ?key = "(md_stream_id example_metadata, md_sequence example_metadata)"
  let ?f = "\<lparr>df_metadata = example_metadata, df_payload = [8, 9]\<rparr>"
  obtain d1 r1 where p1: "media_push_datagram crc_reference rep_codec media_decoder_new (?dg 0) = (d1, r1)" by fastforce
  obtain fec where fec: "(d1, r1) = accept_block (media_decoder_new\<lparr>mdec_fec := fec\<rparr>) (fragment_wire example_fragment @ [8, 9])"
      "dec_completed fec \<subseteq> {0}" "dom (dec_blocks fec) \<subseteq> {0}"
    using example_frame_block [OF _ _ p1] by (auto simp: media_decoder_new_def decoder_new_def)
  have r1: "d1 = media_decoder_new\<lparr>mdec_fec := fec, mdec_completed := {?key}\<rparr>" "r1 = Inr (Some ?f)"
    using fec(1) by (simp_all add: example_frame_accepted)
  obtain d2 r2 where p2: "media_push_datagram crc_reference rep_codec d1 (?dg 1) = (d2, r2)" by fastforce
  have "dec_blocks (mdec_fec d1) 1 = None" "1 \<notin> dec_completed (mdec_fec d1)"
    using fec(2,3) by (auto simp: r1(1))
  from example_frame_block [OF this p2] obtain fec2
    where "(d2, r2) = accept_block (d1\<lparr>mdec_fec := fec2\<rparr>) (fragment_wire example_fragment @ [8, 9])" by blast
  then have r2: "d2 = d1\<lparr>mdec_fec := fec2\<rparr>" "r2 = Inr None" by (simp_all add: example_frame_again r1(1))
  have p3: "media_push_datagram crc_reference rep_codec d2 [] = (d2, Inl (MediaFec (PacketTooShort 0)))"
    by (simp add: media_push_datagram_def push_datagram_def header_decode_def HEADER_LEN_def ENCODING_PACKET_HEADER_LEN_def)
  have all: "media_push_all crc_reference rep_codec d1 [?dg 1, []] = (d2, [r2, Inl (MediaFec (PacketTooShort 0))])"
    by (simp add: p2 p3)
  have "mdec_completed d2 = mdec_completed d1" by (simp add: r2(1))
  then have near: "none_far_ahead crc_reference rep_codec
      (md_stream_id (df_metadata ?f), md_sequence (df_metadata ?f)) d1 [?dg 1, []]"
    by (simp add: p2 p3)
  show ?thesis
    using delivered_frame_suppressed [OF p1 [unfolded r1(2)] all near] p1 all example_frame_decodes
    by (simp add: r1(2) r2(2) example_fragment_def)
qed

theorem send_plans_cover_frame_witness:
  "\<exists>e' pool' f. encode_frame_with_optional_pool crc_reference rep_codec example_encoder example_metadata [1, 2, 3] None =
      (e', pool', Inr f) \<and>
     map ds_datagram_index (datagram_send_plan f EncodedOrder) = [0..<length (ef_datagrams f)]"
proof -
  let ?job = "frame_job example_encoder example_metadata [1, 2, 3]"
  obtain e' pool' f where enc: "encode_frame_with_optional_pool crc_reference rep_codec example_encoder example_metadata [1, 2, 3] None =
      (e', pool', Inr f)"
    and ds: "ef_datagrams f = map (send_item crc_reference rep_codec (frame_data ?job (enc_block_id (me_fec example_encoder)))
        (job_symbol_size ?job)) (layout (me_controller example_encoder) ?job (enc_block_id (me_fec example_encoder))
          (enc_packet_sequence (me_fec example_encoder)) [0..<fj_count ?job])"
    using encode_frame_lawful [OF rep_codec_lawful example_sendable(1)] by metis
  have ok: "\<forall>i \<in> set [0..<fj_count ?job]. job_ok (me_controller example_encoder) ?job i"
    using frame_job_ok [OF example_sendable(1)] by simp
  have "length (ef_datagrams f) \<le> usize_max"
    using layout_short [OF ok] by (simp add: ds example_sendable(2))
  then show ?thesis
    using send_plans_cover_frame [OF enc, of EncodedOrder] enc by blast
qed

section \<open>Frames that lose a block\<close>

text \<open>The first of two fragments of the frame with the given sequence number.\<close>

definition half_frame :: "u64 \<Rightarrow> bytes" where
  "half_frame sequence =
     fragment_wire \<lparr>fh_metadata = metadata_new 1 sequence 0 Codec_Opus, fh_fragment_index = 0, fh_fragment_count = 2,
       fh_access_unit_len = 2, fh_fragment_offset = 0\<rparr> @ [0]"

lemma accept_half_frame:
  assumes "mdec_partial d (1, sequence) = None" "(1, sequence) \<notin> mdec_completed d"
  shows "\<exists>p. accept_block d (half_frame sequence) = (d\<lparr>mdec_partial := (mdec_partial d)((1, sequence) \<mapsto> p)\<rparr>, Inr None)"
proof -
  let ?h = "\<lparr>fh_metadata = metadata_new 1 sequence 0 Codec_Opus, fh_fragment_index = 0, fh_fragment_count = 2,
       fh_access_unit_len = 2, fh_fragment_offset = 0\<rparr>"
  have "fragment_ok ?h 44" by (simp add: fragment_ok_def metadata_new_def MEDIA_FRAME_HEADER_LEN_def)
  from fragment_decode_wire [OF this, of "[]"]
  have dec: "fragment_decode (sub_slice (half_frame sequence) 0 44) = Inr ?h"
    by (simp add: half_frame_def fragment_decode_prefix)
  have len: "length (half_frame sequence) = 45" by (simp add: half_frame_def)
  have two: "replicate 2 x = [x, x]" for x :: "bytes option" by (simp add: numeral_2_eq_2)
  show ?thesis
    using assms
    by (simp add: accept_block_def MEDIA_FRAME_HEADER_LEN_def len dec Let_def partial_new_def partial_insert_def
        partial_is_complete_def metadata_new_def sat_add_def two) (rule exI, rule refl)
qed

text \<open>
  Nothing bounds the frames a media decoder waits for. A frame leaves \<open>partial\<close> only when its last fragment
  arrives, so one that lost a block stays; after the first halves of n frames there are n of them.
\<close>
lemma partial_frame_stays:
  "key \<in> dom (mdec_partial d) \<Longrightarrow>
   key \<in> dom (mdec_partial (fst (accept_block d block))) \<or> key \<in> mdec_completed (fst (accept_block d block))"
  by (auto simp: accept_block_def Let_def prune_completed_self split: sum.split option.split)

definition after_half_frames :: "nat \<Rightarrow> 'd media_decoder" where
  "after_half_frames n = fold (\<lambda>i d. fst (accept_block d (half_frame (of_nat i)))) [0..<n] media_decoder_new"

lemma frame_waits:
  "dom (mdec_partial (d\<lparr>mdec_partial := (mdec_partial d)(key \<mapsto> p)\<rparr>)) = insert key (dom (mdec_partial d))"
  by simp

lemma half_frames_wait:
  "n \<le> 2 ^ 64 \<Longrightarrow> mdec_completed (after_half_frames n :: 'd media_decoder) = {} \<and>
     dom (mdec_partial (after_half_frames n :: 'd media_decoder)) = (\<lambda>i. (1, of_nat i)) ` {..<n}"
proof (induction n)
  case (Suc n)
  let ?d = "after_half_frames n :: 'd media_decoder"
  have IH: "mdec_completed ?d = {}" "dom (mdec_partial ?d) = (\<lambda>i. (1, of_nat i)) ` {..<n}"
    using Suc by simp_all
  have "(of_nat n :: u64) \<noteq> of_nat i" if "i < n" for i
    using that Suc.prems by (simp add: word_of_nat_eq_iff take_bit_nat_eq_self)
  then have "(1, of_nat n) \<notin> dom (mdec_partial ?d)" unfolding IH(2) by auto
  then have new: "mdec_partial ?d (1, of_nat n) = None" by (simp only: domIff not_not)
  obtain p where "accept_block ?d (half_frame (of_nat n)) =
      (?d\<lparr>mdec_partial := (mdec_partial ?d)((1, of_nat n) \<mapsto> p)\<rparr>, Inr None)"
    using accept_half_frame [OF new] IH(1) by auto
  then have "after_half_frames (Suc n) = ?d\<lparr>mdec_partial := (mdec_partial ?d)((1, of_nat n) \<mapsto> p)\<rparr>"
    by (simp add: after_half_frames_def)
  then have "mdec_completed (after_half_frames (Suc n) :: 'd media_decoder) = {}"
      "dom (mdec_partial (after_half_frames (Suc n) :: 'd media_decoder)) = insert (1, of_nat n) (dom (mdec_partial ?d))"
    using IH(1) by (simp_all add: frame_waits)
  then show ?case unfolding IH(2) lessThan_Suc image_insert by blast
qed (simp add: after_half_frames_def media_decoder_new_def)

lemma incomplete_frames_accumulate:
  assumes "n \<le> 2 ^ 64"
  shows "card (dom (mdec_partial (after_half_frames n :: 'd media_decoder))) = n"
proof -
  have inj: "inj_on (\<lambda>i. (1 :: u64, of_nat i :: u64)) {..<n}"
    using assms by (auto simp: inj_on_def word_of_nat_eq_iff take_bit_nat_eq_self)
  show ?thesis
    unfolding conjunct2 [OF half_frames_wait [OF assms]] card_image [OF inj] by simp
qed

end
