(* ===== verification/Schedule.thy ===== *)
theory Schedule
  imports Media Repair_Encoder "HOL-Library.Product_Lexorder"
begin

text \<open>
  \<^verbatim>\<open>schedule.rs\<close> (lines 1 to 735): the bounded, deadline-driven send planner and the choice of a recovery
  mechanism for an incomplete object. Clocks are \<open>u64\<close> microseconds; every addition saturates as in the
  source. An iterator of frames is the list of the frames it yields.
\<close>

section \<open>Policy, clock and deadlines\<close>

definition DEFAULT_MAX_DATAGRAMS_PER_PLAN :: nat where "DEFAULT_MAX_DATAGRAMS_PER_PLAN = 4096"
definition HARD_MAX_DATAGRAMS_PER_PLAN :: nat where "HARD_MAX_DATAGRAMS_PER_PLAN = 65536"
definition HARD_MAX_FRAMES_SCANNED_PER_PLAN :: nat where "HARD_MAX_FRAMES_SCANNED_PER_PLAN = 4096"
definition HARD_MAX_BLOCK_VISITS_PER_PLAN :: nat where "HARD_MAX_BLOCK_VISITS_PER_PLAN = 262144"
definition URGENT_REPAIR_WINDOW_US :: u64 where "URGENT_REPAIR_WINDOW_US = 5000"

record send_policy =
  sp_order :: datagram_order
  sp_max_in_flight :: nat
  sp_max_datagrams :: nat
  sp_min_spacing_us :: u64
  sp_playout_latency_ms :: u32
  sp_stale_delay_ms :: u32

definition send_policy_default :: send_policy where
  "send_policy_default =
     \<lparr>sp_order = SourceFirst, sp_max_in_flight = DEFAULT_MAX_DATAGRAMS_PER_PLAN,
      sp_max_datagrams = DEFAULT_MAX_DATAGRAMS_PER_PLAN, sp_min_spacing_us = 0,
      sp_playout_latency_ms = 33, sp_stale_delay_ms = 20\<rparr>"

definition send_policy_normalized :: "send_policy \<Rightarrow> send_policy" where
  "send_policy_normalized p =
     (let max_per_plan =
            (if sp_max_datagrams p < 1 then 1
             else if sp_max_datagrams p > HARD_MAX_DATAGRAMS_PER_PLAN then HARD_MAX_DATAGRAMS_PER_PLAN
             else sp_max_datagrams p)
      in p\<lparr>sp_order := SourceFirst, sp_max_in_flight := min (sp_max_in_flight p) max_per_plan,
           sp_max_datagrams := max_per_plan\<rparr>)"

record queue_state =
  qs_now_ms :: u64
  qs_queue_delay_ms :: u32
  qs_in_flight :: nat

record schedule_state =
  ss_now_us :: u64
  ss_queue_delay_us :: u64
  ss_in_flight :: nat

definition schedule_state_of :: "queue_state \<Rightarrow> schedule_state" where
  "schedule_state_of q =
     \<lparr>ss_now_us = sat_mul (qs_now_ms q) 1000, ss_queue_delay_us = sat_mul (ucast (qs_queue_delay_ms q)) 1000,
      ss_in_flight = qs_in_flight q\<rparr>"

text \<open>\<open>MediaDeadline\<close> derives its order from its one field.\<close>

datatype media_deadline = MediaDeadline (expires_at_us: u64)

instantiation media_deadline :: linorder
begin

definition less_eq_media_deadline :: "media_deadline \<Rightarrow> media_deadline \<Rightarrow> bool" where
  "less_eq_media_deadline a b = (expires_at_us a \<le> expires_at_us b)"

definition less_media_deadline :: "media_deadline \<Rightarrow> media_deadline \<Rightarrow> bool" where
  "less_media_deadline a b = (expires_at_us a < expires_at_us b)"

instance
  by standard (auto simp: less_eq_media_deadline_def less_media_deadline_def media_deadline.expand)

end

definition deadline_from_millis :: "u64 \<Rightarrow> media_deadline" where
  "deadline_from_millis ms = MediaDeadline (sat_mul ms 1000)"

definition remaining_us_at :: "media_deadline \<Rightarrow> u64 \<Rightarrow> u64 option" where
  "remaining_us_at d now =
     (case checked_sub (expires_at_us d) now of
        None \<Rightarrow> None | Some v \<Rightarrow> if v > 0 then Some v else None)"

definition is_expired_at :: "media_deadline \<Rightarrow> u64 \<Rightarrow> bool" where
  "is_expired_at d now = (expires_at_us d \<le> now)"

record deadline_outcome =
  do_deadline :: media_deadline
  do_started_at_us :: u64
  do_completed_at_us :: u64
  do_elapsed_us :: u64
  do_deadline_hit :: bool
  do_headroom_us :: u64
  do_lateness_us :: u64

definition observe_completion :: "media_deadline \<Rightarrow> u64 \<Rightarrow> u64 \<Rightarrow> deadline_outcome" where
  "observe_completion d started completed =
     (let hit = completed < expires_at_us d
      in \<lparr>do_deadline = d, do_started_at_us = started, do_completed_at_us = completed,
          do_elapsed_us = sat_sub completed started, do_deadline_hit = hit,
          do_headroom_us = (if hit then sat_sub (expires_at_us d) completed else 0),
          do_lateness_us = (if hit then 0 else sat_sub completed (expires_at_us d))\<rparr>)"

section \<open>Classes and ranks\<close>

datatype object_kind = Initialization | CodecConfig | VideoKeyframe | AudioObject | VideoDeltaObject | DataObject

text \<open>The derived order of the enum: the order of its constructors.\<close>

definition object_kind_rank :: "object_kind \<Rightarrow> nat" where
  "object_kind_rank k =
     (case k of Initialization \<Rightarrow> 0 | CodecConfig \<Rightarrow> 1 | VideoKeyframe \<Rightarrow> 2
      | AudioObject \<Rightarrow> 3 | VideoDeltaObject \<Rightarrow> 4 | DataObject \<Rightarrow> 5)"

lemma object_kind_rank_inj: "object_kind_rank a = object_kind_rank b \<longleftrightarrow> a = b"
  by (cases a; cases b) (simp_all add: object_kind_rank_def)

instantiation object_kind :: linorder
begin

definition less_eq_object_kind :: "object_kind \<Rightarrow> object_kind \<Rightarrow> bool" where
  "less_eq_object_kind a b = (object_kind_rank a \<le> object_kind_rank b)"

definition less_object_kind :: "object_kind \<Rightarrow> object_kind \<Rightarrow> bool" where
  "less_object_kind a b = (object_kind_rank a < object_kind_rank b)"

instance
  by standard (auto simp: less_eq_object_kind_def less_object_kind_def object_kind_rank_inj)

end

datatype path_intent = PrimarySource | SecondaryRepair | ReliableObjectFetch

datatype datagram_class =
    InitializationSource | CodecConfigSource | VideoKeySource | AudioSource | VideoDeltaSource | DataSource
  | InitializationRepair | CodecConfigRepair | VideoKeyRepair | AudioRepair | VideoDeltaRepair | DataRepair

datatype drop_reason = Expired | StaleDeltaRepair | InFlightLimit

record frame_schedule =
  sch_frame :: encoded_media_frame
  sch_deadline :: media_deadline

definition media_object_kind :: "encoded_media_frame \<Rightarrow> object_kind" where
  "media_object_kind f =
     (if flags_contain (md_flags (ef_metadata f)) FLAG_INITIALIZATION then Initialization
      else if flags_contain (md_flags (ef_metadata f)) FLAG_CODEC_CONFIG then CodecConfig
      else (case ef_priority f of
              VideoKey \<Rightarrow> VideoKeyframe | Audio \<Rightarrow> AudioObject
            | VideoDelta \<Rightarrow> VideoDeltaObject | Data \<Rightarrow> DataObject))"

fun class_of :: "object_kind \<Rightarrow> datagram_role \<Rightarrow> datagram_class" where
  "class_of Initialization SourceRole = InitializationSource"
| "class_of CodecConfig SourceRole = CodecConfigSource"
| "class_of VideoKeyframe SourceRole = VideoKeySource"
| "class_of AudioObject SourceRole = AudioSource"
| "class_of VideoDeltaObject SourceRole = VideoDeltaSource"
| "class_of DataObject SourceRole = DataSource"
| "class_of Initialization RepairRole = InitializationRepair"
| "class_of CodecConfig RepairRole = CodecConfigRepair"
| "class_of VideoKeyframe RepairRole = VideoKeyRepair"
| "class_of AudioObject RepairRole = AudioRepair"
| "class_of VideoDeltaObject RepairRole = VideoDeltaRepair"
| "class_of DataObject RepairRole = DataRepair"

definition role_rank :: "datagram_role \<Rightarrow> u8" where
  "role_rank r = (case r of SourceRole \<Rightarrow> 0 | RepairRole \<Rightarrow> 1)"

definition important_kind :: "object_kind \<Rightarrow> bool" where
  "important_kind k \<longleftrightarrow> k = Initialization \<or> k = CodecConfig \<or> k = VideoKeyframe \<or> k = AudioObject"

definition scheduling_rank :: "datagram_role \<Rightarrow> object_kind \<Rightarrow> media_deadline \<Rightarrow> u64 \<Rightarrow> u8" where
  "scheduling_rank role kind deadline ready =
     (case role of
        SourceRole \<Rightarrow> if important_kind kind then 0 else 2
      | RepairRole \<Rightarrow>
          if important_kind kind \<and>
             (case remaining_us_at deadline ready of None \<Rightarrow> False | Some r \<Rightarrow> r \<le> URGENT_REPAIR_WINDOW_US)
          then 1 else 3)"

definition path_intent_of :: "datagram_role \<Rightarrow> path_intent" where
  "path_intent_of r = (case r of SourceRole \<Rightarrow> PrimarySource | RepairRole \<Rightarrow> SecondaryRepair)"

definition frame_deadline_ms :: "encoded_media_frame \<Rightarrow> send_policy \<Rightarrow> u64" where
  "frame_deadline_ms f p =
     sat_add (sat_add (md_pts_ms (ef_metadata f)) (ucast (md_duration_ms (ef_metadata f))))
       (ucast (sp_playout_latency_ms p))"

section \<open>Candidates and plans\<close>

record candidate =
  ca_frame_sequence :: u64
  ca_stream_id :: u64
  ca_datagram_index :: nat
  ca_block_id :: u32
  ca_fragment_index :: u16
  ca_role :: datagram_role
  ca_kind :: object_kind
  ca_class :: datagram_class
  ca_path :: path_intent
  ca_deadline :: media_deadline

text \<open>The two kinds of plan entries repeat the candidate's fields; they hold it as one field here.\<close>

record scheduled_datagram =
  sd_candidate :: candidate
  sd_deadline_ms :: u64
  sd_send_after_us :: u64

record dropped_datagram =
  dd_candidate :: candidate
  dd_reason :: drop_reason

record send_plan =
  pl_scheduled :: "scheduled_datagram list"
  pl_dropped :: "dropped_datagram list"
  pl_blocked :: nat
  pl_limit_reached :: bool

definition scheduled_datagram_indices :: "send_plan \<Rightarrow> nat list" where
  "scheduled_datagram_indices p = map (ca_datagram_index \<circ> sd_candidate) (pl_scheduled p)"

definition dropped_stale_delta_repair :: "send_plan \<Rightarrow> nat" where
  "dropped_stale_delta_repair p = length (filter (\<lambda>e. dd_reason e = StaleDeltaRepair) (pl_dropped p))"

definition dropped_expired :: "send_plan \<Rightarrow> nat" where
  "dropped_expired p = length (filter (\<lambda>e. dd_reason e = Expired) (pl_dropped p))"

record candidate_group =
  gr_frame :: encoded_media_frame
  gr_role :: datagram_role
  gr_kind :: object_kind
  gr_deadline :: media_deadline

definition group_candidate :: "candidate_group \<Rightarrow> media_block \<Rightarrow> nat \<Rightarrow> candidate" where
  "group_candidate g b i =
     \<lparr>ca_frame_sequence = ef_sequence (gr_frame g), ca_stream_id = md_stream_id (ef_metadata (gr_frame g)),
      ca_datagram_index = i, ca_block_id = mb_block_id b, ca_fragment_index = mb_fragment_index b,
      ca_role = gr_role g, ca_kind = gr_kind g, ca_class = class_of (gr_kind g) (gr_role g),
      ca_path = path_intent_of (gr_role g), ca_deadline = gr_deadline g\<rparr>"

definition candidate_scheduled :: "candidate \<Rightarrow> u64 \<Rightarrow> scheduled_datagram" where
  "candidate_scheduled c send_after =
     \<lparr>sd_candidate = c, sd_deadline_ms = expires_at_us (ca_deadline c) div 1000, sd_send_after_us = send_after\<rparr>"

definition candidate_dropped :: "candidate \<Rightarrow> drop_reason \<Rightarrow> dropped_datagram" where
  "candidate_dropped c r = \<lparr>dd_candidate = c, dd_reason = r\<rparr>"

definition should_drop_stale_delta_repair :: "candidate \<Rightarrow> send_policy \<Rightarrow> schedule_state \<Rightarrow> bool" where
  "should_drop_stale_delta_repair c p st \<longleftrightarrow>
     ca_kind c = VideoDeltaObject \<and> ca_role c = RepairRole \<and>
     ss_queue_delay_us st \<ge> sat_mul (ucast (sp_stale_delay_ms p)) 1000"

section \<open>The planner\<close>

definition frame_groups :: "frame_schedule \<Rightarrow> candidate_group list" where
  "frame_groups s =
     map (\<lambda>r. \<lparr>gr_frame = sch_frame s, gr_role = r, gr_kind = media_object_kind (sch_frame s),
               gr_deadline = sch_deadline s\<rparr>) [SourceRole, RepairRole]"

definition group_key :: "u64 \<Rightarrow> candidate_group \<Rightarrow> u8 \<times> object_kind \<times> media_deadline \<times> u64 \<times> u64 \<times> u8" where
  "group_key ready g =
     (scheduling_rank (gr_role g) (gr_kind g) (gr_deadline g) ready, gr_kind g, gr_deadline g,
      md_stream_id (ef_metadata (gr_frame g)), ef_sequence (gr_frame g), role_rank (gr_role g))"

text \<open>One candidate: dropped, blocked or scheduled.\<close>

definition admit_candidate ::
    "send_policy \<Rightarrow> schedule_state \<Rightarrow> u64 \<Rightarrow> nat \<Rightarrow> candidate \<Rightarrow> send_plan \<Rightarrow> send_plan" where
  "admit_candidate p st ready capacity c plan =
     (if is_expired_at (ca_deadline c) ready then
        plan\<lparr>pl_dropped := pl_dropped plan @ [candidate_dropped c Expired]\<rparr>
      else if should_drop_stale_delta_repair c p st then
        plan\<lparr>pl_dropped := pl_dropped plan @ [candidate_dropped c StaleDeltaRepair]\<rparr>
      else if length (pl_scheduled plan) = capacity then
        plan\<lparr>pl_blocked := usize_sat_add (pl_blocked plan) 1\<rparr>
      else
        (let send_after = sat_mul (of_nat (length (pl_scheduled plan))) (sp_min_spacing_us p);
             send_at = sat_add ready send_after
         in if is_expired_at (ca_deadline c) send_at then
              plan\<lparr>pl_dropped := pl_dropped plan @ [candidate_dropped c Expired]\<rparr>
            else plan\<lparr>pl_scheduled := pl_scheduled plan @ [candidate_scheduled c send_after]\<rparr>))"

text \<open>
  The labelled loop. Each level returns the plan, the count it threads and whether
  \<open>break 'groups\<close> was taken.
\<close>

fun plan_indices_loop ::
    "send_policy \<Rightarrow> schedule_state \<Rightarrow> u64 \<Rightarrow> nat \<Rightarrow> (nat \<Rightarrow> candidate) \<Rightarrow> nat list \<Rightarrow> nat \<Rightarrow> send_plan \<Rightarrow>
     nat \<times> send_plan \<times> bool" where
  "plan_indices_loop p st ready capacity mk [] admitted plan = (admitted, plan, False)"
| "plan_indices_loop p st ready capacity mk (i # is) admitted plan =
     (if admitted = sp_max_datagrams p then (admitted, plan\<lparr>pl_limit_reached := True\<rparr>, True)
      else plan_indices_loop p st ready capacity mk is (admitted + 1)
             (admit_candidate p st ready capacity (mk i) plan))"

definition role_indices :: "datagram_role \<Rightarrow> media_block \<Rightarrow> nat list" where
  "role_indices r b = (case r of SourceRole \<Rightarrow> source_datagram_indices b | RepairRole \<Rightarrow> repair_datagram_indices b)"

fun plan_blocks_loop ::
    "send_policy \<Rightarrow> schedule_state \<Rightarrow> u64 \<Rightarrow> nat \<Rightarrow> candidate_group \<Rightarrow> media_block list \<Rightarrow> nat \<Rightarrow> nat \<Rightarrow>
     send_plan \<Rightarrow> nat \<times> nat \<times> send_plan \<times> bool" where
  "plan_blocks_loop p st ready capacity g [] visits admitted plan = (visits, admitted, plan, False)"
| "plan_blocks_loop p st ready capacity g (b # bs) visits admitted plan =
     (if visits = HARD_MAX_BLOCK_VISITS_PER_PLAN then
        (visits, admitted, plan\<lparr>pl_limit_reached := True\<rparr>, True)
      else
        (case plan_indices_loop p st ready capacity (group_candidate g b) (role_indices (gr_role g) b)
                admitted plan of
           (admitted1, plan1, stop) \<Rightarrow>
             if stop then (visits + 1, admitted1, plan1, True)
             else plan_blocks_loop p st ready capacity g bs (visits + 1) admitted1 plan1))"

fun plan_groups_loop ::
    "send_policy \<Rightarrow> schedule_state \<Rightarrow> u64 \<Rightarrow> nat \<Rightarrow> candidate_group list \<Rightarrow> nat \<Rightarrow> nat \<Rightarrow> send_plan \<Rightarrow> send_plan" where
  "plan_groups_loop p st ready capacity [] visits admitted plan = plan"
| "plan_groups_loop p st ready capacity (g # gs) visits admitted plan =
     (case plan_blocks_loop p st ready capacity g (ef_blocks (gr_frame g)) visits admitted plan of
        (visits1, admitted1, plan1, stop) \<Rightarrow>
          if stop then plan1 else plan_groups_loop p st ready capacity gs visits1 admitted1 plan1)"

definition plan_media_datagrams_with_deadlines ::
    "frame_schedule list \<Rightarrow> send_policy \<Rightarrow> schedule_state \<Rightarrow> send_plan" where
  "plan_media_datagrams_with_deadlines frames policy st =
     (let p = send_policy_normalized policy;
          ready = sat_add (ss_now_us st) (ss_queue_delay_us st);
          scanned = take HARD_MAX_FRAMES_SCANNED_PER_PLAN frames;
          limit = length frames > HARD_MAX_FRAMES_SCANNED_PER_PLAN;
          groups = sort_key (group_key ready) (concat (map frame_groups scanned));
          capacity = sp_max_in_flight p - ss_in_flight st
      in plan_groups_loop p st ready capacity groups 0 0
           \<lparr>pl_scheduled = [], pl_dropped = [], pl_blocked = 0, pl_limit_reached = limit\<rparr>)"

definition plan_media_datagrams :: "encoded_media_frame list \<Rightarrow> send_policy \<Rightarrow> queue_state \<Rightarrow> send_plan" where
  "plan_media_datagrams frames policy q =
     plan_media_datagrams_with_deadlines
       (map (\<lambda>f. \<lparr>sch_frame = f, sch_deadline = deadline_from_millis (frame_deadline_ms f policy)\<rparr>) frames)
       policy (schedule_state_of q)"

definition scheduled_datagram_send_plan :: "encoded_media_frame \<Rightarrow> send_policy \<Rightarrow> queue_state \<Rightarrow> send_plan" where
  "scheduled_datagram_send_plan f policy q = plan_media_datagrams [f] policy q"

section \<open>Recovery decisions\<close>

record recovery_policy =
  rp_max_extra :: u32
  rp_safety :: u32
  rp_margin_us :: u64

definition recovery_policy_default :: recovery_policy where
  "recovery_policy_default = \<lparr>rp_max_extra = 64, rp_safety = 1, rp_margin_us = 1000\<rparr>"

definition recovery_policy_normalized :: "recovery_policy \<Rightarrow> recovery_policy" where
  "recovery_policy_normalized p =
     p\<lparr>rp_max_extra := min (rp_max_extra p) HARD_MAX_EXTRA_REPAIR_SYMBOLS,
       rp_safety := min (rp_safety p) HARD_MAX_EXTRA_REPAIR_SYMBOLS\<rparr>"

record recovery_input =
  ri_now_us :: u64
  ri_deadline :: media_deadline
  ri_uncovered :: u32
  ri_rtt_us :: u64
  ri_queue_delay_us :: u64
  ri_spacing_us :: u64
  ri_fetch_estimate_us :: "u64 option"

datatype recovery_action =
    NoRecoveryNeeded
  | SendRaptorQRepair u32 path_intent
  | ReliableFetch path_intent
  | Expire

record recovery_decision =
  rd_action :: recovery_action
  rd_remaining_us :: u64
  rd_arrival_us :: "u64 option"
  rd_headroom_us :: "u64 option"

definition estimate_fits :: "u64 \<Rightarrow> u64 \<Rightarrow> u64 \<Rightarrow> bool" where
  "estimate_fits estimate remaining margin = (sat_add estimate (max margin 1) \<le> remaining)"

definition expired_recovery_decision :: recovery_decision where
  "expired_recovery_decision =
     \<lparr>rd_action = Expire, rd_remaining_us = 0, rd_arrival_us = None, rd_headroom_us = None\<rparr>"

definition repair_symbols_needed :: "recovery_policy \<Rightarrow> recovery_input \<Rightarrow> u32" where
  "repair_symbols_needed p i = sat_add (ri_uncovered i) (rp_safety p)"

definition fec_estimate_us :: "recovery_policy \<Rightarrow> recovery_input \<Rightarrow> u64" where
  "fec_estimate_us p i =
     sat_add (sat_add (ri_rtt_us i) (ri_queue_delay_us i))
       (sat_mul (ucast (sat_sub (repair_symbols_needed p i) 1)) (ri_spacing_us i))"

definition timely_decision :: "recovery_input \<Rightarrow> recovery_action \<Rightarrow> u64 \<Rightarrow> u64 \<Rightarrow> recovery_decision" where
  "timely_decision i action remaining estimate =
     (let arrival = sat_add (ri_now_us i) estimate
      in \<lparr>rd_action = action, rd_remaining_us = remaining, rd_arrival_us = Some arrival,
          rd_headroom_us = remaining_us_at (ri_deadline i) arrival\<rparr>)"

definition decide_media_recovery :: "recovery_policy \<Rightarrow> recovery_input \<Rightarrow> recovery_decision" where
  "decide_media_recovery policy i =
     (if ri_uncovered i = 0 then
        \<lparr>rd_action = NoRecoveryNeeded,
         rd_remaining_us = sat_sub (expires_at_us (ri_deadline i)) (ri_now_us i),
         rd_arrival_us = Some (ri_now_us i),
         rd_headroom_us = remaining_us_at (ri_deadline i) (ri_now_us i)\<rparr>
      else
        (case remaining_us_at (ri_deadline i) (ri_now_us i) of
           None \<Rightarrow> expired_recovery_decision
         | Some remaining \<Rightarrow>
             (let p = recovery_policy_normalized policy;
                  repair_symbols = repair_symbols_needed p i;
                  fec_fits = repair_symbols \<le> rp_max_extra p \<and>
                    estimate_fits (fec_estimate_us p i) remaining (rp_margin_us p)
              in if fec_fits then
                   timely_decision i (SendRaptorQRepair repair_symbols SecondaryRepair) remaining
                     (fec_estimate_us p i)
                 else
                   (case ri_fetch_estimate_us i of
                      Some fetch \<Rightarrow>
                        if estimate_fits fetch remaining (rp_margin_us p) then
                          timely_decision i (ReliableFetch ReliableObjectFetch) remaining fetch
                        else expired_recovery_decision\<lparr>rd_remaining_us := remaining\<rparr>
                    | None \<Rightarrow> expired_recovery_decision\<lparr>rd_remaining_us := remaining\<rparr>))))"

definition recovery_decide :: "recovery_policy \<Rightarrow> recovery_input \<Rightarrow> recovery_decision" where
  "recovery_decide p i = decide_media_recovery p i"

end
