(* ===== verification/Send_Planner.thy ===== *)
theory Send_Planner
  imports Schedule "HOL-Library.Sublist"
begin

text \<open>
  What the planner and the recovery policy of \<^verbatim>\<open>schedule.rs\<close> promise: the labelled loops handle a prefix of one
  ordered list of candidates, nothing is scheduled late or out of order, and every handled datagram is
  accounted for.
\<close>

section \<open>The planner as one pass over a list of candidates\<close>

definition group_candidates :: "candidate_group \<Rightarrow> media_block list \<Rightarrow> candidate list" where
  "group_candidates g bs = concat (map (\<lambda>b. map (group_candidate g b) (role_indices (gr_role g) b)) bs)"

definition all_candidates :: "candidate_group list \<Rightarrow> candidate list" where
  "all_candidates gs = concat (map (\<lambda>g. group_candidates g (ef_blocks (gr_frame g))) gs)"

lemma candidates_simps [simp]:
  "group_candidates g [] = []"
  "group_candidates g (b # bs) = map (group_candidate g b) (role_indices (gr_role g) b) @ group_candidates g bs"
  "all_candidates [] = []"
  "all_candidates (g # gs) = group_candidates g (ef_blocks (gr_frame g)) @ all_candidates gs"
  by (simp_all add: group_candidates_def all_candidates_def)

definition or_limit :: "bool \<Rightarrow> send_plan \<Rightarrow> send_plan" where
  "or_limit stop plan = plan\<lparr>pl_limit_reached := pl_limit_reached plan \<or> stop\<rparr>"

lemma or_limit_simps [simp]:
  "or_limit False plan = plan" "pl_scheduled (or_limit s plan) = pl_scheduled plan"
  "pl_dropped (or_limit s plan) = pl_dropped plan" "pl_blocked (or_limit s plan) = pl_blocked plan"
  "pl_limit_reached (or_limit s plan) \<longleftrightarrow> pl_limit_reached plan \<or> s"
  by (simp_all add: or_limit_def)

text \<open>
  \<open>passes max cs used res\<close>: the loop handled a prefix of the candidates \<open>cs\<close>, within the budget, and
  all of them unless it stopped.
\<close>

definition passes ::
    "(candidate \<Rightarrow> send_plan \<Rightarrow> send_plan) \<Rightarrow> nat \<Rightarrow> candidate list \<Rightarrow> nat \<Rightarrow> send_plan \<Rightarrow> nat \<Rightarrow> send_plan \<Rightarrow> bool \<Rightarrow> bool" where
  "passes admit m cs a plan a' plan' stop \<longleftrightarrow>
     (\<exists>n \<le> length cs. a' = a + n \<and> a' \<le> m \<and> plan' = or_limit stop (fold admit (take n cs) plan) \<and>
        (\<not> stop \<longrightarrow> n = length cs))"

lemma passes_append:
  assumes "passes admit m cs a plan a1 plan1 False" "passes admit m ds a1 plan1 a' plan' stop"
  shows "passes admit m (cs @ ds) a plan a' plan' stop"
proof -
  have a1: "a1 = a + length cs" "plan1 = fold admit cs plan" using assms(1) by (auto simp: passes_def)
  obtain n where n: "n \<le> length ds" "a' = a1 + n" "a' \<le> m"
      "plan' = or_limit stop (fold admit (take n ds) plan1)" "\<not> stop \<longrightarrow> n = length ds"
    using assms(2) by (auto simp: passes_def)
  show ?thesis unfolding passes_def
    by (intro exI [of _ "length cs + n"]) (use n in \<open>auto simp: a1\<close>)
qed

lemma passes_stop:
  "passes admit m cs a plan a' plan' True \<Longrightarrow> passes admit m (cs @ ds) a plan a' plan' True"
  unfolding passes_def
proof (elim exE conjE)
  fix n assume n: "n \<le> length cs" "a' = a + n" "a' \<le> m" "plan' = or_limit True (fold admit (take n cs) plan)"
  show "\<exists>n\<le>length (cs @ ds). a' = a + n \<and> a' \<le> m \<and> plan' = or_limit True (fold admit (take n (cs @ ds)) plan) \<and>
      (\<not> True \<longrightarrow> n = length (cs @ ds))"
    using n by (intro exI [of _ n]) simp
qed

lemma passes_nil: "a \<le> m \<Longrightarrow> passes admit m [] a plan a plan False"
  by (simp add: passes_def)

lemma passes_break: "a \<le> m \<Longrightarrow> passes admit m cs a plan a (plan\<lparr>pl_limit_reached := True\<rparr>) True"
  unfolding passes_def by (intro exI [of _ 0]) (simp add: or_limit_def)

lemma indices_passes:
  assumes "a \<le> sp_max_datagrams p"
  shows "plan_indices_loop p st ready cap mk is a plan = (a', plan', stop) \<Longrightarrow>
    passes (admit_candidate p st ready cap) (sp_max_datagrams p) (map mk is) a plan a' plan' stop"
  using assms
proof (induction "is" arbitrary: a plan)
  case (Cons i rest)
  show ?case
  proof (cases "a = sp_max_datagrams p")
    case True
    then show ?thesis using Cons.prems passes_break [of a "sp_max_datagrams p"] by auto
  next
    case False
    then have le: "a + 1 \<le> sp_max_datagrams p" using Cons.prems(2) by simp
    have "passes (admit_candidate p st ready cap) (sp_max_datagrams p) (map mk rest) (a + 1)
        (admit_candidate p st ready cap (mk i) plan) a' plan' stop"
      by (rule Cons.IH [OF _ le]) (use Cons.prems(1) False in simp)
    moreover have "passes (admit_candidate p st ready cap) (sp_max_datagrams p) [mk i] a plan (a + 1)
        (admit_candidate p st ready cap (mk i) plan) False"
      using le unfolding passes_def by (intro exI [of _ 1]) simp
    ultimately show ?thesis using passes_append by fastforce
  qed
qed (simp add: passes_nil)

lemma blocks_passes:
  assumes "a \<le> sp_max_datagrams p"
  shows "plan_blocks_loop p st ready cap g bs v a plan = (v', a', plan', stop) \<Longrightarrow>
    passes (admit_candidate p st ready cap) (sp_max_datagrams p) (group_candidates g bs) a plan a' plan' stop"
  using assms
proof (induction bs arbitrary: v a plan)
  case (Cons b bs)
  let ?admit = "admit_candidate p st ready cap"
  obtain a1 plan1 stop1 where one: "plan_indices_loop p st ready cap (group_candidate g b) (role_indices (gr_role g) b) a plan =
      (a1, plan1, stop1)" by (metis prod_cases3)
  have first: "passes ?admit (sp_max_datagrams p) (map (group_candidate g b) (role_indices (gr_role g) b)) a plan a1 plan1 stop1"
    by (rule indices_passes [OF Cons.prems(2) one])
  show ?case
  proof (cases "v = HARD_MAX_BLOCK_VISITS_PER_PLAN")
    case True
    then show ?thesis using Cons.prems passes_break by auto
  next
    case False
    show ?thesis
    proof (cases stop1)
      case True
      then show ?thesis using Cons.prems(1) False one first passes_stop by auto
    next
      case go: False
      then have le: "a1 \<le> sp_max_datagrams p" using first by (auto simp: passes_def)
      have "passes ?admit (sp_max_datagrams p) (group_candidates g bs) a1 plan1 a' plan' stop"
        by (rule Cons.IH [OF _ le]) (use Cons.prems(1) False one go in simp)
      then show ?thesis using passes_append first go by simp
    qed
  qed
qed (simp add: passes_nil)

lemma groups_passes:
  assumes "a \<le> sp_max_datagrams p"
  shows "\<exists>a' stop. passes (admit_candidate p st ready cap) (sp_max_datagrams p) (all_candidates gs) a plan a'
    (plan_groups_loop p st ready cap gs v a plan) stop"
  using assms
proof (induction gs arbitrary: v a plan)
  case (Cons g gs)
  obtain v1 a1 plan1 stop1 where one: "plan_blocks_loop p st ready cap g (ef_blocks (gr_frame g)) v a plan = (v1, a1, plan1, stop1)"
    by (metis prod_cases4)
  note first = blocks_passes [OF Cons.prems one]
  show ?case
  proof (cases stop1)
    case True
    then show ?thesis using one first passes_stop by fastforce
  next
    case False
    then have "a1 \<le> sp_max_datagrams p" using first by (auto simp: passes_def)
    from Cons.IH [OF this, of plan1 v1] show ?thesis
      using one False first passes_append by fastforce
  qed
qed (auto intro!: passes_nil)

section \<open>What one pass keeps\<close>

definition entry_ok :: "send_policy \<Rightarrow> schedule_state \<Rightarrow> u64 \<Rightarrow> nat \<Rightarrow> scheduled_datagram \<Rightarrow> bool" where
  "entry_ok p st ready k e \<longleftrightarrow>
     sd_send_after_us e = sat_mul (of_nat k) (sp_min_spacing_us p) \<and>
     sat_add ready (sd_send_after_us e) < expires_at_us (ca_deadline (sd_candidate e)) \<and>
     \<not> should_drop_stale_delta_repair (sd_candidate e) p st \<and>
     sd_deadline_ms e = expires_at_us (ca_deadline (sd_candidate e)) div 1000"

definition drop_ok :: "send_policy \<Rightarrow> schedule_state \<Rightarrow> u64 \<Rightarrow> nat \<Rightarrow> dropped_datagram \<Rightarrow> bool" where
  "drop_ok p st ready n e \<longleftrightarrow>
     (case dd_reason e of
        Expired \<Rightarrow> \<exists>k \<le> n. expires_at_us (ca_deadline (dd_candidate e)) \<le> sat_add ready (sat_mul (of_nat k) (sp_min_spacing_us p))
      | StaleDeltaRepair \<Rightarrow> should_drop_stale_delta_repair (dd_candidate e) p st
      | InFlightLimit \<Rightarrow> False)"

definition plan_ok :: "send_policy \<Rightarrow> schedule_state \<Rightarrow> u64 \<Rightarrow> nat \<Rightarrow> candidate list \<Rightarrow> send_plan \<Rightarrow> bool" where
  "plan_ok p st ready cap cs plan \<longleftrightarrow>
     length (pl_scheduled plan) \<le> cap \<and>
     (\<forall>k < length (pl_scheduled plan). entry_ok p st ready k (pl_scheduled plan ! k)) \<and>
     (\<forall>e \<in> set (pl_dropped plan). drop_ok p st ready (length (pl_scheduled plan)) e) \<and>
     (0 < pl_blocked plan \<longrightarrow> length (pl_scheduled plan) = cap) \<and>
     subseq (map sd_candidate (pl_scheduled plan)) cs \<and> subseq (map dd_candidate (pl_dropped plan)) cs \<and>
     length (pl_scheduled plan) + length (pl_dropped plan) + pl_blocked plan = length cs"

lemma sat_mul_zero [simp]: "sat_mul 0 w = 0" and sat_add_zero [simp]: "sat_add w 0 = w"
proof -
  have "uint w < 2 ^ LENGTH('a)" by (rule uint_bounded)
  then show "sat_add w 0 = w" by (simp add: sat_add_def)
qed (simp add: sat_mul_def)

lemma subseq_snoc: "subseq xs ys \<Longrightarrow> subseq xs (ys @ [y])" "subseq xs ys \<Longrightarrow> subseq (xs @ [y]) (ys @ [y])"
  by (simp_all add: subseq_rev_drop_many subseq_append')

lemma drop_ok_mono: "drop_ok p st ready n e \<Longrightarrow> n \<le> m \<Longrightarrow> drop_ok p st ready m e"
  by (auto simp: drop_ok_def split: drop_reason.splits intro: le_trans)

lemma admit_ok:
  assumes ok: "plan_ok p st ready cap cs plan" and len: "length cs < usize_max"
  shows "plan_ok p st ready cap (cs @ [c]) (admit_candidate p st ready cap c plan)"
proof -
  let ?k = "length (pl_scheduled plan)"
  have blocked: "usize_sat_add (pl_blocked plan) (Suc 0) = Suc (pl_blocked plan)"
    using ok len unfolding plan_ok_def usize_sat_add_def min_def by auto
  consider (dead) "is_expired_at (ca_deadline c) ready"
    | (stale) "\<not> is_expired_at (ca_deadline c) ready" "should_drop_stale_delta_repair c p st"
    | (full) "\<not> is_expired_at (ca_deadline c) ready" "\<not> should_drop_stale_delta_repair c p st" "?k = cap"
    | (late) "\<not> is_expired_at (ca_deadline c) ready" "\<not> should_drop_stale_delta_repair c p st" "?k \<noteq> cap"
        "is_expired_at (ca_deadline c) (sat_add ready (sat_mul (of_nat ?k) (sp_min_spacing_us p)))"
    | (live) "\<not> is_expired_at (ca_deadline c) ready" "\<not> should_drop_stale_delta_repair c p st" "?k \<noteq> cap"
        "\<not> is_expired_at (ca_deadline c) (sat_add ready (sat_mul (of_nat ?k) (sp_min_spacing_us p)))"
    by blast
  then show ?thesis
  proof cases
    case dead
    then have "expires_at_us (ca_deadline c) \<le> sat_add ready (sat_mul (of_nat 0) (sp_min_spacing_us p))"
      by (simp add: is_expired_at_def)
    then have "drop_ok p st ready ?k (candidate_dropped c Expired)"
      unfolding drop_ok_def candidate_dropped_def by (auto simp: exI [of _ 0])
    then show ?thesis using ok dead
      by (auto simp: admit_candidate_def plan_ok_def candidate_dropped_def subseq_snoc)
  next
    case stale
    then have "drop_ok p st ready ?k (candidate_dropped c StaleDeltaRepair)"
      by (simp add: drop_ok_def candidate_dropped_def)
    then show ?thesis using ok stale
      by (auto simp: admit_candidate_def plan_ok_def candidate_dropped_def subseq_snoc)
  next
    case full
    then show ?thesis using ok
      by (auto simp: admit_candidate_def plan_ok_def blocked subseq_snoc)
  next
    case late
    then have "drop_ok p st ready ?k (candidate_dropped c Expired)"
      by (auto simp: drop_ok_def candidate_dropped_def is_expired_at_def)
    then show ?thesis using ok late
      by (auto simp: admit_candidate_def plan_ok_def candidate_dropped_def subseq_snoc Let_def)
  next
    case live
    then have new: "entry_ok p st ready ?k (candidate_scheduled c (sat_mul (of_nat ?k) (sp_min_spacing_us p)))"
      by (simp add: entry_ok_def candidate_scheduled_def is_expired_at_def not_le)
    show ?thesis using ok live new
      by (auto simp: admit_candidate_def plan_ok_def subseq_snoc Let_def nth_append less_Suc_eq candidate_scheduled_def
          elim!: drop_ok_mono ballE)
  qed
qed

definition empty_plan :: "bool \<Rightarrow> send_plan" where
  "empty_plan limit = \<lparr>pl_scheduled = [], pl_dropped = [], pl_blocked = 0, pl_limit_reached = limit\<rparr>"

lemma fold_admit_ok:
  "length cs \<le> usize_max \<Longrightarrow> plan_ok p st ready cap cs (fold (admit_candidate p st ready cap) cs (empty_plan limit))"
proof (induction cs rule: rev_induct)
  case Nil
  then show ?case by (simp add: plan_ok_def empty_plan_def)
next
  case (snoc c cs)
  then show ?case using admit_ok by simp
qed

lemma fold_admit_limit: "pl_limit_reached (fold (admit_candidate p st ready cap) cs plan) = pl_limit_reached plan"
  by (induction cs arbitrary: plan) (auto simp: admit_candidate_def Let_def)

definition planned_groups :: "frame_schedule list \<Rightarrow> u64 \<Rightarrow> candidate_group list" where
  "planned_groups frames ready =
     sort_key (group_key ready) (concat (map frame_groups (take HARD_MAX_FRAMES_SCANNED_PER_PLAN frames)))"

lemma normalized_max: "1 \<le> sp_max_datagrams (send_policy_normalized p)"
  "sp_max_datagrams (send_policy_normalized p) \<le> 65536"
  by (simp_all add: send_policy_normalized_def HARD_MAX_DATAGRAMS_PER_PLAN_def Let_def)

text \<open>The planner handles a prefix of the candidates of the sorted groups, in order.\<close>

lemma planner_pass:
  fixes policy :: send_policy and st :: schedule_state and frames :: "frame_schedule list"
  defines "p \<equiv> send_policy_normalized policy" and "ready \<equiv> sat_add (ss_now_us st) (ss_queue_delay_us st)"
  defines "cs \<equiv> all_candidates (planned_groups frames ready)" and "plan \<equiv> plan_media_datagrams_with_deadlines frames policy st"
  shows "\<exists>n \<le> length cs. n \<le> sp_max_datagrams p \<and>
    plan_ok p st ready (sp_max_in_flight p - ss_in_flight st) (take n cs) plan \<and>
    (\<not> pl_limit_reached plan \<longrightarrow> n = length cs \<and> length frames \<le> 4096)"
proof -
  let ?cap = "sp_max_in_flight p - ss_in_flight st"
  let ?limit = "length frames > HARD_MAX_FRAMES_SCANNED_PER_PLAN"
  have plan: "plan = plan_groups_loop p st ready ?cap (planned_groups frames ready) 0 0 (empty_plan ?limit)"
    by (simp add: plan_def plan_media_datagrams_with_deadlines_def Let_def p_def ready_def planned_groups_def empty_plan_def)
  obtain a' stop where "passes (admit_candidate p st ready ?cap) (sp_max_datagrams p) cs 0 (empty_plan ?limit) a' plan stop"
    using groups_passes [of 0 p] unfolding plan cs_def by blast
  then obtain n where n: "n \<le> length cs" "n \<le> sp_max_datagrams p" "\<not> stop \<longrightarrow> n = length cs"
      "plan = or_limit stop (fold (admit_candidate p st ready ?cap) (take n cs) (empty_plan ?limit))"
    by (auto simp: passes_def)
  have "n \<le> 65536" using n(2) normalized_max(2) [of policy] by (simp add: p_def)
  also have "\<dots> \<le> usize_max" by (simp add: usize_max_def)
  finally have "length (take n cs) \<le> usize_max" using n(1) by simp
  from fold_admit_ok [OF this] have "plan_ok p st ready ?cap (take n cs) plan"
    unfolding n(4) plan_ok_def or_limit_simps .
  moreover have "pl_limit_reached plan \<longleftrightarrow> ?limit \<or> stop"
    unfolding n(4) by (simp add: fold_admit_limit) (simp add: empty_plan_def)
  ultimately show ?thesis using n(1,2,3) by (auto simp: HARD_MAX_FRAMES_SCANNED_PER_PLAN_def)
qed

section \<open>Properties of the planner\<close>

definition candidate_key :: "u64 \<Rightarrow> candidate \<Rightarrow> u8 \<times> object_kind \<times> media_deadline \<times> u64 \<times> u64 \<times> u8" where
  "candidate_key ready c =
     (scheduling_rank (ca_role c) (ca_kind c) (ca_deadline c) ready, ca_kind c, ca_deadline c,
      ca_stream_id c, ca_frame_sequence c, role_rank (ca_role c))"

lemma group_candidates_key: "c \<in> set (group_candidates g bs) \<Longrightarrow> candidate_key ready c = group_key ready g"
  by (auto simp: group_candidates_def group_candidate_def candidate_key_def group_key_def)

lemma sorted_runs:
  assumes "sorted (map f gs)" "\<And>g c. g \<in> set gs \<Longrightarrow> c \<in> set (h g) \<Longrightarrow> k c = f g"
  shows "sorted (map k (concat (map h gs)))"
  using assms
proof (induction gs)
  case (Cons g gs)
  have run: "map k (h g) = replicate (length (h g)) (f g)"
    using Cons.prems(2) by (intro replicate_eqI) auto
  have key: "k c = f y" if "y \<in> set gs" "c \<in> set (h y)" for y c
    using Cons.prems(2) [of y c] that by simp
  have rest: "sorted (map k (concat (map h gs)))" using Cons.IH Cons.prems(1) key by simp
  have "f g \<le> k c" if "c \<in> set (concat (map h gs))" for c
    using that key Cons.prems(1) by auto
  then show ?case using rest by (simp add: run sorted_append sorted_replicate)
qed simp

lemma sorted_subseq:
  assumes "subseq xs ys" "sorted (map f ys)"
  shows "sorted (map f xs)"
  using assms
proof (induction rule: list_emb.induct)
  case (list_emb_Cons2 x y xs ys)
  then have "set xs \<subseteq> set ys" by (auto dest: subseq_order.order_trans list_emb_set)
  then show ?case using list_emb_Cons2 by auto
qed auto

lemma candidates_sorted: "sorted (map (candidate_key ready) (all_candidates (planned_groups frames ready)))"
  unfolding all_candidates_def planned_groups_def
  by (rule sorted_runs [where f = "group_key ready"]) (auto simp: sorted_sort_key group_candidates_key)

lemma plan_ok_sendable:
  "plan_ok p st ready cap cs plan \<Longrightarrow>
   map sd_send_after_us (pl_scheduled plan) =
     map (\<lambda>k. sat_mul (of_nat k) (sp_min_spacing_us p)) [0..<length (pl_scheduled plan)] \<and>
   list_all (\<lambda>e. sat_add ready (sd_send_after_us e) < expires_at_us (ca_deadline (sd_candidate e)) \<and>
       \<not> should_drop_stale_delta_repair (sd_candidate e) p st) (pl_scheduled plan)"
  by (auto simp: plan_ok_def entry_ok_def list_all_length intro: nth_equalityI)

text \<open>
  C23. Nothing is sent late. Every scheduled datagram has a send time, the ready time plus its slot's
  spacing, strictly before its frame's deadline, none is a delta repair the policy calls stale, the
  slots are the multiples of the spacing in order, and the plan never exceeds the in-flight capacity.
\<close>
theorem scheduled_before_deadline:
  "let plan = plan_media_datagrams_with_deadlines frames policy st; p = send_policy_normalized policy;
       ready = sat_add (ss_now_us st) (ss_queue_delay_us st)
   in length (pl_scheduled plan) \<le> sp_max_in_flight p - ss_in_flight st \<and>
      list_all (\<lambda>e. sat_add ready (sd_send_after_us e) < expires_at_us (ca_deadline (sd_candidate e)) \<and>
        \<not> should_drop_stale_delta_repair (sd_candidate e) p st) (pl_scheduled plan) \<and>
      map sd_send_after_us (pl_scheduled plan) =
        map (\<lambda>k. sat_mul (of_nat k) (sp_min_spacing_us p)) [0..<length (pl_scheduled plan)]"
proof -
  obtain n where ok: "plan_ok (send_policy_normalized policy) st (sat_add (ss_now_us st) (ss_queue_delay_us st))
      (sp_max_in_flight (send_policy_normalized policy) - ss_in_flight st)
      (take n (all_candidates (planned_groups frames (sat_add (ss_now_us st) (ss_queue_delay_us st)))))
      (plan_media_datagrams_with_deadlines frames policy st)"
    using planner_pass [of frames st policy] by blast
  from plan_ok_sendable [OF this] show ?thesis
    using ok by (simp add: Let_def plan_ok_def)
qed

text \<open>
  The sending order. The scheduled datagrams are sorted by scheduling rank (source traffic of
  initialization, configuration, key frames and audio first, then their urgent repairs, then the other
  source traffic, then the other repairs), then by object kind, deadline, stream, frame and role.
\<close>
lemma plan_is_ordered:
  "let ready = sat_add (ss_now_us st) (ss_queue_delay_us st)
   in sorted (map (candidate_key ready \<circ> sd_candidate)
        (pl_scheduled (plan_media_datagrams_with_deadlines frames policy st)))"
proof -
  let ?ready = "sat_add (ss_now_us st) (ss_queue_delay_us st)"
  let ?cs = "all_candidates (planned_groups frames ?ready)" and ?plan = "plan_media_datagrams_with_deadlines frames policy st"
  obtain n where sub: "subseq (map sd_candidate (pl_scheduled ?plan)) (take n ?cs)"
    using planner_pass [of frames st policy] by (auto simp: plan_ok_def)
  have "sorted (map (candidate_key ?ready) (take n ?cs))"
    using sorted_wrt_take [OF candidates_sorted] by (simp add: take_map)
  from sorted_subseq [OF sub this] show ?thesis by (simp add: Let_def comp_def)
qed

definition schedule_total :: "frame_schedule list \<Rightarrow> nat" where
  "schedule_total frames =
     sum_list (map (\<lambda>s. sum_list (map (\<lambda>b. length (source_datagram_indices b) + length (repair_datagram_indices b))
       (ef_blocks (sch_frame s)))) frames)"

lemma length_group_candidates:
  "length (group_candidates g bs) = sum_list (map (\<lambda>b. length (role_indices (gr_role g) b)) bs)"
  by (induction bs) simp_all

lemma length_all_candidates:
  "length (all_candidates gs) = sum_list (map (\<lambda>g. length (group_candidates g (ef_blocks (gr_frame g)))) gs)"
  by (induction gs) simp_all

lemma total_candidates:
  assumes "length frames \<le> 4096"
  shows "length (all_candidates (planned_groups frames ready)) = schedule_total frames"
proof -
  have "length (all_candidates (planned_groups frames ready)) =
      length (all_candidates (concat (map frame_groups frames)))"
    unfolding length_all_candidates planned_groups_def
    using assms by (simp add: HARD_MAX_FRAMES_SCANNED_PER_PLAN_def sum_mset_sum_list [symmetric] del: sum_mset_sum_list)
  also have "\<dots> = schedule_total frames"
    by (induction frames)
      (simp_all add: all_candidates_def frame_groups_def schedule_total_def length_group_candidates role_indices_def sum_list_addf)
  finally show ?thesis .
qed

lemma length_two_reasons:
  "\<forall>e \<in> set es. dd_reason e = a \<or> dd_reason e = b \<Longrightarrow> a \<noteq> b \<Longrightarrow>
   length (filter (\<lambda>e. dd_reason e = a) es) + length (filter (\<lambda>e. dd_reason e = b) es) = length es"
  by (induction es) auto

text \<open>
  C24. Nothing is lost in planning. A pass handles at most the policy's number of datagrams, never more
  than 65536; each of them is scheduled, dropped with a reason or counted as blocked; datagrams are
  blocked only when the in-flight capacity is used up; and a pass that does not report a limit has
  handled every datagram of every frame.
\<close>
theorem planner_accounts_for_all:
  assumes "plan = plan_media_datagrams_with_deadlines frames policy st"
    and "handled = length (pl_scheduled plan) + length (pl_dropped plan) + pl_blocked plan"
  shows "handled \<le> sp_max_datagrams (send_policy_normalized policy) \<and> handled \<le> 65536 \<and>
    (0 < pl_blocked plan \<longrightarrow>
       length (pl_scheduled plan) = sp_max_in_flight (send_policy_normalized policy) - ss_in_flight st) \<and>
    dropped_expired plan + dropped_stale_delta_repair plan = length (pl_dropped plan) \<and>
    (\<not> pl_limit_reached plan \<longrightarrow> handled = schedule_total frames)"
proof -
  let ?p = "send_policy_normalized policy" and ?ready = "sat_add (ss_now_us st) (ss_queue_delay_us st)"
  let ?cs = "all_candidates (planned_groups frames ?ready)"
  obtain n where n: "n \<le> length ?cs" "n \<le> sp_max_datagrams ?p"
      "plan_ok ?p st ?ready (sp_max_in_flight ?p - ss_in_flight st) (take n ?cs) plan"
      "\<not> pl_limit_reached plan \<longrightarrow> n = length ?cs \<and> length frames \<le> 4096"
    using planner_pass [of frames st policy] assms(1) by blast
  have h: "handled = n" using n(1,3) assms(2) by (simp add: plan_ok_def)
  have "\<forall>e \<in> set (pl_dropped plan). dd_reason e = Expired \<or> dd_reason e = StaleDeltaRepair"
  proof
    fix e assume "e \<in> set (pl_dropped plan)"
    then have "drop_ok ?p st ?ready (length (pl_scheduled plan)) e" using n(3) by (simp add: plan_ok_def)
    then show "dd_reason e = Expired \<or> dd_reason e = StaleDeltaRepair"
      by (cases "dd_reason e") (simp_all add: drop_ok_def)
  qed
  then have drops: "dropped_expired plan + dropped_stale_delta_repair plan = length (pl_dropped plan)"
    unfolding dropped_expired_def dropped_stale_delta_repair_def by (rule length_two_reasons) simp
  show ?thesis
    using n h drops normalized_max(2) [of policy] total_candidates [of frames] by (auto simp: plan_ok_def)
qed

section \<open>Recovery decisions\<close>

lemma estimate_fits_nat:
  "estimate_fits est remaining margin \<Longrightarrow>
   unat est + max (unat margin) 1 \<le> unat remaining \<or> remaining = -1"
proof -
  assume "estimate_fits est remaining margin"
  moreover have "unat (max margin 1) = max (unat margin) 1" by (simp add: max_def word_le_nat_alt)
  ultimately have le: "min (unat est + max (unat margin) 1) (2 ^ LENGTH(64) - 1) \<le> unat remaining"
    by (simp add: estimate_fits_def word_le_nat_alt unat_sat_add)
  have "unat remaining < 2 ^ LENGTH(64)" by (rule unsigned_less)
  then have "unat remaining = 2 ^ LENGTH(64) - 1 \<or> unat est + max (unat margin) 1 \<le> unat remaining"
    using le by linarith
  then show ?thesis
    using unat_max_word [where ?'a = 64] by (simp only: word_unat_eq_iff) blast
qed


lemma remaining_Some:
  "remaining_us_at d now = Some r \<longleftrightarrow> now < expires_at_us d \<and> r = expires_at_us d - now"
proof -
  have "0 < expires_at_us d - now \<longleftrightarrow> now \<noteq> expires_at_us d"
    by (metis eq_iff_diff_eq_0 word_neq_0_conv)
  then show ?thesis
    by (auto simp: remaining_us_at_def checked_sub_def less_le)
qed

lemma remaining_nat: "remaining_us_at d now = Some r \<Longrightarrow> unat r = unat (expires_at_us d) - unat now"
  by (simp add: remaining_Some unat_sub less_imp_le)

definition all_deadline_left :: "recovery_input \<Rightarrow> bool" where
  "all_deadline_left i \<longleftrightarrow> ri_now_us i = 0 \<and> expires_at_us (ri_deadline i) = -1"

lemma fits_in_time:
  assumes "remaining_us_at (ri_deadline i) (ri_now_us i) = Some remaining" "estimate_fits est remaining margin"
  shows "unat (ri_now_us i) + unat est + max (unat margin) 1 \<le> unat (expires_at_us (ri_deadline i)) \<or>
    all_deadline_left i"
proof -
  have lt: "unat (ri_now_us i) < unat (expires_at_us (ri_deadline i))"
    and r: "unat remaining = unat (expires_at_us (ri_deadline i)) - unat (ri_now_us i)"
    using assms(1) remaining_nat [OF assms(1)] by (simp_all add: remaining_Some word_less_nat_alt)
  have bound: "unat (expires_at_us (ri_deadline i)) \<le> 2 ^ LENGTH(64) - 1"
    using unsigned_less [of "expires_at_us (ri_deadline i)", where ?'a = nat] by linarith
  from estimate_fits_nat [OF assms(2)] show ?thesis
  proof
    assume "remaining = -1"
    then have "unat remaining = 2 ^ LENGTH(64) - 1" by (simp only: unat_max_word)
    then have "unat (ri_now_us i) = 0 \<and> unat (expires_at_us (ri_deadline i)) = 2 ^ LENGTH(64) - 1"
      using r lt bound by linarith
    then show ?thesis
      unfolding all_deadline_left_def by (simp only: word_unat_eq_iff unat_max_word unat_0) simp
  next
    assume "unat est + max (unat margin) 1 \<le> unat remaining"
    then show ?thesis using r lt by linarith
  qed
qed

text \<open>
  Recovery decisions are timely. Whatever the policy and the estimates, the decision to send repair
  symbols or to fetch reliably is taken only if the estimated arrival, plus the safety margin, is not
  after the deadline (the one exception is a clock at 0 with the largest possible deadline, where the
  saturated sum is compared with itself); repair covers at least the missing symbols and never exceeds
  4096 of them; a fetch is chosen only when repair is over its limit or late; and an object is given up
  only when neither fits.
\<close>
lemma recovery_decision_timely:
  "let p = recovery_policy_normalized policy; d = decide_media_recovery policy i;
       in_time = (\<lambda>est. unat (ri_now_us i) + unat est + max (unat (rp_margin_us p)) 1
                    \<le> unat (expires_at_us (ri_deadline i)) \<or> all_deadline_left i);
       repair_fits = (\<lambda>r. repair_symbols_needed p i \<le> rp_max_extra p \<and>
                    estimate_fits (fec_estimate_us p i) r (rp_margin_us p))
   in case rd_action d of
        NoRecoveryNeeded \<Rightarrow> ri_uncovered i = 0
      | SendRaptorQRepair n path \<Rightarrow>
          path = SecondaryRepair \<and> ri_uncovered i \<le> n \<and> n \<le> rp_max_extra policy \<and> n \<le> 4096 \<and>
          in_time (fec_estimate_us p i)
      | ReliableFetch path \<Rightarrow>
          path = ReliableObjectFetch \<and> \<not> repair_fits (rd_remaining_us d) \<and>
          (\<exists>est. ri_fetch_estimate_us i = Some est \<and> in_time est)
      | Expire \<Rightarrow>
          ri_uncovered i \<noteq> 0 \<and>
          (is_expired_at (ri_deadline i) (ri_now_us i) \<or>
           \<not> repair_fits (rd_remaining_us d) \<and>
           (case ri_fetch_estimate_us i of None \<Rightarrow> True
            | Some est \<Rightarrow> \<not> estimate_fits est (rd_remaining_us d) (rp_margin_us p)))"
proof (cases "ri_uncovered i = 0")
  case True
  then show ?thesis by (simp add: decide_media_recovery_def Let_def)
next
  case unc: False
  let ?p = "recovery_policy_normalized policy"
  show ?thesis
  proof (cases "remaining_us_at (ri_deadline i) (ri_now_us i)")
    case None
    then have "is_expired_at (ri_deadline i) (ri_now_us i)"
      using remaining_Some [of "ri_deadline i" "ri_now_us i"] by (auto simp: is_expired_at_def not_less [symmetric])
    then show ?thesis using unc None by (simp add: decide_media_recovery_def expired_recovery_decision_def Let_def)
  next
    case (Some r)
    have lim: "rp_max_extra ?p \<le> rp_max_extra policy" "rp_max_extra ?p \<le> 4096"
      by (simp_all add: recovery_policy_normalized_def HARD_MAX_EXTRA_REPAIR_SYMBOLS_def)
    have cover: "ri_uncovered i \<le> repair_symbols_needed ?p i"
      by (simp add: repair_symbols_needed_def sat_add_mono1)
    note time = fits_in_time [OF Some, of _ "rp_margin_us ?p"]
    show ?thesis
    proof (cases "repair_symbols_needed ?p i \<le> rp_max_extra ?p \<and> estimate_fits (fec_estimate_us ?p i) r (rp_margin_us ?p)")
      case True
      then show ?thesis using unc Some lim cover time [of "fec_estimate_us ?p i"]
        by (simp add: decide_media_recovery_def timely_decision_def Let_def) (meson order_trans)
    next
      case False
      then show ?thesis using unc Some time
        by (auto simp: decide_media_recovery_def timely_decision_def expired_recovery_decision_def Let_def
            split: option.splits)
    qed
  qed
qed

definition example_block :: media_block where
  "example_block = \<lparr>mb_block_id = 0, mb_fragment_index = 0, mb_source_symbols = 2, mb_repair_symbols = 1,
     mb_first_index = 0, mb_datagram_count = 3, mb_payload_len = 100\<rparr>"

definition example_schedule :: frame_schedule where
  "example_schedule =
     \<lparr>sch_frame = \<lparr>ef_sequence = 3, ef_metadata = example_metadata, ef_priority = VideoKey, ef_fragment_count = 1,
        ef_decision = \<lparr>dcn_config = datagram_fec_config_default, dcn_repair_ratio = Fin 0,
          dcn_source_symbols_for_payload = 2, dcn_expected_datagrams = 3\<rparr>,
        ef_blocks = [example_block],
        ef_datagrams = [[], [], []]\<rparr>,
      sch_deadline = MediaDeadline 10000\<rparr>"

definition example_state :: schedule_state where
  "example_state = \<lparr>ss_now_us = 0, ss_queue_delay_us = 0, ss_in_flight = 0\<rparr>"

lemma example_indices:
  "source_datagram_indices example_block = [0, 1]"
  "repair_datagram_indices example_block = [2]"
  by (simp_all add: source_datagram_indices_def repair_datagram_indices_def source_end_def usize_sat_add_def
      usize_max_def example_block_def upt_rec)

lemma example_policy_eq: "send_policy_normalized send_policy_default = send_policy_default"
  by (simp add: send_policy_normalized_def send_policy_default_def DEFAULT_MAX_DATAGRAMS_PER_PLAN_def
      HARD_MAX_DATAGRAMS_PER_PLAN_def Let_def)

lemma example_groups:
  "planned_groups [example_schedule] 0 = frame_groups example_schedule"
  by (simp add: planned_groups_def HARD_MAX_FRAMES_SCANNED_PER_PLAN_def frame_groups_def group_key_def
      scheduling_rank_def media_object_kind_def example_schedule_def example_metadata_def metadata_new_def
      flags_contain_def FLAG_INITIALIZATION_def FLAG_CODEC_CONFIG_def important_kind_def remaining_us_at_def
      checked_sub_def URGENT_REPAIR_WINDOW_US_def)

lemma example_kind: "media_object_kind (sch_frame example_schedule) = VideoKeyframe"
  by (simp add: media_object_kind_def example_schedule_def example_metadata_def metadata_new_def
      flags_contain_def FLAG_INITIALIZATION_def FLAG_CODEC_CONFIG_def)

lemma example_plan:
  "plan_media_datagrams_with_deadlines [example_schedule] send_policy_default example_state =
   plan_groups_loop send_policy_default example_state 0 4096 (frame_groups example_schedule) 0 0 (empty_plan False)"
  using example_groups
  by (simp add: plan_media_datagrams_with_deadlines_def Let_def example_policy_eq planned_groups_def empty_plan_def)
    (simp add: example_state_def send_policy_default_def DEFAULT_MAX_DATAGRAMS_PER_PLAN_def
      HARD_MAX_FRAMES_SCANNED_PER_PLAN_def)

lemma example_plan_result:
  "scheduled_datagram_indices (plan_media_datagrams_with_deadlines [example_schedule] send_policy_default example_state) = [0, 1, 2]"
  "\<not> pl_limit_reached (plan_media_datagrams_with_deadlines [example_schedule] send_policy_default example_state)"
  unfolding example_plan
  by (simp_all add: frame_groups_def example_schedule_def role_indices_def example_indices
      HARD_MAX_BLOCK_VISITS_PER_PLAN_def send_policy_default_def DEFAULT_MAX_DATAGRAMS_PER_PLAN_def
      admit_candidate_def group_candidate_def is_expired_at_def should_drop_stale_delta_repair_def
      example_kind [unfolded example_schedule_def frame_schedule.select_convs] empty_plan_def Let_def
      scheduled_datagram_indices_def candidate_scheduled_def sat_add_def sat_mul_def)

theorem planner_accounts_for_all_witness:
  "let plan = plan_media_datagrams_with_deadlines [example_schedule] send_policy_default example_state
   in length (pl_scheduled plan) + length (pl_dropped plan) + pl_blocked plan = 3 \<and>
      scheduled_datagram_indices plan = [0, 1, 2]"
proof -
  have "schedule_total [example_schedule] = 3"
    by (simp add: schedule_total_def example_schedule_def example_indices)
  then show ?thesis
    using planner_accounts_for_all [OF refl refl, of "[example_schedule]" send_policy_default example_state]
      example_plan_result by (simp add: Let_def)
qed

end
