(* ===== verification/Telemetry.thy ===== *)
theory Telemetry
  imports Send_Planner Media_Transfer
begin

text \<open>
  \<^verbatim>\<open>telemetry.rs\<close>: the loss outcome of an encoded frame and the saturating 64-bit counters of the repair path.
  A \<open>usize\<close> enters a counter with \<open>as u64\<close>, which is \<open>of_nat\<close>.
\<close>

section \<open>Outcomes and counters\<close>

record loss_outcome_data =
  lo_lost_source :: nat
  lo_lost_repair :: nat
  lo_repaired_source :: nat
  lo_unused_repair :: nat
  lo_failed_blocks :: nat
  lo_decoded :: bool
  lo_deadline_missed :: bool

record repair_counters =
  ct_encoded_frames :: u64
  ct_decoded_frames :: u64
  ct_failed_frames :: u64
  ct_source_symbols :: u64
  ct_repair_symbols :: u64
  ct_wire_datagrams :: u64
  ct_protected_bytes :: u64
  ct_wire_bytes :: u64
  ct_fec_overhead_bytes :: u64
  ct_lost_source_datagrams :: u64
  ct_lost_repair_datagrams :: u64
  ct_repaired_source_datagrams :: u64
  ct_unused_repair_datagrams :: u64
  ct_failed_blocks :: u64
  ct_decode_deadline_misses :: u64
  ct_dropped_expired_datagrams :: u64
  ct_dropped_stale_repair_datagrams :: u64
  ct_dropped_in_flight_limit_datagrams :: u64
  ct_recovery_noop_decisions :: u64
  ct_raptorq_recovery_decisions :: u64
  ct_raptorq_extra_repair_symbols :: u64
  ct_reliable_fetch_recovery_decisions :: u64
  ct_expired_recovery_decisions :: u64
  ct_delivery_deadline_hits :: u64
  ct_delivery_deadline_misses :: u64
  ct_backfill_requests :: u64
  ct_backfill_hits :: u64
  ct_backfill_misses :: u64

definition counters_default :: repair_counters where
  "counters_default =
     \<lparr>ct_encoded_frames = 0, ct_decoded_frames = 0, ct_failed_frames = 0,
      ct_source_symbols = 0, ct_repair_symbols = 0, ct_wire_datagrams = 0,
      ct_protected_bytes = 0, ct_wire_bytes = 0, ct_fec_overhead_bytes = 0,
      ct_lost_source_datagrams = 0, ct_lost_repair_datagrams = 0, ct_repaired_source_datagrams = 0,
      ct_unused_repair_datagrams = 0, ct_failed_blocks = 0, ct_decode_deadline_misses = 0,
      ct_dropped_expired_datagrams = 0, ct_dropped_stale_repair_datagrams = 0, ct_dropped_in_flight_limit_datagrams = 0,
      ct_recovery_noop_decisions = 0, ct_raptorq_recovery_decisions = 0, ct_raptorq_extra_repair_symbols = 0,
      ct_reliable_fetch_recovery_decisions = 0, ct_expired_recovery_decisions = 0, ct_delivery_deadline_hits = 0,
      ct_delivery_deadline_misses = 0, ct_backfill_requests = 0, ct_backfill_hits = 0,
      ct_backfill_misses = 0\<rparr>"

definition record_frame_stats :: "frame_stats \<Rightarrow> repair_counters \<Rightarrow> repair_counters" where
  "record_frame_stats st c =
     c\<lparr>ct_encoded_frames := sat_add (ct_encoded_frames c) 1,
      ct_source_symbols := sat_add (ct_source_symbols c) (of_nat (fs_source_datagrams st)),
      ct_repair_symbols := sat_add (ct_repair_symbols c) (of_nat (fs_repair_datagrams st)),
      ct_wire_datagrams := sat_add (ct_wire_datagrams c) (of_nat (fs_wire_datagrams st)),
      ct_protected_bytes := sat_add (ct_protected_bytes c) (of_nat (fs_protected_bytes st)),
      ct_wire_bytes := sat_add (ct_wire_bytes c) (of_nat (fs_wire_bytes st)),
      ct_fec_overhead_bytes := sat_add (ct_fec_overhead_bytes c) (of_nat (overhead_bytes st))\<rparr>"

definition record_encoded_frame :: "encoded_media_frame \<Rightarrow> repair_counters \<Rightarrow> repair_counters" where
  "record_encoded_frame f c = record_frame_stats (encoded_frame_stats f) c"

definition record_loss_outcome :: "loss_outcome_data \<Rightarrow> repair_counters \<Rightarrow> repair_counters" where
  "record_loss_outcome out c =
     (let c1 = (if lo_decoded out then c\<lparr>ct_decoded_frames := sat_add (ct_decoded_frames c) 1\<rparr>
                else c\<lparr>ct_failed_frames := sat_add (ct_failed_frames c) 1\<rparr>);
          c2 = c1\<lparr>ct_lost_source_datagrams := sat_add (ct_lost_source_datagrams c1) (of_nat (lo_lost_source out)),
      ct_lost_repair_datagrams := sat_add (ct_lost_repair_datagrams c1) (of_nat (lo_lost_repair out)),
      ct_repaired_source_datagrams := sat_add (ct_repaired_source_datagrams c1) (of_nat (lo_repaired_source out)),
      ct_unused_repair_datagrams := sat_add (ct_unused_repair_datagrams c1) (of_nat (lo_unused_repair out)),
      ct_failed_blocks := sat_add (ct_failed_blocks c1) (of_nat (lo_failed_blocks out))\<rparr>
      in if lo_deadline_missed out then c2\<lparr>ct_decode_deadline_misses := sat_add (ct_decode_deadline_misses c2) 1\<rparr>
         else c2)"

definition record_dropped :: "send_plan \<Rightarrow> dropped_datagram \<Rightarrow> repair_counters \<Rightarrow> repair_counters" where
  "record_dropped plan e c =
     (case dd_reason e of
        Expired \<Rightarrow> c\<lparr>ct_dropped_expired_datagrams := sat_add (ct_dropped_expired_datagrams c) 1\<rparr>
      | StaleDeltaRepair \<Rightarrow>
          c\<lparr>ct_dropped_stale_repair_datagrams := sat_add (ct_dropped_stale_repair_datagrams c) 1\<rparr>
      | InFlightLimit \<Rightarrow>
          if pl_blocked plan = 0 then
            c\<lparr>ct_dropped_in_flight_limit_datagrams := sat_add (ct_dropped_in_flight_limit_datagrams c) 1\<rparr>
          else c)"

definition record_send_plan :: "send_plan \<Rightarrow> repair_counters \<Rightarrow> repair_counters" where
  "record_send_plan plan c =
     fold (record_dropped plan) (pl_dropped plan)
       (c\<lparr>ct_dropped_in_flight_limit_datagrams := sat_add (ct_dropped_in_flight_limit_datagrams c) (of_nat (pl_blocked plan))\<rparr>)"

definition record_recovery_decision :: "recovery_decision \<Rightarrow> repair_counters \<Rightarrow> repair_counters" where
  "record_recovery_decision d c =
     (case rd_action d of
        NoRecoveryNeeded \<Rightarrow> c\<lparr>ct_recovery_noop_decisions := sat_add (ct_recovery_noop_decisions c) 1\<rparr>
      | SendRaptorQRepair n _ \<Rightarrow>
          c\<lparr>ct_raptorq_recovery_decisions := sat_add (ct_raptorq_recovery_decisions c) 1,
      ct_raptorq_extra_repair_symbols := sat_add (ct_raptorq_extra_repair_symbols c) (ucast n)\<rparr>
      | ReliableFetch _ \<Rightarrow>
          c\<lparr>ct_reliable_fetch_recovery_decisions := sat_add (ct_reliable_fetch_recovery_decisions c) 1\<rparr>
      | Expire \<Rightarrow> c\<lparr>ct_expired_recovery_decisions := sat_add (ct_expired_recovery_decisions c) 1\<rparr>)"

definition record_deadline_outcome :: "deadline_outcome \<Rightarrow> repair_counters \<Rightarrow> repair_counters" where
  "record_deadline_outcome out c =
     (if do_deadline_hit out then c\<lparr>ct_delivery_deadline_hits := sat_add (ct_delivery_deadline_hits c) 1\<rparr>
      else c\<lparr>ct_delivery_deadline_misses := sat_add (ct_delivery_deadline_misses c) 1\<rparr>)"

definition record_backfill_result :: "bool \<Rightarrow> repair_counters \<Rightarrow> repair_counters" where
  "record_backfill_result hit c =
     (let c1 = c\<lparr>ct_backfill_requests := sat_add (ct_backfill_requests c) 1\<rparr>
      in if hit then c1\<lparr>ct_backfill_hits := sat_add (ct_backfill_hits c1) 1\<rparr>
         else c1\<lparr>ct_backfill_misses := sat_add (ct_backfill_misses c1) 1\<rparr>)"

section \<open>Loss outcomes\<close>

definition loss_outcome_default :: loss_outcome_data where
  "loss_outcome_default =
     \<lparr>lo_lost_source = 0, lo_lost_repair = 0, lo_repaired_source = 0, lo_unused_repair = 0,
      lo_failed_blocks = 0, lo_decoded = False, lo_deadline_missed = False\<rparr>"

definition lost_among :: "nat set \<Rightarrow> nat list \<Rightarrow> nat" where
  "lost_among dropped indices = length (filter (\<lambda>i. i \<in> dropped) indices)"

definition block_loss :: "nat set \<Rightarrow> bool \<Rightarrow> media_block \<Rightarrow> loss_outcome_data \<Rightarrow> loss_outcome_data" where
  "block_loss dropped decoded b out =
     (let lost_source = lost_among dropped (source_datagram_indices b);
          lost_repair = lost_among dropped (repair_datagram_indices b);
          available_repair = unat (mb_repair_symbols b) - lost_repair;
          out1 = out\<lparr>lo_lost_source := lo_lost_source out + lost_source,
                     lo_lost_repair := lo_lost_repair out + lost_repair\<rparr>;
          out2 = (if lost_source > available_repair
                  then out1\<lparr>lo_failed_blocks := lo_failed_blocks out1 + 1\<rparr> else out1)
      in if decoded
         then out2\<lparr>lo_repaired_source := lo_repaired_source out2 + lost_source,
                   lo_unused_repair := lo_unused_repair out2 + (available_repair - lost_source)\<rparr>
         else out2)"

definition loss_outcome :: "encoded_media_frame \<Rightarrow> nat list \<Rightarrow> bool \<Rightarrow> bool \<Rightarrow> loss_outcome_data" where
  "loss_outcome f dropped decoded missed =
     fold (block_loss (set dropped) decoded) (ef_blocks f)
       (loss_outcome_default\<lparr>lo_decoded := decoded, lo_deadline_missed := missed\<rparr>)"

definition datagram_loss_outcome :: "encoded_media_frame \<Rightarrow> nat list \<Rightarrow> bool \<Rightarrow> loss_outcome_data" where
  "datagram_loss_outcome f dropped decoded = loss_outcome f dropped decoded False"

definition lost_datagram_roles :: "encoded_media_frame \<Rightarrow> nat list \<Rightarrow> nat \<times> nat" where
  "lost_datagram_roles f dropped =
     fold (\<lambda>i (source, repair).
         case frame_datagram_role f i of
           Some SourceRole \<Rightarrow> (source + 1, repair)
         | Some RepairRole \<Rightarrow> (source, repair + 1)
         | None \<Rightarrow> (source, repair)) dropped (0, 0)"

section \<open>What the outcome counts\<close>

lemma fold_block_loss:
  "lo_lost_source (fold (block_loss D dec) bs out) =
     lo_lost_source out + length (filter (\<lambda>i. i \<in> D) (concat (map source_datagram_indices bs)))"
  "lo_lost_repair (fold (block_loss D dec) bs out) =
     lo_lost_repair out + length (filter (\<lambda>i. i \<in> D) (concat (map repair_datagram_indices bs)))"
  "lo_failed_blocks (fold (block_loss D dec) bs out) =
     lo_failed_blocks out + length (filter (\<lambda>b. unat (mb_repair_symbols b) -
         lost_among D (repair_datagram_indices b) < lost_among D (source_datagram_indices b)) bs)"
  by (induction bs arbitrary: out) (simp_all add: block_loss_def Let_def lost_among_def)

lemma lost_roles_count:
  "lost_datagram_roles f dropped =
     (length (filter (\<lambda>i. frame_datagram_role f i = Some SourceRole) dropped),
      length (filter (\<lambda>i. frame_datagram_role f i = Some RepairRole) dropped))"
proof -
  have "fold (\<lambda>i (source, repair). case frame_datagram_role f i of
        Some SourceRole \<Rightarrow> (source + 1, repair) | Some RepairRole \<Rightarrow> (source, repair + 1)
      | None \<Rightarrow> (source, repair)) dropped (a, b) =
      (a + length (filter (\<lambda>i. frame_datagram_role f i = Some SourceRole) dropped),
       b + length (filter (\<lambda>i. frame_datagram_role f i = Some RepairRole) dropped))" for a b :: nat
    by (induction dropped arbitrary: a b) (auto split: option.split datagram_role.split)
  then show ?thesis by (simp add: lost_datagram_roles_def)
qed

lemma filter_swap:
  assumes "distinct xs" "distinct ys"
  shows "length (filter (\<lambda>x. x \<in> set ys) xs) = length (filter (\<lambda>y. y \<in> set xs) ys)"
proof -
  have "length (filter (\<lambda>x. x \<in> set ys) xs) = card (set xs \<inter> set ys)"
    using distinct_card [OF distinct_filter [OF assms(1)]] by (metis inter_set_filter Int_commute)
  also have "\<dots> = length (filter (\<lambda>y. y \<in> set xs) ys)"
    using distinct_card [OF distinct_filter [OF assms(2)]] by (metis inter_set_filter)
  finally show ?thesis .
qed

lemma find_map_role:
  "find_map (\<lambda>b. block_datagram_role b i) bs = Some r \<Longrightarrow>
   i \<in> set (concat (map (\<lambda>b. case r of SourceRole \<Rightarrow> source_datagram_indices b
                                    | RepairRole \<Rightarrow> repair_datagram_indices b) bs))"
  by (induction bs) (auto simp: block_datagram_role_def split: option.splits if_splits)

lemma tiled_indices:
  assumes "blocks_tile 0 bs" "0 + blocks_total bs \<le> usize_max"
  shows "distinct (concat (map source_datagram_indices bs) @ concat (map repair_datagram_indices bs))"
    "i \<in> set (concat (map source_datagram_indices bs)) \<longleftrightarrow> find_map (\<lambda>b. block_datagram_role b i) bs = Some SourceRole"
    "i \<in> set (concat (map repair_datagram_indices bs)) \<longleftrightarrow> find_map (\<lambda>b. block_datagram_role b i) bs = Some RepairRole"
proof -
  have ent: "concat (map (\<lambda>b. map ds_datagram_index (block_entries b)) bs) = [0..<0 + blocks_total bs]"
    using plan_indices [OF assms] by (simp add: map_concat comp_def)
  have "mset (concat (map source_datagram_indices bs) @ concat (map repair_datagram_indices bs)) =
      mset (concat (map (\<lambda>b. source_datagram_indices b @ repair_datagram_indices b) bs))"
    by (rule mset_interleave)
  then have "mset (concat (map source_datagram_indices bs) @ concat (map repair_datagram_indices bs)) = mset [0..<0 + blocks_total bs]"
    using ent by (simp add: send_entries_simps)
  from mset_eq_imp_distinct_iff [OF this]
  show "distinct (concat (map source_datagram_indices bs) @ concat (map repair_datagram_indices bs))" by simp
  have role: "find_map (\<lambda>b. block_datagram_role b i) bs = Some r"
    if b: "b \<in> set bs" "i \<in> set (map ds_datagram_index (send_entries r b))" for b r
  proof -
    obtain x where x: "x \<in> set (send_entries r b)" "i = ds_datagram_index x" using b(2) by auto
    have "ds_role x = r" using x(1) by (auto simp: send_entries_def)
    moreover have "x \<in> set (concat (map block_entries bs))" using x(1) b(1) by (cases r) auto
    ultimately show ?thesis using plan_roles [OF assms] x(2) by blast
  qed
  show "i \<in> set (concat (map source_datagram_indices bs)) \<longleftrightarrow> find_map (\<lambda>b. block_datagram_role b i) bs = Some SourceRole"
    using role [of _ SourceRole] find_map_role [of i bs SourceRole] by (auto simp: send_entries_simps)
  show "i \<in> set (concat (map repair_datagram_indices bs)) \<longleftrightarrow> find_map (\<lambda>b. block_datagram_role b i) bs = Some RepairRole"
    using role [of _ RepairRole] find_map_role [of i bs RepairRole] by (auto simp: send_entries_simps)
qed

lemma length_filter_not: "length (filter P xs) + length (filter (\<lambda>x. \<not> P x) xs) = length xs"
  by (rule sum_length_filter_compl)

lemma block_failed:
  assumes "mb_first_index b + mb_datagram_count b \<le> usize_max"
    and "mb_datagram_count b = unat (mb_source_symbols b) + unat (mb_repair_symbols b)"
  shows "unat (mb_repair_symbols b) - lost_among D (repair_datagram_indices b) <
      lost_among D (source_datagram_indices b) \<longleftrightarrow>
    length (filter (\<lambda>i. i \<notin> D) [mb_first_index b..<mb_first_index b + mb_datagram_count b]) <
      unat (mb_source_symbols b)"
proof -
  let ?s = "source_datagram_indices b" and ?r = "repair_datagram_indices b"
  have "source_end b = mb_first_index b + unat (mb_source_symbols b)"
    using assms by (auto simp: source_end_def usize_sat_add_def min_def)
  then have len: "length ?s = unat (mb_source_symbols b)" "length ?r = unat (mb_repair_symbols b)"
    using assms source_end_bounds(1) [OF assms(1)]
    by (simp_all add: source_datagram_indices_def repair_datagram_indices_def)
  have "length (filter (\<lambda>i. i \<notin> D) [mb_first_index b..<mb_first_index b + mb_datagram_count b]) =
      length (filter (\<lambda>i. i \<notin> D) ?s) + length (filter (\<lambda>i. i \<notin> D) ?r)"
    unfolding block_indices [OF assms(1), symmetric] by simp
  then show ?thesis
    using length_filter_not [of "\<lambda>i. i \<in> D" ?s] length_filter_not [of "\<lambda>i. i \<in> D" ?r] len
    unfolding lost_among_def by linarith
qed

lemma layout_block_counts:
  "\<forall>i \<in> set is. job_ok ctl job i \<Longrightarrow> m \<in> set (layout_blocks ctl job b n is) \<Longrightarrow>
   mb_datagram_count m = unat (mb_source_symbols m) + unat (mb_repair_symbols m)"
  by (induction "is" arbitrary: b n)
    (auto simp: job_ok_def block_count_def block_data_geometry(3))

lemma tile_in_range:
  "blocks_tile n bs \<Longrightarrow> b \<in> set bs \<Longrightarrow> mb_first_index b + mb_datagram_count b \<le> n + blocks_total bs"
proof (induction bs arbitrary: n)
  case (Cons a bs)
  show ?case
  proof (cases "b = a")
    case False
    then have "mb_first_index b + mb_datagram_count b \<le> (n + mb_datagram_count a) + blocks_total bs"
      using Cons by auto
    then show ?thesis by simp
  qed (use Cons.prems in simp)
qed simp

text \<open>The blocks of an encoded frame tile its datagrams, each block with its source and repair datagrams.\<close>

lemma encoded_frame_blocks:
  assumes lawful: "rq_lawful rq" and send: "media_sendable e md payload"
    and enc: "encode_frame_with_optional_pool crc rq e md payload pool = (e', pool', Inr f)"
  shows "blocks_tile 0 (ef_blocks f) \<and> 0 + blocks_total (ef_blocks f) \<le> usize_max \<and>
    blocks_total (ef_blocks f) = length (ef_datagrams f) \<and>
    (\<forall>b \<in> set (ef_blocks f). mb_datagram_count b = unat (mb_source_symbols b) + unat (mb_repair_symbols b))"
proof -
  let ?job = "frame_job e md payload"
  have ok: "\<forall>i \<in> set [0..<fj_count ?job]. job_ok (me_controller e) ?job i"
    using frame_job_ok [OF send] by simp
  have n: "length [0..<fj_count ?job] \<le> 65535" using send by (simp add: media_sendable_def)
  have blocks: "ef_blocks f = layout_blocks (me_controller e) ?job (enc_block_id (me_fec e)) 0 [0..<fj_count ?job]"
    and ds: "length (ef_datagrams f) = length (layout (me_controller e) ?job (enc_block_id (me_fec e))
        (enc_packet_sequence (me_fec e)) [0..<fj_count ?job])"
    using encode_frame_lawful [OF lawful send, of crc pool] enc by auto
  show ?thesis
    using layout_tile layout_short [OF ok n] layout_block_counts [OF ok] ds
    by (simp add: blocks length_layout [where n = 0])
qed

text \<open>
  The loss outcome is right. For an encoded frame and a set of lost datagrams, the outcome counts
  the lost source and repair datagrams exactly as their roles say, and it counts a block as failed
  exactly when fewer of the block's datagrams arrive than the block has source symbols.
\<close>
lemma loss_outcome_counts:
  assumes "rq_lawful rq" "media_sendable e md payload" "distinct dropped"
    and "encode_frame_with_optional_pool crc rq e md payload pool = (e', pool', Inr f)"
  shows "let out = loss_outcome f dropped decoded missed
    in (lo_lost_source out, lo_lost_repair out) = lost_datagram_roles f dropped \<and>
       lo_failed_blocks out = length (filter (\<lambda>b.
         length (filter (\<lambda>i. i \<notin> set dropped) [mb_first_index b..<mb_first_index b + mb_datagram_count b])
           < unat (mb_source_symbols b)) (ef_blocks f))"
proof -
  let ?src = "concat (map source_datagram_indices (ef_blocks f))"
    and ?rep = "concat (map repair_datagram_indices (ef_blocks f))"
  note blocks = encoded_frame_blocks [OF assms(1,2,4)]
  have tile: "blocks_tile 0 (ef_blocks f)" and le: "0 + blocks_total (ef_blocks f) \<le> usize_max"
    using blocks by simp_all
  note idx = tiled_indices [OF tile le]
  have dist: "distinct ?src" "distinct ?rep" using idx(1) by simp_all
  have roles: "lost_datagram_roles f dropped = (length (filter (\<lambda>i. i \<in> set dropped) ?src),
      length (filter (\<lambda>i. i \<in> set dropped) ?rep))"
    unfolding lost_roles_count frame_datagram_role_def idx(2,3) [symmetric]
      filter_swap [OF assms(3) dist(1)] filter_swap [OF assms(3) dist(2)] ..
  have failed: "filter (\<lambda>b. unat (mb_repair_symbols b) - lost_among (set dropped) (repair_datagram_indices b) <
        lost_among (set dropped) (source_datagram_indices b)) (ef_blocks f) =
      filter (\<lambda>b. length (filter (\<lambda>i. i \<notin> set dropped) [mb_first_index b..<mb_first_index b + mb_datagram_count b])
        < unat (mb_source_symbols b)) (ef_blocks f)"
    by (rule filter_cong [OF refl], rule block_failed) (use tile_in_range [OF tile] le blocks in force)+
  show ?thesis
    unfolding Let_def roles loss_outcome_def fold_block_loss failed by (simp add: loss_outcome_default_def)
qed

lemma loss_outcome_counts_witness:
  "\<exists>e' pool' f. encode_frame_with_optional_pool crc_reference rep_codec example_encoder example_metadata [1, 2, 3] None =
      (e', pool', Inr f) \<and>
     (let out = loss_outcome f [0, 2] True False
      in (lo_lost_source out, lo_lost_repair out) = lost_datagram_roles f [0, 2])"
proof -
  obtain e' pool' f where "encode_frame_with_optional_pool crc_reference rep_codec example_encoder example_metadata [1, 2, 3] None =
      (e', pool', Inr f)"
    using encode_frame_lawful [OF rep_codec_lawful example_sendable(1)] by metis
  then show ?thesis
    using loss_outcome_counts [OF rep_codec_lawful example_sendable(1), of "[0, 2]" crc_reference None e' pool' f True False]
    by (simp add: Let_def)
qed

section \<open>What the plan counters count\<close>

lemma record_dropped_counts:
  assumes "\<forall>e \<in> set es. dd_reason e \<noteq> InFlightLimit"
  shows "unat (ct_dropped_expired_datagrams (fold (record_dropped plan) es c)) =
      min (unat (ct_dropped_expired_datagrams c) + length (filter (\<lambda>e. dd_reason e = Expired) es)) (2 ^ 64 - 1)"
    "unat (ct_dropped_stale_repair_datagrams (fold (record_dropped plan) es c)) =
      min (unat (ct_dropped_stale_repair_datagrams c) + length (filter (\<lambda>e. dd_reason e = StaleDeltaRepair) es)) (2 ^ 64 - 1)"
    "ct_dropped_in_flight_limit_datagrams (fold (record_dropped plan) es c) = ct_dropped_in_flight_limit_datagrams c"
proof -
  have word: "unat (w :: u64) \<le> 2 ^ 64 - 1" for w using unsigned_less [of w, where ?'a = nat] by simp
  show "unat (ct_dropped_expired_datagrams (fold (record_dropped plan) es c)) =
      min (unat (ct_dropped_expired_datagrams c) + length (filter (\<lambda>e. dd_reason e = Expired) es)) (2 ^ 64 - 1)"
    using assms word
    by (induction es arbitrary: c) (auto simp: record_dropped_def unat_sat_add min_def split: drop_reason.split)
  show "unat (ct_dropped_stale_repair_datagrams (fold (record_dropped plan) es c)) =
      min (unat (ct_dropped_stale_repair_datagrams c) + length (filter (\<lambda>e. dd_reason e = StaleDeltaRepair) es)) (2 ^ 64 - 1)"
    using assms word
    by (induction es arbitrary: c) (auto simp: record_dropped_def unat_sat_add min_def split: drop_reason.split)
  show "ct_dropped_in_flight_limit_datagrams (fold (record_dropped plan) es c) = ct_dropped_in_flight_limit_datagrams c"
    using assms by (induction es arbitrary: c) (auto simp: record_dropped_def split: drop_reason.split)
qed

text \<open>
  The drop counters follow the planner. Recording a plan of the planner adds the datagrams it
  dropped as expired, those it dropped as stale repair and those it held back for the in-flight limit
  to the three counters, which stop at the largest 64-bit number instead of wrapping.
\<close>
lemma telemetry_counts_plan:
  "let plan = plan_media_datagrams_with_deadlines frames policy st; c' = record_send_plan plan c
   in unat (ct_dropped_expired_datagrams c') =
        min (unat (ct_dropped_expired_datagrams c) + dropped_expired plan) (2 ^ 64 - 1) \<and>
      unat (ct_dropped_stale_repair_datagrams c') =
        min (unat (ct_dropped_stale_repair_datagrams c) + dropped_stale_delta_repair plan) (2 ^ 64 - 1) \<and>
      unat (ct_dropped_in_flight_limit_datagrams c') =
        min (unat (ct_dropped_in_flight_limit_datagrams c) + pl_blocked plan) (2 ^ 64 - 1)"
proof -
  let ?p = "send_policy_normalized policy" and ?plan = "plan_media_datagrams_with_deadlines frames policy st"
  let ?ready = "sat_add (ss_now_us st) (ss_queue_delay_us st)"
  obtain n cs where n: "n \<le> sp_max_datagrams ?p" "n \<le> length cs"
      and ok: "plan_ok ?p st ?ready (sp_max_in_flight ?p - ss_in_flight st) (take n cs) ?plan"
    using planner_pass [of frames st policy] by metis
  have reasons: "\<forall>e \<in> set (pl_dropped ?plan). dd_reason e \<noteq> InFlightLimit"
    using ok by (auto simp: plan_ok_def drop_ok_def)
  have "pl_blocked ?plan \<le> n" using ok n(2) by (auto simp: plan_ok_def)
  then have "pl_blocked ?plan \<le> 65536" using n(1) normalized_max(2) [of policy] by linarith
  then have "unat (of_nat (pl_blocked ?plan) :: u64) = pl_blocked ?plan"
    by (simp add: unat_of_nat take_bit_nat_eq_self)
  then show ?thesis
    unfolding Let_def record_send_plan_def record_dropped_counts [OF reasons]
    by (simp add: unat_sat_add dropped_expired_def dropped_stale_delta_repair_def)
qed

end
