(* ===== verification/Backfill.thy ===== *)
theory Backfill
  imports Media
begin

text \<open>
  \<^verbatim>\<open>backfill.rs\<close>: the bounded store of encoded frames from which datagrams are sent again on request. The
  deque of the source is a list, its front first. The interface of a recency-bounded store is the
  locale \<open>recent_store\<close>; the media store is an instance of it.
\<close>

section \<open>Interface: a store that keeps the most recent entries\<close>

text \<open>
  \<open>entries s\<close> lists the stored entries, the oldest first; \<open>key_of\<close> names them. \<open>put\<close> replaces an entry of
  the same key, appends the new one and drops the oldest ones over the capacity; \<open>find\<close> looks a key up.
\<close>

locale recent_store =
  fixes entries :: "'s \<Rightarrow> 'e list" and key_of :: "'e \<Rightarrow> 'k" and capacity :: "'s \<Rightarrow> nat"
    and put :: "'e \<Rightarrow> 's \<Rightarrow> 's" and lookup :: "'k \<Rightarrow> 's \<Rightarrow> 'e option" and inv :: "'s \<Rightarrow> bool"
  assumes inv_distinct: "inv s \<Longrightarrow> distinct (map key_of (entries s))"
    and inv_bounded: "inv s \<Longrightarrow> length (entries s) \<le> capacity s \<and> 0 < capacity s"
    and put_inv: "inv s \<Longrightarrow> inv (put e s)"
    and put_capacity: "capacity (put e s) = capacity s"
    and put_entries: "inv s \<Longrightarrow> \<exists>n. entries (put e s) =
        drop n (filter (\<lambda>x. key_of x \<noteq> key_of e) (entries s) @ [e]) \<and>
        (n = 0 \<or> n = Suc (length (filter (\<lambda>x. key_of x \<noteq> key_of e) (entries s))) - capacity s)"
    and lookup_entries: "inv s \<Longrightarrow> lookup k s = Some e \<longleftrightarrow> e \<in> set (entries s) \<and> key_of e = k"
begin

lemma put_last: "inv s \<Longrightarrow> \<exists>es. entries (put e s) = es @ [e]"
proof -
  assume s: "inv s"
  let ?f = "filter (\<lambda>x. key_of x \<noteq> key_of e) (entries s)"
  obtain n where n: "entries (put e s) = drop n (?f @ [e])" "n = 0 \<or> n = Suc (length ?f) - capacity s"
    using put_entries [OF s] by blast
  have "n \<le> length ?f" using n(2) inv_bounded [OF s] by auto
  then show ?thesis using n(1) by simp
qed

lemma lookup_put_same: "inv s \<Longrightarrow> lookup (key_of e) (put e s) = Some e"
  using put_last [of s e] lookup_entries [OF put_inv] by fastforce

lemma lookup_put_other:
  assumes "inv s" "k \<noteq> key_of e" "lookup k (put e s) = Some x"
  shows "lookup k s = Some x"
proof -
  obtain n where "entries (put e s) = drop n (filter (\<lambda>x. key_of x \<noteq> key_of e) (entries s) @ [e])"
    using put_entries [OF assms(1)] by blast
  moreover have "x \<in> set (entries (put e s))" "key_of x = k"
    using assms lookup_entries [OF put_inv] by blast+
  ultimately have "x \<in> set (entries s)" using assms(2) by (auto dest: in_set_dropD)
  then show ?thesis using lookup_entries [OF assms(1)] \<open>key_of x = k\<close> by blast
qed

lemma put_keeps_when_room:
  assumes "inv s" "length (entries s) < capacity s" "k \<noteq> key_of e" "lookup k s = Some x"
  shows "lookup k (put e s) = Some x"
proof -
  let ?f = "filter (\<lambda>x. key_of x \<noteq> key_of e) (entries s)"
  obtain n where n: "entries (put e s) = drop n (?f @ [e])" "n = 0 \<or> n = Suc (length ?f) - capacity s"
    using put_entries [OF assms(1)] by blast
  have "length ?f \<le> length (entries s)" by (rule length_filter_le)
  then have "Suc (length ?f) \<le> capacity s" using assms(2) by linarith
  then have "n = 0" using n(2) by auto
  moreover have "x \<in> set (entries s)" "key_of x = k" using assms(1,4) lookup_entries by blast+
  ultimately show ?thesis using n(1) assms(3) lookup_entries [OF put_inv [OF assms(1)]] by auto
qed

text \<open>The entry put \<open>j\<close> puts ago is still there if fewer than \<open>capacity\<close> entries were put since.\<close>

lemma put_suffix:
  assumes "inv s" "entries s = pre @ [x] @ post" "key_of x \<noteq> key_of e" "length post + 1 < capacity s"
  shows "\<exists>pre' post'. entries (put e s) = pre' @ [x] @ post' \<and> length post' \<le> length post + 1"
proof -
  let ?P = "\<lambda>x. key_of x \<noteq> key_of e"
  obtain n where n: "entries (put e s) = drop n (filter ?P (entries s) @ [e])"
      "n = 0 \<or> n = Suc (length (filter ?P (entries s))) - capacity s"
    using put_entries [OF assms(1)] by blast
  have eq: "filter ?P (entries s) @ [e] = filter ?P pre @ [x] @ (filter ?P post @ [e])"
    using assms(2,3) by simp
  have le: "length (filter ?P post) \<le> length post" by simp
  have "length (filter ?P (entries s)) = length (filter ?P pre) + 1 + length (filter ?P post)"
    using assms(2,3) by simp
  then have "n \<le> length (filter ?P pre)" using n(2) assms(4) le by linarith
  then have "entries (put e s) = drop n (filter ?P pre) @ [x] @ (filter ?P post @ [e])"
    unfolding n(1) eq by simp
  then show ?thesis using le by (intro exI [of _ "drop n (filter ?P pre)"] exI) auto
qed

lemma recently_put_stays:
  assumes "inv s" "\<forall>e \<in> set es. key_of e \<noteq> key_of x" "length es < capacity s"
  shows "lookup (key_of x) (fold put es (put x s)) = Some x"
proof -
  have step: "inv t \<Longrightarrow> capacity t = capacity s \<Longrightarrow> entries t = pre @ [x] @ post \<Longrightarrow>
      length post + length es < capacity s \<Longrightarrow>
      inv (fold put es t) \<and> x \<in> set (entries (fold put es t))" for t pre post
    using assms(2)
  proof (induction es arbitrary: t pre post)
    case (Cons e es)
    obtain pre' post' where new: "entries (put e t) = pre' @ [x] @ post'" "length post' \<le> length post + 1"
      using put_suffix [OF Cons.prems(1,3), of e] Cons.prems by auto
    show ?case
      using Cons.IH [OF put_inv [OF Cons.prems(1)] _ new(1)] Cons.prems new(2) by (simp add: put_capacity)
  qed simp
  obtain pre where "entries (put x s) = pre @ [x] @ []" using put_last [OF assms(1), of x] by auto
  from step [OF put_inv [OF assms(1)] put_capacity this] assms(3)
  show ?thesis using lookup_entries by simp
qed

end

section \<open>The store of media frames\<close>

record backfill_key =
  bk_stream_id :: u64
  bk_sequence :: u64

definition backfill_key_of :: "media_metadata \<Rightarrow> backfill_key" where
  "backfill_key_of m = \<lparr>bk_stream_id = md_stream_id m, bk_sequence = md_sequence m\<rparr>"

record backfill_datagram =
  bd_index :: nat
  bd_bytes :: bytes

datatype backfill_request =
    FrameRequest backfill_key
  | DatagramsRequest backfill_key "nat list"

definition request_key :: "backfill_request \<Rightarrow> backfill_key" where
  "request_key r = (case r of FrameRequest k \<Rightarrow> k | DatagramsRequest k _ \<Rightarrow> k)"

record backfill_response =
  br_key :: backfill_key
  br_datagrams :: "backfill_datagram list"

record backfill_frame =
  bf_key :: backfill_key
  bf_metadata :: media_metadata
  bf_stats :: frame_stats
  bf_datagrams :: "bytes list"

definition frame_datagram :: "backfill_frame \<Rightarrow> nat \<Rightarrow> bytes option" where
  "frame_datagram f i = (if i < length (bf_datagrams f) then Some (bf_datagrams f ! i) else None)"

definition frame_datagrams :: "backfill_frame \<Rightarrow> backfill_datagram list" where
  "frame_datagrams f =
     map (\<lambda>(i, bs). \<lparr>bd_index = i, bd_bytes = bs\<rparr>) (zip [0..<length (bf_datagrams f)] (bf_datagrams f))"

record backfill_store =
  bst_capacity :: nat
  bst_frames :: "backfill_frame list"

definition backfill_store_new :: "nat \<Rightarrow> backfill_store" where
  "backfill_store_new n = \<lparr>bst_capacity = max n 1, bst_frames = []\<rparr>"

definition backfill_store_default :: backfill_store where
  "backfill_store_default = backfill_store_new 128"

text \<open>\<open>position\<close> and \<open>remove\<close>: the first frame with the key goes.\<close>

primrec remove_key :: "backfill_key \<Rightarrow> backfill_frame list \<Rightarrow> backfill_frame list" where
  "remove_key k [] = []"
| "remove_key k (f # fs) = (if bf_key f = k then fs else f # remove_key k fs)"

fun pop_front_while :: "nat \<Rightarrow> 'a list \<Rightarrow> 'a list" where
  "pop_front_while n [] = []"
| "pop_front_while n (x # xs) = (if length (x # xs) > n then pop_front_while n xs else x # xs)"

definition backfill_frame_of :: "encoded_media_frame \<Rightarrow> backfill_frame" where
  "backfill_frame_of f =
     \<lparr>bf_key = backfill_key_of (ef_metadata f), bf_metadata = ef_metadata f,
      bf_stats = encoded_frame_stats f, bf_datagrams = ef_datagrams f\<rparr>"

definition put_frame :: "backfill_frame \<Rightarrow> backfill_store \<Rightarrow> backfill_store" where
  "put_frame f s =
     s\<lparr>bst_frames := pop_front_while (bst_capacity s) (remove_key (bf_key f) (bst_frames s) @ [f])\<rparr>"

definition insert_encoded_frame :: "encoded_media_frame \<Rightarrow> backfill_store \<Rightarrow> backfill_store" where
  "insert_encoded_frame f s = put_frame (backfill_frame_of f) s"

definition backfill_get :: "backfill_key \<Rightarrow> backfill_store \<Rightarrow> backfill_frame option" where
  "backfill_get k s = find (\<lambda>f. bf_key f = k) (bst_frames s)"

definition fulfill :: "backfill_store \<Rightarrow> backfill_request \<Rightarrow> backfill_response option" where
  "fulfill s r =
     (case backfill_get (request_key r) s of
        None \<Rightarrow> None
      | Some f \<Rightarrow>
          (let datagrams =
                 (case r of
                    FrameRequest _ \<Rightarrow> frame_datagrams f
                  | DatagramsRequest _ indices \<Rightarrow>
                      List.map_filter (\<lambda>i. case frame_datagram f i of
                          None \<Rightarrow> None | Some bs \<Rightarrow> Some \<lparr>bd_index = i, bd_bytes = bs\<rparr>) indices)
           in if datagrams = [] then None
              else Some \<lparr>br_key = bf_key f, br_datagrams = datagrams\<rparr>))"

section \<open>The media store is a recent store\<close>

definition store_inv :: "backfill_store \<Rightarrow> bool" where
  "store_inv s \<longleftrightarrow> distinct (map bf_key (bst_frames s)) \<and> length (bst_frames s) \<le> bst_capacity s \<and>
     0 < bst_capacity s"

lemma store_new_inv: "store_inv (backfill_store_new n)"
  by (simp add: store_inv_def backfill_store_new_def)

lemma pop_front_drop: "pop_front_while n xs = drop (length xs - n) xs"
  by (induction n xs rule: pop_front_while.induct) (auto simp: Suc_diff_le)

lemma remove_key_filter:
  "distinct (map bf_key fs) \<Longrightarrow> remove_key k fs = filter (\<lambda>f. bf_key f \<noteq> k) fs"
proof (induction fs)
  case (Cons f fs)
  have "filter (\<lambda>g. bf_key g \<noteq> bf_key f) fs = fs"
    using Cons.prems by (auto simp: filter_id_conv image_iff)
  then show ?case using Cons by auto
qed simp

lemma find_distinct:
  "distinct (map bf_key fs) \<Longrightarrow> find (\<lambda>f. bf_key f = k) fs = Some f \<longleftrightarrow> f \<in> set fs \<and> bf_key f = k"
  by (induction fs) auto

interpretation backfill: recent_store bst_frames bf_key bst_capacity put_frame backfill_get store_inv
proof (unfold_locales, goal_cases)
  case (3 s e)
  let ?fs = "filter (\<lambda>f. bf_key f \<noteq> bf_key e) (bst_frames s) @ [e]"
  have dist: "distinct (map bf_key ?fs)"
    using 3 by (auto simp: store_inv_def distinct_map_filter)
  have "distinct (map bf_key (drop (length ?fs - bst_capacity s) ?fs))"
    unfolding drop_map [symmetric] by (rule distinct_drop [OF dist])
  moreover have "length (drop (length ?fs - bst_capacity s) ?fs) \<le> bst_capacity s" by simp
  moreover have "bst_frames (put_frame e s) = drop (length ?fs - bst_capacity s) ?fs"
    using 3 remove_key_filter [of "bst_frames s" "bf_key e"]
    by (simp add: store_inv_def put_frame_def pop_front_drop del: drop_append)
  moreover have "bst_capacity (put_frame e s) = bst_capacity s" by (simp add: put_frame_def)
  ultimately show ?case using 3 by (simp only: store_inv_def)
next
  case (5 s e)
  then show ?case
    by (intro exI [of _ "Suc (length (filter (\<lambda>x. bf_key x \<noteq> bf_key e) (bst_frames s))) - bst_capacity s"])
      (simp add: store_inv_def put_frame_def pop_front_drop remove_key_filter)
qed (simp_all add: store_inv_def put_frame_def backfill_get_def find_distinct)

section \<open>Properties\<close>

definition insert_all :: "encoded_media_frame list \<Rightarrow> backfill_store \<Rightarrow> backfill_store" where
  "insert_all fs s = fold insert_encoded_frame fs s"

lemma insert_all_put: "insert_all fs s = fold put_frame (map backfill_frame_of fs) s"
  by (induction fs arbitrary: s) (simp_all add: insert_all_def insert_encoded_frame_def)

lemma insert_all_inv: "store_inv s \<Longrightarrow> store_inv (insert_all fs s) \<and> bst_capacity (insert_all fs s) = bst_capacity s"
  by (induction fs arbitrary: s)
    (simp_all add: insert_all_def insert_encoded_frame_def backfill.put_inv backfill.put_capacity)

text \<open>
  C27. The backfill store keeps the latest frames. A frame inserted into a store of capacity \<open>n\<close> answers
  requests for any of its datagrams, byte for byte and in the order asked, until \<open>n\<close> frames with other
  keys have been inserted after it; the store never holds more than its capacity, nor two frames of
  one key.
\<close>
theorem backfill_answers_recent:
  assumes "s = insert_all before (backfill_store_new n)"
    and "\<forall>g \<in> set later. backfill_key_of (ef_metadata g) \<noteq> backfill_key_of (ef_metadata f)"
    and "length later < max n 1"
    and "\<forall>i \<in> set is. i < length (ef_datagrams f)" "is \<noteq> []"
  shows "let t = insert_all later (insert_encoded_frame f s); k = backfill_key_of (ef_metadata f)
    in fulfill t (DatagramsRequest k is) =
         Some \<lparr>br_key = k, br_datagrams = map (\<lambda>i. \<lparr>bd_index = i, bd_bytes = ef_datagrams f ! i\<rparr>) is\<rparr> \<and>
       length (bst_frames t) \<le> max n 1 \<and> distinct (map bf_key (bst_frames t))"
proof -
  let ?t = "insert_all later (insert_encoded_frame f s)"
  have s: "store_inv s" "bst_capacity s = max n 1"
    using insert_all_inv [OF store_new_inv, of before n] assms(1) by (simp_all add: backfill_store_new_def)
  have key: "bf_key (backfill_frame_of g) = backfill_key_of (ef_metadata g)" for g
    by (simp add: backfill_frame_of_def)
  have get: "backfill_get (backfill_key_of (ef_metadata f)) ?t = Some (backfill_frame_of f)"
    using backfill.recently_put_stays [OF s(1), of "map backfill_frame_of later" "backfill_frame_of f"] assms(2,3) s(2)
    by (simp add: insert_all_put insert_encoded_frame_def key)
  have "List.map_filter (\<lambda>i. case frame_datagram (backfill_frame_of f) i of
        None \<Rightarrow> None | Some bs \<Rightarrow> Some \<lparr>bd_index = i, bd_bytes = bs\<rparr>) is =
      map (\<lambda>i. \<lparr>bd_index = i, bd_bytes = ef_datagrams f ! i\<rparr>) is"
    using assms(4) by (induction "is") (auto simp: List.map_filter_def frame_datagram_def backfill_frame_of_def)
  then have ans: "fulfill ?t (DatagramsRequest (backfill_key_of (ef_metadata f)) is) =
      Some \<lparr>br_key = backfill_key_of (ef_metadata f),
        br_datagrams = map (\<lambda>i. \<lparr>bd_index = i, bd_bytes = ef_datagrams f ! i\<rparr>) is\<rparr>"
    using get assms(5) by (simp add: fulfill_def request_key_def key)
  have "store_inv ?t" "bst_capacity ?t = max n 1"
    using insert_all_inv [OF backfill.put_inv [OF s(1)], of later "backfill_frame_of f"] s(2)
    by (simp_all add: insert_encoded_frame_def backfill.put_capacity)
  then show ?thesis using ans by (simp add: Let_def store_inv_def)
qed

definition example_metadata_at :: "u64 \<Rightarrow> media_metadata" where
  "example_metadata_at n = example_metadata\<lparr>md_sequence := n\<rparr>"

definition example_stored :: "u64 \<Rightarrow> encoded_media_frame" where
  "example_stored n =
     \<lparr>ef_sequence = n, ef_metadata = example_metadata_at n, ef_priority = VideoDelta, ef_fragment_count = 1,
      ef_decision = decide controller_default 3 VideoDelta, ef_blocks = [], ef_datagrams = [[1], [2, 3]]\<rparr>"

theorem backfill_answers_recent_witness:
  "fulfill (insert_all [example_stored 2] (insert_encoded_frame (example_stored 1)
       (insert_all [example_stored 0] (backfill_store_new 2))))
     (DatagramsRequest (backfill_key_of (example_metadata_at 1)) [1, 0]) =
   Some \<lparr>br_key = backfill_key_of (example_metadata_at 1),
     br_datagrams = [\<lparr>bd_index = 1, bd_bytes = [2, 3]\<rparr>, \<lparr>bd_index = 0, bd_bytes = [1]\<rparr>]\<rparr>"
  using backfill_answers_recent [of _ "[example_stored 0]" 2 "[example_stored 2]" "example_stored 1" "[1, 0]"]
  by (simp add: example_stored_def example_metadata_at_def backfill_key_of_def Let_def)

end
