(* ===== verification/Audio_Wire.thy ===== *)
theory Audio_Wire
  imports Raptorq_Codec
begin

text \<open>
  \<^verbatim>\<open>multichannel_audio.rs\<close>, lines 17 to 396 and 888 to 963: payload kinds and sample formats, the errors and the
  72-byte header that makes every source symbol of an audio epoch describe itself.
\<close>

section \<open>Constants, kinds and errors\<close>

definition SHARD_MAGIC :: bytes where "SHARD_MAGIC = [0x4D, 0x41, 0x45, 0x31]"
definition SHARD_VERSION :: u8 where "SHARD_VERSION = 1"
definition SHARD_HEADER_LEN :: nat where "SHARD_HEADER_LEN = 72"

datatype payload_kind = Pcm | Opus | Flac
datatype sample_format = Unspecified | S16Le | S24Le | S32Le | F32Le

datatype audio_fec_error =
    AudioFec datagram_fec_error
  | DatagramBudgetTooSmall nat nat
  | SymbolSizeTooLarge nat
  | EmptyEpoch
  | InvalidFrameCount
  | InvalidSampleRate
  | TooManyGroups nat
  | InvalidChannelCount u16
  | PcmFormatRequired u16
  | FlacFormatRequired u16
  | GroupPayloadTooLong u16 nat
  | AudioTooManyFragments u16 nat
  | TooManySourceSymbols nat u16
  | EncodedDatagramTooLarge nat nat
  | ShardTooShort nat
  | InvalidShardMagic bytes
  | UnsupportedShardVersion u8
  | UnsupportedPayloadKind u8
  | UnsupportedSampleFormat u8
  | InvalidGroupIndex u16 u16
  | InvalidFragmentIndex u16 u16
  | InvalidSourceIndex u16 u16
  | InvalidPayloadRange u32 u16 u32
  | ShardPayloadTooLong nat nat
  | SourceIdentityMismatch u16 u16 u16 u16
  | DecodedObjectLengthMismatch nat nat

definition kind_to_u8 :: "payload_kind \<Rightarrow> u8" where
  "kind_to_u8 k = (case k of Pcm \<Rightarrow> 1 | Opus \<Rightarrow> 2 | Flac \<Rightarrow> 3)"

definition kind_from_u8 :: "u8 \<Rightarrow> (audio_fec_error, payload_kind) result" where
  "kind_from_u8 v =
     (if v = 1 then Inr Pcm else if v = 2 then Inr Opus else if v = 3 then Inr Flac
      else Inl (UnsupportedPayloadKind v))"

definition format_to_u8 :: "sample_format \<Rightarrow> u8" where
  "format_to_u8 f =
     (case f of Unspecified \<Rightarrow> 0 | S16Le \<Rightarrow> 1 | S24Le \<Rightarrow> 2 | S32Le \<Rightarrow> 3 | F32Le \<Rightarrow> 4)"

definition format_from_u8 :: "u8 \<Rightarrow> (audio_fec_error, sample_format) result" where
  "format_from_u8 v =
     (if v = 0 then Inr Unspecified else if v = 1 then Inr S16Le else if v = 2 then Inr S24Le
      else if v = 3 then Inr S32Le else if v = 4 then Inr F32Le
      else Inl (UnsupportedSampleFormat v))"

section \<open>The shard header\<close>

record shard_header =
  sh_payload_kind :: payload_kind
  sh_sample_format :: sample_format
  sh_flags :: u8
  sh_session_id :: u64
  sh_config_generation :: u32
  sh_sample_rate :: u32
  sh_frame_count :: u32
  sh_epoch_id :: u64
  sh_pts_samples :: u64
  sh_group_id :: u16
  sh_group_index :: u16
  sh_group_count :: u16
  sh_channel_start :: u16
  sh_channel_count :: u16
  sh_fragment_index :: u16
  sh_fragment_count :: u16
  sh_source_index :: u16
  sh_source_count :: u16
  sh_payload_len :: u16
  sh_payload_offset :: u32
  sh_group_payload_len :: u32

definition shard_validate :: "shard_header \<Rightarrow> nat \<Rightarrow> (audio_fec_error, unit) result" where
  "shard_validate h symbol_len =
     (if sh_frame_count h = 0 then Inl InvalidFrameCount
      else if sh_sample_rate h = 0 then Inl InvalidSampleRate
      else if sh_payload_kind h = Flac \<and> sh_sample_format h = Unspecified then
        Inl (FlacFormatRequired (sh_group_id h))
      else if sh_group_count h = 0 \<or> sh_group_index h \<ge> sh_group_count h then
        Inl (InvalidGroupIndex (sh_group_index h) (sh_group_count h))
      else if sh_channel_count h = 0 then Inl (InvalidChannelCount (sh_group_id h))
      else if sh_fragment_count h = 0 \<or> sh_fragment_index h \<ge> sh_fragment_count h then
        Inl (InvalidFragmentIndex (sh_fragment_index h) (sh_fragment_count h))
      else if sh_source_count h = 0 \<or> sh_source_index h \<ge> sh_source_count h then
        Inl (InvalidSourceIndex (sh_source_index h) (sh_source_count h))
      else if usize_sat_add (unat (sh_payload_offset h)) (unat (sh_payload_len h))
              > unat (sh_group_payload_len h) then
        Inl (InvalidPayloadRange (sh_payload_offset h) (sh_payload_len h) (sh_group_payload_len h))
      else if SHARD_HEADER_LEN + unat (sh_payload_len h) > symbol_len then
        Inl (ShardPayloadTooLong (unat (sh_payload_len h)) (symbol_len - SHARD_HEADER_LEN))
      else Inr ())"

text \<open>The writes of \<open>encode\<close>, as (offset, bytes); before them the header range is filled with zeros.\<close>

definition shard_fields :: "shard_header \<Rightarrow> (nat \<times> bytes) list" where
  "shard_fields h =
     [(0, SHARD_MAGIC), (4, [SHARD_VERSION]), (5, [kind_to_u8 (sh_payload_kind h)]),
      (6, [format_to_u8 (sh_sample_format h)]), (7, [sh_flags h]),
      (8, le64 (sh_session_id h)), (16, le32 (sh_config_generation h)), (20, le32 (sh_frame_count h)),
      (24, le64 (sh_epoch_id h)), (32, le64 (sh_pts_samples h)),
      (40, le16 (sh_group_id h)), (42, le16 (sh_group_index h)), (44, le16 (sh_group_count h)),
      (46, le16 (sh_channel_start h)), (48, le16 (sh_channel_count h)),
      (50, le16 (sh_fragment_index h)), (52, le16 (sh_fragment_count h)),
      (54, le16 (sh_source_index h)), (56, le16 (sh_source_count h)), (58, le16 (sh_payload_len h)),
      (60, le32 (sh_payload_offset h)), (64, le32 (sh_group_payload_len h)), (68, le32 (sh_sample_rate h))]"

definition shard_encode :: "shard_header \<Rightarrow> bytes \<Rightarrow> (audio_fec_error, bytes) result" where
  "shard_encode h symbol =
     (if length symbol < SHARD_HEADER_LEN then Inl (ShardTooShort (length symbol))
      else rbind (shard_validate h (length symbol)) (\<lambda>_.
        Inr (put_all (shard_fields h) (put 0 (replicate SHARD_HEADER_LEN 0) symbol))))"

definition shard_decode :: "bytes \<Rightarrow> (audio_fec_error, shard_header) result" where
  "shard_decode symbol =
     (if length symbol < SHARD_HEADER_LEN then Inl (ShardTooShort (length symbol))
      else if sub_slice symbol 0 4 \<noteq> SHARD_MAGIC then Inl (InvalidShardMagic (sub_slice symbol 0 4))
      else if symbol ! 4 \<noteq> SHARD_VERSION then Inl (UnsupportedShardVersion (symbol ! 4))
      else rbind (kind_from_u8 (symbol ! 5)) (\<lambda>kind. rbind (format_from_u8 (symbol ! 6)) (\<lambda>format.
        (let h = \<lparr>sh_payload_kind = kind, sh_sample_format = format, sh_flags = symbol ! 7,
                  sh_session_id = le_join (sub_slice symbol 8 16),
                  sh_config_generation = le_join (sub_slice symbol 16 20),
                  sh_sample_rate = le_join (sub_slice symbol 68 72),
                  sh_frame_count = le_join (sub_slice symbol 20 24),
                  sh_epoch_id = le_join (sub_slice symbol 24 32),
                  sh_pts_samples = le_join (sub_slice symbol 32 40),
                  sh_group_id = le_join (sub_slice symbol 40 42),
                  sh_group_index = le_join (sub_slice symbol 42 44),
                  sh_group_count = le_join (sub_slice symbol 44 46),
                  sh_channel_start = le_join (sub_slice symbol 46 48),
                  sh_channel_count = le_join (sub_slice symbol 48 50),
                  sh_fragment_index = le_join (sub_slice symbol 50 52),
                  sh_fragment_count = le_join (sub_slice symbol 52 54),
                  sh_source_index = le_join (sub_slice symbol 54 56),
                  sh_source_count = le_join (sub_slice symbol 56 58),
                  sh_payload_len = le_join (sub_slice symbol 58 60),
                  sh_payload_offset = le_join (sub_slice symbol 60 64),
                  sh_group_payload_len = le_join (sub_slice symbol 64 68)\<rparr>
         in rbind (shard_validate h (length symbol)) (\<lambda>_. Inr h)))))"

definition shard_payload :: "shard_header \<Rightarrow> bytes \<Rightarrow> (audio_fec_error, bytes) result" where
  "shard_payload h symbol =
     rbind (shard_validate h (length symbol)) (\<lambda>_.
       Inr (sub_slice symbol SHARD_HEADER_LEN (SHARD_HEADER_LEN + unat (sh_payload_len h))))"

section \<open>The header codec\<close>

definition shard_ok :: "shard_header \<Rightarrow> nat \<Rightarrow> bool" where
  "shard_ok h n \<longleftrightarrow> SHARD_HEADER_LEN \<le> n \<and> shard_validate h n = Inr ()"

definition shard_wire :: "shard_header \<Rightarrow> bytes" where
  "shard_wire h = tile_bytes (shard_fields h)"

lemma tiles_shard: "tiles 0 (shard_fields h)"
  by (simp add: shard_fields_def layout_simps SHARD_MAGIC_def)

lemma length_shard_wire [simp, layout_simps]: "length (shard_wire h) = 72"
  by (simp add: shard_wire_def shard_fields_def layout_simps SHARD_MAGIC_def)

lemma kind_round_trip [simp]: "kind_from_u8 (kind_to_u8 k) = Inr k"
  by (cases k) (simp_all add: kind_from_u8_def kind_to_u8_def)

lemma format_round_trip [simp]: "format_from_u8 (format_to_u8 f) = Inr f"
  by (cases f) (simp_all add: format_from_u8_def format_to_u8_def)

lemma kind_from_Inr: "kind_from_u8 v = Inr k \<Longrightarrow> kind_to_u8 k = v"
  by (auto simp: kind_from_u8_def kind_to_u8_def split: if_splits)

lemma format_from_Inr: "format_from_u8 v = Inr f \<Longrightarrow> format_to_u8 f = v"
  by (auto simp: format_from_u8_def format_to_u8_def split: if_splits)

lemma shard_encode_eq:
  "shard_encode h symbol =
     (if length symbol < 72 then Inl (ShardTooShort (length symbol))
      else rbind (shard_validate h (length symbol)) (\<lambda>_. Inr (shard_wire h @ drop 72 symbol)))"
proof (cases "length symbol < 72")
  case False
  then have "put_all (shard_fields h) (put 0 (replicate 72 0) symbol) = shard_wire h @ drop 72 symbol"
    using put_all_tiles [OF tiles_shard, of h "put 0 (replicate 72 0) symbol"] length_shard_wire [of h]
    by (simp add: shard_wire_def put_def)
  with False show ?thesis by (simp add: shard_encode_def SHARD_HEADER_LEN_def)
qed (simp add: shard_encode_def SHARD_HEADER_LEN_def)

lemma shard_field_reads:
  "sub_slice (shard_wire h @ rest) 0 4 = SHARD_MAGIC"
  "(shard_wire h @ rest) ! 4 = SHARD_VERSION"
  "(shard_wire h @ rest) ! 5 = kind_to_u8 (sh_payload_kind h)"
  "(shard_wire h @ rest) ! 6 = format_to_u8 (sh_sample_format h)"
  "(shard_wire h @ rest) ! 7 = sh_flags h"
  "sub_slice (shard_wire h @ rest) 8 16 = le64 (sh_session_id h)"
  "sub_slice (shard_wire h @ rest) 16 20 = le32 (sh_config_generation h)"
  "sub_slice (shard_wire h @ rest) 20 24 = le32 (sh_frame_count h)"
  "sub_slice (shard_wire h @ rest) 24 32 = le64 (sh_epoch_id h)"
  "sub_slice (shard_wire h @ rest) 32 40 = le64 (sh_pts_samples h)"
  "sub_slice (shard_wire h @ rest) 40 42 = le16 (sh_group_id h)"
  "sub_slice (shard_wire h @ rest) 42 44 = le16 (sh_group_index h)"
  "sub_slice (shard_wire h @ rest) 44 46 = le16 (sh_group_count h)"
  "sub_slice (shard_wire h @ rest) 46 48 = le16 (sh_channel_start h)"
  "sub_slice (shard_wire h @ rest) 48 50 = le16 (sh_channel_count h)"
  "sub_slice (shard_wire h @ rest) 50 52 = le16 (sh_fragment_index h)"
  "sub_slice (shard_wire h @ rest) 52 54 = le16 (sh_fragment_count h)"
  "sub_slice (shard_wire h @ rest) 54 56 = le16 (sh_source_index h)"
  "sub_slice (shard_wire h @ rest) 56 58 = le16 (sh_source_count h)"
  "sub_slice (shard_wire h @ rest) 58 60 = le16 (sh_payload_len h)"
  "sub_slice (shard_wire h @ rest) 60 64 = le32 (sh_payload_offset h)"
  "sub_slice (shard_wire h @ rest) 64 68 = le32 (sh_group_payload_len h)"
  "sub_slice (shard_wire h @ rest) 68 72 = le32 (sh_sample_rate h)"
  unfolding shard_wire_def
  by (rule sub_slice_tile [OF tiles_shard] nth_tile [OF tiles_shard]; simp add: shard_fields_def SHARD_MAGIC_def)+

lemma shard_decode_wire:
  "shard_decode (shard_wire h @ rest) = rbind (shard_validate h (72 + length rest)) (\<lambda>_. Inr h)"
  unfolding shard_decode_def shard_field_reads
  by (cases h) (simp add: le_join_split SHARD_HEADER_LEN_def Let_def)

lemma shard_decode_Inr:
  assumes "shard_decode bs = Inr h"
  shows "72 \<le> length bs" "shard_validate h (length bs) = Inr ()" "take 72 bs = shard_wire h"
proof -
  have len: "72 \<le> length bs"
    and magic: "sub_slice bs 0 4 = SHARD_MAGIC" "bs ! 4 = SHARD_VERSION"
    and kind: "kind_from_u8 (bs ! 5) = Inr (sh_payload_kind h)" "format_from_u8 (bs ! 6) = Inr (sh_sample_format h)"
    and fields: "sh_flags h = bs ! 7"
      "sh_session_id h = le_join (sub_slice bs 8 16)" "sh_config_generation h = le_join (sub_slice bs 16 20)"
      "sh_frame_count h = le_join (sub_slice bs 20 24)" "sh_epoch_id h = le_join (sub_slice bs 24 32)"
      "sh_pts_samples h = le_join (sub_slice bs 32 40)" "sh_group_id h = le_join (sub_slice bs 40 42)"
      "sh_group_index h = le_join (sub_slice bs 42 44)" "sh_group_count h = le_join (sub_slice bs 44 46)"
      "sh_channel_start h = le_join (sub_slice bs 46 48)" "sh_channel_count h = le_join (sub_slice bs 48 50)"
      "sh_fragment_index h = le_join (sub_slice bs 50 52)" "sh_fragment_count h = le_join (sub_slice bs 52 54)"
      "sh_source_index h = le_join (sub_slice bs 54 56)" "sh_source_count h = le_join (sub_slice bs 56 58)"
      "sh_payload_len h = le_join (sub_slice bs 58 60)" "sh_payload_offset h = le_join (sub_slice bs 60 64)"
      "sh_group_payload_len h = le_join (sub_slice bs 64 68)" "sh_sample_rate h = le_join (sub_slice bs 68 72)"
    and valid: "shard_validate h (length bs) = Inr ()"
    using assms
    by (auto simp: shard_decode_def Let_def rbind_eq_Inr SHARD_HEADER_LEN_def split: if_splits)
  show "72 \<le> length bs" "shard_validate h (length bs) = Inr ()" by (fact len valid)+
  have joins: "j = i + 8 \<Longrightarrow> j \<le> 72 \<Longrightarrow> le64 (le_join (sub_slice bs i j)) = sub_slice bs i j"
    "j = i + 4 \<Longrightarrow> j \<le> 72 \<Longrightarrow> le32 (le_join (sub_slice bs i j)) = sub_slice bs i j"
    "j = i + 2 \<Longrightarrow> j \<le> 72 \<Longrightarrow> le16 (le_join (sub_slice bs i j)) = sub_slice bs i j" for i j
    using le_split_join [of "sub_slice bs i j", where ?'a = 64] le_split_join [of "sub_slice bs i j", where ?'a = 32]
      le_split_join [of "sub_slice bs i j", where ?'a = 16] len by simp_all
  have byte: "sub_slice bs 4 5 = [bs ! 4]" "sub_slice bs 5 6 = [bs ! 5]" "sub_slice bs 6 7 = [bs ! 6]"
    "sub_slice bs 7 8 = [bs ! 7]"
    using len sub_slice_single [of 4 bs] sub_slice_single [of 5 bs] sub_slice_single [of 6 bs]
      sub_slice_single [of 7 bs] by simp_all
  have slices: "shard_fields h = map (\<lambda>(i, j). (i, sub_slice bs i j))
      [(0, 4), (4, 5), (5, 6), (6, 7), (7, 8), (8, 16), (16, 20), (20, 24), (24, 32), (32, 40), (40, 42),
       (42, 44), (44, 46), (46, 48), (48, 50), (50, 52), (52, 54), (54, 56), (56, 58), (58, 60), (60, 64),
       (64, 68), (68, 72)]"
    using magic kind_from_Inr [OF kind(1)] format_from_Inr [OF kind(2)]
    by (simp add: shard_fields_def fields joins byte)
  have "take (length (tile_bytes (shard_fields h))) bs = tile_bytes (shard_fields h)"
  proof (rule take_tiles [OF tiles_shard])
    fix i ys assume "(i, ys) \<in> set (shard_fields h)"
    then show "sub_slice bs i (i + length ys) = ys"
      using len unfolding slices by auto
  qed
  then show "take 72 bs = shard_wire h"
    by (simp add: shard_wire_def [symmetric])
qed

interpretation shard: strict_header_codec SHARD_HEADER_LEN shard_ok shard_wire shard_encode shard_decode
proof (unfold_locales, goal_cases)
  case (3 h bs)
  then show ?case by (simp add: shard_ok_def shard_encode_eq SHARD_HEADER_LEN_def)
next
  case (4 h bs bs')
  then show ?case
    by (auto simp: shard_ok_def shard_encode_eq SHARD_HEADER_LEN_def rbind_eq_Inr split: if_splits)
qed (auto simp: shard_ok_def SHARD_HEADER_LEN_def shard_decode_wire dest: shard_decode_Inr)

lemma shard_validate_ok:
  "shard_validate h n = Inr () \<longleftrightarrow>
     sh_frame_count h \<noteq> 0 \<and> sh_sample_rate h \<noteq> 0 \<and>
     \<not> (sh_payload_kind h = Flac \<and> sh_sample_format h = Unspecified) \<and>
     sh_group_index h < sh_group_count h \<and> sh_channel_count h \<noteq> 0 \<and>
     sh_fragment_index h < sh_fragment_count h \<and> sh_source_index h < sh_source_count h \<and>
     unat (sh_payload_offset h) + unat (sh_payload_len h) \<le> unat (sh_group_payload_len h) \<and>
     72 + unat (sh_payload_len h) \<le> n"
proof -
  have "unat (sh_payload_offset h) < 2 ^ LENGTH(32)" "unat (sh_payload_len h) < 2 ^ LENGTH(16)"
    by (rule unsigned_less)+
  then have "usize_sat_add (unat (sh_payload_offset h)) (unat (sh_payload_len h)) =
      unat (sh_payload_offset h) + unat (sh_payload_len h)"
    by (simp add: usize_sat_add_def usize_max_def)
  moreover have "x < y \<Longrightarrow> y \<noteq> 0" for x y :: u16 by (auto simp: word_less_nat_alt)
  ultimately show ?thesis
    by (auto simp: shard_validate_def SHARD_HEADER_LEN_def not_le not_less)
qed

text \<open>
  C26. Shard headers describe their symbol exactly. A symbol decodes to a header if and only if the header
  is valid for the symbol's length and writing it over the symbol changes nothing, so \<open>encode\<close> and
  \<open>decode\<close> are inverse to each other; and then the payload is the part of the symbol after the
  header, as long as the header says.
\<close>
theorem shard_header_exact:
  "(shard_decode symbol = Inr h \<longleftrightarrow> shard_encode h symbol = Inr symbol) \<and>
   (case shard_encode h buffer of Inl _ \<Rightarrow> True | Inr written \<Rightarrow>
      shard_decode written = Inr h \<and> drop 72 written = drop 72 buffer \<and>
      shard_payload h written = Inr (take (unat (sh_payload_len h)) (drop 72 buffer)))"
proof -
  have "shard_encode h symbol = Inr symbol \<Longrightarrow> shard_decode symbol = Inr h" by (rule shard.round_trip)
  moreover have "shard_decode symbol = Inr h \<Longrightarrow> shard_encode h symbol = Inr symbol" by (rule shard.re_encode_self)
  moreover have "shard_decode w = Inr h \<and> drop 72 w = drop 72 buffer \<and>
      shard_payload h w = Inr (take (unat (sh_payload_len h)) (drop 72 buffer))" if w: "shard_encode h buffer = Inr w" for w
  proof -
    have "shard_ok h (length buffer)" using w shard.enc_eq by blast
    then show ?thesis
      using shard.round_trip [OF w] shard.enc_keeps_tail [OF w] shard.enc_keeps_length [OF w]
      by (simp add: shard_payload_def shard_ok_def SHARD_HEADER_LEN_def sub_slice_def)
  qed
  ultimately show ?thesis by (auto split: sum.split)
qed

end
