(* ===== verification/Audio_Geometry.thy ===== *)
theory Audio_Geometry
  imports Audio_Wire "HOL-Library.Product_Lexorder"
begin

text \<open>
  \<^verbatim>\<open>multichannel_audio.rs\<close>, lines 68 to 231: the packet budget of an audio epoch and the choice of its symbol
  size. \<open>symbol_size\<close> adds 73 to the framing without a check; a transport overhead within 117 of
  \<open>usize::MAX\<close> overflows there, and the model takes the mathematical sum.
\<close>

section \<open>Configuration, groups and epochs\<close>

record audio_config =
  ac_max_datagram_size :: nat
  ac_transport_overhead :: nat
  ac_repair_symbols :: u32
  ac_max_source_symbols :: u16

definition audio_config_default :: audio_config where
  "audio_config_default =
     \<lparr>ac_max_datagram_size = 1200, ac_transport_overhead = 0, ac_repair_symbols = 4,
      ac_max_source_symbols = 256\<rparr>"

record audio_geometry =
  ag_symbol_size :: u16
  ag_fragment_payload :: nat
  ag_source_symbols :: u16
  ag_source_wire_bytes :: nat

record audio_group =
  gp_group_id :: u16
  gp_channel_start :: u16
  gp_channel_count :: u16
  gp_payload_kind :: payload_kind
  gp_sample_format :: sample_format
  gp_flags :: u8
  gp_payload :: bytes

record audio_epoch =
  ep_session_id :: u64
  ep_config_generation :: u32
  ep_epoch_id :: u64
  ep_pts_samples :: u64
  ep_sample_rate :: u32
  ep_frame_count :: u32
  ep_groups :: "audio_group list"

definition framing_size :: "audio_config \<Rightarrow> (audio_fec_error, nat) result" where
  "framing_size c =
     (let total = ac_transport_overhead c +
            (HEADER_LEN + ENCODING_PACKET_HEADER_LEN + DATAGRAM_AUDIO_SESSION_ID_LEN)
      in if total > usize_max then Inl (DatagramBudgetTooSmall (ac_max_datagram_size c) usize_max)
         else Inr total)"

definition audio_symbol_size :: "audio_config \<Rightarrow> (audio_fec_error, u16) result" where
  "audio_symbol_size c =
     rbind (framing_size c) (\<lambda>framing.
       (let required = framing + SHARD_HEADER_LEN + 1;
            symbol_size = ac_max_datagram_size c - framing
        in if ac_max_datagram_size c < required then
             Inl (DatagramBudgetTooSmall (ac_max_datagram_size c) required)
           else if symbol_size > 65535 then Inl (SymbolSizeTooLarge symbol_size)
           else Inr (of_nat symbol_size)))"

definition max_fragment_payload :: "audio_config \<Rightarrow> (audio_fec_error, nat) result" where
  "max_fragment_payload c = rbind (audio_symbol_size c) (\<lambda>s. Inr (unat s - SHARD_HEADER_LEN))"

section \<open>The choice of the symbol size\<close>

text \<open>The \<open>BTreeSet\<close> of candidate fragment sizes, iterated in ascending order.\<close>

definition group_len :: "audio_group \<Rightarrow> nat" where
  "group_len g = max (length (gp_payload g)) 1"

definition group_candidates_for :: "nat \<Rightarrow> nat \<Rightarrow> audio_group \<Rightarrow> nat list" where
  "group_candidates_for max_payload max_source g =
     map (\<lambda>fragments. max (div_ceil (group_len g) fragments) 1)
       (filter (\<lambda>fragments. div_ceil (group_len g) fragments \<le> max_payload)
         [div_ceil (group_len g) max_payload..<max_source + 1])"

definition payload_candidates :: "nat \<Rightarrow> nat \<Rightarrow> audio_group list \<Rightarrow> nat list" where
  "payload_candidates max_payload max_source groups =
     sorted_list_of_set (set (max_payload # concat (map (group_candidates_for max_payload max_source) groups)))"

fun checked_symbols :: "nat \<Rightarrow> audio_group list \<Rightarrow> nat \<Rightarrow> nat option" where
  "checked_symbols fragment_payload [] acc = Some acc"
| "checked_symbols fragment_payload (g # gs) acc =
     (let acc1 = acc + div_ceil (group_len g) fragment_payload
      in if acc1 > usize_max then None else checked_symbols fragment_payload gs acc1)"

definition improve ::
    "nat \<Rightarrow> nat \<Rightarrow> audio_group list \<Rightarrow> nat \<Rightarrow> (nat \<times> nat \<times> nat) option \<Rightarrow> (nat \<times> nat \<times> nat) option" where
  "improve framing max_source groups fragment_payload best =
     (case checked_symbols fragment_payload groups 0 of
        None \<Rightarrow> best
      | Some source_symbols \<Rightarrow>
          if source_symbols = 0 \<or> source_symbols > max_source \<or> source_symbols > 65535 then best
          else
            (let datagram_size = framing + SHARD_HEADER_LEN + fragment_payload;
                 score = (usize_sat_mul source_symbols datagram_size, source_symbols, fragment_payload)
             in case best of
                  None \<Rightarrow> Some score
                | Some current \<Rightarrow> if score < current then Some score else best))"

definition geometry_for_groups :: "audio_config \<Rightarrow> audio_group list \<Rightarrow> (audio_fec_error, audio_geometry) result" where
  "geometry_for_groups c groups =
     (if groups = [] then Inl EmptyEpoch
      else
        rbind (framing_size c) (\<lambda>framing. rbind (max_fragment_payload c) (\<lambda>max_payload.
          (let max_source = unat (ac_max_source_symbols c);
               best = fold (improve framing max_source groups)
                        (payload_candidates max_payload max_source groups) None
           in case best of
                None \<Rightarrow>
                  Inl (TooManySourceSymbols
                    (sum_list (map (\<lambda>g. div_ceil (group_len g) max_payload) groups))
                    (ac_max_source_symbols c))
              | Some (source_wire_bytes, source_symbols, fragment_payload) \<Rightarrow>
                  Inr \<lparr>ag_symbol_size = of_nat (SHARD_HEADER_LEN + fragment_payload),
                       ag_fragment_payload = fragment_payload,
                       ag_source_symbols = of_nat source_symbols,
                       ag_source_wire_bytes = source_wire_bytes\<rparr>))))"

definition validate_group :: "audio_group \<Rightarrow> (audio_fec_error, unit) result" where
  "validate_group g =
     (if gp_channel_count g = 0 then Inl (InvalidChannelCount (gp_group_id g))
      else if gp_payload_kind g = Pcm \<and> gp_sample_format g = Unspecified then
        Inl (PcmFormatRequired (gp_group_id g))
      else if gp_payload_kind g = Flac \<and> gp_sample_format g = Unspecified then
        Inl (FlacFormatRequired (gp_group_id g))
      else Inr ())"

section \<open>The chosen geometry is the cheapest\<close>

definition symbols_needed :: "nat \<Rightarrow> audio_group list \<Rightarrow> nat" where
  "symbols_needed fp groups = sum_list (map (\<lambda>g. div_ceil (group_len g) fp) groups)"

definition wire_cost :: "nat \<Rightarrow> audio_group list \<Rightarrow> nat \<Rightarrow> nat" where
  "wire_cost framing groups fp = usize_sat_mul (symbols_needed fp groups) (framing + 72 + fp)"

lemma group_len_pos [simp]: "0 < group_len g"
  by (simp add: group_len_def)

lemma symbols_needed_simps [simp]:
  "symbols_needed fp [] = 0" "symbols_needed fp (g # gs) = div_ceil (group_len g) fp + symbols_needed fp gs"
  by (simp_all add: symbols_needed_def)

lemma checked_symbols_eq:
  "n \<le> usize_max \<Longrightarrow> checked_symbols fp gs n =
     (if n + symbols_needed fp gs \<le> usize_max then Some (n + symbols_needed fp gs) else None)"
  by (induction gs arbitrary: n) (auto simp: Let_def)

definition fits :: "nat \<Rightarrow> audio_group list \<Rightarrow> nat \<Rightarrow> bool" where
  "fits max_source groups fp \<longleftrightarrow> 0 < symbols_needed fp groups \<and> symbols_needed fp groups \<le> max_source"

definition score_of :: "nat \<Rightarrow> audio_group list \<Rightarrow> nat \<Rightarrow> nat \<times> nat \<times> nat" where
  "score_of framing groups fp = (wire_cost framing groups fp, symbols_needed fp groups, fp)"

lemma improve_eq:
  assumes "max_source \<le> 65535"
  shows "improve framing max_source groups fp best =
    (if \<not> fits max_source groups fp then best
     else case best of None \<Rightarrow> Some (score_of framing groups fp)
          | Some current \<Rightarrow> Some (min (score_of framing groups fp) current))"
proof -
  have "65535 \<le> usize_max" by (simp add: usize_max_def)
  then have "\<not> fits max_source groups fp \<or> symbols_needed fp groups \<le> usize_max"
    using assms by (auto simp: fits_def)
  then show ?thesis
    using assms
    by (auto simp: improve_def checked_symbols_eq fits_def score_of_def wire_cost_def SHARD_HEADER_LEN_def
        Let_def min_def split: option.split)
qed

text \<open>The loop returns the least score among the candidates that fit.\<close>

lemma best_score:
  assumes "max_source \<le> 65535"
  shows "case fold (improve framing max_source groups) cs None of
      None \<Rightarrow> \<forall>c \<in> set cs. \<not> fits max_source groups c
    | Some b \<Rightarrow> (\<exists>c \<in> set cs. fits max_source groups c \<and> b = score_of framing groups c) \<and>
        (\<forall>c \<in> set cs. fits max_source groups c \<longrightarrow> b \<le> score_of framing groups c)"
proof (induction cs rule: rev_induct)
  case (snoc c cs)
  let ?prev = "fold (improve framing max_source groups) cs None"
  have step: "fold (improve framing max_source groups) (cs @ [c]) None =
      (if \<not> fits max_source groups c then ?prev
       else case ?prev of None \<Rightarrow> Some (score_of framing groups c)
            | Some current \<Rightarrow> Some (min (score_of framing groups c) current))"
    using improve_eq [OF assms, of framing groups c ?prev] by simp
  show ?case
  proof (cases ?prev)
    case None
    then show ?thesis using snoc unfolding step by auto
  next
    case (Some b)
    then have b: "\<exists>c \<in> set cs. fits max_source groups c \<and> b = score_of framing groups c"
      "\<forall>c \<in> set cs. fits max_source groups c \<longrightarrow> b \<le> score_of framing groups c" using snoc by auto
    then show ?thesis
      unfolding step Some
      by (cases "score_of framing groups c \<le> b") (auto simp: min_def intro: order_trans)
  qed
qed simp

text \<open>
  For every fragment size that fits there is a candidate that is not larger and needs no more symbols:
  the largest, over the groups, of the smallest fragment size with that group's number of fragments.
\<close>

lemma div_ceil_mono: "0 < a \<Longrightarrow> a \<le> b \<Longrightarrow> div_ceil n b \<le> div_ceil n a"
proof -
  assume a: "0 < a" "a \<le> b"
  have "n \<le> div_ceil n a * a" by (rule div_ceil_upper [OF a(1)])
  also have "\<dots> \<le> div_ceil n a * b" using a(2) by simp
  finally show ?thesis using div_ceil_le_iff [of b n "div_ceil n a"] a by simp
qed

lemma div_ceil_twice: "0 < a \<Longrightarrow> div_ceil n (div_ceil n a) \<le> a" if "0 < n"
proof -
  assume a: "0 < a"
  have "n \<le> a * div_ceil n a" using div_ceil_upper [OF a, of n] by (simp add: mult.commute)
  then show ?thesis using div_ceil_le_iff [of "div_ceil n a" n a] div_ceil_pos [OF that a] by simp
qed

lemma div_ceil_thrice:
  assumes "0 < n" "0 < a"
  shows "div_ceil n (div_ceil n (div_ceil n a)) \<le> div_ceil n a"
  using div_ceil_twice [OF assms(1) div_ceil_pos [OF assms]] .

lemma symbols_mono: "0 < a \<Longrightarrow> a \<le> b \<Longrightarrow> symbols_needed b gs \<le> symbols_needed a gs"
  by (induction gs) (auto intro: add_mono div_ceil_mono)

lemma group_symbols_le: "g \<in> set gs \<Longrightarrow> div_ceil (group_len g) fp \<le> symbols_needed fp gs"
  by (induction gs) auto

lemma set_payload_candidates:
  "set (payload_candidates mp ms gs) = insert mp (\<Union>g \<in> set gs. set (group_candidates_for mp ms g))"
  by (simp only: payload_candidates_def set_sorted_list_of_set [OF finite_set]) auto

lemma better_candidate:
  assumes fp: "0 < fp" "fp \<le> mp" and gs: "gs \<noteq> []" and fit: "symbols_needed fp gs \<le> ms"
  shows "\<exists>c \<in> set (payload_candidates mp ms gs). 0 < c \<and> c \<le> fp \<and> symbols_needed c gs \<le> symbols_needed fp gs"
proof -
  let ?h = "\<lambda>g. div_ceil (group_len g) (div_ceil (group_len g) fp)"
  define c where "c = Max (?h ` set gs)"
  have h: "0 < ?h g" "?h g \<le> fp" for g
    using div_ceil_twice [OF group_len_pos fp(1)] by (auto intro!: div_ceil_pos simp: fp(1))
  have "c \<in> ?h ` set gs" using gs unfolding c_def by (intro Max_in) auto
  then obtain g where g: "g \<in> set gs" "c = ?h g" by auto
  have "div_ceil (group_len g) mp \<le> div_ceil (group_len g) fp" using fp by (intro div_ceil_mono)
  moreover have "div_ceil (group_len g) fp \<le> ms" using group_symbols_le [OF g(1)] fit le_trans by blast
  moreover have "?h g \<le> mp" using h(2) [of g] fp(2) by linarith
  ultimately have "div_ceil (group_len g) fp \<in> set (filter (\<lambda>f. div_ceil (group_len g) f \<le> mp)
      [div_ceil (group_len g) mp..<ms + 1])"
    unfolding set_filter set_upt mem_Collect_eq atLeastLessThan_iff by linarith
  then have "?h g \<in> set (group_candidates_for mp ms g)"
    unfolding group_candidates_for_def set_map by (rule image_eqI [rotated]) (use h(1) [of g] in simp)
  then have mem: "c \<in> set (payload_candidates mp ms gs)" using g by (auto simp: set_payload_candidates)
  have le: "?h g' \<le> c" if "g' \<in> set gs" for g' unfolding c_def using that by simp
  have "symbols_needed c gs' \<le> symbols_needed fp gs'" if "set gs' \<subseteq> set gs" for gs'
    using that
  proof (induction gs')
    case (Cons g' gs')
    have "div_ceil (group_len g') c \<le> div_ceil (group_len g') (?h g')"
      using le [of g'] Cons.prems h(1) by (intro div_ceil_mono) auto
    also have "\<dots> \<le> div_ceil (group_len g') fp" by (rule div_ceil_thrice [OF group_len_pos fp(1)])
    finally show ?case using Cons by auto
  qed simp
  then show ?thesis using mem h g by (intro bexI [of _ c]) auto
qed

section \<open>What the geometry promises\<close>

lemma framing_size_Inr: "framing_size c = Inr n \<longleftrightarrow> n = ac_transport_overhead c + 44 \<and> n \<le> usize_max"
  by (auto simp: framing_size_def HEADER_LEN_def ENCODING_PACKET_HEADER_LEN_def DATAGRAM_AUDIO_SESSION_ID_LEN_def
      Let_def)

lemma audio_symbol_size_Inr:
  "audio_symbol_size c = Inr s \<longleftrightarrow>
     ac_transport_overhead c + 44 \<le> usize_max \<and> (\<exists>n. 73 \<le> n \<and> n \<le> 65535 \<and> s = of_nat n \<and>
       ac_max_datagram_size c = ac_transport_overhead c + 44 + n)"
proof -
  have "audio_symbol_size c = Inr s \<longleftrightarrow> ac_transport_overhead c + 44 \<le> usize_max \<and>
      ac_transport_overhead c + 44 + 73 \<le> ac_max_datagram_size c \<and>
      ac_max_datagram_size c - (ac_transport_overhead c + 44) \<le> 65535 \<and>
      s = of_nat (ac_max_datagram_size c - (ac_transport_overhead c + 44))"
    by (auto simp: audio_symbol_size_def rbind_eq_Inr framing_size_Inr Let_def SHARD_HEADER_LEN_def
        not_less not_le simp del: of_nat_diff)
  also have "\<dots> \<longleftrightarrow> ac_transport_overhead c + 44 \<le> usize_max \<and> (\<exists>n. 73 \<le> n \<and> n \<le> 65535 \<and> s = of_nat n \<and>
      ac_max_datagram_size c = ac_transport_overhead c + 44 + n)" (is "?l = ?r")
  proof
    assume ?l
    then show ?r
      by (intro conjI exI [of _ "ac_max_datagram_size c - (ac_transport_overhead c + 44)"]) (simp_all, linarith)
  qed auto
  finally show ?thesis .
qed

lemma max_fragment_payload_Inr:
  "max_fragment_payload c = Inr mp \<longleftrightarrow>
     ac_transport_overhead c + 44 \<le> usize_max \<and> 0 < mp \<and> mp + 72 \<le> 65535 \<and>
     ac_max_datagram_size c = ac_transport_overhead c + 44 + 72 + mp" (is "?l = ?r")
proof -
  have word: "n \<le> 65535 \<Longrightarrow> unat (of_nat n :: u16) = n" for n
    by (simp add: unat_of_nat take_bit_nat_eq_self)
  show ?thesis
  proof
    assume ?l
    then obtain n where "ac_transport_overhead c + 44 \<le> usize_max" "73 \<le> n" "n \<le> 65535" "mp = n - 72"
        "ac_max_datagram_size c = ac_transport_overhead c + 44 + n"
      by (auto simp: max_fragment_payload_def rbind_eq_Inr audio_symbol_size_Inr SHARD_HEADER_LEN_def word)
    then show ?r by simp
  next
    assume r: ?r
    then have "audio_symbol_size c = Inr (of_nat (mp + 72))"
      unfolding audio_symbol_size_Inr by (intro conjI exI [of _ "mp + 72"]) simp_all
    then show ?l using r word [of "mp + 72"] by (simp add: max_fragment_payload_def SHARD_HEADER_LEN_def)
  qed
qed

text \<open>The geometry found: the symbols of the groups at that fragment size, within the budgets.\<close>

lemma geometry_Inr:
  assumes "geometry_for_groups c groups = Inr g" and mp: "max_fragment_payload c = Inr mp"
  defines "fp \<equiv> ag_fragment_payload g"
  shows "groups \<noteq> []" "0 < fp" "fp \<le> mp" "unat (ag_symbol_size g) = 72 + fp"
    "unat (ag_source_symbols g) = symbols_needed fp groups" "0 < symbols_needed fp groups"
    "symbols_needed fp groups \<le> unat (ac_max_source_symbols c)"
    "\<And>fp'. 0 < fp' \<Longrightarrow> fp' \<le> mp \<Longrightarrow> symbols_needed fp' groups \<le> unat (ac_max_source_symbols c) \<Longrightarrow>
       symbols_needed fp groups * (ac_transport_overhead c + 116 + fp)
         \<le> symbols_needed fp' groups * (ac_transport_overhead c + 116 + fp') \<or>
       usize_max \<le> symbols_needed fp' groups * (ac_transport_overhead c + 116 + fp')"
    "ag_source_wire_bytes g = usize_sat_mul (symbols_needed fp groups) (ac_transport_overhead c + 116 + fp)"
proof -
  let ?ms = "unat (ac_max_source_symbols c)" and ?fr = "ac_transport_overhead c + 44"
  have ms: "?ms \<le> 65535" using unsigned_less [of "ac_max_source_symbols c", where ?'a = nat] by simp
  have budget: "0 < mp" "mp + 72 \<le> 65535" using mp by (simp_all add: max_fragment_payload_Inr)
  have fr: "framing_size c = Inr ?fr" using mp by (simp add: max_fragment_payload_Inr framing_size_Inr)
  show ne: "groups \<noteq> []" using assms(1) by (auto simp: geometry_for_groups_def)
  let ?cs = "payload_candidates mp ?ms groups"
  obtain cost n p where best: "fold (improve ?fr ?ms groups) ?cs None = Some (cost, n, p)"
    and g: "g = \<lparr>ag_symbol_size = of_nat (72 + p), ag_fragment_payload = p, ag_source_symbols = of_nat n,
      ag_source_wire_bytes = cost\<rparr>"
    using assms(1) fr mp ne
    by (auto simp: geometry_for_groups_def Let_def SHARD_HEADER_LEN_def split: option.splits)
  have p: "fp = p" by (simp add: fp_def g)
  have found: "p \<in> set ?cs" "fits ?ms groups p" "(cost, n, p) = score_of ?fr groups p"
    and least: "\<And>c'. c' \<in> set ?cs \<Longrightarrow> fits ?ms groups c' \<Longrightarrow> (cost, n, p) \<le> score_of ?fr groups c'"
    using best_score [OF ms, where framing = ?fr and groups = groups and cs = ?cs] best by (auto simp: score_of_def)
  have cand: "0 < c' \<and> c' \<le> mp" if "c' \<in> set ?cs" for c'
    using that budget by (auto simp: set_payload_candidates group_candidates_for_def)
  show "0 < fp" "fp \<le> mp" using cand [OF found(1)] p by simp_all
  show "unat (ag_symbol_size g) = 72 + fp"
    using cand [OF found(1)] budget p
    by (simp only: g audio_geometry.simps unat_of_nat) (simp add: take_bit_nat_eq_self)
  have n: "n = symbols_needed p groups" "cost = wire_cost ?fr groups p" using found(3) by (simp_all add: score_of_def)
  show "0 < symbols_needed fp groups" "symbols_needed fp groups \<le> ?ms" using found(2) p by (simp_all add: fits_def)
  then show "unat (ag_source_symbols g) = symbols_needed fp groups"
    using ms n p by (simp add: g unat_of_nat take_bit_nat_eq_self)
  show "ag_source_wire_bytes g = usize_sat_mul (symbols_needed fp groups) (ac_transport_overhead c + 116 + fp)"
    using n p by (simp add: g wire_cost_def add.assoc)
  fix fp' assume fp': "0 < fp'" "fp' \<le> mp" "symbols_needed fp' groups \<le> ?ms"
  obtain c' where c': "c' \<in> set ?cs" "c' \<le> fp'" "0 < c'" "symbols_needed c' groups \<le> symbols_needed fp' groups"
    using better_candidate [OF fp'(1,2) ne fp'(3)] by blast
  have "symbols_needed mp groups \<le> symbols_needed c' groups" using cand [OF c'(1)] by (intro symbols_mono) auto
  moreover have "0 < symbols_needed mp groups"
    using ne budget(1) by (cases groups) (auto intro: div_ceil_pos)
  ultimately have "fits ?ms groups c'" using c'(4) fp'(3) by (simp add: fits_def)
  from least [OF c'(1) this] have "wire_cost ?fr groups p \<le> wire_cost ?fr groups c'"
    unfolding n by (auto simp: score_of_def)
  also have "\<dots> \<le> wire_cost ?fr groups fp'"
    unfolding wire_cost_def usize_sat_mul_def using c'(2,4) by (intro min.mono mult_le_mono) simp_all
  finally have "min (symbols_needed p groups * (?fr + 72 + p)) usize_max \<le>
      min (symbols_needed fp' groups * (?fr + 72 + fp')) usize_max"
    by (simp add: wire_cost_def usize_sat_mul_def)
  then show "symbols_needed fp groups * (ac_transport_overhead c + 116 + fp)
       \<le> symbols_needed fp' groups * (ac_transport_overhead c + 116 + fp') \<or>
     usize_max \<le> symbols_needed fp' groups * (ac_transport_overhead c + 116 + fp')"
    unfolding p by (auto simp: min_def add.assoc split: if_splits)
qed

lemma geometry_Inl:
  assumes "geometry_for_groups c groups = Inl err" "max_fragment_payload c = Inr mp" "groups \<noteq> []"
  shows "err = TooManySourceSymbols (symbols_needed mp groups) (ac_max_source_symbols c)"
    "unat (ac_max_source_symbols c) < symbols_needed mp groups"
proof -
  let ?ms = "unat (ac_max_source_symbols c)" and ?fr = "ac_transport_overhead c + 44"
  let ?cs = "payload_candidates mp ?ms groups"
  have ms: "?ms \<le> 65535" using unsigned_less [of "ac_max_source_symbols c", where ?'a = nat] by simp
  have mp: "0 < mp" and fr: "framing_size c = Inr ?fr"
    using assms(2) by (simp_all add: max_fragment_payload_Inr framing_size_Inr)
  show "err = TooManySourceSymbols (symbols_needed mp groups) (ac_max_source_symbols c)"
    using assms fr by (auto simp: geometry_for_groups_def Let_def symbols_needed_def split: option.splits)
  have none: "fold (improve ?fr ?ms groups) ?cs None = None"
    using assms fr by (auto simp: geometry_for_groups_def Let_def split: option.splits)
  have "mp \<in> set ?cs" by (simp add: set_payload_candidates)
  then have "\<not> fits ?ms groups mp"
    using best_score [OF ms, where framing = ?fr and groups = groups and cs = ?cs] none by simp
  moreover have "0 < symbols_needed mp groups" using assms(3) mp by (cases groups) (auto intro: div_ceil_pos)
  ultimately show "?ms < symbols_needed mp groups" by (auto simp: fits_def)
qed

text \<open>
  C25. The symbol size of an epoch is the cheapest. For valid budgets, the geometry fits the datagram size
  and the number of source symbols; no other fragment size within the budgets, a candidate of the
  search or not, needs fewer bytes on the wire for the source symbols; and the search fails exactly
  when even the largest fragments need more source symbols than configured.
\<close>
theorem geometry_is_cheapest:
  assumes "max_fragment_payload c = Inr mp" "groups \<noteq> []"
  shows "case geometry_for_groups c groups of
      Inl err \<Rightarrow> err = TooManySourceSymbols (symbols_needed mp groups) (ac_max_source_symbols c) \<and>
        unat (ac_max_source_symbols c) < symbols_needed mp groups
    | Inr g \<Rightarrow>
        (let fp = ag_fragment_payload g; n = unat (ag_source_symbols g) in
         0 < fp \<and> fp \<le> mp \<and> unat (ag_symbol_size g) = 72 + fp \<and> n = symbols_needed fp groups \<and>
         0 < n \<and> n \<le> unat (ac_max_source_symbols c) \<and>
         ag_source_wire_bytes g = usize_sat_mul n (ac_transport_overhead c + 116 + fp) \<and>
         (\<forall>fp'. 0 < fp' \<longrightarrow> fp' \<le> mp \<longrightarrow> symbols_needed fp' groups \<le> unat (ac_max_source_symbols c) \<longrightarrow>
            ag_source_wire_bytes g \<le> symbols_needed fp' groups * (ac_transport_overhead c + 116 + fp')))"
proof (cases "geometry_for_groups c groups")
  case (Inl err)
  then show ?thesis using geometry_Inl [OF Inl assms] by simp
next
  case (Inr g)
  note geo = geometry_Inr [OF Inr assms(1)]
  have "ag_source_wire_bytes g \<le> symbols_needed fp' groups * (ac_transport_overhead c + 116 + fp')"
    if "0 < fp'" "fp' \<le> mp" "symbols_needed fp' groups \<le> unat (ac_max_source_symbols c)" for fp'
    using geo(8) [OF that] unfolding geo(9) usize_sat_mul_def by linarith
  then show ?thesis using Inr geo(2-7,9) by (simp add: Let_def geo(5))
qed

definition example_groups :: "audio_group list" where
  "example_groups =
     [\<lparr>gp_group_id = 1, gp_channel_start = 0, gp_channel_count = 2, gp_payload_kind = Pcm,
       gp_sample_format = S16Le, gp_flags = 0, gp_payload = [1, 2, 3, 4, 5]\<rparr>,
      \<lparr>gp_group_id = 2, gp_channel_start = 2, gp_channel_count = 1, gp_payload_kind = Opus,
       gp_sample_format = Unspecified, gp_flags = 0, gp_payload = [9, 8, 7]\<rparr>]"

definition example_audio_config :: audio_config where
  "example_audio_config =
     \<lparr>ac_max_datagram_size = 127, ac_transport_overhead = 0, ac_repair_symbols = 2, ac_max_source_symbols = 4\<rparr>"

lemma example_budget: "max_fragment_payload example_audio_config = Inr 11"
  unfolding max_fragment_payload_Inr by (simp add: example_audio_config_def usize_max_def)

lemma example_needed: "symbols_needed fp example_groups = div_ceil 5 fp + div_ceil 3 fp"
  by (simp add: example_groups_def group_len_def eval_nat_numeral)

lemma example_groups_ne: "example_groups \<noteq> []"
  by (simp add: example_groups_def)

lemma example_geometry:
  "\<exists>g. geometry_for_groups example_audio_config example_groups = Inr g \<and> ag_fragment_payload g = 5 \<and>
     unat (ag_symbol_size g) = 77 \<and> unat (ag_source_symbols g) = 2"
proof (cases "geometry_for_groups example_audio_config example_groups")
  case (Inl err)
  from geometry_Inl(2) [OF Inl example_budget example_groups_ne] show ?thesis
    by (simp add: example_needed div_ceil_def example_audio_config_def)
next
  case (Inr g)
  note geo = geometry_Inr [OF Inr example_budget]
  let ?fp = "ag_fragment_payload g"
  have cost: "symbols_needed ?fp example_groups * (116 + ?fp) \<le> 2 * 121"
    using geo(8) [of 5] by (simp add: example_needed div_ceil_def example_audio_config_def usize_max_def)
  have "?fp \<in> {1, 2, 3, 4, 5, 6, 7, 8, 9, 10, 11}"
    using geo(2,3) unfolding insert_iff empty_iff by presburger
  then have "?fp = 5" using cost by (auto simp: example_needed div_ceil_def)
  then show ?thesis using Inr geo(4,5) by (simp add: example_needed div_ceil_def)
qed

theorem geometry_is_cheapest_witness:
  "\<exists>g. geometry_for_groups example_audio_config example_groups = Inr g \<and>
     ag_source_wire_bytes g = 242 \<and> ag_source_wire_bytes g \<le> symbols_needed 4 example_groups * 120"
proof -
  obtain g where g: "geometry_for_groups example_audio_config example_groups = Inr g" "ag_fragment_payload g = 5"
    "unat (ag_source_symbols g) = 2"
    using example_geometry by blast
  show ?thesis
    using geometry_is_cheapest [OF example_budget example_groups_ne] g
    by (auto simp: Let_def usize_sat_mul_def usize_max_def example_audio_config_def example_needed div_ceil_def)
qed

end
