(* ===== verification/Audio_Encoder.thy ===== *)
theory Audio_Encoder
  imports Audio_Geometry Fec_Decoder
begin

text \<open>
  \<^verbatim>\<open>multichannel_audio.rs\<close>, lines 398 to 696: one audio epoch becomes one RaptorQ block whose source symbols
  describe themselves; repair datagrams carry the session id in a checksummed trailer.
\<close>

section \<open>Encoded epochs\<close>

datatype audio_role = SourceSymbol u16 | RepairSymbol u32

record audio_datagram =
  adg_block_id :: u32
  adg_packet_sequence :: u32
  adg_role :: audio_role
  adg_payload :: bytes

record encoded_epoch =
  ee_session_id :: u64
  ee_config_generation :: u32
  ee_epoch_id :: u64
  ee_pts_samples :: u64
  ee_sample_rate :: u32
  ee_frame_count :: u32
  ee_block_id :: u32
  ee_source_symbols :: u16
  ee_repair_symbols :: u32
  ee_symbol_size :: u16
  ee_datagrams :: "audio_datagram list"

definition is_source :: "audio_role \<Rightarrow> bool" where
  "is_source r = (case r of SourceSymbol _ \<Rightarrow> True | RepairSymbol _ \<Rightarrow> False)"

definition source_datagram_count :: "encoded_epoch \<Rightarrow> nat" where
  "source_datagram_count e = length (filter (is_source \<circ> adg_role) (ee_datagrams e))"

definition repair_datagram_count :: "encoded_epoch \<Rightarrow> nat" where
  "repair_datagram_count e = length (ee_datagrams e) - source_datagram_count e"

section \<open>Writing the shards\<close>

definition check_group :: "audio_group \<Rightarrow> (audio_fec_error, unit) result" where
  "check_group g =
     rbind (validate_group g) (\<lambda>_.
       if length (gp_payload g) > U32_MAX then Inl (GroupPayloadTooLong (gp_group_id g) (length (gp_payload g)))
       else Inr ())"

primrec check_groups :: "audio_group list \<Rightarrow> (audio_fec_error, unit) result" where
  "check_groups [] = Inr ()"
| "check_groups (g # gs) = rbind (check_group g) (\<lambda>_. check_groups gs)"

definition fragment_payload_of :: "audio_group \<Rightarrow> nat \<Rightarrow> nat \<Rightarrow> bytes" where
  "fragment_payload_of g fp i =
     (let payload_offset = i * fp;
          payload_end = min (payload_offset + fp) (length (gp_payload g))
      in if payload_offset < length (gp_payload g) then sub_slice (gp_payload g) payload_offset payload_end
         else [])"

text \<open>\<open>grp\<close> is the group with its index, \<open>n\<close> its fragment count, \<open>i\<close> the fragment, \<open>j\<close> the source index.\<close>

definition shard_header_of ::
    "audio_epoch \<Rightarrow> audio_geometry \<Rightarrow> nat \<times> audio_group \<Rightarrow> nat \<Rightarrow> nat \<Rightarrow> nat \<Rightarrow> shard_header" where
  "shard_header_of ep geo grp n i j =
     \<lparr>sh_payload_kind = gp_payload_kind (snd grp), sh_sample_format = gp_sample_format (snd grp),
      sh_flags = gp_flags (snd grp), sh_session_id = ep_session_id ep,
      sh_config_generation = ep_config_generation ep, sh_sample_rate = ep_sample_rate ep,
      sh_frame_count = ep_frame_count ep, sh_epoch_id = ep_epoch_id ep, sh_pts_samples = ep_pts_samples ep,
      sh_group_id = gp_group_id (snd grp), sh_group_index = of_nat (fst grp),
      sh_group_count = of_nat (length (ep_groups ep)), sh_channel_start = gp_channel_start (snd grp),
      sh_channel_count = gp_channel_count (snd grp), sh_fragment_index = of_nat i,
      sh_fragment_count = of_nat n, sh_source_index = of_nat j, sh_source_count = ag_source_symbols geo,
      sh_payload_len = of_nat (length (fragment_payload_of (snd grp) (ag_fragment_payload geo) i)),
      sh_payload_offset = of_nat (i * ag_fragment_payload geo),
      sh_group_payload_len = of_nat (length (gp_payload (snd grp)))\<rparr>"

definition write_fragment ::
    "audio_epoch \<Rightarrow> audio_geometry \<Rightarrow> nat \<times> audio_group \<Rightarrow> nat \<Rightarrow> nat \<Rightarrow> bytes \<times> nat \<Rightarrow>
     (audio_fec_error, bytes \<times> nat) result" where
  "write_fragment ep geo grp n i st =
     (case st of (object, source_index) \<Rightarrow>
        (let payload = fragment_payload_of (snd grp) (ag_fragment_payload geo) i;
             symbol_start = source_index * unat (ag_symbol_size geo);
             symbol_end = symbol_start + unat (ag_symbol_size geo);
             header = shard_header_of ep geo grp n i source_index
         in rbind (shard_encode header (sub_slice object symbol_start symbol_end)) (\<lambda>symbol.
              Inr (put symbol_start (put SHARD_HEADER_LEN payload symbol) object, source_index + 1))))"

primrec write_fragments ::
    "audio_epoch \<Rightarrow> audio_geometry \<Rightarrow> nat \<times> audio_group \<Rightarrow> nat \<Rightarrow> nat list \<Rightarrow> bytes \<times> nat \<Rightarrow>
     (audio_fec_error, bytes \<times> nat) result" where
  "write_fragments ep geo grp n [] st = Inr st"
| "write_fragments ep geo grp n (i # is) st =
     rbind (write_fragment ep geo grp n i st) (write_fragments ep geo grp n is)"

primrec write_groups ::
    "audio_epoch \<Rightarrow> audio_geometry \<Rightarrow> (nat \<times> audio_group) list \<Rightarrow> bytes \<times> nat \<Rightarrow>
     (audio_fec_error, bytes \<times> nat) result" where
  "write_groups ep geo [] st = Inr st"
| "write_groups ep geo (grp # rest) st =
     (let n = div_ceil (group_len (snd grp)) (ag_fragment_payload geo)
      in if n > 65535 then Inl (AudioTooManyFragments (gp_group_id (snd grp)) n)
         else rbind (write_fragments ep geo grp n [0..<n] st) (write_groups ep geo rest))"

section \<open>Labelling the datagrams\<close>

definition attach_audio_session_id ::
    "crc_fun \<Rightarrow> bytes \<Rightarrow> u64 \<Rightarrow> (audio_fec_error, bytes) result" where
  "attach_audio_session_id crc datagram session_id =
     rbind (map_err AudioFec (decode_header datagram)) (\<lambda>header.
       (let h1 = header\<lparr>packet_flags := or (packet_flags header) DATAGRAM_FLAG_AUDIO_SESSION_ID\<rparr>;
            extended = datagram @ le64 session_id
        in rbind (map_err AudioFec (compute_packet_crc32 crc h1 (drop HEADER_LEN extended))) (\<lambda>c.
             rbind (map_err AudioFec (header_encode (h1\<lparr>hdr_packet_crc32 := c\<rparr>) (take HEADER_LEN extended)))
               (\<lambda>head. Inr (head @ drop HEADER_LEN extended)))))"

definition symbol_role :: "u16 \<Rightarrow> u32 \<Rightarrow> audio_role" where
  "symbol_role source_symbols esi =
     (if esi < ucast source_symbols then SourceSymbol (ucast esi) else RepairSymbol esi)"

definition label_datagram ::
    "crc_fun \<Rightarrow> ('e, 'd) raptorq \<Rightarrow> audio_config \<Rightarrow> u64 \<Rightarrow> u32 \<Rightarrow> u16 \<Rightarrow> bytes \<Rightarrow>
     (audio_fec_error, audio_datagram) result" where
  "label_datagram crc rq c session_id block_id source_symbols datagram =
     rbind (map_err AudioFec (decode_header datagram)) (\<lambda>header.
     rbind (map_err AudioFec (header_payload crc header datagram)) (\<lambda>serialized.
       (let esi = pkt_symbol_id (rq_deserialize rq serialized);
            role = symbol_role source_symbols esi
        in rbind (if is_source role then Inr datagram else attach_audio_session_id crc datagram session_id)
             (\<lambda>out.
               if length out + ac_transport_overhead c > ac_max_datagram_size c then
                 Inl (EncodedDatagramTooLarge (length out + ac_transport_overhead c) (ac_max_datagram_size c))
               else Inr \<lparr>adg_block_id = block_id, adg_packet_sequence = packet_sequence header,
                         adg_role = role, adg_payload = out\<rparr>))))"

primrec label_datagrams ::
    "crc_fun \<Rightarrow> ('e, 'd) raptorq \<Rightarrow> audio_config \<Rightarrow> u64 \<Rightarrow> u32 \<Rightarrow> u16 \<Rightarrow> bytes list \<Rightarrow>
     (audio_fec_error, audio_datagram list \<times> audio_datagram list) result" where
  "label_datagrams crc rq c session_id block_id source_symbols [] = Inr ([], [])"
| "label_datagrams crc rq c session_id block_id source_symbols (d # ds) =
     rbind (label_datagram crc rq c session_id block_id source_symbols d) (\<lambda>out.
       rbind (label_datagrams crc rq c session_id block_id source_symbols ds) (\<lambda>(sources, repairs).
         if is_source (adg_role out) then Inr (out # sources, repairs)
         else Inr (sources, out # repairs)))"

definition source_key :: "audio_datagram \<Rightarrow> u16" where
  "source_key p = (case adg_role p of SourceSymbol i \<Rightarrow> i | RepairSymbol _ \<Rightarrow> - 1)"

section \<open>The encoder\<close>

record audio_encoder =
  ae_config :: audio_config
  ae_fec :: fec_encoder

definition audio_encoder_new :: "audio_config \<Rightarrow> audio_encoder" where
  "audio_encoder_new c = \<lparr>ae_config = c, ae_fec = encoder_new\<rparr>"

definition audio_set_block_id :: "u32 \<Rightarrow> audio_encoder \<Rightarrow> audio_encoder" where
  "audio_set_block_id b e = e\<lparr>ae_fec := set_block_id b (ae_fec e)\<rparr>"

definition audio_block_id :: "audio_encoder \<Rightarrow> u32" where
  "audio_block_id e = enc_block_id (ae_fec e)"

definition prepare_epoch :: "audio_config \<Rightarrow> audio_epoch \<Rightarrow> (audio_fec_error, audio_geometry \<times> bytes) result" where
  "prepare_epoch c ep =
     (if ep_frame_count ep = 0 then Inl InvalidFrameCount
      else if ep_sample_rate ep = 0 then Inl InvalidSampleRate
      else if ep_groups ep = [] then Inl EmptyEpoch
      else if length (ep_groups ep) > 65535 then Inl (TooManyGroups (length (ep_groups ep)))
      else
        rbind (check_groups (ep_groups ep)) (\<lambda>_.
        rbind (geometry_for_groups c (ep_groups ep)) (\<lambda>geo.
        rbind (write_groups ep geo (enumerate 0 (ep_groups ep))
                (replicate (unat (ag_source_symbols geo) * unat (ag_symbol_size geo)) 0, 0)) (\<lambda>(object, _).
          Inr (geo, object)))))"

definition encode_epoch ::
    "crc_fun \<Rightarrow> ('e, 'd) raptorq \<Rightarrow> audio_encoder \<Rightarrow> audio_epoch \<Rightarrow>
     audio_encoder \<times> (audio_fec_error, encoded_epoch) result" where
  "encode_epoch crc rq e ep =
     (case prepare_epoch (ae_config e) ep of
        Inl err \<Rightarrow> (e, Inl err)
      | Inr (geo, object) \<Rightarrow>
          (let block_id = enc_block_id (ae_fec e);
               fec1 = set_symbol_size (ag_symbol_size geo) (set_source_symbols (ag_source_symbols geo) (ae_fec e))
           in case encode_block_with_repair_symbols crc rq fec1 object (ac_repair_symbols (ae_config e)) of
                (fec2, Inl err) \<Rightarrow> (e\<lparr>ae_fec := fec2\<rparr>, Inl (AudioFec err))
              | (fec2, Inr encoded) \<Rightarrow>
                  (e\<lparr>ae_fec := fec2\<rparr>,
                   rbind (label_datagrams crc rq (ae_config e) (ep_session_id ep) block_id
                           (ag_source_symbols geo) encoded) (\<lambda>(sources, repairs).
                     Inr \<lparr>ee_session_id = ep_session_id ep, ee_config_generation = ep_config_generation ep,
                          ee_epoch_id = ep_epoch_id ep, ee_pts_samples = ep_pts_samples ep,
                          ee_sample_rate = ep_sample_rate ep, ee_frame_count = ep_frame_count ep,
                          ee_block_id = block_id, ee_source_symbols = ag_source_symbols geo,
                          ee_repair_symbols = ac_repair_symbols (ae_config e),
                          ee_symbol_size = ag_symbol_size geo,
                          ee_datagrams = sort_key source_key sources @ repairs\<rparr>))))"

end
