(* ===== verification/Bounded_Ids.thy ===== *)
theory Bounded_Ids
  imports Prelude
begin

text \<open>
  The pattern the audio decoder and the session receiver share: a \<open>HashSet\<close> of block ids with a
  \<open>VecDeque\<close> of the same ids in order of arrival, kept below a bound by forgetting the oldest.
\<close>

section \<open>The data structure\<close>

text \<open>The loop pops the front while the deque is longer than the bound, and removes what it popped.\<close>

fun forget_oldest :: "nat \<Rightarrow> 'i list \<Rightarrow> 'i set \<Rightarrow> 'i list \<times> 'i set" where
  "forget_oldest n [] ids = ([], ids)"
| "forget_oldest n (i # rest) ids =
     (if length (i # rest) > n then forget_oldest n rest (ids - {i}) else (i # rest, ids))"

definition remember_id :: "nat \<Rightarrow> 'i \<Rightarrow> 'i list \<times> 'i set \<Rightarrow> 'i list \<times> 'i set" where
  "remember_id n i q =
     (case q of (order, ids) \<Rightarrow>
        forget_oldest n (if i \<in> ids then order else order @ [i]) (insert i ids))"

definition ids_inv :: "nat \<Rightarrow> 'i list \<times> 'i set \<Rightarrow> bool" where
  "ids_inv n q \<longleftrightarrow> distinct (fst q) \<and> set (fst q) = snd q \<and> length (fst q) \<le> n"

lemma forget_oldest_eq:
  "distinct order \<Longrightarrow> set order = ids \<Longrightarrow>
   forget_oldest n order ids = (drop (length order - n) order, set (drop (length order - n) order))"
proof (induction n order ids rule: forget_oldest.induct)
  case (2 n i rest ids)
  show ?case
  proof (cases "length (i # rest) > n")
    case True
    then have "length (i # rest) - n = Suc (length rest - n)" by simp
    then show ?thesis using 2 True by auto
  qed (use 2 in simp)
qed simp

lemma remember_id_eq:
  assumes "ids_inv n q"
  shows "remember_id n i q =
    (let order = (if i \<in> snd q then fst q else fst q @ [i]) in
     (drop (length order - n) order, set (drop (length order - n) order)))"
  using assms unfolding remember_id_def Let_def
  by (auto simp: ids_inv_def case_prod_beta insert_absorb forget_oldest_eq)

section \<open>Interface\<close>

text \<open>
  A memory of the last ids: \<open>known\<close> are the ids it answers for, \<open>bound\<close> how many it keeps.
\<close>

locale id_memory =
  fixes history :: "'s \<Rightarrow> 'i list" and known :: "'s \<Rightarrow> 'i set" and bound :: "'s \<Rightarrow> nat"
    and remember :: "'i \<Rightarrow> 's \<Rightarrow> 's"
  assumes remember_step: "(history (remember i s), known (remember i s)) =
      remember_id (bound s) i (history s, known s)"
    and remember_bound: "bound (remember i s) = bound s"
begin

definition inv :: "'s \<Rightarrow> bool" where
  "inv s \<longleftrightarrow> 0 < bound s \<and> ids_inv (bound s) (history s, known s)"

lemma inv_card: "inv s \<Longrightarrow> finite (known s) \<and> card (known s) \<le> bound s"
  by (metis List.finite_set card_length ids_inv_def inv_def fst_conv le_trans snd_conv)

lemma history_remember:
  assumes "inv s"
  shows "history (remember i s) = (let order = (if i \<in> known s then history s else history s @ [i])
      in drop (length order - bound s) order)" "known (remember i s) = set (history (remember i s))"
  using remember_step [of i s] assms remember_id_eq [of "bound s" "(history s, known s)" i]
  by (simp_all add: inv_def Let_def)

lemma remember_inv: "inv s \<Longrightarrow> inv (remember i s)"
  using history_remember [of s i] by (auto simp: inv_def ids_inv_def remember_bound Let_def)

lemma remember_new: "inv s \<Longrightarrow> i \<in> known (remember i s)"
  using history_remember [of s i] by (auto simp: inv_def ids_inv_def Let_def)

lemma remember_subset: "inv s \<Longrightarrow> known (remember i s) \<subseteq> insert i (known s)"
  using history_remember [of s i] set_drop_subset
  by (auto simp: inv_def ids_inv_def Let_def dest: in_set_dropD split: if_splits)

lemma suffix_remember:
  assumes s: "inv s" and h: "history s = pre @ [x] @ post" and n: "length post + 1 < bound s"
  shows "\<exists>pre' post'. history (remember i s) = pre' @ [x] @ post' \<and> length post' \<le> length post + 1"
proof (cases "i \<in> known s")
  case True
  then have "history (remember i s) = history s"
    using history_remember(1) [OF s, of i] s by (simp add: inv_def ids_inv_def Let_def)
  then show ?thesis using h by (intro exI [of _ pre] exI [of _ post]) simp
next
  case False
  let ?k = "length (history s @ [i]) - bound s"
  have "length (history s) \<le> bound s" using s by (simp add: inv_def ids_inv_def)
  then have "?k \<le> length pre" using h n by auto
  then have "history (remember i s) = drop ?k pre @ [x] @ (post @ [i])"
    using history_remember(1) [OF s, of i] False h by (simp add: Let_def)
  then show ?thesis by (intro exI [of _ "drop ?k pre"] exI [of _ "post @ [i]"]) simp
qed

text \<open>An id stays known until \<open>bound\<close> others have been remembered after it.\<close>

lemma stays_known:
  assumes "inv s" "i \<notin> known s" "length js < bound s"
  shows "i \<in> known (fold remember js (remember i s))"
proof -
  have step: "inv t \<Longrightarrow> bound t = bound s \<Longrightarrow> history t = pre @ [i] @ post \<Longrightarrow>
      length post + length js < bound s \<Longrightarrow> i \<in> known (fold remember js t)" for t pre post
  proof (induction js arbitrary: t pre post)
    case Nil
    then show ?case by (auto simp: inv_def ids_inv_def)
  next
    case (Cons j js)
    obtain pre' post' where new: "history (remember j t) = pre' @ [i] @ post'" "length post' \<le> length post + 1"
      using suffix_remember [OF Cons.prems(1,3), of j] Cons.prems by auto
    show ?case
      using Cons.IH [OF remember_inv [OF Cons.prems(1)] _ new(1)] Cons.prems new(2) by (simp add: remember_bound)
  qed
  have b: "0 < bound s" using assms(1) by (simp add: inv_def)
  have "history (remember i s) = drop (length (history s @ [i]) - bound s) (history s) @ [i]"
    using history_remember(1) [OF assms(1), of i] assms(2) b by (simp add: Let_def)
  then show ?thesis
    using step [of "remember i s" _ "[]"] remember_inv [OF assms(1)] remember_bound assms(3) by simp
qed

end

end
