(* ===== verification/Audio_Decoder.thy ===== *)
theory Audio_Decoder
  imports Audio_Encoder Bounded_Ids
begin

text \<open>
  \<^verbatim>\<open>multichannel_audio.rs\<close>, lines 698 to 963: routing by inspection, and the decoder that delivers systematic
  shards at once and the missing ones when RaptorQ recovers the block. A \<open>HashMap\<close> is a map, a
  \<open>HashSet\<close> a set and a \<open>VecDeque\<close> a list, its front first.
\<close>

section \<open>Shards\<close>

datatype audio_recovery = Systematic | Recovered

record decoded_shard =
  dsh_block_id :: u32
  dsh_header :: shard_header
  dsh_recovery :: audio_recovery
  dsh_payload :: bytes

definition decode_symbol ::
    "u32 \<Rightarrow> bytes \<Rightarrow> u16 \<Rightarrow> u16 \<Rightarrow> audio_recovery \<Rightarrow> (audio_fec_error, decoded_shard) result" where
  "decode_symbol block_id symbol expected_count expected_index recovery =
     rbind (shard_decode symbol) (\<lambda>header.
       if sh_source_count header \<noteq> expected_count \<or> sh_source_index header \<noteq> expected_index then
         Inl (SourceIdentityMismatch expected_index (sh_source_index header) expected_count (sh_source_count header))
       else rbind (shard_payload header symbol) (\<lambda>payload.
         Inr \<lparr>dsh_block_id = block_id, dsh_header = header, dsh_recovery = recovery, dsh_payload = payload\<rparr>))"

record datagram_identity =
  did_block_id :: u32
  did_packet_sequence :: u32
  did_source_index :: "u16 option"
  did_session_id :: "u64 option"

definition inspect_multichannel_audio_datagram ::
    "crc_fun \<Rightarrow> ('e, 'd) raptorq \<Rightarrow> bytes \<Rightarrow> (audio_fec_error, datagram_identity) result" where
  "inspect_multichannel_audio_datagram crc rq datagram =
     rbind (map_err AudioFec (decode_header datagram)) (\<lambda>header.
     rbind (map_err AudioFec (header_payload crc header datagram)) (\<lambda>serialized.
       if length serialized < ENCODING_PACKET_HEADER_LEN then Inl (AudioFec (PacketTooShort (length datagram)))
       else
         (let packet = rq_deserialize rq serialized; esi = pkt_symbol_id packet
          in if esi < ucast (hdr_source_symbols header) then
               rbind (decode_symbol (hdr_block_id header) (pkt_data packet) (hdr_source_symbols header)
                       (ucast esi) Systematic) (\<lambda>shard.
                 Inr \<lparr>did_block_id = hdr_block_id header, did_packet_sequence = packet_sequence header,
                      did_source_index = Some (ucast esi),
                      did_session_id = Some (sh_session_id (dsh_header shard))\<rparr>)
             else
               rbind (map_err AudioFec (header_audio_session_id crc header datagram)) (\<lambda>session_id.
                 Inr \<lparr>did_block_id = hdr_block_id header, did_packet_sequence = packet_sequence header,
                      did_source_index = None, did_session_id = session_id\<rparr>))))"

section \<open>The decoder\<close>

record 'd audio_decoder =
  ad_fec :: "'d fec_decoder"
  ad_delivered :: "u32 \<rightharpoonup> u16 set"
  ad_in_flight :: "u32 set"
  ad_in_flight_order :: "u32 list"
  ad_completed :: "u32 set"
  ad_completed_order :: "u32 list"
  ad_max_in_flight :: nat
  ad_max_completed :: nat

definition audio_decoder_new :: "'d audio_decoder" where
  "audio_decoder_new =
     \<lparr>ad_fec = decoder_new, ad_delivered = (\<lambda>_. None), ad_in_flight = {}, ad_in_flight_order = [],
      ad_completed = {}, ad_completed_order = [], ad_max_in_flight = 128, ad_max_completed = 128\<rparr>"

definition with_in_flight_limit :: "nat \<Rightarrow> 'd audio_decoder \<Rightarrow> 'd audio_decoder" where
  "with_in_flight_limit n d = d\<lparr>ad_max_in_flight := max n 1\<rparr>"

definition with_completed_window :: "nat \<Rightarrow> 'd audio_decoder \<Rightarrow> 'd audio_decoder" where
  "with_completed_window n d = d\<lparr>ad_max_completed := max n 1\<rparr>"

definition remember_closed :: "u32 \<Rightarrow> 'd audio_decoder \<Rightarrow> 'd audio_decoder" where
  "remember_closed b d =
     (case remember_id (ad_max_completed d) b (ad_completed_order d, ad_completed d) of
        (order, ids) \<Rightarrow> d\<lparr>ad_completed_order := order, ad_completed := ids\<rparr>)"

text \<open>The loop of \<open>observe_in_flight\<close> over the deque.\<close>

fun expire_oldest :: "u32 list \<Rightarrow> 'd audio_decoder \<Rightarrow> 'd audio_decoder" where
  "expire_oldest [] d = d\<lparr>ad_in_flight_order := []\<rparr>"
| "expire_oldest (b # rest) d =
     (if card (ad_in_flight d) > ad_max_in_flight d then
        (if b \<in> ad_in_flight d then
           expire_oldest rest (remember_closed b
             (d\<lparr>ad_in_flight := ad_in_flight d - {b}, ad_fec := expire_block b (ad_fec d),
                ad_delivered := (ad_delivered d)(b := None)\<rparr>))
         else expire_oldest rest d)
      else d\<lparr>ad_in_flight_order := b # rest\<rparr>)"

definition observe_in_flight :: "u32 \<Rightarrow> 'd audio_decoder \<Rightarrow> 'd audio_decoder" where
  "observe_in_flight b d =
     (if b \<in> ad_in_flight d then d
      else expire_oldest (ad_in_flight_order d @ [b]) (d\<lparr>ad_in_flight := insert b (ad_in_flight d)\<rparr>))"

definition close_block :: "u32 \<Rightarrow> 'd audio_decoder \<Rightarrow> 'd audio_decoder" where
  "close_block b d =
     remember_closed b
       (d\<lparr>ad_in_flight := ad_in_flight d - {b},
          ad_in_flight_order := filter (\<lambda>c. c \<noteq> b) (ad_in_flight_order d),
          ad_delivered := (ad_delivered d)(b := None)\<rparr>)"

definition mark_completed :: "u32 \<Rightarrow> 'd audio_decoder \<Rightarrow> 'd audio_decoder" where
  "mark_completed b d = close_block b d"

definition audio_expire_block :: "u32 \<Rightarrow> 'd audio_decoder \<Rightarrow> 'd audio_decoder" where
  "audio_expire_block b d = close_block b (d\<lparr>ad_fec := expire_block b (ad_fec d)\<rparr>)"

definition audio_in_flight_block_count :: "'d audio_decoder \<Rightarrow> nat" where
  "audio_in_flight_block_count d = card (ad_in_flight d)"

text \<open>
  The loop over the symbols of a recovered block: \<open>i\<close> is the index of the next symbol. It returns the
  delivered indices it leaves behind, also when a symbol does not decode.
\<close>

fun recover_symbols ::
    "u32 \<Rightarrow> u16 \<Rightarrow> bytes list \<Rightarrow> nat \<Rightarrow> u16 set \<Rightarrow> u16 set \<times> (audio_fec_error, decoded_shard list) result" where
  "recover_symbols b k [] i got = (got, Inr [])"
| "recover_symbols b k (symbol # symbols) i got =
     (if of_nat i \<in> got then recover_symbols b k symbols (i + 1) got
      else
        (case decode_symbol b symbol k (of_nat i) Recovered of
           Inl err \<Rightarrow> (got, Inl err)
         | Inr shard \<Rightarrow>
             (case recover_symbols b k symbols (i + 1) (insert (of_nat i) got) of
                (got1, r) \<Rightarrow> (got1, rbind r (\<lambda>shards. Inr (shard # shards))))))"

definition shard_key :: "decoded_shard \<Rightarrow> u16" where
  "shard_key shard = sh_source_index (dsh_header shard)"

text \<open>What follows the push of the datagram into the block decoder.\<close>

definition deliver_shards ::
    "datagram_fec_header \<Rightarrow> decoded_shard option \<Rightarrow> bytes option \<Rightarrow> 'd audio_decoder \<Rightarrow>
     'd audio_decoder \<times> (audio_fec_error, decoded_shard list) result" where
  "deliver_shards header source completed d =
     (let b = hdr_block_id header;
          d1 = (if completed = None then observe_in_flight b d else d);
          before = (case ad_delivered d1 b of Some s \<Rightarrow> s | None \<Rightarrow> {});
          fresh = (case source of
                     Some shard \<Rightarrow> if shard_key shard \<in> before then [] else [shard]
                   | None \<Rightarrow> []);
          now = before \<union> set (map shard_key fresh);
          d2 = d1\<lparr>ad_delivered := (ad_delivered d1)(b \<mapsto> now)\<rparr>
      in case completed of
           None \<Rightarrow> (d2, Inr (sort_key shard_key fresh))
         | Some object \<Rightarrow>
             (let symbol_size = unat (hdr_symbol_size header);
                  expected = symbol_size * unat (hdr_source_symbols header)
              in if length object \<noteq> expected then (d2, Inl (DecodedObjectLengthMismatch expected (length object)))
                 else
                   (case recover_symbols b (hdr_source_symbols header) (chunks symbol_size object) 0 now of
                      (now1, Inl err) \<Rightarrow> (d2\<lparr>ad_delivered := (ad_delivered d2)(b \<mapsto> now1)\<rparr>, Inl err)
                    | (now1, Inr shards) \<Rightarrow>
                        (mark_completed b (d2\<lparr>ad_delivered := (ad_delivered d2)(b \<mapsto> now1)\<rparr>),
                         Inr (sort_key shard_key (fresh @ shards))))))"

definition audio_push_datagram ::
    "crc_fun \<Rightarrow> ('e, 'd) raptorq \<Rightarrow> 'd audio_decoder \<Rightarrow> bytes \<Rightarrow>
     'd audio_decoder \<times> (audio_fec_error, decoded_shard list) result" where
  "audio_push_datagram crc rq d datagram =
     (case decode_header datagram of
        Inl err \<Rightarrow> (d, Inl (AudioFec err))
      | Inr header \<Rightarrow>
          if hdr_block_id header \<in> ad_completed d then (d, Inr [])
          else
            (case header_payload crc header datagram of
               Inl err \<Rightarrow> (d, Inl (AudioFec err))
             | Inr serialized \<Rightarrow>
                 if length serialized < ENCODING_PACKET_HEADER_LEN then
                   (d, Inl (AudioFec (PacketTooShort (length datagram))))
                 else
                   (let packet = rq_deserialize rq serialized; esi = pkt_symbol_id packet
                    in case (if esi < ucast (hdr_source_symbols header)
                             then rbind (decode_symbol (hdr_block_id header) (pkt_data packet)
                                    (hdr_source_symbols header) (ucast esi) Systematic) (\<lambda>s. Inr (Some s))
                             else Inr None) of
                         Inl err \<Rightarrow> (d, Inl err)
                       | Inr source \<Rightarrow>
                           (case push_datagram crc rq (ad_fec d) datagram of
                              (fec, Inl err) \<Rightarrow> (d\<lparr>ad_fec := fec\<rparr>, Inl (AudioFec err))
                            | (fec, Inr completed) \<Rightarrow>
                                deliver_shards header source completed (d\<lparr>ad_fec := fec\<rparr>)))))"

primrec audio_push_all ::
    "crc_fun \<Rightarrow> ('e, 'd) raptorq \<Rightarrow> 'd audio_decoder \<Rightarrow> bytes list \<Rightarrow>
     'd audio_decoder \<times> (audio_fec_error, decoded_shard list) result list" where
  "audio_push_all crc rq d [] = (d, [])"
| "audio_push_all crc rq d (x # xs) =
     (case audio_push_datagram crc rq d x of
        (d1, r) \<Rightarrow> (case audio_push_all crc rq d1 xs of (d2, rs) \<Rightarrow> (d2, r # rs)))"

section \<open>The memory of closed blocks\<close>

interpretation closed: id_memory ad_completed_order ad_completed ad_max_completed remember_closed
  by unfold_locales (auto simp: remember_closed_def split: prod.split)

end
