(* ===== verification/Audio_Assembly.thy ===== *)
theory Audio_Assembly
  imports Audio_Decoder
begin

text \<open>
  \<^verbatim>\<open>music-audio-session/src/lib.rs\<close>, lines 117 to 152 and 476 to 692: groups and epochs put together again from
  shards. A Rust index into a \<open>Vec\<close> is \<open>!\<close>: a shard that decoded has its group and fragment index below
  the counts, and the metadata checks make the counts those of the assembly. A \<open>HashMap\<close> is a map.
\<close>

section \<open>Groups and epochs\<close>

record decoded_group =
  dg_session_id :: u64
  dg_config_generation :: u32
  dg_epoch_id :: u64
  dg_pts_samples :: u64
  dg_sample_rate :: u32
  dg_frame_count :: u32
  dg_group_count :: u16
  dg_group_id :: u16
  dg_group_index :: u16
  dg_channel_start :: u16
  dg_channel_count :: u16
  dg_payload_kind :: payload_kind
  dg_sample_format :: sample_format
  dg_flags :: u8
  dg_payload :: bytes
  dg_recovered_fragments :: u16

record decoded_epoch =
  de_session_id :: u64
  de_config_generation :: u32
  de_epoch_id :: u64
  de_pts_samples :: u64
  de_sample_rate :: u32
  de_frame_count :: u32
  de_groups :: "decoded_group list"

definition raptorq_recovered_fragments :: "decoded_epoch \<Rightarrow> u32" where
  "raptorq_recovered_fragments e = sum_list (map (\<lambda>g. ucast (dg_recovered_fragments g)) (de_groups e))"

datatype session_error =
    SessionFec audio_fec_error
  | EpochMetadataMismatch u32 string
  | GroupMetadataMismatch u32 u16 string
  | NonContiguousGroupPayload u32 u16
  | IncompleteEpoch u32

section \<open>One group\<close>

record fragment =
  fr_offset :: u32
  fr_payload :: bytes

record group_assembly =
  ga_block_id :: u32
  ga_header :: shard_header
  ga_fragments :: "fragment option list"
  ga_recovered_fragments :: u16

definition group_assembly_new :: "u32 \<Rightarrow> shard_header \<Rightarrow> group_assembly" where
  "group_assembly_new b h =
     \<lparr>ga_block_id = b, ga_header = h, ga_fragments = replicate (unat (sh_fragment_count h)) None,
      ga_recovered_fragments = 0\<rparr>"

text \<open>The macro \<open>require_equal!\<close>: the first field that differs is the error.\<close>

fun first_mismatch :: "(string \<times> bool) list \<Rightarrow> string option" where
  "first_mismatch [] = None"
| "first_mismatch ((name, same) # rest) = (if same then first_mismatch rest else Some name)"

definition group_validate_header :: "group_assembly \<Rightarrow> shard_header \<Rightarrow> (session_error, unit) result" where
  "group_validate_header a h =
     (let g = ga_header a
      in case first_mismatch
           [(''group_id'', sh_group_id g = sh_group_id h),
            (''group_index'', sh_group_index g = sh_group_index h),
            (''channel_start'', sh_channel_start g = sh_channel_start h),
            (''channel_count'', sh_channel_count g = sh_channel_count h),
            (''payload_kind'', sh_payload_kind g = sh_payload_kind h),
            (''sample_format'', sh_sample_format g = sh_sample_format h),
            (''flags'', sh_flags g = sh_flags h),
            (''fragment_count'', sh_fragment_count g = sh_fragment_count h),
            (''group_payload_len'', sh_group_payload_len g = sh_group_payload_len h)] of
           Some field \<Rightarrow> Inl (GroupMetadataMismatch (ga_block_id a) (sh_group_index g) field)
         | None \<Rightarrow> Inr ())"

text \<open>The loop that joins the fragments in the order of their offsets.\<close>

primrec join_at :: "fragment list \<Rightarrow> bytes \<Rightarrow> bytes option" where
  "join_at [] payload = Some payload"
| "join_at (f # fs) payload =
     (if unat (fr_offset f) \<noteq> length payload then None else join_at fs (payload @ fr_payload f))"

definition group_of :: "group_assembly \<Rightarrow> bytes \<Rightarrow> decoded_group" where
  "group_of a payload =
     (let h = ga_header a
      in \<lparr>dg_session_id = sh_session_id h, dg_config_generation = sh_config_generation h,
          dg_epoch_id = sh_epoch_id h, dg_pts_samples = sh_pts_samples h, dg_sample_rate = sh_sample_rate h,
          dg_frame_count = sh_frame_count h, dg_group_count = sh_group_count h, dg_group_id = sh_group_id h,
          dg_group_index = sh_group_index h, dg_channel_start = sh_channel_start h,
          dg_channel_count = sh_channel_count h, dg_payload_kind = sh_payload_kind h,
          dg_sample_format = sh_sample_format h, dg_flags = sh_flags h, dg_payload = payload,
          dg_recovered_fragments = ga_recovered_fragments a\<rparr>)"

definition group_push ::
    "group_assembly \<Rightarrow> decoded_shard \<Rightarrow> group_assembly \<times> (session_error, decoded_group option) result" where
  "group_push a shard =
     (case group_validate_header a (dsh_header shard) of
        Inl err \<Rightarrow> (a, Inl err)
      | Inr _ \<Rightarrow>
          (let i = unat (sh_fragment_index (dsh_header shard))
           in if ga_fragments a ! i \<noteq> None then (a, Inr None)
              else
                (let recovered = (if dsh_recovery shard = Recovered then sat_add (ga_recovered_fragments a) 1
                                  else ga_recovered_fragments a);
                     a1 = a\<lparr>ga_recovered_fragments := recovered,
                            ga_fragments := (ga_fragments a)[i := Some
                              \<lparr>fr_offset = sh_payload_offset (dsh_header shard), fr_payload = dsh_payload shard\<rparr>]\<rparr>
                 in if \<exists>f \<in> set (ga_fragments a1). f = None then (a1, Inr None)
                    else
                      (case join_at (sort_key fr_offset (List.map_filter id (ga_fragments a1))) [] of
                         None \<Rightarrow>
                           (a1, Inl (NonContiguousGroupPayload (dsh_block_id shard) (sh_group_index (ga_header a1))))
                       | Some payload \<Rightarrow>
                           if length payload \<noteq> unat (sh_group_payload_len (ga_header a1)) then
                             (a1, Inl (NonContiguousGroupPayload (dsh_block_id shard) (sh_group_index (ga_header a1))))
                           else (a1, Inr (Some (group_of a1 payload)))))))"

section \<open>One epoch\<close>

record epoch_assembly =
  ea_block_id :: u32
  ea_session_id :: u64
  ea_config_generation :: u32
  ea_epoch_id :: u64
  ea_pts_samples :: u64
  ea_sample_rate :: u32
  ea_frame_count :: u32
  ea_group_count :: u16
  ea_source_count :: u16
  ea_groups :: "decoded_group option list"
  ea_partial_groups :: "u16 \<rightharpoonup> group_assembly"

definition epoch_assembly_new :: "u32 \<Rightarrow> shard_header \<Rightarrow> epoch_assembly" where
  "epoch_assembly_new b h =
     \<lparr>ea_block_id = b, ea_session_id = sh_session_id h, ea_config_generation = sh_config_generation h,
      ea_epoch_id = sh_epoch_id h, ea_pts_samples = sh_pts_samples h, ea_sample_rate = sh_sample_rate h,
      ea_frame_count = sh_frame_count h, ea_group_count = sh_group_count h, ea_source_count = sh_source_count h,
      ea_groups = replicate (unat (sh_group_count h)) None, ea_partial_groups = (\<lambda>_. None)\<rparr>"

definition epoch_validate_header :: "epoch_assembly \<Rightarrow> shard_header \<Rightarrow> (session_error, unit) result" where
  "epoch_validate_header a h =
     (case first_mismatch
        [(''session_id'', ea_session_id a = sh_session_id h),
         (''config_generation'', ea_config_generation a = sh_config_generation h),
         (''epoch_id'', ea_epoch_id a = sh_epoch_id h),
         (''pts_samples'', ea_pts_samples a = sh_pts_samples h),
         (''sample_rate'', ea_sample_rate a = sh_sample_rate h),
         (''frame_count'', ea_frame_count a = sh_frame_count h),
         (''group_count'', ea_group_count a = sh_group_count h),
         (''source_count'', ea_source_count a = sh_source_count h)] of
        Some field \<Rightarrow> Inl (EpochMetadataMismatch (ea_block_id a) field)
      | None \<Rightarrow> Inr ())"

definition epoch_push ::
    "epoch_assembly \<Rightarrow> decoded_shard \<Rightarrow> epoch_assembly \<times> (session_error, decoded_group option) result" where
  "epoch_push a shard =
     (case epoch_validate_header a (dsh_header shard) of
        Inl err \<Rightarrow> (a, Inl err)
      | Inr _ \<Rightarrow>
          (let index = sh_group_index (dsh_header shard)
           in if ea_groups a ! unat index \<noteq> None then (a, Inr None)
              else
                (let grp = (case ea_partial_groups a index of
                              Some g \<Rightarrow> g
                            | None \<Rightarrow> group_assembly_new (ea_block_id a) (dsh_header shard))
                 in case group_push grp shard of
                      (grp1, Inl err) \<Rightarrow>
                        (a\<lparr>ea_partial_groups := (ea_partial_groups a)(index \<mapsto> grp1)\<rparr>, Inl err)
                    | (grp1, Inr None) \<Rightarrow>
                        (a\<lparr>ea_partial_groups := (ea_partial_groups a)(index \<mapsto> grp1)\<rparr>, Inr None)
                    | (grp1, Inr (Some completed)) \<Rightarrow>
                        (a\<lparr>ea_partial_groups := (ea_partial_groups a)(index := None),
                           ea_groups := (ea_groups a)[unat index := Some completed]\<rparr>,
                         Inr (Some completed)))))"

definition epoch_is_complete :: "epoch_assembly \<Rightarrow> bool" where
  "epoch_is_complete a = (\<forall>g \<in> set (ea_groups a). g \<noteq> None)"

definition epoch_finish :: "epoch_assembly \<Rightarrow> (session_error, decoded_epoch) result" where
  "epoch_finish a =
     (if \<exists>g \<in> set (ea_groups a). g = None then Inl (IncompleteEpoch (ea_block_id a))
      else Inr \<lparr>de_session_id = ea_session_id a, de_config_generation = ea_config_generation a,
                de_epoch_id = ea_epoch_id a, de_pts_samples = ea_pts_samples a, de_sample_rate = ea_sample_rate a,
                de_frame_count = ea_frame_count a, de_groups = List.map_filter id (ea_groups a)\<rparr>)"

end
