(* ===== verification/Audio_Symbols.thy ===== *)
theory Audio_Symbols
  imports Audio_Encoder
begin

text \<open>
  The object that \<open>encode_epoch\<close> hands to the block encoder: one self-describing symbol per fragment, in
  the order of the groups. For a valid epoch within the budgets the preparation succeeds, and every
  symbol decodes to the header and payload of its fragment.
\<close>

section \<open>The shards of an epoch\<close>

definition group_shards ::
    "audio_epoch \<Rightarrow> audio_geometry \<Rightarrow> nat \<times> audio_group \<Rightarrow> nat \<Rightarrow> (shard_header \<times> bytes) list" where
  "group_shards ep geo grp j =
     map (\<lambda>i. (shard_header_of ep geo grp (div_ceil (group_len (snd grp)) (ag_fragment_payload geo)) i (j + i),
               fragment_payload_of (snd grp) (ag_fragment_payload geo) i))
       [0..<div_ceil (group_len (snd grp)) (ag_fragment_payload geo)]"

primrec shards_from :: "audio_epoch \<Rightarrow> audio_geometry \<Rightarrow> nat \<Rightarrow> (nat \<times> audio_group) list \<Rightarrow> (shard_header \<times> bytes) list" where
  "shards_from ep geo j [] = []"
| "shards_from ep geo j (grp # rest) =
     group_shards ep geo grp j @
     shards_from ep geo (j + div_ceil (group_len (snd grp)) (ag_fragment_payload geo)) rest"

definition epoch_shards :: "audio_epoch \<Rightarrow> audio_geometry \<Rightarrow> (shard_header \<times> bytes) list" where
  "epoch_shards ep geo = shards_from ep geo 0 (enumerate 0 (ep_groups ep))"

definition shard_symbol :: "nat \<Rightarrow> shard_header \<times> bytes \<Rightarrow> bytes" where
  "shard_symbol s x = shard_wire (fst x) @ snd x @ replicate (s - 72 - length (snd x)) 0"

definition shard_fits :: "nat \<Rightarrow> shard_header \<times> bytes \<Rightarrow> bool" where
  "shard_fits s x \<longleftrightarrow> shard_validate (fst x) s = Inr () \<and> length (snd x) = unat (sh_payload_len (fst x))"

lemma shard_fits_len: "shard_fits s x \<Longrightarrow> 72 + length (snd x) \<le> s"
  by (simp add: shard_fits_def shard_validate_ok)

lemma length_shard_symbol: "shard_fits s x \<Longrightarrow> length (shard_symbol s x) = s"
  using shard_fits_len [of s x] by (simp add: shard_symbol_def)

lemma length_group_shards [simp]:
  "length (group_shards ep geo grp j) = div_ceil (group_len (snd grp)) (ag_fragment_payload geo)"
  by (simp add: group_shards_def)

lemma length_shards_from: "length (shards_from ep geo j gs) = symbols_needed (ag_fragment_payload geo) (map snd gs)"
  by (induction gs arbitrary: j) simp_all

lemma length_epoch_shards: "length (epoch_shards ep geo) = symbols_needed (ag_fragment_payload geo) (ep_groups ep)"
  by (simp add: epoch_shards_def length_shards_from)

section \<open>Writing one fragment after the other\<close>

lemma write_fragment_ok:
  assumes pre: "length pre = j * unat (ag_symbol_size geo)"
    and rest: "unat (ag_symbol_size geo) \<le> length rest" "take (unat (ag_symbol_size geo)) rest = replicate (unat (ag_symbol_size geo)) 0"
    and fit: "shard_fits (unat (ag_symbol_size geo))
      (shard_header_of ep geo grp n i j, fragment_payload_of (snd grp) (ag_fragment_payload geo) i)"
  shows "write_fragment ep geo grp n i (pre @ rest, j) =
    Inr (pre @ shard_symbol (unat (ag_symbol_size geo))
      (shard_header_of ep geo grp n i j, fragment_payload_of (snd grp) (ag_fragment_payload geo) i) @
      drop (unat (ag_symbol_size geo)) rest, Suc j)"
proof -
  let ?s = "unat (ag_symbol_size geo)" and ?h = "shard_header_of ep geo grp n i j"
    and ?p = "fragment_payload_of (snd grp) (ag_fragment_payload geo) i"
  have slice: "sub_slice (pre @ rest) (j * ?s) (j * ?s + ?s) = replicate ?s 0"
    using pre rest by (simp add: sub_slice_def)
  have ok: "shard_validate ?h ?s = Inr ()" and len: "72 + length ?p \<le> ?s"
    using fit shard_fits_len [OF fit] by (simp_all add: shard_fits_def)
  have enc: "shard_encode ?h (replicate ?s 0) = Inr (shard_wire ?h @ replicate (?s - 72) 0)"
    using ok len by (simp add: shard_encode_eq)
  have sym: "put SHARD_HEADER_LEN ?p (shard_wire ?h @ replicate (?s - 72) 0) = shard_symbol ?s (?h, ?p)"
    using len by (simp add: put_def shard_symbol_def SHARD_HEADER_LEN_def)
  have "put (j * ?s) (shard_symbol ?s (?h, ?p)) (pre @ rest) = pre @ shard_symbol ?s (?h, ?p) @ drop ?s rest"
    using pre length_shard_symbol [OF fit] by (simp add: put_def)
  then show ?thesis by (simp add: write_fragment_def Let_def slice enc sym)
qed

abbreviation fragment_shard ::
    "audio_epoch \<Rightarrow> audio_geometry \<Rightarrow> nat \<times> audio_group \<Rightarrow> nat \<Rightarrow> nat \<times> nat \<Rightarrow> shard_header \<times> bytes" where
  "fragment_shard ep geo grp n x \<equiv>
     (shard_header_of ep geo grp n (fst x) (snd x), fragment_payload_of (snd grp) (ag_fragment_payload geo) (fst x))"

lemma write_fragments_ok:
  assumes "length pre = j * unat (ag_symbol_size geo)"
    and "length is * unat (ag_symbol_size geo) \<le> z"
    and "\<forall>x \<in> set (zip is [j..<j + length is]). shard_fits (unat (ag_symbol_size geo)) (fragment_shard ep geo grp n x)"
  shows "write_fragments ep geo grp n is (pre @ replicate z 0, j) =
    Inr (pre @ concat (map (\<lambda>x. shard_symbol (unat (ag_symbol_size geo)) (fragment_shard ep geo grp n x))
        (zip is [j..<j + length is])) @ replicate (z - length is * unat (ag_symbol_size geo)) 0, j + length is)"
  using assms
proof (induction "is" arbitrary: pre j z)
  case (Cons i rest)
  let ?s = "unat (ag_symbol_size geo)" and ?sh = "fragment_shard ep geo grp n (i, j)"
  have zip: "zip (i # rest) [j..<j + length (i # rest)] = (i, j) # zip rest [Suc j..<Suc j + length rest]"
    by (simp add: upt_conv_Cons del: upt_Suc)
  have fit: "shard_fits ?s ?sh" using Cons.prems(3) unfolding zip by simp
  have z: "?s + length rest * ?s \<le> z" using Cons.prems(2) by simp
  have one: "write_fragment ep geo grp n i (pre @ replicate z 0, j) =
      Inr ((pre @ shard_symbol ?s ?sh) @ replicate (z - ?s) 0, Suc j)"
    using write_fragment_ok [OF Cons.prems(1) _ _ fit [simplified], of "replicate z 0"] z by simp
  have "write_fragments ep geo grp n rest ((pre @ shard_symbol ?s ?sh) @ replicate (z - ?s) 0, Suc j) =
      Inr ((pre @ shard_symbol ?s ?sh) @ concat (map (\<lambda>x. shard_symbol ?s (fragment_shard ep geo grp n x))
        (zip rest [Suc j..<Suc j + length rest])) @ replicate (z - ?s - length rest * ?s) 0, Suc j + length rest)"
  proof (rule Cons.IH)
    show "length (pre @ shard_symbol ?s ?sh) = Suc j * ?s"
      using Cons.prems(1) length_shard_symbol [OF fit] by simp
    show "length rest * ?s \<le> z - ?s" using z by simp
    show "\<forall>x \<in> set (zip rest [Suc j..<Suc j + length rest]). shard_fits ?s (fragment_shard ep geo grp n x)"
      using Cons.prems(3) unfolding zip by simp
  qed
  then show ?case
    using one unfolding zip by (simp add: diff_diff_left add.commute del: upt_Suc)
qed simp

lemma group_shards_zip:
  "group_shards ep geo grp j =
     (let n = div_ceil (group_len (snd grp)) (ag_fragment_payload geo)
      in map (fragment_shard ep geo grp n) (zip [0..<n] [j..<j + n]))"
  unfolding group_shards_def Let_def by (rule nth_equalityI) simp_all

lemma length_concat_const: "\<forall>x \<in> set xs. length (f x) = s \<Longrightarrow> length (concat (map f xs)) = length xs * s"
  by (induction xs) simp_all

lemma write_groups_ok:
  assumes "length pre = j * unat (ag_symbol_size geo)"
    and "symbols_needed (ag_fragment_payload geo) (map snd gs) * unat (ag_symbol_size geo) = z"
    and "\<And>g. g \<in> set gs \<Longrightarrow> div_ceil (group_len (snd g)) (ag_fragment_payload geo) \<le> 65535"
    and "\<forall>x \<in> set (shards_from ep geo j gs). shard_fits (unat (ag_symbol_size geo)) x"
  shows "\<exists>j'. write_groups ep geo gs (pre @ replicate z 0, j) =
    Inr (pre @ concat (map (shard_symbol (unat (ag_symbol_size geo))) (shards_from ep geo j gs)), j')"
  using assms
proof (induction gs arbitrary: pre j z)
  case (Cons grp rest)
  let ?s = "unat (ag_symbol_size geo)" and ?fp = "ag_fragment_payload geo"
  let ?n = "div_ceil (group_len (snd grp)) ?fp"
  let ?z = "symbols_needed ?fp (map snd rest) * ?s"
  let ?now = "concat (map (shard_symbol ?s) (group_shards ep geo grp j))"
  have z: "z = ?n * ?s + ?z" using Cons.prems(2) by (simp add: distrib_right)
  have fit: "\<forall>x \<in> set (zip [0..<?n] [j..<j + length [0..<?n]]). shard_fits ?s (fragment_shard ep geo grp ?n x)"
    using Cons.prems(4) by (simp add: group_shards_zip Let_def)
  have "length [0..<?n] * ?s \<le> z" using z by simp
  from write_fragments_ok [OF Cons.prems(1) this fit]
  have frag: "write_fragments ep geo grp ?n [0..<?n] (pre @ replicate z 0, j) = Inr ((pre @ ?now) @ replicate ?z 0, j + ?n)"
    using z by (simp add: group_shards_zip Let_def comp_def)
  have len: "length (pre @ ?now) = (j + ?n) * ?s"
  proof -
    have "length ?now = length (group_shards ep geo grp j) * ?s"
      using Cons.prems(4) length_shard_symbol by (intro length_concat_const) simp
    then show ?thesis using Cons.prems(1) by (simp add: distrib_right)
  qed
  obtain j' where "write_groups ep geo rest ((pre @ ?now) @ replicate ?z 0, j + ?n) =
      Inr ((pre @ ?now) @ concat (map (shard_symbol ?s) (shards_from ep geo (j + ?n) rest)), j')"
    using Cons.IH [OF len refl] Cons.prems(3,4) by auto
  then show ?case using frag Cons.prems(3) [of grp] by (simp add: Let_def not_less)
qed simp

section \<open>Valid epochs\<close>

definition valid_epoch :: "audio_epoch \<Rightarrow> bool" where
  "valid_epoch ep \<longleftrightarrow>
     ep_frame_count ep \<noteq> 0 \<and> ep_sample_rate ep \<noteq> 0 \<and> ep_groups ep \<noteq> [] \<and> length (ep_groups ep) \<le> 65535 \<and>
     (\<forall>g \<in> set (ep_groups ep). validate_group g = Inr () \<and> length (gp_payload g) \<le> U32_MAX)"

lemma check_groups_ok:
  "check_groups gs = Inr () \<longleftrightarrow> (\<forall>g \<in> set gs. validate_group g = Inr () \<and> length (gp_payload g) \<le> U32_MAX)"
  by (induction gs) (auto simp: rbind_eq_Inr check_group_def not_less split: if_splits)

lemma validate_group_ok:
  "validate_group g = Inr () \<longleftrightarrow> gp_channel_count g \<noteq> 0 \<and>
     \<not> (gp_payload_kind g = Pcm \<and> gp_sample_format g = Unspecified) \<and>
     \<not> (gp_payload_kind g = Flac \<and> gp_sample_format g = Unspecified)"
  by (auto simp: validate_group_def)

lemma unat_of_nat_16: "n \<le> 65535 \<Longrightarrow> unat (of_nat n :: u16) = n"
  by (simp add: unat_of_nat take_bit_nat_eq_self)

lemma unat_of_nat_32: "n \<le> U32_MAX \<Longrightarrow> unat (of_nat n :: u32) = n"
  by (simp add: unat_of_nat take_bit_nat_eq_self U32_MAX_def)

lemma fragment_range:
  assumes "0 < fp" "i < div_ceil (group_len g) fp"
  shows "i * fp + length (fragment_payload_of g fp i) \<le> length (gp_payload g)"
    "length (fragment_payload_of g fp i) \<le> fp" "i * fp \<le> length (gp_payload g)"
proof -
  have "i * fp < group_len g" using div_ceil_lower [OF assms] .
  then have le: "i * fp \<le> length (gp_payload g)" by (auto simp: group_len_def max_def split: if_splits)
  then show "i * fp \<le> length (gp_payload g)" .
  show "i * fp + length (fragment_payload_of g fp i) \<le> length (gp_payload g)"
    using le by (auto simp: fragment_payload_of_def Let_def)
  show "length (fragment_payload_of g fp i) \<le> fp" by (auto simp: fragment_payload_of_def Let_def)
qed

lemma shards_from_nth:
  "k < length (shards_from ep geo j gs) \<Longrightarrow>
   \<exists>grp \<in> set gs. \<exists>i < div_ceil (group_len (snd grp)) (ag_fragment_payload geo).
     shards_from ep geo j gs ! k =
       fragment_shard ep geo grp (div_ceil (group_len (snd grp)) (ag_fragment_payload geo)) (i, j + k)"
proof (induction gs arbitrary: j k)
  case (Cons grp rest)
  let ?n = "div_ceil (group_len (snd grp)) (ag_fragment_payload geo)"
  show ?case
  proof (cases "k < ?n")
    case True
    then show ?thesis by (auto simp: nth_append group_shards_def)
  next
    case False
    then have "k - ?n < length (shards_from ep geo (j + ?n) rest)" using Cons.prems by simp
    from Cons.IH [OF this] show ?thesis using False by (auto simp: nth_append)
  qed
qed simp

lemma in_enumerate: "x \<in> set (enumerate 0 xs) \<Longrightarrow> fst x < length xs \<and> snd x \<in> set xs"
  by (auto simp: in_set_enumerate_eq) (metis nth_mem)

lemma shard_fits_epoch:
  assumes ep: "valid_epoch ep" and mp: "max_fragment_payload c = Inr mp"
    and geo: "geometry_for_groups c (ep_groups ep) = Inr geo" and k: "k < length (epoch_shards ep geo)"
  shows "shard_fits (unat (ag_symbol_size geo)) (epoch_shards ep geo ! k)"
    "sh_source_index (fst (epoch_shards ep geo ! k)) = of_nat k"
    "sh_source_count (fst (epoch_shards ep geo ! k)) = ag_source_symbols geo"
proof -
  let ?fp = "ag_fragment_payload geo" and ?K = "symbols_needed (ag_fragment_payload geo) (ep_groups ep)"
  note g = geometry_Inr [OF geo mp]
  have K: "?K \<le> 65535" "k < ?K"
    using g(7) unsigned_less [of "ac_max_source_symbols c", where ?'a = nat] k by (simp_all add: length_epoch_shards)
  obtain grp i where grp: "grp \<in> set (enumerate 0 (ep_groups ep))" and i: "i < div_ceil (group_len (snd grp)) ?fp"
    and nth: "epoch_shards ep geo ! k = fragment_shard ep geo grp (div_ceil (group_len (snd grp)) ?fp) (i, k)"
    using shards_from_nth [of k ep geo 0 "enumerate 0 (ep_groups ep)"] k unfolding epoch_shards_def by auto
  have idx: "fst grp < length (ep_groups ep)" "snd grp \<in> set (ep_groups ep)" using in_enumerate [OF grp] by simp_all
  have n: "div_ceil (group_len (snd grp)) ?fp \<le> 65535" using group_symbols_le [OF idx(2), of ?fp] K(1) by linarith
  have groups: "length (ep_groups ep) \<le> 65535" "validate_group (snd grp) = Inr ()" "length (gp_payload (snd grp)) \<le> U32_MAX"
    using ep idx by (simp_all add: valid_epoch_def)
  note range = fragment_range [OF g(2) i]
  have fp: "?fp + 72 \<le> 65535" using g(3) mp by (simp add: max_fragment_payload_Inr)
  have len: "unat (of_nat (length (fragment_payload_of (snd grp) ?fp i)) :: u16) = length (fragment_payload_of (snd grp) ?fp i)"
    using range(2) fp by (intro unat_of_nat_16) linarith
  have off: "unat (of_nat (i * ?fp) :: u32) = i * ?fp" "unat (of_nat (length (gp_payload (snd grp))) :: u32) = length (gp_payload (snd grp))"
    using range(3) groups(3) by (intro unat_of_nat_32; linarith)+
  have ltw: "a < b \<Longrightarrow> b \<le> 65535 \<Longrightarrow> (of_nat a :: u16) < of_nat b" for a b :: nat
    by (simp add: word_less_nat_alt unat_of_nat_16)
  have less: "(of_nat (fst grp) :: u16) < of_nat (length (ep_groups ep))"
      "(of_nat i :: u16) < of_nat (div_ceil (group_len (snd grp)) ?fp)" "of_nat k < ag_source_symbols geo"
    using ltw [OF idx(1) groups(1)] ltw [OF i n] K g(5) by (simp_all add: word_less_nat_alt unat_of_nat_16)
  have sym: "72 + length (fragment_payload_of (snd grp) ?fp i) \<le> unat (ag_symbol_size geo)"
    unfolding g(4) using range(2) by simp
  show "shard_fits (unat (ag_symbol_size geo)) (epoch_shards ep geo ! k)"
    unfolding nth shard_fits_def shard_validate_ok shard_header_of_def fst_conv snd_conv shard_header.simps len off
    using ep groups(2) less range(1) sym by (auto simp: valid_epoch_def validate_group_ok)
  show "sh_source_index (fst (epoch_shards ep geo ! k)) = of_nat k"
    "sh_source_count (fst (epoch_shards ep geo ! k)) = ag_source_symbols geo"
    by (simp_all add: nth shard_header_of_def)
qed

lemma shards_fit_all:
  assumes "valid_epoch ep" "max_fragment_payload c = Inr mp" "geometry_for_groups c (ep_groups ep) = Inr geo"
  shows "\<forall>x \<in> set (epoch_shards ep geo). shard_fits (unat (ag_symbol_size geo)) x"
  using shard_fits_epoch(1) [OF assms] by (simp add: all_set_conv_all_nth)

text \<open>Preparation succeeds for every valid epoch that the budgets admit, and writes the symbols.\<close>

definition epoch_object :: "audio_epoch \<Rightarrow> audio_geometry \<Rightarrow> bytes" where
  "epoch_object ep geo = concat (map (shard_symbol (unat (ag_symbol_size geo))) (epoch_shards ep geo))"

lemma prepare_epoch_ok:
  assumes ep: "valid_epoch ep" and mp: "max_fragment_payload c = Inr mp"
    and geo: "geometry_for_groups c (ep_groups ep) = Inr geo"
  shows "prepare_epoch c ep = Inr (geo, epoch_object ep geo)"
proof -
  let ?s = "unat (ag_symbol_size geo)" and ?gs = "enumerate 0 (ep_groups ep)"
  note g = geometry_Inr [OF geo mp]
  have fit: "\<forall>x \<in> set (shards_from ep geo 0 ?gs). shard_fits ?s x"
    using shards_fit_all [OF ep mp geo] by (simp add: epoch_shards_def)
  have n: "div_ceil (group_len (snd x)) (ag_fragment_payload geo) \<le> 65535" if "x \<in> set ?gs" for x
  proof -
    have "snd x \<in> set (ep_groups ep)" using in_enumerate [OF that] by simp
    then show ?thesis
      using group_symbols_le [of "snd x" "ep_groups ep" "ag_fragment_payload geo"] g(7)
        unsigned_less [of "ac_max_source_symbols c", where ?'a = nat] by simp
  qed
  have "symbols_needed (ag_fragment_payload geo) (map snd ?gs) * ?s = unat (ag_source_symbols geo) * ?s"
    by (simp add: g(5))
  from write_groups_ok [where pre = "[]" and j = 0, OF _ this n fit]
  obtain j' where "write_groups ep geo ?gs (replicate (unat (ag_source_symbols geo) * ?s) 0, 0) =
      Inr (epoch_object ep geo, j')"
    by (auto simp: epoch_object_def epoch_shards_def)
  moreover have "check_groups (ep_groups ep) = Inr ()" using ep by (simp add: valid_epoch_def check_groups_ok)
  ultimately show ?thesis using ep geo by (auto simp: prepare_epoch_def valid_epoch_def not_less)
qed

lemma length_epoch_object:
  assumes ep: "valid_epoch ep" and mp: "max_fragment_payload c = Inr mp"
    and geo: "geometry_for_groups c (ep_groups ep) = Inr geo"
  shows "length (epoch_object ep geo) = unat (ag_source_symbols geo) * unat (ag_symbol_size geo)"
proof -
  have "\<forall>x \<in> set (epoch_shards ep geo). length (shard_symbol (unat (ag_symbol_size geo)) x) = unat (ag_symbol_size geo)"
    using shards_fit_all [OF assms] length_shard_symbol by blast
  then show ?thesis
    unfolding epoch_object_def using length_concat_const [of "epoch_shards ep geo"]
    by (simp add: length_epoch_shards geometry_Inr(5) [OF geo mp])
qed

end
