(* ===== verification/Audio_Transfer.thy ===== *)
theory Audio_Transfer
  imports Audio_Symbols Audio_Decoder
begin

text \<open>
  An audio epoch on the link: the datagrams that \<open>encode_epoch\<close> produces for a valid epoch, and what any
  selection of them makes the decoder deliver. The codec is assumed to be systematic besides lawful:
  the packet of a source symbol carries the symbol itself.
\<close>

section \<open>Systematic codecs\<close>

definition systematic :: "('e, 'd) raptorq \<Rightarrow> bool" where
  "systematic rq \<longleftrightarrow> (\<forall>data s i. block_data data s \<longrightarrow> i < block_symbols data s \<longrightarrow>
     pkt_data (block_packet rq data s i) = pad_symbol data (unat s) i)"

lemma max_one: "0 < unat (w :: u16) \<Longrightarrow> max w 1 = w"
  by (auto simp: max_def word_le_nat_alt word_unat_eq_iff)

lemma rep_codec_systematic: "systematic rep_codec"
  unfolding systematic_def
proof (intro allI impI)
  fix data :: bytes and s :: u16 and i :: nat
  assume bd: "block_data data s" and i: "i < block_symbols data s"
  have s: "max s 1 = s" using bd by (simp add: block_data_def max_one)
  then show "pkt_data (block_packet rep_codec data s i) = pad_symbol data (unat s) i"
    using i by (simp add: block_packet_def block_encoder_def block_symbols_def exact_one_block_oti_def rep_packet_def Let_def)
qed

section \<open>The block of an epoch\<close>

text \<open>Budgets that the codec can serve: at most \<open>56403\<close> source symbols and 24-bit symbol ids.\<close>

definition audio_sendable :: "audio_config \<Rightarrow> audio_epoch \<Rightarrow> audio_geometry \<Rightarrow> bool" where
  "audio_sendable c ep geo \<longleftrightarrow>
     valid_epoch ep \<and> (\<exists>mp. max_fragment_payload c = Inr mp) \<and> geometry_for_groups c (ep_groups ep) = Inr geo \<and>
     unat (ac_max_source_symbols c) \<le> 56403 \<and> unat (ac_repair_symbols c) \<le> 2 ^ 24 - 56403"

lemma sendable_block:
  assumes "audio_sendable c ep geo"
  defines "s \<equiv> ag_symbol_size geo" and "K \<equiv> unat (ag_source_symbols geo)" and "data \<equiv> epoch_object ep geo"
  shows "block_data data s" "block_symbols data s = K" "0 < K" "K + unat (ac_repair_symbols c) \<le> 2 ^ 24"
    "length data = K * unat s" "length (epoch_shards ep geo) = K" "0 < unat s"
    "36 + unat s + 8 + ac_transport_overhead c \<le> ac_max_datagram_size c" "K \<le> 56403"
proof -
  obtain mp where mp: "max_fragment_payload c = Inr mp" and ep: "valid_epoch ep"
    and geo: "geometry_for_groups c (ep_groups ep) = Inr geo"
    and bounds: "unat (ac_max_source_symbols c) \<le> 56403" "unat (ac_repair_symbols c) \<le> 2 ^ 24 - 56403"
    using assms(1) by (auto simp: audio_sendable_def)
  note g = geometry_Inr [OF geo mp]
  show K: "0 < K" "K \<le> 56403" using g(5-7) bounds by (simp_all add: K_def)
  show s: "0 < unat s" using g(4) by (simp add: s_def)
  show len: "length data = K * unat s"
    using length_epoch_object [OF ep mp geo] by (simp add: data_def K_def s_def)
  show syms: "block_symbols data s = K" using s by (simp add: block_symbols_def len)
  have "unat s \<le> 65535" using unsigned_less [of s, where ?'a = nat] by simp
  then have "K * unat s \<le> 56403 * 65535" using K by (intro mult_le_mono)
  then show "block_data data s" using K s syms by (simp add: block_data_def len U32_MAX_def)
  show "K + unat (ac_repair_symbols c) \<le> 2 ^ 24" using K bounds by simp
  show "length (epoch_shards ep geo) = K" using g(5) by (simp add: length_epoch_shards K_def)
  show "36 + unat s + 8 + ac_transport_overhead c \<le> ac_max_datagram_size c"
    using g(3,4) mp by (simp add: s_def max_fragment_payload_Inr)
qed

lemma encode_epoch_block:
  assumes lawful: "rq_lawful rq" and send: "audio_sendable c ep geo"
  defines "s \<equiv> ag_symbol_size geo" and "K \<equiv> unat (ag_source_symbols geo)" and "data \<equiv> epoch_object ep geo"
  shows "\<exists>fec'. encode_block_with_repair_symbols crc rq
      (set_symbol_size s (set_source_symbols (ag_source_symbols geo) fec)) data (ac_repair_symbols c) =
    (fec', Inr (map (\<lambda>j. sent crc rq (enc_block_id fec) data s (enc_packet_sequence fec + of_nat j, j))
       [0..<K + unat (ac_repair_symbols c)])) \<and> enc_block_id fec' = enc_block_id fec + 1"
proof -
  note blk = sendable_block [OF send, folded s_def K_def data_def]
  let ?fec = "set_symbol_size s (set_source_symbols (ag_source_symbols geo) fec)"
  have max: "max s 1 = s" "max (ag_source_symbols geo) 1 = ag_source_symbols geo"
    using blk(3,7) by (simp_all add: max_one K_def)
  have cfg: "cfg_symbol_size (enc_config ?fec) = s" "enc_block_id ?fec = enc_block_id fec"
      "enc_packet_sequence ?fec = enc_packet_sequence fec" "max_payload_len (enc_config ?fec) = K * unat s"
    by (simp_all add: set_symbol_size_def set_source_symbols_def max max_payload_len_def K_def)
  have "length data \<le> U32_MAX" using blk(1) by (simp add: block_data_def)
  then have "encode_block_with_repair_symbols crc rq ?fec data (ac_repair_symbols c) =
      drop_pool (encode_one_block_with_optional_pool crc rq ?fec data (ac_repair_symbols c) None)"
    by (simp add: encode_block_with_repair_symbols_def cfg blk(5))
  also have "\<dots> = (?fec\<lparr>enc_block_id := enc_block_id ?fec + 1,
       enc_packet_sequence := enc_packet_sequence ?fec + of_nat (K + unat (ac_repair_symbols c))\<rparr>,
     Inr (block_frames crc rq (enc_block_id ?fec) (enc_packet_sequence ?fec) data s [0..<K + unat (ac_repair_symbols c)]))"
    using encode_one_block_lawful [OF lawful, of data ?fec "ac_repair_symbols c" crc None, unfolded cfg(1) blk(2)]
      blk(1,4) by blast
  finally show ?thesis
    by (simp add: block_frames_sent cfg comp_def cong: map_cong)
qed

section \<open>Labelled datagrams\<close>

text \<open>The trailer: flag, session id and a new checksum; the packet and the geometry stay.\<close>

lemma flag_or:
  "and (or (1 :: u8) 2) 2 \<noteq> 0" "and (or (1 :: u8) 2) 1 \<noteq> 0" "and (or (1 :: u8) 2) (not 3) = 0"
  by simp_all

lemma attach_session:
  assumes acc: "accept_datagram crc x = Inr (h, p)" and fl: "packet_flags h = 1"
  shows "\<exists>h' y. attach_audio_session_id crc x sid = Inr y \<and> length y = length x + 8 \<and>
    accept_datagram crc y = Inr (h', p) \<and> hdr_block_id h' = hdr_block_id h \<and>
    hdr_transfer_length h' = hdr_transfer_length h \<and> hdr_source_symbols h' = hdr_source_symbols h \<and>
    hdr_symbol_size h' = hdr_symbol_size h \<and> packet_sequence h' = packet_sequence h \<and>
    header_audio_session_id crc h' y = Inr (Some sid)"
proof -
  define h1 where "h1 = h\<lparr>packet_flags := or (packet_flags h) DATAGRAM_FLAG_AUDIO_SESSION_ID\<rparr>"
  define body where "body = drop 32 x @ le64 sid"
  define h2 where "h2 = h1\<lparr>hdr_packet_crc32 := packet_crc32 crc (prefix_wire h1) body\<rparr>"
  have dec: "header_decode x = Inr h" and len: "length x = 32 + unat (payload_len h)"
    and p: "p = take (unat (payload_len h)) (drop 32 x)"
    using acc fl by (auto simp: accept_Inr payload_extension_len_def wire_consts)
  have valid: "validate_fields h = Inr ()" using header_decode_Inr(2) [OF dec] .
  have valid1: "validate_fields h1 = Inr ()" "validate_fields h2 = Inr ()"
    using valid fl flag_or by (simp_all add: validate_fields_ok h1_def h2_def wire_consts)
  have ext: "payload_extension_len h1 = 8" "payload_extension_len h2 = 8"
    using fl flag_or by (simp_all add: payload_extension_len_def h1_def h2_def wire_consts)
  have plen: "payload_len h1 = payload_len h" "payload_len h2 = payload_len h" by (simp_all add: h1_def h2_def)
  have pre: "prefix_wire h2 = prefix_wire h1" by (simp add: prefix_wire_def prefix_fields_def h2_def)
  have body: "drop HEADER_LEN (x @ le64 sid) = body" "take HEADER_LEN (x @ le64 sid) = take 32 x"
    "length body = unat (payload_len h) + 8"
    using len by (simp_all add: body_def HEADER_LEN_def)
  have crc: "compute_packet_crc32 crc h1 body = Inr (packet_crc32 crc (prefix_wire h1) body)"
    using valid1(1) by (simp add: compute_packet_crc32_def encode_prefix_eq ext plen body(3) HEADER_LEN_def)
  have enc: "header_encode h2 (take 32 x) = Inr (header_wire h2)"
    using valid1(2) len by (simp add: header_encode_eq)
  have y: "attach_audio_session_id crc x sid = Inr (header_wire h2 @ body)"
    unfolding attach_audio_session_id_def decode_header_def dec map_err_simps rbind_simps
      h1_def [symmetric] Let_def body(1,2) crc h2_def [symmetric] enc by simp
  have acc2: "accept_datagram crc (header_wire h2 @ body) = Inr (h2, p)"
    using valid1(2) len by (simp add: accept_Inr header_decode_wire ext plen body(3) pre p body_def) (simp add: h2_def body_def)
  have "header_payload crc h2 (header_wire h2 @ body) = Inr p" using accept_split [OF acc2] by simp
  moreover have "sub_slice (header_wire h2 @ body) (32 + unat (payload_len h)) (40 + unat (payload_len h)) = le64 sid"
    using len by (simp add: sub_slice_def body_def)
  moreover have "and (packet_flags h2) 2 \<noteq> 0" using fl by (simp add: h2_def h1_def wire_consts)
  ultimately have "header_audio_session_id crc h2 (header_wire h2 @ body) = Inr (Some sid)"
    by (simp add: header_audio_session_id_def wire_consts plen Let_def add.commute le_join_split)
  then show ?thesis
    using y acc2 body(3) len
    by (intro exI [of _ h2] exI [of _ "header_wire h2 @ body"]) (simp add: h2_def h1_def)
qed

text \<open>A datagram of the epoch: packet \<open>j\<close> of the block, labelled, routable and within the budget.\<close>

definition audio_packet ::
    "crc_fun \<Rightarrow> ('e, 'd) raptorq \<Rightarrow> audio_config \<Rightarrow> u64 \<Rightarrow> u32 \<Rightarrow> bytes \<Rightarrow> u16 \<Rightarrow> u32 \<Rightarrow> nat \<Rightarrow> audio_datagram \<Rightarrow> bool" where
  "audio_packet crc rq c sid b data s q j g \<longleftrightarrow>
     adg_block_id g = b \<and> adg_packet_sequence g = q \<and>
     adg_role g = (if j < block_symbols data s then SourceSymbol (of_nat j) else RepairSymbol (of_nat j)) \<and>
     length (adg_payload g) = 36 + unat s + (if j < block_symbols data s then 0 else 8) \<and>
     length (adg_payload g) + ac_transport_overhead c \<le> ac_max_datagram_size c \<and>
     (\<exists>h. carries crc rq b data s j h (adg_payload g) \<and> packet_sequence h = q \<and>
        (block_symbols data s \<le> j \<longrightarrow> header_audio_session_id crc h (adg_payload g) = Inr (Some sid)))"

lemma symbol_role_nat:
  assumes "j < 2 ^ 24"
  shows "symbol_role k (of_nat j) = (if j < unat k then SourceSymbol (of_nat j) else RepairSymbol (of_nat j))"
    "(of_nat j :: u32) < ucast k \<longleftrightarrow> j < unat k" "ucast (of_nat j :: u32) = (of_nat j :: u16)"
proof -
  have "unat (of_nat j :: u32) = j" using assms by (simp add: unat_of_nat take_bit_nat_eq_self)
  then show less: "(of_nat j :: u32) < ucast k \<longleftrightarrow> j < unat k" by (simp add: word_less_nat_alt)
  have "unat (ucast (of_nat j :: u32) :: u16) = unat (of_nat j :: u16)"
    by (simp add: unsigned_ucast_eq unsigned_of_nat take_bit_nat_eq_self)
  then show cast: "ucast (of_nat j :: u32) = (of_nat j :: u16)" by (simp only: word_unat_eq_iff)
  show "symbol_role k (of_nat j) = (if j < unat k then SourceSymbol (of_nat j) else RepairSymbol (of_nat j))"
    by (simp add: symbol_role_def less cast)
qed

lemma label_sent:
  assumes lawful: "rq_lawful rq" and bd: "block_data data s" and j: "j < 2 ^ 24"
    and k: "unat k = block_symbols data s"
    and budget: "36 + unat s + 8 + ac_transport_overhead c \<le> ac_max_datagram_size c"
  shows "\<exists>g. label_datagram crc rq c sid b k (sent crc rq b data s (q, j)) = Inr g \<and>
    audio_packet crc rq c sid b data s q j g"
proof -
  let ?x = "sent crc rq b data s (q, j)" and ?p = "rq_serialize rq (block_packet rq data s j)"
  let ?h = "framed_header crc b (of_nat (length data)) (of_nat (block_symbols data s)) s q ?p"
  have acc: "accept_datagram crc ?x = Inr (?h, ?p)" by (rule sent_accepted [OF lawful bd j])
  have parts: "decode_header ?x = Inr ?h" "header_payload crc ?h ?x = Inr ?p"
    using accept_split [OF acc] by (simp_all add: decode_header_def)
  note pk = lawful_serialize [OF lawful bd j]
  have len: "length ?x = 36 + unat s" using pk(2) by (simp add: sent_def frame_def)
  have role: "symbol_role k (pkt_symbol_id (rq_deserialize rq ?p)) =
      (if j < block_symbols data s then SourceSymbol (of_nat j) else RepairSymbol (of_nat j))"
    using pk(1,4) symbol_role_nat(1) [OF j, of k] k by simp
  show ?thesis
  proof (cases "j < block_symbols data s")
    case True
    have "label_datagram crc rq c sid b k ?x = Inr \<lparr>adg_block_id = b, adg_packet_sequence = q,
        adg_role = SourceSymbol (of_nat j), adg_payload = ?x\<rparr>"
      using budget True by (simp add: label_datagram_def parts role Let_def is_source_def len)
    then show ?thesis
      using budget True sent_carries [OF lawful bd j, of crc b q] by (auto simp: audio_packet_def len)
  next
    case False
    obtain h' y where att: "attach_audio_session_id crc ?x sid = Inr y" "length y = length ?x + 8"
      and y: "accept_datagram crc y = Inr (h', ?p)" "hdr_block_id h' = b"
        "hdr_transfer_length h' = of_nat (length data)" "hdr_source_symbols h' = of_nat (block_symbols data s)"
        "hdr_symbol_size h' = s" "packet_sequence h' = q" "header_audio_session_id crc h' y = Inr (Some sid)"
      using attach_session [OF acc, of sid] by auto
    have "label_datagram crc rq c sid b k ?x = Inr \<lparr>adg_block_id = b, adg_packet_sequence = q,
        adg_role = RepairSymbol (of_nat j), adg_payload = y\<rparr>"
      using budget False att len by (simp add: label_datagram_def parts role Let_def is_source_def)
    moreover have "carries crc rq b data s j h' y" using y by (simp add: carries_def)
    ultimately show ?thesis
      using budget False y att(2) len by (auto simp: audio_packet_def)
  qed
qed

lemma label_all:
  assumes "\<And>j. j \<in> set js \<Longrightarrow> label_datagram crc rq c sid b k (x j) = Inr (G j)"
    and "\<And>j. j \<in> set js \<Longrightarrow> is_source (adg_role (G j)) \<longleftrightarrow> j < K"
  shows "label_datagrams crc rq c sid b k (map x js) =
    Inr (map G (filter (\<lambda>j. j < K) js), map G (filter (\<lambda>j. \<not> j < K) js))"
  using assms by (induction js) simp_all

lemma filter_upt_less: "filter (\<lambda>j. j < K) [0..<K + R] = [0..<K]" "filter (\<lambda>j. \<not> j < K) [0..<K + R] = [K..<K + R]"
  by (induction R) simp_all

text \<open>The encoder's result for a sendable epoch.\<close>

lemma encode_epoch_lawful:
  assumes lawful: "rq_lawful rq" and send: "audio_sendable (ae_config e) ep geo"
  defines "s \<equiv> ag_symbol_size geo" and "K \<equiv> unat (ag_source_symbols geo)" and "data \<equiv> epoch_object ep geo"
    and "b \<equiv> enc_block_id (ae_fec e)" and "seq \<equiv> enc_packet_sequence (ae_fec e)"
    and "R \<equiv> unat (ac_repair_symbols (ae_config e))"
  shows "\<exists>e' enc. encode_epoch crc rq e ep = (e', Inr enc) \<and> length (ee_datagrams enc) = K + R \<and>
    (\<forall>j < K + R. audio_packet crc rq (ae_config e) (ep_session_id ep) b data s (seq + of_nat j) j (ee_datagrams enc ! j)) \<and>
    ee_block_id enc = b \<and> ee_pts_samples enc = ep_pts_samples ep \<and> ee_source_symbols enc = ag_source_symbols geo \<and>
    audio_block_id e' = b + 1"
proof -
  let ?c = "ae_config e" and ?sid = "ep_session_id ep"
  note blk = sendable_block [OF send, folded s_def K_def data_def]
  have prep: "prepare_epoch ?c ep = Inr (geo, data)"
    using send prepare_epoch_ok by (auto simp: audio_sendable_def data_def)
  obtain fec' where enc: "encode_block_with_repair_symbols crc rq
      (set_symbol_size s (set_source_symbols (ag_source_symbols geo) (ae_fec e))) data (ac_repair_symbols ?c) =
      (fec', Inr (map (\<lambda>j. sent crc rq b data s (seq + of_nat j, j)) [0..<K + R]))" "enc_block_id fec' = b + 1"
    using encode_epoch_block [OF lawful send, of crc "ae_fec e"] unfolding s_def K_def data_def b_def seq_def R_def by blast
  have small: "j < 2 ^ 24" if "j < K + R" for j using that blk(4) by (simp add: R_def)
  have k: "unat (ag_source_symbols geo) = block_symbols data s" using blk(2) by (simp add: K_def)
  have "\<forall>j. \<exists>g. j < K + R \<longrightarrow> label_datagram crc rq ?c ?sid b (ag_source_symbols geo)
        (sent crc rq b data s (seq + of_nat j, j)) = Inr g \<and>
      audio_packet crc rq ?c ?sid b data s (seq + of_nat j) j g"
    using label_sent [OF lawful blk(1) small k blk(8)] by blast
  then obtain G where G: "\<And>j. j < K + R \<Longrightarrow> label_datagram crc rq ?c ?sid b (ag_source_symbols geo)
        (sent crc rq b data s (seq + of_nat j, j)) = Inr (G j)"
      "\<And>j. j < K + R \<Longrightarrow> audio_packet crc rq ?c ?sid b data s (seq + of_nat j) j (G j)"
    by metis
  have src: "is_source (adg_role (G j)) \<longleftrightarrow> j < K" if "j < K + R" for j
    using G(2) [OF that] by (simp add: audio_packet_def blk(2) is_source_def)
  have "label_datagrams crc rq ?c ?sid b (ag_source_symbols geo)
      (map (\<lambda>j. sent crc rq b data s (seq + of_nat j, j)) [0..<K + R]) = Inr (map G [0..<K], map G [K..<K + R])"
    using label_all [of "[0..<K + R]" crc rq ?c ?sid b "ag_source_symbols geo" _ G K] G(1) src
    by (simp add: filter_upt_less)
  moreover have "sort_key source_key (map G [0..<K]) = map G [0..<K]"
  proof -
    have key: "source_key (G j) = of_nat j" if "j < K" for j
      using G(2) [of j] that by (simp add: audio_packet_def source_key_def blk(2))
    have "sorted (map source_key (map G [0..<K]))"
      using blk(9) by (auto simp: sorted_iff_nth_mono key word_le_nat_alt unat_of_nat_16)
    then show ?thesis by (rule sort_key_id_if_sorted)
  qed
  ultimately have "encode_epoch crc rq e ep = (e\<lparr>ae_fec := fec'\<rparr>, Inr
      \<lparr>ee_session_id = ?sid, ee_config_generation = ep_config_generation ep, ee_epoch_id = ep_epoch_id ep,
       ee_pts_samples = ep_pts_samples ep, ee_sample_rate = ep_sample_rate ep, ee_frame_count = ep_frame_count ep,
       ee_block_id = b, ee_source_symbols = ag_source_symbols geo, ee_repair_symbols = ac_repair_symbols ?c,
       ee_symbol_size = s, ee_datagrams = map G [0..<K] @ map G [K..<K + R]\<rparr>)"
    using enc by (simp add: encode_epoch_def prep Let_def s_def [symmetric] b_def)
  moreover have "map G [0..<K] @ map G [K..<K + R] = map G [0..<K + R]"
    by (simp add: upt_add_eq_append [of 0 K R, simplified])
  ultimately show ?thesis
    using G(2) enc(2) by (simp add: audio_block_id_def)
qed

section \<open>Reading a symbol back\<close>

lemma drop_concat_const:
  "\<forall>x \<in> set xs. length (f x) = s \<Longrightarrow> i \<le> length xs \<Longrightarrow> drop (i * s) (concat (map f xs)) = concat (map f (drop i xs))"
proof (induction xs arbitrary: i)
  case (Cons x xs)
  then show ?case by (cases i) (simp_all add: add.commute)
qed simp

lemma take_concat_const:
  "\<forall>x \<in> set xs. length (f x) = s \<Longrightarrow> i < length xs \<Longrightarrow>
   take s (drop (i * s) (concat (map f xs)) @ ys) = f (xs ! i)"
  using drop_concat_const [of xs f s i] by (simp add: Cons_nth_drop_Suc [symmetric])

lemma chunks_concat_const:
  "\<forall>x \<in> set xs. length (f x) = s \<Longrightarrow> 0 < s \<Longrightarrow> chunks s (concat (map f xs)) = map f xs"
proof (induction xs)
  case (Cons x xs)
  then have "f x \<noteq> []" by auto
  then show ?case using Cons by (subst chunks.simps) simp
qed simp

definition shard_at :: "u32 \<Rightarrow> audio_recovery \<Rightarrow> shard_header \<times> bytes \<Rightarrow> decoded_shard" where
  "shard_at b r x = \<lparr>dsh_block_id = b, dsh_header = fst x, dsh_recovery = r, dsh_payload = snd x\<rparr>"

lemma decode_shard_symbol:
  assumes "shard_fits s x"
  shows "decode_symbol b (shard_symbol s x) (sh_source_count (fst x)) (sh_source_index (fst x)) r = Inr (shard_at b r x)"
proof -
  have len: "72 + length (snd x) \<le> s" and ok: "shard_validate (fst x) s = Inr ()"
    and pl: "length (snd x) = unat (sh_payload_len (fst x))"
    using shard_fits_len [OF assms] assms by (simp_all add: shard_fits_def)
  have dec: "shard_decode (shard_symbol s x) = Inr (fst x)"
    using ok len by (simp add: shard_symbol_def shard_decode_wire)
  have "shard_payload (fst x) (shard_symbol s x) = Inr (snd x)"
    using ok len pl length_shard_symbol [OF assms]
    by (simp add: shard_payload_def SHARD_HEADER_LEN_def) (simp add: shard_symbol_def sub_slice_def)
  then show ?thesis by (simp add: decode_symbol_def dec shard_at_def)
qed

text \<open>What the decoder needs to know of an epoch: its shards and the block that carries them.\<close>

definition epoch_block ::
    "bytes \<Rightarrow> u16 \<Rightarrow> u16 \<Rightarrow> (shard_header \<times> bytes) list \<Rightarrow> bool" where
  "epoch_block data s k shards \<longleftrightarrow>
     block_data data s \<and> block_symbols data s = length shards \<and> unat k = length shards \<and>
     length shards \<le> 56403 \<and> data = concat (map (shard_symbol (unat s)) shards) \<and> (\<forall>x \<in> set shards. shard_fits (unat s) x) \<and>
     (\<forall>i < length shards. sh_source_index (fst (shards ! i)) = of_nat i \<and> sh_source_count (fst (shards ! i)) = k)"

lemma sendable_epoch_block:
  assumes "audio_sendable c ep geo"
  shows "epoch_block (epoch_object ep geo) (ag_symbol_size geo) (ag_source_symbols geo) (epoch_shards ep geo)"
proof -
  obtain mp where h: "valid_epoch ep" "max_fragment_payload c = Inr mp" "geometry_for_groups c (ep_groups ep) = Inr geo"
    using assms by (auto simp: audio_sendable_def)
  show ?thesis
    using sendable_block [OF assms] shards_fit_all [OF h] shard_fits_epoch(2,3) [OF h]
    by (simp add: epoch_block_def epoch_object_def [symmetric])
qed

lemma epoch_block_facts:
  assumes "epoch_block data s k shards"
  shows "0 < unat s" "length data = unat s * length shards" "chunks (unat s) data = map (shard_symbol (unat s)) shards"
    "i < length shards \<Longrightarrow> pad_symbol data (unat s) i = shard_symbol (unat s) (shards ! i)"
    "i < length shards \<Longrightarrow> decode_symbol b (shard_symbol (unat s) (shards ! i)) k (of_nat i) r = Inr (shard_at b r (shards ! i))"
proof -
  have eb: "block_data data s" "data = concat (map (shard_symbol (unat s)) shards)"
    and fits: "\<forall>x \<in> set shards. shard_fits (unat s) x"
    using assms unfolding epoch_block_def by blast+
  have len: "\<forall>x \<in> set shards. length (shard_symbol (unat s) x) = unat s" using fits length_shard_symbol by blast
  show s: "0 < unat s" using eb(1) by (simp add: block_data_def)
  show "length data = unat s * length shards"
    unfolding eb(2) using length_concat_const [OF len] by (simp add: mult.commute)
  show "chunks (unat s) data = map (shard_symbol (unat s)) shards"
    unfolding eb(2) by (rule chunks_concat_const [OF len s])
  show "pad_symbol data (unat s) i = shard_symbol (unat s) (shards ! i)" if "i < length shards"
    unfolding pad_symbol_def eb(2) by (rule take_concat_const [OF len that])
  show "decode_symbol b (shard_symbol (unat s) (shards ! i)) k (of_nat i) r = Inr (shard_at b r (shards ! i))"
    if "i < length shards"
    using decode_shard_symbol [of "unat s" "shards ! i" b r] fits that assms by (simp add: epoch_block_def)
qed

lemma carried_symbol:
  assumes "rq_lawful rq" "systematic rq" and eb: "epoch_block data s k shards" and i: "i < 2 ^ 24"
    and x: "carries crc rq b data s i h x"
  defines "packet \<equiv> rq_deserialize rq (rq_serialize rq (block_packet rq data s i))"
  shows "decode_header x = Inr h" "header_payload crc h x = Inr (rq_serialize rq (block_packet rq data s i))"
    "\<not> length (rq_serialize rq (block_packet rq data s i)) < ENCODING_PACKET_HEADER_LEN"
    "hdr_block_id h = b" "hdr_source_symbols h = k" "hdr_symbol_size h = s"
    "pkt_symbol_id packet = of_nat i" "pkt_symbol_id packet < ucast k \<longleftrightarrow> i < length shards"
    "i < length shards \<Longrightarrow> decode_symbol b (pkt_data packet) k (ucast (pkt_symbol_id packet)) Systematic =
       Inr (shard_at b Systematic (shards ! i))"
proof -
  have bd: "block_data data s" "block_symbols data s = length shards" "unat k = length shards"
    using eb unfolding epoch_block_def by blast+
  note pk = lawful_serialize [OF assms(1) bd(1) i]
  have acc: "accept_datagram crc x = Inr (h, rq_serialize rq (block_packet rq data s i))"
    using x by (simp add: carries_def)
  show "decode_header x = Inr h" "header_payload crc h x = Inr (rq_serialize rq (block_packet rq data s i))"
    using accept_split [OF acc] by (simp_all add: decode_header_def)
  show "\<not> length (rq_serialize rq (block_packet rq data s i)) < ENCODING_PACKET_HEADER_LEN"
    using pk(2) by (simp add: ENCODING_PACKET_HEADER_LEN_def)
  have "of_nat (unat k) = k" by simp
  then have "k = of_nat (length shards)" by (simp only: bd(3))
  then show "hdr_block_id h = b" "hdr_source_symbols h = k" "hdr_symbol_size h = s"
    using x bd(2) by (simp_all add: carries_def)
  show id: "pkt_symbol_id packet = of_nat i" using pk by (simp add: packet_def)
  show "pkt_symbol_id packet < ucast k \<longleftrightarrow> i < length shards"
    using symbol_role_nat(2) [OF i, of k] bd(3) by (simp add: id)
  assume il: "i < length shards"
  have "pkt_data packet = pad_symbol data (unat s) i"
    using assms(2) bd il pk(1) by (simp add: packet_def systematic_def)
  then show "decode_symbol b (pkt_data packet) k (ucast (pkt_symbol_id packet)) Systematic =
      Inr (shard_at b Systematic (shards ! i))"
    using epoch_block_facts(4,5) [OF eb il] symbol_role_nat(3) [OF i] by (simp add: id)
qed

text \<open>
  C21. Every datagram of an epoch can be routed. Encoding a valid epoch within the budgets succeeds; the
  source datagrams come first, in order; a datagram is a header, a packet and, for repair, the session
  id, and does not exceed the transport's size; and a relay that
  inspects any single one of them, repair datagrams included, learns the block and the session.
\<close>
theorem epoch_datagrams_routable:
  assumes "rq_lawful rq" "systematic rq" "audio_sendable (ae_config e) ep geo"
  shows "\<exists>e' enc. encode_epoch crc rq e ep = (e', Inr enc) \<and>
    length (ee_datagrams enc) = unat (ag_source_symbols geo) + unat (ac_repair_symbols (ae_config e)) \<and>
    (\<forall>j < length (ee_datagrams enc). let g = ee_datagrams enc ! j in
       adg_role g = (if j < unat (ag_source_symbols geo) then SourceSymbol (of_nat j) else RepairSymbol (of_nat j)) \<and>
       length (adg_payload g) = 36 + unat (ag_symbol_size geo) + (if j < unat (ag_source_symbols geo) then 0 else 8) \<and>
       length (adg_payload g) + ac_transport_overhead (ae_config e) \<le> ac_max_datagram_size (ae_config e) \<and>
       inspect_multichannel_audio_datagram crc rq (adg_payload g) =
         Inr \<lparr>did_block_id = audio_block_id e, did_packet_sequence = adg_packet_sequence g,
              did_source_index = (if j < unat (ag_source_symbols geo) then Some (of_nat j) else None),
              did_session_id = Some (ep_session_id ep)\<rparr>)"
proof -
  let ?s = "ag_symbol_size geo" and ?K = "unat (ag_source_symbols geo)" and ?data = "epoch_object ep geo"
  let ?b = "enc_block_id (ae_fec e)" and ?seq = "enc_packet_sequence (ae_fec e)" and ?R = "unat (ac_repair_symbols (ae_config e))"
  note blk = sendable_block [OF assms(3)] and eb = sendable_epoch_block [OF assms(3)]
  obtain e' enc where enc: "encode_epoch crc rq e ep = (e', Inr enc)" "length (ee_datagrams enc) = ?K + ?R"
    and pkts: "\<And>j. j < ?K + ?R \<Longrightarrow> audio_packet crc rq (ae_config e) (ep_session_id ep) ?b ?data ?s (?seq + of_nat j) j
        (ee_datagrams enc ! j)"
    using encode_epoch_lawful [OF assms(1,3), of crc] by blast
  have "let g = ee_datagrams enc ! j in
       adg_role g = (if j < ?K then SourceSymbol (of_nat j) else RepairSymbol (of_nat j)) \<and>
       length (adg_payload g) = 36 + unat ?s + (if j < ?K then 0 else 8) \<and>
       length (adg_payload g) + ac_transport_overhead (ae_config e) \<le> ac_max_datagram_size (ae_config e) \<and>
       inspect_multichannel_audio_datagram crc rq (adg_payload g) =
         Inr \<lparr>did_block_id = audio_block_id e, did_packet_sequence = adg_packet_sequence g,
              did_source_index = (if j < ?K then Some (of_nat j) else None), did_session_id = Some (ep_session_id ep)\<rparr>"
    if j: "j < ?K + ?R" for j
  proof -
    let ?g = "ee_datagrams enc ! j"
    obtain h where car: "carries crc rq ?b ?data ?s j h (adg_payload ?g)" and seq: "packet_sequence h = ?seq + of_nat j"
      and sid: "?K \<le> j \<Longrightarrow> header_audio_session_id crc h (adg_payload ?g) = Inr (Some (ep_session_id ep))"
      using pkts [OF j] by (auto simp: audio_packet_def blk(2))
    have j24: "j < 2 ^ 24" using j blk(4) by linarith
    note sym = carried_symbol [OF assms(1,2) eb j24 car]
    have sess: "sh_session_id (fst (epoch_shards ep geo ! j)) = ep_session_id ep" if "j < ?K"
      using shards_from_nth [of j ep geo 0 "enumerate 0 (ep_groups ep)"] that blk(6)
      by (auto simp: epoch_shards_def shard_header_of_def)
    have "inspect_multichannel_audio_datagram crc rq (adg_payload ?g) =
        Inr \<lparr>did_block_id = audio_block_id e, did_packet_sequence = ?seq + of_nat j,
              did_source_index = (if j < ?K then Some (of_nat j) else None), did_session_id = Some (ep_session_id ep)\<rparr>"
      unfolding inspect_multichannel_audio_datagram_def sym(1) map_err_simps rbind_simps sym(2) if_not_P [OF sym(3)] Let_def
        sym(4-6,8) blk(6)
      using sid sym(7) symbol_role_nat(3) [OF j24] sym(9) sess
      by (cases "j < ?K") (simp_all add: blk(6) shard_at_def seq audio_block_id_def)
    then show ?thesis using pkts [OF j] by (simp add: Let_def audio_packet_def blk(2))
  qed
  then show ?thesis using enc by auto
qed

end
