(* ===== verification/Audio_Retention.thy ===== *)
theory Audio_Retention
  imports Audio_Decoder
begin

text \<open>
  What the audio decoder retains: the bounds on its sets of blocks, and which block ids it can know of.
\<close>

section \<open>What the decoder retains\<close>

datatype audio_op = AudioPush bytes | AudioExpire u32

definition run_audio_op :: "crc_fun \<Rightarrow> ('e, 'd) raptorq \<Rightarrow> audio_op \<Rightarrow> 'd audio_decoder \<Rightarrow> 'd audio_decoder" where
  "run_audio_op crc rq op d =
     (case op of AudioPush x \<Rightarrow> fst (audio_push_datagram crc rq d x) | AudioExpire b \<Rightarrow> audio_expire_block b d)"

definition audio_inv :: "'d audio_decoder \<Rightarrow> bool" where
  "audio_inv d \<longleftrightarrow> closed.inv d \<and> 0 < ad_max_in_flight d \<and> distinct (ad_in_flight_order d) \<and>
     set (ad_in_flight_order d) = ad_in_flight d \<and> card (ad_in_flight d) \<le> ad_max_in_flight d \<and>
     ad_in_flight d \<inter> ad_completed d = {}"

lemma remember_closed_simps [simp]:
  "ad_fec (remember_closed b d) = ad_fec d" "ad_delivered (remember_closed b d) = ad_delivered d"
  "ad_in_flight (remember_closed b d) = ad_in_flight d" "ad_in_flight_order (remember_closed b d) = ad_in_flight_order d"
  "ad_max_in_flight (remember_closed b d) = ad_max_in_flight d" "ad_max_completed (remember_closed b d) = ad_max_completed d"
  by (simp_all add: remember_closed_def split: prod.split)

lemma closed_inv_update [simp]:
  "closed.inv (d\<lparr>ad_fec := f\<rparr>) = closed.inv d" "closed.inv (d\<lparr>ad_delivered := m\<rparr>) = closed.inv d"
  "closed.inv (d\<lparr>ad_in_flight := s\<rparr>) = closed.inv d" "closed.inv (d\<lparr>ad_in_flight_order := l\<rparr>) = closed.inv d"
  by (simp_all add: closed.inv_def)

lemma expire_oldest_inv:
  "closed.inv d \<Longrightarrow> 0 < ad_max_in_flight d \<Longrightarrow> distinct order \<Longrightarrow> set order = ad_in_flight d \<Longrightarrow>
   ad_in_flight d \<inter> ad_completed d = {} \<Longrightarrow>
   audio_inv (expire_oldest order d) \<and> ad_max_in_flight (expire_oldest order d) = ad_max_in_flight d \<and>
   ad_max_completed (expire_oldest order d) = ad_max_completed d"
proof (induction order arbitrary: d)
  case Nil
  then show ?case by (simp add: audio_inv_def flip: Nil.prems(4))
next
  case (Cons b rest)
  show ?case
  proof (cases "card (ad_in_flight d) > ad_max_in_flight d")
    case True
    let ?d0 = "d\<lparr>ad_in_flight := ad_in_flight d - {b}, ad_fec := expire_block b (ad_fec d),
        ad_delivered := (ad_delivered d)(b := None)\<rparr>"
    have inv0: "closed.inv ?d0" using Cons.prems(1) by simp
    have sub: "ad_completed (remember_closed b ?d0) \<subseteq> insert b (ad_completed d)"
      using closed.remember_subset [OF inv0, of b] by simp
    have b: "b \<in> ad_in_flight d" "b \<notin> set rest" "set rest = ad_in_flight d - {b}" using Cons.prems(3,4) by auto
    have "audio_inv (expire_oldest rest (remember_closed b ?d0)) \<and>
        ad_max_in_flight (expire_oldest rest (remember_closed b ?d0)) = ad_max_in_flight (remember_closed b ?d0) \<and>
        ad_max_completed (expire_oldest rest (remember_closed b ?d0)) = ad_max_completed (remember_closed b ?d0)"
    proof (rule Cons.IH [OF closed.remember_inv [OF inv0]])
      show "ad_in_flight (remember_closed b ?d0) \<inter> ad_completed (remember_closed b ?d0) = {}"
        using Cons.prems(5) sub by auto
    qed (use Cons.prems(2,3) b(3) in simp_all)
    moreover have "expire_oldest (b # rest) d = expire_oldest rest (remember_closed b ?d0)" using True b(1) by simp
    ultimately show ?thesis by simp
  next
    case False
    then have "expire_oldest (b # rest) d = d\<lparr>ad_in_flight_order := b # rest\<rparr>" by simp
    then show ?thesis using Cons.prems False by (simp add: audio_inv_def not_less)
  qed
qed

lemma observe_inv:
  assumes "audio_inv d" "b \<notin> ad_completed d"
  shows "audio_inv (observe_in_flight b d) \<and> ad_max_in_flight (observe_in_flight b d) = ad_max_in_flight d \<and>
    ad_max_completed (observe_in_flight b d) = ad_max_completed d"
proof (cases "b \<in> ad_in_flight d")
  case False
  then show ?thesis
    using assms expire_oldest_inv [of "d\<lparr>ad_in_flight := insert b (ad_in_flight d)\<rparr>" "ad_in_flight_order d @ [b]"]
    by (auto simp: observe_in_flight_def audio_inv_def)
qed (use assms in \<open>simp add: observe_in_flight_def\<close>)

lemma close_inv:
  assumes "audio_inv d"
  shows "audio_inv (close_block b d) \<and> ad_max_in_flight (close_block b d) = ad_max_in_flight d \<and>
    ad_max_completed (close_block b d) = ad_max_completed d"
proof -
  let ?d0 = "d\<lparr>ad_in_flight := ad_in_flight d - {b}, ad_in_flight_order := filter (\<lambda>c. c \<noteq> b) (ad_in_flight_order d),
      ad_delivered := (ad_delivered d)(b := None)\<rparr>"
  have inv0: "closed.inv ?d0" using assms by (simp add: audio_inv_def)
  have "ad_completed (remember_closed b ?d0) \<subseteq> insert b (ad_completed d)"
    using closed.remember_subset [OF inv0, of b] by simp
  moreover have "card (ad_in_flight d - {b}) \<le> card (ad_in_flight d)" by (rule card_Diff1_le)
  ultimately show ?thesis
    using assms closed.remember_inv [OF inv0, of b]
    unfolding close_block_def audio_inv_def by (auto simp del: card_Diff_insert)
qed

definition same_limits :: "'d audio_decoder \<Rightarrow> 'd audio_decoder \<Rightarrow> bool" where
  "same_limits d d' \<longleftrightarrow> ad_max_in_flight d' = ad_max_in_flight d \<and> ad_max_completed d' = ad_max_completed d"

lemma audio_inv_update [simp]:
  "audio_inv (d\<lparr>ad_fec := f\<rparr>) = audio_inv d" "audio_inv (d\<lparr>ad_delivered := m\<rparr>) = audio_inv d"
  "same_limits d (d'\<lparr>ad_fec := f\<rparr>) = same_limits d d'" "same_limits d (d'\<lparr>ad_delivered := m\<rparr>) = same_limits d d'"
  "same_limits d d"
  by (simp_all add: audio_inv_def same_limits_def)

lemma deliver_inv:
  assumes "audio_inv d" "hdr_block_id h \<notin> ad_completed d" "deliver_shards h source completed d = (d', r)"
  shows "audio_inv d' \<and> same_limits d d'"
proof (cases completed)
  case None
  then have "\<exists>m. d' = (observe_in_flight (hdr_block_id h) d)\<lparr>ad_delivered := m\<rparr>"
    using assms(3) by (auto simp: deliver_shards_def Let_def)
  then show ?thesis using observe_inv [OF assms(1,2)] by (auto simp: same_limits_def)
next
  case (Some object)
  then have "\<exists>m. d' = d\<lparr>ad_delivered := m\<rparr> \<or> d' = close_block (hdr_block_id h) (d\<lparr>ad_delivered := m\<rparr>)"
    using assms(3) by (auto simp: deliver_shards_def Let_def mark_completed_def split: if_splits prod.splits sum.splits)
  then show ?thesis using close_inv [of "d\<lparr>ad_delivered := m\<rparr>" for m] assms(1) by (auto simp: same_limits_def)
qed

lemma push_audio_cases:
  defines "fec \<equiv> \<lambda>crc rq d x. fst (push_datagram crc rq (ad_fec d) x)"
  shows "fst (audio_push_datagram crc rq d x) = d \<or>
   fst (audio_push_datagram crc rq d x) = d\<lparr>ad_fec := fec crc rq d x\<rparr> \<or>
   (\<exists>h source completed. decode_header x = Inr h \<and> hdr_block_id h \<notin> ad_completed d \<and>
      fst (audio_push_datagram crc rq d x) = fst (deliver_shards h source completed (d\<lparr>ad_fec := fec crc rq d x\<rparr>)))"
proof (cases "decode_header x")
  case (Inr h)
  note dec = Inr
  show ?thesis
  proof (cases "hdr_block_id h \<in> ad_completed d \<or> (\<exists>err. header_payload crc h x = Inl err)")
    case True
    then have "fst (audio_push_datagram crc rq d x) = d" by (auto simp: audio_push_datagram_def dec)
    then show ?thesis by simp
  next
    case False
    then obtain p where p: "header_payload crc h x = Inr p" by (cases "header_payload crc h x") auto
    let ?esi = "pkt_symbol_id (rq_deserialize rq p)"
    let ?src = "if ?esi < ucast (hdr_source_symbols h)
      then rbind (decode_symbol (hdr_block_id h) (pkt_data (rq_deserialize rq p)) (hdr_source_symbols h) (ucast ?esi) Systematic)
        (\<lambda>s. Inr (Some s)) else Inr None"
    show ?thesis
    proof (cases "length p < ENCODING_PACKET_HEADER_LEN \<or> (\<exists>err. ?src = Inl err)")
      case True
      then have "fst (audio_push_datagram crc rq d x) = d"
        using False by (auto simp: audio_push_datagram_def dec p Let_def)
      then show ?thesis by simp
    next
      case src: False
      then obtain source where s: "?src = Inr source" by (cases ?src) auto
      obtain f q where one: "push_datagram crc rq (ad_fec d) x = (f, q)" by fastforce
      have eq: "audio_push_datagram crc rq d x =
          (case q of Inl err \<Rightarrow> (d\<lparr>ad_fec := f\<rparr>, Inl (AudioFec err))
           | Inr completed \<Rightarrow> deliver_shards h source completed (d\<lparr>ad_fec := f\<rparr>))"
        using False src unfolding audio_push_datagram_def dec sum.case p Let_def s one prod.case by simp
      show ?thesis
      proof (cases q)
        case (Inr completed)
        then show ?thesis
          using eq False one dec
          by (intro disjI2 exI [of _ h] exI [of _ source] exI [of _ completed]) (simp add: fec_def)
      qed (use eq one in \<open>auto simp: fec_def\<close>)
    qed
  qed
qed (simp add: audio_push_datagram_def)

lemma run_op_inv:
  assumes "audio_inv d"
  shows "audio_inv (run_audio_op crc rq op d) \<and> same_limits d (run_audio_op crc rq op d)"
proof (cases op)
  case (AudioPush x)
  have deliver: "audio_inv (fst (deliver_shards h source completed (d\<lparr>ad_fec := f\<rparr>))) \<and>
      same_limits d (fst (deliver_shards h source completed (d\<lparr>ad_fec := f\<rparr>)))"
    if "hdr_block_id h \<notin> ad_completed d" for h source completed f
    using deliver_inv [OF _ _ surjective_pairing, of "d\<lparr>ad_fec := f\<rparr>" h source completed] assms that
    by (simp add: same_limits_def)
  show ?thesis
    using push_audio_cases [of crc rq d x] assms deliver unfolding AudioPush run_audio_op_def audio_op.case by auto
next
  case (AudioExpire b)
  then show ?thesis
    using close_inv [of "d\<lparr>ad_fec := expire_block b (ad_fec d)\<rparr>" b] assms
    by (simp add: run_audio_op_def audio_expire_block_def same_limits_def)
qed

text \<open>
  C22. The decoder's memory of blocks is bounded. Whatever datagrams are pushed, valid or not, and whatever
  blocks are expired, in any order: the incomplete epochs and the closed ones stay within the
  configured limits, no block is in both sets, and the two queues list their sets without repetition,
  so the oldest is always the one to go.
\<close>
theorem audio_memory_bounded:
  fixes rq :: "('e, 'd) raptorq"
  shows "let d = fold (run_audio_op crc rq) ops (with_in_flight_limit n (with_completed_window m audio_decoder_new))
   in audio_in_flight_block_count d \<le> max n 1 \<and> card (ad_completed d) \<le> max m 1 \<and>
      ad_in_flight d \<inter> ad_completed d = {} \<and>
      distinct (ad_in_flight_order d) \<and> set (ad_in_flight_order d) = ad_in_flight d \<and>
      distinct (ad_completed_order d) \<and> set (ad_completed_order d) = ad_completed d"
proof -
  define d0 :: "'d audio_decoder" where "d0 = with_in_flight_limit n (with_completed_window m audio_decoder_new)"
  have d0: "audio_inv d0" "ad_max_in_flight d0 = max n 1" "ad_max_completed d0 = max m 1"
    by (simp_all add: d0_def with_in_flight_limit_def with_completed_window_def audio_decoder_new_def audio_inv_def
        closed.inv_def ids_inv_def less_max_iff_disj)
  have "audio_inv (fold (run_audio_op crc rq) ops d) \<and> same_limits d (fold (run_audio_op crc rq) ops d)"
    if "audio_inv d" for d
    using that
  proof (induction ops arbitrary: d)
    case (Cons op ops)
    then show ?case using run_op_inv [OF Cons.prems, of crc rq op] by (auto simp: same_limits_def)
  qed simp
  from this [OF d0(1)] have inv: "audio_inv (fold (run_audio_op crc rq) ops d0)"
    "ad_max_in_flight (fold (run_audio_op crc rq) ops d0) = max n 1"
    "ad_max_completed (fold (run_audio_op crc rq) ops d0) = max m 1"
    using d0 by (simp_all add: same_limits_def)
  have "card (ad_completed (fold (run_audio_op crc rq) ops d0)) \<le> max m 1"
    using closed.inv_card [of "fold (run_audio_op crc rq) ops d0"] inv by (simp add: audio_inv_def)
  then show ?thesis
    using inv unfolding d0_def [symmetric] Let_def
    by (simp add: audio_inv_def closed.inv_def ids_inv_def audio_in_flight_block_count_def)
qed

section \<open>The newest block stays\<close>

lemma kept_by_older:
  assumes "c \<le> b"
  shows "kept_by_prune c b"
proof (cases "c < 64")
  case False
  then have "unat (c - 64) = unat c - 64" by (simp add: unat_sub not_less)
  then have "c - 64 \<le> b" using assms by (simp add: word_le_nat_alt)
  then show ?thesis by (simp add: kept_by_prune_def COMPLETED_WINDOW_def)
qed (simp add: kept_by_prune_def COMPLETED_WINDOW_def)

lemma expire_block_other:
  assumes "c \<noteq> b" "kept_by_prune c b"
  shows "dec_blocks (expire_block c f) b = dec_blocks f b" "b \<in> dec_completed (expire_block c f) \<longleftrightarrow> b \<in> dec_completed f"
  using assms by (auto simp: expire_block_def complete_block_def prune_def)

lemma expire_oldest_newest:
  assumes "closed.inv d" "0 < ad_max_in_flight d" "distinct (order @ [b])" "set (order @ [b]) = ad_in_flight d"
    and "\<forall>c \<in> set order. c \<le> b" "b \<notin> ad_completed d"
  shows "b \<in> ad_in_flight (expire_oldest (order @ [b]) d) \<and> b \<notin> ad_completed (expire_oldest (order @ [b]) d) \<and>
    ad_delivered (expire_oldest (order @ [b]) d) b = ad_delivered d b \<and>
    dec_blocks (ad_fec (expire_oldest (order @ [b]) d)) b = dec_blocks (ad_fec d) b \<and>
    (b \<in> dec_completed (ad_fec (expire_oldest (order @ [b]) d)) \<longleftrightarrow> b \<in> dec_completed (ad_fec d))"
  using assms
proof (induction order arbitrary: d)
  case Nil
  then have "\<not> card (ad_in_flight d) > ad_max_in_flight d" by (simp flip: Nil.prems(4))
  then show ?case using Nil by auto
next
  case (Cons c order)
  show ?case
  proof (cases "card (ad_in_flight d) > ad_max_in_flight d")
    case True
    let ?d0 = "d\<lparr>ad_in_flight := ad_in_flight d - {c}, ad_fec := expire_block c (ad_fec d),
        ad_delivered := (ad_delivered d)(c := None)\<rparr>"
    have c: "c \<noteq> b" "c \<in> ad_in_flight d" "c \<le> b" using Cons.prems(3-5) by auto
    have inv0: "closed.inv ?d0" using Cons.prems(1) by simp
    have nb: "b \<notin> ad_completed (remember_closed c ?d0)"
      using closed.remember_subset [OF inv0, of c] Cons.prems(6) c(1) by auto
    have IH: "b \<in> ad_in_flight (expire_oldest (order @ [b]) (remember_closed c ?d0)) \<and>
        b \<notin> ad_completed (expire_oldest (order @ [b]) (remember_closed c ?d0)) \<and>
        ad_delivered (expire_oldest (order @ [b]) (remember_closed c ?d0)) b = ad_delivered (remember_closed c ?d0) b \<and>
        dec_blocks (ad_fec (expire_oldest (order @ [b]) (remember_closed c ?d0))) b =
          dec_blocks (ad_fec (remember_closed c ?d0)) b \<and>
        (b \<in> dec_completed (ad_fec (expire_oldest (order @ [b]) (remember_closed c ?d0))) \<longleftrightarrow>
          b \<in> dec_completed (ad_fec (remember_closed c ?d0)))"
      by (rule Cons.IH [OF closed.remember_inv [OF inv0]]) (use Cons.prems(2-5) nb in auto)
    have eq: "expire_oldest ((c # order) @ [b]) d = expire_oldest (order @ [b]) (remember_closed c ?d0)"
      using True c(2) by simp
    show ?thesis
      unfolding eq using IH c(1) not_sym [OF c(1)]
      by (simp add: expire_block_other [OF c(1) kept_by_older [OF c(3)]])
  next
    case False
    then show ?thesis using Cons.prems by auto
  qed
qed

lemma expire_oldest_subset: "ad_in_flight (expire_oldest order d) \<subseteq> ad_in_flight d"
proof (induction order d rule: expire_oldest.induct)
  case (2 b rest d)
  then show ?case by auto
qed simp

lemma observe_in_flight_subset: "ad_in_flight (observe_in_flight b d) \<subseteq> insert b (ad_in_flight d)"
  using expire_oldest_subset [of "ad_in_flight_order d @ [b]" "d\<lparr>ad_in_flight := insert b (ad_in_flight d)\<rparr>"]
  by (auto simp: observe_in_flight_def)

lemma observe_newest:
  assumes "audio_inv d" "b \<notin> ad_completed d" "\<forall>c \<in> ad_in_flight d. c \<le> b"
  shows "b \<in> ad_in_flight (observe_in_flight b d)" "b \<notin> ad_completed (observe_in_flight b d)"
    "ad_delivered (observe_in_flight b d) b = ad_delivered d b"
    "dec_blocks (ad_fec (observe_in_flight b d)) b = dec_blocks (ad_fec d) b"
    "b \<in> dec_completed (ad_fec (observe_in_flight b d)) \<longleftrightarrow> b \<in> dec_completed (ad_fec d)"
proof -
  have "b \<in> ad_in_flight (observe_in_flight b d) \<and> b \<notin> ad_completed (observe_in_flight b d) \<and>
    ad_delivered (observe_in_flight b d) b = ad_delivered d b \<and>
    dec_blocks (ad_fec (observe_in_flight b d)) b = dec_blocks (ad_fec d) b \<and>
    (b \<in> dec_completed (ad_fec (observe_in_flight b d)) \<longleftrightarrow> b \<in> dec_completed (ad_fec d))"
  proof (cases "b \<in> ad_in_flight d")
    case False
    then show ?thesis
      using assms expire_oldest_newest [of "d\<lparr>ad_in_flight := insert b (ad_in_flight d)\<rparr>" "ad_in_flight_order d" b]
      by (simp add: observe_in_flight_def audio_inv_def)
  qed (use assms in \<open>simp add: observe_in_flight_def\<close>)
  then show "b \<in> ad_in_flight (observe_in_flight b d)" "b \<notin> ad_completed (observe_in_flight b d)"
    "ad_delivered (observe_in_flight b d) b = ad_delivered d b"
    "dec_blocks (ad_fec (observe_in_flight b d)) b = dec_blocks (ad_fec d) b"
    "b \<in> dec_completed (ad_fec (observe_in_flight b d)) \<longleftrightarrow> b \<in> dec_completed (ad_fec d)" by blast+
qed

section \<open>The block ids a decoder knows\<close>

definition known_ids :: "'d audio_decoder \<Rightarrow> u32 set" where
  "known_ids d = ad_completed d \<union> ad_in_flight d \<union> dom (ad_delivered d) \<union>
     dec_completed (ad_fec d) \<union> dom (dec_blocks (ad_fec d))"

lemma known_iff:
  "c \<in> known_ids d \<longleftrightarrow> c \<in> ad_completed d \<or> c \<in> ad_in_flight d \<or> ad_delivered d c \<noteq> None \<or>
     c \<in> dec_completed (ad_fec d) \<or> dec_blocks (ad_fec d) c \<noteq> None"
  by (auto simp: known_ids_def)

lemma complete_block_known:
  "c \<in> dec_completed (complete_block b f) \<longleftrightarrow> (c = b \<or> c \<in> dec_completed f) \<and> kept_by_prune b c"
  "dec_blocks (complete_block b f) c = (if c = b \<or> \<not> kept_by_prune b c then None else dec_blocks f c)"
  by (auto simp: complete_block_def prune_def)

text \<open>Forgetting what is kept of a block makes at most its id known.\<close>

lemma forget_known:
  "known_ids (d\<lparr>ad_in_flight := ad_in_flight d - {b}, ad_in_flight_order := l, ad_delivered := (ad_delivered d)(b := None)\<rparr>)
     \<subseteq> known_ids d"
  "known_ids (d\<lparr>ad_fec := expire_block b (ad_fec d)\<rparr>) \<subseteq> insert b (known_ids d)"
  "known_ids (d\<lparr>ad_delivered := (ad_delivered d)(b \<mapsto> m)\<rparr>) \<subseteq> insert b (known_ids d)"
  "known_ids (d\<lparr>ad_in_flight := insert b (ad_in_flight d)\<rparr>) \<subseteq> insert b (known_ids d)"
  by (auto simp: known_iff expire_block_def complete_block_known split: if_splits)

lemma remember_closed_known:
  assumes "closed.inv d"
  shows "known_ids (remember_closed b d) \<subseteq> insert b (known_ids d)"
  using closed.remember_subset [OF assms, of b] by (auto simp: known_iff)

lemma close_known:
  assumes "closed.inv d"
  shows "known_ids (close_block b d) \<subseteq> insert b (known_ids d)"
proof -
  let ?d0 = "d\<lparr>ad_in_flight := ad_in_flight d - {b}, ad_in_flight_order := filter (\<lambda>c. c \<noteq> b) (ad_in_flight_order d),
      ad_delivered := (ad_delivered d)(b := None)\<rparr>"
  have "closed.inv ?d0" using assms by simp
  from remember_closed_known [OF this, of b] forget_known(1) [where d = d and b = b]
  show ?thesis unfolding close_block_def by blast
qed

lemma audio_expire_known:
  assumes "closed.inv d"
  shows "known_ids (audio_expire_block b d) \<subseteq> insert b (known_ids d)"
  using close_known [of "d\<lparr>ad_fec := expire_block b (ad_fec d)\<rparr>" b] forget_known(2) [where d = d and b = b] assms
  unfolding audio_expire_block_def by auto

lemma expire_oldest_known: "closed.inv d \<Longrightarrow> known_ids (expire_oldest order d) \<subseteq> known_ids d"
proof (induction order arbitrary: d)
  case Nil
  then show ?case by (auto simp: known_iff)
next
  case (Cons c order)
  let ?d0 = "d\<lparr>ad_in_flight := ad_in_flight d - {c}, ad_fec := expire_block c (ad_fec d),
      ad_delivered := (ad_delivered d)(c := None)\<rparr>"
  have inv0: "closed.inv ?d0" using Cons.prems by simp
  have d0: "known_ids ?d0 \<subseteq> insert c (known_ids d)"
    by (auto simp: known_iff expire_block_def complete_block_known split: if_splits)
  have "known_ids (expire_oldest order (remember_closed c ?d0)) \<subseteq> insert c (known_ids ?d0)"
    using Cons.IH [OF closed.remember_inv [OF inv0], of c] remember_closed_known [OF inv0, of c] by blast
  then have "c \<in> ad_in_flight d \<Longrightarrow> known_ids (expire_oldest order (remember_closed c ?d0)) \<subseteq> known_ids d"
    using d0 known_iff [of c d] by blast
  moreover have "known_ids (d\<lparr>ad_in_flight_order := c # order\<rparr>) = known_ids d" by (simp add: known_ids_def)
  ultimately show ?case using Cons.IH [OF Cons.prems] by simp
qed

lemma observe_known:
  assumes "closed.inv d"
  shows "known_ids (observe_in_flight b d) \<subseteq> insert b (known_ids d)"
proof -
  have "closed.inv (d\<lparr>ad_in_flight := insert b (ad_in_flight d)\<rparr>)" using assms by simp
  from expire_oldest_known [OF this] forget_known(4) [where d = d and b = b] show ?thesis
    unfolding observe_in_flight_def by auto
qed

lemma deliver_known:
  assumes "closed.inv d"
  shows "known_ids (fst (deliver_shards h source completed d)) \<subseteq> insert (hdr_block_id h) (known_ids d)"
proof (cases completed)
  case None
  let ?d1 = "observe_in_flight (hdr_block_id h) d"
  have "\<exists>m. fst (deliver_shards h source completed d) = ?d1\<lparr>ad_delivered := (ad_delivered ?d1)(hdr_block_id h \<mapsto> m)\<rparr>"
    using None by (auto simp: deliver_shards_def Let_def)
  then obtain m where m: "fst (deliver_shards h source completed d) =
      ?d1\<lparr>ad_delivered := (ad_delivered ?d1)(hdr_block_id h \<mapsto> m)\<rparr>" by blast
  show ?thesis
    unfolding m using observe_known [OF assms, of "hdr_block_id h"]
      forget_known(3) [where d = ?d1 and b = "hdr_block_id h" and m = m] by blast
next
  case (Some object)
  let ?put = "\<lambda>m. d\<lparr>ad_delivered := (ad_delivered d)(hdr_block_id h \<mapsto> m)\<rparr>"
  have "\<exists>m. fst (deliver_shards h source completed d) = ?put m \<or>
      fst (deliver_shards h source completed d) = close_block (hdr_block_id h) (?put m)"
    using Some by (auto simp: deliver_shards_def Let_def mark_completed_def split: prod.splits sum.splits)
  then obtain m where m: "fst (deliver_shards h source completed d) = ?put m \<or>
      fst (deliver_shards h source completed d) = close_block (hdr_block_id h) (?put m)" by blast
  have "known_ids (close_block (hdr_block_id h) (?put m)) \<subseteq> insert (hdr_block_id h) (known_ids (?put m))"
    using assms by (intro close_known) simp
  then show ?thesis using m forget_known(3) [where d = d and b = "hdr_block_id h" and m = m] by auto
qed

lemma push_datagram_shape:
  fixes rq :: "('e, 'd) raptorq"
  assumes "header_decode x = Inr h"
  shows "fst (push_datagram crc rq f x) = f \<or>
    (\<exists>t m. let f1 = f\<lparr>dec_tracker := t, dec_blocks := (dec_blocks f)(hdr_block_id h := m)\<rparr> in
      fst (push_datagram crc rq f x) = f\<lparr>dec_tracker := t\<rparr> \<or> fst (push_datagram crc rq f x) = f1 \<or>
      fst (push_datagram crc rq f x) = complete_block (hdr_block_id h) f1)"
proof (cases "length x < HEADER_LEN + ENCODING_PACKET_HEADER_LEN \<or> (\<exists>e. header_payload crc h x = Inl e)")
  case True
  then have "fst (push_datagram crc rq f x) = f" by (auto simp: push_datagram_def assms)
  then show ?thesis ..
next
  case False
  then obtain p where p: "header_payload crc h x = Inr p" by (cases "header_payload crc h x") auto
  show ?thesis
  proof (cases "length p < ENCODING_PACKET_HEADER_LEN")
    case True
    then have "fst (push_datagram crc rq f x) = f" using False by (simp add: push_datagram_def assms p)
    then show ?thesis ..
  next
    case long: False
    let ?t = "fst (observe (dec_tracker f) (packet_sequence h))" and ?b = "hdr_block_id h"
    note len = False [THEN conjunct1 [OF iffD1 [OF de_Morgan_disj]]]
    note push = push_datagram_def if_not_P [OF len] assms sum.case p if_not_P [OF long] Let_def
    show ?thesis
    proof (cases "rq_decode rq (bs_decoder (case dec_blocks f ?b of Some bs \<Rightarrow> bs
        | None \<Rightarrow> \<lparr>bs_decoder = rq_decoder rq (header_oti h), bs_transfer_length = hdr_transfer_length h,
             bs_source_symbols = hdr_source_symbols h, bs_symbol_size = hdr_symbol_size h\<rparr>)) (rq_deserialize rq p)")
      case (Pair decoder out)
      show ?thesis
        by (cases out) (auto simp: push Pair)
    qed
  qed
qed

lemma push_datagram_known:
  assumes "header_decode x = Inr h"
  shows "c \<in> dec_completed (fst (push_datagram crc rq f x)) \<Longrightarrow> c = hdr_block_id h \<or> c \<in> dec_completed f"
    "dec_blocks (fst (push_datagram crc rq f x)) c \<noteq> None \<Longrightarrow> c = hdr_block_id h \<or> dec_blocks f c \<noteq> None"
  using push_datagram_shape [OF assms, of crc rq f]
  by (auto simp: Let_def complete_block_known split: if_splits)

lemma audio_push_known:
  assumes "closed.inv d" "decode_header x = Inr h"
  shows "known_ids (fst (audio_push_datagram crc rq d x)) \<subseteq> insert (hdr_block_id h) (known_ids d)"
proof -
  let ?fec = "d\<lparr>ad_fec := fst (push_datagram crc rq (ad_fec d) x)\<rparr>"
  have hd: "header_decode x = Inr h" using assms(2) by (simp add: decode_header_def)
  have fec: "known_ids ?fec \<subseteq> insert (hdr_block_id h) (known_ids d)"
    using push_datagram_known [OF hd, where crc = crc and rq = rq and f = "ad_fec d"]
    by (fastforce simp: known_iff)
  have "closed.inv ?fec" using assms(1) by simp
  from deliver_known [OF this] fec push_audio_cases [of crc rq d x] assms(2) show ?thesis
    by fastforce
qed

lemma audio_push_inv: "audio_inv d \<Longrightarrow> audio_inv (fst (audio_push_datagram crc rq d x))"
  using run_op_inv [of d crc rq "AudioPush x"] by (simp add: run_audio_op_def)

lemma audio_expire_inv: "audio_inv d \<Longrightarrow> audio_inv (audio_expire_block b d)"
  using close_inv [of "d\<lparr>ad_fec := expire_block b (ad_fec d)\<rparr>" b] by (simp add: audio_expire_block_def)

end
