(* ===== verification/Audio_Delivery.thy ===== *)
theory Audio_Delivery
  imports Audio_Transfer Audio_Retention
begin

text \<open>
  Delivery of an audio epoch: each shard once, the systematic ones at the datagram that carries them, the
  missing ones when RaptorQ recovers the block.
\<close>

section \<open>One datagram of an epoch\<close>

definition got_before :: "u32 \<Rightarrow> 'd audio_decoder \<Rightarrow> u16 set" where
  "got_before b d = (case ad_delivered d b of Some s \<Rightarrow> s | None \<Rightarrow> {})"

lemma of_nat_inj16: "i < 65536 \<Longrightarrow> j < 65536 \<Longrightarrow> (of_nat i :: u16) = of_nat j \<longleftrightarrow> i = j"
  by (simp add: word_unat_eq_iff unat_of_nat_16)

definition recovered_list :: "u32 \<Rightarrow> (shard_header \<times> bytes) list \<Rightarrow> u16 set \<Rightarrow> nat \<Rightarrow> decoded_shard list" where
  "recovered_list b shards now i =
     map (\<lambda>j. shard_at b Recovered (shards ! j)) (filter (\<lambda>j. of_nat j \<notin> now) [i..<length shards])"

lemma recover_symbols_ok:
  assumes eb: "epoch_block data s k shards" and i: "i \<le> length shards"
  shows "recover_symbols b k (map (shard_symbol (unat s)) (drop i shards)) i now =
    (now \<union> of_nat ` {i..<length shards}, Inr (recovered_list b shards now i))"
  using i
proof (induction "length shards - i" arbitrary: i now)
  case 0
  then show ?case by (simp add: recovered_list_def)
next
  case (Suc n)
  then have i: "i < length shards" by simp
  have short: "length shards \<le> 56403" using eb unfolding epoch_block_def by blast
  have drop: "drop i shards = shards ! i # drop (Suc i) shards" using i by (simp add: Cons_nth_drop_Suc)
  have upt: "[i..<length shards] = i # [Suc i..<length shards]" using i by (rule upt_conv_Cons)
  have ivl: "{i..<length shards} = insert i {Suc i..<length shards}" using i by auto
  note IH = Suc.hyps(1) [of "Suc i"]
  show ?case
  proof (cases "of_nat i \<in> now")
    case True
    then show ?thesis using IH [of now] Suc.hyps(2) i
      by (auto simp: drop upt ivl recovered_list_def)
  next
    case False
    have "recovered_list b shards (insert (of_nat i) now) (Suc i) = recovered_list b shards now (Suc i)"
      unfolding recovered_list_def using short i
      by (intro arg_cong [of _ _ "map _"] filter_cong) (auto simp: of_nat_inj16)
    then show ?thesis
      using IH [of "insert (of_nat i) now"] Suc.hyps(2) i False epoch_block_facts(5) [OF eb i, of b Recovered]
      by (auto simp: drop upt ivl) (simp add: recovered_list_def upt)
  qed
qed

text \<open>What one push does to a decoder that has not closed the block and is not receiving a later one.\<close>

definition receptive :: "('e, 'd) raptorq \<Rightarrow> u32 \<Rightarrow> bytes \<Rightarrow> u16 \<Rightarrow> 'd audio_decoder \<Rightarrow> bool" where
  "receptive rq b data s d \<longleftrightarrow>
     b \<notin> ad_completed d \<and> b \<notin> dec_completed (ad_fec d) \<and>
     (\<forall>bs. dec_blocks (ad_fec d) b = Some bs \<longrightarrow> matching_block data s bs) \<and>
     audio_inv d \<and> (\<forall>c \<in> ad_in_flight d. c \<le> b)"

definition first_time :: "u32 \<Rightarrow> (shard_header \<times> bytes) list \<Rightarrow> u16 set \<Rightarrow> nat \<Rightarrow> decoded_shard list" where
  "first_time b shards S i =
     (if i < length shards \<and> of_nat i \<notin> S then [shard_at b Systematic (shards ! i)] else [])"

lemma shard_at_simps [simp]:
  "shard_key (shard_at b r x) = sh_source_index (fst x)" "dsh_header (shard_at b r x) = fst x"
  "dsh_payload (shard_at b r x) = snd x" "dsh_block_id (shard_at b r x) = b"
  by (simp_all add: shard_at_def shard_key_def)

lemma push_audio_step:
  assumes lawful: "rq_lawful rq" "systematic rq" and eb: "epoch_block data s k shards" and i: "i < 2 ^ 24"
    and x: "carries crc rq b data s i h x" and d: "receptive rq b data s d"
    and out: "rq_decode rq (current_decoder rq (ad_fec d) b data s) (block_packet rq data s i) = (dec, out)"
    and push: "audio_push_datagram crc rq d x = (d', r)"
  shows "out = None \<Longrightarrow> r = Inr (first_time b shards (got_before b d) i) \<and> receptive rq b data s d' \<and>
      got_before b d' = got_before b d \<union> set (map shard_key (first_time b shards (got_before b d) i)) \<and>
      current_decoder rq (ad_fec d') b data s = dec"
    "out = Some data \<Longrightarrow> (let S = got_before b d; fresh = first_time b shards S i in
      r = Inr (sort_key shard_key (fresh @ recovered_list b shards (S \<union> set (map shard_key fresh)) 0)) \<and>
      b \<in> ad_completed d')"
proof -
  note sym = carried_symbol [OF lawful eb i x]
  have bd: "block_data data s" using eb unfolding epoch_block_def by blast
  let ?source = "if i < length shards then Some (shard_at b Systematic (shards ! i)) else None"
  obtain fec q where one: "push_datagram crc rq (ad_fec d) x = (fec, q)" by fastforce
  have nc: "b \<notin> dec_completed (ad_fec d)" and nac: "b \<notin> ad_completed d"
    and match: "\<forall>bs. dec_blocks (ad_fec d) b = Some bs \<longrightarrow> matching_block data s bs"
    and inv: "audio_inv d" and newest: "\<forall>c \<in> ad_in_flight d. c \<le> b"
    using d by (simp_all add: receptive_def)
  note st = push_carried(3) [OF lawful(1) bd i x match out one nc]
  have q: "q = Inr out" using st by simp
  have hdr: "hdr_block_id h = b" "hdr_symbol_size h = s" "hdr_source_symbols h = k" using sym(4-6) by simp_all
  have eq: "audio_push_datagram crc rq d x = deliver_shards h ?source out (d\<lparr>ad_fec := fec\<rparr>)"
    unfolding audio_push_datagram_def sym(1) sum.case if_not_P [OF nac [folded hdr(1)]] sym(2) if_not_P [OF sym(3)] Let_def
      hdr(3) sym(8) one q prod.case
    using sym(9) by (simp add: hdr(1))
  have idx: "i < length shards \<Longrightarrow> sh_source_index (fst (shards ! i)) = of_nat i"
    using eb unfolding epoch_block_def by blast
  let ?S = "got_before b d" and ?fresh = "first_time b shards (got_before b d) i"
  let ?now = "?S \<union> set (map shard_key ?fresh)"
  have fresh: "(case ?source of Some shard \<Rightarrow> if shard_key shard \<in> ?S then [] else [shard] | None \<Rightarrow> []) = ?fresh"
    using idx by (simp add: first_time_def)
  {
    assume none: "out = None"
    let ?d0 = "d\<lparr>ad_fec := fec\<rparr>"
    let ?d1 = "observe_in_flight b ?d0"
    have inv0: "audio_inv ?d0" using inv by simp
    note new = observe_newest [OF inv0, of b] observe_inv [OF inv0, of b] observe_in_flight_subset [of b ?d0]
    have before: "(case ad_delivered ?d1 b of Some s \<Rightarrow> s | None \<Rightarrow> {}) = ?S"
      using new(3) nac newest by (simp add: got_before_def)
    have d': "d' = ?d1\<lparr>ad_delivered := (ad_delivered ?d1)(b \<mapsto> ?now)\<rparr>" and r: "r = Inr ?fresh"
      using push unfolding eq none deliver_shards_def Let_def hdr(1) option.case if_P [OF refl] before fresh
      by (auto simp: first_time_def)
    obtain bs where fec: "dec_completed fec = dec_completed (ad_fec d)" "dec_blocks fec = (dec_blocks (ad_fec d))(b \<mapsto> bs)"
        "matching_block data s bs" "bs_decoder bs = dec"
      using st none by auto
    have blk: "dec_blocks (ad_fec d') b = Some bs" "b \<notin> dec_completed (ad_fec d')" "b \<notin> ad_completed d'"
      using new(2,4,5) nac nc newest fec by (simp_all add: d')
    have "audio_inv d'" using new(6) nac by (simp add: d')
    moreover have "\<forall>c \<in> ad_in_flight d'. c \<le> b" using new(7) newest by (auto simp: d')
    ultimately have "receptive rq b data s d'" using blk fec(3) by (simp add: receptive_def)
    moreover have "got_before b d' = ?now" unfolding d' by (simp add: got_before_def)
    moreover have "current_decoder rq (ad_fec d') b data s = dec" by (simp add: current_decoder_def blk fec)
    ultimately show "r = Inr ?fresh \<and> receptive rq b data s d' \<and> got_before b d' = ?now \<and>
      current_decoder rq (ad_fec d') b data s = dec" using r by simp
  next
    assume some: "out = Some data"
    have before: "(case ad_delivered (d\<lparr>ad_fec := fec\<rparr>) b of Some s \<Rightarrow> s | None \<Rightarrow> {}) = ?S"
      by (simp add: got_before_def)
    have len: "\<not> length data \<noteq> unat s * unat k"
      using epoch_block_facts(2) [OF eb] eb unfolding epoch_block_def by simp
    have rec: "recover_symbols b k (chunks (unat s) data) 0 ?now =
        (?now \<union> of_nat ` {0..<length shards}, Inr (recovered_list b shards ?now 0))"
      using recover_symbols_ok [OF eb, of 0] by (simp add: epoch_block_facts(3) [OF eb])
    let ?d2 = "d\<lparr>ad_fec := fec, ad_delivered := (ad_delivered d)(b \<mapsto> ?now \<union> of_nat ` {0..<length shards})\<rparr>"
    have d': "d' = mark_completed b ?d2" and r: "r = Inr (sort_key shard_key (?fresh @ recovered_list b shards ?now 0))"
      using push unfolding eq some deliver_shards_def Let_def hdr option.case if_not_P [OF option.distinct(2)] before fresh
        if_not_P [OF len] rec
      by auto
    have "closed.inv ?d2" using inv by (simp add: audio_inv_def)
    then have "closed.inv (?d2\<lparr>ad_in_flight := ad_in_flight ?d2 - {b},
          ad_in_flight_order := filter (\<lambda>c. c \<noteq> b) (ad_in_flight_order ?d2), ad_delivered := (ad_delivered ?d2)(b := None)\<rparr>)"
      by (simp add: closed.inv_def)
    from closed.remember_new [OF this, of b] have "b \<in> ad_completed d'"
      unfolding d' mark_completed_def close_block_def .
    then show "let S = got_before b d; fresh = first_time b shards S i in
      r = Inr (sort_key shard_key (fresh @ recovered_list b shards (S \<union> set (map shard_key fresh)) 0)) \<and>
      b \<in> ad_completed d'" using r by (simp add: Let_def)
  }
qed

section \<open>Any datagrams of an epoch\<close>

definition shards_out :: "(audio_fec_error, decoded_shard list) result list \<Rightarrow> decoded_shard list" where
  "shards_out rs = concat (map (\<lambda>r. case r of Inl _ \<Rightarrow> [] | Inr shards \<Rightarrow> shards) rs)"

lemma shards_out_simps [simp]:
  "shards_out [] = []" "shards_out (Inr l # rs) = l @ shards_out rs"
  by (simp_all add: shards_out_def)

text \<open>\<open>delivers b shards S outs ids\<close>: shards of the epoch, none twice, none in \<open>S\<close>, and those of \<open>ids\<close> by now.\<close>

definition delivers :: "u32 \<Rightarrow> (shard_header \<times> bytes) list \<Rightarrow> u16 set \<Rightarrow> decoded_shard list \<Rightarrow> nat set \<Rightarrow> bool" where
  "delivers b shards S outs ids \<longleftrightarrow>
     distinct (map shard_key outs) \<and> set (map shard_key outs) \<inter> S = {} \<and>
     (\<forall>x \<in> set outs. \<exists>j < length shards. \<exists>r. x = shard_at b r (shards ! j)) \<and>
     (\<forall>j \<in> ids. j < length shards \<longrightarrow> of_nat j \<in> S \<union> set (map shard_key outs))"

lemma delivers_append:
  "delivers b shards S xs I \<Longrightarrow> delivers b shards (S \<union> set (map shard_key xs)) ys J \<Longrightarrow>
   delivers b shards S (xs @ ys) (I \<union> J)"
  by (auto simp: delivers_def)

lemma delivers_nil: "delivers b shards S [] {}"
  by (simp add: delivers_def)

lemma delivers_mono: "delivers b shards S xs I \<Longrightarrow> J \<subseteq> I \<Longrightarrow> delivers b shards S xs J"
  by (auto simp: delivers_def)

lemma delivers_sort: "delivers b shards S (sort_key f xs) I \<longleftrightarrow> delivers b shards S xs I"
proof -
  have "distinct (map shard_key (sort_key f xs)) \<longleftrightarrow> distinct (map shard_key xs)"
    by (rule mset_eq_imp_distinct_iff) simp
  then show ?thesis by (simp add: delivers_def)
qed

lemma first_time_delivers:
  "epoch_block data s k shards \<Longrightarrow> delivers b shards S (first_time b shards S i) {i}"
  unfolding epoch_block_def by (auto simp: delivers_def first_time_def)

lemma recovered_delivers:
  assumes eb: "epoch_block data s k shards"
  shows "delivers b shards S (recovered_list b shards S 0) {..<length shards}"
proof -
  have short: "length shards \<le> 56403"
    and idx: "\<And>j. j < length shards \<Longrightarrow> sh_source_index (fst (shards ! j)) = of_nat j"
    using eb unfolding epoch_block_def by blast+
  have keys: "map shard_key (recovered_list b shards S 0) = map of_nat (filter (\<lambda>j. of_nat j \<notin> S) [0..<length shards])"
    by (simp add: recovered_list_def idx)
  have "distinct (map (of_nat :: nat \<Rightarrow> u16) (filter (\<lambda>j. of_nat j \<notin> S) [0..<length shards]))"
    using short by (auto simp: distinct_map inj_on_def of_nat_inj16)
  then show ?thesis
    unfolding delivers_def keys by (auto simp: recovered_list_def)
qed

lemma closed_stream:
  assumes "b \<in> ad_completed d" "\<forall>x \<in> set xs. \<exists>h. decode_header x = Inr h \<and> hdr_block_id h = b"
    and "audio_push_all crc rq d xs = (d', rs)"
  shows "d' = d \<and> all_ok rs \<and> shards_out rs = []"
  using assms(2,3)
proof (induction xs arbitrary: rs d')
  case (Cons x xs)
  then have "audio_push_datagram crc rq d x = (d, Inr [])"
    using assms(1) by (auto simp: audio_push_datagram_def)
  then show ?case using Cons by (auto split: prod.splits)
qed simp

lemma audio_stream:
  assumes lawful: "rq_lawful rq" "systematic rq" and eb: "epoch_block data s k shards"
    and xs: "\<forall>x \<in> set xs. fst x < 2 ^ 24 \<and> (\<exists>h. carries crc rq b data s (fst x) h (snd x))"
    and d: "receptive rq b data s d" and push: "audio_push_all crc rq d (map snd xs) = (d', rs)"
    and run: "run = codec_run rq (current_decoder rq (ad_fec d) b data s) (map (block_packet rq data s) (map fst xs))"
      "run \<in> {None, Some data}"
  shows "all_ok rs \<and> delivers b shards (got_before b d) (shards_out rs)
    (set (map fst xs) \<union> (if run = None then {} else {..<length shards}))"
  using xs d push run
proof (induction xs arbitrary: d d' rs)
  case Nil
  then show ?case by (simp add: delivers_nil)
next
  case (Cons x xs)
  obtain i y where xy: "x = (i, y)" by (cases x) auto
  obtain h where i: "i < 2 ^ 24" and h: "carries crc rq b data s i h y" using Cons.prems(1) by (auto simp: xy)
  obtain d1 r where one: "audio_push_datagram crc rq d y = (d1, r)" by fastforce
  obtain d2 qs where rest: "audio_push_all crc rq d1 (map snd xs) = (d2, qs)" by fastforce
  have rs: "rs = r # qs" using Cons.prems(3) one rest by (simp add: xy)
  obtain dec out where out: "rq_decode rq (current_decoder rq (ad_fec d) b data s) (block_packet rq data s i) = (dec, out)"
    by fastforce
  note step = push_audio_step [OF lawful eb i h Cons.prems(2) out one]
  let ?S = "got_before b d" and ?fresh = "first_time b shards (got_before b d) i"
  have fresh: "delivers b shards ?S ?fresh {i}" using eb by (rule first_time_delivers)
  show ?case
  proof (cases out)
    case None
    have st: "r = Inr ?fresh" "receptive rq b data s d1" "got_before b d1 = ?S \<union> set (map shard_key ?fresh)"
      "current_decoder rq (ad_fec d1) b data s = dec" using step(1) [OF None] by blast+
    have run: "run = codec_run rq (current_decoder rq (ad_fec d1) b data s) (map (block_packet rq data s) (map fst xs))"
      using Cons.prems(4) out None by (simp add: xy st(4))
    have IH: "all_ok qs \<and> delivers b shards (got_before b d1) (shards_out qs)
        (set (map fst xs) \<union> (if run = None then {} else {..<length shards}))"
      using Cons.IH [OF _ st(2) rest run Cons.prems(5)] Cons.prems(1) by simp
    have "delivers b shards ?S (?fresh @ shards_out qs)
        ({i} \<union> (set (map fst xs) \<union> (if run = None then {} else {..<length shards})))"
      by (rule delivers_append [OF fresh]) (use IH st(3) in simp)
    then show ?thesis using IH st(1) by (simp add: rs xy)
  next
    case (Some z)
    have run: "run = Some data" and z: "out = Some data" using Cons.prems(4,5) out Some by (auto simp: xy)
    let ?now = "?S \<union> set (map shard_key ?fresh)"
    have st: "r = Inr (sort_key shard_key (?fresh @ recovered_list b shards ?now 0))" "b \<in> ad_completed d1"
      using step(2) [OF z] by (simp_all add: Let_def)
    have "\<exists>h. decode_header w = Inr h \<and> hdr_block_id h = b" if "w \<in> set (map snd xs)" for w
      using that Cons.prems(1) by (force simp: carries_def decode_header_def dest: accept_split)
    then have qs: "all_ok qs" "shards_out qs = []" using closed_stream [OF st(2) _ rest] by blast+
    have "delivers b shards ?S (?fresh @ recovered_list b shards ?now 0) ({i} \<union> {..<length shards})"
      by (rule delivers_append [OF fresh recovered_delivers [OF eb]])
    then have "delivers b shards ?S (sort_key shard_key (?fresh @ recovered_list b shards ?now 0))
        ({i} \<union> {..<length shards})" by (simp only: delivers_sort)
    moreover have "shards_out rs = sort_key shard_key (?fresh @ recovered_list b shards ?now 0)"
      unfolding rs st(1) by (simp only: shards_out_simps qs(2) append_Nil2)
    ultimately have "delivers b shards ?S (shards_out rs) ({i} \<union> {..<length shards})" by (simp only:)
    then have "delivers b shards ?S (shards_out rs) (set (map fst (x # xs)) \<union> {..<length shards})"
      by (auto simp: delivers_def xy)
    then show ?thesis using qs(1) st(1) by (simp add: rs run)
  qed
qed

lemma unat_block_symbols:
  assumes "audio_sendable c ep geo"
  shows "length (epoch_shards ep geo) = unat (ag_source_symbols geo)"
    "block_data (epoch_object ep geo) (ag_symbol_size geo)"
  using sendable_block [OF assms] by simp_all

text \<open>What the decoder's results \<open>rs\<close> amount to when the datagrams \<open>got\<close> of the epoch have been pushed.\<close>

definition epoch_delivered ::
    "('e, 'd) raptorq \<Rightarrow> audio_epoch \<Rightarrow> audio_geometry \<Rightarrow> u32 \<Rightarrow> nat list \<Rightarrow>
     (audio_fec_error, decoded_shard list) result list \<Rightarrow> bool" where
  "epoch_delivered rq ep geo b got rs \<longleftrightarrow>
     (let run = codec_run rq (block_decoder rq (length (epoch_object ep geo)) (ag_symbol_size geo))
              (map (block_packet rq (epoch_object ep geo) (ag_symbol_size geo)) got);
          all = {..<length (epoch_shards ep geo)}
      in all_ok rs \<and> delivers b (epoch_shards ep geo) {} (shards_out rs) (set got \<union> (if run = None then {} else all)) \<and>
         (all \<subseteq> set got \<longrightarrow> run \<noteq> None))"

text \<open>A decoder that knows nothing of a block and receives no later one.\<close>

definition fresh_for :: "u32 \<Rightarrow> 'd audio_decoder \<Rightarrow> bool" where
  "fresh_for b d \<longleftrightarrow> audio_inv d \<and> b \<notin> known_ids d \<and> (\<forall>c \<in> ad_in_flight d. c \<le> b)"

lemma new_fresh: "fresh_for b audio_decoder_new"
  by (simp add: fresh_for_def audio_decoder_new_def decoder_new_def audio_inv_def closed.inv_def ids_inv_def known_iff)

lemma fresh_receptive:
  "fresh_for b d \<Longrightarrow> receptive rq b data s d" "fresh_for b d \<Longrightarrow> got_before b d = {}"
  "fresh_for b d \<Longrightarrow> current_decoder rq (ad_fec d) b data s = block_decoder rq (length data) s"
  by (auto simp: fresh_for_def receptive_def known_iff got_before_def current_decoder_def)

lemma audio_push_all_known:
  "audio_push_all crc rq d xs = (d', rs) \<Longrightarrow> audio_inv d \<Longrightarrow>
   \<forall>x \<in> set xs. \<exists>h. decode_header x = Inr h \<and> hdr_block_id h = b \<Longrightarrow>
   audio_inv d' \<and> known_ids d' \<subseteq> insert b (known_ids d)"
proof (induction xs arbitrary: d rs)
  case (Cons x xs)
  obtain d1 r where one: "audio_push_datagram crc rq d x = (d1, r)" by fastforce
  obtain qs where rest: "audio_push_all crc rq d1 xs = (d', qs)"
    using Cons.prems(1) one by (auto split: prod.splits)
  obtain h where h: "decode_header x = Inr h" "hdr_block_id h = b" using Cons.prems(3) by auto
  have "closed.inv d" using Cons.prems(2) by (simp add: audio_inv_def)
  from audio_push_known [OF this h(1), of crc rq] have known: "known_ids d1 \<subseteq> insert b (known_ids d)"
    using one h(2) by simp
  have "audio_inv d1" using audio_push_inv [OF Cons.prems(2), of crc rq x] one by simp
  from Cons.IH [OF rest this] Cons.prems(3) known show ?case by auto
qed auto

text \<open>One epoch of a stream, pushed into a decoder that may have seen others.\<close>

lemma epoch_into_decoder:
  assumes lawful: "rq_lawful rq" "systematic rq" and send: "audio_sendable (ae_config e) ep geo"
    and enc: "encode_epoch crc rq e ep = (e', Inr enc)" and fresh: "fresh_for (audio_block_id e) d"
    and got: "set got \<subseteq> {..<length (ee_datagrams enc)}"
    and push: "audio_push_all crc rq d (map (\<lambda>j. adg_payload (ee_datagrams enc ! j)) got) = (d', rs)"
  shows "epoch_delivered rq ep geo (audio_block_id e) got rs" "audio_inv d'"
    "known_ids d' \<subseteq> insert (audio_block_id e) (known_ids d)"
proof -
  let ?s = "ag_symbol_size geo" and ?data = "epoch_object ep geo" and ?b = "audio_block_id e"
  let ?n = "unat (ag_source_symbols geo) + unat (ac_repair_symbols (ae_config e))"
  note eb = sendable_epoch_block [OF send] and blk = sendable_block [OF send]
  have len: "length (ee_datagrams enc) = ?n"
    and pkts: "\<And>j. j < ?n \<Longrightarrow> audio_packet crc rq (ae_config e) (ep_session_id ep) ?b ?data ?s
        (enc_packet_sequence (ae_fec e) + of_nat j) j (ee_datagrams enc ! j)"
    using encode_epoch_lawful [OF lawful(1) send, of crc] enc by (auto simp: audio_block_id_def)
  let ?xs = "map (\<lambda>j. (j, adg_payload (ee_datagrams enc ! j))) got"
  let ?run = "codec_run rq (block_decoder rq (length ?data) ?s) (map (block_packet rq ?data ?s) got)"
  have j24: "\<forall>j \<in> set got. j < 2 ^ 24" using got len blk(4) by force
  have xs: "\<forall>x \<in> set ?xs. fst x < 2 ^ 24 \<and> (\<exists>h. carries crc rq ?b ?data ?s (fst x) h (snd x))"
  proof
    fix x assume "x \<in> set ?xs"
    then obtain j where j: "j \<in> set got" "x = (j, adg_payload (ee_datagrams enc ! j))" by auto
    then have "j < ?n" using got len by auto
    from pkts [OF this] show "fst x < 2 ^ 24 \<and> (\<exists>h. carries crc rq ?b ?data ?s (fst x) h (snd x))"
      using j j24 by (auto simp: audio_packet_def)
  qed
  have fsts: "map fst ?xs = got" "map snd ?xs = map (\<lambda>j. adg_payload (ee_datagrams enc ! j)) got"
    by (simp_all add: comp_def)
  have "all_ok rs \<and> delivers ?b (epoch_shards ep geo) {} (shards_out rs)
      (set got \<union> (if ?run = None then {} else {..<length (epoch_shards ep geo)}))"
    using audio_stream [OF lawful eb xs fresh_receptive(1) [OF fresh] _ refl,
        unfolded fsts fresh_receptive(2,3) [OF fresh], OF push]
      codec_run_once(1) [OF lawful(1) blk(1) j24] by blast
  moreover have "{..<length (epoch_shards ep geo)} \<subseteq> set got \<longrightarrow> ?run \<noteq> None"
    using codec_run_once(2) [OF lawful(1) blk(1) j24] blk(2,6) by (auto simp: atLeast0LessThan)
  ultimately show "epoch_delivered rq ep geo ?b got rs" by (simp add: epoch_delivered_def Let_def)
  have "\<forall>x \<in> set (map snd ?xs). \<exists>h. decode_header x = Inr h \<and> hdr_block_id h = ?b"
    using xs by (force simp: carries_def decode_header_def dest: accept_split)
  then show "audio_inv d'" "known_ids d' \<subseteq> insert ?b (known_ids d)"
    using audio_push_all_known [OF push, of ?b] fresh unfolding fsts by (simp_all add: fresh_for_def)
qed

lemma encoded_epoch_delivers:
  assumes "rq_lawful rq" "systematic rq" "audio_sendable (ae_config e) ep geo"
  shows "\<exists>e' enc. encode_epoch crc rq e ep = (e', Inr enc) \<and>
    length (ee_datagrams enc) = unat (ag_source_symbols geo) + unat (ac_repair_symbols (ae_config e)) \<and>
    (\<forall>got d' rs. set got \<subseteq> {..<length (ee_datagrams enc)} \<longrightarrow>
       audio_push_all crc rq audio_decoder_new (map (\<lambda>j. adg_payload (ee_datagrams enc ! j)) got) = (d', rs) \<longrightarrow>
       epoch_delivered rq ep geo (audio_block_id e) got rs)"
  using encode_epoch_lawful [OF assms(1,3), of crc] epoch_into_decoder(1) [OF assms _ new_fresh, of crc] by blast

definition example_epoch :: audio_epoch where
  "example_epoch =
     \<lparr>ep_session_id = 77, ep_config_generation = 1, ep_epoch_id = 5, ep_pts_samples = 4800,
      ep_sample_rate = 48000, ep_frame_count = 240, ep_groups = example_groups\<rparr>"

lemma example_audio_sendable:
  "\<exists>geo. audio_sendable example_audio_config example_epoch geo \<and> unat (ag_source_symbols geo) = 2"
proof -
  have "valid_epoch example_epoch"
    by (simp add: valid_epoch_def example_epoch_def example_groups_def validate_group_def U32_MAX_def)
  moreover have "ep_groups example_epoch = example_groups" by (simp add: example_epoch_def)
  ultimately show ?thesis
    using example_geometry example_budget by (auto simp: audio_sendable_def example_audio_config_def)
qed

theorem epoch_datagrams_routable_witness:
  "\<exists>e' enc id. encode_epoch crc_reference rep_codec (audio_encoder_new example_audio_config) example_epoch = (e', Inr enc) \<and>
     length (ee_datagrams enc) = 4 \<and>
     inspect_multichannel_audio_datagram crc_reference rep_codec (adg_payload (ee_datagrams enc ! 3)) = Inr id \<and>
     did_source_index id = None \<and> did_session_id id = Some 77"
proof -
  let ?e = "audio_encoder_new example_audio_config"
  obtain geo where geo: "audio_sendable (ae_config ?e) example_epoch geo" "unat (ag_source_symbols geo) = 2"
    using example_audio_sendable by (auto simp: audio_encoder_new_def)
  have two: "unat (ac_repair_symbols (ae_config ?e)) = 2" and four: "2 + 2 = (4 :: nat)"
    by (simp_all add: audio_encoder_new_def example_audio_config_def)
  obtain e' enc where enc: "encode_epoch crc_reference rep_codec ?e example_epoch = (e', Inr enc)" "length (ee_datagrams enc) = 4"
    and all: "\<And>j. j < 4 \<Longrightarrow> inspect_multichannel_audio_datagram crc_reference rep_codec (adg_payload (ee_datagrams enc ! j)) =
         Inr \<lparr>did_block_id = audio_block_id ?e, did_packet_sequence = adg_packet_sequence (ee_datagrams enc ! j),
              did_source_index = (if j < 2 then Some (of_nat j) else None),
              did_session_id = Some (ep_session_id example_epoch)\<rparr>"
    using epoch_datagrams_routable [OF rep_codec_lawful rep_codec_systematic geo(1), of crc_reference]
    unfolding geo(2) two four Let_def by auto
  show ?thesis using enc all [of 3] by (auto simp: example_epoch_def)
qed

text \<open>
  A recovered block that is not an audio epoch leaves an entry behind. When the first datagram that
  reaches the decoder completes its block and the recovered object does not start with a shard, the
  push fails after the \<open>delivered\<close> map has got an entry for the block, which is in neither set of
  blocks: neither limit bounds such entries, so they accumulate, one for each block id.
\<close>
lemma failed_recovery_keeps_entry:
  assumes "rq_lawful rq" "block_data data s" "i < 2 ^ 24" "carries crc rq b data s i h x"
    and "block_symbols data s \<le> i" "length data = unat s * block_symbols data s"
    and "rq_decode rq (block_decoder rq (length data) s) (block_packet rq data s i) = (dec, Some data)"
    and "shard_decode (take (unat s) data) = Inl err"
    and "b \<notin> ad_completed d" "ad_delivered d b = None" "b \<notin> dec_completed (ad_fec d)" "dec_blocks (ad_fec d) b = None"
  shows "\<exists>d'. audio_push_datagram crc rq d x = (d', Inl err) \<and> ad_delivered d' = (ad_delivered d)(b \<mapsto> {}) \<and>
    ad_in_flight d' = ad_in_flight d \<and> ad_completed d' = ad_completed d"
proof -
  let ?p = "rq_serialize rq (block_packet rq data s i)" and ?k = "of_nat (block_symbols data s) :: u16"
  have acc: "accept_datagram crc x = Inr (h, ?p)" and hdr: "hdr_block_id h = b" "hdr_symbol_size h = s" "hdr_source_symbols h = ?k"
    using assms(4) by (simp_all add: carries_def)
  have parts: "decode_header x = Inr h" "header_payload crc h x = Inr ?p"
    using accept_split [OF acc] by (simp_all add: decode_header_def)
  note pk = lawful_serialize [OF assms(1-3)]
  have k: "unat ?k = block_symbols data s" "0 < block_symbols data s" using block_data_geometry(3,5) [OF assms(2)] by simp_all
  have len: "\<not> length ?p < ENCODING_PACKET_HEADER_LEN" using pk(2) by (simp add: ENCODING_PACKET_HEADER_LEN_def)
  have esi: "\<not> pkt_symbol_id (rq_deserialize rq ?p) < ucast ?k"
    using symbol_role_nat(2) [OF assms(3), of ?k] assms(5) k(1) pk(1,4) by simp
  obtain fec q where one: "push_datagram crc rq (ad_fec d) x = (fec, q)" by fastforce
  have cur: "current_decoder rq (ad_fec d) b data s = block_decoder rq (length data) s"
    by (simp add: current_decoder_def assms(12))
  have q: "q = Inr (Some data)"
    using push_carried(3) [OF assms(1-4) _ assms(7) [folded cur] one assms(11)] assms(12) by simp
  have eq: "audio_push_datagram crc rq d x = deliver_shards h None (Some data) (d\<lparr>ad_fec := fec\<rparr>)"
    unfolding audio_push_datagram_def parts sum.case hdr if_not_P [OF assms(9)] if_not_P [OF len] Let_def if_not_P [OF esi]
      one q by simp
  have s: "0 < unat s" using assms(2) by (simp add: block_data_def)
  have "data \<noteq> []" using assms(2) by (auto simp: block_data_def)
  then have chunk: "chunks (unat s) data = take (unat s) data # chunks (unat s) (drop (unat s) data)"
    using s by (subst chunks.simps) simp
  have bad: "decode_symbol b (take (unat s) data) ?k 0 Recovered = Inl err" by (simp add: decode_symbol_def assms(8))
  have before: "(case ad_delivered (d\<lparr>ad_fec := fec\<rparr>) b of Some s \<Rightarrow> s | None \<Rightarrow> {}) = {}" by (simp add: assms(10))
  have "deliver_shards h None (Some data) (d\<lparr>ad_fec := fec\<rparr>) =
      (d\<lparr>ad_fec := fec, ad_delivered := (ad_delivered d)(b \<mapsto> {})\<rparr>, Inl err)"
    using assms(6,10) bad by (simp add: deliver_shards_def Let_def hdr k(1) chunk)
  then show ?thesis using eq by simp
qed

lemma zero_block:
  "block_data [0, 0] 2" "block_symbols [0, 0] 2 = 1"
  "\<exists>dec. rq_decode rep_codec (block_decoder rep_codec (length [0 :: u8, 0]) 2) (block_packet rep_codec [0, 0] 2 1) =
     (dec, Some [0, 0])"
  "shard_decode [0, 0] = Inl (ShardTooShort 2)"
proof -
  show sym: "block_symbols [0, 0] 2 = 1" by (simp add: block_symbols_def div_ceil_def)
  show "block_data [0, 0] 2" by (simp add: block_data_def sym U32_MAX_def)
  have packet: "block_packet rep_codec [0, 0] 2 1 = \<lparr>pkt_source_block = 0, pkt_symbol_id = 1, pkt_data = [0, 0]\<rparr>"
    by (simp add: block_packet_def block_encoder_def sym exact_one_block_oti_def rep_packet_def pad_symbol_def div_ceil_def
        Let_def max_one)
  show "\<exists>dec. rq_decode rep_codec (block_decoder rep_codec (length [0 :: u8, 0]) 2) (block_packet rep_codec [0, 0] 2 1) =
      (dec, Some [0, 0])"
    unfolding packet by (simp add: block_decoder_def exact_one_block_oti_def rep_decode_def div_ceil_def Let_def max_one)
  show "shard_decode [0, 0] = Inl (ShardTooShort 2)" by (simp add: shard_decode_def SHARD_HEADER_LEN_def)
qed

lemma failed_recovery_keeps_entry_witness:
  "\<exists>d'. audio_push_datagram crc_reference rep_codec audio_decoder_new (sent crc_reference rep_codec 7 [0, 0] 2 (3, 1)) =
      (d', Inl (ShardTooShort 2)) \<and> ad_delivered d' 7 = Some {} \<and> ad_in_flight d' = {}"
proof -
  obtain dec where dec: "rq_decode rep_codec (block_decoder rep_codec (length [0 :: u8, 0]) 2) (block_packet rep_codec [0, 0] 2 1) =
      (dec, Some [0, 0])" using zero_block(3) by blast
  let ?new = "audio_decoder_new :: rep_decoder audio_decoder"
  have new: "7 \<notin> ad_completed ?new" "ad_delivered ?new 7 = None" "7 \<notin> dec_completed (ad_fec ?new)"
    "dec_blocks (ad_fec ?new) 7 = None" "ad_in_flight ?new = {}"
    by (simp_all add: audio_decoder_new_def decoder_new_def)
  have i: "(1 :: nat) < 2 ^ 24" "block_symbols [0, 0] 2 \<le> 1" "length [0 :: u8, 0] = unat (2 :: u16) * block_symbols [0, 0] 2"
    and bad: "shard_decode (take (unat (2 :: u16)) [0, 0]) = Inl (ShardTooShort 2)"
    by (simp_all add: zero_block(2,4))
  note car = sent_carries [OF rep_codec_lawful zero_block(1) i(1), of crc_reference 7 3]
  from failed_recovery_keeps_entry [OF rep_codec_lawful zero_block(1) i(1) car i(2,3) dec bad new(1-4)]
  have "\<exists>d'. audio_push_datagram crc_reference rep_codec ?new (sent crc_reference rep_codec 7 [0, 0] 2 (3, 1)) =
      (d', Inl (ShardTooShort 2)) \<and> ad_delivered d' = (ad_delivered ?new)(7 \<mapsto> {}) \<and>
      ad_in_flight d' = ad_in_flight ?new \<and> ad_completed d' = ad_completed ?new" .
  then show ?thesis using new(5) by auto
qed

end
