(* ===== verification/Audio_Reassembly.thy ===== *)
theory Audio_Reassembly
  imports Audio_Assembly Audio_Delivery
begin

text \<open>
  Reassembly is exact: the shards of one epoch, each once and in any order, give every group of the epoch
  as soon as its last fragment arrives, and the epoch with its last group.
\<close>

section \<open>Where a fragment stands\<close>

definition fragment_total :: "audio_epoch \<Rightarrow> audio_geometry \<Rightarrow> nat \<Rightarrow> nat" where
  "fragment_total ep geo gi = div_ceil (group_len (ep_groups ep ! gi)) (ag_fragment_payload geo)"

definition fragment_ids :: "audio_epoch \<Rightarrow> audio_geometry \<Rightarrow> (nat \<times> nat) set" where
  "fragment_ids ep geo = {(gi, i). gi < length (ep_groups ep) \<and> i < fragment_total ep geo gi}"

definition fragment_position :: "audio_epoch \<Rightarrow> audio_geometry \<Rightarrow> nat \<times> nat \<Rightarrow> nat" where
  "fragment_position ep geo x =
     symbols_needed (ag_fragment_payload geo) (take (fst x) (ep_groups ep)) + snd x"

definition shard_pair :: "audio_epoch \<Rightarrow> audio_geometry \<Rightarrow> nat \<times> nat \<Rightarrow> nat \<Rightarrow> shard_header \<times> bytes" where
  "shard_pair ep geo x j =
     fragment_shard ep geo (fst x, ep_groups ep ! fst x) (fragment_total ep geo (fst x)) (snd x, j)"

lemma symbols_needed_append [simp]: "symbols_needed fp (xs @ ys) = symbols_needed fp xs + symbols_needed fp ys"
  by (simp add: symbols_needed_def)

lemma shards_from_append:
  "shards_from ep geo j (xs @ ys) =
   shards_from ep geo j xs @ shards_from ep geo (j + symbols_needed (ag_fragment_payload geo) (map snd xs)) ys"
  by (induction xs arbitrary: j) (simp_all add: add.assoc)

lemma shard_at_position:
  assumes "x \<in> fragment_ids ep geo"
  shows "fragment_position ep geo x < length (epoch_shards ep geo)"
    "epoch_shards ep geo ! fragment_position ep geo x = shard_pair ep geo x (fragment_position ep geo x)"
proof -
  let ?fp = "ag_fragment_payload geo" and ?gs = "ep_groups ep"
  obtain gi i where x: "x = (gi, i)" and gi: "gi < length ?gs" and i: "i < fragment_total ep geo gi"
    using assms by (auto simp: fragment_ids_def)
  have split: "?gs = take gi ?gs @ ?gs ! gi # drop (Suc gi) ?gs" using gi by (rule id_take_nth_drop)
  have en: "enumerate 0 ?gs = enumerate 0 (take gi ?gs) @ (gi, ?gs ! gi) # enumerate (Suc gi) (drop (Suc gi) ?gs)"
    using gi by (subst split) (simp add: enumerate_append_eq min_def)
  let ?st = "symbols_needed ?fp (take gi ?gs)"
  have shards: "epoch_shards ep geo = shards_from ep geo 0 (enumerate 0 (take gi ?gs)) @
      group_shards ep geo (gi, ?gs ! gi) ?st @
      shards_from ep geo (?st + fragment_total ep geo gi) (enumerate (Suc gi) (drop (Suc gi) ?gs))"
    unfolding epoch_shards_def en by (simp add: shards_from_append fragment_total_def)
  have len: "length (shards_from ep geo 0 (enumerate 0 (take gi ?gs))) = ?st" by (simp add: length_shards_from)
  show "fragment_position ep geo x < length (epoch_shards ep geo)"
    unfolding shards using i by (simp add: len x fragment_position_def fragment_total_def)
  show "epoch_shards ep geo ! fragment_position ep geo x = shard_pair ep geo x (fragment_position ep geo x)"
    unfolding shards using i
    by (simp add: len x fragment_position_def fragment_total_def nth_append group_shards_def shard_pair_def)
qed

lemma position_less:
  assumes "(gi, i) \<in> fragment_ids ep geo" "gi < gi'" "gi' < length (ep_groups ep)"
  shows "fragment_position ep geo (gi, i) < fragment_position ep geo (gi', i')"
proof -
  let ?gs = "ep_groups ep" and ?fp = "ag_fragment_payload geo"
  have "take gi' ?gs = take gi ?gs @ ?gs ! gi # drop (Suc gi) (take gi' ?gs)"
    using assms(2,3) id_take_nth_drop [of gi "take gi' ?gs"] by (simp add: min_def)
  then have "symbols_needed ?fp (take gi' ?gs) =
      symbols_needed ?fp (take gi ?gs) + (fragment_total ep geo gi + symbols_needed ?fp (drop (Suc gi) (take gi' ?gs)))"
    by (metis symbols_needed_append symbols_needed_simps(2) fragment_total_def)
  then show ?thesis using assms(1) by (simp add: fragment_position_def fragment_ids_def)
qed

lemma position_inj: "inj_on (fragment_position ep geo) (fragment_ids ep geo)"
proof (rule inj_onI)
  fix x y
  assume xy: "x \<in> fragment_ids ep geo" "y \<in> fragment_ids ep geo" "fragment_position ep geo x = fragment_position ep geo y"
  then have "fst x = fst y"
    using position_less [of "fst x" "snd x" ep geo "fst y" "snd y"] position_less [of "fst y" "snd y" ep geo "fst x" "snd x"]
    by (cases "fst x" "fst y" rule: linorder_cases) (auto simp: fragment_ids_def)
  then show "x = y" using xy(3) by (simp add: fragment_position_def prod_eq_iff)
qed

lemma card_fragment_ids: "card (fragment_ids ep geo) = length (epoch_shards ep geo)"
proof -
  have "fragment_ids ep geo = Sigma {..<length (ep_groups ep)} (\<lambda>gi. {..<fragment_total ep geo gi})"
    by (auto simp: fragment_ids_def)
  then have "card (fragment_ids ep geo) = (\<Sum>gi < length (ep_groups ep). fragment_total ep geo gi)"
    by simp
  also have "\<dots> = sum_list (map (fragment_total ep geo) [0..<length (ep_groups ep)])"
    by (simp add: sum_list_sum_nth atLeast0LessThan)
  also have "map (fragment_total ep geo) [0..<length (ep_groups ep)] =
      map (\<lambda>g. div_ceil (group_len g) (ag_fragment_payload geo)) (ep_groups ep)"
    by (rule nth_equalityI) (simp_all add: fragment_total_def)
  finally show ?thesis by (simp add: length_epoch_shards symbols_needed_def)
qed

lemma position_surj:
  assumes "j < length (epoch_shards ep geo)"
  shows "\<exists>x \<in> fragment_ids ep geo. fragment_position ep geo x = j"
proof -
  have "0 < card (fragment_ids ep geo)"
    unfolding card_fragment_ids using assms by (rule le_less_trans [OF le0])
  then have fin: "finite (fragment_ids ep geo)" by (rule card_ge_0_finite)
  have sub: "fragment_position ep geo ` fragment_ids ep geo \<subseteq> {..<length (epoch_shards ep geo)}"
    using shard_at_position(1) by blast
  have "card (fragment_position ep geo ` fragment_ids ep geo) = card {..<length (epoch_shards ep geo)}"
    by (simp add: card_image [OF position_inj] card_fragment_ids)
  then have "fragment_position ep geo ` fragment_ids ep geo = {..<length (epoch_shards ep geo)}"
    by (intro card_subset_eq [OF _ sub]) simp_all
  then have "j \<in> fragment_position ep geo ` fragment_ids ep geo" using assms by simp
  then show ?thesis by blast
qed

section \<open>The payload of a group\<close>

definition fragment_of :: "audio_epoch \<Rightarrow> audio_geometry \<Rightarrow> nat \<Rightarrow> nat \<Rightarrow> fragment" where
  "fragment_of ep geo gi i =
     \<lparr>fr_offset = of_nat (i * ag_fragment_payload geo),
      fr_payload = fragment_payload_of (ep_groups ep ! gi) (ag_fragment_payload geo) i\<rparr>"

lemma fragment_payload_take:
  "i * fp \<le> length (gp_payload g) \<Longrightarrow> fragment_payload_of g fp i = take fp (drop (i * fp) (gp_payload g))"
  by (auto simp: fragment_payload_of_def sub_slice_def Let_def min_def)

definition group_fine :: "audio_epoch \<Rightarrow> audio_geometry \<Rightarrow> nat \<Rightarrow> bool" where
  "group_fine ep geo gi \<longleftrightarrow>
     0 < ag_fragment_payload geo \<and> length (gp_payload (ep_groups ep ! gi)) \<le> U32_MAX"

lemma fragment_start:
  assumes "group_fine ep geo gi" "i < fragment_total ep geo gi"
  shows "i * ag_fragment_payload geo \<le> length (gp_payload (ep_groups ep ! gi))"
    "unat (fr_offset (fragment_of ep geo gi i)) = i * ag_fragment_payload geo"
proof -
  show le: "i * ag_fragment_payload geo \<le> length (gp_payload (ep_groups ep ! gi))"
    using fragment_range(3) [of "ag_fragment_payload geo" i "ep_groups ep ! gi"] assms
    by (simp add: group_fine_def fragment_total_def)
  show "unat (fr_offset (fragment_of ep geo gi i)) = i * ag_fragment_payload geo"
    unfolding fragment_of_def fragment.simps using assms(1) le by (intro unat_of_nat_32) (simp add: group_fine_def)
qed

lemma join_fragments_from:
  assumes "group_fine ep geo gi" "k \<le> fragment_total ep geo gi"
  defines "p \<equiv> gp_payload (ep_groups ep ! gi)"
  shows "join_at (map (fragment_of ep geo gi) [k..<fragment_total ep geo gi]) (take (k * ag_fragment_payload geo) p) = Some p"
  using assms(2)
proof (induction "fragment_total ep geo gi - k" arbitrary: k)
  case 0
  then have "k = fragment_total ep geo gi" by simp
  moreover have "length p \<le> fragment_total ep geo gi * ag_fragment_payload geo"
    using div_ceil_upper [of "ag_fragment_payload geo" "group_len (ep_groups ep ! gi)"] assms(1)
    by (simp add: group_fine_def fragment_total_def group_len_def p_def)
  ultimately show ?case by simp
next
  case (Suc m)
  let ?fp = "ag_fragment_payload geo"
  have k: "k < fragment_total ep geo gi" using Suc.hyps(2) by simp
  have upt: "[k..<fragment_total ep geo gi] = k # [Suc k..<fragment_total ep geo gi]" using k by (rule upt_conv_Cons)
  note st = fragment_start [OF assms(1) k, folded p_def]
  have pl: "fr_payload (fragment_of ep geo gi k) = take ?fp (drop (k * ?fp) p)"
    using st(1) by (simp add: fragment_of_def fragment_payload_take p_def)
  have joined: "take (k * ?fp) p @ take ?fp (drop (k * ?fp) p) = take (Suc k * ?fp) p"
    by (simp add: take_add [symmetric] add.commute)
  have "join_at (map (fragment_of ep geo gi) [Suc k..<fragment_total ep geo gi]) (take (Suc k * ?fp) p) = Some p"
    using Suc.hyps(1) [of "Suc k"] Suc.hyps(2) k by simp
  then show ?case unfolding upt using st by (simp add: pl joined)
qed

lemma join_group:
  assumes "group_fine ep geo gi"
  shows "join_at (sort_key fr_offset (map (fragment_of ep geo gi) [0..<fragment_total ep geo gi])) [] =
    Some (gp_payload (ep_groups ep ! gi))"
proof -
  have "sorted (map fr_offset (map (fragment_of ep geo gi) [0..<fragment_total ep geo gi]))"
    unfolding sorted_iff_nth_mono
    using fragment_start(2) [OF assms] by (simp add: word_le_nat_alt)
  then have "sort_key fr_offset (map (fragment_of ep geo gi) [0..<fragment_total ep geo gi]) =
      map (fragment_of ep geo gi) [0..<fragment_total ep geo gi]" by (rule sort_key_id_if_sorted)
  then show ?thesis using join_fragments_from [OF assms, of 0] by simp
qed

section \<open>One group\<close>

definition group_header_of :: "audio_epoch \<Rightarrow> audio_geometry \<Rightarrow> nat \<Rightarrow> shard_header \<Rightarrow> bool" where
  "group_header_of ep geo gi h \<longleftrightarrow> (\<exists>i j. h = fst (shard_pair ep geo (gi, i) j))"

definition fragments_in :: "audio_epoch \<Rightarrow> audio_geometry \<Rightarrow> (nat \<times> nat) set \<Rightarrow> nat \<Rightarrow> fragment option list" where
  "fragments_in ep geo S gi =
     map (\<lambda>i. if (gi, i) \<in> S then Some (fragment_of ep geo gi i) else None) [0..<fragment_total ep geo gi]"

definition whole_group :: "audio_epoch \<Rightarrow> audio_geometry \<Rightarrow> (nat \<times> nat) set \<Rightarrow> nat \<Rightarrow> bool" where
  "whole_group ep geo S gi \<longleftrightarrow> (\<forall>i < fragment_total ep geo gi. (gi, i) \<in> S)"

text \<open>The group as its receiver sees it, but for the number of recovered fragments.\<close>

definition exact_group :: "audio_epoch \<Rightarrow> nat \<Rightarrow> decoded_group \<Rightarrow> bool" where
  "exact_group ep gi g \<longleftrightarrow>
     (let s = ep_groups ep ! gi in g\<lparr>dg_recovered_fragments := 0\<rparr> =
       \<lparr>dg_session_id = ep_session_id ep, dg_config_generation = ep_config_generation ep,
        dg_epoch_id = ep_epoch_id ep, dg_pts_samples = ep_pts_samples ep, dg_sample_rate = ep_sample_rate ep,
        dg_frame_count = ep_frame_count ep, dg_group_count = of_nat (length (ep_groups ep)),
        dg_group_id = gp_group_id s, dg_group_index = of_nat gi, dg_channel_start = gp_channel_start s,
        dg_channel_count = gp_channel_count s, dg_payload_kind = gp_payload_kind s,
        dg_sample_format = gp_sample_format s, dg_flags = gp_flags s, dg_payload = gp_payload s,
        dg_recovered_fragments = 0\<rparr>)"

definition partial_group :: "audio_epoch \<Rightarrow> audio_geometry \<Rightarrow> (nat \<times> nat) set \<Rightarrow> nat \<Rightarrow> group_assembly \<Rightarrow> bool" where
  "partial_group ep geo S gi a \<longleftrightarrow> group_header_of ep geo gi (ga_header a) \<and> ga_fragments a = fragments_in ep geo S gi"

lemma group_header_accepted:
  "group_header_of ep geo gi (ga_header a) \<Longrightarrow> group_header_of ep geo gi h \<Longrightarrow> group_validate_header a h = Inr ()"
  by (auto simp: group_validate_header_def group_header_of_def shard_pair_def shard_header_of_def Let_def)

lemma length_fragments_in [simp]: "length (fragments_in ep geo S gi) = fragment_total ep geo gi"
  by (simp add: fragments_in_def)

lemma fragments_in_update:
  assumes "i < fragment_total ep geo gi"
  shows "(fragments_in ep geo S gi)[i := Some (fragment_of ep geo gi i)] = fragments_in ep geo (insert (gi, i) S) gi"
  using assms by (intro nth_equalityI) (auto simp: fragments_in_def nth_list_update)

lemma fragments_in_gap: "(\<exists>f \<in> set (fragments_in ep geo S gi). f = None) \<longleftrightarrow> \<not> whole_group ep geo S gi"
  by (auto simp: fragments_in_def whole_group_def)

lemma whole_fragments:
  assumes "whole_group ep geo S gi"
  shows "List.map_filter id (fragments_in ep geo S gi) = map (fragment_of ep geo gi) [0..<fragment_total ep geo gi]"
proof -
  have "fragments_in ep geo S gi = map (\<lambda>i. Some (fragment_of ep geo gi i)) [0..<fragment_total ep geo gi]"
    using assms by (auto simp: fragments_in_def whole_group_def)
  then show ?thesis by (simp add: List.map_filter_def comp_def)
qed

lemma exact_group_of:
  "group_header_of ep geo gi (ga_header a) \<Longrightarrow> exact_group ep gi (group_of a (gp_payload (ep_groups ep ! gi)))"
  by (auto simp: group_header_of_def exact_group_def group_of_def shard_pair_def shard_header_of_def Let_def)

lemma group_push_exact:
  assumes fine: "group_fine ep geo gi" and i: "i < fragment_total ep geo gi" "fragment_total ep geo gi \<le> 65535"
    and a: "partial_group ep geo S gi a" and new: "(gi, i) \<notin> S"
    and push: "group_push a (shard_at b r (shard_pair ep geo (gi, i) j)) = (a', res)"
  shows "partial_group ep geo (insert (gi, i) S) gi a' \<and>
    (if whole_group ep geo (insert (gi, i) S) gi then \<exists>g. res = Inr (Some g) \<and> exact_group ep gi g else res = Inr None)"
proof -
  let ?x = "shard_at b r (shard_pair ep geo (gi, i) j)" and ?S = "insert (gi, i) S"
  have h: "group_header_of ep geo gi (dsh_header ?x)" by (auto simp: group_header_of_def)
  have ga: "group_header_of ep geo gi (ga_header a)" and fr: "ga_fragments a = fragments_in ep geo S gi"
    using a by (simp_all add: partial_group_def)
  have idx: "unat (sh_fragment_index (dsh_header ?x)) = i"
    using i by (simp add: shard_pair_def shard_header_of_def unat_of_nat_16)
  have frag: "\<lparr>fr_offset = sh_payload_offset (dsh_header ?x), fr_payload = dsh_payload ?x\<rparr> = fragment_of ep geo gi i"
    by (simp add: shard_pair_def shard_header_of_def fragment_of_def)
  have gap: "ga_fragments a ! i = None" using new i by (simp add: fr fragments_in_def)
  define a1 where "a1 = a\<lparr>ga_recovered_fragments := (if dsh_recovery ?x = Recovered then sat_add (ga_recovered_fragments a) 1
      else ga_recovered_fragments a), ga_fragments := fragments_in ep geo ?S gi\<rparr>"
  have a1: "partial_group ep geo ?S gi a1" using ga by (simp add: a1_def partial_group_def)
  have gl: "unat (sh_group_payload_len (ga_header a1)) = length (gp_payload (ep_groups ep ! gi))"
    using a1 fine by (auto simp: partial_group_def group_header_of_def shard_pair_def shard_header_of_def group_fine_def unat_of_nat_32)
  have "group_push a ?x =
     (if \<exists>f \<in> set (ga_fragments a1). f = None then (a1, Inr None)
      else (case join_at (sort_key fr_offset (List.map_filter id (ga_fragments a1))) [] of
         None \<Rightarrow> (a1, Inl (NonContiguousGroupPayload (dsh_block_id ?x) (sh_group_index (ga_header a1))))
       | Some payload \<Rightarrow>
           if length payload \<noteq> unat (sh_group_payload_len (ga_header a1)) then
             (a1, Inl (NonContiguousGroupPayload (dsh_block_id ?x) (sh_group_index (ga_header a1))))
           else (a1, Inr (Some (group_of a1 payload)))))"
    using gap unfolding group_push_def group_header_accepted [OF ga h] sum.case Let_def idx frag fr
      fragments_in_update [OF i(1)] a1_def by simp
  moreover have "ga_fragments a1 = fragments_in ep geo ?S gi" by (simp add: a1_def)
  ultimately have "group_push a ?x =
     (if whole_group ep geo ?S gi then (a1, Inr (Some (group_of a1 (gp_payload (ep_groups ep ! gi))))) else (a1, Inr None))"
    using fragments_in_gap [of ep geo ?S gi] by (simp add: whole_fragments join_group [OF fine] gl)
  moreover have "exact_group ep gi (group_of a1 (gp_payload (ep_groups ep ! gi)))"
    using a1 by (intro exact_group_of [of ep geo]) (simp add: partial_group_def)
  ultimately show ?thesis using push a1 by (auto split: if_splits)
qed

section \<open>One epoch\<close>

definition epoch_fields :: "audio_epoch \<Rightarrow> audio_geometry \<Rightarrow> u32 \<Rightarrow> epoch_assembly \<Rightarrow> bool" where
  "epoch_fields ep geo b a \<longleftrightarrow>
     ea_block_id a = b \<and> ea_session_id a = ep_session_id ep \<and> ea_config_generation a = ep_config_generation ep \<and>
     ea_epoch_id a = ep_epoch_id ep \<and> ea_pts_samples a = ep_pts_samples ep \<and> ea_sample_rate a = ep_sample_rate ep \<and>
     ea_frame_count a = ep_frame_count ep \<and> ea_group_count a = of_nat (length (ep_groups ep)) \<and>
     ea_source_count a = ag_source_symbols geo \<and> length (ea_groups a) = length (ep_groups ep)"

definition epoch_fine :: "audio_epoch \<Rightarrow> audio_geometry \<Rightarrow> bool" where
  "epoch_fine ep geo \<longleftrightarrow> length (ep_groups ep) \<le> 65535 \<and>
     (\<forall>gi < length (ep_groups ep). group_fine ep geo gi \<and> fragment_total ep geo gi \<le> 65535)"

definition group_state :: "audio_epoch \<Rightarrow> audio_geometry \<Rightarrow> (nat \<times> nat) set \<Rightarrow> nat \<Rightarrow> epoch_assembly \<Rightarrow> bool" where
  "group_state ep geo S gi a \<longleftrightarrow>
     (if whole_group ep geo S gi then \<exists>g. ea_groups a ! gi = Some g \<and> exact_group ep gi g
      else ea_groups a ! gi = None \<and>
        (case ea_partial_groups a (of_nat gi) of
           None \<Rightarrow> \<forall>i. (gi, i) \<notin> S
         | Some grp \<Rightarrow> partial_group ep geo S gi grp))"

definition assembled :: "audio_epoch \<Rightarrow> audio_geometry \<Rightarrow> u32 \<Rightarrow> (nat \<times> nat) set \<Rightarrow> epoch_assembly \<Rightarrow> bool" where
  "assembled ep geo b S a \<longleftrightarrow>
     epoch_fields ep geo b a \<and> (\<forall>gi < length (ep_groups ep). group_state ep geo S gi a)"

lemma epoch_header_accepted:
  "epoch_fields ep geo b a \<Longrightarrow> epoch_validate_header a (fst (shard_pair ep geo x j)) = Inr ()"
  by (simp add: epoch_validate_header_def epoch_fields_def shard_pair_def shard_header_of_def)

lemma new_partial_group:
  assumes "\<forall>i. (gi, i) \<notin> S" "fragment_total ep geo gi \<le> 65535"
  shows "partial_group ep geo S gi (group_assembly_new b (fst (shard_pair ep geo (gi, i) j)))"
proof -
  have "unat (sh_fragment_count (fst (shard_pair ep geo (gi, i) j))) = fragment_total ep geo gi"
    using assms(2) by (simp add: shard_pair_def shard_header_of_def unat_of_nat_16)
  moreover have "fragments_in ep geo S gi = replicate (fragment_total ep geo gi) None"
    using assms(1) by (simp add: fragments_in_def map_replicate_const)
  ultimately show ?thesis
    by (auto simp: partial_group_def group_assembly_new_def group_header_of_def)
qed

lemma other_group_state:
  assumes "group_state ep geo S gi' a" "gi' \<noteq> gi" "gi < 65536" "gi' < 65536"
    and "ea_groups a' ! gi' = ea_groups a ! gi'" "ea_partial_groups a' = (ea_partial_groups a)(of_nat gi := v)"
  shows "group_state ep geo (insert (gi, i) S) gi' a'"
proof -
  have "(of_nat gi' :: u16) \<noteq> of_nat gi" using assms(2-4) by (simp add: of_nat_inj16)
  moreover have "whole_group ep geo (insert (gi, i) S) gi' = whole_group ep geo S gi'"
    "fragments_in ep geo (insert (gi, i) S) gi' = fragments_in ep geo S gi'"
    using assms(2) by (auto simp: whole_group_def fragments_in_def)
  ultimately show ?thesis
    using assms(1,2,5,6) by (auto simp: group_state_def partial_group_def split: option.splits)
qed

lemma epoch_push_exact:
  assumes fine: "epoch_fine ep geo" and x: "(gi, i) \<in> fragment_ids ep geo" and a: "assembled ep geo b S a"
    and new: "(gi, i) \<notin> S"
    and push: "epoch_push a (shard_at b r (shard_pair ep geo (gi, i) j)) = (a', res)"
  shows "assembled ep geo b (insert (gi, i) S) a' \<and>
    (if whole_group ep geo (insert (gi, i) S) gi then \<exists>g. res = Inr (Some g) \<and> exact_group ep gi g else res = Inr None)"
proof -
  let ?x = "shard_at b r (shard_pair ep geo (gi, i) j)" and ?S = "insert (gi, i) S"
  have gi: "gi < length (ep_groups ep)" "i < fragment_total ep geo gi" using x by (simp_all add: fragment_ids_def)
  have g: "group_fine ep geo gi" "fragment_total ep geo gi \<le> 65535" "length (ep_groups ep) \<le> 65535"
    using fine gi by (simp_all add: epoch_fine_def)
  have fields: "epoch_fields ep geo b a" and st: "group_state ep geo S gi a"
    and others: "\<And>k. k < length (ep_groups ep) \<Longrightarrow> group_state ep geo S k a"
    using a gi by (simp_all add: assembled_def)
  have idx: "sh_group_index (dsh_header ?x) = of_nat gi" by (simp add: shard_pair_def shard_header_of_def)
  have un: "unat (of_nat gi :: u16) = gi" using gi g(3) by (intro unat_of_nat_16) simp
  have part: "\<not> whole_group ep geo S gi" using new gi by (auto simp: whole_group_def)
  have none: "ea_groups a ! gi = None" using st part by (simp add: group_state_def)
  define grp where "grp = (case ea_partial_groups a (of_nat gi) of Some g \<Rightarrow> g
      | None \<Rightarrow> group_assembly_new (ea_block_id a) (dsh_header ?x))"
  have grp: "partial_group ep geo S gi grp"
    using st part new_partial_group [OF _ g(2)] by (auto simp: grp_def group_state_def split: option.splits)
  obtain grp1 q where one: "group_push grp ?x = (grp1, q)" by fastforce
  note gp = group_push_exact [OF g(1) gi(2) g(2) grp new one]
  have acc: "epoch_validate_header a (dsh_header ?x) = Inr ()"
    using epoch_header_accepted [OF fields] by simp
  have eq: "epoch_push a ?x = (case (grp1, q) of
        (grp1, Inl err) \<Rightarrow> (a\<lparr>ea_partial_groups := (ea_partial_groups a)(of_nat gi \<mapsto> grp1)\<rparr>, Inl err)
      | (grp1, Inr None) \<Rightarrow> (a\<lparr>ea_partial_groups := (ea_partial_groups a)(of_nat gi \<mapsto> grp1)\<rparr>, Inr None)
      | (grp1, Inr (Some completed)) \<Rightarrow>
          (a\<lparr>ea_partial_groups := (ea_partial_groups a)(of_nat gi := None),
             ea_groups := (ea_groups a)[gi := Some completed]\<rparr>, Inr (Some completed)))"
    using none unfolding epoch_push_def acc sum.case Let_def idx un grp_def [symmetric] one by simp
  have small: "k < length (ep_groups ep) \<Longrightarrow> k < 65536" for k using g(3) by simp
  show ?thesis
  proof (cases "whole_group ep geo ?S gi")
    case True
    then obtain c where c: "q = Inr (Some c)" "exact_group ep gi c" using gp by auto
    let ?a = "a\<lparr>ea_partial_groups := (ea_partial_groups a)(of_nat gi := None), ea_groups := (ea_groups a)[gi := Some c]\<rparr>"
    have a': "a' = ?a" "res = Inr (Some c)" using push unfolding eq c(1) by simp_all
    have "group_state ep geo ?S k ?a" if "k < length (ep_groups ep)" for k
    proof (cases "k = gi")
      case True
      then show ?thesis using \<open>whole_group ep geo ?S gi\<close> c(2) gi fields by (simp add: group_state_def epoch_fields_def)
    next
      case False
      then show ?thesis by (intro other_group_state [OF others [OF that] _ small [OF gi(1)] small [OF that]]) simp_all
    qed
    moreover have "epoch_fields ep geo b ?a" using fields by (simp add: epoch_fields_def)
    ultimately show ?thesis using True c by (simp add: assembled_def a')
  next
    case False
    then have c: "q = Inr None" "partial_group ep geo ?S gi grp1" using gp by auto
    let ?a = "a\<lparr>ea_partial_groups := (ea_partial_groups a)(of_nat gi \<mapsto> grp1)\<rparr>"
    have a': "a' = ?a" "res = Inr None" using push unfolding eq c(1) by simp_all
    have "group_state ep geo ?S k ?a" if "k < length (ep_groups ep)" for k
    proof (cases "k = gi")
      case True
      then show ?thesis using \<open>\<not> whole_group ep geo ?S gi\<close> c(2) none by (simp add: group_state_def)
    next
      case False
      then show ?thesis by (intro other_group_state [OF others [OF that] _ small [OF gi(1)] small [OF that]]) simp_all
    qed
    moreover have "epoch_fields ep geo b ?a" using fields by (simp add: epoch_fields_def)
    ultimately show ?thesis using False by (simp add: assembled_def a')
  qed
qed

definition exact_epoch :: "audio_epoch \<Rightarrow> decoded_epoch \<Rightarrow> bool" where
  "exact_epoch ep e \<longleftrightarrow>
     de_session_id e = ep_session_id ep \<and> de_config_generation e = ep_config_generation ep \<and>
     de_epoch_id e = ep_epoch_id ep \<and> de_pts_samples e = ep_pts_samples ep \<and> de_sample_rate e = ep_sample_rate ep \<and>
     de_frame_count e = ep_frame_count ep \<and> length (de_groups e) = length (ep_groups ep) \<and>
     (\<forall>gi < length (ep_groups ep). exact_group ep gi (de_groups e ! gi))"

lemma assembled_complete:
  assumes "assembled ep geo b S a"
  shows "epoch_is_complete a \<longleftrightarrow> (\<forall>gi < length (ep_groups ep). whole_group ep geo S gi)"
  using assms by (fastforce simp: assembled_def epoch_is_complete_def epoch_fields_def group_state_def all_set_conv_all_nth
      split: if_splits)

lemma map_filter_id_Some: "\<forall>x \<in> set xs. x \<noteq> None \<Longrightarrow> List.map_filter id xs = map the xs"
  by (induction xs) (auto simp: List.map_filter_def)

lemma assembled_finish:
  assumes a: "assembled ep geo b S a" and c: "epoch_is_complete a"
  shows "\<exists>e. epoch_finish a = Inr e \<and> exact_epoch ep e"
proof -
  have some: "\<forall>x \<in> set (ea_groups a). x \<noteq> None" using c by (simp add: epoch_is_complete_def)
  have len: "length (ea_groups a) = length (ep_groups ep)" using a by (simp add: assembled_def epoch_fields_def)
  have "exact_group ep gi (the (ea_groups a ! gi))" if gi: "gi < length (ep_groups ep)" for gi
  proof -
    have "whole_group ep geo S gi" "group_state ep geo S gi a"
      using assembled_complete [OF a] c a gi by (simp_all add: assembled_def)
    then show ?thesis by (auto simp: group_state_def)
  qed
  then show ?thesis
    using some a len by (auto simp: epoch_finish_def map_filter_id_Some exact_epoch_def assembled_def epoch_fields_def)
qed

lemma assembled_new:
  assumes fine: "epoch_fine ep geo"
  shows "assembled ep geo b {} (epoch_assembly_new b (fst (shard_pair ep geo x j)))"
proof -
  have count: "unat (of_nat (length (ep_groups ep)) :: u16) = length (ep_groups ep)"
    using fine by (intro unat_of_nat_16) (simp add: epoch_fine_def)
  have "\<not> whole_group ep geo {} gi" if "gi < length (ep_groups ep)" for gi
  proof -
    have "0 < ag_fragment_payload geo" using fine that by (simp add: epoch_fine_def group_fine_def)
    then have "0 < fragment_total ep geo gi" by (simp add: fragment_total_def div_ceil_pos)
    then show ?thesis by (auto simp: whole_group_def)
  qed
  then show ?thesis
    by (simp add: assembled_def epoch_fields_def group_state_def epoch_assembly_new_def shard_pair_def shard_header_of_def count)
qed

end
