(* ===== verification/Audio_Playout.thy ===== *)
theory Audio_Playout
  imports Audio_Assembly
begin

text \<open>
  \<^verbatim>\<open>music-audio-session/src/lib.rs\<close>, lines 371 to 459: the exact-or-missing playout buffer. Its
  \<open>BTreeMap\<close> is the list of its entries in ascending order of the presentation time. The buffer refines
  a plain finite map with an eviction of the oldest entry.
\<close>

section \<open>The playout buffer\<close>

datatype playout_read = Exact decoded_epoch | Missing u64
datatype insert_outcome = Inserted | DuplicateOrLate | EvictedStale nat

record playout_buffer =
  pb_epochs :: "(u64 \<times> decoded_epoch) list"
  pb_max_buffered :: nat
  pb_last_played :: "u64 option"

definition playout_new :: "nat \<Rightarrow> playout_buffer" where
  "playout_new n = \<lparr>pb_epochs = [], pb_max_buffered = max n 1, pb_last_played = None\<rparr>"

definition contains_pts :: "playout_buffer \<Rightarrow> u64 \<Rightarrow> bool" where
  "contains_pts pb pts = (pts \<in> set (map fst (pb_epochs pb)))"

definition late_for :: "playout_buffer \<Rightarrow> u64 \<Rightarrow> bool" where
  "late_for pb pts = (case pb_last_played pb of Some played \<Rightarrow> pts \<le> played | None \<Rightarrow> False)"

definition playout_insert :: "decoded_epoch \<Rightarrow> playout_buffer \<Rightarrow> playout_buffer \<times> insert_outcome" where
  "playout_insert epoch pb =
     (if late_for pb (de_pts_samples epoch) \<or> contains_pts pb (de_pts_samples epoch) then (pb, DuplicateOrLate)
      else
        (let epochs = insort_key fst (de_pts_samples epoch, epoch) (pb_epochs pb)
         in if length epochs \<le> pb_max_buffered pb then (pb\<lparr>pb_epochs := epochs\<rparr>, Inserted)
            else
              (let overflow = length epochs - pb_max_buffered pb;
                   stale = map fst (take overflow epochs)
               in (pb\<lparr>pb_epochs := filter (\<lambda>x. fst x \<notin> set stale) epochs\<rparr>, EvictedStale overflow))))"

definition playout_expire_before :: "u64 \<Rightarrow> playout_buffer \<Rightarrow> playout_buffer \<times> nat" where
  "playout_expire_before pts pb =
     (let stale = takeWhile (\<lambda>p. p < pts) (map fst (pb_epochs pb))
      in (pb\<lparr>pb_epochs := filter (\<lambda>x. fst x \<notin> set stale) (pb_epochs pb)\<rparr>, length stale))"

definition playout_take :: "u64 \<Rightarrow> playout_buffer \<Rightarrow> playout_buffer \<times> playout_read" where
  "playout_take pts pb =
     (let pb1 = fst (playout_expire_before pts (pb\<lparr>pb_last_played := Some pts\<rparr>))
      in case map_of (pb_epochs pb1) pts of
           Some epoch \<Rightarrow> (pb1\<lparr>pb_epochs := filter (\<lambda>x. fst x \<noteq> pts) (pb_epochs pb1)\<rparr>, Exact epoch)
         | None \<Rightarrow> (pb1, Missing pts))"

section \<open>Lists of entries in ascending order\<close>

lemma map_fst_insort: "map fst (insort_key fst x xs) = insort (fst x) (map fst xs)"
  by (induction xs) auto

lemma filter_not_taken:
  assumes "distinct (map fst xs)"
  shows "filter (\<lambda>x. fst x \<notin> set (map fst (take n xs))) xs = drop n xs"
proof -
  have "set (map fst (take n xs)) \<inter> set (map fst (drop n xs)) = {}"
    using assms distinct_append [of "map fst (take n xs)" "map fst (drop n xs)"] by (simp flip: map_append)
  then have drop: "filter (\<lambda>x. fst x \<notin> set (map fst (take n xs))) (drop n xs) = drop n xs"
    by (intro filter_True) auto
  have take: "filter (\<lambda>x. fst x \<notin> set (map fst (take n xs))) (take n xs) = []"
    by (intro filter_False) auto
  have "filter P xs = filter P (take n xs) @ filter P (drop n xs)" for P
    by (metis append_take_drop_id filter_append)
  then show ?thesis using drop take by simp
qed

lemma set_takeWhile_less:
  "sorted xs \<Longrightarrow> set (takeWhile (\<lambda>p. p < b) xs) = {p \<in> set xs. p < (b :: 'a :: linorder)}"
  by (induction xs) auto

lemma length_takeWhile_less:
  assumes "sorted xs" "distinct xs"
  shows "length (takeWhile (\<lambda>p. p < b) xs) = card {p \<in> set xs. p < (b :: 'a :: linorder)}"
  using distinct_card [of "takeWhile (\<lambda>p. p < b) xs"] assms by (simp add: set_takeWhile_less distinct_takeWhile)

lemma map_of_filter_key:
  "map_of (filter (\<lambda>x. P (fst x)) xs) = map_of xs |` {k. P k}"
  by (induction xs) (auto simp: restrict_map_def fun_eq_iff)

section \<open>The buffer refines a finite map\<close>

definition playout_map :: "playout_buffer \<Rightarrow> u64 \<rightharpoonup> decoded_epoch" where
  "playout_map pb = map_of (pb_epochs pb)"

definition playout_inv :: "playout_buffer \<Rightarrow> bool" where
  "playout_inv pb \<longleftrightarrow>
     sorted (map fst (pb_epochs pb)) \<and> distinct (map fst (pb_epochs pb)) \<and>
     (\<forall>x \<in> set (pb_epochs pb). de_pts_samples (snd x) = fst x) \<and>
     0 < pb_max_buffered pb \<and> length (pb_epochs pb) \<le> pb_max_buffered pb \<and>
     (case pb_last_played pb of None \<Rightarrow> True | Some q \<Rightarrow> \<forall>x \<in> set (pb_epochs pb). q < fst x)"

lemma playout_new_inv: "playout_inv (playout_new n)"
  by (simp add: playout_inv_def playout_new_def)

lemma dom_playout_map: "dom (playout_map pb) = fst ` set (pb_epochs pb)"
  by (simp add: playout_map_def dom_map_of_conv_image_fst)

lemma card_playout_map: "playout_inv pb \<Longrightarrow> card (dom (playout_map pb)) = length (pb_epochs pb)"
  using distinct_card [of "map fst (pb_epochs pb)"] by (simp add: playout_inv_def dom_playout_map)

datatype playout_op = InsertOp decoded_epoch | TakeOp u64 | ExpireOp u64
datatype playout_result = Outcome insert_outcome | Read playout_read | Dropped nat

fun playout_step :: "playout_op \<Rightarrow> playout_buffer \<Rightarrow> playout_buffer \<times> playout_result" where
  "playout_step (InsertOp e) pb = (case playout_insert e pb of (pb1, r) \<Rightarrow> (pb1, Outcome r))"
| "playout_step (TakeOp p) pb = (case playout_take p pb of (pb1, r) \<Rightarrow> (pb1, Read r))"
| "playout_step (ExpireOp p) pb = (case playout_expire_before p pb of (pb1, r) \<Rightarrow> (pb1, Dropped r))"

text \<open>
  The specification: a finite map from times to epochs with the time last played. A new epoch may push out
  the oldest one; playing a time forgets everything up to it.
\<close>

fun spec_step ::
    "nat \<Rightarrow> playout_op \<Rightarrow> (u64 \<rightharpoonup> decoded_epoch) \<times> u64 option \<Rightarrow>
     ((u64 \<rightharpoonup> decoded_epoch) \<times> u64 option) \<times> playout_result" where
  "spec_step cap (InsertOp e) (m, played) =
     (let p = de_pts_samples e; m1 = m(p \<mapsto> e)
      in if (case played of Some q \<Rightarrow> p \<le> q | None \<Rightarrow> False) \<or> p \<in> dom m
         then ((m, played), Outcome DuplicateOrLate)
         else if card (dom m1) \<le> cap then ((m1, played), Outcome Inserted)
         else ((m1 |` {Min (dom m1)<..}, played), Outcome (EvictedStale 1)))"
| "spec_step cap (TakeOp p) (m, played) =
     ((m |` {p<..}, Some p), Read (case m p of Some e \<Rightarrow> Exact e | None \<Rightarrow> Missing p))"
| "spec_step cap (ExpireOp p) (m, played) = ((m |` {p..}, played), Dropped (card {q \<in> dom m. q < p}))"

definition abs_playout :: "playout_buffer \<Rightarrow> (u64 \<rightharpoonup> decoded_epoch) \<times> u64 option" where
  "abs_playout pb = (playout_map pb, pb_last_played pb)"

definition refines_step :: "playout_op \<Rightarrow> playout_buffer \<Rightarrow> bool" where
  "refines_step op pb \<longleftrightarrow>
     (case playout_step op pb of (pb1, r) \<Rightarrow>
        playout_inv pb1 \<and> pb_max_buffered pb1 = pb_max_buffered pb \<and>
        spec_step (pb_max_buffered pb) op (abs_playout pb) = (abs_playout pb1, r))"

lemma expire_epochs:
  assumes keys: "sorted (map fst (pb_epochs pb))" "distinct (map fst (pb_epochs pb))"
  shows "playout_expire_before p pb =
    (pb\<lparr>pb_epochs := filter (\<lambda>x. p \<le> fst x) (pb_epochs pb)\<rparr>, card {q \<in> dom (playout_map pb). q < p})"
proof -
  have "filter (\<lambda>x. fst x \<notin> set (takeWhile (\<lambda>q. q < p) (map fst (pb_epochs pb)))) (pb_epochs pb) =
      filter (\<lambda>x. p \<le> fst x) (pb_epochs pb)"
    unfolding set_takeWhile_less [OF keys(1)] by (rule filter_cong) auto
  then show ?thesis
    by (simp add: playout_expire_before_def Let_def length_takeWhile_less [OF keys] dom_playout_map)
qed

lemma inv_filter:
  assumes "playout_inv pb" "\<forall>x \<in> set (pb_epochs pb). P x \<longrightarrow> (case played of None \<Rightarrow> True | Some q \<Rightarrow> q < fst x)"
  shows "playout_inv (pb\<lparr>pb_epochs := filter P (pb_epochs pb), pb_last_played := played\<rparr>)"
  using assms le_trans [OF length_filter_le]
  by (auto simp: playout_inv_def sorted_filter distinct_map_filter split: option.splits)

lemma expire_refines: "playout_inv pb \<Longrightarrow> refines_step (ExpireOp p) pb"
  using inv_filter [of pb "\<lambda>x. p \<le> fst x" "pb_last_played pb"] expire_epochs [of pb p]
  by (auto simp: refines_step_def abs_playout_def playout_map_def map_of_filter_key playout_inv_def
      atLeast_def split: option.splits)

lemma take_epochs:
  assumes "playout_inv pb"
  shows "playout_take p pb =
    (pb\<lparr>pb_epochs := filter (\<lambda>x. p < fst x) (pb_epochs pb), pb_last_played := Some p\<rparr>,
     case playout_map pb p of Some e \<Rightarrow> Exact e | None \<Rightarrow> Missing p)"
proof -
  let ?es = "filter (\<lambda>x. p \<le> fst x) (pb_epochs pb)"
  have exp: "fst (playout_expire_before p (pb\<lparr>pb_last_played := Some p\<rparr>)) = pb\<lparr>pb_epochs := ?es, pb_last_played := Some p\<rparr>"
    using assms expire_epochs [of "pb\<lparr>pb_last_played := Some p\<rparr>" p] by (simp add: playout_inv_def)
  have look: "map_of ?es p = playout_map pb p"
    by (simp add: map_of_filter_key playout_map_def restrict_map_def)
  have hit: "filter (\<lambda>x. fst x \<noteq> p) ?es = filter (\<lambda>x. p < fst x) (pb_epochs pb)"
    by (simp add: le_less conj_commute cong: conj_cong) (rule filter_cong, auto)
  have miss: "?es = filter (\<lambda>x. p < fst x) (pb_epochs pb)" if "playout_map pb p = None"
    using that by (intro filter_cong) (auto simp: playout_map_def map_of_eq_None_iff le_less)
  show ?thesis
    using miss hit by (auto simp: playout_take_def exp look Let_def split: option.splits)
qed

lemma take_refines: "playout_inv pb \<Longrightarrow> refines_step (TakeOp p) pb"
  using inv_filter [of pb "\<lambda>x. p < fst x" "Some p"]
  by (auto simp: refines_step_def take_epochs abs_playout_def playout_map_def map_of_filter_key greaterThan_def)

lemma map_of_insort:
  "fst x \<notin> fst ` set xs \<Longrightarrow> map_of (insort_key fst x xs) = (map_of xs)(fst x \<mapsto> snd x)"
  by (induction xs) (auto simp: fun_eq_iff)

lemma drop_oldest:
  assumes "sorted (map fst es)" "distinct (map fst es)" "es \<noteq> []"
  shows "map_of (drop (Suc 0) es) = map_of es |` {Min (dom (map_of es))<..}"
proof -
  obtain x xs where es: "es = x # xs" using assms(3) by (cases es) auto
  have min: "Min (dom (map_of es)) = fst x"
    using assms(1) unfolding dom_map_of_conv_image_fst es by (intro Min_eqI) auto
  have less: "fst x < fst y" if "y \<in> set xs" for y
    using assms(1,2) that unfolding es by (auto simp: less_le)
  have "map_of xs k = (map_of es |` {fst x<..}) k" for k
  proof (cases "k \<in> fst ` set xs")
    case True
    then have "fst x < k" using less by auto
    then show ?thesis by (auto simp: es restrict_map_def)
  next
    case False
    then have "map_of xs k = None" by (simp add: map_of_eq_None_iff)
    then show ?thesis by (simp add: es restrict_map_def)
  qed
  then show ?thesis unfolding min by (simp add: es fun_eq_iff)
qed

lemma insert_refines:
  assumes inv: "playout_inv pb"
  shows "refines_step (InsertOp e) pb"
proof (cases "late_for pb (de_pts_samples e) \<or> contains_pts pb (de_pts_samples e)")
  case True
  then have "playout_insert e pb = (pb, DuplicateOrLate)" by (simp add: playout_insert_def)
  moreover have "contains_pts pb (de_pts_samples e) = (de_pts_samples e \<in> dom (playout_map pb))"
    by (simp add: contains_pts_def dom_playout_map)
  ultimately show ?thesis
    using True inv by (auto simp: refines_step_def abs_playout_def late_for_def Let_def)
next
  case False
  let ?p = "de_pts_samples e" and ?es = "insort_key fst (de_pts_samples e, e) (pb_epochs pb)"
  have fresh: "?p \<notin> fst ` set (pb_epochs pb)" "?p \<notin> dom (playout_map pb)"
    using False by (simp_all add: contains_pts_def dom_playout_map)
  have keys: "sorted (map fst ?es)" "distinct (map fst ?es)"
    using inv fresh by (simp_all add: map_fst_insort playout_inv_def distinct_insort sorted_insort)
  have set: "set ?es = insert (?p, e) (set (pb_epochs pb))" by (simp add: set_insort_key)
  have map: "map_of ?es = (playout_map pb)(?p \<mapsto> e)"
    using map_of_insort [of "(?p, e)"] fresh by (simp add: playout_map_def)
  have len: "length ?es = Suc (length (pb_epochs pb))" by simp
  have card: "card (dom ((playout_map pb)(?p \<mapsto> e))) = length ?es"
    using distinct_card [OF keys(2)] by (simp flip: map add: dom_map_of_conv_image_fst)
  have ok: "\<forall>x \<in> set ?es. de_pts_samples (snd x) = fst x \<and>
      (case pb_last_played pb of None \<Rightarrow> True | Some q \<Rightarrow> q < fst x)"
    using inv False unfolding set by (auto simp: playout_inv_def late_for_def split: option.splits)
  have spec: "\<not> ((case pb_last_played pb of Some q \<Rightarrow> ?p \<le> q | None \<Rightarrow> False) \<or> ?p \<in> dom (playout_map pb))"
    using False fresh by (simp add: late_for_def)
  show ?thesis
  proof (cases "length ?es \<le> pb_max_buffered pb")
    case True
    have ins: "playout_insert e pb = (pb\<lparr>pb_epochs := ?es\<rparr>, Inserted)"
      using False True by (simp add: playout_insert_def Let_def)
    have "playout_inv (pb\<lparr>pb_epochs := ?es\<rparr>)"
      using keys ok True inv by (auto simp: playout_inv_def split: option.splits)
    moreover have "playout_map (pb\<lparr>pb_epochs := ?es\<rparr>) = (playout_map pb)(?p \<mapsto> e)"
      using map by (simp add: playout_map_def)
    ultimately show ?thesis
      using ins spec card True by (simp add: refines_step_def abs_playout_def Let_def)
  next
    case full: False
    have full_eq: "pb_max_buffered pb = length (pb_epochs pb)"
      using full inv len by (intro le_antisym) (simp_all add: playout_inv_def)
    then have one: "length ?es - pb_max_buffered pb = 1" using len by simp
    have ins: "playout_insert e pb = (pb\<lparr>pb_epochs := drop 1 ?es\<rparr>, EvictedStale 1)"
      using False full filter_not_taken [OF keys(2), of 1]
      by (simp add: playout_insert_def Let_def full_eq)
    have "playout_inv (pb\<lparr>pb_epochs := drop 1 ?es\<rparr>)"
      using keys ok inv one len in_set_dropD [of _ 1 ?es]
      by (auto simp: playout_inv_def sorted_wrt_drop simp flip: drop_map split: option.splits)
    moreover have "playout_map (pb\<lparr>pb_epochs := drop 1 ?es\<rparr>) =
        ((playout_map pb)(?p \<mapsto> e)) |` {Min (dom ((playout_map pb)(?p \<mapsto> e)))<..}"
      using drop_oldest [OF keys] len unfolding map by (simp add: playout_map_def)
    ultimately show ?thesis
      using ins spec card full by (simp add: refines_step_def abs_playout_def Let_def)
  qed
qed

primrec run_playout :: "playout_op list \<Rightarrow> playout_buffer \<Rightarrow> playout_buffer \<times> playout_result list" where
  "run_playout [] pb = (pb, [])"
| "run_playout (op # ops) pb =
     (case playout_step op pb of
        (pb1, r) \<Rightarrow> (case run_playout ops pb1 of (pb2, rs) \<Rightarrow> (pb2, r # rs)))"

primrec run_spec ::
    "nat \<Rightarrow> playout_op list \<Rightarrow> (u64 \<rightharpoonup> decoded_epoch) \<times> u64 option \<Rightarrow>
     ((u64 \<rightharpoonup> decoded_epoch) \<times> u64 option) \<times> playout_result list" where
  "run_spec cap [] s = (s, [])"
| "run_spec cap (op # ops) s =
     (case spec_step cap op s of
        (s1, r) \<Rightarrow> (case run_spec cap ops s1 of (s2, rs) \<Rightarrow> (s2, r # rs)))"

lemma step_refines: "playout_inv pb \<Longrightarrow> refines_step op pb"
  by (cases op) (simp_all add: insert_refines take_refines expire_refines)

lemma run_refines:
  assumes "playout_inv pb" "run_playout ops pb = (pb1, rs)"
  shows "playout_inv pb1 \<and> pb_max_buffered pb1 = pb_max_buffered pb \<and>
    run_spec (pb_max_buffered pb) ops (abs_playout pb) = (abs_playout pb1, rs)"
  using assms
proof (induction ops arbitrary: pb pb1 rs)
  case (Cons op ops)
  obtain pb2 r where step: "playout_step op pb = (pb2, r)" by fastforce
  obtain pb3 rs3 where run: "run_playout ops pb2 = (pb3, rs3)" by fastforce
  have this: "playout_inv pb2" "pb_max_buffered pb2 = pb_max_buffered pb"
      "spec_step (pb_max_buffered pb) op (abs_playout pb) = (abs_playout pb2, r)"
    using step_refines [OF Cons.prems(1), of op] step by (simp_all add: refines_step_def)
  with Cons.IH [OF this(1) run] Cons.prems(2) step run show ?case by simp
qed simp

text \<open>
  C28. The playout buffer is a finite map with an eviction of the oldest entry. For every sequence of
  inserted epochs, playouts and expiries, the buffer answers exactly what the specification answers: an
  epoch is played at its own time or reported missing, an epoch at or before the time last played or at a
  time already buffered is refused, and a full buffer drops its one oldest entry; the buffer stays
  sorted by time and within its capacity.
\<close>
theorem playout_refines_map:
  "case run_playout ops (playout_new n) of (pb, rs) \<Rightarrow>
     run_spec (max n 1) ops (\<lambda>_. None, None) = ((map_of (pb_epochs pb), pb_last_played pb), rs) \<and>
     sorted (map fst (pb_epochs pb)) \<and> distinct (map fst (pb_epochs pb)) \<and>
     length (pb_epochs pb) \<le> max n 1"
proof -
  obtain pb rs where run: "run_playout ops (playout_new n) = (pb, rs)" by fastforce
  have "abs_playout (playout_new n) = (\<lambda>_. None, None)" "pb_max_buffered (playout_new n) = max n 1"
    by (simp_all add: abs_playout_def playout_map_def playout_new_def)
  then show ?thesis
    using run_refines [OF playout_new_inv run] run by (simp add: playout_inv_def abs_playout_def playout_map_def)
qed

end
