(* ===== verification/Audio_Session.thy ===== *)
theory Audio_Session
  imports Audio_Playout "HOL-Library.AList"
begin

text \<open>
  \<^verbatim>\<open>music-audio-session/src/lib.rs\<close>, lines 22 to 124 and 166 to 369: the sender and the receiver with its
  bounded set of incomplete epochs. The \<open>HashMap\<close> of assemblies is an association list; where the source
  iterates over it, in an order the language leaves open, the model takes the order from a parameter.
\<close>

section \<open>Configuration and statistics\<close>

record session_config =
  sc_fec :: audio_config
  sc_max_inflight_epochs :: nat
  sc_max_buffered_epochs :: nat

definition session_config_default :: session_config where
  "session_config_default =
     \<lparr>sc_fec = audio_config_default, sc_max_inflight_epochs = 64, sc_max_buffered_epochs = 256\<rparr>"

definition session_config_normalized :: "session_config \<Rightarrow> session_config" where
  "session_config_normalized c =
     \<lparr>sc_fec = sc_fec c, sc_max_inflight_epochs = max (sc_max_inflight_epochs c) 1,
      sc_max_buffered_epochs = max (sc_max_buffered_epochs c) 1\<rparr>"

record session_stats =
  st_epochs_encoded :: u64
  st_source_datagrams_emitted :: u64
  st_repair_datagrams_emitted :: u64
  st_datagrams_received :: u64
  st_systematic_shards_received :: u64
  st_raptorq_shards_recovered :: u64
  st_groups_completed :: u64
  st_epochs_completed :: u64
  st_exact_epochs_played :: u64
  st_missing_epochs :: u64
  st_incomplete_epochs_dropped :: u64
  st_stale_epochs_dropped :: u64
  st_duplicate_or_late_epochs :: u64

definition session_stats_default :: session_stats where
  "session_stats_default =
     \<lparr>st_epochs_encoded = 0, st_source_datagrams_emitted = 0, st_repair_datagrams_emitted = 0,
      st_datagrams_received = 0, st_systematic_shards_received = 0, st_raptorq_shards_recovered = 0,
      st_groups_completed = 0, st_epochs_completed = 0, st_exact_epochs_played = 0,
      st_missing_epochs = 0, st_incomplete_epochs_dropped = 0, st_stale_epochs_dropped = 0,
      st_duplicate_or_late_epochs = 0\<rparr>"

text \<open>Saturating increments, one for each counter.\<close>

definition bump_epochs_encoded :: "nat \<Rightarrow> session_stats \<Rightarrow> session_stats" where
  "bump_epochs_encoded n s = s\<lparr>st_epochs_encoded := sat_add (st_epochs_encoded s) (of_nat n)\<rparr>"

definition bump_source_datagrams_emitted :: "nat \<Rightarrow> session_stats \<Rightarrow> session_stats" where
  "bump_source_datagrams_emitted n s = s\<lparr>st_source_datagrams_emitted := sat_add (st_source_datagrams_emitted s) (of_nat n)\<rparr>"

definition bump_repair_datagrams_emitted :: "nat \<Rightarrow> session_stats \<Rightarrow> session_stats" where
  "bump_repair_datagrams_emitted n s = s\<lparr>st_repair_datagrams_emitted := sat_add (st_repair_datagrams_emitted s) (of_nat n)\<rparr>"

definition bump_datagrams_received :: "nat \<Rightarrow> session_stats \<Rightarrow> session_stats" where
  "bump_datagrams_received n s = s\<lparr>st_datagrams_received := sat_add (st_datagrams_received s) (of_nat n)\<rparr>"

definition bump_systematic_shards_received :: "nat \<Rightarrow> session_stats \<Rightarrow> session_stats" where
  "bump_systematic_shards_received n s = s\<lparr>st_systematic_shards_received := sat_add (st_systematic_shards_received s) (of_nat n)\<rparr>"

definition bump_raptorq_shards_recovered :: "nat \<Rightarrow> session_stats \<Rightarrow> session_stats" where
  "bump_raptorq_shards_recovered n s = s\<lparr>st_raptorq_shards_recovered := sat_add (st_raptorq_shards_recovered s) (of_nat n)\<rparr>"

definition bump_groups_completed :: "nat \<Rightarrow> session_stats \<Rightarrow> session_stats" where
  "bump_groups_completed n s = s\<lparr>st_groups_completed := sat_add (st_groups_completed s) (of_nat n)\<rparr>"

definition bump_epochs_completed :: "nat \<Rightarrow> session_stats \<Rightarrow> session_stats" where
  "bump_epochs_completed n s = s\<lparr>st_epochs_completed := sat_add (st_epochs_completed s) (of_nat n)\<rparr>"

definition bump_exact_epochs_played :: "nat \<Rightarrow> session_stats \<Rightarrow> session_stats" where
  "bump_exact_epochs_played n s = s\<lparr>st_exact_epochs_played := sat_add (st_exact_epochs_played s) (of_nat n)\<rparr>"

definition bump_missing_epochs :: "nat \<Rightarrow> session_stats \<Rightarrow> session_stats" where
  "bump_missing_epochs n s = s\<lparr>st_missing_epochs := sat_add (st_missing_epochs s) (of_nat n)\<rparr>"

definition bump_incomplete_epochs_dropped :: "nat \<Rightarrow> session_stats \<Rightarrow> session_stats" where
  "bump_incomplete_epochs_dropped n s = s\<lparr>st_incomplete_epochs_dropped := sat_add (st_incomplete_epochs_dropped s) (of_nat n)\<rparr>"

definition bump_stale_epochs_dropped :: "nat \<Rightarrow> session_stats \<Rightarrow> session_stats" where
  "bump_stale_epochs_dropped n s = s\<lparr>st_stale_epochs_dropped := sat_add (st_stale_epochs_dropped s) (of_nat n)\<rparr>"

definition bump_duplicate_or_late_epochs :: "nat \<Rightarrow> session_stats \<Rightarrow> session_stats" where
  "bump_duplicate_or_late_epochs n s = s\<lparr>st_duplicate_or_late_epochs := sat_add (st_duplicate_or_late_epochs s) (of_nat n)\<rparr>"

section \<open>The sender\<close>

record audio_sender =
  as_encoder :: audio_encoder
  as_stats :: session_stats

definition audio_sender_new :: "session_config \<Rightarrow> audio_sender" where
  "audio_sender_new c =
     \<lparr>as_encoder = audio_encoder_new (sc_fec (session_config_normalized c)), as_stats = session_stats_default\<rparr>"

definition sender_set_block_id :: "u32 \<Rightarrow> audio_sender \<Rightarrow> audio_sender" where
  "sender_set_block_id b s = s\<lparr>as_encoder := audio_set_block_id b (as_encoder s)\<rparr>"

definition sender_block_id :: "audio_sender \<Rightarrow> u32" where
  "sender_block_id s = audio_block_id (as_encoder s)"

definition sender_encode_epoch ::
    "crc_fun \<Rightarrow> ('e, 'd) raptorq \<Rightarrow> audio_sender \<Rightarrow> audio_epoch \<Rightarrow>
     audio_sender \<times> (session_error, encoded_epoch) result" where
  "sender_encode_epoch crc rq s ep =
     (case encode_epoch crc rq (as_encoder s) ep of
        (e, Inl err) \<Rightarrow> (s\<lparr>as_encoder := e\<rparr>, Inl (SessionFec err))
      | (e, Inr encoded) \<Rightarrow>
          (s\<lparr>as_encoder := e,
             as_stats := bump_repair_datagrams_emitted (repair_datagram_count encoded)
               (bump_source_datagrams_emitted (source_datagram_count encoded)
                 (bump_epochs_encoded 1 (as_stats s)))\<rparr>, Inr encoded))"

section \<open>The receiver\<close>

record receive_outcome =
  ro_completed_groups :: "decoded_group list"
  ro_completed_epoch :: "decoded_epoch option"

definition receive_outcome_default :: receive_outcome where
  "receive_outcome_default = \<lparr>ro_completed_groups = [], ro_completed_epoch = None\<rparr>"

record 'd audio_receiver =
  rc_decoder :: "'d audio_decoder"
  rc_inflight :: "(u32 \<times> epoch_assembly) list"
  rc_inflight_order :: "u32 list"
  rc_ignored :: "u32 set"
  rc_ignored_order :: "u32 list"
  rc_max_inflight :: nat
  rc_max_ignored :: nat
  rc_playout :: playout_buffer
  rc_stats :: session_stats

definition audio_receiver_new :: "session_config \<Rightarrow> 'd audio_receiver" where
  "audio_receiver_new config =
     (let c = session_config_normalized config
      in \<lparr>rc_decoder = audio_decoder_new, rc_inflight = [], rc_inflight_order = [],
          rc_ignored = {}, rc_ignored_order = [], rc_max_inflight = sc_max_inflight_epochs c,
          rc_max_ignored = max (usize_sat_mul (sc_max_inflight_epochs c) 4) 64,
          rc_playout = playout_new (sc_max_buffered_epochs c), rc_stats = session_stats_default\<rparr>)"

definition remember_ignored :: "u32 \<Rightarrow> 'd audio_receiver \<Rightarrow> 'd audio_receiver" where
  "remember_ignored b r =
     (case remember_id (rc_max_ignored r) b (rc_ignored_order r, rc_ignored r) of
        (order, ids) \<Rightarrow> r\<lparr>rc_ignored_order := order, rc_ignored := ids\<rparr>)"

definition drop_inflight :: "u32 \<Rightarrow> 'd audio_receiver \<Rightarrow> 'd audio_receiver" where
  "drop_inflight b r =
     remember_ignored b
       (r\<lparr>rc_inflight := AList.delete b (rc_inflight r),
          rc_inflight_order := filter (\<lambda>c. c \<noteq> b) (rc_inflight_order r)\<rparr>)"

text \<open>The loop of \<open>ensure_inflight_slot\<close> over the queue.\<close>

fun make_slot :: "u32 list \<Rightarrow> 'd audio_receiver \<Rightarrow> 'd audio_receiver" where
  "make_slot [] r = r\<lparr>rc_inflight_order := []\<rparr>"
| "make_slot (oldest # rest) r =
     (if length (rc_inflight r) \<ge> rc_max_inflight r then
        (if map_of (rc_inflight r) oldest \<noteq> None then
           make_slot rest (remember_ignored oldest
             (r\<lparr>rc_inflight := AList.delete oldest (rc_inflight r),
                rc_stats := bump_incomplete_epochs_dropped 1 (rc_stats r)\<rparr>))
         else make_slot rest r)
      else r\<lparr>rc_inflight_order := oldest # rest\<rparr>)"

definition ensure_inflight_slot :: "u32 \<Rightarrow> 'd audio_receiver \<Rightarrow> 'd audio_receiver" where
  "ensure_inflight_slot b r =
     (if map_of (rc_inflight r) b \<noteq> None then r else make_slot (rc_inflight_order r) r)"

definition receiver_is_late :: "u64 \<Rightarrow> 'd audio_receiver \<Rightarrow> bool" where
  "receiver_is_late pts r = late_for (rc_playout r) pts"

definition count_shard :: "decoded_shard \<Rightarrow> session_stats \<Rightarrow> session_stats" where
  "count_shard shard s =
     (case dsh_recovery shard of
        Systematic \<Rightarrow> bump_systematic_shards_received 1 s
      | Recovered \<Rightarrow> bump_raptorq_shards_recovered 1 s)"

definition count_insert :: "insert_outcome \<Rightarrow> session_stats \<Rightarrow> session_stats" where
  "count_insert outcome s =
     (case outcome of
        Inserted \<Rightarrow> s
      | DuplicateOrLate \<Rightarrow> bump_duplicate_or_late_epochs 1 s
      | EvictedStale n \<Rightarrow> bump_stale_epochs_dropped n s)"

text \<open>The assembly of a block, made and queued when the block has none.\<close>

definition open_assembly :: "u32 \<Rightarrow> shard_header \<Rightarrow> 'd audio_receiver \<Rightarrow> 'd audio_receiver \<times> epoch_assembly" where
  "open_assembly b h r =
     (case map_of (rc_inflight r) b of
        Some a \<Rightarrow> (r, a)
      | None \<Rightarrow>
          (let a = epoch_assembly_new b h
           in (r\<lparr>rc_inflight_order := rc_inflight_order r @ [b], rc_inflight := AList.update b a (rc_inflight r)\<rparr>, a)))"

definition complete_epoch ::
    "u32 \<Rightarrow> epoch_assembly \<Rightarrow> receive_outcome \<Rightarrow> 'd audio_receiver \<Rightarrow>
     'd audio_receiver \<times> (session_error, receive_outcome) result" where
  "complete_epoch b a out r =
     (let r1 = r\<lparr>rc_inflight := AList.delete b (rc_inflight r),
                 rc_inflight_order := filter (\<lambda>c. c \<noteq> b) (rc_inflight_order r)\<rparr>
      in case epoch_finish a of
           Inl err \<Rightarrow> (r1, Inl err)
         | Inr epoch \<Rightarrow>
             (case playout_insert epoch (rc_playout r1) of
                (pb, inserted) \<Rightarrow>
                  (r1\<lparr>rc_playout := pb,
                      rc_stats := count_insert inserted (bump_epochs_completed 1 (rc_stats r1))\<rparr>,
                   Inr (out\<lparr>ro_completed_epoch := Some epoch\<rparr>))))"

definition receive_shard ::
    "decoded_shard \<Rightarrow> receive_outcome \<Rightarrow> 'd audio_receiver \<Rightarrow>
     'd audio_receiver \<times> (session_error, receive_outcome) result" where
  "receive_shard shard out r =
     (let b = dsh_block_id shard;
          r1 = r\<lparr>rc_stats := count_shard shard (rc_stats r)\<rparr>
      in if b \<in> rc_ignored r1 \<or> receiver_is_late (sh_pts_samples (dsh_header shard)) r1 then (r1, Inr out)
         else
           (case open_assembly b (dsh_header shard) (ensure_inflight_slot b r1) of
              (r2, a) \<Rightarrow>
                (case epoch_push a shard of
                   (a1, Inl err) \<Rightarrow> (r2\<lparr>rc_inflight := AList.update b a1 (rc_inflight r2)\<rparr>, Inl err)
                 | (a1, Inr finished) \<Rightarrow>
                     (let r3 = r2\<lparr>rc_inflight := AList.update b a1 (rc_inflight r2)\<rparr>;
                          r4 = (case finished of None \<Rightarrow> r3
                                | Some g \<Rightarrow> r3\<lparr>rc_stats := bump_groups_completed 1 (rc_stats r3)\<rparr>);
                          out1 = (case finished of None \<Rightarrow> out
                                  | Some g \<Rightarrow> out\<lparr>ro_completed_groups := ro_completed_groups out @ [g]\<rparr>)
                      in if epoch_is_complete a1 then complete_epoch b a1 out1 r4
                         else (r4, Inr out1)))))"

fun receive_shards ::
    "decoded_shard list \<Rightarrow> receive_outcome \<Rightarrow> 'd audio_receiver \<Rightarrow>
     'd audio_receiver \<times> (session_error, receive_outcome) result" where
  "receive_shards [] out r = (r, Inr out)"
| "receive_shards (shard # shards) out r =
     (case receive_shard shard out r of
        (r1, Inl err) \<Rightarrow> (r1, Inl err)
      | (r1, Inr out1) \<Rightarrow> receive_shards shards out1 r1)"

definition receiver_push_datagram ::
    "crc_fun \<Rightarrow> ('e, 'd) raptorq \<Rightarrow> 'd audio_receiver \<Rightarrow> bytes \<Rightarrow>
     'd audio_receiver \<times> (session_error, receive_outcome) result" where
  "receiver_push_datagram crc rq r datagram =
     (case audio_push_datagram crc rq (rc_decoder r) datagram of
        (d, res) \<Rightarrow>
          (let r1 = r\<lparr>rc_stats := bump_datagrams_received 1 (rc_stats r), rc_decoder := d\<rparr>
           in case res of
                Inl err \<Rightarrow> (r1, Inl (SessionFec err))
              | Inr shards \<Rightarrow> receive_shards shards receive_outcome_default r1))"

text \<open>\<open>ord\<close> is the order in which the \<open>HashMap\<close> yields the block ids.\<close>

definition abandon_inflight_through :: "(u32 list \<Rightarrow> u32 list) \<Rightarrow> u64 \<Rightarrow> 'd audio_receiver \<Rightarrow> 'd audio_receiver" where
  "abandon_inflight_through ord pts r =
     fold (\<lambda>b r. (drop_inflight b r)\<lparr>rc_stats := bump_incomplete_epochs_dropped 1 (rc_stats (drop_inflight b r))\<rparr>)
       (ord (map fst (filter (\<lambda>x. ea_pts_samples (snd x) \<le> pts) (rc_inflight r)))) r"

definition receiver_take_for_playout ::
    "(u32 list \<Rightarrow> u32 list) \<Rightarrow> u64 \<Rightarrow> 'd audio_receiver \<Rightarrow> 'd audio_receiver \<times> playout_read" where
  "receiver_take_for_playout ord pts r =
     (let r1 = abandon_inflight_through ord pts r
      in case playout_take pts (rc_playout r1) of
           (pb, Exact epoch) \<Rightarrow>
             (r1\<lparr>rc_playout := pb, rc_stats := bump_exact_epochs_played 1 (rc_stats r1)\<rparr>, Exact epoch)
         | (pb, Missing p) \<Rightarrow>
             (r1\<lparr>rc_playout := pb, rc_stats := bump_missing_epochs 1 (rc_stats r1)\<rparr>, Missing p))"

definition receiver_expire_before :: "(u32 list \<Rightarrow> u32 list) \<Rightarrow> u64 \<Rightarrow> 'd audio_receiver \<Rightarrow> 'd audio_receiver \<times> nat" where
  "receiver_expire_before ord pts r =
     (case playout_expire_before pts (rc_playout r) of
        (pb, stale_buffered) \<Rightarrow>
          (let r1 = r\<lparr>rc_playout := pb\<rparr>;
               stale_blocks = ord (map fst (filter (\<lambda>x. ea_pts_samples (snd x) < pts) (rc_inflight r1)));
               r2 = fold drop_inflight stale_blocks r1;
               dropped = stale_buffered + length stale_blocks
           in (r2\<lparr>rc_stats := bump_stale_epochs_dropped dropped (rc_stats r2)\<rparr>, dropped)))"

interpretation ignored: id_memory rc_ignored_order rc_ignored rc_max_ignored remember_ignored
  by unfold_locales (auto simp: remember_ignored_def split: prod.split)

end
