(* ===== verification/Audio_Playback.thy ===== *)
theory Audio_Playback
  imports Audio_Reassembly Audio_Session
begin

text \<open>
  The receiver on the datagrams of one epoch: what the shard decoder delivers is put together into the
  exact groups and the exact epoch, which the playout buffer then plays.
\<close>

section \<open>The receiver while an epoch arrives\<close>

definition whole_epoch :: "audio_epoch \<Rightarrow> audio_geometry \<Rightarrow> (nat \<times> nat) set \<Rightarrow> bool" where
  "whole_epoch ep geo S \<longleftrightarrow> (\<forall>gi < length (ep_groups ep). whole_group ep geo S gi)"

text \<open>
  A receiver that can take the epoch of block \<open>b\<close>: it ignores earlier blocks at most, and the epoch is not
  late.
\<close>

definition ready_for :: "audio_epoch \<Rightarrow> u32 \<Rightarrow> 'd audio_receiver \<Rightarrow> bool" where
  "ready_for ep b r \<longleftrightarrow> ignored.inv r \<and> (\<forall>c \<in> rc_ignored r. c < b) \<and> 0 < rc_max_inflight r \<and>
     \<not> late_for (rc_playout r) (ep_pts_samples ep) \<and> 0 < pb_max_buffered (rc_playout r)"

lemma ready_for_update [simp]:
  "ready_for ep b (r\<lparr>rc_stats := x\<rparr>) = ready_for ep b r" "ready_for ep b (r\<lparr>rc_decoder := d\<rparr>) = ready_for ep b r"
  "ready_for ep b (r\<lparr>rc_inflight := a\<rparr>) = ready_for ep b r" "ready_for ep b (r\<lparr>rc_inflight_order := l\<rparr>) = ready_for ep b r"
  by (simp_all add: ready_for_def ignored.inv_def)

text \<open>\<open>E\<close> lists the epochs completed so far: none or one.\<close>

definition receiving ::
    "audio_epoch \<Rightarrow> audio_geometry \<Rightarrow> u32 \<Rightarrow> (nat \<times> nat) set \<Rightarrow> decoded_epoch list \<Rightarrow> 'd audio_receiver \<Rightarrow> bool" where
  "receiving ep geo b S E r \<longleftrightarrow> ready_for ep b r \<and>
     (if whole_epoch ep geo S then
        rc_inflight r = [] \<and> rc_inflight_order r = [] \<and>
        (\<exists>e. E = [e] \<and> exact_epoch ep e \<and> pb_epochs (rc_playout r) = [(ep_pts_samples ep, e)])
      else
        E = [] \<and> pb_epochs (rc_playout r) = [] \<and>
        (if S = {} then rc_inflight r = [] \<and> rc_inflight_order r = []
         else \<exists>a. rc_inflight r = [(b, a)] \<and> rc_inflight_order r = [b] \<and> assembled ep geo b S a))"

lemma receiving_update [simp]:
  "receiving ep geo b S E (r\<lparr>rc_stats := x\<rparr>) = receiving ep geo b S E r"
  "receiving ep geo b S E (r\<lparr>rc_decoder := d\<rparr>) = receiving ep geo b S E r"
  by (simp_all add: receiving_def)

lemma receiving_once: "receiving ep geo b S E r \<Longrightarrow> length E \<le> 1"
  by (auto simp: receiving_def split: if_splits)

lemma nothing_is_no_epoch:
  assumes "ep_groups ep \<noteq> []" "epoch_fine ep geo"
  shows "\<not> whole_epoch ep geo {}"
proof -
  have "0 < ag_fragment_payload geo" using assms by (auto simp: epoch_fine_def group_fine_def)
  then have "0 < fragment_total ep geo 0" by (simp add: fragment_total_def div_ceil_pos)
  then have "\<not> whole_group ep geo {} 0" by (auto simp: whole_group_def)
  then show ?thesis using assms(1) by (auto simp: whole_epoch_def)
qed

lemma receiver_new_receiving:
  assumes "ep_groups ep \<noteq> []" "epoch_fine ep geo"
  shows "receiving ep geo b {} [] (audio_receiver_new c)"
  using nothing_is_no_epoch [OF assms]
  by (simp add: receiving_def ready_for_def ignored.inv_def ids_inv_def late_for_def audio_receiver_new_def
      session_config_normalized_def playout_new_def Let_def less_max_iff_disj)

section \<open>One shard\<close>

definition shard_is :: "audio_epoch \<Rightarrow> audio_geometry \<Rightarrow> u32 \<Rightarrow> nat \<times> nat \<Rightarrow> decoded_shard \<Rightarrow> bool" where
  "shard_is ep geo b x s \<longleftrightarrow> (\<exists>q. s = shard_at b q (shard_pair ep geo x (fragment_position ep geo x)))"

definition groups_delivered ::
    "audio_epoch \<Rightarrow> audio_geometry \<Rightarrow> (nat \<times> nat) set \<Rightarrow> (nat \<times> nat) set \<Rightarrow> decoded_group list \<Rightarrow> bool" where
  "groups_delivered ep geo S S' G \<longleftrightarrow> (\<exists>ids. distinct ids \<and> list_all2 (exact_group ep) ids G \<and>
     set ids = {gi. gi < length (ep_groups ep) \<and> whole_group ep geo S' gi \<and> \<not> whole_group ep geo S gi})"

lemma groups_delivered_append:
  assumes "groups_delivered ep geo S S1 G" "groups_delivered ep geo S1 S2 H" "S \<subseteq> S1" "S1 \<subseteq> S2"
  shows "groups_delivered ep geo S S2 (G @ H)"
proof -
  have mono: "A \<subseteq> B \<Longrightarrow> whole_group ep geo A gi \<Longrightarrow> whole_group ep geo B gi" for A B gi
    by (auto simp: whole_group_def)
  obtain ks js where ids: "distinct ks" "list_all2 (exact_group ep) ks G"
      "set ks = {gi. gi < length (ep_groups ep) \<and> whole_group ep geo S1 gi \<and> \<not> whole_group ep geo S gi}"
    and jds: "distinct js" "list_all2 (exact_group ep) js H"
      "set js = {gi. gi < length (ep_groups ep) \<and> whole_group ep geo S2 gi \<and> \<not> whole_group ep geo S1 gi}"
    using assms(1,2) by (auto simp: groups_delivered_def)
  have "set (ks @ js) = {gi. gi < length (ep_groups ep) \<and> whole_group ep geo S2 gi \<and> \<not> whole_group ep geo S gi}"
    using mono [OF assms(3)] mono [OF assms(4)] by (auto simp: ids jds)
  moreover have "distinct (ks @ js)" using ids jds by auto
  moreover have "list_all2 (exact_group ep) (ks @ js) (G @ H)" using ids(2) jds(2) by (rule list_all2_appendI)
  ultimately show ?thesis unfolding groups_delivered_def by blast
qed

lemma whole_insert:
  "whole_group ep geo (insert (gi, i) S) k \<and> \<not> whole_group ep geo S k \<Longrightarrow> k = gi"
  by (auto simp: whole_group_def)

text \<open>The assembly that \<open>receive_shard\<close> works on.\<close>

lemma open_receiving:
  assumes fine: "epoch_fine ep geo" and r: "receiving ep geo b S E r" "\<not> whole_epoch ep geo S"
  shows "\<exists>r2 a. open_assembly b (fst (shard_pair ep geo x j)) (ensure_inflight_slot b r) = (r2, a) \<and>
    rc_inflight r2 = [(b, a)] \<and> rc_inflight_order r2 = [b] \<and> assembled ep geo b S a \<and> ready_for ep b r2 \<and>
    rc_playout r2 = rc_playout r \<and> rc_decoder r2 = rc_decoder r"
proof (cases "S = {}")
  case True
  have st: "rc_inflight r = []" "rc_inflight_order r = []" "ready_for ep b r"
    using r by (simp_all add: receiving_def True)
  let ?a = "epoch_assembly_new b (fst (shard_pair ep geo x j))"
  have slot: "ensure_inflight_slot b r = r\<lparr>rc_inflight_order := []\<rparr>" by (simp add: ensure_inflight_slot_def st)
  then show ?thesis
    using st assembled_new [OF fine, of b x j] by (simp add: open_assembly_def Let_def True)
next
  case False
  obtain a where st: "rc_inflight r = [(b, a)]" "rc_inflight_order r = [b]" "assembled ep geo b S a" "ready_for ep b r"
    using r False by (auto simp: receiving_def)
  have "ensure_inflight_slot b r = r" by (simp add: ensure_inflight_slot_def st)
  then show ?thesis using st by (simp add: open_assembly_def)
qed

lemma shard_pair_pts: "sh_pts_samples (fst (shard_pair ep geo x j)) = ep_pts_samples ep"
  by (simp add: shard_pair_def shard_header_of_def)

lemma receive_shard_exact:
  assumes fine: "epoch_fine ep geo" and r: "receiving ep geo b S E r"
    and x: "x \<in> fragment_ids ep geo" "x \<notin> S" and s: "shard_is ep geo b x shard"
    and push: "receive_shard shard out r = (r', res)"
  shows "\<exists>out' G E'. res = Inr out' \<and> receiving ep geo b (insert x S) (E @ E') r' \<and> rc_decoder r' = rc_decoder r \<and>
    ro_completed_groups out' = ro_completed_groups out @ G \<and> groups_delivered ep geo S (insert x S) G \<and>
    ro_completed_epoch out' = (case E' of [] \<Rightarrow> ro_completed_epoch out | e # _ \<Rightarrow> Some e)"
proof -
  obtain gi i where xi: "x = (gi, i)" by (cases x) auto
  obtain q where q: "shard = shard_at b q (shard_pair ep geo x (fragment_position ep geo x))"
    using s by (auto simp: shard_is_def)
  let ?S = "insert x S" and ?r1 = "r\<lparr>rc_stats := count_shard shard (rc_stats r)\<rparr>"
  have gi: "gi < length (ep_groups ep)" "i < fragment_total ep geo gi" using x(1) by (simp_all add: fragment_ids_def xi)
  have open_epoch: "\<not> whole_epoch ep geo S" using x(2) gi by (auto simp: whole_epoch_def whole_group_def xi)
  have r1: "receiving ep geo b S E ?r1" using r by simp
  have E: "E = []" and no_epochs: "pb_epochs (rc_playout r) = []" using r open_epoch by (simp_all add: receiving_def)
  obtain r2 a where op: "open_assembly b (dsh_header shard) (ensure_inflight_slot b ?r1) = (r2, a)"
    and st: "rc_inflight r2 = [(b, a)]" "rc_inflight_order r2 = [b]" "assembled ep geo b S a" "ready_for ep b r2"
      "rc_playout r2 = rc_playout r" "rc_decoder r2 = rc_decoder r"
    using open_receiving [OF fine r1 open_epoch, of x "fragment_position ep geo x"] by (auto simp: q)
  have live: "b \<notin> rc_ignored ?r1" "\<not> receiver_is_late (sh_pts_samples (dsh_header shard)) ?r1" "dsh_block_id shard = b"
    using r by (auto simp: receiving_def ready_for_def receiver_is_late_def q shard_pair_pts)
  obtain a1 p where ep1: "epoch_push a shard = (a1, p)" by fastforce
  note pushed = epoch_push_exact [OF fine x(1) [unfolded xi] st(3) x(2) [unfolded xi] ep1 [unfolded q xi]]
  have a1: "assembled ep geo b ?S a1" using pushed by (simp add: xi)
  obtain v where v: "p = Inr v" using pushed by (auto split: if_splits)
  define G where "G = (case v of None \<Rightarrow> [] | Some g \<Rightarrow> [g])"
  define r4 where "r4 = (let r3 = r2\<lparr>rc_inflight := AList.update b a1 (rc_inflight r2)\<rparr> in
      case v of None \<Rightarrow> r3 | Some g \<Rightarrow> r3\<lparr>rc_stats := bump_groups_completed 1 (rc_stats r3)\<rparr>)"
  define out1 where "out1 = (case v of None \<Rightarrow> out | Some g \<Rightarrow> out\<lparr>ro_completed_groups := ro_completed_groups out @ [g]\<rparr>)"
  have step: "receive_shard shard out r = (if epoch_is_complete a1 then complete_epoch b a1 out1 r4 else (r4, Inr out1))"
    using live op ep1 by (simp add: receive_shard_def Let_def v r4_def out1_def)
  have r4: "rc_inflight r4 = [(b, a1)]" "rc_inflight_order r4 = [b]" "ready_for ep b r4" "rc_playout r4 = rc_playout r"
      "rc_decoder r4 = rc_decoder r"
    using st by (auto simp: r4_def Let_def split: option.splits)
  have out1: "ro_completed_groups out1 = ro_completed_groups out @ G" "ro_completed_epoch out1 = ro_completed_epoch out"
    by (simp_all add: out1_def G_def split: option.splits)
  have G: "groups_delivered ep geo S ?S G"
  proof (cases "whole_group ep geo ?S gi")
    case True
    then obtain g where g: "v = Some g" "exact_group ep gi g" using pushed v by (auto simp: xi)
    have "{k. k < length (ep_groups ep) \<and> whole_group ep geo ?S k \<and> \<not> whole_group ep geo S k} = {gi}"
      using True gi x(2) whole_insert [of ep geo gi i S] by (auto simp: xi whole_group_def)
    then show ?thesis unfolding groups_delivered_def G_def g(1) option.case
      using g(2) by (intro exI [of _ "[gi]"]) simp
  next
    case False
    then have "v = None" using pushed v by (simp add: xi)
    moreover have "{k. k < length (ep_groups ep) \<and> whole_group ep geo ?S k \<and> \<not> whole_group ep geo S k} = {}"
      using False whole_insert [of ep geo gi i S] by (auto simp: xi)
    ultimately show ?thesis unfolding groups_delivered_def G_def by (intro exI [of _ "[]"]) simp
  qed
  have whole: "epoch_is_complete a1 \<longleftrightarrow> whole_epoch ep geo ?S"
    using assembled_complete [OF a1] by (simp add: whole_epoch_def)
  show ?thesis
  proof (cases "whole_epoch ep geo ?S")
    case False
    then have "r' = r4" "res = Inr out1" using push step whole by simp_all
    moreover have "receiving ep geo b ?S (E @ []) r4"
      using False r4 a1 no_epochs by (simp add: receiving_def E)
    ultimately show ?thesis using G out1 r4(5) by (intro exI [of _ out1] exI [of _ G] exI [of _ "[]"]) simp
  next
    case True
    then obtain e where e: "epoch_finish a1 = Inr e" "exact_epoch ep e" using assembled_finish [OF a1] whole by blast
    have pts: "de_pts_samples e = ep_pts_samples ep" using e(2) by (simp add: exact_epoch_def)
    have ins: "playout_insert e (rc_playout r) = ((rc_playout r)\<lparr>pb_epochs := [(ep_pts_samples ep, e)]\<rparr>, Inserted)"
      using r no_epochs
      by (simp add: playout_insert_def contains_pts_def receiving_def ready_for_def pts Let_def)
    have "receive_shard shard out r = complete_epoch b a1 out1 r4" using step whole True by simp
    then have "res = Inr (out1\<lparr>ro_completed_epoch := Some e\<rparr>)"
        "receiving ep geo b ?S (E @ [e]) r'" "rc_decoder r' = rc_decoder r"
      using push e True r4 by (auto simp: complete_epoch_def Let_def ins receiving_def ready_for_def ignored.inv_def late_for_def E count_insert_def)
    then show ?thesis using G out1
      by (intro exI [of _ "out1\<lparr>ro_completed_epoch := Some e\<rparr>"] exI [of _ G] exI [of _ "[e]"]) simp
  qed
qed

section \<open>The shards of a datagram, and the datagrams of a stream\<close>

lemma receive_shards_exact:
  assumes "epoch_fine ep geo" "receiving ep geo b S E r" "list_all2 (shard_is ep geo b) ids shards"
    and "distinct ids" "set ids \<inter> S = {}" "set ids \<subseteq> fragment_ids ep geo"
    and "receive_shards shards out r = (r', res)"
  shows "\<exists>out' G E'. res = Inr out' \<and> receiving ep geo b (S \<union> set ids) (E @ E') r' \<and> rc_decoder r' = rc_decoder r \<and>
    ro_completed_groups out' = ro_completed_groups out @ G \<and> groups_delivered ep geo S (S \<union> set ids) G \<and>
    ro_completed_epoch out' = (case E' of [] \<Rightarrow> ro_completed_epoch out | e # _ \<Rightarrow> Some e)"
  using assms(2-)
proof (induction shards arbitrary: ids S E r out)
  case Nil
  then show ?case
    by (intro exI [of _ out] exI [of _ "[]"]) (simp add: groups_delivered_def exI [of _ "[]"])
next
  case (Cons s shards)
  obtain x xs where ids: "ids = x # xs" "shard_is ep geo b x s" "list_all2 (shard_is ep geo b) xs shards"
    using Cons.prems(2) by (auto simp: list_all2_Cons2)
  obtain r1 q where one: "receive_shard s out r = (r1, q)" by fastforce
  have x: "x \<in> fragment_ids ep geo" "x \<notin> S" using Cons.prems(4,5) by (auto simp: ids)
  obtain out1 G1 E1 where st: "q = Inr out1" "receiving ep geo b (insert x S) (E @ E1) r1" "rc_decoder r1 = rc_decoder r"
      "ro_completed_groups out1 = ro_completed_groups out @ G1" "groups_delivered ep geo S (insert x S) G1"
      "ro_completed_epoch out1 = (case E1 of [] \<Rightarrow> ro_completed_epoch out | e # _ \<Rightarrow> Some e)"
    using receive_shard_exact [OF assms(1) Cons.prems(1) x ids(2) one] by blast
  have rest: "receive_shards shards out1 r1 = (r', res)" using Cons.prems(6) one by (simp add: st(1))
  have xs: "distinct xs" "set xs \<inter> insert x S = {}" "set xs \<subseteq> fragment_ids ep geo"
    using Cons.prems(3-5) by (auto simp: ids)
  obtain out2 G2 E2 where nd: "res = Inr out2" "receiving ep geo b (insert x S \<union> set xs) ((E @ E1) @ E2) r'"
      "rc_decoder r' = rc_decoder r1" "ro_completed_groups out2 = ro_completed_groups out1 @ G2"
      "groups_delivered ep geo (insert x S) (insert x S \<union> set xs) G2"
      "ro_completed_epoch out2 = (case E2 of [] \<Rightarrow> ro_completed_epoch out1 | e # _ \<Rightarrow> Some e)"
    using Cons.IH [OF st(2) ids(3) xs rest] by blast
  have U: "insert x S \<union> set xs = S \<union> set ids" by (auto simp: ids)
  have "length ((E @ E1) @ E2) \<le> 1" using receiving_once [OF nd(2)] .
  then have "ro_completed_epoch out2 = (case E1 @ E2 of [] \<Rightarrow> ro_completed_epoch out | e # _ \<Rightarrow> Some e)"
    using st(6) nd(6) by (cases E1; cases E2) auto
  moreover have "groups_delivered ep geo S (S \<union> set ids) (G1 @ G2)"
    using groups_delivered_append [OF st(5) nd(5)] unfolding U by (auto simp: ids)
  ultimately show ?case
    using nd st unfolding U by (intro exI [of _ out2] exI [of _ "G1 @ G2"] exI [of _ "E1 @ E2"]) simp
qed

primrec receiver_push_all ::
    "crc_fun \<Rightarrow> ('e, 'd) raptorq \<Rightarrow> 'd audio_receiver \<Rightarrow> bytes list \<Rightarrow>
     'd audio_receiver \<times> (session_error, receive_outcome) result list" where
  "receiver_push_all crc rq r [] = (r, [])"
| "receiver_push_all crc rq r (x # xs) =
     (case receiver_push_datagram crc rq r x of
        (r1, q) \<Rightarrow> (case receiver_push_all crc rq r1 xs of (r2, qs) \<Rightarrow> (r2, q # qs)))"

definition groups_out :: "(session_error, receive_outcome) result list \<Rightarrow> decoded_group list" where
  "groups_out qs = concat (map (\<lambda>q. case q of Inl _ \<Rightarrow> [] | Inr out \<Rightarrow> ro_completed_groups out) qs)"

definition epochs_out :: "(session_error, receive_outcome) result list \<Rightarrow> decoded_epoch list" where
  "epochs_out qs = List.map_filter (\<lambda>q. case q of Inl _ \<Rightarrow> None | Inr out \<Rightarrow> ro_completed_epoch out) qs"

lemma outs_simps [simp]:
  "groups_out [] = []" "groups_out (Inr out # qs) = ro_completed_groups out @ groups_out qs"
  "epochs_out [] = []" "epochs_out (Inr out # qs) = (case ro_completed_epoch out of None \<Rightarrow> [] | Some e \<Rightarrow> [e]) @ epochs_out qs"
  by (simp_all add: groups_out_def epochs_out_def List.map_filter_def split: option.split)

lemma receiver_stream:
  assumes fine: "epoch_fine ep geo" and "receiving ep geo b S E r"
    and "audio_push_all crc rq (rc_decoder r) xs = (d', rs)" "all_ok rs"
    and "list_all2 (shard_is ep geo b) ids (shards_out rs)" "distinct ids" "set ids \<inter> S = {}" "set ids \<subseteq> fragment_ids ep geo"
    and "receiver_push_all crc rq r xs = (r', qs)"
  shows "\<exists>G E'. all_ok qs \<and> groups_out qs = G \<and> epochs_out qs = E' \<and> receiving ep geo b (S \<union> set ids) (E @ E') r' \<and>
    groups_delivered ep geo S (S \<union> set ids) G \<and> rc_decoder r' = d'"
  using assms(2-)
proof (induction xs arbitrary: S E r d' ids rs qs)
  case Nil
  then show ?case by (auto simp: groups_delivered_def)
next
  case (Cons x xs)
  obtain d1 a where one: "audio_push_datagram crc rq (rc_decoder r) x = (d1, a)" by fastforce
  obtain d2 as where rest: "audio_push_all crc rq d1 xs = (d2, as)" by fastforce
  have rs: "rs = a # as" using Cons.prems(2) one rest by simp
  obtain shards where a: "a = Inr shards" and as: "all_ok as"
    using Cons.prems(3) unfolding rs by (cases a) (simp_all add: all_ok_def)
  obtain js ks where ids: "ids = js @ ks" "list_all2 (shard_is ep geo b) js shards"
      "list_all2 (shard_is ep geo b) ks (shards_out as)"
    using Cons.prems(4) unfolding rs a shards_out_simps list_all2_append2 by blast
  let ?r1 = "r\<lparr>rc_stats := bump_datagrams_received 1 (rc_stats r), rc_decoder := d1\<rparr>"
  obtain r1 q where push: "receive_shards shards receive_outcome_default ?r1 = (r1, q)" by fastforce
  have r1: "receiving ep geo b S E ?r1" using Cons.prems(1) by simp
  have js: "distinct js" "set js \<inter> S = {}" "set js \<subseteq> fragment_ids ep geo" using Cons.prems(5-7) by (auto simp: ids(1))
  obtain out G1 E1 where raw: "q = Inr out" "receiving ep geo b (S \<union> set js) (E @ E1) r1" "rc_decoder r1 = rc_decoder ?r1"
      "ro_completed_groups out = ro_completed_groups receive_outcome_default @ G1" "groups_delivered ep geo S (S \<union> set js) G1"
      "ro_completed_epoch out = (case E1 of [] \<Rightarrow> ro_completed_epoch receive_outcome_default | e # _ \<Rightarrow> Some e)"
    using receive_shards_exact [OF fine r1 ids(2) js push] by blast
  then have st: "q = Inr out" "receiving ep geo b (S \<union> set js) (E @ E1) r1" "rc_decoder r1 = d1"
      "ro_completed_groups out = G1" "groups_delivered ep geo S (S \<union> set js) G1"
      "ro_completed_epoch out = (case E1 of [] \<Rightarrow> None | e # _ \<Rightarrow> Some e)"
    by (simp_all add: receive_outcome_default_def split: list.split)
  have step: "receiver_push_datagram crc rq r x = (r1, Inr out)"
    using push by (simp add: receiver_push_datagram_def one a st(1) Let_def)
  obtain r2 qs1 where rec: "receiver_push_all crc rq r1 xs = (r2, qs1)" by fastforce
  have qs: "qs = Inr out # qs1" "r' = r2" using Cons.prems(8) step rec by simp_all
  have ks: "distinct ks" "set ks \<inter> (S \<union> set js) = {}" "set ks \<subseteq> fragment_ids ep geo"
    using Cons.prems(5-7) by (auto simp: ids(1))
  have rest1: "audio_push_all crc rq (rc_decoder r1) xs = (d2, as)" using rest by (simp only: st(3))
  have rec1: "receiver_push_all crc rq r1 xs = (r', qs1)" using rec qs(2) by simp
  have IH: "all_ok qs1 \<and> receiving ep geo b (S \<union> set js \<union> set ks) ((E @ E1) @ epochs_out qs1) r' \<and>
      groups_delivered ep geo (S \<union> set js) (S \<union> set js \<union> set ks) (groups_out qs1) \<and> rc_decoder r' = d2"
    using Cons.IH [OF st(2) rest1 as ids(3) ks rec1] by blast
  have U: "S \<union> set js \<union> set ks = S \<union> set ids" by (auto simp: ids(1))
  have "groups_delivered ep geo S (S \<union> set ids) (G1 @ groups_out qs1)"
    using groups_delivered_append [OF st(5)] IH unfolding U by (auto simp: ids(1))
  moreover have "epochs_out qs = E1 @ epochs_out qs1"
    using st(6) receiving_once [OF st(2)] unfolding qs by (cases E1) auto
  moreover have "all_ok qs" using IH by (simp add: qs all_ok_def)
  moreover have "d' = d2" using Cons.prems(2) one rest by simp
  ultimately show ?case using IH st(4) unfolding U by (simp add: qs)
qed

section \<open>From the encoded epoch to playback\<close>

lemma sendable_epoch_fine:
  assumes "audio_sendable c ep geo"
  shows "epoch_fine ep geo" "ep_groups ep \<noteq> []"
proof -
  obtain mp where h: "valid_epoch ep" "max_fragment_payload c = Inr mp" "geometry_for_groups c (ep_groups ep) = Inr geo"
    using assms by (auto simp: audio_sendable_def)
  note g = geometry_Inr [OF h(3,2)]
  have "group_fine ep geo gi \<and> fragment_total ep geo gi \<le> 65535" if gi: "gi < length (ep_groups ep)" for gi
  proof -
    have mem: "ep_groups ep ! gi \<in> set (ep_groups ep)" using gi by simp
    have "fragment_total ep geo gi \<le> 65535"
      using group_symbols_le [OF mem, of "ag_fragment_payload geo"] g(7)
        unsigned_less [of "ac_max_source_symbols c", where ?'a = nat] by (simp add: fragment_total_def)
    then show ?thesis using g(2) h(1) mem by (simp add: group_fine_def valid_epoch_def)
  qed
  then show "epoch_fine ep geo" "ep_groups ep \<noteq> []" using h(1) by (simp_all add: epoch_fine_def valid_epoch_def)
qed

lemma list_all2_choice:
  "\<forall>s \<in> set l. \<exists>x \<in> A. P x s \<Longrightarrow> \<exists>xs. list_all2 P xs l \<and> set xs \<subseteq> A"
proof (induction l)
  case (Cons s l)
  then obtain x xs where "x \<in> A" "P x s" "list_all2 P xs l" "set xs \<subseteq> A" by auto
  then show ?case by (intro exI [of _ "x # xs"]) simp
qed simp

lemma shard_is_key:
  assumes eb: "epoch_block data s k (epoch_shards ep geo)" and x: "x \<in> fragment_ids ep geo" and si: "shard_is ep geo b x sh"
  shows "shard_key sh = of_nat (fragment_position ep geo x)"
proof -
  have "sh_source_index (fst (epoch_shards ep geo ! fragment_position ep geo x)) = of_nat (fragment_position ep geo x)"
    using eb shard_at_position(1) [OF x] unfolding epoch_block_def by blast
  then show ?thesis using si shard_at_position(2) [OF x] by (auto simp: shard_is_def)
qed

text \<open>The delivered shards, as the fragments they carry.\<close>

lemma delivered_fragments:
  assumes eb: "epoch_block data s k (epoch_shards ep geo)" and del: "delivers b (epoch_shards ep geo) {} outs I"
  shows "\<exists>ids. list_all2 (shard_is ep geo b) ids outs \<and> distinct ids \<and> set ids \<subseteq> fragment_ids ep geo \<and>
    (\<forall>x \<in> fragment_ids ep geo. fragment_position ep geo x \<in> I \<longrightarrow> x \<in> set ids)"
proof -
  have short: "length (epoch_shards ep geo) \<le> 56403" using eb unfolding epoch_block_def by blast
  have ex: "\<forall>sh \<in> set outs. \<exists>x \<in> fragment_ids ep geo. shard_is ep geo b x sh"
  proof
    fix sh assume "sh \<in> set outs"
    then obtain j q where j: "j < length (epoch_shards ep geo)" "sh = shard_at b q (epoch_shards ep geo ! j)"
      using del unfolding delivers_def by blast
    obtain x where x: "x \<in> fragment_ids ep geo" "fragment_position ep geo x = j" using position_surj [OF j(1)] by blast
    then have "shard_is ep geo b x sh" using shard_at_position(2) [OF x(1)] j(2) by (auto simp: shard_is_def)
    then show "\<exists>x \<in> fragment_ids ep geo. shard_is ep geo b x sh" using x(1) by blast
  qed
  obtain ids where ids: "list_all2 (shard_is ep geo b) ids outs" "set ids \<subseteq> fragment_ids ep geo"
    using list_all2_choice [OF ex] by blast
  have keys: "map shard_key outs = map (\<lambda>x. of_nat (fragment_position ep geo x)) ids"
    using ids
  proof (induction rule: list_all2_induct)
    case (Cons x xs sh shs)
    then show ?case using shard_is_key [OF eb] by simp
  qed simp
  have "distinct (map shard_key outs)" using del by (simp add: delivers_def)
  then have dist: "distinct ids" unfolding keys by (simp only: distinct_map)
  have "x \<in> set ids" if x: "x \<in> fragment_ids ep geo" "fragment_position ep geo x \<in> I" for x
  proof -
    note pos = shard_at_position(1) [OF x(1)]
    have "of_nat (fragment_position ep geo x) \<in> set (map shard_key outs)" using del x(2) pos by (auto simp: delivers_def)
    then obtain y where y: "y \<in> set ids" "(of_nat (fragment_position ep geo x) :: u16) = of_nat (fragment_position ep geo y)"
      unfolding keys by auto
    then have iy: "y \<in> fragment_ids ep geo" using ids(2) by blast
    have "fragment_position ep geo x = fragment_position ep geo y"
      using of_nat_inj16 [THEN iffD1, OF _ _ y(2)] pos shard_at_position(1) [OF iy] short by linarith
    then show ?thesis using inj_onD [OF position_inj _ x(1) iy] y(1) by simp
  qed
  then show ?thesis using ids dist by blast
qed

definition between_epochs :: "u64 option \<Rightarrow> 'd audio_receiver \<Rightarrow> bool" where
  "between_epochs played r \<longleftrightarrow> ignored.inv r \<and> 0 < rc_max_inflight r \<and> 0 < pb_max_buffered (rc_playout r) \<and>
     rc_inflight r = [] \<and> rc_inflight_order r = [] \<and> pb_epochs (rc_playout r) = [] \<and> pb_last_played (rc_playout r) = played"

text \<open>Playout at the time of the epoch: what was completed is played, what was not is dropped and ignored.\<close>

lemma take_after_epoch:
  assumes r: "receiving ep geo b S E r" and ord: "\<forall>xs. mset (ord xs) = mset xs"
    and take: "receiver_take_for_playout ord (ep_pts_samples ep) r = (r', p)"
  shows "p = (case E of [] \<Rightarrow> Missing (ep_pts_samples ep) | e # _ \<Rightarrow> Exact e)"
    "between_epochs (Some (ep_pts_samples ep)) r'" "rc_ignored r' \<subseteq> insert b (rc_ignored r)" "rc_decoder r' = rc_decoder r"
proof -
  let ?pts = "ep_pts_samples ep"
  have ord0: "ord [] = []" "ord [b] = [b]" using ord [rule_format, of "[]"] ord [rule_format, of "[b]"] by simp_all
  have inv: "ignored.inv r" "0 < rc_max_inflight r" "0 < pb_max_buffered (rc_playout r)"
    using r by (simp_all add: receiving_def ready_for_def)
  define r1 where "r1 = abandon_inflight_through ord ?pts r"
  have r1: "rc_inflight r1 = []" "rc_inflight_order r1 = []" "ignored.inv r1" "rc_ignored r1 \<subseteq> insert b (rc_ignored r)"
      "rc_playout r1 = rc_playout r" "rc_max_inflight r1 = rc_max_inflight r" "rc_decoder r1 = rc_decoder r"
  proof -
    consider "rc_inflight r = []" "rc_inflight_order r = []"
      | a where "rc_inflight r = [(b, a)]" "rc_inflight_order r = [b]" "ea_pts_samples a = ?pts"
      using r by (auto simp: receiving_def assembled_def epoch_fields_def split: if_splits)
    then have "rc_inflight r1 = [] \<and> rc_inflight_order r1 = [] \<and> ignored.inv r1 \<and> rc_ignored r1 \<subseteq> insert b (rc_ignored r) \<and>
        rc_playout r1 = rc_playout r \<and> rc_max_inflight r1 = rc_max_inflight r \<and> rc_decoder r1 = rc_decoder r"
    proof cases
      case 1
      then show ?thesis using inv by (auto simp: r1_def abandon_inflight_through_def ord0)
    next
      case 2
      let ?q = "r\<lparr>rc_inflight := [], rc_inflight_order := []\<rparr>"
      have q: "ignored.inv ?q" using inv(1) by (simp add: ignored.inv_def)
      have "r1 = (remember_ignored b ?q)\<lparr>rc_stats := bump_incomplete_epochs_dropped 1 (rc_stats (remember_ignored b ?q))\<rparr>"
        using 2 by (simp add: r1_def abandon_inflight_through_def ord0 drop_inflight_def)
      then show ?thesis
        using ignored.remember_inv [OF q, of b] ignored.remember_subset [OF q, of b]
        by (simp add: ignored.inv_def) (simp add: remember_ignored_def split: prod.split)
    qed
    then show "rc_inflight r1 = []" "rc_inflight_order r1 = []" "ignored.inv r1" "rc_ignored r1 \<subseteq> insert b (rc_ignored r)"
      "rc_playout r1 = rc_playout r" "rc_max_inflight r1 = rc_max_inflight r" "rc_decoder r1 = rc_decoder r" by blast+
  qed
  have "(E = [] \<and> pb_epochs (rc_playout r) = []) \<or> (\<exists>e. E = [e] \<and> pb_epochs (rc_playout r) = [(?pts, e)])"
    using r by (auto simp: receiving_def split: if_splits)
  then have "p = (case E of [] \<Rightarrow> Missing ?pts | e # _ \<Rightarrow> Exact e) \<and> between_epochs (Some ?pts) r' \<and>
      rc_ignored r' = rc_ignored r1 \<and> rc_decoder r' = rc_decoder r1"
    using take r1 inv
    by (auto simp: receiver_take_for_playout_def r1_def [symmetric] playout_take_def playout_expire_before_def Let_def
        between_epochs_def ignored.inv_def)
  then show "p = (case E of [] \<Rightarrow> Missing ?pts | e # _ \<Rightarrow> Exact e)" "between_epochs (Some ?pts) r'"
    "rc_ignored r' \<subseteq> insert b (rc_ignored r)" "rc_decoder r' = rc_decoder r"
    using r1 by auto
qed

text \<open>
  What a receiver has to make of the datagrams of an epoch that arrived: nothing fails, groups are exact
  and reported once, and nothing that can be known is missing.
\<close>

definition epoch_received ::
    "('e, 'd) raptorq \<Rightarrow> audio_epoch \<Rightarrow> audio_geometry \<Rightarrow> nat list \<Rightarrow>
     (session_error, receive_outcome) result list \<Rightarrow> bool" where
  "epoch_received rq ep geo got qs \<longleftrightarrow>
     (let recovered = codec_run rq (block_decoder rq (length (epoch_object ep geo)) (ag_symbol_size geo))
              (map (block_packet rq (epoch_object ep geo) (ag_symbol_size geo)) got) \<noteq> None
      in all_ok qs \<and>
         (\<exists>ids. distinct ids \<and> list_all2 (exact_group ep) ids (groups_out qs) \<and>
            (\<forall>gi < length (ep_groups ep).
               recovered \<or> (\<forall>i < fragment_total ep geo gi. fragment_position ep geo (gi, i) \<in> set got) \<longrightarrow> gi \<in> set ids)) \<and>
         ({..<length (epoch_shards ep geo)} \<subseteq> set got \<longrightarrow> recovered) \<and>
         (epochs_out qs = [] \<and> \<not> recovered \<or> (\<exists>e. exact_epoch ep e \<and> epochs_out qs = [e])))"

lemma epoch_into_receiver:
  assumes lawful: "rq_lawful rq" "systematic rq" and send: "audio_sendable (ae_config e0) ep geo"
    and enc: "encode_epoch crc rq e0 ep = (e', Inr enc)" and got: "set got \<subseteq> {..<length (ee_datagrams enc)}"
    and r: "receiving ep geo (audio_block_id e0) {} [] r" "fresh_for (audio_block_id e0) (rc_decoder r)"
    and push: "receiver_push_all crc rq r (map (\<lambda>j. adg_payload (ee_datagrams enc ! j)) got) = (r', qs)"
  shows "epoch_received rq ep geo got qs" "\<exists>S. receiving ep geo (audio_block_id e0) S (epochs_out qs) r'"
    "audio_inv (rc_decoder r')" "known_ids (rc_decoder r') \<subseteq> insert (audio_block_id e0) (known_ids (rc_decoder r))"
proof -
  note eb = sendable_epoch_block [OF send] and fine = sendable_epoch_fine [OF send]
  let ?run = "codec_run rq (block_decoder rq (length (epoch_object ep geo)) (ag_symbol_size geo))
            (map (block_packet rq (epoch_object ep geo) (ag_symbol_size geo)) got)"
  obtain d' rs where dec: "audio_push_all crc rq (rc_decoder r) (map (\<lambda>j. adg_payload (ee_datagrams enc ! j)) got) = (d', rs)"
    by fastforce
  note step = epoch_into_decoder [OF lawful send enc r(2) got dec]
  have del: "all_ok rs" "delivers (audio_block_id e0) (epoch_shards ep geo) {} (shards_out rs)
        (set got \<union> (if ?run = None then {} else {..<length (epoch_shards ep geo)}))"
      "{..<length (epoch_shards ep geo)} \<subseteq> set got \<longrightarrow> ?run \<noteq> None"
    using step(1) unfolding epoch_delivered_def Let_def by blast+
  obtain ids where ids: "list_all2 (shard_is ep geo (audio_block_id e0)) ids (shards_out rs)" "distinct ids"
      "set ids \<subseteq> fragment_ids ep geo"
    and cover: "\<And>x. x \<in> fragment_ids ep geo \<Longrightarrow>
      fragment_position ep geo x \<in> set got \<union> (if ?run = None then {} else {..<length (epoch_shards ep geo)}) \<Longrightarrow> x \<in> set ids"
    using delivered_fragments [OF eb del(2)] by blast
  have out: "all_ok qs \<and> receiving ep geo (audio_block_id e0) ({} \<union> set ids) ([] @ epochs_out qs) r' \<and>
      groups_delivered ep geo {} ({} \<union> set ids) (groups_out qs) \<and> rc_decoder r' = d'"
    using receiver_stream [OF fine(1) r(1) dec del(1) ids(1,2) _ ids(3) push] by blast
  then show "\<exists>S. receiving ep geo (audio_block_id e0) S (epochs_out qs) r'" by auto
  show "audio_inv (rc_decoder r')" "known_ids (rc_decoder r') \<subseteq> insert (audio_block_id e0) (known_ids (rc_decoder r))"
    using step(2,3) out by simp_all
  have arrived: "whole_group ep geo (set ids) gi"
    if "gi < length (ep_groups ep)" "?run \<noteq> None \<or> (\<forall>i < fragment_total ep geo gi. fragment_position ep geo (gi, i) \<in> set got)" for gi
    unfolding whole_group_def
  proof (intro allI impI)
    fix i assume i: "i < fragment_total ep geo gi"
    then have "(gi, i) \<in> fragment_ids ep geo" using that(1) by (simp add: fragment_ids_def)
    then show "(gi, i) \<in> set ids" using that(2) i shard_at_position(1) by (intro cover) auto
  qed
  obtain gs where gs: "distinct gs" "list_all2 (exact_group ep) gs (groups_out qs)"
      "set gs = {gi. gi < length (ep_groups ep) \<and> whole_group ep geo (set ids) gi \<and> \<not> whole_group ep geo {} gi}"
    using out by (auto simp: groups_delivered_def)
  have "\<not> whole_group ep geo {} gi" if "gi < length (ep_groups ep)" for gi
    using fine(1) that
    by (auto simp: whole_group_def epoch_fine_def group_fine_def fragment_total_def div_ceil_pos intro!: exI [of _ 0])
  then have mem: "gi \<in> set gs"
    if "gi < length (ep_groups ep)" "?run \<noteq> None \<or> (\<forall>i < fragment_total ep geo gi. fragment_position ep geo (gi, i) \<in> set got)" for gi
    using arrived [OF that] that(1) gs(3) by simp
  have "?run \<noteq> None \<longrightarrow> whole_epoch ep geo (set ids)" using arrived by (simp add: whole_epoch_def)
  then have E: "epochs_out qs = [] \<and> \<not> ?run \<noteq> None \<or> (\<exists>e. exact_epoch ep e \<and> epochs_out qs = [e])"
    using out by (auto simp: receiving_def split: if_splits)
  have "\<exists>ids. distinct ids \<and> list_all2 (exact_group ep) ids (groups_out qs) \<and>
      (\<forall>gi < length (ep_groups ep). ?run \<noteq> None \<or>
         (\<forall>i < fragment_total ep geo gi. fragment_position ep geo (gi, i) \<in> set got) \<longrightarrow> gi \<in> set ids)"
    using gs(1,2) mem by blast
  then show "epoch_received rq ep geo got qs"
    unfolding epoch_received_def Let_def by (intro conjI conjunct1 [OF out] del(3) E)
qed

text \<open>What a new receiver makes of the datagrams of one epoch.\<close>

lemma session_receives:
  assumes lawful: "rq_lawful rq" "systematic rq" and send: "audio_sendable (ae_config e0) ep geo"
    and enc: "encode_epoch crc rq e0 ep = (e', Inr enc)" and got: "set got \<subseteq> {..<length (ee_datagrams enc)}"
    and push: "receiver_push_all crc rq (audio_receiver_new c) (map (\<lambda>j. adg_payload (ee_datagrams enc ! j)) got) = (r', qs)"
  shows "epoch_received rq ep geo got qs"
proof -
  note fine = sendable_epoch_fine [OF send]
  have "fresh_for b (rc_decoder (audio_receiver_new c))" for b
    by (simp add: audio_receiver_new_def Let_def new_fresh)
  from epoch_into_receiver(1) [OF lawful send enc got receiver_new_receiving [OF fine(2,1)] this push] show ?thesis .
qed

definition example_session :: session_config where
  "example_session = \<lparr>sc_fec = example_audio_config, sc_max_inflight_epochs = 2, sc_max_buffered_epochs = 2\<rparr>"

end
