(* ===== verification/Audio_Bounds.thy ===== *)
theory Audio_Bounds
  imports Audio_Session
begin

text \<open>
  What a receiver retains is bounded, whatever it is sent and whatever is asked of it: incomplete epochs,
  ignored block ids and buffered epochs, each within its configured limit.
\<close>

section \<open>The invariant\<close>

definition inflight_inv :: "nat \<Rightarrow> (u32 \<times> epoch_assembly) list \<Rightarrow> u32 list \<Rightarrow> bool" where
  "inflight_inv n l order \<longleftrightarrow>
     distinct order \<and> distinct (map fst l) \<and> set order = fst ` set l \<and> length l \<le> n"

definition receiver_limits :: "'d audio_receiver \<Rightarrow> nat \<times> nat \<times> nat" where
  "receiver_limits r = (rc_max_inflight r, rc_max_ignored r, pb_max_buffered (rc_playout r))"

definition receiver_inv :: "'d audio_receiver \<Rightarrow> bool" where
  "receiver_inv r \<longleftrightarrow> 0 < rc_max_inflight r \<and>
     inflight_inv (rc_max_inflight r) (rc_inflight r) (rc_inflight_order r) \<and> ignored.inv r \<and> playout_inv (rc_playout r)"

definition keeps :: "'d audio_receiver \<Rightarrow> 'd audio_receiver \<Rightarrow> bool" where
  "keeps r r' \<longleftrightarrow> receiver_inv r' \<and> receiver_limits r' = receiver_limits r"

lemma keeps_trans: "keeps r r1 \<Longrightarrow> keeps r1 r2 \<Longrightarrow> keeps r r2"
  by (simp add: keeps_def)

lemma keeps_refl: "receiver_inv r \<Longrightarrow> keeps r r"
  by (simp add: keeps_def)

lemma ignored_inv_update [simp]:
  "ignored.inv (r\<lparr>rc_inflight := l\<rparr>) = ignored.inv r" "ignored.inv (r\<lparr>rc_inflight_order := q\<rparr>) = ignored.inv r"
  "ignored.inv (r\<lparr>rc_stats := s\<rparr>) = ignored.inv r" "ignored.inv (r\<lparr>rc_decoder := d\<rparr>) = ignored.inv r"
  "ignored.inv (r\<lparr>rc_playout := p\<rparr>) = ignored.inv r"
  by (simp_all add: ignored.inv_def)

lemma remember_ignored_simps [simp]:
  "rc_inflight (remember_ignored b r) = rc_inflight r" "rc_inflight_order (remember_ignored b r) = rc_inflight_order r"
  "rc_max_inflight (remember_ignored b r) = rc_max_inflight r" "rc_max_ignored (remember_ignored b r) = rc_max_ignored r"
  "rc_playout (remember_ignored b r) = rc_playout r" "rc_stats (remember_ignored b r) = rc_stats r"
  by (simp_all add: remember_ignored_def split: prod.split)

lemma keeps_stats: "keeps r r' \<Longrightarrow> keeps r (r'\<lparr>rc_stats := s\<rparr>)"
  by (auto simp: keeps_def receiver_inv_def receiver_limits_def)

lemma inflight_delete:
  assumes "inflight_inv n l order"
  shows "inflight_inv n (AList.delete b l) (filter (\<lambda>c. c \<noteq> b) order)"
proof -
  have "set (map fst (AList.delete b l)) = set (map fst l) - {b}"
    unfolding AList.delete_keys by (rule set_removeAll)
  moreover have "length (AList.delete b l) \<le> n"
    using AList.length_delete_le [of b l] assms by (simp add: inflight_inv_def)
  ultimately show ?thesis
    using assms AList.distinct_delete [of l b] by (auto simp: inflight_inv_def)
qed

lemma inflight_update:
  assumes "inflight_inv n l order" "b \<in> fst ` set l"
  shows "inflight_inv n (AList.update b a l) order"
proof -
  have keys: "map fst (AList.update b a l) = map fst l" using assms(2) by (simp add: AList.update_keys)
  then have "length (AList.update b a l) = length l" by (metis length_map)
  moreover have "fst ` set (AList.update b a l) = fst ` set l" using keys by (metis set_map)
  ultimately show ?thesis
    using assms(1) keys by (simp add: inflight_inv_def)
qed

lemma drop_inflight_keeps:
  assumes "receiver_inv r"
  shows "keeps r (drop_inflight b r)"
  using assms inflight_delete [of _ "rc_inflight r" "rc_inflight_order r" b]
    ignored.remember_inv [of "r\<lparr>rc_inflight := AList.delete b (rc_inflight r),
      rc_inflight_order := filter (\<lambda>c. c \<noteq> b) (rc_inflight_order r)\<rparr>" b]
  by (simp add: keeps_def receiver_inv_def receiver_limits_def drop_inflight_def)

section \<open>Room for one more\<close>

lemma make_slot_keeps:
  assumes "receiver_inv (r\<lparr>rc_inflight_order := order\<rparr>)"
  shows "keeps r (make_slot order r) \<and> length (rc_inflight (make_slot order r)) < rc_max_inflight r"
  using assms
proof (induction order arbitrary: r)
  case Nil
  then show ?case by (simp add: keeps_def receiver_inv_def receiver_limits_def inflight_inv_def)
next
  case (Cons b rest)
  note inv = Cons.prems
  show ?case
  proof (cases "length (rc_inflight r) \<ge> rc_max_inflight r")
    case True
    have l: "b \<in> fst ` set (rc_inflight r)" "distinct (map fst (rc_inflight r))" "distinct (b # rest)"
        "set (b # rest) = fst ` set (rc_inflight r)" "length (rc_inflight r) = rc_max_inflight r"
      using inv True by (auto simp: receiver_inv_def inflight_inv_def)
    let ?r0 = "r\<lparr>rc_inflight := AList.delete b (rc_inflight r), rc_stats := bump_incomplete_epochs_dropped 1 (rc_stats r)\<rparr>"
    have eq: "make_slot (b # rest) r = make_slot rest (remember_ignored b ?r0)"
      using True l(1) by (auto simp: map_of_eq_None_iff)
    have "filter (\<lambda>c. c \<noteq> b) (b # rest) = rest" using l(3) by (auto intro: filter_True)
    then have fl: "inflight_inv (rc_max_inflight r) (AList.delete b (rc_inflight r)) rest"
      using inflight_delete [of "rc_max_inflight r" "rc_inflight r" "b # rest" b] inv by (simp add: receiver_inv_def)
    have ign: "ignored.inv ?r0" using inv by (simp add: receiver_inv_def)
    have "receiver_inv ((remember_ignored b ?r0)\<lparr>rc_inflight_order := rest\<rparr>)"
      using inv fl ignored.remember_inv [OF ign, of b] by (simp add: receiver_inv_def)
    from Cons.IH [OF this] show ?thesis unfolding eq by (simp add: keeps_def receiver_limits_def)
  next
    case False
    then show ?thesis using inv by (simp add: keeps_def receiver_limits_def)
  qed
qed

lemma open_assembly_keeps:
  assumes inv: "receiver_inv r" and op: "open_assembly b h (ensure_inflight_slot b r) = (r2, a)"
  shows "keeps r r2 \<and> b \<in> fst ` set (rc_inflight r2)"
proof (cases "map_of (rc_inflight r) b")
  case (Some a')
  then have "r2 = r" using op by (simp add: ensure_inflight_slot_def open_assembly_def)
  then show ?thesis using inv Some by (force simp: keeps_refl dest: map_of_SomeD)
next
  case None
  let ?r1 = "make_slot (rc_inflight_order r) r"
  have slot: "keeps r ?r1" "length (rc_inflight ?r1) < rc_max_inflight r"
    using make_slot_keeps [of "rc_inflight_order r" r] inv by simp_all
  have ens: "ensure_inflight_slot b r = ?r1" using None by (simp add: ensure_inflight_slot_def)
  show ?thesis
  proof (cases "map_of (rc_inflight ?r1) b")
    case (Some a')
    then have "r2 = ?r1" using op by (simp add: ens open_assembly_def)
    then show ?thesis using slot Some by (force dest: map_of_SomeD)
  next
    case new: None
    then have b: "b \<notin> fst ` set (rc_inflight ?r1)" by (simp add: map_of_eq_None_iff)
    have r2: "r2 = ?r1\<lparr>rc_inflight_order := rc_inflight_order ?r1 @ [b], rc_inflight := AList.update b (epoch_assembly_new b h) (rc_inflight ?r1)\<rparr>"
      using op new by (auto simp: ens open_assembly_def Let_def)
    let ?l = "AList.update b (epoch_assembly_new b h) (rc_inflight ?r1)"
    have keys: "map fst ?l = map fst (rc_inflight ?r1) @ [b]" using b by (simp add: AList.update_keys)
    then have "length ?l = Suc (length (rc_inflight ?r1))" by (metis length_map length_append_singleton)
    moreover have "set (map fst ?l) = insert b (fst ` set (rc_inflight ?r1))" unfolding keys by simp
    moreover have "distinct (map fst ?l)" unfolding keys using slot(1) b by (simp add: keeps_def receiver_inv_def inflight_inv_def)
    moreover have "rc_max_inflight ?r1 = rc_max_inflight r" using slot(1) by (simp add: keeps_def receiver_limits_def)
    ultimately show ?thesis
      using slot b unfolding r2 by (auto simp: keeps_def receiver_inv_def receiver_limits_def inflight_inv_def)
  qed
qed

section \<open>Every operation keeps the bounds\<close>

lemma playout_step_keeps:
  assumes "receiver_inv r" "playout_step op (rc_playout r) = (pb, res)"
  shows "keeps r (r\<lparr>rc_playout := pb\<rparr>)"
  using step_refines [of "rc_playout r" op] assms
  by (simp add: keeps_def receiver_inv_def receiver_limits_def refines_step_def)

lemma complete_epoch_keeps:
  assumes "receiver_inv r"
  shows "keeps r (fst (complete_epoch b a out r))"
proof -
  let ?r1 = "r\<lparr>rc_inflight := AList.delete b (rc_inflight r), rc_inflight_order := filter (\<lambda>c. c \<noteq> b) (rc_inflight_order r)\<rparr>"
  have r1: "keeps r ?r1"
    using assms inflight_delete [of _ "rc_inflight r" "rc_inflight_order r" b]
    by (simp add: keeps_def receiver_inv_def receiver_limits_def)
  show ?thesis
  proof (cases "epoch_finish a")
    case (Inl err)
    then show ?thesis using r1 by (simp add: complete_epoch_def Let_def)
  next
    case (Inr e)
    obtain pb res where ins: "playout_insert e (rc_playout ?r1) = (pb, res)" by fastforce
    then have "keeps ?r1 (?r1\<lparr>rc_playout := pb\<rparr>)"
      using playout_step_keeps [of ?r1 "InsertOp e" pb "Outcome res"] r1 by (simp add: keeps_def)
    from keeps_stats [OF keeps_trans [OF r1 this]] show ?thesis
      using Inr ins by (simp add: complete_epoch_def Let_def)
  qed
qed

lemma receive_shard_keeps:
  assumes inv: "receiver_inv r"
  shows "keeps r (fst (receive_shard shard out r))"
proof -
  let ?b = "dsh_block_id shard" and ?r1 = "r\<lparr>rc_stats := count_shard shard (rc_stats r)\<rparr>"
  have r1: "keeps r ?r1" "receiver_inv ?r1" using keeps_stats [OF keeps_refl [OF inv]] by (auto simp: keeps_def)
  obtain r2 a where op: "open_assembly ?b (dsh_header shard) (ensure_inflight_slot ?b ?r1) = (r2, a)" by fastforce
  obtain a1 q where ep: "epoch_push a shard = (a1, q)" by fastforce
  let ?r3 = "r2\<lparr>rc_inflight := AList.update ?b a1 (rc_inflight r2)\<rparr>"
  have r2: "keeps r r2" "?b \<in> fst ` set (rc_inflight r2)"
    using open_assembly_keeps [OF r1(2) op] keeps_trans [OF r1(1)] by blast+
  have r3: "keeps r ?r3"
    using r2 inflight_update [of _ "rc_inflight r2" "rc_inflight_order r2" ?b a1]
    by (auto simp: keeps_def receiver_inv_def receiver_limits_def)
  have r4: "keeps r (?r3\<lparr>rc_stats := st\<rparr>)" for st using keeps_stats [OF r3] .
  have done_epoch: "keeps r x \<Longrightarrow> keeps r (fst (complete_epoch ?b a1 out1 x))" for x out1
    using complete_epoch_keeps [of x ?b a1 out1] keeps_trans [of r x] by (simp add: keeps_def)
  consider (skip) "receive_shard shard out r = (?r1, Inr out)"
    | (err) e where "receive_shard shard out r = (?r3, Inl e)"
    | (partial) x out1 where "receive_shard shard out r = (x, Inr out1)" "keeps r x"
    | (complete) x out1 where "receive_shard shard out r = complete_epoch ?b a1 out1 x" "keeps r x"
  proof (cases "?b \<in> rc_ignored ?r1 \<or> receiver_is_late (sh_pts_samples (dsh_header shard)) ?r1")
    case True
    then show ?thesis using that(1) by (simp add: receive_shard_def Let_def)
  next
    case live: False
    show ?thesis
    proof (cases q)
      case (Inl e)
      then show ?thesis using live op ep that(2) by (simp add: receive_shard_def Let_def)
    next
      case (Inr finished)
      define x where "x = (case finished of None \<Rightarrow> ?r3 | Some g \<Rightarrow> ?r3\<lparr>rc_stats := bump_groups_completed 1 (rc_stats ?r3)\<rparr>)"
      define o1 where "o1 = (case finished of None \<Rightarrow> out
          | Some g \<Rightarrow> out\<lparr>ro_completed_groups := ro_completed_groups out @ [g]\<rparr>)"
      have "receive_shard shard out r = (if epoch_is_complete a1 then complete_epoch ?b a1 o1 x else (x, Inr o1))"
        using live op ep Inr by (simp add: receive_shard_def Let_def x_def o1_def)
      moreover have "keeps r x" using r3 r4 by (simp add: x_def split: option.split)
      ultimately show ?thesis using that(3,4) by (cases "epoch_is_complete a1") auto
    qed
  qed
  then show ?thesis
  proof cases
    case skip
    then show ?thesis using r1 by simp
  next
    case err
    then show ?thesis using r3 by simp
  next
    case partial
    then show ?thesis by simp
  next
    case complete
    then show ?thesis using done_epoch by simp
  qed
qed

lemma receive_shards_keeps:
  "receiver_inv r \<Longrightarrow> keeps r (fst (receive_shards shards out r))"
proof (induction shards arbitrary: r out)
  case (Cons s shards)
  obtain r1 q where one: "receive_shard s out r = (r1, q)" by fastforce
  have r1: "keeps r r1" using receive_shard_keeps [OF Cons.prems, of s out] one by simp
  show ?case
  proof (cases q)
    case (Inr out1)
    have "keeps r1 (fst (receive_shards shards out1 r1))" using Cons.IH [of r1 out1] r1 by (simp add: keeps_def)
    then show ?thesis using keeps_trans [OF r1] one Inr by simp
  qed (use one r1 in simp)
qed (simp add: keeps_refl)

lemma push_keeps:
  assumes "receiver_inv r"
  shows "keeps r (fst (receiver_push_datagram crc rq r x))"
proof -
  obtain d q where a: "audio_push_datagram crc rq (rc_decoder r) x = (d, q)" by fastforce
  let ?r1 = "r\<lparr>rc_stats := bump_datagrams_received 1 (rc_stats r), rc_decoder := d\<rparr>"
  have r1: "keeps r ?r1" using assms by (simp add: keeps_def receiver_inv_def receiver_limits_def)
  then have "receiver_inv ?r1" by (simp add: keeps_def)
  then have "keeps r (fst (receive_shards shards receive_outcome_default ?r1))" for shards
    using keeps_trans [OF r1 receive_shards_keeps] by blast
  then show ?thesis using a r1 by (simp add: receiver_push_datagram_def Let_def split: sum.split)
qed

lemma drop_all_keeps: "receiver_inv r \<Longrightarrow> keeps r (fold drop_inflight bs r)"
proof (induction bs arbitrary: r)
  case (Cons b bs)
  have "keeps r (drop_inflight b r)" using drop_inflight_keeps [OF Cons.prems] .
  then show ?case using Cons.IH [of "drop_inflight b r"] keeps_trans by (auto simp: keeps_def)
qed (simp add: keeps_refl)

lemma abandon_keeps: "receiver_inv r \<Longrightarrow> keeps r (abandon_inflight_through ord pts r)"
proof -
  have "receiver_inv r \<Longrightarrow> keeps r (fold (\<lambda>b r. (drop_inflight b r)\<lparr>rc_stats :=
      bump_incomplete_epochs_dropped 1 (rc_stats (drop_inflight b r))\<rparr>) bs r)" for bs
  proof (induction bs arbitrary: r)
    case (Cons b bs)
    have "keeps r ((drop_inflight b r)\<lparr>rc_stats := bump_incomplete_epochs_dropped 1 (rc_stats (drop_inflight b r))\<rparr>)"
      using keeps_stats [OF drop_inflight_keeps [OF Cons.prems]] .
    then show ?case
      using Cons.IH [of "(drop_inflight b r)\<lparr>rc_stats := bump_incomplete_epochs_dropped 1 (rc_stats (drop_inflight b r))\<rparr>"]
        keeps_trans by (auto simp: keeps_def)
  qed (simp add: keeps_refl)
  then show "receiver_inv r \<Longrightarrow> keeps r (abandon_inflight_through ord pts r)"
    by (simp add: abandon_inflight_through_def)
qed

lemma take_keeps:
  assumes "receiver_inv r"
  shows "keeps r (fst (receiver_take_for_playout ord pts r))"
proof -
  let ?r1 = "abandon_inflight_through ord pts r"
  have r1: "keeps r ?r1" using abandon_keeps [OF assms] .
  obtain pb q where tk: "playout_take pts (rc_playout ?r1) = (pb, q)" by fastforce
  then have "keeps ?r1 (?r1\<lparr>rc_playout := pb\<rparr>)"
    using playout_step_keeps [of ?r1 "TakeOp pts" pb "Read q"] r1 by (simp add: keeps_def)
  then have "keeps r (?r1\<lparr>rc_playout := pb, rc_stats := st\<rparr>)" for st
    using keeps_stats [OF keeps_trans [OF r1]] by blast
  then show ?thesis by (cases q) (simp_all add: receiver_take_for_playout_def Let_def tk)
qed

lemma expire_keeps:
  assumes "receiver_inv r"
  shows "keeps r (fst (receiver_expire_before ord pts r))"
proof -
  obtain pb n where ex: "playout_expire_before pts (rc_playout r) = (pb, n)" by fastforce
  let ?r1 = "r\<lparr>rc_playout := pb\<rparr>"
  have r1: "keeps r ?r1" using playout_step_keeps [OF assms, of "ExpireOp pts" pb "Dropped n"] ex by simp
  then have "keeps ?r1 (fold drop_inflight bs ?r1)" for bs by (intro drop_all_keeps) (simp add: keeps_def)
  from keeps_stats [OF keeps_trans [OF r1 this]] show ?thesis
    by (simp add: receiver_expire_before_def ex Let_def)
qed

section \<open>A receiver in use\<close>

datatype receiver_op = ReceiverPush bytes | ReceiverTake u64 | ReceiverExpire u64

definition run_receiver_op ::
    "crc_fun \<Rightarrow> ('e, 'd) raptorq \<Rightarrow> (u32 list \<Rightarrow> u32 list) \<Rightarrow> receiver_op \<Rightarrow> 'd audio_receiver \<Rightarrow> 'd audio_receiver" where
  "run_receiver_op crc rq ord op r =
     (case op of
        ReceiverPush x \<Rightarrow> fst (receiver_push_datagram crc rq r x)
      | ReceiverTake pts \<Rightarrow> fst (receiver_take_for_playout ord pts r)
      | ReceiverExpire pts \<Rightarrow> fst (receiver_expire_before ord pts r))"

lemma run_receiver_keeps: "receiver_inv r \<Longrightarrow> keeps r (fold (run_receiver_op crc rq ord) ops r)"
proof (induction ops arbitrary: r)
  case (Cons op ops)
  have one: "keeps r (run_receiver_op crc rq ord op r)"
    using push_keeps [OF Cons.prems] take_keeps [OF Cons.prems] expire_keeps [OF Cons.prems]
    by (cases op) (simp_all add: run_receiver_op_def)
  then have "keeps (run_receiver_op crc rq ord op r) (fold (run_receiver_op crc rq ord) ops (run_receiver_op crc rq ord op r))"
    using Cons.IH [of "run_receiver_op crc rq ord op r"] by (simp add: keeps_def)
  from keeps_trans [OF one this] show ?case by simp
qed (simp add: keeps_refl)

text \<open>
  C29. The receiver's memory is bounded. Whatever datagrams are pushed, valid or not, and whatever times are
  played or expired, in any order: the incomplete epochs, the ignored block ids and the buffered epochs
  stay within the limits of the configuration, a block has one assembly, and the queue lists exactly the
  blocks with an assembly, so the oldest is the one to go.
\<close>
theorem receiver_memory_bounded:
  fixes rq :: "('e, 'd) raptorq"
  shows "let r = fold (run_receiver_op crc rq ord) ops (audio_receiver_new c); cfg = session_config_normalized c
   in length (rc_inflight r) \<le> sc_max_inflight_epochs cfg \<and>
      card (rc_ignored r) \<le> max (usize_sat_mul (sc_max_inflight_epochs cfg) 4) 64 \<and>
      length (pb_epochs (rc_playout r)) \<le> sc_max_buffered_epochs cfg \<and>
      distinct (map fst (rc_inflight r)) \<and> distinct (rc_inflight_order r) \<and>
      set (rc_inflight_order r) = fst ` set (rc_inflight r)"
proof -
  let ?new = "audio_receiver_new c :: 'd audio_receiver" and ?cfg = "session_config_normalized c"
  have new: "receiver_inv ?new" "receiver_limits ?new =
      (sc_max_inflight_epochs ?cfg, max (usize_sat_mul (sc_max_inflight_epochs ?cfg) 4) 64, sc_max_buffered_epochs ?cfg)"
    using playout_new_inv [of "sc_max_buffered_epochs ?cfg"]
    by (simp_all add: receiver_inv_def receiver_limits_def inflight_inv_def audio_receiver_new_def Let_def ignored.inv_def
        ids_inv_def session_config_normalized_def playout_new_def less_max_iff_disj)
  let ?r = "fold (run_receiver_op crc rq ord) ops ?new"
  have k: "receiver_inv ?r" "receiver_limits ?r = receiver_limits ?new"
    using run_receiver_keeps [OF new(1), of crc rq ord ops] by (simp_all add: keeps_def)
  show ?thesis
    using k(1) k(2) [unfolded new(2)] ignored.inv_card [of ?r]
    by (simp add: Let_def receiver_inv_def receiver_limits_def inflight_inv_def playout_inv_def)
qed

end
