(* ===== verification/Transport.thy ===== *)
theory Transport
  imports Media Audio_Delivery Audio_Session
begin

text \<open>
  \<^verbatim>\<open>raptorq-fec-transport/src/lib.rs\<close>: the stream id prefix, the prefix of audio epochs, the encoders and decoders that add and remove them, and the loops that hand datagrams
  to a sender. The \<open>DatagramSender\<close> is a parameter: a function from its state and a datagram to its new
  state and a result. The futures are awaited one after the other, so a loop is a recursion.
\<close>

section \<open>Configuration\<close>

definition STREAM_ID_PREFIX_LEN :: nat where "STREAM_ID_PREFIX_LEN = 8"
definition AUDIO_TRANSPORT_MAGIC :: bytes where "AUDIO_TRANSPORT_MAGIC = [0x41, 0x45, 0x50, 0x31]"
definition AUDIO_TRANSPORT_MAGIC_LEN :: nat where "AUDIO_TRANSPORT_MAGIC_LEN = 4"

datatype transport_kind = Udp | WebTransport | WebRtc
datatype stream_id_mode = NoStreamId | Prefix64Be u64

record transport_config =
  tc_kind :: transport_kind
  tc_stream_id_mode :: stream_id_mode

definition config_udp :: transport_config where
  "config_udp = \<lparr>tc_kind = Udp, tc_stream_id_mode = NoStreamId\<rparr>"

definition config_webtransport :: transport_config where
  "config_webtransport = \<lparr>tc_kind = WebTransport, tc_stream_id_mode = NoStreamId\<rparr>"

definition config_webtransport_with_stream_prefix :: "u64 \<Rightarrow> transport_config" where
  "config_webtransport_with_stream_prefix stream_id =
     \<lparr>tc_kind = WebTransport, tc_stream_id_mode = Prefix64Be stream_id\<rparr>"

definition config_webrtc :: transport_config where
  "config_webrtc = \<lparr>tc_kind = WebRtc, tc_stream_id_mode = NoStreamId\<rparr>"

section \<open>Prefixes\<close>

datatype transport_error =
    MissingStreamIdPrefix
  | UnexpectedStreamId u64 u64
  | TransportFec datagram_fec_error

datatype audio_transport_error =
    AudioFraming transport_error
  | AudioCodec audio_fec_error
  | DatagramTooLarge nat nat
  | SourceAfterRepair u32
  | MissingAudioEpochPrefix

definition encode_stream_id_prefix :: "u64 \<Rightarrow> bytes" where
  "encode_stream_id_prefix stream_id = rev (le64 stream_id)"

definition webtransport_subscription_datagram :: "u64 \<Rightarrow> bytes" where
  "webtransport_subscription_datagram stream_id = encode_stream_id_prefix stream_id"

definition split_stream_id_prefix :: "bytes \<Rightarrow> (u64 \<times> bytes) option" where
  "split_stream_id_prefix datagram =
     (if length datagram < STREAM_ID_PREFIX_LEN then None
      else Some (le_join (rev (take STREAM_ID_PREFIX_LEN datagram)), drop STREAM_ID_PREFIX_LEN datagram))"

definition mode_prefix :: "stream_id_mode \<Rightarrow> bytes option" where
  "mode_prefix m = (case m of NoStreamId \<Rightarrow> None | Prefix64Be stream_id \<Rightarrow> Some (encode_stream_id_prefix stream_id))"

definition add_prefix :: "bytes option \<Rightarrow> bytes \<Rightarrow> bytes" where
  "add_prefix prefix datagram = (case prefix of None \<Rightarrow> datagram | Some p \<Rightarrow> p @ datagram)"

definition strip_transport_prefix :: "stream_id_mode \<Rightarrow> bytes \<Rightarrow> (transport_error, bytes) result" where
  "strip_transport_prefix m datagram =
     (case m of
        NoStreamId \<Rightarrow> Inr datagram
      | Prefix64Be expected \<Rightarrow>
          (case split_stream_id_prefix datagram of
             None \<Rightarrow> Inl MissingStreamIdPrefix
           | Some (stream_id, payload) \<Rightarrow>
               if stream_id \<noteq> expected then Inl (UnexpectedStreamId expected stream_id) else Inr payload))"

definition add_audio_epoch_prefix :: "bytes \<Rightarrow> bytes" where
  "add_audio_epoch_prefix datagram = AUDIO_TRANSPORT_MAGIC @ datagram"

definition is_multichannel_audio_transport_datagram :: "bytes \<Rightarrow> bool" where
  "is_multichannel_audio_transport_datagram datagram = (take AUDIO_TRANSPORT_MAGIC_LEN datagram = AUDIO_TRANSPORT_MAGIC)"

definition strip_audio_epoch_prefix :: "bytes \<Rightarrow> (audio_transport_error, bytes) result" where
  "strip_audio_epoch_prefix datagram =
     (if is_multichannel_audio_transport_datagram datagram then Inr (drop AUDIO_TRANSPORT_MAGIC_LEN datagram)
      else Inl MissingAudioEpochPrefix)"

section \<open>Block datagrams over a transport\<close>

record transport_encoder =
  te_inner :: fec_encoder
  te_stream_id_mode :: stream_id_mode

definition transport_encoder_new :: "transport_config \<Rightarrow> transport_encoder" where
  "transport_encoder_new c = \<lparr>te_inner = encoder_new, te_stream_id_mode = tc_stream_id_mode c\<rparr>"

definition transport_encode_payload ::
    "crc_fun \<Rightarrow> ('e, 'd) raptorq \<Rightarrow> transport_encoder \<Rightarrow> bytes \<Rightarrow>
     transport_encoder \<times> (datagram_fec_error, bytes list) result" where
  "transport_encode_payload crc rq e payload =
     (case encode_payload crc rq (te_inner e) payload of
        (inner, r) \<Rightarrow>
          (e\<lparr>te_inner := inner\<rparr>, rbind r (\<lambda>ds. Inr (map (add_prefix (mode_prefix (te_stream_id_mode e))) ds))))"

record transport_media_frame =
  tmf_sequence :: u64
  tmf_fragment_count :: u16
  tmf_decision :: fec_decision
  tmf_blocks :: "media_block list"
  tmf_datagrams :: "bytes list"

definition transport_encode_media_frame ::
    "crc_fun \<Rightarrow> ('e, 'd) raptorq \<Rightarrow> transport_encoder \<Rightarrow> media_encoder \<Rightarrow> media_metadata \<Rightarrow> bytes \<Rightarrow>
     media_encoder \<times> (media_fec_error, transport_media_frame) result" where
  "transport_encode_media_frame crc rq e media metadata payload =
     (case encode_frame crc rq media metadata payload of
        (media1, r) \<Rightarrow>
          (media1, rbind r (\<lambda>f.
             Inr \<lparr>tmf_sequence = ef_sequence f, tmf_fragment_count = ef_fragment_count f,
                  tmf_decision = ef_decision f, tmf_blocks = ef_blocks f,
                  tmf_datagrams = map (add_prefix (mode_prefix (te_stream_id_mode e))) (ef_datagrams f)\<rparr>)))"

record 'd transport_decoder =
  td_inner :: "'d fec_decoder"
  td_stream_id_mode :: stream_id_mode

definition transport_decoder_new :: "transport_config \<Rightarrow> 'd transport_decoder" where
  "transport_decoder_new c = \<lparr>td_inner = decoder_new, td_stream_id_mode = tc_stream_id_mode c\<rparr>"

definition transport_push_datagram ::
    "crc_fun \<Rightarrow> ('e, 'd) raptorq \<Rightarrow> 'd transport_decoder \<Rightarrow> bytes \<Rightarrow>
     'd transport_decoder \<times> (transport_error, bytes option) result" where
  "transport_push_datagram crc rq d datagram =
     (case strip_transport_prefix (td_stream_id_mode d) datagram of
        Inl err \<Rightarrow> (d, Inl err)
      | Inr payload \<Rightarrow>
          (case push_datagram crc rq (td_inner d) payload of
             (inner, r) \<Rightarrow> (d\<lparr>td_inner := inner\<rparr>, map_err TransportFec r)))"

datatype transport_media_error = MediaFraming transport_error | MediaCodec media_fec_error

definition transport_push_media_datagram ::
    "crc_fun \<Rightarrow> ('e, 'd) raptorq \<Rightarrow> 'd transport_decoder \<Rightarrow> 'd media_decoder \<Rightarrow> bytes \<Rightarrow>
     'd media_decoder \<times> (transport_media_error, decoded_frame option) result" where
  "transport_push_media_datagram crc rq d media datagram =
     (case strip_transport_prefix (td_stream_id_mode d) datagram of
        Inl err \<Rightarrow> (media, Inl (MediaFraming err))
      | Inr payload \<Rightarrow>
          (case media_push_datagram crc rq media payload of (media1, r) \<Rightarrow> (media1, map_err MediaCodec r)))"

definition transport_sequence_stats :: "'d transport_decoder \<Rightarrow> sequence_stats" where
  "transport_sequence_stats d = decoder_sequence_stats (td_inner d)"

section \<open>Senders\<close>

type_synonym ('s, 'x) datagram_sender = "'s \<Rightarrow> bytes \<Rightarrow> 's \<times> ('x, unit) result"

record 's fec_sender =
  sn_inner :: 's
  sn_encoder :: transport_encoder

definition fec_sender_new :: "'s \<Rightarrow> transport_config \<Rightarrow> 's fec_sender" where
  "fec_sender_new s c = \<lparr>sn_inner = s, sn_encoder = transport_encoder_new c\<rparr>"

datatype 'x fec_send_error = SendFec datagram_fec_error | SendTransport 'x

fun send_all :: "('s, 'x) datagram_sender \<Rightarrow> bytes list \<Rightarrow> 's \<Rightarrow> 's \<times> ('x, unit) result" where
  "send_all send [] s = (s, Inr ())"
| "send_all send (d # ds) s =
     (case send s d of
        (s1, Inl x) \<Rightarrow> (s1, Inl x)
      | (s1, Inr _) \<Rightarrow> send_all send ds s1)"

definition send_fec ::
    "crc_fun \<Rightarrow> ('e, 'd) raptorq \<Rightarrow> ('s, 'x) datagram_sender \<Rightarrow> 's fec_sender \<Rightarrow> bytes \<Rightarrow>
     's fec_sender \<times> ('x fec_send_error, nat) result" where
  "send_fec crc rq send fs payload =
     (case transport_encode_payload crc rq (sn_encoder fs) payload of
        (e, Inl err) \<Rightarrow> (fs\<lparr>sn_encoder := e\<rparr>, Inl (SendFec err))
      | (e, Inr ds) \<Rightarrow>
          (case send_all send ds (sn_inner fs) of
             (s, r) \<Rightarrow> (fs\<lparr>sn_encoder := e, sn_inner := s\<rparr>,
                rbind (map_err SendTransport r) (\<lambda>_. Inr (length ds)))))"

section \<open>Audio epochs over a transport\<close>

record audio_adapter =
  ta_transport :: transport_config
  ta_max_datagram_size :: nat

definition audio_adapter_new :: "transport_config \<Rightarrow> nat \<Rightarrow> audio_adapter" where
  "audio_adapter_new c n = \<lparr>ta_transport = c, ta_max_datagram_size = n\<rparr>"

definition transport_overhead :: "audio_adapter \<Rightarrow> nat" where
  "transport_overhead a =
     AUDIO_TRANSPORT_MAGIC_LEN +
     (case tc_stream_id_mode (ta_transport a) of NoStreamId \<Rightarrow> 0 | Prefix64Be _ \<Rightarrow> STREAM_ID_PREFIX_LEN)"

definition prepare_fec_config :: "audio_adapter \<Rightarrow> audio_config \<Rightarrow> audio_config" where
  "prepare_fec_config a c =
     c\<lparr>ac_max_datagram_size := ta_max_datagram_size a, ac_transport_overhead := transport_overhead a\<rparr>"

record transport_audio_datagram =
  tad_block_id :: u32
  tad_packet_sequence :: u32
  tad_role :: audio_role
  tad_playout_pts_samples :: u64
  tad_payload :: bytes

record transport_audio_epoch =
  tae_session_id :: u64
  tae_config_generation :: u32
  tae_epoch_id :: u64
  tae_pts_samples :: u64
  tae_sample_rate :: u32
  tae_frame_count :: u32
  tae_block_id :: u32
  tae_source_symbols :: u16
  tae_repair_symbols :: u32
  tae_datagrams :: "transport_audio_datagram list"

definition source_datagrams :: "transport_audio_epoch \<Rightarrow> transport_audio_datagram list" where
  "source_datagrams e = takeWhile (is_source \<circ> tad_role) (tae_datagrams e)"

definition repair_datagrams :: "transport_audio_epoch \<Rightarrow> transport_audio_datagram list" where
  "repair_datagrams e = dropWhile (is_source \<circ> tad_role) (tae_datagrams e)"

definition frame_audio_datagram :: "audio_adapter \<Rightarrow> bytes \<Rightarrow> bytes" where
  "frame_audio_datagram a datagram =
     add_prefix (mode_prefix (tc_stream_id_mode (ta_transport a))) (add_audio_epoch_prefix datagram)"

text \<open>The loop of \<open>wrap_epoch\<close>, with its flag \<open>saw_repair\<close>.\<close>

fun wrap_datagrams ::
    "audio_adapter \<Rightarrow> u64 \<Rightarrow> bool \<Rightarrow> audio_datagram list \<Rightarrow>
     (audio_transport_error, transport_audio_datagram list) result" where
  "wrap_datagrams a pts saw_repair [] = Inr []"
| "wrap_datagrams a pts saw_repair (d # ds) =
     (if is_source (adg_role d) \<and> saw_repair then Inl (SourceAfterRepair (adg_packet_sequence d))
      else
        (let payload = frame_audio_datagram a (adg_payload d)
         in if length payload > ta_max_datagram_size a then
              Inl (DatagramTooLarge (length payload) (ta_max_datagram_size a))
            else
              rbind (wrap_datagrams a pts (saw_repair \<or> \<not> is_source (adg_role d)) ds) (\<lambda>rest.
                Inr (\<lparr>tad_block_id = adg_block_id d, tad_packet_sequence = adg_packet_sequence d,
                      tad_role = adg_role d, tad_playout_pts_samples = pts, tad_payload = payload\<rparr> # rest))))"

definition wrap_epoch :: "audio_adapter \<Rightarrow> encoded_epoch \<Rightarrow> (audio_transport_error, transport_audio_epoch) result" where
  "wrap_epoch a e =
     rbind (wrap_datagrams a (ee_pts_samples e) False (ee_datagrams e)) (\<lambda>ds.
       Inr \<lparr>tae_session_id = ee_session_id e, tae_config_generation = ee_config_generation e,
            tae_epoch_id = ee_epoch_id e, tae_pts_samples = ee_pts_samples e, tae_sample_rate = ee_sample_rate e,
            tae_frame_count = ee_frame_count e, tae_block_id = ee_block_id e,
            tae_source_symbols = ee_source_symbols e, tae_repair_symbols = ee_repair_symbols e, tae_datagrams = ds\<rparr>)"

definition adapter_payload :: "audio_adapter \<Rightarrow> bytes \<Rightarrow> (audio_transport_error, bytes) result" where
  "adapter_payload a datagram =
     rbind (map_err AudioFraming (strip_transport_prefix (tc_stream_id_mode (ta_transport a)) datagram))
       strip_audio_epoch_prefix"

definition adapter_push_datagram ::
    "crc_fun \<Rightarrow> ('e, 'd) raptorq \<Rightarrow> audio_adapter \<Rightarrow> 'd audio_decoder \<Rightarrow> bytes \<Rightarrow>
     'd audio_decoder \<times> (audio_transport_error, decoded_shard list) result" where
  "adapter_push_datagram crc rq a d datagram =
     (case adapter_payload a datagram of
        Inl err \<Rightarrow> (d, Inl err)
      | Inr payload \<Rightarrow>
          (case audio_push_datagram crc rq d payload of (d1, r) \<Rightarrow> (d1, map_err AudioCodec r)))"

record send_report =
  sr_source_datagrams :: nat
  sr_repair_datagrams :: nat

datatype 'x audio_send_error = SendAdapter audio_transport_error | SendFailed 'x

definition count_sent :: "audio_role \<Rightarrow> send_report \<Rightarrow> send_report" where
  "count_sent role report =
     (case role of
        SourceSymbol _ \<Rightarrow> report\<lparr>sr_source_datagrams := sr_source_datagrams report + 1\<rparr>
      | RepairSymbol _ \<Rightarrow> report\<lparr>sr_repair_datagrams := sr_repair_datagrams report + 1\<rparr>)"

fun send_datagrams ::
    "('s, 'x) datagram_sender \<Rightarrow> transport_audio_datagram list \<Rightarrow> send_report \<Rightarrow> 's \<Rightarrow>
     's \<times> ('x, send_report) result" where
  "send_datagrams send [] report s = (s, Inr report)"
| "send_datagrams send (d # ds) report s =
     (case send s (tad_payload d) of
        (s1, Inl x) \<Rightarrow> (s1, Inl x)
      | (s1, Inr _) \<Rightarrow> send_datagrams send ds (count_sent (tad_role d) report) s1)"

definition send_epoch ::
    "('s, 'x) datagram_sender \<Rightarrow> audio_adapter \<Rightarrow> 's \<Rightarrow> encoded_epoch \<Rightarrow> 's \<times> ('x audio_send_error, send_report) result" where
  "send_epoch send a s encoded =
     (case wrap_epoch a encoded of
        Inl err \<Rightarrow> (s, Inl (SendAdapter err))
      | Inr wrapped \<Rightarrow>
          (case send_datagrams send (tae_datagrams wrapped) \<lparr>sr_source_datagrams = 0, sr_repair_datagrams = 0\<rparr> s of
             (s1, r) \<Rightarrow> (s1, map_err SendFailed r)))"

end
