(* ===== verification/Transport_Laws.thy ===== *)
theory Transport_Laws
  imports Transport
begin

text \<open>
  What the transport layer promises: framing that can be undone exactly, wrapped epochs that are source
  first and within the transport's message size, and sending that stops at the first failure.
\<close>

section \<open>Framing\<close>

locale framing =
  fixes frame :: "bytes \<Rightarrow> bytes" and unframe :: "bytes \<Rightarrow> ('x, bytes) result"
  assumes unframe_frame: "unframe (frame x) = Inr x"
    and frame_unframe: "unframe y = Inr x \<Longrightarrow> y = frame x"
begin

lemma exact: "unframe y = Inr x \<longleftrightarrow> y = frame x"
  using unframe_frame frame_unframe by blast

lemma frame_eq: "frame x = frame y \<longleftrightarrow> x = y"
  by (metis exact sum.inject(2))

end

text \<open>One framing inside another.\<close>

locale framing_stack =
  outer: framing frame_out unframe_out + inner: framing frame_in unframe_in
  for frame_out frame_in :: "bytes \<Rightarrow> bytes"
    and unframe_out :: "bytes \<Rightarrow> ('x, bytes) result" and unframe_in :: "bytes \<Rightarrow> ('y, bytes) result" +
  fixes error_of :: "'x \<Rightarrow> 'y"

sublocale framing_stack \<subseteq> stack: framing "\<lambda>x. frame_out (frame_in x)" "\<lambda>y. rbind (map_err error_of (unframe_out y)) unframe_in"
  by unfold_locales (auto simp: outer.exact inner.exact rbind_eq_Inr)

lemma stream_prefix_exact:
  "length p = 8 \<and> le_join (rev p) = (n :: u64) \<longleftrightarrow> p = encode_stream_id_prefix n"
proof
  assume p: "length p = 8 \<and> le_join (rev p) = n"
  then have "le_split (length (rev p)) (le_join (rev p) :: u64) = rev p" by (intro le_split_join) simp
  then show "p = encode_stream_id_prefix n" using p by (metis encode_stream_id_prefix_def length_rev rev_rev_ident)
qed (simp add: encode_stream_id_prefix_def le_join_split)

lemma strip_prefix_mode:
  "strip_transport_prefix m y = Inr x \<longleftrightarrow> y = add_prefix (mode_prefix m) x"
proof (cases m)
  case (Prefix64Be n)
  have "strip_transport_prefix m y = Inr x \<longleftrightarrow>
      length (take 8 y) = 8 \<and> le_join (rev (take 8 y)) = n \<and> x = drop 8 y"
    by (auto simp: Prefix64Be strip_transport_prefix_def split_stream_id_prefix_def STREAM_ID_PREFIX_LEN_def)
  also have "\<dots> \<longleftrightarrow> take 8 y = encode_stream_id_prefix n \<and> x = drop 8 y"
    using stream_prefix_exact [of "take 8 y" n] by blast
  also have "\<dots> \<longleftrightarrow> y = encode_stream_id_prefix n @ x"
  proof
    assume "take 8 y = encode_stream_id_prefix n \<and> x = drop 8 y"
    then show "y = encode_stream_id_prefix n @ x" by (metis append_take_drop_id)
  qed (simp add: encode_stream_id_prefix_def)
  finally show ?thesis by (simp add: Prefix64Be mode_prefix_def add_prefix_def)
qed (auto simp: strip_transport_prefix_def mode_prefix_def add_prefix_def)

interpretation stream: framing "add_prefix (mode_prefix m)" "strip_transport_prefix m" for m
  by unfold_locales (simp_all add: strip_prefix_mode)

interpretation magic: framing add_audio_epoch_prefix strip_audio_epoch_prefix
proof unfold_locales
  show "strip_audio_epoch_prefix (add_audio_epoch_prefix x) = Inr x" for x
    by (simp add: strip_audio_epoch_prefix_def add_audio_epoch_prefix_def is_multichannel_audio_transport_datagram_def
        AUDIO_TRANSPORT_MAGIC_def AUDIO_TRANSPORT_MAGIC_LEN_def)
  show "y = add_audio_epoch_prefix x" if "strip_audio_epoch_prefix y = Inr x" for x y
  proof -
    have "take AUDIO_TRANSPORT_MAGIC_LEN y = AUDIO_TRANSPORT_MAGIC" "x = drop AUDIO_TRANSPORT_MAGIC_LEN y"
      using that by (auto simp: strip_audio_epoch_prefix_def is_multichannel_audio_transport_datagram_def split: if_splits)
    then show ?thesis unfolding add_audio_epoch_prefix_def by (metis append_take_drop_id)
  qed
qed

interpretation adapter: framing_stack "add_prefix (mode_prefix (tc_stream_id_mode (ta_transport a)))" add_audio_epoch_prefix
    "strip_transport_prefix (tc_stream_id_mode (ta_transport a))" strip_audio_epoch_prefix AudioFraming for a
  by unfold_locales

lemma adapter_exact: "adapter_payload a y = Inr x \<longleftrightarrow> y = frame_audio_datagram a x"
  unfolding adapter_payload_def frame_audio_datagram_def by (rule adapter.stack.exact)

lemma length_frame_audio: "length (frame_audio_datagram a x) = transport_overhead a + length x"
  by (simp add: frame_audio_datagram_def transport_overhead_def add_prefix_def mode_prefix_def add_audio_epoch_prefix_def
      AUDIO_TRANSPORT_MAGIC_def AUDIO_TRANSPORT_MAGIC_LEN_def STREAM_ID_PREFIX_LEN_def encode_stream_id_prefix_def
      split: stream_id_mode.split)

text \<open>
  C31. Transport framing is exact. Under every stream id mode a message unframes to a datagram exactly when
  it is that datagram with the mode's prefix; under every adapter it unframes to an audio datagram exactly
  when it is that datagram with the audio prefix and the stream prefix around it, which adds the
  announced overhead and nothing else; a message of another stream is refused with both ids.
\<close>
theorem transport_framing_exact:
  "(strip_transport_prefix m y = Inr x \<longleftrightarrow> y = add_prefix (mode_prefix m) x) \<and>
   (adapter_payload a y = Inr x \<longleftrightarrow> y = frame_audio_datagram a x) \<and>
   length (frame_audio_datagram a x) = transport_overhead a + length x \<and>
   strip_transport_prefix (Prefix64Be n) (add_prefix (mode_prefix (Prefix64Be k)) x) =
     (if n = k then Inr x else Inl (UnexpectedStreamId n k))"
proof -
  have "strip_transport_prefix (Prefix64Be n) (add_prefix (mode_prefix (Prefix64Be k)) x) =
      (if n = k then Inr x else Inl (UnexpectedStreamId n k))"
    by (simp add: strip_transport_prefix_def split_stream_id_prefix_def add_prefix_def mode_prefix_def
        STREAM_ID_PREFIX_LEN_def encode_stream_id_prefix_def le_join_split)
  then show ?thesis using strip_prefix_mode adapter_exact length_frame_audio by blast
qed

section \<open>Decoding framed datagrams\<close>

primrec transport_push_all ::
    "crc_fun \<Rightarrow> ('e, 'd) raptorq \<Rightarrow> 'd transport_decoder \<Rightarrow> bytes list \<Rightarrow>
     'd transport_decoder \<times> (transport_error, bytes option) result list" where
  "transport_push_all crc rq d [] = (d, [])"
| "transport_push_all crc rq d (x # xs) =
     (case transport_push_datagram crc rq d x of
        (d1, r) \<Rightarrow> (case transport_push_all crc rq d1 xs of (d2, rs) \<Rightarrow> (d2, r # rs)))"

lemma framed_push:
  "transport_push_datagram crc rq d (add_prefix (mode_prefix (td_stream_id_mode d)) x) =
   (case push_datagram crc rq (td_inner d) x of (inner, r) \<Rightarrow> (d\<lparr>td_inner := inner\<rparr>, map_err TransportFec r))"
  by (simp add: transport_push_datagram_def stream.unframe_frame)

lemma framed_push_all:
  "transport_push_all crc rq d (map (add_prefix (mode_prefix (td_stream_id_mode d))) xs) =
   (case push_all crc rq (td_inner d) xs of
      (inner, rs) \<Rightarrow> (d\<lparr>td_inner := inner\<rparr>, map (map_err TransportFec) rs))"
proof (induction xs arbitrary: d)
  case (Cons x xs)
  obtain inner r where one: "push_datagram crc rq (td_inner d) x = (inner, r)" by fastforce
  show ?case
    using Cons.IH [of "d\<lparr>td_inner := inner\<rparr>"] by (simp add: framed_push one split: prod.split)
qed simp

section \<open>Wrapped epochs\<close>

definition framed_as :: "audio_adapter \<Rightarrow> u64 \<Rightarrow> audio_datagram \<Rightarrow> transport_audio_datagram" where
  "framed_as a pts d =
     \<lparr>tad_block_id = adg_block_id d, tad_packet_sequence = adg_packet_sequence d, tad_role = adg_role d,
      tad_playout_pts_samples = pts, tad_payload = frame_audio_datagram a (adg_payload d)\<rparr>"

definition fits_transport :: "audio_adapter \<Rightarrow> audio_datagram \<Rightarrow> bool" where
  "fits_transport a d \<longleftrightarrow> transport_overhead a + length (adg_payload d) \<le> ta_max_datagram_size a"

fun source_first :: "bool \<Rightarrow> audio_role list \<Rightarrow> bool" where
  "source_first saw [] = True"
| "source_first saw (r # rs) = (\<not> (is_source r \<and> saw) \<and> source_first (saw \<or> \<not> is_source r) rs)"

lemma source_first_split:
  "source_first saw rs \<longleftrightarrow> list_all (\<lambda>r. \<not> is_source r) (if saw then rs else dropWhile is_source rs)"
proof (induction rs arbitrary: saw)
  case (Cons r rs)
  then show ?case by (cases saw; cases "is_source r") auto
qed simp

lemma wrap_datagrams_ok:
  "wrap_datagrams a pts saw ds = Inr ws \<longleftrightarrow>
   source_first saw (map adg_role ds) \<and> list_all (fits_transport a) ds \<and> ws = map (framed_as a pts) ds"
  by (induction ds arbitrary: saw ws)
    (auto simp: Let_def rbind_eq_Inr length_frame_audio fits_transport_def framed_as_def not_less)

lemma wrap_datagrams_error:
  "wrap_datagrams a pts saw ds = Inl err \<Longrightarrow> \<exists>pre d post. ds = pre @ d # post \<and> list_all (fits_transport a) pre \<and>
     (err = SourceAfterRepair (adg_packet_sequence d) \<and> is_source (adg_role d) \<and>
        (saw \<or> list_ex (\<lambda>x. \<not> is_source (adg_role x)) pre) \<or>
      err = DatagramTooLarge (transport_overhead a + length (adg_payload d)) (ta_max_datagram_size a) \<and>
        ta_max_datagram_size a < transport_overhead a + length (adg_payload d))"
proof (induction ds arbitrary: saw)
  case (Cons d ds)
  let ?saw = "saw \<or> \<not> is_source (adg_role d)"
  consider (order) "is_source (adg_role d)" "saw"
    | (size) "\<not> (is_source (adg_role d) \<and> saw)" "\<not> fits_transport a d"
    | (later) "fits_transport a d" "wrap_datagrams a pts ?saw ds = Inl err"
    using Cons.prems by (auto simp: Let_def rbind_eq_Inl fits_transport_def length_frame_audio split: if_splits)
  then show ?case
  proof cases
    case order
    then have "err = SourceAfterRepair (adg_packet_sequence d)" using Cons.prems by simp
    then show ?thesis using order by (intro exI [of _ "[]"] exI [of _ d] exI [of _ ds]) simp
  next
    case size
    then have "err = DatagramTooLarge (transport_overhead a + length (adg_payload d)) (ta_max_datagram_size a)"
      using Cons.prems by (auto simp: Let_def fits_transport_def length_frame_audio)
    then show ?thesis
      using size by (intro exI [of _ "[]"] exI [of _ d] exI [of _ ds]) (simp add: fits_transport_def)
  next
    case later
    from Cons.IH [OF later(2)] obtain pre x post where ih: "ds = pre @ x # post" "list_all (fits_transport a) pre"
        "err = SourceAfterRepair (adg_packet_sequence x) \<and> is_source (adg_role x) \<and>
           (?saw \<or> list_ex (\<lambda>x. \<not> is_source (adg_role x)) pre) \<or>
         err = DatagramTooLarge (transport_overhead a + length (adg_payload x)) (ta_max_datagram_size a) \<and>
           ta_max_datagram_size a < transport_overhead a + length (adg_payload x)" by blast
    show ?thesis
      using ih later(1) by (intro exI [of _ "d # pre"] exI [of _ x] exI [of _ post]) auto
  qed
qed simp

lemma wrap_epoch_ok:
  "wrap_epoch a e = Inr w \<Longrightarrow> tae_datagrams w = map (framed_as a (ee_pts_samples e)) (ee_datagrams e) \<and>
     source_first False (map adg_role (ee_datagrams e)) \<and> list_all (fits_transport a) (ee_datagrams e)"
  by (auto simp: wrap_epoch_def rbind_eq_Inr wrap_datagrams_ok)

lemma source_repair_split: "source_datagrams w @ repair_datagrams w = tae_datagrams w"
  by (simp add: source_datagrams_def repair_datagrams_def)

lemma list_all_takeWhile: "list_all P (takeWhile P xs)"
  by (induction xs) simp_all

lemma wrapped_repairs:
  assumes "wrap_epoch a e = Inr w"
  shows "list_all (\<lambda>d. \<not> is_source (tad_role d)) (repair_datagrams w)"
proof -
  have roles: "map tad_role (tae_datagrams w) = map adg_role (ee_datagrams e)"
    using wrap_epoch_ok [OF assms] by (simp add: framed_as_def comp_def)
  have "list_all (\<lambda>r. \<not> is_source r) (dropWhile is_source (map tad_role (tae_datagrams w)))"
    unfolding roles using wrap_epoch_ok [OF assms] source_first_split [of False "map adg_role (ee_datagrams e)"] by simp
  then show ?thesis by (simp add: repair_datagrams_def dropWhile_map list.pred_map comp_def)
qed

text \<open>
  C30. Wrapped epochs are well formed. Whatever encoded epoch it is given, the adapter either wraps every
  datagram, in the same order, with its role, block and sequence, the epoch's time and its payload
  framed, such that no message exceeds the transport's size, all source datagrams come before all repair
  datagrams and every message unwraps to what was wrapped; or it names the first datagram that breaks a
  rule: a source datagram after a repair datagram, or one that does not fit with the overhead.
\<close>
theorem wrap_epoch_well_formed:
  "case wrap_epoch a e of
     Inr w \<Rightarrow>
       tae_datagrams w = map (framed_as a (ee_pts_samples e)) (ee_datagrams e) \<and>
       list_all (\<lambda>d. length (tad_payload d) \<le> ta_max_datagram_size a) (tae_datagrams w) \<and>
       source_datagrams w @ repair_datagrams w = tae_datagrams w \<and>
       list_all (\<lambda>d. is_source (tad_role d)) (source_datagrams w) \<and>
       list_all (\<lambda>d. \<not> is_source (tad_role d)) (repair_datagrams w) \<and>
       map (adapter_payload a \<circ> tad_payload) (tae_datagrams w) = map (Inr \<circ> adg_payload) (ee_datagrams e)
   | Inl err \<Rightarrow>
       \<exists>pre d post. ee_datagrams e = pre @ d # post \<and> list_all (fits_transport a) pre \<and>
         (err = SourceAfterRepair (adg_packet_sequence d) \<and> is_source (adg_role d) \<and>
            list_ex (\<lambda>x. \<not> is_source (adg_role x)) pre \<or>
          err = DatagramTooLarge (transport_overhead a + length (adg_payload d)) (ta_max_datagram_size a) \<and>
            ta_max_datagram_size a < transport_overhead a + length (adg_payload d))"
proof (cases "wrap_epoch a e")
  case (Inl err)
  then have "wrap_datagrams a (ee_pts_samples e) False (ee_datagrams e) = Inl err"
    by (auto simp: wrap_epoch_def rbind_eq_Inl)
  from wrap_datagrams_error [OF this] show ?thesis by (simp add: Inl)
next
  case (Inr w)
  note w = wrap_epoch_ok [OF Inr]
  have "list_all (\<lambda>d. length (tad_payload d) \<le> ta_max_datagram_size a) (tae_datagrams w)"
    using w by (simp add: list_all_iff framed_as_def fits_transport_def length_frame_audio)
  moreover have "list_all (\<lambda>d. is_source (tad_role d)) (source_datagrams w)"
    using list_all_takeWhile [of "is_source \<circ> tad_role"] by (simp add: source_datagrams_def comp_def)
  moreover have "map (adapter_payload a \<circ> tad_payload) (tae_datagrams w) = map (Inr \<circ> adg_payload) (ee_datagrams e)"
    using w by (simp add: framed_as_def adapter_exact)
  ultimately show ?thesis
    using w wrapped_repairs [OF Inr] source_repair_split [of w] by (simp add: Inr)
qed

section \<open>Sending\<close>

lemma send_datagrams_eq:
  "send_datagrams send ds report s =
   (case send_all send (map tad_payload ds) s of
      (s1, Inl x) \<Rightarrow> (s1, Inl x)
    | (s1, Inr _) \<Rightarrow> (s1, Inr (fold count_sent (map tad_role ds) report)))"
  by (induction ds arbitrary: report s) (auto split: prod.split sum.split)

lemma count_sent_all:
  "sr_source_datagrams (fold count_sent roles report) = sr_source_datagrams report + length (filter is_source roles)"
  "sr_repair_datagrams (fold count_sent roles report) = sr_repair_datagrams report + length (filter (\<lambda>r. \<not> is_source r) roles)"
  by (induction roles arbitrary: report) (simp_all add: count_sent_def is_source_def split: audio_role.split)

lemma send_all_error:
  "send_all send ds s = (s', Inl x) \<Longrightarrow>
   \<exists>k s1. k < length ds \<and> send_all send (take k ds) s = (s1, Inr ()) \<and> send s1 (ds ! k) = (s', Inl x)"
proof (induction ds arbitrary: s)
  case (Cons d ds)
  obtain s1 r where one: "send s d = (s1, r)" by fastforce
  show ?case
  proof (cases r)
    case (Inl y)
    then show ?thesis using Cons.prems one by (intro exI [of _ 0] exI [of _ s]) simp
  next
    case (Inr u)
    then obtain k s2 where "k < length ds" "send_all send (take k ds) s1 = (s2, Inr ())" "send s2 (ds ! k) = (s', Inl x)"
      using Cons.IH [of s1] Cons.prems one by auto
    then show ?thesis using one Inr by (intro exI [of _ "Suc k"] exI [of _ s2]) simp
  qed
qed simp

lemma role_counts:
  assumes "list_all (\<lambda>d. is_source (tad_role d)) xs" "list_all (\<lambda>d. \<not> is_source (tad_role d)) ys"
  shows "length (filter is_source (map tad_role (xs @ ys))) = length xs"
    "length (filter (\<lambda>r. \<not> is_source r) (map tad_role (xs @ ys))) = length ys"
proof -
  have "filter is_source (map tad_role xs) = map tad_role xs" "filter is_source (map tad_role ys) = []"
    "filter (\<lambda>r. \<not> is_source r) (map tad_role xs) = []" "filter (\<lambda>r. \<not> is_source r) (map tad_role ys) = map tad_role ys"
    using assms by (auto simp: list_all_iff filter_empty_conv intro!: filter_True)
  then show "length (filter is_source (map tad_role (xs @ ys))) = length xs"
    "length (filter (\<lambda>r. \<not> is_source r) (map tad_role (xs @ ys))) = length ys" by simp_all
qed

text \<open>
  C33. Sending an epoch stops at the first failure. For any sender: if the epoch does not wrap, nothing is
  sent; otherwise its messages are handed over in order, and either all are accepted and the report counts
  exactly its source and repair datagrams, or the first refused message ends the call with the sender's
  error, after the messages before it and before those behind it.
\<close>
theorem send_epoch_stops_at_failure:
  "case send_epoch send a s encoded of (s', res) \<Rightarrow>
   (case wrap_epoch a encoded of
      Inl err \<Rightarrow> s' = s \<and> res = Inl (SendAdapter err)
    | Inr w \<Rightarrow>
        (case res of
           Inr report \<Rightarrow>
             send_all send (map tad_payload (tae_datagrams w)) s = (s', Inr ()) \<and>
             sr_source_datagrams report = length (source_datagrams w) \<and>
             sr_repair_datagrams report = length (repair_datagrams w)
         | Inl (SendAdapter err) \<Rightarrow> False
         | Inl (SendFailed x) \<Rightarrow>
             \<exists>k s1. k < length (tae_datagrams w) \<and>
               send_all send (map tad_payload (take k (tae_datagrams w))) s = (s1, Inr ()) \<and>
               send s1 (tad_payload (tae_datagrams w ! k)) = (s', Inl x)))"
proof (cases "wrap_epoch a encoded")
  case (Inl err)
  then show ?thesis by (simp add: send_epoch_def)
next
  case (Inr w)
  let ?ds = "tae_datagrams w"
  obtain s' q where run: "send_all send (map tad_payload ?ds) s = (s', q)" by fastforce
  show ?thesis
  proof (cases q)
    case (Inl x)
    from send_all_error [OF run [unfolded Inl]] obtain k s1 where k: "k < length ?ds"
        "send_all send (map tad_payload (take k ?ds)) s = (s1, Inr ())" "send s1 (tad_payload (?ds ! k)) = (s', Inl x)"
      by (auto simp: take_map)
    have "send_epoch send a s encoded = (s', Inl (SendFailed x))"
      by (simp add: send_epoch_def Inr send_datagrams_eq run Inl)
    then show ?thesis using k by (auto simp: Inr)
  next
    case all: (Inr u)
    let ?roles = "map tad_role (source_datagrams w @ repair_datagrams w)"
    have src: "list_all (\<lambda>d. is_source (tad_role d)) (source_datagrams w)"
      using list_all_takeWhile [of "is_source \<circ> tad_role"] by (simp add: source_datagrams_def comp_def)
    have "send_epoch send a s encoded =
        (s', Inr (fold count_sent ?roles \<lparr>sr_source_datagrams = 0, sr_repair_datagrams = 0\<rparr>))"
      by (simp add: send_epoch_def Inr send_datagrams_eq run all source_repair_split flip: map_append)
    then show ?thesis
      using role_counts [OF src wrapped_repairs [OF Inr]] run all by (simp add: Inr count_sent_all del: map_append)
  qed
qed

section \<open>Epochs encoded for their transport\<close>

lemma sources_then_repairs:
  assumes "length rs = K + R" "\<And>j. j < K + R \<Longrightarrow> is_source (rs ! j) = (j < K)"
  shows "source_first False rs" "length (filter is_source rs) = K" "length (filter (\<lambda>r. \<not> is_source r) rs) = R"
proof -
  have split: "rs = take K rs @ drop K rs" by simp
  have runs: "\<forall>r \<in> set (take K rs). is_source r" "\<forall>r \<in> set (drop K rs). \<not> is_source r"
    using assms by (auto simp: in_set_conv_nth)
  have "dropWhile is_source rs = dropWhile is_source (drop K rs)"
    using runs(1) by (subst split) (rule dropWhile_append2, blast)
  also have "\<dots> = drop K rs" using runs(2) by (cases "drop K rs") auto
  finally show "source_first False rs" using runs(2) by (simp add: source_first_split list_all_iff)
  have "filter is_source rs = take K rs" "filter (\<lambda>r. \<not> is_source r) rs = drop K rs"
    using runs by (subst split, simp add: filter_empty_conv del: append_take_drop_id)+
  then show "length (filter is_source rs) = K" "length (filter (\<lambda>r. \<not> is_source r) rs) = R"
    using assms(1) by simp_all
qed

lemma always_accepting: "\<forall>s d. \<exists>s1. send s d = (s1, Inr ()) \<Longrightarrow> \<exists>s1. send_all send ds s = (s1, Inr ())"
proof (induction ds arbitrary: s)
  case (Cons d ds)
  obtain s1 where "send s d = (s1, Inr ())" using Cons.prems by blast
  then show ?case using Cons.IH [OF Cons.prems, of s1] by simp
qed simp

lemma prepared_epoch_wraps:
  assumes "rq_lawful rq" "ae_config e = prepare_fec_config a c" "audio_sendable (ae_config e) ep geo"
    and "encode_epoch crc rq e ep = (e', Inr enc)"
  shows "\<exists>w. wrap_epoch a enc = Inr w"
    "length (filter is_source (map adg_role (ee_datagrams enc))) = unat (ag_source_symbols geo)"
    "length (filter (\<lambda>r. \<not> is_source r) (map adg_role (ee_datagrams enc))) = unat (ac_repair_symbols c)"
    "length (ee_datagrams enc) = unat (ag_source_symbols geo) + unat (ac_repair_symbols c)"
proof -
  let ?K = "unat (ag_source_symbols geo)" and ?R = "unat (ac_repair_symbols c)" and ?s = "ag_symbol_size geo"
    and ?data = "epoch_object ep geo"
  have R: "ac_repair_symbols (ae_config e) = ac_repair_symbols c" by (simp add: assms(2) prepare_fec_config_def)
  have K: "block_symbols ?data ?s = ?K" using sendable_block(2) [OF assms(3)] .
  show len: "length (ee_datagrams enc) = ?K + ?R"
    using encode_epoch_lawful [OF assms(1,3), of crc] assms(4) by (auto simp: R)
  have pkt: "audio_packet crc rq (ae_config e) (ep_session_id ep) (enc_block_id (ae_fec e)) ?data ?s
        (enc_packet_sequence (ae_fec e) + of_nat j) j (ee_datagrams enc ! j)" if "j < ?K + ?R" for j
    using encode_epoch_lawful [OF assms(1,3), of crc] assms(4) that by (auto simp: R)
  have role: "is_source (map adg_role (ee_datagrams enc) ! j) = (j < ?K)" if "j < ?K + ?R" for j
    using pkt [OF that] len that by (simp add: audio_packet_def K is_source_def)
  have fit: "fits_transport a (ee_datagrams enc ! j)" if "j < ?K + ?R" for j
    using pkt [OF that] by (simp add: audio_packet_def fits_transport_def assms(2) prepare_fec_config_def add.commute)
  have "length (map adg_role (ee_datagrams enc)) = ?K + ?R" using len by simp
  note runs = sources_then_repairs [OF this role]
  show "length (filter is_source (map adg_role (ee_datagrams enc))) = ?K" by (rule runs(2))
  show "length (filter (\<lambda>r. \<not> is_source r) (map adg_role (ee_datagrams enc))) = ?R" by (rule runs(3))
  have fits: "list_all (fits_transport a) (ee_datagrams enc)" using fit len by (simp add: list_all_length)
  have "wrap_datagrams a (ee_pts_samples enc) False (ee_datagrams enc) =
      Inr (map (framed_as a (ee_pts_samples enc)) (ee_datagrams enc))"
    using runs(1) fits by (simp add: wrap_datagrams_ok)
  then show "\<exists>w. wrap_epoch a enc = Inr w" by (simp add: wrap_epoch_def)
qed

text \<open>
  C32. An epoch encoded for its transport can be sent. When the audio encoder uses the configuration the
  adapter prepares, every epoch it encodes wraps: no message exceeds the transport's size, all source
  symbols come first, and a sender that accepts everything is handed exactly the source symbols and the
  configured repair symbols.
\<close>
theorem prepared_epoch_sends:
  assumes "rq_lawful rq" "ae_config e = prepare_fec_config a c" "audio_sendable (ae_config e) ep geo"
    and "encode_epoch crc rq e ep = (e', Inr enc)" "\<forall>s d. \<exists>s1. send s d = (s1, Inr ())"
  shows "\<exists>w s'. wrap_epoch a enc = Inr w \<and>
    list_all (\<lambda>d. length (tad_payload d) \<le> ta_max_datagram_size a) (tae_datagrams w) \<and>
    send_epoch send a s enc = (s', Inr \<lparr>sr_source_datagrams = unat (ag_source_symbols geo),
      sr_repair_datagrams = unat (ac_repair_symbols c)\<rparr>)"
proof -
  note wraps = prepared_epoch_wraps [OF assms(1-4)]
  obtain w where w: "wrap_epoch a enc = Inr w" using wraps(1) by blast
  note ds = wrap_epoch_ok [OF w]
  have roles: "map tad_role (tae_datagrams w) = map adg_role (ee_datagrams enc)" using ds by (simp add: framed_as_def)
  obtain s' where all: "send_all send (map tad_payload (tae_datagrams w)) s = (s', Inr ())"
    using always_accepting [OF assms(5)] by blast
  have "send_epoch send a s enc = (s', Inr (fold count_sent (map adg_role (ee_datagrams enc)) \<lparr>sr_source_datagrams = 0, sr_repair_datagrams = 0\<rparr>))"
    by (simp add: send_epoch_def w send_datagrams_eq all roles)
  moreover have "list_all (\<lambda>d. length (tad_payload d) \<le> ta_max_datagram_size a) (tae_datagrams w)"
    using ds by (simp add: list_all_iff framed_as_def fits_transport_def length_frame_audio)
  ultimately show ?thesis using w wraps(2,3) by (simp add: count_sent_all)
qed

definition example_adapter :: audio_adapter where
  "example_adapter = audio_adapter_new (config_webtransport_with_stream_prefix 9) 139"

lemma example_prepared:
  "\<exists>geo. audio_sendable (prepare_fec_config example_adapter example_audio_config) example_epoch geo"
proof -
  let ?c = "prepare_fec_config example_adapter example_audio_config"
  have c: "?c = \<lparr>ac_max_datagram_size = 139, ac_transport_overhead = 12, ac_repair_symbols = 2, ac_max_source_symbols = 4\<rparr>"
    by (simp add: prepare_fec_config_def example_adapter_def audio_adapter_new_def example_audio_config_def transport_overhead_def
        config_webtransport_with_stream_prefix_def AUDIO_TRANSPORT_MAGIC_LEN_def STREAM_ID_PREFIX_LEN_def)
  have mp: "max_fragment_payload ?c = Inr 11" unfolding max_fragment_payload_Inr by (simp add: c usize_max_def)
  obtain geo where geo: "geometry_for_groups ?c example_groups = Inr geo"
  proof (cases "geometry_for_groups ?c example_groups")
    case (Inl err)
    from geometry_Inl(2) [OF Inl mp example_groups_ne] show ?thesis
      by (simp add: example_needed div_ceil_def c)
  qed
  have "valid_epoch example_epoch" using example_audio_sendable by (auto simp: audio_sendable_def)
  moreover have "ep_groups example_epoch = example_groups" by (simp add: example_epoch_def)
  ultimately show ?thesis using geo mp by (auto simp: audio_sendable_def c)
qed

theorem prepared_epoch_sends_witness:
  "\<exists>e' enc w log n. encode_epoch crc_reference rep_codec
       (audio_encoder_new (prepare_fec_config example_adapter example_audio_config)) example_epoch = (e', Inr enc) \<and>
     wrap_epoch example_adapter enc = Inr w \<and>
     send_epoch (\<lambda>log d. (log @ [d], Inr () :: (string, unit) result)) example_adapter [] enc =
       (log, Inr \<lparr>sr_source_datagrams = n, sr_repair_datagrams = 2\<rparr>)"
proof -
  let ?e = "audio_encoder_new (prepare_fec_config example_adapter example_audio_config)"
  have e: "ae_config ?e = prepare_fec_config example_adapter example_audio_config" by (simp add: audio_encoder_new_def)
  obtain geo where geo: "audio_sendable (ae_config ?e) example_epoch geo" using example_prepared unfolding e by blast
  obtain e' enc where enc: "encode_epoch crc_reference rep_codec ?e example_epoch = (e', Inr enc)"
    using encode_epoch_lawful [OF rep_codec_lawful geo, of crc_reference] by blast
  have two: "unat (ac_repair_symbols example_audio_config) = 2" by (simp add: example_audio_config_def)
  have "\<forall>log d. \<exists>log1. (\<lambda>log d. (log @ [d], Inr () :: (string, unit) result)) log d = (log1, Inr ())" by simp
  from prepared_epoch_sends [OF rep_codec_lawful e geo enc this, of "[]"] show ?thesis
    using enc unfolding two by blast
qed

end
