(* ===== verification/Udp.thy ===== *)
theory Udp
  imports Payload_Transfer
begin

text \<open>
  \<^verbatim>\<open>UdpFecSender\<close> and \<^verbatim>\<open>UdpFecReceiver\<close> of \<^verbatim>\<open>raptorq-datagram-fec/src/lib.rs\<close>. The socket is tokio's: its
  state is of a type \<open>'s\<close> the model leaves open, and \<open>bind\<close>, \<open>send_to\<close> and \<open>recv_from\<close> are parameters.
  \<open>recv_from\<close> fills the caller's buffer and returns the number of bytes written with the address of
  the peer, and may never complete, which is the value \<^const>\<open>None\<close>. Since \<open>recv_decoded\<close> waits until
  some datagram finishes a block or fails, it is a partial function: a call that waits forever is
  \<^const>\<open>None\<close> too. The second half runs the receiver on a socket whose events are a given list.
\<close>

section \<open>Sockets\<close>

datatype socket_addr = V4 "32 word" u16 | V6 "128 word" u16 u32 u32

fun is_ipv6 :: "socket_addr \<Rightarrow> bool" where
  "is_ipv6 (V4 _ _) = False"
| "is_ipv6 (V6 _ _ _ _) = True"

text \<open>\<^verbatim>\<open>std::io::Error\<close>, as far as the crate builds one.\<close>

datatype 'x io_error = InvalidInput datagram_fec_error | InvalidData datagram_fec_error | Os 'x

type_synonym ('s, 'x) udp_bind = "socket_addr \<Rightarrow> ('x, 's) result"
type_synonym ('s, 'x) udp_send_to = "'s \<Rightarrow> bytes \<Rightarrow> socket_addr \<Rightarrow> 's \<times> ('x, nat) result"
type_synonym ('s, 'x) udp_recv_from =
  "'s \<Rightarrow> bytes \<Rightarrow> ('s \<times> bytes \<times> ('x, nat \<times> socket_addr) result) option"

section \<open>The sender\<close>

record 's udp_sender =
  us_socket :: 's
  us_target :: socket_addr
  us_encoder :: fec_encoder

definition udp_sender_bind ::
    "('s, 'x) udp_bind \<Rightarrow> socket_addr \<Rightarrow> socket_addr \<Rightarrow> ('x io_error, 's udp_sender) result" where
  "udp_sender_bind bind bind_addr target =
     rbind (map_err Os (bind bind_addr)) (\<lambda>socket.
       Inr \<lparr>us_socket = socket, us_target = target, us_encoder = encoder_new\<rparr>)"

definition udp_sender_new :: "('s, 'x) udp_bind \<Rightarrow> socket_addr \<Rightarrow> ('x io_error, 's udp_sender) result" where
  "udp_sender_new bind target =
     udp_sender_bind bind (if is_ipv6 target then V6 0 0 0 0 else V4 0 0) target"

definition udp_with_source_symbols :: "u16 \<Rightarrow> 's udp_sender \<Rightarrow> 's udp_sender" where
  "udp_with_source_symbols n u = u\<lparr>us_encoder := set_source_symbols n (us_encoder u)\<rparr>"

definition udp_with_repair_symbols :: "u32 \<Rightarrow> 's udp_sender \<Rightarrow> 's udp_sender" where
  "udp_with_repair_symbols n u = u\<lparr>us_encoder := set_repair_symbols n (us_encoder u)\<rparr>"

definition udp_with_symbol_size :: "u16 \<Rightarrow> 's udp_sender \<Rightarrow> 's udp_sender" where
  "udp_with_symbol_size n u = u\<lparr>us_encoder := set_symbol_size n (us_encoder u)\<rparr>"

definition encode_payload_as_io ::
    "crc_fun \<Rightarrow> ('e, 'd) raptorq \<Rightarrow> 's udp_sender \<Rightarrow> bytes \<Rightarrow>
     's udp_sender \<times> ('x io_error, bytes list) result" where
  "encode_payload_as_io crc rq u data =
     (case encode_payload crc rq (us_encoder u) data of
        (e, r) \<Rightarrow> (u\<lparr>us_encoder := e\<rparr>, map_err InvalidInput r))"

definition encode_block_as_io ::
    "crc_fun \<Rightarrow> ('e, 'd) raptorq \<Rightarrow> 's udp_sender \<Rightarrow> bytes \<Rightarrow>
     's udp_sender \<times> ('x io_error, bytes list) result" where
  "encode_block_as_io crc rq u data =
     (case encode_block crc rq (us_encoder u) data of
        (e, r) \<Rightarrow> (u\<lparr>us_encoder := e\<rparr>, map_err InvalidInput r))"

text \<open>The loop of \<open>send\<close> and \<open>send_block\<close>: the number of bytes sent is not looked at.\<close>

fun send_each :: "('s, 'x) udp_send_to \<Rightarrow> socket_addr \<Rightarrow> bytes list \<Rightarrow> 's \<Rightarrow> 's \<times> ('x io_error, unit) result" where
  "send_each send_to target [] s = (s, Inr ())"
| "send_each send_to target (d # ds) s =
     (case send_to s d target of
        (s1, Inl x) \<Rightarrow> (s1, Inl (Os x))
      | (s1, Inr _) \<Rightarrow> send_each send_to target ds s1)"

definition send_encoded ::
    "('s, 'x) udp_send_to \<Rightarrow> 's udp_sender \<times> ('x io_error, bytes list) result \<Rightarrow>
     's udp_sender \<times> ('x io_error, unit) result" where
  "send_encoded send_to encoded =
     (case encoded of
        (u, Inl err) \<Rightarrow> (u, Inl err)
      | (u, Inr ds) \<Rightarrow>
          (case send_each send_to (us_target u) ds (us_socket u) of
             (s, r) \<Rightarrow> (u\<lparr>us_socket := s\<rparr>, r)))"

definition udp_send ::
    "crc_fun \<Rightarrow> ('e, 'd) raptorq \<Rightarrow> ('s, 'x) udp_send_to \<Rightarrow> 's udp_sender \<Rightarrow> bytes \<Rightarrow>
     's udp_sender \<times> ('x io_error, unit) result" where
  "udp_send crc rq send_to u data = send_encoded send_to (encode_payload_as_io crc rq u data)"

definition udp_send_block ::
    "crc_fun \<Rightarrow> ('e, 'd) raptorq \<Rightarrow> ('s, 'x) udp_send_to \<Rightarrow> 's udp_sender \<Rightarrow> bytes \<Rightarrow>
     's udp_sender \<times> ('x io_error, unit) result" where
  "udp_send_block crc rq send_to u data = send_encoded send_to (encode_block_as_io crc rq u data)"

section \<open>The receiver\<close>

record ('s, 'd) udp_receiver =
  ur_socket :: 's
  ur_decoders :: "socket_addr \<rightharpoonup> 'd fec_decoder"
  ur_datagram :: bytes

definition udp_receiver_bind :: "('s, 'x) udp_bind \<Rightarrow> socket_addr \<Rightarrow> ('x io_error, ('s, 'd) udp_receiver) result" where
  "udp_receiver_bind bind bind_addr =
     rbind (map_err Os (bind bind_addr)) (\<lambda>socket.
       Inr \<lparr>ur_socket = socket, ur_decoders = (\<lambda>_. None), ur_datagram = replicate 65536 0\<rparr>)"

text \<open>\<^verbatim>\<open>decoders.entry(peer).or_default()\<close>\<close>

definition peer_decoder :: "('s, 'd) udp_receiver \<Rightarrow> socket_addr \<Rightarrow> 'd fec_decoder" where
  "peer_decoder r peer = (case ur_decoders r peer of Some d \<Rightarrow> d | None \<Rightarrow> decoder_new)"

text \<open>One iteration of the loop of \<open>recv_decoded\<close>.\<close>

definition recv_step ::
    "crc_fun \<Rightarrow> ('e, 'd) raptorq \<Rightarrow> ('s, 'x) udp_recv_from \<Rightarrow> ('s, 'd) udp_receiver \<Rightarrow>
     (('s, 'd) udp_receiver \<times> ('x io_error, (socket_addr \<times> bytes) option) result) option" where
  "recv_step crc rq recv_from r =
     (case recv_from (ur_socket r) (ur_datagram r) of
        None \<Rightarrow> None
      | Some (s, buffer, Inl x) \<Rightarrow> Some (r\<lparr>ur_socket := s, ur_datagram := buffer\<rparr>, Inl (Os x))
      | Some (s, buffer, Inr (len, peer)) \<Rightarrow>
          (case push_datagram crc rq (peer_decoder r peer) (take len buffer) of
             (d, out) \<Rightarrow>
               Some (r\<lparr>ur_socket := s, ur_datagram := buffer, ur_decoders := (ur_decoders r)(peer \<mapsto> d)\<rparr>,
                 (case out of
                    Inl err \<Rightarrow> Inl (InvalidData err)
                  | Inr None \<Rightarrow> Inr None
                  | Inr (Some decoded) \<Rightarrow> Inr (Some (peer, decoded))))))"

partial_function (option) recv_decoded ::
    "crc_fun \<Rightarrow> ('e, 'd) raptorq \<Rightarrow> ('s, 'x) udp_recv_from \<Rightarrow> ('s, 'd) udp_receiver \<Rightarrow>
     (('s, 'd) udp_receiver \<times> ('x io_error, socket_addr \<times> bytes) result) option" where
  "recv_decoded crc rq recv_from r =
     Option.bind (recv_step crc rq recv_from r) (\<lambda>(r1, res).
       case res of
         Inl err \<Rightarrow> Some (r1, Inl err)
       | Inr (Some out) \<Rightarrow> Some (r1, Inr out)
       | Inr None \<Rightarrow> recv_decoded crc rq recv_from r1)"

section \<open>The receiver on a given list of events\<close>

text \<open>
  A socket on which the listed events happen, one per call. A datagram longer than the buffer is
  cut, as \<^verbatim>\<open>recv_from\<close> documents; when no event is left the call never completes.
\<close>

datatype 'x socket_event = Arrival socket_addr bytes | Failure 'x

fun queue_recv :: "('x socket_event list, 'x) udp_recv_from" where
  "queue_recv [] buffer = None"
| "queue_recv (Failure x # q) buffer = Some (q, buffer, Inl x)"
| "queue_recv (Arrival peer bs # q) buffer =
     (let n = min (length bs) (length buffer) in Some (q, take n bs @ drop n buffer, Inr (n, peer)))"

text \<open>What a caller sees that calls \<open>recv_decoded\<close> \<open>n\<close> times, or until a call does not return.\<close>

primrec serve ::
    "crc_fun \<Rightarrow> ('e, 'd) raptorq \<Rightarrow> ('s, 'x) udp_recv_from \<Rightarrow> nat \<Rightarrow> ('s, 'd) udp_receiver \<Rightarrow>
     ('x io_error, socket_addr \<times> bytes) result list" where
  "serve crc rq recv_from 0 r = []"
| "serve crc rq recv_from (Suc n) r =
     (case recv_decoded crc rq recv_from r of
        None \<Rightarrow> []
      | Some (r1, out) \<Rightarrow> out # serve crc rq recv_from n r1)"

fun from_peer :: "socket_addr \<Rightarrow> 'x socket_event list \<Rightarrow> bytes list" where
  "from_peer p [] = []"
| "from_peer p (Failure _ # evs) = from_peer p evs"
| "from_peer p (Arrival q bs # evs) = (if q = p then bs # from_peer p evs else from_peer p evs)"

fun socket_failures :: "'x socket_event list \<Rightarrow> 'x list" where
  "socket_failures [] = []"
| "socket_failures (Failure x # evs) = x # socket_failures evs"
| "socket_failures (Arrival _ _ # evs) = socket_failures evs"

fun received_from :: "socket_addr \<Rightarrow> ('x io_error, socket_addr \<times> bytes) result list \<Rightarrow> bytes list" where
  "received_from p [] = []"
| "received_from p (Inl _ # outs) = received_from p outs"
| "received_from p (Inr (q, bs) # outs) = (if q = p then bs # received_from p outs else received_from p outs)"

fun os_errors :: "('x io_error, socket_addr \<times> bytes) result list \<Rightarrow> 'x list" where
  "os_errors [] = []"
| "os_errors (Inl (Os x) # outs) = x # os_errors outs"
| "os_errors (_ # outs) = os_errors outs"

lemma received_from_Cons: "received_from p (out # outs) = received_from p [out] @ received_from p outs"
  by (cases out) auto

lemma os_errors_Cons: "os_errors (out # outs) = os_errors [out] @ os_errors outs"
  by (cases "[out]" rule: os_errors.cases) auto

lemma received_prefix: "take (min (length bs) k) (take (min (length bs) k) bs @ xs) = take k bs"
  by (simp add: min_def)

definition peer_run ::
    "crc_fun \<Rightarrow> ('e, 'd) raptorq \<Rightarrow> ('s, 'd) udp_receiver \<Rightarrow> socket_addr \<Rightarrow> 'x socket_event list \<Rightarrow>
     'd fec_decoder \<times> (datagram_fec_error, bytes option) result list" where
  "peer_run crc rq r p evs = push_all crc rq (peer_decoder r p) (map (take (length (ur_datagram r))) (from_peer p evs))"

lemma peer_run_Nil [simp]: "peer_run crc rq r p [] = (peer_decoder r p, [])"
  by (simp add: peer_run_def)

text \<open>The first event, seen from a peer: another peer's datagram does not reach its decoder.\<close>

lemma peer_run_failure: "peer_run crc rq r p (Failure x # evs) = peer_run crc rq (r\<lparr>ur_socket := q\<rparr>) p evs"
  by (simp add: peer_run_def peer_decoder_def)

lemma peer_run_arrival:
  assumes "push_datagram crc rq (peer_decoder r peer) (take (length (ur_datagram r)) bs) = (d, out)"
    and "length buffer = length (ur_datagram r)"
    and "r2 = r\<lparr>ur_socket := q, ur_datagram := buffer, ur_decoders := (ur_decoders r)(peer \<mapsto> d)\<rparr>"
  shows "fst (peer_run crc rq r p (Arrival peer bs # evs)) = fst (peer_run crc rq r2 p evs)"
    and "delivered (snd (peer_run crc rq r p (Arrival peer bs # evs))) =
      delivered (if p = peer then [out] else []) @ delivered (snd (peer_run crc rq r2 p evs))"
  using assms by (auto simp: peer_run_def peer_decoder_def split: prod.split sum.split option.split)

text \<open>One call: it consumes the events up to the first that finishes a block or fails.\<close>

lemma recv_decoded_run:
  assumes "ur_socket r = evs"
  shows "case recv_decoded crc rq queue_recv r of
      None \<Rightarrow> (\<forall>p. delivered (snd (peer_run crc rq r p evs)) = []) \<and> socket_failures evs = []
    | Some (r', out) \<Rightarrow> length (ur_socket r') < length evs \<and>
        (\<forall>p. delivered (snd (peer_run crc rq r p evs)) =
          received_from p [out] @ delivered (snd (peer_run crc rq r' p (ur_socket r')))) \<and>
        socket_failures evs = os_errors [out] @ socket_failures (ur_socket r')"
  using assms
proof (induction evs arbitrary: r)
  case Nil
  then show ?case by (simp add: recv_decoded.simps recv_step_def)
next
  case (Cons ev evs)
  show ?case
  proof (cases ev)
    case (Failure x)
    then show ?thesis
      using Cons.prems by (simp add: recv_decoded.simps recv_step_def peer_run_failure [where q = evs] peer_run_def peer_decoder_def)
  next
    case (Arrival peer bs)
    let ?k = "length (ur_datagram r)"
    define n where "n = min (length bs) ?k"
    define buffer where "buffer = take n bs @ drop n (ur_datagram r)"
    obtain d out where push: "push_datagram crc rq (peer_decoder r peer) (take ?k bs) = (d, out)" by fastforce
    define r2 where "r2 = r\<lparr>ur_socket := evs, ur_datagram := buffer, ur_decoders := (ur_decoders r)(peer \<mapsto> d)\<rparr>"
    have len: "length buffer = ?k" by (simp add: buffer_def n_def)
    have "take n buffer = take ?k bs" unfolding buffer_def n_def by (rule received_prefix)
    then have step: "recv_step crc rq queue_recv r = Some (r2,
        (case out of Inl err \<Rightarrow> Inl (InvalidData err) | Inr None \<Rightarrow> Inr None
         | Inr (Some decoded) \<Rightarrow> Inr (Some (peer, decoded))))"
      using Cons.prems Arrival push
      by (simp add: recv_step_def Let_def n_def [symmetric] buffer_def [symmetric] r2_def)
    note run = peer_run_arrival(2) [OF push len r2_def]
    have s2: "ur_socket r2 = evs" by (simp add: r2_def)
    show ?thesis
    proof (cases "out = Inr None")
      case True
      then show ?thesis
        using Cons.IH [OF s2] step
        by (subst recv_decoded.simps) (auto simp: Arrival run split: option.splits)
    next
      case False
      then show ?thesis
        using step by (subst recv_decoded.simps)
          (auto simp: Arrival run s2 split: sum.splits option.splits)
    qed
  qed
qed

lemma serve_run:
  assumes "length (ur_socket r) \<le> n"
  shows "received_from p (serve crc rq queue_recv n r) = delivered (snd (peer_run crc rq r p (ur_socket r)))"
    and "os_errors (serve crc rq queue_recv n r) = socket_failures (ur_socket r)"
proof -
  have "received_from p (serve crc rq queue_recv n r) = delivered (snd (peer_run crc rq r p (ur_socket r))) \<and>
      os_errors (serve crc rq queue_recv n r) = socket_failures (ur_socket r)"
    using assms
  proof (induction n arbitrary: r)
    case (Suc n)
    show ?case
    proof (cases "recv_decoded crc rq queue_recv r")
      case None
      then show ?thesis using recv_decoded_run [OF refl, of crc rq r] by simp
    next
      case (Some a)
      then obtain r' out where a: "recv_decoded crc rq queue_recv r = Some (r', out)" by (cases a) simp
      note one = recv_decoded_run [OF refl, of crc rq r, unfolded a, simplified]
      have "length (ur_socket r') \<le> n" using one Suc.prems by linarith
      note IH = Suc.IH [OF this]
      let ?outs = "serve crc rq queue_recv n r'"
      have "serve crc rq queue_recv (Suc n) r = out # ?outs" using a by simp
      then show ?thesis
        using one IH received_from_Cons [of p out ?outs] os_errors_Cons [of out ?outs] by metis
    qed
  qed simp
  then show "received_from p (serve crc rq queue_recv n r) = delivered (snd (peer_run crc rq r p (ur_socket r)))"
    and "os_errors (serve crc rq queue_recv n r) = socket_failures (ur_socket r)" by simp_all
qed

lemma bound_receiver:
  assumes "udp_receiver_bind bind bind_addr = (Inr r :: ('x io_error, ('s, 'd) udp_receiver) result)"
  shows "peer_decoder r p = decoder_new" "length (ur_datagram r) = 65536"
  using assms by (auto simp: udp_receiver_bind_def peer_decoder_def rbind_eq_Inr)

section \<open>Peers do not disturb each other\<close>

text \<open>
  C34. Each peer has its own stream. Let any datagrams of any peers and any socket failures reach a
  freshly bound receiver, in any order, and let the caller go on calling \<open>recv_decoded\<close>, also after
  errors. What it receives from a peer is what one decoder delivers that is fed this peer's
  datagrams alone, cut to the buffer; the calls report the failures of the socket in order, and
  with as many calls as there are events nothing remains.
\<close>
theorem udp_peers_are_isolated:
  assumes "udp_receiver_bind bind bind_addr = (Inr r :: ('x io_error, ('x socket_event list, 'd) udp_receiver) result)"
    and "length (ur_socket r) \<le> n"
  shows "received_from p (serve crc rq queue_recv n r) =
      delivered (snd (push_all crc rq decoder_new (map (take 65536) (from_peer p (ur_socket r))))) \<and>
    os_errors (serve crc rq queue_recv n r) = socket_failures (ur_socket r)"
  using serve_run [OF assms(2), where crc = crc and rq = rq]
  by (simp add: peer_run_def bound_receiver [OF assms(1)])

section \<open>From sender to receiver\<close>

text \<open>A network that takes every datagram, and the list of what it took.\<close>

definition log_send :: "((socket_addr \<times> bytes) list, 'x) udp_send_to" where
  "log_send s d target = (s @ [(target, d)], Inr (length d))"

lemma send_each_log: "send_each log_send target ds s = (s @ map (\<lambda>d. (target, d)) ds, Inr ())"
  by (induction ds arbitrary: s) (simp_all add: log_send_def)

text \<open>The datagrams of a payload, block by block, and what is picked of each block.\<close>

primrec sent_blocks ::
    "crc_fun \<Rightarrow> ('e, 'd) raptorq \<Rightarrow> u16 \<Rightarrow> u32 \<Rightarrow> (bytes \<times> (u32 \<times> nat) list) list \<Rightarrow> bytes list list" where
  "sent_blocks crc rq s b [] = []"
| "sent_blocks crc rq s b (x # xs) = map (sent crc rq b (fst x) s) (snd x) # sent_blocks crc rq s (b + 1) xs"

lemma concat_sent_blocks: "concat (sent_blocks crc rq s b xs) = arrivals crc rq s b xs"
  by (induction xs arbitrary: b) simp_all

lemma length_sent_blocks:
  "map length (sent_blocks crc rq s b (in_order s r seq cs)) = map (\<lambda>c. block_symbols c s + unat r) cs"
  by (induction cs arbitrary: b seq) simp_all

definition block_picks :: "u16 \<Rightarrow> u32 \<Rightarrow> bytes list \<Rightarrow> nat list list \<Rightarrow> bool" where
  "block_picks s r cs gots \<longleftrightarrow>
     list_all2 (\<lambda>c got. set got \<subseteq> {..<block_symbols c s + unat r} \<and> {..<block_symbols c s} \<subseteq> set got) cs gots"

lemma picked_survivors:
  assumes "block_picks s r cs gots"
  shows "\<exists>xs. survivors s xs (in_order s r seq cs) \<and>
    arrivals crc rq s b xs =
      concat (map2 (\<lambda>block got. map ((!) block) got) (sent_blocks crc rq s b (in_order s r seq cs)) gots)"
  using assms
proof (induction cs arbitrary: gots seq b)
  case (Cons c cs)
  let ?n = "block_symbols c s + unat r"
  let ?ids = "map (\<lambda>j. (seq + of_nat j, j)) [0..<?n]"
  obtain got rest where gots: "gots = got # rest" "set got \<subseteq> {..<?n}" "{..<block_symbols c s} \<subseteq> set got"
      "block_picks s r cs rest"
    using Cons.prems by (auto simp: block_picks_def list_all2_Cons1)
  obtain xs where xs: "survivors s xs (in_order s r (seq + of_nat ?n) cs)"
      "arrivals crc rq s (b + 1) xs = concat (map2 (\<lambda>block got. map ((!) block) got)
         (sent_blocks crc rq s (b + 1) (in_order s r (seq + of_nat ?n) cs)) rest)"
    using Cons.IH [OF gots(4)] by blast
  have nth: "?ids ! j = (seq + of_nat j, j)" if "j \<in> set got" for j using gots(2) that by auto
  then have same: "map ((!) ?ids) got = map (\<lambda>j. (seq + of_nat j, j)) got" by simp
  have "set (map ((!) ?ids) got) \<subseteq> set ?ids" unfolding same using gots(2) by auto
  moreover have "{0..<block_symbols c s} \<subseteq> snd ` set (map ((!) ?ids) got)"
    unfolding same using gots(3) by (simp add: image_image lessThan_atLeast0)
  ultimately have "survivors s ((c, map ((!) ?ids) got) # xs) (in_order s r seq (c # cs))"
    using xs(1) by (simp add: survivors_def)
  moreover have "map (sent crc rq b c s) (map ((!) ?ids) got) = map ((!) (map (sent crc rq b c s) ?ids)) got"
    using gots(2) by auto
  ultimately show ?case
    using xs(2) by (intro exI [of _ "(c, map ((!) ?ids) got) # xs"]) (simp add: gots(1))
qed (simp add: block_picks_def survivors_def)

text \<open>
  C35. A payload sent over UDP arrives. \<open>send\<close> puts datagrams on the network, all addressed to the target: for
  each block of the payload its source packets first and then the repair packets of the configuration. Bind a
  receiver and let it get any traffic whose datagrams from one peer are picked from those that were sent, block by
  block: of every block any of its datagrams, in any order, repeated or not, as long as its source packets are among
  them; between them arbitrary datagrams of other peers and failures of the socket. With symbols that fit into the
  receive buffer, the blocks received from this peer, concatenated, are the payload.
\<close>
theorem udp_payload_survives_loss:
  fixes u :: "((socket_addr \<times> bytes) list) udp_sender"
  assumes "rq_lawful rq" "sendable (us_encoder u) data"
    and "unat (cfg_symbol_size (enc_config (us_encoder u))) \<le> 65500"
  shows "\<exists>u' blocks. udp_send crc rq log_send u data = (u', Inr () :: ('x io_error, unit) result) \<and>
    us_socket u' = us_socket u @ map (\<lambda>d. (us_target u, d)) (concat blocks) \<and>
    map length blocks = map (\<lambda>c. block_symbols c (cfg_symbol_size (enc_config (us_encoder u))) +
      unat (cfg_repair_symbols (enc_config (us_encoder u)))) (payload_chunks (us_encoder u) data) \<and>
    (\<forall>gots bind bind_addr r n p.
       list_all2 (\<lambda>c got. set got \<subseteq> {..<block_symbols c (cfg_symbol_size (enc_config (us_encoder u))) +
             unat (cfg_repair_symbols (enc_config (us_encoder u)))} \<and>
           {..<block_symbols c (cfg_symbol_size (enc_config (us_encoder u)))} \<subseteq> set got)
         (payload_chunks (us_encoder u) data) gots \<longrightarrow>
       udp_receiver_bind bind bind_addr = (Inr r :: ('x io_error, ('x socket_event list, 'd) udp_receiver) result) \<longrightarrow>
       from_peer p (ur_socket r) = concat (map2 (\<lambda>block got. map ((!) block) got) blocks gots) \<longrightarrow>
       length (ur_socket r) \<le> n \<longrightarrow>
       concat (received_from p (serve crc rq queue_recv n r)) = data)"
proof -
  let ?e = "us_encoder u"
  let ?s = "cfg_symbol_size (enc_config ?e)" and ?r = "cfg_repair_symbols (enc_config ?e)"
  let ?sent = "in_order ?s ?r (enc_packet_sequence ?e) (payload_chunks ?e data)"
  let ?blocks = "sent_blocks crc rq ?s (enc_block_id ?e) ?sent"
  obtain e' where "encode_payload crc rq ?e data = (e', Inr (concat ?blocks))"
    using encode_payload_lawful [OF assms(1,2), of crc] unfolding concat_sent_blocks by blast
  then have sent: "udp_send crc rq log_send u data =
      (u\<lparr>us_encoder := e', us_socket := us_socket u @ map (\<lambda>d. (us_target u, d)) (concat ?blocks)\<rparr>, Inr ())"
    by (simp add: udp_send_def encode_payload_as_io_def send_encoded_def send_each_log)
  have received: "concat (received_from p (serve crc rq queue_recv n r)) = data"
    if got: "block_picks ?s ?r (payload_chunks ?e data) gots"
      and bound: "udp_receiver_bind bind bind_addr = (Inr r :: ('x io_error, ('x socket_event list, 'd) udp_receiver) result)"
      and traffic: "from_peer p (ur_socket r) = concat (map2 (\<lambda>block got. map ((!) block) got) ?blocks gots)"
      and n: "length (ur_socket r) \<le> n"
    for gots bind bind_addr r n p
  proof -
    obtain xs where xs: "survivors ?s xs ?sent"
        "from_peer p (ur_socket r) = arrivals crc rq ?s (enc_block_id ?e) xs"
      using picked_survivors [OF got, of "enc_packet_sequence ?e" crc rq "enc_block_id ?e"] traffic by auto
    note good = survivors_good [OF assms(2) xs(1)]
    have "length d \<le> 65536" if "d \<in> set (from_peer p (ur_socket r))" for d
      using length_arrivals [OF assms(1) good(2) that [unfolded xs(2)]] assms(3)
      by (simp add: HEADER_LEN_def ENCODING_PACKET_HEADER_LEN_def)
    then have whole: "map (take 65536) (from_peer p (ur_socket r)) = from_peer p (ur_socket r)"
      by (simp add: map_idI)
    obtain d' rs where push: "push_all crc rq decoder_new (from_peer p (ur_socket r)) = (d', rs)" by fastforce
    have "delivered rs = payload_chunks ?e data"
      using payload_delivered [OF assms(1,2) xs(1) push [unfolded xs(2)]] by blast
    then have "received_from p (serve crc rq queue_recv n r) = payload_chunks ?e data"
      using serve_run(1) [OF n, where crc = crc and rq = rq]
      by (simp add: peer_run_def bound_receiver [OF bound] whole push)
    then show ?thesis by (simp add: concat_payload_chunks [OF assms(2)])
  qed
  show ?thesis
    using sent length_sent_blocks received [unfolded block_picks_def]
    by (intro exI [of _ "u\<lparr>us_encoder := e', us_socket := us_socket u @ map (\<lambda>d. (us_target u, d)) (concat ?blocks)\<rparr>"]
        exI [of _ ?blocks] conjI allI impI) simp_all
qed

definition example_receiver :: "'x socket_event list \<Rightarrow> ('x socket_event list, 'd) udp_receiver" where
  "example_receiver evs = \<lparr>ur_socket = evs, ur_decoders = (\<lambda>_. None), ur_datagram = replicate 65536 0\<rparr>"

lemma example_bound: "udp_receiver_bind (\<lambda>_. Inr evs) a = Inr (example_receiver evs)"
  by (simp add: udp_receiver_bind_def example_receiver_def)

theorem udp_peers_are_isolated_witness:
  "received_from (V4 1 2) (serve crc_reference rep_codec queue_recv 3
     (example_receiver [Arrival (V4 7 9) [0], Failure (5 :: nat), Arrival (V4 1 2) [1]])) =
     delivered (snd (push_all crc_reference rep_codec decoder_new [[1]])) \<and>
   os_errors (serve crc_reference rep_codec queue_recv 3
     (example_receiver [Arrival (V4 7 9) [0], Failure (5 :: nat), Arrival (V4 1 2) [1]])) = [5]"
  using udp_peers_are_isolated [OF example_bound, of "[Arrival (V4 7 9) [0], Failure (5 :: nat), Arrival (V4 1 2) [1]]"
      3 "V4 1 2" crc_reference rep_codec]
  by (simp add: example_receiver_def)

theorem udp_payload_survives_loss_witness:
  "\<exists>u' block. udp_send crc_reference rep_codec log_send \<lparr>us_socket = [], us_target = V4 3 4, us_encoder = small_encoder\<rparr>
       [1, 2, 3] = (u', Inr () :: (nat io_error, unit) result) \<and>
     us_socket u' = map (\<lambda>d. (V4 3 4, d)) block \<and> length block = 3 \<and>
     concat (received_from (V4 1 2) (serve crc_reference rep_codec queue_recv 6
       (example_receiver ([Arrival (V4 7 9) [0], Failure (5 :: nat)] @
          map (Arrival (V4 1 2)) [block ! 1, block ! 2, block ! 0, block ! 1])))) = [1, 2, 3]"
proof -
  let ?u = "\<lparr>us_socket = [], us_target = V4 3 4, us_encoder = small_encoder\<rparr> :: ((socket_addr \<times> bytes) list) udp_sender"
  have cfg: "cfg_symbol_size (enc_config (us_encoder ?u)) = 2" "cfg_repair_symbols (enc_config (us_encoder ?u)) = 1"
    by (simp_all add: small_encoder_def)
  have send: "sendable (us_encoder ?u) [1, 2, 3]" using small_sendable by simp
  have size: "unat (cfg_symbol_size (enc_config (us_encoder ?u))) \<le> 65500" by (simp add: small_encoder_def)
  have chunks: "payload_chunks (us_encoder ?u) [1, 2, 3] = [[1, 2, 3]]" using small_chunks by simp
  have pick: "list_all2 (\<lambda>c got. set got \<subseteq> {..<block_symbols c 2 + unat (1 :: u32)} \<and> {..<block_symbols c 2} \<subseteq> set got)
      [[1, 2, 3]] [[1, 2, 0, 1 :: nat]]"
    by (auto simp: small_block(2) less_Suc_eq numeral_2_eq_2)
  obtain u' blocks where sent: "udp_send crc_reference rep_codec log_send ?u [1, 2, 3] = (u', Inr () :: (nat io_error, unit) result)"
      "us_socket u' = us_socket ?u @ map (\<lambda>d. (us_target ?u, d)) (concat blocks)"
      "map length blocks = map (\<lambda>c. block_symbols c 2 + unat (1 :: u32)) [[1, 2, 3]]"
    and all: "\<forall>gots bind bind_addr r n p.
       list_all2 (\<lambda>c got. set got \<subseteq> {..<block_symbols c 2 + unat (1 :: u32)} \<and> {..<block_symbols c 2} \<subseteq> set got)
         [[1, 2, 3]] gots \<longrightarrow>
       udp_receiver_bind bind bind_addr = (Inr r :: (nat io_error, (nat socket_event list, rep_decoder) udp_receiver) result) \<longrightarrow>
       from_peer p (ur_socket r) = concat (map2 (\<lambda>block got. map ((!) block) got) blocks gots) \<longrightarrow>
       length (ur_socket r) \<le> n \<longrightarrow>
       concat (received_from p (serve crc_reference rep_codec queue_recv n r)) = [1, 2, 3]"
    using udp_payload_survives_loss [OF rep_codec_lawful send size, of crc_reference, unfolded cfg chunks]
    by (elim exE conjE)
  obtain block where block: "blocks = [block]" "length block = 3" using sent(3) by (auto simp: small_block(2))
  let ?evs = "[Arrival (V4 7 9) [0], Failure (5 :: nat)] @
      map (Arrival (V4 1 2)) [block ! 1, block ! 2, block ! 0, block ! 1]"
  have traffic: "from_peer (V4 1 2) (ur_socket (example_receiver ?evs)) =
      concat (map2 (\<lambda>block got. map ((!) block) got) blocks [[1, 2, 0, 1]])"
    by (simp add: example_receiver_def block(1))
  have "length (ur_socket (example_receiver ?evs)) \<le> 6" by (simp add: example_receiver_def)
  note got = all [rule_format, OF pick example_bound traffic this]
  show ?thesis
    using sent(1,2) block got by (intro exI [of _ u'] exI [of _ block]) simp
qed

end
