(* ===== verification/F64.thy ===== *)
theory F64
  imports Float_Rounding
begin

text \<open>
  Rust's \<open>f64\<close>: IEEE 754 binary64, as far as \<^verbatim>\<open>audio_recovery_baseline.rs\<close> computes with it. As in the model of
  \<open>f32\<close>, a finite value is its rational number and the sign of zero is not kept: no value there can be \<open>-0.0\<close>, but
  the start value of \<^verbatim>\<open>sum\<close>, to which a number is added before anything else sees it.
\<close>

datatype f64 = NaN64 | PosInf64 | NegInf64 | Fin64 rat

section \<open>Operations\<close>

definition round64 :: "rat \<Rightarrow> rat" where
  "round64 = round_to 52 (-1074)"

definition f64_round :: "rat \<Rightarrow> f64" where
  "f64_round x =
     (if x = 0 then Fin64 0
      else if 0 < x then (if round64 x < pow2 1024 then Fin64 (round64 x) else PosInf64)
      else (if round64 (- x) < pow2 1024 then Fin64 (- round64 (- x)) else NegInf64))"

fun f64_add :: "f64 \<Rightarrow> f64 \<Rightarrow> f64" where
  "f64_add (Fin64 x) (Fin64 y) = f64_round (x + y)"
| "f64_add NaN64 _ = NaN64"
| "f64_add _ NaN64 = NaN64"
| "f64_add PosInf64 NegInf64 = NaN64"
| "f64_add NegInf64 PosInf64 = NaN64"
| "f64_add PosInf64 _ = PosInf64"
| "f64_add _ PosInf64 = PosInf64"
| "f64_add NegInf64 _ = NegInf64"
| "f64_add _ NegInf64 = NegInf64"

definition f64_inf_mul :: "bool \<Rightarrow> rat \<Rightarrow> f64" where
  "f64_inf_mul positive x = (if x = 0 then NaN64 else if (0 < x) = positive then PosInf64 else NegInf64)"

fun f64_mul :: "f64 \<Rightarrow> f64 \<Rightarrow> f64" where
  "f64_mul (Fin64 x) (Fin64 y) = f64_round (x * y)"
| "f64_mul NaN64 _ = NaN64"
| "f64_mul _ NaN64 = NaN64"
| "f64_mul PosInf64 PosInf64 = PosInf64"
| "f64_mul NegInf64 NegInf64 = PosInf64"
| "f64_mul PosInf64 NegInf64 = NegInf64"
| "f64_mul NegInf64 PosInf64 = NegInf64"
| "f64_mul PosInf64 (Fin64 y) = f64_inf_mul True y"
| "f64_mul NegInf64 (Fin64 y) = f64_inf_mul False y"
| "f64_mul (Fin64 x) PosInf64 = f64_inf_mul True x"
| "f64_mul (Fin64 x) NegInf64 = f64_inf_mul False x"

text \<open>Division; a zero divisor counts as positive zero.\<close>

fun f64_div :: "f64 \<Rightarrow> f64 \<Rightarrow> f64" where
  "f64_div (Fin64 x) (Fin64 y) =
     (if y = 0 then (if x = 0 then NaN64 else if 0 < x then PosInf64 else NegInf64) else f64_round (x / y))"
| "f64_div NaN64 _ = NaN64"
| "f64_div _ NaN64 = NaN64"
| "f64_div PosInf64 (Fin64 y) = (if y < 0 then NegInf64 else PosInf64)"
| "f64_div NegInf64 (Fin64 y) = (if y < 0 then PosInf64 else NegInf64)"
| "f64_div (Fin64 x) PosInf64 = Fin64 0"
| "f64_div (Fin64 x) NegInf64 = Fin64 0"
| "f64_div PosInf64 _ = NaN64"
| "f64_div NegInf64 _ = NaN64"

text \<open>\<open>x > 0.0\<close>\<close>

fun f64_positive :: "f64 \<Rightarrow> bool" where
  "f64_positive (Fin64 x) \<longleftrightarrow> 0 < x"
| "f64_positive PosInf64 \<longleftrightarrow> True"
| "f64_positive _ \<longleftrightarrow> False"

text \<open>\<open>as f64\<close> of an integer, and \<open>f64::from\<close>\<close>

definition f64_of_int :: "int \<Rightarrow> f64" where
  "f64_of_int n = f64_round (of_int n)"

section \<open>Rounding\<close>

lemma round64_mono: "0 < x \<Longrightarrow> x \<le> y \<Longrightarrow> round64 x \<le> round64 y"
  by (simp add: round64_def round_to_mono)

lemma f64_round_0 [simp]: "f64_round 0 = Fin64 0"
  by (simp add: f64_round_def)

text \<open>Integers of at most 54 bits, the last zero, and their multiples by powers of two, are kept as they are.\<close>

lemma round64_exact:
  assumes "0 < n" "n \<le> 2 ^ 53" "-1074 \<le> e"
  shows "round64 (of_int n * pow2 e) = of_int n * pow2 e"
proof -
  have scale: "round64 (of_int m * pow2 k) = of_int m * pow2 k" if m: "0 < m" "m < 2 ^ 53" "-1074 \<le> k" for m k
  proof -
    let ?x = "of_int m * pow2 k"
    have pos: "0 < ?x" using m(1) by simp
    have "(of_int m :: rat) < of_int (2 ^ 53)" using m(2) by (simp only: of_int_less_iff)
    then have "?x < pow2 53 * pow2 k" by (intro mult_strict_right_mono) (simp_all add: pow2_def [of 53])
    then have "pow2 (ilog2 ?x) < pow2 (53 + k)"
      unfolding pow2_add by (rule le_less_trans [OF ilog2_bounds(1) [OF pos]])
    then have "quantum 52 (-1074) ?x \<le> k" using m(3) by (simp add: quantum_def pow2_less_iff)
    then show ?thesis unfolding round64_def by (rule round_to_exact [OF refl])
  qed
  show ?thesis
  proof (cases "n = 2 ^ 53")
    case True
    then have "of_int n * pow2 e = of_int (2 ^ 52) * pow2 (e + 1)" by (simp add: pow2_add) (simp add: pow2_def)
    then show ?thesis using scale [of "2 ^ 52" "e + 1"] assms(3) by simp
  qed (use scale assms in simp)
qed

lemma in_range64: "n \<le> 2 ^ 53 \<Longrightarrow> e \<le> 900 \<Longrightarrow> of_int n * pow2 e < pow2 1024"
proof -
  assume n: "n \<le> 2 ^ 53" and e: "e \<le> 900"
  have "(of_int n :: rat) \<le> of_int (2 ^ 53)" using n by (simp only: of_int_le_iff)
  then have "of_int n * pow2 e \<le> pow2 53 * pow2 e" by (intro mult_right_mono less_imp_le [OF pow2_pos]) (simp add: pow2_def [of 53])
  also have "\<dots> < pow2 1024" unfolding pow2_add [symmetric] using e by (simp add: pow2_less_iff)
  finally show ?thesis .
qed

lemma f64_round_exact:
  assumes "0 \<le> n" "n \<le> 2 ^ 53" "-1074 \<le> e" "e \<le> 900"
  shows "f64_round (of_int n * pow2 e) = Fin64 (of_int n * pow2 e)"
proof (cases "n = 0")
  case False
  then have "0 < of_int n * pow2 e" using assms(1) by simp
  then show ?thesis
    using round64_exact [of n e] in_range64 [of n e] assms False by (simp add: f64_round_def)
qed simp

text \<open>What does not exceed such a number does not exceed it after rounding.\<close>

lemma f64_round_between:
  assumes "0 \<le> x" "x \<le> of_int n * pow2 e" "n \<le> 2 ^ 53" "-1074 \<le> e" "e \<le> 900"
  obtains r where "f64_round x = Fin64 r" "0 \<le> r" "r \<le> of_int n * pow2 e"
proof (cases "x = 0")
  case True
  then show thesis using that [of 0] assms(2) by simp
next
  case False
  then have x: "0 < x" using assms(1) by simp
  then have "0 < of_int n * pow2 e" using assms(2) by linarith
  then have n: "0 < n" using pow2_pos [of e] by (auto simp: zero_less_mult_iff)
  have "round64 x \<le> of_int n * pow2 e"
    using round64_mono [OF x assms(2)] round64_exact [OF n assms(3,4)] by simp
  moreover have "0 \<le> round64 x" unfolding round64_def by (rule round_to_nonneg [OF x])
  ultimately show thesis
    using that [of "round64 x"] x in_range64 [OF assms(3,5)] by (simp add: f64_round_def)
qed

lemma f64_round_le:
  assumes "0 \<le> x" "x \<le> y" "f64_round x = Fin64 r" "f64_round y = Fin64 q"
  shows "r \<le> q"
proof (cases "x = 0")
  case True
  then have "r = 0" using assms(3) by simp
  moreover have "0 \<le> round64 y" if "0 < y" unfolding round64_def by (rule round_to_nonneg [OF that])
  ultimately show ?thesis using assms True by (auto simp: f64_round_def split: if_splits)
next
  case False
  then show ?thesis using assms round64_mono [of x y] by (auto simp: f64_round_def split: if_splits)
qed

text \<open>What rounding gives is a float, which rounding keeps.\<close>

definition float64 :: "rat \<Rightarrow> bool" where
  "float64 r \<longleftrightarrow> f64_round r = Fin64 r"

lemma round64_again:
  assumes "0 < x" "0 < round64 x"
  shows "round64 (round64 x) = round64 x"
proof -
  let ?q = "quantum 52 (-1074) x" and ?n = "round_half_even (x / pow2 (quantum 52 (-1074) x))"
  have r: "round64 x = of_int ?n * pow2 ?q" by (simp add: round64_def round_to_def)
  then have "0 < ?n" using assms(2) pow2_pos [of ?q] by (auto simp: zero_less_mult_iff)
  moreover have "?n \<le> 2 ^ 53"
  proof -
    have "ilog2 x + 1 \<le> 53 + ?q" unfolding quantum_def by linarith
    then have "x < pow2 (53 + ?q)" using ilog2_bounds(2) [OF assms(1)] by (rule order_less_le_trans [OF _ pow2_mono, rotated])
    then have "x / pow2 ?q \<le> of_int (2 ^ 53)" by (simp add: pow2_add divide_le_eq) (simp add: pow2_def [of 53])
    then show ?thesis using round_half_even_mono by (metis round_half_even_int)
  qed
  moreover have "-1074 \<le> ?q" by (simp add: quantum_def)
  ultimately show ?thesis unfolding r by (rule round64_exact)
qed

lemma rounded_float64:
  assumes "0 \<le> x" "f64_round x = Fin64 r"
  shows "float64 r"
proof (cases "r = 0")
  case False
  then have x: "0 < x" and r: "r = round64 x" "r < pow2 1024" using assms by (auto simp: f64_round_def split: if_splits)
  have "0 \<le> round64 x" unfolding round64_def by (rule round_to_nonneg [OF x])
  then have "0 < round64 x" using False r(1) by simp
  then show ?thesis using round64_again [OF x] r by (simp add: float64_def f64_round_def)
qed (simp add: float64_def)

section \<open>Sums of energies\<close>

text \<open>Finite, at most \<open>b\<close>, and zero or at least one, as every rounded sum of squares of integers is.\<close>

definition energy_upto :: "rat \<Rightarrow> f64 \<Rightarrow> bool" where
  "energy_upto b x \<longleftrightarrow> (\<exists>r. x = Fin64 r \<and> (r = 0 \<or> 1 \<le> r) \<and> r \<le> b)"

lemma energy_upto_simps [simp]: "energy_upto b (Fin64 r) \<longleftrightarrow> (r = 0 \<or> 1 \<le> r) \<and> r \<le> b"
  by (auto simp: energy_upto_def)

lemma energy_uptoE:
  assumes "energy_upto b x"
  obtains r where "x = Fin64 r" "r = 0 \<or> 1 \<le> r" "0 \<le> r" "r \<le> b"
  using assms by (auto simp: energy_upto_def)

lemma energy_upto_mono: "energy_upto b x \<Longrightarrow> b \<le> c \<Longrightarrow> energy_upto c x"
  by (auto simp: energy_upto_def)

lemma f64_round_ge_one:
  assumes "1 \<le> x" "f64_round x = Fin64 r"
  shows "1 \<le> r"
proof -
  have "f64_round 1 = Fin64 1" using f64_round_exact [of 1 0] by (simp add: pow2_def)
  then show ?thesis using f64_round_le [of 1 x 1 r] assms by simp
qed

lemma energy_round:
  assumes "x = 0 \<or> 1 \<le> x" "x \<le> of_int n * pow2 e" "n \<le> 2 ^ 53" "-1074 \<le> e" "e \<le> 900"
  shows "energy_upto (of_int n * pow2 e) (f64_round x)"
proof -
  obtain r where r: "f64_round x = Fin64 r" "r \<le> of_int n * pow2 e"
    by (rule f64_round_between [OF _ assms(2-5)]) (use assms(1) in auto)
  moreover have "r = 0 \<or> 1 \<le> r" using assms(1) r(1) f64_round_ge_one by auto
  ultimately show ?thesis by simp
qed

lemma add_upto:
  assumes "energy_upto (of_int m * pow2 e) x" "energy_upto (of_int n * pow2 e) y"
    and "m + n \<le> 2 ^ 53" "-1074 \<le> e" "e \<le> 900"
  shows "energy_upto (of_int (m + n) * pow2 e) (f64_add x y)"
proof -
  obtain r where r: "x = Fin64 r" "r = 0 \<or> 1 \<le> r" "r \<le> of_int m * pow2 e" using assms(1) by (rule energy_uptoE)
  obtain q where q: "y = Fin64 q" "q = 0 \<or> 1 \<le> q" "q \<le> of_int n * pow2 e" using assms(2) by (rule energy_uptoE)
  have "r + q \<le> of_int (m + n) * pow2 e" using r(3) q(3) by (simp add: distrib_right)
  moreover have "r + q = 0 \<or> 1 \<le> r + q" using r(2) q(2) by linarith
  ultimately show ?thesis
    using energy_round [of "r + q" "m + n" e] assms(3-5) unfolding r(1) q(1) f64_add.simps(1) by blast
qed

lemma sum_upto:
  "energy_upto (of_int m * pow2 e) x \<Longrightarrow> \<forall>y \<in> set ys. energy_upto (of_int n * pow2 e) y \<Longrightarrow>
   0 \<le> n \<Longrightarrow> m + int (length ys) * n \<le> 2 ^ 53 \<Longrightarrow> -1074 \<le> e \<Longrightarrow> e \<le> 900 \<Longrightarrow>
   energy_upto (of_int (m + int (length ys) * n) * pow2 e) (fold (\<lambda>y acc. f64_add acc y) ys x)"
proof (induction ys arbitrary: m x)
  case (Cons y ys)
  have len: "m + n + int (length ys) * n \<le> 2 ^ 53" using Cons.prems(4) by (simp add: algebra_simps)
  then have mn: "m + n \<le> 2 ^ 53" using Cons.prems(3) zero_le_mult_iff [of "int (length ys)" n] by linarith
  have "energy_upto (of_int (m + n) * pow2 e) (f64_add x y)"
    using add_upto [OF Cons.prems(1) _ mn Cons.prems(5,6), of y] Cons.prems(2) by simp
  from Cons.IH [OF this _ Cons.prems(3) len Cons.prems(5,6)] Cons.prems(2) show ?case
    by (simp add: algebra_simps)
qed simp

text \<open>However many terms are added, a sum stops growing long before it overflows.\<close>

lemma absorbed: "f64_round (pow2 125 + pow2 70) = Fin64 (pow2 125)"
proof -
  have "pow2 125 \<le> pow2 125 + pow2 70" "pow2 125 + pow2 70 < pow2 (125 + 1)" by (simp_all add: pow2_def)
  then have "ilog2 (pow2 125 + pow2 70) = 125" by (rule ilog2_unique)
  then have q: "quantum 52 (-1074) (pow2 125 + pow2 70) = 73" by (simp add: quantum_def)
  have "(pow2 125 + pow2 70) / pow2 73 = 2 ^ 52 + 1 / 8" by (simp add: pow2_def)
  moreover have "round_half_even (2 ^ 52 + 1 / 8) = 2 ^ 52"
    by (simp add: round_half_even_def Let_def floor_eq_iff [of _ "2 ^ 52", THEN iffD2])
  ultimately have "round64 (pow2 125 + pow2 70) = pow2 125" unfolding round64_def round_to_def q by (simp add: pow2_def)
  moreover have "pow2 125 < pow2 1024" by (simp add: pow2_less_iff)
  ultimately show ?thesis using add_pos_pos [OF pow2_pos [of 125] pow2_pos [of 70]] by (simp add: f64_round_def)
qed

lemma add_saturates:
  assumes "energy_upto (pow2 125) x" "energy_upto (pow2 70) y"
  shows "energy_upto (pow2 125) (f64_add x y)"
proof -
  obtain r where r: "x = Fin64 r" "r = 0 \<or> 1 \<le> r" "r \<le> pow2 125" using assms(1) by (rule energy_uptoE)
  obtain q where q: "y = Fin64 q" "q = 0 \<or> 1 \<le> q" "q \<le> pow2 70" using assms(2) by (rule energy_uptoE)
  have sum: "r + q = 0 \<or> 1 \<le> r + q" and le: "r + q \<le> pow2 125 + pow2 70" using r(2,3) q(2,3) by linarith+
  have "(pow2 125 + pow2 70 :: rat) \<le> of_int 1 * pow2 126" by (simp add: pow2_def)
  then have "r + q \<le> of_int 1 * pow2 126" using le by linarith
  then have "energy_upto (of_int 1 * pow2 126) (f64_round (r + q))" by (intro energy_round sum) simp_all
  then obtain s where s: "f64_round (r + q) = Fin64 s" "s = 0 \<or> 1 \<le> s" by (rule energy_uptoE)
  have "s \<le> pow2 125" using f64_round_le [OF _ le s(1) absorbed] sum by linarith
  then show ?thesis using s by (simp add: r(1) q(1))
qed

text \<open>A sum over a part stays below the sum over all.\<close>

lemma add_both:
  assumes "energy_upto (pow2 125) (Fin64 r)" "energy_upto (pow2 125) (Fin64 q)" "r \<le> q" "energy_upto (pow2 70) z"
  obtains r1 q1 where "f64_add (Fin64 r) z = Fin64 r1" "f64_add (Fin64 q) z = Fin64 q1" "r1 \<le> q1"
proof -
  obtain t where t: "z = Fin64 t" "0 \<le> t" using assms(4) by (rule energy_uptoE)
  obtain r1 where one: "f64_add (Fin64 r) z = Fin64 r1" using add_saturates [OF assms(1,4)] by (rule energy_uptoE)
  obtain q1 where two: "f64_add (Fin64 q) z = Fin64 q1" using add_saturates [OF assms(2,4)] by (rule energy_uptoE)
  have "0 \<le> r + t" "r + t \<le> q + t" using assms(1,3) t(2) by auto
  then have "r1 \<le> q1" by (rule f64_round_le) (use one two in \<open>simp_all add: t(1)\<close>)
  then show thesis by (rule that [OF one two])
qed

lemma add_grows:
  assumes "float64 q" "0 \<le> q" "0 \<le> t" "f64_add (Fin64 q) (Fin64 t) = Fin64 q1"
  shows "q \<le> q1" "float64 q1"
proof -
  show "q \<le> q1" by (rule f64_round_le [of q "q + t"]) (use assms in \<open>simp_all add: float64_def\<close>)
  show "float64 q1" by (rule rounded_float64 [of "q + t"]) (use assms in simp_all)
qed

section \<open>Quotients\<close>

lemma f64_of_int_exact: "0 \<le> n \<Longrightarrow> n \<le> 2 ^ 53 \<Longrightarrow> f64_of_int n = Fin64 (of_int n)"
  using f64_round_exact [of n 0] by (simp add: f64_of_int_def pow2_def)

lemma f64_round_nearest:
  assumes "pow2 (- 1022) \<le> x" "x \<le> of_int n * pow2 e" "n \<le> 2 ^ 53" "-1074 \<le> e" "e \<le> 900"
  obtains r where "f64_round x = Fin64 r" "\<bar>r - x\<bar> \<le> x / 2 ^ 53"
proof -
  have x: "0 < x" using assms(1) pow2_pos [of "-1022"] by linarith
  obtain r where r: "f64_round x = Fin64 r" using f64_round_between [OF less_imp_le [OF x] assms(2-5)] by blast
  then have "r = round64 x" using x by (auto simp: f64_round_def split: if_splits)
  moreover have "\<bar>round64 x - x\<bar> \<le> x / 2 ^ 53"
    using round_to_nearest [of "-1074" 52 x] assms(1) by (simp add: round64_def)
  ultimately show thesis using that r by simp
qed

text \<open>The quotient of two energies.\<close>

lemma energy_quotient:
  assumes "energy_upto (pow2 125) (Fin64 q)" "0 < r" "r \<le> q" "energy_upto (pow2 125) (Fin64 r)"
  obtains p where "f64_div (Fin64 q) (Fin64 r) = Fin64 p" "1 \<le> p"
proof -
  have r: "1 \<le> r" and q: "q \<le> pow2 125" using assms by auto
  have one: "1 \<le> q / r" using assms(2,3) by simp
  have "q / r \<le> q / 1" using r assms(2,3) by (intro divide_left_mono) auto
  then have "q / r \<le> of_int 1 * pow2 125" using q by simp
  then have "energy_upto (of_int 1 * pow2 125) (f64_round (q / r))" by (intro energy_round disjI2 one) simp_all
  then obtain p where p: "f64_round (q / r) = Fin64 p" by (rule energy_uptoE)
  then show thesis using that f64_round_ge_one [OF one p] assms(2) by simp
qed

end
