(* ===== verification/Loss_Model.thy ===== *)
theory Loss_Model
  imports Audio_Encoder F64
begin

text \<open>
  The helpers of \<^verbatim>\<open>raptorq-datagram-fec/examples/audio_recovery_baseline.rs\<close>: the deterministic signal and
  loss traces of the recovery benchmark, its signal energies and ratios in \<^verbatim>\<open>f64\<close>, and its nearest-rank
  percentiles. Theory Recovery_Baseline has the simulation.
\<close>

unbundle bit_operations_syntax

section \<open>Constants and profiles\<close>

definition BENCH_SAMPLE_RATE :: u32 where "BENCH_SAMPLE_RATE = 48000"
definition BENCH_FRAME_COUNT :: u32 where "BENCH_FRAME_COUNT = 240"
definition CHANNELS_PER_GROUP :: u16 where "CHANNELS_PER_GROUP = 8"
definition BASE_ONE_WAY_US :: u64 where "BASE_ONE_WAY_US = 2000"
definition JITTER_US :: u64 where "JITTER_US = 500"
definition PACING_US :: u64 where "PACING_US = 50"
definition EPOCH_US :: u64 where
  "EPOCH_US = ucast BENCH_FRAME_COUNT * 1000000 div ucast BENCH_SAMPLE_RATE"
definition IPV6_UDP_HEADER_BYTES :: u64 where "IPV6_UDP_HEADER_BYTES = 48"

datatype loss_profile = Clean | Independent u32 | SourceBurst u16 u64

definition loss_profile_name :: "loss_profile \<Rightarrow> string" where
  "loss_profile_name profile =
     (case profile of
        Clean \<Rightarrow> ''clean''
      | Independent ppm \<Rightarrow>
          (if ppm = 1000 then ''independent_0_1pct''
           else if ppm = 5000 then ''independent_0_5pct''
           else if ppm = 10000 then ''independent_1pct''
           else if ppm = 20000 then ''independent_2pct''
           else if ppm = 50000 then ''independent_5pct''
           else ''custom'')
      | SourceBurst n _ \<Rightarrow>
          (if n = 2 then ''source_burst_2''
           else if n = 4 then ''source_burst_4''
           else if n = 8 then ''source_burst_8''
           else ''custom''))"

definition profile_seeds :: "loss_profile \<Rightarrow> u64" where
  "profile_seeds profile = (if profile = Clean then 1 else 10)"

section \<open>The generator\<close>

definition mix64 :: "u64 \<Rightarrow> u64" where
  "mix64 value =
     (let v1 = value + 0x9e3779b97f4a7c15;
          v2 = (v1 XOR drop_bit 30 v1) * 0xbf58476d1ce4e5b9;
          v3 = (v2 XOR drop_bit 27 v2) * 0x94d049bb133111eb
      in v3 XOR drop_bit 31 v3)"

text \<open>The difference is an \<^verbatim>\<open>i32\<close>, of which the word has the bits.\<close>

definition sample_value :: "u64 \<Rightarrow> u32 \<Rightarrow> u16 \<Rightarrow> u32" where
  "sample_value epoch_id fr channel =
     (let mixed = mix64 (epoch_id XOR word_rotl 19 (ucast fr) XOR word_rotl 43 (ucast channel))
      in ucast (mixed AND 0x00ffffff) - 0x00800000)"

definition role_key :: "audio_role \<Rightarrow> u64" where
  "role_key role =
     (case role of
        SourceSymbol i \<Rightarrow> ucast i
      | RepairSymbol esi \<Rightarrow> 0x80000000 OR ucast esi)"

text \<open>A burst every 0 epochs would divide by zero; the benchmark has none.\<close>

definition should_drop :: "loss_profile \<Rightarrow> u64 \<Rightarrow> u64 \<Rightarrow> audio_role \<Rightarrow> u16 \<Rightarrow> bool" where
  "should_drop profile seed epoch_id role source_symbols =
     (case profile of
        Clean \<Rightarrow> False
      | Independent ppm \<Rightarrow>
          mix64 (seed XOR word_rotl 23 epoch_id XOR word_rotl 47 (role_key role)) mod 1000000 < ucast ppm
      | SourceBurst n every_epochs \<Rightarrow>
          (if epoch_id mod every_epochs \<noteq> seed mod every_epochs then False
           else
             (case role of
                RepairSymbol _ \<Rightarrow> False
              | SourceSymbol i \<Rightarrow>
                  (let available_starts = sat_add (sat_sub source_symbols n) 1;
                       start = (if available_starts = 0 then 0
                                else ucast (mix64 (seed XOR word_rotl 31 epoch_id) mod ucast available_starts))
                   in start \<le> i \<and> i < sat_add start n))))"

section \<open>The signal\<close>

definition group_payload_samples :: "u64 \<Rightarrow> u16 \<Rightarrow> u16 \<Rightarrow> bytes" where
  "group_payload_samples epoch_id channel_start channel_count =
     concat (map (\<lambda>fr. concat (map (\<lambda>offset.
         take 3 (le_split 4 (sample_value epoch_id (of_nat fr) (channel_start + of_nat offset))))
       [0..<unat channel_count])) [0..<unat BENCH_FRAME_COUNT])"

lemma unat_16: "unat (w :: u16) < 65536"
proof -
  have "unat w < 2 ^ LENGTH(16)" by (rule unsigned_less)
  then show ?thesis by simp
qed

lemma next_channel_start:
  assumes "channel_start < (channels :: u16)"
  shows "unat (channel_start + min CHANNELS_PER_GROUP (channels - channel_start)) =
      unat channel_start + min 8 (unat channels - unat channel_start)"
proof -
  have d: "unat (channels - channel_start) = unat channels - unat channel_start"
    using assms by (simp add: unat_sub word_le_nat_alt word_less_nat_alt)
  have m: "unat (min CHANNELS_PER_GROUP (channels - channel_start)) =
      min 8 (unat channels - unat channel_start)"
    using d by (auto simp: min_def CHANNELS_PER_GROUP_def word_le_nat_alt)
  have "unat channel_start + min 8 (unat channels - unat channel_start) < 2 ^ 16"
    using assms unat_16 [of channels] by (simp add: word_less_nat_alt)
  then show ?thesis using m by (simp add: unat_word_ariths)
qed

text \<open>\<open>make_groups\<close> and \<open>group_views\<close> in one: the views differ in the flag byte 0 only.\<close>

function make_groups_from :: "u64 \<Rightarrow> u16 \<Rightarrow> u16 \<Rightarrow> audio_group list" where
  "make_groups_from epoch_id channels channel_start =
     (if channel_start < channels then
        (let channel_count = min CHANNELS_PER_GROUP (channels - channel_start)
         in \<lparr>gp_group_id = channel_start div CHANNELS_PER_GROUP, gp_channel_start = channel_start,
             gp_channel_count = channel_count, gp_payload_kind = Pcm, gp_sample_format = S24Le, gp_flags = 0,
             gp_payload = group_payload_samples epoch_id channel_start channel_count\<rparr> #
            make_groups_from epoch_id channels (channel_start + channel_count))
      else [])"
  by pat_completeness auto

termination
proof (relation "measure (\<lambda>(_, channels, start). unat channels - unat start)")
  fix epoch_id :: u64 and channels channel_start channel_count :: u16
  assume "channel_start < channels" and "channel_count = min CHANNELS_PER_GROUP (channels - channel_start)"
  then show "((epoch_id, channels, channel_start + channel_count), epoch_id, channels, channel_start)
      \<in> measure (\<lambda>(_, channels, start). unat channels - unat start)"
    by (simp add: next_channel_start word_less_nat_alt)
qed simp

declare make_groups_from.simps [simp del]

definition make_groups :: "u64 \<Rightarrow> u16 \<Rightarrow> audio_group list" where
  "make_groups epoch_id channels = make_groups_from epoch_id channels 0"

text \<open>
  The \<^verbatim>\<open>signal_energy\<close> that \<open>make_groups\<close> sums up along with the payload of a group, in the same order, and its
  sum over the groups of an epoch. An \<^verbatim>\<open>i32\<close> has the bits of the word.
\<close>

definition sample_energy :: "u32 \<Rightarrow> f64" where
  "sample_energy sample = f64_mul (f64_of_int (sint sample)) (f64_of_int (sint sample))"

definition group_samples :: "u64 \<Rightarrow> u16 \<Rightarrow> u16 \<Rightarrow> u32 list" where
  "group_samples epoch_id channel_start channel_count =
     concat (map (\<lambda>fr. map (\<lambda>offset. sample_value epoch_id (of_nat fr) (channel_start + of_nat offset))
       [0..<unat channel_count]) [0..<unat BENCH_FRAME_COUNT])"

definition signal_energy :: "u64 \<Rightarrow> audio_group \<Rightarrow> f64" where
  "signal_energy epoch_id g =
     fold (\<lambda>e acc. f64_add acc e)
       (map sample_energy (group_samples epoch_id (gp_channel_start g) (gp_channel_count g))) (Fin64 0)"

definition epoch_energy :: "u64 \<Rightarrow> audio_group list \<Rightarrow> f64" where
  "epoch_energy epoch_id groups = fold (\<lambda>e acc. f64_add acc e) (map (signal_energy epoch_id) groups) (Fin64 0)"

definition ratio :: "u64 \<Rightarrow> u64 \<Rightarrow> f64" where
  "ratio numerator denominator =
     (if denominator = 0 then Fin64 0 else f64_div (f64_of_int (uint numerator)) (f64_of_int (uint denominator)))"

section \<open>Percentiles\<close>

record percentile_row =
  pr_count :: nat
  pr_p50 :: u64
  pr_p95 :: u64
  pr_p99 :: u64
  pr_max :: u64

definition percentile :: "u64 list \<Rightarrow> nat \<Rightarrow> u64" where
  "percentile values p =
     (let rank = usize_sat_add (usize_sat_mul (length values) p) 99 div 100
      in values ! min (rank - 1) (length values - 1))"

definition percentiles :: "u64 list \<Rightarrow> percentile_row" where
  "percentiles values =
     (if values = [] then \<lparr>pr_count = 0, pr_p50 = 0, pr_p95 = 0, pr_p99 = 0, pr_max = 0\<rparr>
      else
        (let v = sort values
         in \<lparr>pr_count = length v, pr_p50 = percentile v 50, pr_p95 = percentile v 95,
             pr_p99 = percentile v 99, pr_max = List.last v\<rparr>))"

definition ns_to_us_ceil :: "u64 \<Rightarrow> u64" where
  "ns_to_us_ceil ns = sat_add ns 999 div 1000"

section \<open>The generator loses nothing\<close>

text \<open>A word that equals its own shift by a third of its width or more is zero.\<close>

lemma shift_fixpoint:
  fixes d :: u64
  assumes fp: "d = drop_bit k d" and k: "64 \<le> 3 * k"
  shows "d = 0"
proof (rule bit_eqI)
  fix i
  have step: "bit d j = bit d (k + j)" for j
    using arg_cong [OF fp, of "\<lambda>w. bit w j"] by (simp add: bit_drop_bit_eq)
  have "bit d i = bit d (k + (k + (k + i)))" using step by blast
  moreover have "\<not> bit d (k + (k + (k + i)))"
    using k bit_imp_le_length [of d] by fastforce
  ultimately show "bit d i = bit 0 i" by simp
qed

lemma xorshift_inj:
  assumes "64 \<le> 3 * k" "v XOR drop_bit k v = w XOR drop_bit k (w :: u64)"
  shows "v = w"
proof -
  have "v XOR w = drop_bit k (v XOR w)"
    using assms(2) by (simp add: bit_eq_iff bit_xor_iff bit_drop_bit_eq) blast
  then have "v XOR w = 0" by (rule shift_fixpoint [OF _ assms(1)])
  then show ?thesis by (simp add: bit_eq_iff bit_xor_iff)
qed

lemma odd_factor_inj:
  assumes "a * c = b * (c :: u64)" "c * d = 1"
  shows "a = b"
  using arg_cong [OF assms(1), of "\<lambda>x. x * d"] assms(2) by (simp add: mult.assoc)

lemma mix64_inj: "mix64 v = mix64 w \<Longrightarrow> v = w"
proof -
  have a: "(0xbf58476d1ce4e5b9 :: u64) * 0x96de1b173f119089 = 1" by simp
  have b: "(0x94d049bb133111eb :: u64) * 0x319642b2d24d8ec3 = 1" by simp
  assume "mix64 v = mix64 w"
  then show "v = w"
    unfolding mix64_def Let_def
    by (auto dest!: xorshift_inj [rotated] odd_factor_inj [OF _ a] odd_factor_inj [OF _ b])
qed

section \<open>Bursts\<close>

lemma widen_16: "unat (ucast (w :: u16) :: u64) = unat w"
  by (simp add: unsigned_ucast_eq take_bit_nat_eq_self order_less_trans [OF unat_16])

lemma burst_start:
  fixes n k :: u16
  defines "free \<equiv> sat_add (sat_sub k n) 1"
  shows "free \<noteq> 0" "unat (ucast (x mod ucast free :: u64) :: u16) + min (unat n) (unat k) \<le> unat k"
proof -
  have f: "unat free = min (unat k - unat n + 1) 65535"
    by (simp add: free_def unat_sat_add unat_sat_sub)
  then show nz: "free \<noteq> 0" by (metis Suc_eq_plus1 min_def nat.simps(3) unat_eq_zero zero_neq_numeral)
  have pos: "0 < unat free" using nz by (simp add: unat_gt_0)
  have "unat (x mod ucast free :: u64) < unat free"
    using pos by (simp add: unat_mod widen_16)
  moreover from this have "unat (ucast (x mod ucast free :: u64) :: u16) = unat (x mod ucast free :: u64)"
    using unat_16 [of free] by (simp add: unsigned_ucast_eq take_bit_nat_eq_self)
  ultimately have "unat (ucast (x mod ucast free :: u64) :: u16) < unat free" by simp
  then show "unat (ucast (x mod ucast free :: u64) :: u16) + min (unat n) (unat k) \<le> unat k"
    using f unat_16 [of k] by auto
qed

text \<open>
  A burst has the requested length. In an epoch it hits, a burst drops one run of consecutive
  source symbols, of the requested length or the whole block if that is shorter, and no repair
  symbol; in any other epoch it drops nothing.
\<close>
lemma burst_drops_exactly:
  shows "if epoch mod every = seed mod every
    then (\<exists>start. {i. i < k \<and> should_drop (SourceBurst n every) seed epoch (SourceSymbol i) k} =
            {i. start \<le> unat i \<and> unat i < start + min (unat n) (unat k)} \<and>
          start + min (unat n) (unat k) \<le> unat k) \<and>
      card {i. i < k \<and> should_drop (SourceBurst n every) seed epoch (SourceSymbol i) k} = min (unat n) (unat k) \<and>
      \<not> should_drop (SourceBurst n every) seed epoch (RepairSymbol esi) k
    else \<not> should_drop (SourceBurst n every) seed epoch role k"
proof (cases "epoch mod every = seed mod every")
  case True
  define start :: u16 where "start = ucast (mix64 (seed XOR word_rotl 31 epoch) mod
      ucast (sat_add (sat_sub k n) 1 :: u16))"
  let ?m = "min (unat n) (unat k)"
  have bound: "unat start + ?m \<le> unat k" unfolding start_def by (rule burst_start(2))
  have drop: "should_drop (SourceBurst n every) seed epoch (SourceSymbol i) k \<longleftrightarrow>
      start \<le> i \<and> i < sat_add start n" for i
    using True burst_start(1) by (simp add: should_drop_def Let_def start_def)
  let ?D = "{i. i < k \<and> should_drop (SourceBurst n every) seed epoch (SourceSymbol i) k}"
  have D: "?D = {i. unat start \<le> unat i \<and> unat i < unat start + ?m}"
    using bound unat_16 [of k]
    by (auto simp: drop word_le_nat_alt word_less_nat_alt unat_sat_add min_def split: if_splits)
  have "unat ` ?D = {unat start..<unat start + ?m}"
  proof
    show "{unat start..<unat start + ?m} \<subseteq> unat ` ?D"
    proof
      fix j assume j: "j \<in> {unat start..<unat start + ?m}"
      then have "unat (of_nat j :: u16) = j"
        using bound unat_16 [of k] by (simp add: unat_of_nat take_bit_nat_eq_self)
      then show "j \<in> unat ` ?D" using j unfolding D by (intro image_eqI [of _ _ "of_nat j"]) auto
    qed
  qed (auto simp: D)
  then have "card ?D = ?m"
    using card_image [of unat ?D] by (simp add: inj_on_def word_unat_eq_iff)
  moreover have "\<not> should_drop (SourceBurst n every) seed epoch (RepairSymbol esi) k"
    using True by (simp add: should_drop_def)
  ultimately show ?thesis using True D bound by auto
next
  case False
  then show ?thesis by (simp add: should_drop_def)
qed

section \<open>Percentiles are nearest ranks\<close>

lemma sorted_counts:
  assumes "sorted s" "i < length s"
  shows "Suc i \<le> length (filter (\<lambda>x. x \<le> s ! i) s)" "length (filter (\<lambda>x. x < s ! i) s) \<le> i"
proof -
  have "filter (\<lambda>x. x \<le> s ! i) (take (Suc i) s) = take (Suc i) s"
    using assms by (auto simp: filter_id_conv in_set_conv_nth sorted_iff_nth_mono)
  then have "Suc i = length (filter (\<lambda>x. x \<le> s ! i) (take (Suc i) s))" using assms(2) by simp
  also have "\<dots> \<le> length (filter (\<lambda>x. x \<le> s ! i) (take (Suc i) s @ drop (Suc i) s))"
    by (simp only: filter_append length_append)
  finally show "Suc i \<le> length (filter (\<lambda>x. x \<le> s ! i) s)" by simp
  have "filter (\<lambda>x. x < s ! i) (drop i s) = []"
    using assms by (auto simp: filter_empty_conv in_set_conv_nth not_less sorted_iff_nth_mono)
  then have "length (filter (\<lambda>x. x < s ! i) (take i s @ drop i s)) \<le> length (take i s)"
    by (simp only: filter_append append_Nil2 length_filter_le)
  then show "length (filter (\<lambda>x. x < s ! i) s) \<le> i" using assms(2) by simp
qed

lemma length_filter_sort: "length (filter P (sort xs)) = length (filter P xs)"
  by (metis mset_filter mset_sort size_mset)

lemma rank_bounds:
  assumes "1 \<le> (m :: nat)"
  shows "m \<le> 100 * Suc ((m + 99) div 100 - 1)" "100 * ((m + 99) div 100 - 1) < m"
proof -
  obtain q where q: "(m + 99) div 100 = Suc q" using assms by (cases "(m + 99) div 100") auto
  have "100 * ((m + 99) div 100) \<le> m + 99" "m + 99 < 100 * Suc ((m + 99) div 100)"
    using mult_div_mod_eq [of 100 "m + 99"] mod_less_divisor [of 100 "m + 99"] by simp_all
  then have "100 * Suc q \<le> m + 99" "m + 99 < 100 * Suc (Suc q)" by (simp_all only: q)
  then show "m \<le> 100 * Suc ((m + 99) div 100 - 1)" "100 * ((m + 99) div 100 - 1) < m"
    unfolding q by simp_all
qed

text \<open>
  The percentiles of the report are nearest ranks. The value reported as the \<open>p\<close>-th percentile
  occurs among the measurements, at least \<open>p\<close> percent of the measurements do not exceed it, and
  fewer than \<open>p\<close> percent are below it.
\<close>
lemma percentile_is_nearest_rank:
  assumes "values \<noteq> []" "1 \<le> p" "p \<le> 100" "length values * 100 + 99 \<le> usize_max"
  shows "percentile (sort values) p \<in> set values \<and>
    p * length values \<le> 100 * length (filter (\<lambda>x. x \<le> percentile (sort values) p) values) \<and>
    100 * length (filter (\<lambda>x. x < percentile (sort values) p) values) < p * length values"
proof -
  let ?n = "length values"
  let ?i = "(?n * p + 99) div 100 - 1"
  have n: "0 < ?n" using assms(1) by simp
  have le: "?n * p \<le> ?n * 100" using assms(3) by simp
  have i: "?i < ?n" using le n by linarith
  have v: "percentile (sort values) p = sort values ! ?i"
    using le assms(4) i by (simp add: percentile_def usize_sat_add_def usize_sat_mul_def Let_def min_def)
  have "1 \<le> ?n" using n by linarith
  from mult_le_mono [OF this assms(2)] have "1 \<le> ?n * p" by simp
  note rank = rank_bounds [OF this]
  have counts: "Suc ?i \<le> length (filter (\<lambda>x. x \<le> sort values ! ?i) values)"
      "length (filter (\<lambda>x. x < sort values ! ?i) values) \<le> ?i"
    using sorted_counts [of "sort values" ?i] i by (simp_all add: length_filter_sort)
  have "sort values ! ?i \<in> set values" using i nth_mem [of ?i "sort values"] by simp
  moreover have "100 * Suc ?i \<le> 100 * length (filter (\<lambda>x. x \<le> sort values ! ?i) values)"
    using counts(1) by (rule mult_le_mono2)
  moreover have "100 * length (filter (\<lambda>x. x < sort values ! ?i) values) \<le> 100 * ?i"
    using counts(2) by (rule mult_le_mono2)
  ultimately show ?thesis
    unfolding v mult.commute [of p] using rank by linarith
qed

lemma percentile_is_nearest_rank_witness:
  "percentile (sort [30, 10, 20]) 50 \<in> set [30, 10, 20] \<and>
   50 * 3 \<le> 100 * length (filter (\<lambda>x. x \<le> percentile (sort [30, 10, 20]) 50) [30, 10, 20])"
  using percentile_is_nearest_rank [of "[30, 10, 20]" 50] by (simp add: usize_max_def)

section \<open>The groups cover the channels\<close>

lemma length_group_payload_samples:
  "length (group_payload_samples epoch_id start n) = 720 * unat n"
proof -
  have "map length (map (\<lambda>offset. take 3 (le_split 4 (sample_value epoch_id (of_nat fr) (start + of_nat offset))))
      [0..<unat n]) = replicate (unat n) 3" for fr
    by (simp add: map_replicate_const comp_def)
  then show ?thesis
    by (simp add: group_payload_samples_def length_concat comp_def BENCH_FRAME_COUNT_def map_replicate_const
        sum_list_replicate)
qed

lemma upt_join: "a \<le> b \<Longrightarrow> b \<le> c \<Longrightarrow> [a..<b] @ [b..<c] = [a..<c]"
  by (metis le_add_diff_inverse upt_add_eq_append)

lemma groups_cover_channels:
  assumes "start \<le> channels"
  shows "concat (map (\<lambda>g. [unat (gp_channel_start g)..<unat (gp_channel_start g) + unat (gp_channel_count g)])
      (make_groups_from epoch_id channels start)) = [unat start..<unat channels]"
  using assms
proof (induction epoch_id channels start rule: make_groups_from.induct)
  case (1 e channels start)
  let ?c = "min CHANNELS_PER_GROUP (channels - start)"
  show ?case
  proof (cases "start < channels")
    case True
    note nxt = next_channel_start [OF True]
    have c: "unat ?c = min 8 (unat channels - unat start)"
      using True by (auto simp: min_def CHANNELS_PER_GROUP_def word_le_nat_alt unat_sub word_less_nat_alt)
    have le: "start + ?c \<le> channels"
      using True by (simp add: word_le_nat_alt nxt word_less_nat_alt)
    have "unat start + min 8 (unat channels - unat start) \<le> unat channels"
      using True by (simp add: word_less_nat_alt)
    then show ?thesis
      using True "1.IH" [OF True refl le] upt_join [of "unat start" "unat start + unat ?c" "unat channels"]
      by (subst make_groups_from.simps) (simp add: Let_def c nxt)
  next
    case False
    then show ?thesis using 1 by (subst make_groups_from.simps) simp
  qed
qed

lemma groups_are_wide:
  "g \<in> set (make_groups_from epoch_id channels start) \<Longrightarrow>
   length (gp_payload g) = 720 * unat (gp_channel_count g)"
proof (induction epoch_id channels start rule: make_groups_from.induct)
  case (1 e channels start)
  then show ?case
    by (subst (asm) (2) make_groups_from.simps)
      (auto simp: Let_def length_group_payload_samples split: if_splits)
qed

end
