(* ===== verification/Recovery_Baseline.thy ===== *)
theory Recovery_Baseline
  imports Loss_Model Audio_Decoder
begin

text \<open>
  The simulation of \<^verbatim>\<open>raptorq-datagram-fec/examples/audio_recovery_baseline.rs\<close>: \<open>run_case\<close> sends epochs through
  the encoder, a deterministic network and the decoder, and classifies each of them. The wall clock
  is a parameter: \<open>ck_encode\<close> and \<open>ck_decode\<close> give the measured nanoseconds of each call, by seed, epoch
  and position of the arrival. So is \<open>log10\<close>, of which the standard library leaves the precision open.
\<close>

section \<open>State\<close>

record clock =
  ck_encode :: "u64 \<Rightarrow> u64 \<Rightarrow> u64"
  ck_decode :: "u64 \<Rightarrow> u64 \<Rightarrow> nat \<Rightarrow> u64"

record bench_candidate =
  cd_name :: string
  cd_repair_percent :: u32

datatype bench_error = BenchAudio audio_fec_error | NonExactShard u64 u16 | GroupIndexPanic

text \<open>The variables of the loop over the arrivals of one epoch.\<close>

record 'd arrival_state =
  as_decoder :: "'d audio_decoder"
  as_delivered :: "u16 set"
  as_arrival_done :: "u64 option"
  as_render_done :: "u64 option"
  as_available_us :: u64
  as_elapsed_ns :: u64
  as_recovered :: u64
  as_lost_recovered :: u64
  as_peak :: nat

text \<open>The variables of \<open>run_case\<close>.\<close>

record 'd bench =
  bn_encoder :: audio_encoder
  bn_decoder :: "'d audio_decoder"
  bn_exact :: u64
  bn_loss_recovered :: u64
  bn_recovered_fragments :: u64
  bn_lost_recovered :: u64
  bn_late_exact :: u64
  bn_unrecovered :: u64
  bn_observed_exact :: u64
  bn_observed_late :: u64
  bn_sent :: u64
  bn_source_datagrams :: u64
  bn_repair_datagrams :: u64
  bn_dropped :: u64
  bn_payload_bytes :: u64
  bn_source_bytes :: u64
  bn_repair_bytes :: u64
  bn_total_energy :: f64
  bn_error_energy :: f64
  bn_non_exact_samples :: u64
  bn_missing_run :: u64
  bn_max_missing_run :: u64
  bn_encode_elapsed :: "u64 list"
  bn_decode_elapsed :: "u64 list"
  bn_arrival_ready :: "u64 list"
  bn_render_ready :: "u64 list"
  bn_peak :: nat

section \<open>The network\<close>

definition count_datagram :: "audio_datagram \<Rightarrow> 'd bench \<Rightarrow> 'd bench" where
  "count_datagram d s =
     (case adg_role d of
        SourceSymbol _ \<Rightarrow>
          s\<lparr>bn_source_datagrams := sat_add (bn_source_datagrams s) 1,
            bn_source_bytes := sat_add (bn_source_bytes s) (of_nat (length (adg_payload d)))\<rparr>
      | RepairSymbol _ \<Rightarrow>
          s\<lparr>bn_repair_datagrams := sat_add (bn_repair_datagrams s) 1,
            bn_repair_bytes := sat_add (bn_repair_bytes s) (of_nat (length (adg_payload d)))\<rparr>)"

definition arrival_time :: "u64 \<Rightarrow> u64 \<Rightarrow> nat \<Rightarrow> u64" where
  "arrival_time seed absolute wire_index =
     (let jitter = mix64 (seed XOR word_rotl 17 absolute XOR word_rotl 41 (of_nat wire_index)) mod (JITTER_US + 1)
      in sat_add (sat_add (sat_add EPOCH_US BASE_ONE_WAY_US) (sat_mul (of_nat wire_index) PACING_US)) jitter)"

text \<open>The loop over the wire: arrivals, number of drops and dropped source symbols.\<close>

fun network ::
    "loss_profile \<Rightarrow> u64 \<Rightarrow> u64 \<Rightarrow> u64 \<Rightarrow> u16 \<Rightarrow> (nat \<times> audio_datagram) list \<Rightarrow>
     (u64 \<times> nat) list \<times> u64 \<times> u16 set \<Rightarrow> (u64 \<times> nat) list \<times> u64 \<times> u16 set" where
  "network profile seed epoch_id absolute k [] acc = acc"
| "network profile seed epoch_id absolute k ((i, d) # ds) (arrivals, dropped, lost) =
     (if should_drop profile seed epoch_id (adg_role d) k then
        network profile seed epoch_id absolute k ds
          (arrivals, sat_add dropped 1,
           (case adg_role d of SourceSymbol j \<Rightarrow> insert j lost | RepairSymbol _ \<Rightarrow> lost))
      else
        network profile seed epoch_id absolute k ds
          (arrivals @ [(arrival_time seed absolute i, i)], dropped, lost))"

section \<open>Receiving an epoch\<close>

definition slice_get :: "bytes \<Rightarrow> nat \<Rightarrow> nat \<Rightarrow> bytes option" where
  "slice_get bs i j = (if i \<le> j \<and> j \<le> length bs then Some (sub_slice bs i j) else None)"

definition check_shard ::
    "audio_group list \<Rightarrow> u64 \<Rightarrow> u16 set \<Rightarrow> decoded_shard \<Rightarrow> 'd arrival_state \<Rightarrow>
     (bench_error, 'd arrival_state) result" where
  "check_shard groups absolute lost shard s =
     (let h = dsh_header shard; index = unat (sh_group_index h)
      in if length groups \<le> index then Inl GroupIndexPanic
         else
           (let start = unat (sh_payload_offset h);
                fin = usize_sat_add start (unat (sh_payload_len h))
            in if slice_get (gp_payload (groups ! index)) start fin \<noteq> Some (dsh_payload shard) then
                 Inl (NonExactShard absolute (sh_source_index h))
               else if sh_source_index h \<notin> as_delivered s \<and> dsh_recovery shard = Recovered then
                 Inr (s\<lparr>as_delivered := insert (sh_source_index h) (as_delivered s),
                        as_recovered := sat_add (as_recovered s) 1,
                        as_lost_recovered :=
                          (if sh_source_index h \<in> lost then sat_add (as_lost_recovered s) 1
                           else as_lost_recovered s)\<rparr>)
               else Inr (s\<lparr>as_delivered := insert (sh_source_index h) (as_delivered s)\<rparr>)))"

fun check_shards ::
    "audio_group list \<Rightarrow> u64 \<Rightarrow> u16 set \<Rightarrow> decoded_shard list \<Rightarrow> 'd arrival_state \<Rightarrow>
     (bench_error, 'd arrival_state) result" where
  "check_shards groups absolute lost [] s = Inr s"
| "check_shards groups absolute lost (shard # shards) s =
     rbind (check_shard groups absolute lost shard s) (check_shards groups absolute lost shards)"

definition finish_arrival ::
    "u16 \<Rightarrow> u64 \<Rightarrow> u64 \<Rightarrow> u64 \<Rightarrow> 'd arrival_state \<Rightarrow> 'd arrival_state" where
  "finish_arrival k arrival_us started ns s =
     (let s1 = s\<lparr>as_elapsed_ns := sat_add (as_elapsed_ns s) ns,
                 as_available_us := sat_add started (ns_to_us_ceil ns),
                 as_peak := max (as_peak s) (audio_in_flight_block_count (as_decoder s))\<rparr>
      in if as_render_done s1 = None \<and> card (as_delivered s1) = unat k then
           s1\<lparr>as_arrival_done := Some arrival_us, as_render_done := Some (as_available_us s1)\<rparr>
         else s1)"

definition receive_arrival ::
    "crc_fun \<Rightarrow> ('e, 'd) raptorq \<Rightarrow> u64 \<Rightarrow> u64 \<Rightarrow> audio_group list \<Rightarrow> u64 \<Rightarrow> u16 set \<Rightarrow> encoded_epoch \<Rightarrow>
     u64 \<times> nat \<Rightarrow> 'd arrival_state \<Rightarrow> (bench_error, 'd arrival_state) result" where
  "receive_arrival crc rq encode_ns ns groups absolute lost encoded arrival s =
     (let observed = sat_add (fst arrival) (ns_to_us_ceil encode_ns);
          started = max observed (as_available_us s)
      in case audio_push_datagram crc rq (as_decoder s) (adg_payload (ee_datagrams encoded ! snd arrival)) of
           (d, Inl err) \<Rightarrow> Inl (BenchAudio err)
         | (d, Inr shards) \<Rightarrow>
             rbind (check_shards groups absolute lost shards (s\<lparr>as_decoder := d\<rparr>)) (\<lambda>s1.
               Inr (finish_arrival (ee_source_symbols encoded) (fst arrival) started ns s1)))"

fun receive_arrivals ::
    "crc_fun \<Rightarrow> ('e, 'd) raptorq \<Rightarrow> u64 \<Rightarrow> (nat \<Rightarrow> u64) \<Rightarrow> audio_group list \<Rightarrow> u64 \<Rightarrow> u16 set \<Rightarrow> encoded_epoch \<Rightarrow>
     nat \<Rightarrow> (u64 \<times> nat) list \<Rightarrow> 'd arrival_state \<Rightarrow> (bench_error, 'd arrival_state) result" where
  "receive_arrivals crc rq encode_ns ns groups absolute lost encoded i [] s = Inr s"
| "receive_arrivals crc rq encode_ns ns groups absolute lost encoded i (a # as) s =
     rbind (receive_arrival crc rq encode_ns (ns i) groups absolute lost encoded a s)
       (receive_arrivals crc rq encode_ns ns groups absolute lost encoded (Suc i) as)"

section \<open>Classifying an epoch\<close>

definition miss_epoch :: "u16 \<Rightarrow> f64 \<Rightarrow> 'd bench \<Rightarrow> 'd bench" where
  "miss_epoch channels energy s =
     (let run = sat_add (bn_missing_run s) 1
      in s\<lparr>bn_missing_run := run, bn_max_missing_run := max (bn_max_missing_run s) run,
           bn_error_energy := f64_add (bn_error_energy s) energy,
           bn_non_exact_samples :=
             sat_add (bn_non_exact_samples s) (ucast BENCH_FRAME_COUNT * ucast channels)\<rparr>)"

definition classify_epoch :: "u64 \<Rightarrow> u16 \<Rightarrow> f64 \<Rightarrow> 'd arrival_state \<Rightarrow> 'd bench \<Rightarrow> 'd bench" where
  "classify_epoch deadline_ms channels energy a s =
     (let deadline_us = sat_mul deadline_ms 1000
      in case as_arrival_done a of
           None \<Rightarrow> miss_epoch channels energy (s\<lparr>bn_unrecovered := sat_add (bn_unrecovered s) 1\<rparr>)
         | Some completed \<Rightarrow>
             if completed \<le> deadline_us then
               (let rendered = (case as_render_done a of Some r \<Rightarrow> r | None \<Rightarrow> completed);
                    s1 = s\<lparr>bn_exact := sat_add (bn_exact s) 1,
                           bn_recovered_fragments := sat_add (bn_recovered_fragments s) (as_recovered a),
                           bn_lost_recovered := sat_add (bn_lost_recovered s) (as_lost_recovered a),
                           bn_loss_recovered :=
                             (if as_lost_recovered a > 0 then sat_add (bn_loss_recovered s) 1
                              else bn_loss_recovered s)\<rparr>;
                    s2 = (if rendered \<le> deadline_us
                          then s1\<lparr>bn_observed_exact := sat_add (bn_observed_exact s1) 1\<rparr>
                          else s1\<lparr>bn_observed_late := sat_add (bn_observed_late s1) 1\<rparr>)
                in s2\<lparr>bn_arrival_ready := bn_arrival_ready s2 @ [completed],
                      bn_render_ready := bn_render_ready s2 @ [rendered], bn_missing_run := 0\<rparr>)
             else
               miss_epoch channels energy (s\<lparr>bn_late_exact := sat_add (bn_late_exact s) 1,
                 bn_observed_late := sat_add (bn_observed_late s) 1\<rparr>))"

section \<open>Running a case\<close>

definition bench_epoch :: "u64 \<Rightarrow> audio_group list \<Rightarrow> audio_epoch" where
  "bench_epoch absolute groups =
     \<lparr>ep_session_id = 0x415544494f42454e, ep_config_generation = 1, ep_epoch_id = absolute,
      ep_pts_samples = sat_mul absolute (ucast BENCH_FRAME_COUNT), ep_sample_rate = BENCH_SAMPLE_RATE,
      ep_frame_count = BENCH_FRAME_COUNT, ep_groups = groups\<rparr>"

definition arrivals_start :: "'d bench \<Rightarrow> 'd arrival_state" where
  "arrivals_start s =
     \<lparr>as_decoder = bn_decoder s, as_delivered = {}, as_arrival_done = None, as_render_done = None,
      as_available_us = 0, as_elapsed_ns = 0, as_recovered = 0, as_lost_recovered = 0, as_peak = bn_peak s\<rparr>"

definition close_arrivals :: "u32 \<Rightarrow> 'd arrival_state \<Rightarrow> 'd bench \<Rightarrow> 'd bench" where
  "close_arrivals block_id a s =
     s\<lparr>bn_decode_elapsed := bn_decode_elapsed s @ [as_elapsed_ns a], bn_peak := as_peak a,
       bn_decoder := (if as_render_done a = None then audio_expire_block block_id (as_decoder a)
                      else as_decoder a)\<rparr>"

definition run_epoch ::
    "crc_fun \<Rightarrow> ('e, 'd) raptorq \<Rightarrow> clock \<Rightarrow> loss_profile \<Rightarrow> u16 \<Rightarrow> u64 \<Rightarrow> u64 \<Rightarrow> u64 \<Rightarrow> u64 \<Rightarrow> 'd bench \<Rightarrow>
     (bench_error, 'd bench) result" where
  "run_epoch crc rq ck profile channels epochs_per_seed deadline_ms seed epoch_id s =
     (let absolute = sat_add (sat_mul seed epochs_per_seed) epoch_id;
          groups = make_groups absolute channels;
          energy = epoch_energy absolute groups;
          s1 = s\<lparr>bn_total_energy := f64_add (bn_total_energy s) energy,
                 bn_payload_bytes := sat_add (bn_payload_bytes s)
                   (of_nat (sum_list (map (length \<circ> gp_payload) groups)))\<rparr>
      in case encode_epoch crc rq (bn_encoder s1) (bench_epoch absolute groups) of
           (enc, Inl err) \<Rightarrow> Inl (BenchAudio err)
         | (enc, Inr encoded) \<Rightarrow>
             (let ns = ck_encode ck seed epoch_id;
                  s2 = fold count_datagram (ee_datagrams encoded)
                    (s1\<lparr>bn_encoder := enc, bn_encode_elapsed := bn_encode_elapsed s1 @ [ns],
                        bn_sent := sat_add (bn_sent s1) (of_nat (length (ee_datagrams encoded)))\<rparr>);
                  (arrivals, dropped, lost) = network profile seed epoch_id absolute
                    (ee_source_symbols encoded) (enumerate 0 (ee_datagrams encoded)) ([], bn_dropped s2, {})
              in rbind (receive_arrivals crc rq ns (ck_decode ck seed epoch_id) groups absolute lost encoded 0
                         (sort arrivals) (arrivals_start s2)) (\<lambda>a.
                   Inr (classify_epoch deadline_ms channels energy a
                     (close_arrivals (ee_block_id encoded) a (s2\<lparr>bn_dropped := dropped\<rparr>))))))"

fun run_epochs ::
    "crc_fun \<Rightarrow> ('e, 'd) raptorq \<Rightarrow> clock \<Rightarrow> loss_profile \<Rightarrow> u16 \<Rightarrow> u64 \<Rightarrow> u64 \<Rightarrow> u64 \<Rightarrow> u64 list \<Rightarrow> 'd bench \<Rightarrow>
     (bench_error, 'd bench) result" where
  "run_epochs crc rq ck profile channels epochs_per_seed deadline_ms seed [] s = Inr s"
| "run_epochs crc rq ck profile channels epochs_per_seed deadline_ms seed (epoch_id # ids) s =
     rbind (run_epoch crc rq ck profile channels epochs_per_seed deadline_ms seed epoch_id s)
       (run_epochs crc rq ck profile channels epochs_per_seed deadline_ms seed ids)"

definition run_seed ::
    "crc_fun \<Rightarrow> ('e, 'd) raptorq \<Rightarrow> clock \<Rightarrow> loss_profile \<Rightarrow> u16 \<Rightarrow> u64 \<Rightarrow> u64 \<Rightarrow> u64 \<Rightarrow> 'd bench \<Rightarrow>
     (bench_error, 'd bench) result" where
  "run_seed crc rq ck profile channels epochs_per_seed deadline_ms seed s =
     run_epochs crc rq ck profile channels epochs_per_seed deadline_ms seed
       (map of_nat [0..<unat epochs_per_seed]) (s\<lparr>bn_missing_run := 0\<rparr>)"

fun run_seeds ::
    "crc_fun \<Rightarrow> ('e, 'd) raptorq \<Rightarrow> clock \<Rightarrow> loss_profile \<Rightarrow> u16 \<Rightarrow> u64 \<Rightarrow> u64 \<Rightarrow> u64 list \<Rightarrow> 'd bench \<Rightarrow>
     (bench_error, 'd bench) result" where
  "run_seeds crc rq ck profile channels epochs_per_seed deadline_ms [] s = Inr s"
| "run_seeds crc rq ck profile channels epochs_per_seed deadline_ms (seed # seeds) s =
     rbind (run_seed crc rq ck profile channels epochs_per_seed deadline_ms seed s)
       (run_seeds crc rq ck profile channels epochs_per_seed deadline_ms seeds)"

definition bench_start :: "audio_config \<Rightarrow> 'd bench" where
  "bench_start config =
     \<lparr>bn_encoder = audio_encoder_new config, bn_decoder = with_in_flight_limit 128 audio_decoder_new,
      bn_exact = 0, bn_loss_recovered = 0, bn_recovered_fragments = 0, bn_lost_recovered = 0, bn_late_exact = 0,
      bn_unrecovered = 0, bn_observed_exact = 0, bn_observed_late = 0, bn_sent = 0, bn_source_datagrams = 0,
      bn_repair_datagrams = 0, bn_dropped = 0, bn_payload_bytes = 0, bn_source_bytes = 0, bn_repair_bytes = 0,
      bn_total_energy = Fin64 0, bn_error_energy = Fin64 0, bn_non_exact_samples = 0, bn_missing_run = 0, bn_max_missing_run = 0, bn_encode_elapsed = [],
      bn_decode_elapsed = [], bn_arrival_ready = [], bn_render_ready = [], bn_peak = 0\<rparr>"

record baseline_row =
  br_candidate :: string
  br_loss_profile :: string
  br_seeds :: u64
  br_epochs :: u64
  br_source_symbols :: u16
  br_repair_symbols :: u32
  br_exact :: u64
  br_loss_recovered :: u64
  br_recovered_fragments :: u64
  br_lost_recovered :: u64
  br_late_exact :: u64
  br_unrecovered :: u64
  br_deadline_misses :: u64
  br_observed_exact :: u64
  br_observed_late :: u64
  br_observed_misses :: u64
  br_max_missing_epochs :: u64
  br_missing_us :: u64
  br_max_missing_us :: u64
  br_non_exact_samples :: u64
  br_silence_snr_db :: "f64 option"
  br_sent :: u64
  br_source_datagrams :: u64
  br_repair_datagrams :: u64
  br_received :: u64
  br_dropped :: u64
  br_payload_bytes :: u64
  br_source_bytes :: u64
  br_repair_bytes :: u64
  br_application_bytes :: u64
  br_wire_bytes :: u64
  br_repair_count_ratio :: f64
  br_repair_byte_ratio :: f64
  br_application_overhead :: f64
  br_wire_overhead :: f64
  br_arrival_ready :: percentile_row
  br_render_ready :: percentile_row
  br_encode_ns :: percentile_row
  br_decode_ns :: percentile_row
  br_peak :: nat

definition bench_report ::
    "(f64 \<Rightarrow> f64) \<Rightarrow> bench_candidate \<Rightarrow> loss_profile \<Rightarrow> u64 \<Rightarrow> u16 \<Rightarrow> u32 \<Rightarrow> 'd bench \<Rightarrow> baseline_row" where
  "bench_report log10 cd profile epochs_per_seed k repair s =
     (let epochs = sat_mul epochs_per_seed (profile_seeds profile);
          misses = sat_sub epochs (bn_exact s);
          application = sat_add (bn_source_bytes s) (bn_repair_bytes s);
          wire = sat_add application (sat_mul (bn_sent s) IPV6_UDP_HEADER_BYTES)
      in \<lparr>br_candidate = cd_name cd, br_loss_profile = loss_profile_name profile, br_seeds = profile_seeds profile,
          br_epochs = epochs, br_source_symbols = k, br_repair_symbols = repair, br_exact = bn_exact s,
          br_loss_recovered = bn_loss_recovered s, br_recovered_fragments = bn_recovered_fragments s,
          br_lost_recovered = bn_lost_recovered s, br_late_exact = bn_late_exact s,
          br_unrecovered = bn_unrecovered s, br_deadline_misses = misses, br_observed_exact = bn_observed_exact s,
          br_observed_late = bn_observed_late s, br_observed_misses = sat_sub epochs (bn_observed_exact s),
          br_max_missing_epochs = bn_max_missing_run s, br_missing_us = sat_mul misses EPOCH_US,
          br_max_missing_us = sat_mul (bn_max_missing_run s) EPOCH_US,
          br_non_exact_samples = bn_non_exact_samples s,
          br_silence_snr_db =
            (if f64_positive (bn_error_energy s)
             then Some (f64_mul (Fin64 10) (log10 (f64_div (bn_total_energy s) (bn_error_energy s)))) else None),
          br_sent = bn_sent s,
          br_source_datagrams = bn_source_datagrams s, br_repair_datagrams = bn_repair_datagrams s,
          br_received = sat_sub (bn_sent s) (bn_dropped s), br_dropped = bn_dropped s,
          br_payload_bytes = bn_payload_bytes s, br_source_bytes = bn_source_bytes s,
          br_repair_bytes = bn_repair_bytes s, br_application_bytes = application,
          br_wire_bytes = wire, br_repair_count_ratio = ratio (bn_repair_datagrams s) (bn_source_datagrams s),
          br_repair_byte_ratio = ratio (bn_repair_bytes s) (bn_source_bytes s),
          br_application_overhead = ratio application (bn_payload_bytes s),
          br_wire_overhead = ratio wire (bn_payload_bytes s),
          br_arrival_ready = percentiles (bn_arrival_ready s), br_render_ready = percentiles (bn_render_ready s),
          br_encode_ns = percentiles (bn_encode_elapsed s), br_decode_ns = percentiles (bn_decode_elapsed s),
          br_peak = bn_peak s\<rparr>)"

definition run_case ::
    "(f64 \<Rightarrow> f64) \<Rightarrow> crc_fun \<Rightarrow> ('e, 'd) raptorq \<Rightarrow> clock \<Rightarrow> bench_candidate \<Rightarrow> loss_profile \<Rightarrow> u16 \<Rightarrow> u64 \<Rightarrow> u64 \<Rightarrow>
     (bench_error, baseline_row) result" where
  "run_case log10 crc rq ck cd profile channels epochs_per_seed deadline_ms =
     rbind (map_err BenchAudio (geometry_for_groups audio_config_default (make_groups 0 channels))) (\<lambda>geo.
       let k = ag_source_symbols geo;
           repair = (if cd_repair_percent cd = 0 then 0
                     else max (of_nat (div_ceil (unat (sat_mul (ucast k) (cd_repair_percent cd))) 100)) 1)
       in rbind (run_seeds crc rq ck profile channels epochs_per_seed deadline_ms
                  (map of_nat [0..<unat (profile_seeds profile)])
                  (bench_start (audio_config_default\<lparr>ac_repair_symbols := repair\<rparr>))) (\<lambda>s.
            Inr (bench_report log10 cd profile epochs_per_seed k repair s)))"

text \<open>The rows of \<open>main\<close>.\<close>

definition bench_candidates :: "bench_candidate list" where
  "bench_candidates =
     [\<lparr>cd_name = ''raptorq_systematic_no_repair'', cd_repair_percent = 0\<rparr>,
      \<lparr>cd_name = ''source_first_raptorq_20pct'', cd_repair_percent = 20\<rparr>]"

definition bench_profiles :: "loss_profile list" where
  "bench_profiles =
     [Clean, Independent 1000, Independent 5000, Independent 10000, Independent 20000, Independent 50000,
      SourceBurst 2 10, SourceBurst 4 10, SourceBurst 8 10]"

fun run_cases ::
    "(f64 \<Rightarrow> f64) \<Rightarrow> crc_fun \<Rightarrow> ('e, 'd) raptorq \<Rightarrow> (bench_candidate \<Rightarrow> loss_profile \<Rightarrow> clock) \<Rightarrow> u16 \<Rightarrow> u64 \<Rightarrow> u64 \<Rightarrow>
     (bench_candidate \<times> loss_profile) list \<Rightarrow> (bench_error, baseline_row list) result" where
  "run_cases log10 crc rq ck channels epochs_per_seed deadline_ms [] = Inr []"
| "run_cases log10 crc rq ck channels epochs_per_seed deadline_ms ((cd, profile) # cases) =
     rbind (run_case log10 crc rq (ck cd profile) cd profile channels epochs_per_seed deadline_ms) (\<lambda>row.
     rbind (run_cases log10 crc rq ck channels epochs_per_seed deadline_ms cases) (\<lambda>rows. Inr (row # rows)))"

datatype main_error = BadChannels | BadEpochsOrDeadline | BenchFailed bench_error

definition bench_rows ::
    "(f64 \<Rightarrow> f64) \<Rightarrow> crc_fun \<Rightarrow> ('e, 'd) raptorq \<Rightarrow> (bench_candidate \<Rightarrow> loss_profile \<Rightarrow> clock) \<Rightarrow> u16 \<Rightarrow> u64 \<Rightarrow> u64 \<Rightarrow>
     (main_error, baseline_row list) result" where
  "bench_rows log10 crc rq ck channels epochs_per_seed deadline_ms =
     (if channels = 0 \<or> channels > 128 then Inl BadChannels
      else if epochs_per_seed = 0 \<or> deadline_ms = 0 then Inl BadEpochsOrDeadline
      else map_err BenchFailed (run_cases log10 crc rq ck channels epochs_per_seed deadline_ms
             (concat (map (\<lambda>cd. map (Pair cd) bench_profiles) bench_candidates))))"

section \<open>The clock does not touch the trace\<close>

text \<open>Two results that agree up to a relation on the values.\<close>

lemma rel_rbind:
  assumes "rel_sum (=) R r r'" "\<And>a b. R a b \<Longrightarrow> rel_sum (=) S (f a) (g b)"
  shows "rel_sum (=) S (rbind r f) (rbind r' g)"
  using assms by (cases r; cases r') auto

definition same_arrivals :: "'d arrival_state \<Rightarrow> 'd arrival_state \<Rightarrow> bool" where
  "same_arrivals s t \<longleftrightarrow>
     as_decoder s = as_decoder t \<and> as_delivered s = as_delivered t \<and> as_arrival_done s = as_arrival_done t \<and>
     (as_render_done s = None \<longleftrightarrow> as_render_done t = None) \<and> as_recovered s = as_recovered t \<and>
     as_lost_recovered s = as_lost_recovered t \<and> as_peak s = as_peak t"

lemma check_shard_same:
  "same_arrivals s t \<Longrightarrow>
   rel_sum (=) same_arrivals (check_shard groups absolute lost shard s) (check_shard groups absolute lost shard t)"
  by (auto simp: check_shard_def same_arrivals_def Let_def)

lemma check_shards_same:
  "same_arrivals s t \<Longrightarrow>
   rel_sum (=) same_arrivals (check_shards groups absolute lost shards s) (check_shards groups absolute lost shards t)"
  by (induction shards arbitrary: s t) (auto intro!: rel_rbind check_shard_same)

lemma receive_arrival_same:
  assumes "same_arrivals s t"
  shows "rel_sum (=) same_arrivals (receive_arrival crc rq n1 m1 groups absolute lost encoded a s)
    (receive_arrival crc rq n2 m2 groups absolute lost encoded a t)"
proof -
  have dec: "as_decoder t = as_decoder s" using assms by (simp add: same_arrivals_def)
  show ?thesis
    unfolding receive_arrival_def Let_def dec using assms
    by (auto simp: same_arrivals_def finish_arrival_def Let_def intro!: rel_rbind check_shards_same
        split: prod.splits sum.splits)
qed

lemma receive_arrivals_same:
  "same_arrivals s t \<Longrightarrow>
   rel_sum (=) same_arrivals (receive_arrivals crc rq n1 m1 groups absolute lost encoded i as s)
     (receive_arrivals crc rq n2 m2 groups absolute lost encoded i as t)"
  by (induction as arbitrary: i s t) (auto intro!: rel_rbind receive_arrival_same)

definition untimed :: "'d bench \<Rightarrow> 'd bench" where
  "untimed s =
     s\<lparr>bn_observed_exact := 0, bn_observed_late := 0, bn_encode_elapsed := [], bn_decode_elapsed := [],
       bn_render_ready := []\<rparr>"

definition same_bench :: "'d bench \<Rightarrow> 'd bench \<Rightarrow> bool" where
  "same_bench s t \<longleftrightarrow> untimed s = untimed t"

lemma same_bench_iff:
  "same_bench s t \<longleftrightarrow>
     bn_encoder s = bn_encoder t \<and> bn_decoder s = bn_decoder t \<and> bn_exact s = bn_exact t \<and>
     bn_loss_recovered s = bn_loss_recovered t \<and> bn_recovered_fragments s = bn_recovered_fragments t \<and>
     bn_lost_recovered s = bn_lost_recovered t \<and> bn_late_exact s = bn_late_exact t \<and>
     bn_unrecovered s = bn_unrecovered t \<and> bn_sent s = bn_sent t \<and>
     bn_source_datagrams s = bn_source_datagrams t \<and> bn_repair_datagrams s = bn_repair_datagrams t \<and>
     bn_dropped s = bn_dropped t \<and> bn_payload_bytes s = bn_payload_bytes t \<and>
     bn_source_bytes s = bn_source_bytes t \<and> bn_repair_bytes s = bn_repair_bytes t \<and>
     bn_total_energy s = bn_total_energy t \<and> bn_error_energy s = bn_error_energy t \<and>
     bn_non_exact_samples s = bn_non_exact_samples t \<and> bn_missing_run s = bn_missing_run t \<and>
     bn_max_missing_run s = bn_max_missing_run t \<and> bn_arrival_ready s = bn_arrival_ready t \<and>
     bn_peak s = bn_peak t"
  by (cases s; cases t) (auto simp: same_bench_def untimed_def)

lemma count_datagram_same: "same_bench s t \<Longrightarrow> same_bench (count_datagram d s) (count_datagram d t)"
  by (simp add: same_bench_iff count_datagram_def split: audio_role.split)

lemma count_datagrams_same: "same_bench s t \<Longrightarrow> same_bench (fold count_datagram ds s) (fold count_datagram ds t)"
  by (induction ds arbitrary: s t) (simp_all add: count_datagram_same)

lemma miss_epoch_same: "same_bench s t \<Longrightarrow> same_bench (miss_epoch channels energy s) (miss_epoch channels energy t)"
  by (simp add: same_bench_iff miss_epoch_def Let_def)

lemma classify_epoch_same:
  assumes "same_arrivals a b" "same_bench s t"
  shows "same_bench (classify_epoch deadline_ms channels energy a s) (classify_epoch deadline_ms channels energy b t)"
proof (cases "as_arrival_done a")
  case None
  then have "as_arrival_done b = None" using assms(1) by (simp add: same_arrivals_def)
  then show ?thesis
    using None assms(2) by (simp add: classify_epoch_def Let_def same_bench_iff miss_epoch_def)
next
  case (Some c)
  then have b: "as_arrival_done b = Some c" "as_recovered b = as_recovered a" "as_lost_recovered b = as_lost_recovered a"
    using assms(1) by (simp_all add: same_arrivals_def)
  show ?thesis
  proof (cases "c \<le> sat_mul deadline_ms 1000")
    case True
    then show ?thesis
      using Some b assms(2) by (simp add: classify_epoch_def Let_def same_bench_iff)
  next
    case False
    then show ?thesis
      using Some b assms(2) by (simp add: classify_epoch_def Let_def same_bench_iff miss_epoch_def)
  qed
qed

lemma close_arrivals_same:
  "same_arrivals a b \<Longrightarrow> same_bench s t \<Longrightarrow> same_bench (close_arrivals c a s) (close_arrivals c b t)"
  by (simp add: same_bench_iff same_arrivals_def close_arrivals_def)

lemma run_epoch_same:
  assumes "same_bench s t"
  shows "rel_sum (=) same_bench
    (run_epoch crc rq ck1 profile channels n deadline_ms seed epoch_id s)
    (run_epoch crc rq ck2 profile channels n deadline_ms seed epoch_id t)"
proof -
  define absolute where "absolute = sat_add (sat_mul seed n) epoch_id"
  define groups where "groups = make_groups absolute channels"
  define pay where "pay u = u\<lparr>bn_total_energy := f64_add (bn_total_energy u) (epoch_energy absolute groups),
      bn_payload_bytes := sat_add (bn_payload_bytes u)
      (of_nat (sum_list (map (length \<circ> gp_payload) groups)))\<rparr>" for u :: "'a bench"
  have enc_eq: "bn_encoder (pay t) = bn_encoder (pay s)" using assms by (simp add: pay_def same_bench_iff)
  obtain enc r where enc: "encode_epoch crc rq (bn_encoder (pay s)) (bench_epoch absolute groups) = (enc, r)"
    by fastforce
  note run = run_epoch_def Let_def absolute_def [symmetric] groups_def [symmetric] pay_def [symmetric] enc_eq enc
  show ?thesis
  proof (cases r)
    case (Inl err)
    then show ?thesis unfolding run by simp
  next
    case (Inr encoded)
    let ?k = "ee_source_symbols encoded" and ?ds = "ee_datagrams encoded"
    define start where "start c u = fold count_datagram ?ds (u\<lparr>bn_encoder := enc,
        bn_encode_elapsed := bn_encode_elapsed u @ [ck_encode c seed epoch_id],
        bn_sent := sat_add (bn_sent u) (of_nat (length ?ds))\<rparr>)" for c :: clock and u :: "'a bench"
    have st: "same_bench (start ck1 (pay s)) (start ck2 (pay t))"
      unfolding start_def using assms by (intro count_datagrams_same) (simp add: same_bench_iff pay_def)
    then have dr: "bn_dropped (start ck2 (pay t)) = bn_dropped (start ck1 (pay s))" by (simp add: same_bench_iff)
    obtain as dropped lost where net: "network profile seed epoch_id absolute ?k (enumerate 0 ?ds)
        ([], bn_dropped (start ck1 (pay s)), {}) = (as, dropped, lost)"
      by (metis prod_cases3)
    have "same_arrivals (arrivals_start (start ck1 (pay s))) (arrivals_start (start ck2 (pay t)))"
      using st by (simp add: same_arrivals_def arrivals_start_def same_bench_iff)
    note rec = receive_arrivals_same [OF this]
    have st': "same_bench ((start ck1 (pay s))\<lparr>bn_dropped := dropped\<rparr>) ((start ck2 (pay t))\<lparr>bn_dropped := dropped\<rparr>)"
      using st by (simp add: same_bench_iff)
    show ?thesis
      unfolding run Inr prod.case sum.case start_def [symmetric] dr net
      by (rule rel_rbind [OF rec]) (simp add: classify_epoch_same close_arrivals_same st')
  qed
qed

lemma run_epochs_same:
  "same_bench s t \<Longrightarrow> rel_sum (=) same_bench
    (run_epochs crc rq ck1 profile channels n deadline_ms seed ids s)
    (run_epochs crc rq ck2 profile channels n deadline_ms seed ids t)"
  by (induction ids arbitrary: s t) (auto intro!: rel_rbind run_epoch_same)

lemma run_seed_same:
  "same_bench s t \<Longrightarrow> rel_sum (=) same_bench
    (run_seed crc rq ck1 profile channels n deadline_ms seed s)
    (run_seed crc rq ck2 profile channels n deadline_ms seed t)"
  unfolding run_seed_def by (rule run_epochs_same) (simp add: same_bench_iff)

lemma run_seeds_same:
  "same_bench s t \<Longrightarrow> rel_sum (=) same_bench
    (run_seeds crc rq ck1 profile channels n deadline_ms seeds s)
    (run_seeds crc rq ck2 profile channels n deadline_ms seeds t)"
  by (induction seeds arbitrary: s t) (auto intro!: rel_rbind run_seed_same)

text \<open>What the report calls the trace: every field but the measured ones.\<close>

definition trace_part :: "baseline_row \<Rightarrow> baseline_row" where
  "trace_part row =
     row\<lparr>br_observed_exact := 0, br_observed_late := 0, br_observed_misses := 0,
         br_render_ready := percentiles [], br_encode_ns := percentiles [], br_decode_ns := percentiles []\<rparr>"

lemma bench_report_trace:
  "same_bench s t \<Longrightarrow>
   trace_part (bench_report log10 cd profile n k repair s) = trace_part (bench_report log10 cd profile n k repair t)"
  by (simp add: same_bench_iff bench_report_def trace_part_def Let_def)

text \<open>
  C39. Measured time never changes the trace. Run a case twice, with whatever durations the wall
  clock gives for the encoder and decoder calls. Either both runs fail with the same error, or both
  return a row, and the rows agree in every field but the measured ones: what is recovered, late or
  lost, the packet counts and the arrival percentiles are a function of the loss trace alone.
\<close>
theorem measured_time_never_changes_trace:
  "map_sum id trace_part (run_case log10 crc rq ck1 cd profile channels n deadline_ms) =
   map_sum id trace_part (run_case log10 crc rq ck2 cd profile channels n deadline_ms)"
proof -
  have report: "rel_sum (=) (\<lambda>r q. trace_part r = trace_part q)
      (rbind x (\<lambda>s. Inr (bench_report log10 cd profile n k repair s)))
      (rbind y (\<lambda>s. Inr (bench_report log10 cd profile n k repair s)))"
    if "rel_sum (=) same_bench x y" for x y k repair
    by (rule rel_rbind [OF that]) (simp add: bench_report_trace)
  have refl: "same_bench s s" for s by (simp add: same_bench_def)
  have "rel_sum (=) (\<lambda>r q. trace_part r = trace_part q)
      (run_case log10 crc rq ck1 cd profile channels n deadline_ms)
      (run_case log10 crc rq ck2 cd profile channels n deadline_ms)"
    unfolding run_case_def
    by (rule rel_rbind [where R = "(=)"], simp add: sum.rel_eq)
      (simp only: Let_def, rule report, rule run_seeds_same, rule refl)
  then show ?thesis
    by (cases rule: rel_sum.cases) simp_all
qed

section \<open>Every epoch is classified once\<close>

definition tally_inv :: "nat \<Rightarrow> 'd bench \<Rightarrow> bool" where
  "tally_inv j s \<longleftrightarrow>
     unat (bn_exact s) + unat (bn_late_exact s) + unat (bn_unrecovered s) = j \<and>
     unat (bn_observed_exact s) + unat (bn_observed_late s) = unat (bn_exact s) + unat (bn_late_exact s) \<and>
     bn_observed_exact s \<le> bn_exact s \<and>
     unat (bn_missing_run s) \<le> unat (bn_late_exact s) + unat (bn_unrecovered s) \<and>
     unat (bn_max_missing_run s) \<le> unat (bn_late_exact s) + unat (bn_unrecovered s)"

lemma unat_count_up:
  assumes "unat (c :: u64) + 1 < 2 ^ 64"
  shows "unat (sat_add c 1) = unat c + 1"
  using assms by (simp add: unat_sat_add)

lemma classify_epoch_tally:
  assumes inv: "tally_inv j s" and small: "j + 1 < 2 ^ 64"
  shows "tally_inv (j + 1) (classify_epoch deadline_ms channels energy a s)"
proof -
  note up = unat_count_up
  have b: "unat (bn_exact s) + 1 < 2 ^ 64" "unat (bn_late_exact s) + 1 < 2 ^ 64" "unat (bn_unrecovered s) + 1 < 2 ^ 64"
      "unat (bn_observed_exact s) + 1 < 2 ^ 64" "unat (bn_observed_late s) + 1 < 2 ^ 64"
      "unat (bn_missing_run s) + 1 < 2 ^ 64"
    using inv small unfolding tally_inv_def by linarith+
  note ups = up [OF b(1)] up [OF b(2)] up [OF b(3)] up [OF b(4)] up [OF b(5)] up [OF b(6)]
  show ?thesis
    using inv
    by (auto simp: tally_inv_def classify_epoch_def miss_epoch_def Let_def ups word_le_nat_alt max_def
        split: option.split)
qed

lemma count_datagrams_keep: "tally_inv j (fold count_datagram ds s) = tally_inv j s"
  by (induction ds arbitrary: s) (simp_all add: tally_inv_def count_datagram_def split: audio_role.split)

text \<open>What a run through an epoch has done, but for what only the decoder knows.\<close>

lemma run_epoch_shape:
  assumes run: "run_epoch crc rq ck profile channels n deadline_ms seed epoch_id s = Inr s'"
  obtains energy a block_id d ds s1 where
    "energy = epoch_energy (sat_add (sat_mul seed n) epoch_id) (make_groups (sat_add (sat_mul seed n) epoch_id) channels)"
    "bn_total_energy s1 = f64_add (bn_total_energy s) energy" "bn_error_energy s1 = bn_error_energy s"
    "\<And>j. tally_inv j s1 = tally_inv j s" "bn_late_exact s1 = bn_late_exact s" "bn_unrecovered s1 = bn_unrecovered s"
    "s' = classify_epoch deadline_ms channels energy a
       (close_arrivals block_id a ((fold count_datagram ds s1)\<lparr>bn_dropped := d\<rparr>))"
proof -
  let ?e = "epoch_energy (sat_add (sat_mul seed n) epoch_id) (make_groups (sat_add (sat_mul seed n) epoch_id) channels)"
  define pay where "pay = s\<lparr>bn_total_energy := f64_add (bn_total_energy s) ?e, bn_payload_bytes := sat_add (bn_payload_bytes s)
      (of_nat (sum_list (map (length \<circ> gp_payload) (make_groups (sat_add (sat_mul seed n) epoch_id) channels))))\<rparr>"
  obtain enc encoded where enc: "encode_epoch crc rq (bn_encoder pay)
      (bench_epoch (sat_add (sat_mul seed n) epoch_id) (make_groups (sat_add (sat_mul seed n) epoch_id) channels)) =
      (enc, Inr encoded)"
    using run unfolding run_epoch_def Let_def pay_def [symmetric] by (auto split: prod.splits sum.splits)
  define s1 where "s1 = pay\<lparr>bn_encoder := enc,
      bn_encode_elapsed := bn_encode_elapsed pay @ [ck_encode ck seed epoch_id],
      bn_sent := sat_add (bn_sent pay) (of_nat (length (ee_datagrams encoded)))\<rparr>"
  obtain a d where s': "s' = classify_epoch deadline_ms channels ?e a
      (close_arrivals (ee_block_id encoded) a ((fold count_datagram (ee_datagrams encoded) s1)\<lparr>bn_dropped := d\<rparr>))"
    using run unfolding run_epoch_def Let_def pay_def [symmetric] enc prod.case sum.case s1_def [symmetric]
    by (auto simp: rbind_eq_Inr split: prod.splits)
  show thesis
    by (rule that [OF refl _ _ _ _ _ s']) (simp_all add: s1_def pay_def tally_inv_def)
qed

lemma run_epoch_tally:
  assumes run: "run_epoch crc rq ck profile channels n deadline_ms seed epoch_id s = Inr s'"
    and inv: "tally_inv j s" and small: "j + 1 < 2 ^ 64"
  shows "tally_inv (j + 1) s'"
proof -
  obtain energy a block_id d ds s1 where s1: "tally_inv j s1 = tally_inv j s"
    and s': "s' = classify_epoch deadline_ms channels energy a
       (close_arrivals block_id a ((fold count_datagram ds s1)\<lparr>bn_dropped := d\<rparr>))"
    by (rule run_epoch_shape [OF run]) blast
  have "tally_inv j (fold count_datagram ds s1)" unfolding count_datagrams_keep s1 by (rule inv)
  then have "tally_inv j (close_arrivals block_id a ((fold count_datagram ds s1)\<lparr>bn_dropped := d\<rparr>))"
    by (simp add: tally_inv_def close_arrivals_def)
  then show ?thesis unfolding s' by (rule classify_epoch_tally [OF _ small])
qed

lemma run_epochs_tally:
  "run_epochs crc rq ck profile channels n deadline_ms seed ids s = Inr s' \<Longrightarrow> tally_inv j s \<Longrightarrow>
   j + length ids < 2 ^ 64 \<Longrightarrow> tally_inv (j + length ids) s'"
proof (induction ids arbitrary: j s)
  case (Cons i ids)
  obtain s1 where one: "run_epoch crc rq ck profile channels n deadline_ms seed i s = Inr s1"
    and rest: "run_epochs crc rq ck profile channels n deadline_ms seed ids s1 = Inr s'"
    using Cons.prems(1) by (auto simp: rbind_eq_Inr)
  have "tally_inv (j + 1) s1" using Cons.prems by (intro run_epoch_tally [OF one]) simp_all
  from Cons.IH [OF rest this] show ?case using Cons.prems(3) by simp
qed simp

lemma run_seeds_tally:
  "run_seeds crc rq ck profile channels n deadline_ms seeds s = Inr s' \<Longrightarrow> tally_inv j s \<Longrightarrow>
   j + unat n * length seeds < 2 ^ 64 \<Longrightarrow> tally_inv (j + unat n * length seeds) s'"
proof (induction seeds arbitrary: j s)
  case (Cons i seeds)
  obtain s1 where one: "run_epochs crc rq ck profile channels n deadline_ms i (map of_nat [0..<unat n])
      (s\<lparr>bn_missing_run := 0\<rparr>) = Inr s1"
    and rest: "run_seeds crc rq ck profile channels n deadline_ms seeds s1 = Inr s'"
    using Cons.prems(1) by (auto simp: rbind_eq_Inr run_seed_def)
  have "tally_inv j (s\<lparr>bn_missing_run := 0\<rparr>)" using Cons.prems(2) by (simp add: tally_inv_def)
  from run_epochs_tally [OF one this] Cons.prems(3) have "tally_inv (j + unat n) s1" by simp
  from Cons.IH [OF rest this] show ?case using Cons.prems(3) by (simp add: algebra_simps)
qed simp

text \<open>In the row of a case that ran through, every epoch that was sent is counted once.\<close>

lemma case_tally:
  assumes "run_case log10 crc rq ck cd profile channels n deadline_ms = Inr row"
    and "unat n * unat (profile_seeds profile) < 2 ^ 64"
  shows "unat (br_exact row) + unat (br_late_exact row) + unat (br_unrecovered row) = unat (br_epochs row) \<and>
    unat (br_epochs row) = unat n * unat (profile_seeds profile) \<and>
    unat (br_deadline_misses row) = unat (br_late_exact row) + unat (br_unrecovered row) \<and>
    unat (br_max_missing_epochs row) \<le> unat (br_deadline_misses row) \<and>
    unat (br_observed_exact row) + unat (br_observed_late row) = unat (br_exact row) + unat (br_late_exact row) \<and>
    br_observed_exact row \<le> br_exact row"
proof -
  obtain k repair s where run: "run_seeds crc rq ck profile channels n deadline_ms
      (map of_nat [0..<unat (profile_seeds profile)])
      (bench_start (audio_config_default\<lparr>ac_repair_symbols := repair\<rparr>)) = Inr s"
    and row: "row = bench_report log10 cd profile n k repair s"
    using assms(1) by (auto simp: run_case_def rbind_eq_Inr Let_def)
  have "tally_inv (unat n * unat (profile_seeds profile)) s"
    using run_seeds_tally [OF run, of 0] assms(2) by (simp add: tally_inv_def bench_start_def)
  moreover have "unat (br_epochs row) = unat n * unat (profile_seeds profile)"
    using assms(2) by (simp add: row bench_report_def Let_def unat_sat_mul)
  ultimately show ?thesis
    by (auto simp: row bench_report_def Let_def tally_inv_def unat_sat_sub)
qed

end
