(* ===== verification/Audio_Stream.thy ===== *)
theory Audio_Stream
  imports Audio_Delivery
begin

text \<open>
  A stream of audio epochs: consecutive blocks of one encoder, received by one decoder that is never
  reset. What arrives of an epoch is pushed before anything of the next; the decoder meanwhile forgets,
  expires and remembers blocks as its limits tell it, which must not touch the current one.
\<close>

section \<open>Sending and receiving a stream\<close>

primrec encode_epochs ::
    "crc_fun \<Rightarrow> ('e, 'd) raptorq \<Rightarrow> audio_encoder \<Rightarrow> audio_epoch list \<Rightarrow>
     audio_encoder \<times> (audio_fec_error, encoded_epoch list) result" where
  "encode_epochs crc rq e [] = (e, Inr [])"
| "encode_epochs crc rq e (ep # eps) =
     (case encode_epoch crc rq e ep of
        (e1, Inl err) \<Rightarrow> (e1, Inl err)
      | (e1, Inr enc) \<Rightarrow>
          (case encode_epochs crc rq e1 eps of (e2, r) \<Rightarrow> (e2, rbind r (\<lambda>encs. Inr (enc # encs)))))"

primrec push_batches ::
    "crc_fun \<Rightarrow> ('e, 'd) raptorq \<Rightarrow> 'd audio_decoder \<Rightarrow> bytes list list \<Rightarrow>
     'd audio_decoder \<times> (audio_fec_error, decoded_shard list) result list list" where
  "push_batches crc rq d [] = (d, [])"
| "push_batches crc rq d (xs # xss) =
     (case audio_push_all crc rq d xs of
        (d1, rs) \<Rightarrow> (case push_batches crc rq d1 xss of (d2, rss) \<Rightarrow> (d2, rs # rss)))"

definition picked :: "encoded_epoch \<Rightarrow> nat list \<Rightarrow> bytes list" where
  "picked enc got = map (\<lambda>j. adg_payload (ee_datagrams enc ! j)) got"

definition picks :: "encoded_epoch \<Rightarrow> nat list \<Rightarrow> bool" where
  "picks enc got \<longleftrightarrow> set got \<subseteq> {..<length (ee_datagrams enc)}"

definition older :: "nat \<Rightarrow> 'd audio_decoder \<Rightarrow> bool" where
  "older n d \<longleftrightarrow> audio_inv d \<and> (\<forall>c \<in> known_ids d. unat c < n)"

lemma older_fresh: "older (unat b) d \<Longrightarrow> fresh_for b d"
  by (auto simp: older_def fresh_for_def known_iff word_le_nat_alt intro: less_imp_le)

lemma older_new: "older n audio_decoder_new"
  using new_fresh [of 0] by (simp add: fresh_for_def older_def known_ids_def audio_decoder_new_def decoder_new_def)

lemma older_next: "older n d \<Longrightarrow> audio_inv d' \<Longrightarrow> known_ids d' \<subseteq> insert b (known_ids d) \<Longrightarrow> n = unat b \<Longrightarrow> older (Suc n) d'"
  by (fastforce simp: older_def less_Suc_eq)

lemma encode_epoch_config: "encode_epoch crc rq e ep = (e', r) \<Longrightarrow> ae_config e' = ae_config e"
  by (auto simp: encode_epoch_def Let_def split: sum.splits prod.splits)

lemma unat_next: "unat (b :: u32) + 1 < 2 ^ 32 \<Longrightarrow> unat (b + 1) = unat b + 1"
  by (simp add: unat_word_ariths)

lemma encode_epochs_lawful:
  assumes lawful: "rq_lawful rq"
  shows "list_all2 (audio_sendable (ae_config e)) eps geos \<Longrightarrow>
    \<exists>e' encs. encode_epochs crc rq e eps = (e', Inr encs) \<and> length encs = length eps"
proof (induction eps arbitrary: e geos)
  case (Cons ep eps)
  obtain geo gs where gs: "geos = geo # gs" "audio_sendable (ae_config e) ep geo"
      "list_all2 (audio_sendable (ae_config e)) eps gs"
    using Cons.prems by (cases geos) auto
  obtain e1 enc where one: "encode_epoch crc rq e ep = (e1, Inr enc)"
    using encode_epoch_lawful [OF lawful gs(2), of crc] by blast
  have "list_all2 (audio_sendable (ae_config e1)) eps gs" using gs(3) encode_epoch_config [OF one] by simp
  from Cons.IH [OF this] one show ?case by auto
qed simp

lemma stream_into_decoder:
  assumes lawful: "rq_lawful rq" "systematic rq"
  shows "list_all2 (audio_sendable (ae_config e)) eps geos \<Longrightarrow> encode_epochs crc rq e eps = (e', Inr encs) \<Longrightarrow>
    older (unat (audio_block_id e)) d \<Longrightarrow> unat (audio_block_id e) + length eps \<le> 2 ^ 32 \<Longrightarrow>
    list_all2 picks encs gots \<Longrightarrow> push_batches crc rq d (map2 picked encs gots) = (d', rss) \<Longrightarrow>
    length rss = length eps \<and>
    (\<forall>i < length eps. epoch_delivered rq (eps ! i) (geos ! i) (audio_block_id e + of_nat i) (gots ! i) (rss ! i))"
proof (induction eps arbitrary: e geos encs gots d rss)
  case (Cons ep eps)
  obtain geo gs where gs: "geos = geo # gs" "audio_sendable (ae_config e) ep geo"
      "list_all2 (audio_sendable (ae_config e)) eps gs"
    using Cons.prems(1) by (cases geos) auto
  obtain e1 enc where one: "encode_epoch crc rq e ep = (e1, Inr enc)"
    and id: "audio_block_id e1 = audio_block_id e + 1"
    using encode_epoch_lawful [OF lawful(1) gs(2), of crc] by (auto simp: audio_block_id_def)
  obtain es where es: "encode_epochs crc rq e1 eps = (e', Inr es)" "encs = enc # es"
    using Cons.prems(2) one by (auto simp: rbind_eq_Inr split: prod.splits)
  obtain got gts where gts: "gots = got # gts" "picks enc got" "list_all2 picks es gts"
    using Cons.prems(5) es(2) by (cases gots) auto
  obtain d1 rs where rs: "audio_push_all crc rq d (picked enc got) = (d1, rs)" by fastforce
  obtain qs where qs: "push_batches crc rq d1 (map2 picked es gts) = (d', qs)" "rss = rs # qs"
    using Cons.prems(6) rs by (auto simp: es(2) gts(1) split: prod.splits)
  note step = epoch_into_decoder [OF lawful gs(2) one older_fresh [OF Cons.prems(3)]
      gts(2) [unfolded picks_def] rs [unfolded picked_def]]
  show ?case
  proof (cases eps)
    case Nil
    then have "encs = [enc]" using es by simp
    then show ?thesis using step(1) qs gts Nil es(2) by (auto simp: gs(1))
  next
    case more: (Cons ep2 eps2)
    then have next_id: "unat (audio_block_id e1) = unat (audio_block_id e) + 1"
      using Cons.prems(4) unat_next [of "audio_block_id e"] by (simp add: id)
    have cfg: "list_all2 (audio_sendable (ae_config e1)) eps gs" using gs(3) encode_epoch_config [OF one] by simp
    have old: "older (unat (audio_block_id e1)) d1"
      using older_next [OF Cons.prems(3) step(2,3) refl] by (simp add: next_id)
    have "unat (audio_block_id e1) + length eps \<le> 2 ^ 32" using Cons.prems(4) by (simp add: next_id)
    from Cons.IH [OF cfg es(1) old this gts(3) qs(1)] step(1) show ?thesis
      by (auto simp: qs(2) gs(1) gts(1) id nth_Cons algebra_simps split: nat.splits)
  qed
qed simp

text \<open>
  An audio stream on a lossy link. Encode any number of valid epochs, one after the other, and push
  any of the datagrams of each into one decoder, epoch after epoch, in any order within an epoch, with
  losses and repetitions; block ids do not wrap around. No push fails; of each epoch no shard is
  delivered twice and every delivered shard is exactly one of the epoch's; every shard whose source
  datagram has arrived has been delivered, whatever else is missing; and once the codec can recover the
  block, or all source datagrams have arrived, all shards have been. So whatever was lost before, and
  whatever the decoder had to expire or forget to stay within its limits, an epoch is received as by
  a new decoder; and as this holds for every initial part of the arrivals, systematic shards never
  wait for the rest of their block.
\<close>
lemma audio_stream_survives_loss:
  assumes "rq_lawful rq" "systematic rq" "list_all2 (audio_sendable (ae_config e)) eps geos"
    and "unat (audio_block_id e) + length eps \<le> 2 ^ 32"
  shows "\<exists>e' encs. encode_epochs crc rq e eps = (e', Inr encs) \<and> length encs = length eps \<and>
    (\<forall>gots d' rss. list_all2 picks encs gots \<longrightarrow>
       push_batches crc rq audio_decoder_new (map2 picked encs gots) = (d', rss) \<longrightarrow>
       length rss = length eps \<and>
       (\<forall>i < length eps. let shards = epoch_shards (eps ! i) (geos ! i); keys = map shard_key (shards_out (rss ! i));
            object = epoch_object (eps ! i) (geos ! i); s = ag_symbol_size (geos ! i);
            recovered = codec_run rq (block_decoder rq (length object) s) (map (block_packet rq object s) (gots ! i)) \<noteq> None
        in all_ok (rss ! i) \<and> distinct keys \<and>
           (\<forall>x \<in> set (shards_out (rss ! i)). \<exists>j < length shards. \<exists>r.
              x = shard_at (audio_block_id e + of_nat i) r (shards ! j)) \<and>
           (\<forall>j < length shards. j \<in> set (gots ! i) \<or> recovered \<longrightarrow> of_nat j \<in> set keys) \<and>
           ({..<length shards} \<subseteq> set (gots ! i) \<longrightarrow> recovered)))"
proof -
  obtain e' encs where encs: "encode_epochs crc rq e eps = (e', Inr encs)" "length encs = length eps"
    using encode_epochs_lawful [OF assms(1,3), of crc] by blast
  have all: "length rss = length eps \<and>
      (\<forall>i < length eps. epoch_delivered rq (eps ! i) (geos ! i) (audio_block_id e + of_nat i) (gots ! i) (rss ! i))"
    if "list_all2 picks encs gots" "push_batches crc rq audio_decoder_new (map2 picked encs gots) = (d', rss)"
    for gots d' rss
    by (rule stream_into_decoder [OF assms(1-3) encs(1) older_new assms(4) that])
  show ?thesis
  proof (intro exI conjI allI impI)
    show "encode_epochs crc rq e eps = (e', Inr encs)" "length encs = length eps" by (rule encs)+
  qed (use all in \<open>auto simp: epoch_delivered_def delivers_def Let_def\<close>)
qed

lemma audio_stream_survives_loss_example:
  "\<exists>e' encs rss. encode_epochs crc_reference rep_codec (audio_encoder_new example_audio_config)
       [example_epoch, example_epoch] = (e', Inr encs) \<and>
     rss = snd (push_batches crc_reference rep_codec audio_decoder_new
       (map2 picked encs (map (\<lambda>enc. rev [0..<length (ee_datagrams enc)]) encs))) \<and>
     length rss = 2 \<and> all_ok (rss ! 0) \<and> all_ok (rss ! 1)"
proof -
  let ?e = "audio_encoder_new example_audio_config" and ?eps = "[example_epoch, example_epoch]"
  obtain geo where geo: "audio_sendable (ae_config ?e) example_epoch geo"
    using example_audio_sendable by (auto simp: audio_encoder_new_def)
  have send: "list_all2 (audio_sendable (ae_config ?e)) ?eps [geo, geo]" using geo by simp
  have id: "unat (audio_block_id ?e) + length ?eps \<le> 2 ^ 32"
    by (simp add: audio_block_id_def audio_encoder_new_def encoder_new_def)
  obtain e' encs where encs: "encode_epochs crc_reference rep_codec ?e ?eps = (e', Inr encs)"
    and all: "\<And>gots d' rss. list_all2 picks encs gots \<Longrightarrow>
       push_batches crc_reference rep_codec audio_decoder_new (map2 picked encs gots) = (d', rss) \<Longrightarrow>
       length rss = length ?eps \<and> (\<forall>i < length ?eps. all_ok (rss ! i))"
    using audio_stream_survives_loss [OF rep_codec_lawful rep_codec_systematic send id, of crc_reference]
    unfolding Let_def by blast
  let ?gots = "map (\<lambda>enc. rev [0..<length (ee_datagrams enc)]) encs"
  have "list_all2 picks encs ?gots" by (auto simp: list_all2_conv_all_nth picks_def)
  from all [OF this surjective_pairing] show ?thesis using encs by force
qed

end
