(* ===== verification/Recovery_Exactness.thy ===== *)
theory Recovery_Exactness
  imports Recovery_Baseline Audio_Stream
begin

text \<open>
  What the recovery benchmark can report: with a lawful and systematic codec no run fails, so the
  exactness gate of \<open>run_case\<close> never fires, every epoch is classified, and a clean network loses nothing.
\<close>

section \<open>The epochs of the benchmark are valid\<close>

lemma make_groups_from_facts:
  "g \<in> set (make_groups_from epoch_id channels start) \<Longrightarrow>
   0 < unat (gp_channel_count g) \<and> unat (gp_channel_count g) \<le> 8 \<and> gp_payload_kind g = Pcm \<and> gp_sample_format g = S24Le"
proof (induction epoch_id channels start rule: make_groups_from.induct)
  case (1 e channels start)
  show ?case
  proof (cases "start < channels")
    case True
    have "unat (channels - start) = unat channels - unat start"
      using True by (simp add: unat_sub word_le_nat_alt word_less_nat_alt)
    then have c: "unat (min CHANNELS_PER_GROUP (channels - start)) = min 8 (unat channels - unat start)"
      by (auto simp: min_def CHANNELS_PER_GROUP_def word_le_nat_alt)
    have "0 < unat channels - unat start" using True by (simp add: word_less_nat_alt)
    then show ?thesis
      using "1.prems" "1.IH" [OF True refl] True c make_groups_from.simps [of e channels start]
      by (auto simp: Let_def)
  next
    case False
    then show ?thesis using "1.prems" by (subst (asm) make_groups_from.simps) simp
  qed
qed

lemma length_make_groups_from:
  "8 * length (make_groups_from epoch_id channels start) \<le> unat channels - unat start + 7"
proof (induction epoch_id channels start rule: make_groups_from.induct)
  case (1 e channels start)
  show ?case
  proof (cases "start < channels")
    case True
    then show ?thesis
      using "1.IH" [OF True refl] next_channel_start [OF True] make_groups_from.simps [of e channels start]
      by (cases "8 \<le> unat channels - unat start") (simp_all add: Let_def word_less_nat_alt, presburger+)
  next
    case False
    then show ?thesis by (subst make_groups_from.simps) simp
  qed
qed

definition bench_channels :: "u16 \<Rightarrow> bool" where
  "bench_channels channels \<longleftrightarrow> 0 < channels \<and> channels \<le> 128"

lemma bench_groups:
  assumes "bench_channels channels"
  shows "make_groups e channels \<noteq> []" "length (make_groups e channels) \<le> 16"
    "\<And>g. g \<in> set (make_groups e channels) \<Longrightarrow> validate_group g = Inr () \<and> length (gp_payload g) \<le> 5760"
proof -
  have ch: "0 < unat channels" "unat channels \<le> 128"
    using assms by (simp_all add: bench_channels_def word_less_nat_alt word_le_nat_alt)
  show "make_groups e channels \<noteq> []"
    using ch by (subst make_groups_def, subst make_groups_from.simps) (simp add: Let_def word_less_nat_alt)
  show "length (make_groups e channels) \<le> 16"
    using length_make_groups_from [of e channels 0] ch by (simp add: make_groups_def)
  fix g assume g: "g \<in> set (make_groups e channels)"
  note fact = make_groups_from_facts [OF g [unfolded make_groups_def]] groups_are_wide [OF g [unfolded make_groups_def]]
  then show "validate_group g = Inr () \<and> length (gp_payload g) \<le> 5760"
    by (auto simp: validate_group_ok)
qed

lemma symbols_needed_bound:
  "(\<And>g. g \<in> set gs \<Longrightarrow> div_ceil (group_len g) fp \<le> m) \<Longrightarrow> symbols_needed fp gs \<le> length gs * m"
  by (induction gs) (force intro: add_mono)+

lemma bench_sendable:
  assumes "bench_channels channels" "unat (ac_repair_symbols c) \<le> 2 ^ 24 - 56403"
    and "c = audio_config_default\<lparr>ac_repair_symbols := r\<rparr>"
  shows "\<exists>geo. audio_sendable c (bench_epoch absolute (make_groups e channels)) geo"
proof -
  let ?gs = "make_groups e channels"
  note groups = bench_groups [OF assms(1), where e = e]
  have mp: "max_fragment_payload c = Inr 1084"
    by (simp add: max_fragment_payload_Inr assms(3) audio_config_default_def usize_max_def)
  have "div_ceil (group_len g) 1084 \<le> 6" if "g \<in> set ?gs" for g
    using groups(3) [OF that] by (auto simp: div_ceil_le_iff group_len_def)
  then have "symbols_needed 1084 ?gs \<le> length ?gs * 6" by (rule symbols_needed_bound)
  also have "\<dots> \<le> 16 * 6" using groups(2) by (rule mult_le_mono1)
  finally have few: "symbols_needed 1084 ?gs \<le> 96" by simp
  have len: "length (gp_payload g) \<le> 4294967295" if "g \<in> set ?gs" for g using groups(3) [OF that] by simp
  have "unat (ac_max_source_symbols c) = 256" by (simp add: assms(3) audio_config_default_def)
  then obtain geo where "geometry_for_groups c ?gs = Inr geo"
    using geometry_Inl [OF _ mp groups(1)] few by (cases "geometry_for_groups c ?gs") force+
  moreover have "valid_epoch (bench_epoch absolute ?gs)"
    using groups len by (auto simp: valid_epoch_def bench_epoch_def BENCH_FRAME_COUNT_def BENCH_SAMPLE_RATE_def U32_MAX_def)
  ultimately show ?thesis
    using mp assms(2,3) by (auto simp: audio_sendable_def bench_epoch_def audio_config_default_def)
qed

section \<open>The exactness gate\<close>

definition exact_shard :: "audio_group list \<Rightarrow> decoded_shard \<Rightarrow> bool" where
  "exact_shard groups x \<longleftrightarrow>
     (let h = dsh_header x; i = unat (sh_group_index h); start = unat (sh_payload_offset h)
      in i < length groups \<and>
         slice_get (gp_payload (groups ! i)) start (usize_sat_add start (unat (sh_payload_len h))) = Some (dsh_payload x))"

lemma check_shard_exact:
  "exact_shard groups x \<Longrightarrow> \<exists>s'. check_shard groups absolute lost x s = Inr s' \<and> as_decoder s' = as_decoder s \<and>
     as_delivered s' = insert (shard_key x) (as_delivered s) \<and> as_arrival_done s' = as_arrival_done s \<and>
     as_render_done s' = as_render_done s"
  by (auto simp: exact_shard_def check_shard_def shard_key_def Let_def)

lemma check_shards_exact:
  "\<forall>x \<in> set shards. exact_shard groups x \<Longrightarrow>
   \<exists>s'. check_shards groups absolute lost shards s = Inr s' \<and> as_decoder s' = as_decoder s \<and>
     as_delivered s' = shard_key ` set shards \<union> as_delivered s \<and> as_arrival_done s' = as_arrival_done s \<and>
     as_render_done s' = as_render_done s"
proof (induction shards arbitrary: s)
  case (Cons x shards)
  obtain s1 where one: "check_shard groups absolute lost x s = Inr s1" "as_decoder s1 = as_decoder s"
      "as_delivered s1 = insert (shard_key x) (as_delivered s)" "as_arrival_done s1 = as_arrival_done s"
      "as_render_done s1 = as_render_done s"
    using check_shard_exact [of groups x absolute lost s] Cons.prems by auto
  then show ?case using Cons.IH [of s1] Cons.prems by auto
qed simp

text \<open>The shards of a valid epoch pass: offset and length of each are those of its slice of the group.\<close>

lemma epoch_shard_exact:
  assumes send: "audio_sendable c ep geo" and j: "j < length (epoch_shards ep geo)"
  shows "exact_shard (ep_groups ep) (shard_at b r (epoch_shards ep geo ! j))"
proof -
  let ?fp = "ag_fragment_payload geo"
  obtain mp where h: "valid_epoch ep" "max_fragment_payload c = Inr mp" "geometry_for_groups c (ep_groups ep) = Inr geo"
    using send by (auto simp: audio_sendable_def)
  note g = geometry_Inr [OF h(3,2)]
  obtain grp i where grp: "grp \<in> set (enumerate 0 (ep_groups ep))" and i: "i < div_ceil (group_len (snd grp)) ?fp"
    and nth: "epoch_shards ep geo ! j =
      fragment_shard ep geo grp (div_ceil (group_len (snd grp)) ?fp) (i, j)"
    using shards_from_nth [of j ep geo 0 "enumerate 0 (ep_groups ep)"] j unfolding epoch_shards_def by auto
  have idx: "fst grp < length (ep_groups ep)" "snd grp \<in> set (ep_groups ep)" using in_enumerate [OF grp] by simp_all
  have own: "ep_groups ep ! fst grp = snd grp" using grp by (auto simp: in_set_enumerate_eq)
  have small: "length (ep_groups ep) \<le> 65535" "length (gp_payload (snd grp)) \<le> 4294967295"
    using h(1) idx by (simp_all add: valid_epoch_def U32_MAX_def)
  note range = fragment_range [OF g(2) i]
  have fp: "?fp + 72 \<le> 65535" using g(3) h(2) by (simp add: max_fragment_payload_Inr)
  let ?n = "length (fragment_payload_of (snd grp) ?fp i)"
  have words: "unat (of_nat (fst grp) :: u16) = fst grp" "unat (of_nat (i * ?fp) :: u32) = i * ?fp" "unat (of_nat ?n :: u16) = ?n"
    using idx(1) small range fp unat_of_nat_16 [of "fst grp"] unat_of_nat_32 [of "i * ?fp"] unat_of_nat_16 [of ?n]
    unfolding U32_MAX_def by linarith+
  have fin: "usize_sat_add (i * ?fp) ?n = i * ?fp + ?n"
    using range(1) small(2) by (simp add: usize_sat_add_def usize_max_def)
  have slice: "sub_slice (gp_payload (snd grp)) (i * ?fp) (i * ?fp + ?n) = fragment_payload_of (snd grp) ?fp i"
    by (auto simp: fragment_payload_of_def Let_def sub_slice_def)
  show ?thesis
    unfolding exact_shard_def nth
    using idx(1) range(1) by (simp add: shard_header_of_def words fin own slice slice_get_def Let_def del: of_nat_mult)
qed

section \<open>One epoch\<close>

text \<open>
  Both completion times are set together, as soon as the delivered indices number the source symbols.
\<close>

definition done_inv :: "'d arrival_state \<Rightarrow> bool" where
  "done_inv s \<longleftrightarrow> (as_arrival_done s = None) = (as_render_done s = None)"

lemma finish_arrival_facts:
  "as_decoder (finish_arrival k us started ns s) = as_decoder s"
  "as_delivered (finish_arrival k us started ns s) = as_delivered s"
  "done_inv s \<Longrightarrow> done_inv (finish_arrival k us started ns s)"
  "done_inv s \<Longrightarrow> card (as_delivered s) = unat k \<or> as_arrival_done s \<noteq> None \<Longrightarrow>
     as_arrival_done (finish_arrival k us started ns s) \<noteq> None"
  by (auto simp: finish_arrival_def done_inv_def Let_def)

lemma receive_arrival_exact:
  assumes push: "audio_push_datagram crc rq (as_decoder s) (adg_payload (ee_datagrams encoded ! snd a)) = (d, Inr shards)"
    and exact: "\<forall>x \<in> set shards. exact_shard groups x" and inv: "done_inv s"
  shows "\<exists>s'. receive_arrival crc rq encode_ns ns groups absolute lost encoded a s = Inr s' \<and> as_decoder s' = d \<and>
     as_delivered s' = shard_key ` set shards \<union> as_delivered s \<and> done_inv s' \<and>
     (as_arrival_done s \<noteq> None \<or> card (as_delivered s') = unat (ee_source_symbols encoded) \<longrightarrow> as_arrival_done s' \<noteq> None)"
proof -
  obtain s1 where s1: "check_shards groups absolute lost shards (s\<lparr>as_decoder := d\<rparr>) = Inr s1" "as_decoder s1 = d"
      "as_delivered s1 = shard_key ` set shards \<union> as_delivered s" "as_arrival_done s1 = as_arrival_done s"
      "as_render_done s1 = as_render_done s"
    using check_shards_exact [OF exact, of absolute lost "s\<lparr>as_decoder := d\<rparr>"] by auto
  have inv1: "done_inv s1" using inv s1(4,5) by (simp add: done_inv_def)
  let ?s' = "finish_arrival (ee_source_symbols encoded) (fst a)
      (max (sat_add (fst a) (ns_to_us_ceil encode_ns)) (as_available_us s)) ns s1"
  have "receive_arrival crc rq encode_ns ns groups absolute lost encoded a s = Inr ?s'"
    unfolding receive_arrival_def Let_def push prod.case sum.case s1(1) rbind_simps ..
  then show ?thesis
    using finish_arrival_facts(1,2) [of "ee_source_symbols encoded" _ _ ns s1] finish_arrival_facts(3,4) [OF inv1] s1
    by auto
qed

lemma receive_arrivals_exact:
  "audio_push_all crc rq (as_decoder s) (map (\<lambda>a. adg_payload (ee_datagrams encoded ! snd a)) as) = (d, rs) \<Longrightarrow>
   all_ok rs \<Longrightarrow> \<forall>x \<in> set (shards_out rs). exact_shard groups x \<Longrightarrow> done_inv s \<Longrightarrow>
   \<exists>s'. receive_arrivals crc rq encode_ns ns groups absolute lost encoded i as s = Inr s' \<and> as_decoder s' = d \<and>
     as_delivered s' = shard_key ` set (shards_out rs) \<union> as_delivered s \<and> done_inv s' \<and>
     (as_arrival_done s \<noteq> None \<or> as \<noteq> [] \<and> card (as_delivered s') = unat (ee_source_symbols encoded) \<longrightarrow>
        as_arrival_done s' \<noteq> None)"
proof (induction as arbitrary: s rs i)
  case (Cons a as)
  obtain d1 r where one: "audio_push_datagram crc rq (as_decoder s) (adg_payload (ee_datagrams encoded ! snd a)) = (d1, r)"
    by fastforce
  obtain qs where rest: "audio_push_all crc rq d1 (map (\<lambda>a. adg_payload (ee_datagrams encoded ! snd a)) as) = (d, qs)"
      and rs: "rs = r # qs"
    using Cons.prems(1) one by (auto split: prod.splits)
  obtain shards where r: "r = Inr shards" using Cons.prems(2) rs by (cases r) (auto simp: all_ok_def)
  obtain s1 where s1: "receive_arrival crc rq encode_ns (ns i) groups absolute lost encoded a s = Inr s1"
      "as_decoder s1 = d1" "as_delivered s1 = shard_key ` set shards \<union> as_delivered s"
      "done_inv s1"
      "as_arrival_done s \<noteq> None \<or> card (as_delivered s1) = unat (ee_source_symbols encoded) \<Longrightarrow> as_arrival_done s1 \<noteq> None"
    using receive_arrival_exact [OF one [unfolded r] _ Cons.prems(4), of groups encode_ns "ns i" absolute lost]
      Cons.prems(3) by (auto simp: rs r)
  obtain s' where s': "receive_arrivals crc rq encode_ns ns groups absolute lost encoded (Suc i) as s1 = Inr s'"
      "as_decoder s' = d" "as_delivered s' = shard_key ` set (shards_out qs) \<union> as_delivered s1"
      "done_inv s'"
      "as_arrival_done s1 \<noteq> None \<or> as \<noteq> [] \<and> card (as_delivered s') = unat (ee_source_symbols encoded) \<Longrightarrow>
         as_arrival_done s' \<noteq> None"
  proof -
    have "all_ok qs" "\<forall>x \<in> set (shards_out qs). exact_shard groups x" using Cons.prems(2,3) by (simp_all add: rs r)
    from Cons.IH [OF rest [folded s1(2)] this s1(4), of "Suc i"] that show thesis by blast
  qed
  have "as_arrival_done s' \<noteq> None"
    if "as_arrival_done s \<noteq> None \<or> card (as_delivered s') = unat (ee_source_symbols encoded)"
  proof (cases "as = []")
    case True
    then have "s' = s1" using s'(1) by simp
    then show ?thesis using that s1(5) by blast
  next
    case False
    then show ?thesis using that s1(5) s'(5) by blast
  qed
  then show ?case using s1 s' by (auto simp: rs r)
qed simp

section \<open>Running a case\<close>

lemma network_arrivals:
  "network profile seed epoch_id absolute k ds (arrivals, dropped, lost) = (arrivals', dropped', lost') \<Longrightarrow>
   snd ` set arrivals' \<subseteq> snd ` set arrivals \<union> fst ` set ds \<and>
   (profile = Clean \<longrightarrow> snd ` set arrivals' = snd ` set arrivals \<union> fst ` set ds \<and> dropped' = dropped)"
proof (induction ds arbitrary: arrivals dropped lost)
  case (Cons x ds)
  obtain i d where x: "x = (i, d)" by (cases x)
  have clean: "profile = Clean \<Longrightarrow> \<not> should_drop profile seed epoch_id (adg_role d) k" by (simp add: should_drop_def)
  show ?case
  proof (cases "should_drop profile seed epoch_id (adg_role d) k")
    case True
    have "network profile seed epoch_id absolute k ds
        (arrivals, sat_add dropped 1, (case adg_role d of SourceSymbol j \<Rightarrow> insert j lost | RepairSymbol _ \<Rightarrow> lost)) =
        (arrivals', dropped', lost')"
      using Cons.prems True by (simp add: x)
    from Cons.IH [OF this] show ?thesis using True clean by (auto simp: x)
  next
    case False
    from Cons.IH [of "arrivals @ [(arrival_time seed absolute i, i)]" dropped lost] Cons.prems show ?thesis
      using False by (auto simp: x)
  qed
qed auto

lemma delivered_count:
  assumes eb: "epoch_block data s k shards" and del: "delivers b shards {} outs I" and all: "{..<length shards} \<subseteq> I"
  shows "card (shard_key ` set outs) = length shards"
proof -
  have idx: "sh_source_index (fst (shards ! j)) = of_nat j" if "j < length shards" for j
    using eb that unfolding epoch_block_def by blast
  have short: "length shards \<le> 56403" using eb unfolding epoch_block_def by blast
  have "shard_key ` set outs \<subseteq> of_nat ` {..<length shards}"
    using del idx by (force simp: delivers_def)
  moreover have "of_nat ` {..<length shards} \<subseteq> shard_key ` set outs"
    using del all by (auto simp: delivers_def)
  ultimately have "shard_key ` set outs = (of_nat :: nat \<Rightarrow> u16) ` {..<length shards}" by (rule equalityI)
  moreover have "inj_on (of_nat :: nat \<Rightarrow> u16) {..<length shards}"
    using short by (auto simp: inj_on_def of_nat_inj16)
  ultimately show ?thesis by (simp add: card_image)
qed

lemma count_datagrams_frame [simp]:
  "bn_encoder (fold count_datagram ds s) = bn_encoder s" "bn_decoder (fold count_datagram ds s) = bn_decoder s"
  "bn_dropped (fold count_datagram ds s) = bn_dropped s" "bn_unrecovered (fold count_datagram ds s) = bn_unrecovered s"
  by (induction ds arbitrary: s) (simp_all add: count_datagram_def split: audio_role.split)

lemma classify_epoch_frame:
  "bn_encoder (classify_epoch deadline_ms channels energy a s) = bn_encoder s"
  "bn_decoder (classify_epoch deadline_ms channels energy a s) = bn_decoder s"
  "bn_dropped (classify_epoch deadline_ms channels energy a s) = bn_dropped s"
  "as_arrival_done a \<noteq> None \<Longrightarrow> bn_unrecovered (classify_epoch deadline_ms channels energy a s) = bn_unrecovered s"
  by (auto simp: classify_epoch_def miss_epoch_def Let_def split: option.split)

text \<open>Before epoch \<open>m\<close> of a case: the encoder is at block \<open>m\<close>, of which the decoder has seen nothing.\<close>

definition bench_inv :: "audio_config \<Rightarrow> nat \<Rightarrow> 'd bench \<Rightarrow> bool" where
  "bench_inv c m s \<longleftrightarrow>
     ae_config (bn_encoder s) = c \<and> unat (audio_block_id (bn_encoder s)) = m \<and> older m (bn_decoder s)"

lemma arrivals_of_epoch:
  assumes lawful: "rq_lawful rq" "systematic rq" and send: "audio_sendable (ae_config e) ep geo"
    and enc: "encode_epoch crc rq e ep = (e', Inr enc)" and fresh: "fresh_for (audio_block_id e) (as_decoder s)"
    and got: "snd ` set as \<subseteq> {..<length (ee_datagrams enc)}" and start: "done_inv s" "as_delivered s = {}"
  shows "\<exists>s'. receive_arrivals crc rq encode_ns ns (ep_groups ep) absolute lost enc 0 as s = Inr s' \<and>
    audio_inv (as_decoder s') \<and> known_ids (as_decoder s') \<subseteq> insert (audio_block_id e) (known_ids (as_decoder s)) \<and>
    ({..<length (ee_datagrams enc)} \<subseteq> snd ` set as \<longrightarrow> as_arrival_done s' \<noteq> None)"
proof -
  note eb = sendable_epoch_block [OF send] and blk = sendable_block [OF send]
  let ?shards = "epoch_shards ep geo" and ?got = "map snd as"
  have len: "length (ee_datagrams enc) = length ?shards + unat (ac_repair_symbols (ae_config e))"
    and k: "unat (ee_source_symbols enc) = length ?shards"
    using encode_epoch_lawful [OF lawful(1) send, of crc] enc blk(6) by auto
  obtain d rs where push: "audio_push_all crc rq (as_decoder s) (map (\<lambda>j. adg_payload (ee_datagrams enc ! j)) ?got) = (d, rs)"
    by fastforce
  have "set ?got \<subseteq> {..<length (ee_datagrams enc)}" using got by simp
  note epoch = epoch_into_decoder [OF lawful send enc fresh this push]
  obtain I where del: "all_ok rs" "delivers (audio_block_id e) ?shards {} (shards_out rs) I" "set ?got \<subseteq> I"
    using epoch(1) by (auto simp: epoch_delivered_def Let_def)
  have exact: "\<forall>x \<in> set (shards_out rs). exact_shard (ep_groups ep) x"
    using del(2) epoch_shard_exact [OF send] by (fastforce simp: delivers_def)
  have push': "audio_push_all crc rq (as_decoder s) (map (\<lambda>a. adg_payload (ee_datagrams enc ! snd a)) as) = (d, rs)"
    using push by (simp add: comp_def)
  obtain s' where s': "receive_arrivals crc rq encode_ns ns (ep_groups ep) absolute lost enc 0 as s = Inr s'"
      "as_decoder s' = d" "as_delivered s' = shard_key ` set (shards_out rs)"
      "as \<noteq> [] \<and> card (as_delivered s') = unat (ee_source_symbols enc) \<longrightarrow> as_arrival_done s' \<noteq> None"
    using receive_arrivals_exact [OF push' del(1) exact start(1), of encode_ns ns absolute lost 0] start(2) by auto
  have "as_arrival_done s' \<noteq> None" if all: "{..<length (ee_datagrams enc)} \<subseteq> snd ` set as"
  proof -
    have "{..<length ?shards} \<subseteq> {..<length (ee_datagrams enc)}" using len by auto
    also have "\<dots> \<subseteq> set ?got" using all by (simp only: set_map)
    finally have "{..<length ?shards} \<subseteq> I" using del(3) by (rule subset_trans)
    from delivered_count [OF eb del(2) this] have "card (as_delivered s') = unat (ee_source_symbols enc)"
      by (simp add: s'(3) k)
    moreover have "as \<noteq> []" using all blk(3,6) len by auto
    ultimately show ?thesis using s'(4) by blast
  qed
  then show ?thesis using s'(1,2) epoch(2,3) by auto
qed

lemma run_epoch_exact:
  assumes lawful: "rq_lawful rq" "systematic rq" and ch: "bench_channels channels"
    and c: "c = audio_config_default\<lparr>ac_repair_symbols := repair\<rparr>" "unat repair \<le> 2 ^ 24 - 56403"
    and inv: "bench_inv c m s" and m: "m + 1 < 2 ^ 32"
  shows "\<exists>s'. run_epoch crc rq ck profile channels n deadline_ms seed epoch_id s = Inr s' \<and> bench_inv c (m + 1) s' \<and>
    (profile = Clean \<longrightarrow> bn_dropped s' = bn_dropped s \<and> bn_unrecovered s' = bn_unrecovered s)"
proof -
  define absolute where "absolute = sat_add (sat_mul seed n) epoch_id"
  let ?gs = "make_groups absolute channels"
  let ?ep = "bench_epoch absolute ?gs"
  define pay where "pay = s\<lparr>bn_total_energy := f64_add (bn_total_energy s) (epoch_energy absolute ?gs),
      bn_payload_bytes := sat_add (bn_payload_bytes s)
      (of_nat (sum_list (map (length \<circ> gp_payload) ?gs)))\<rparr>"
  have pay: "bn_encoder pay = bn_encoder s" "bn_decoder pay = bn_decoder s" "bn_dropped pay = bn_dropped s"
      "bn_unrecovered pay = bn_unrecovered s" by (simp_all add: pay_def)
  have cfg: "ae_config (bn_encoder s) = c" and id: "unat (audio_block_id (bn_encoder s)) = m"
    and old: "older m (bn_decoder s)" using inv by (simp_all add: bench_inv_def)
  have rep: "unat (ac_repair_symbols c) \<le> 2 ^ 24 - 56403" using c by simp
  obtain geo where send: "audio_sendable (ae_config (bn_encoder s)) ?ep geo"
    using bench_sendable [OF ch rep c(1)] cfg by blast
  obtain e' enc where enc: "encode_epoch crc rq (bn_encoder s) ?ep = (e', Inr enc)"
    and block: "ee_block_id enc = audio_block_id (bn_encoder s)" "audio_block_id e' = audio_block_id (bn_encoder s) + 1"
    using encode_epoch_lawful [OF lawful(1) send, of crc] by (auto simp: audio_block_id_def)
  define s2 where "s2 = fold count_datagram (ee_datagrams enc) (pay\<lparr>bn_encoder := e',
      bn_encode_elapsed := bn_encode_elapsed pay @ [ck_encode ck seed epoch_id],
      bn_sent := sat_add (bn_sent pay) (of_nat (length (ee_datagrams enc)))\<rparr>)"
  have s2: "bn_encoder s2 = e'" "bn_decoder s2 = bn_decoder s" "bn_dropped s2 = bn_dropped s"
      "bn_unrecovered s2 = bn_unrecovered s" by (simp_all add: s2_def pay)
  obtain as dropped lost where net: "network profile seed epoch_id absolute (ee_source_symbols enc)
      (enumerate 0 (ee_datagrams enc)) ([], bn_dropped s2, {}) = (as, dropped, lost)" by (metis prod_cases3)
  have wire: "fst ` set (enumerate 0 (ee_datagrams enc)) = {..<length (ee_datagrams enc)}"
    by (simp add: lessThan_atLeast0 flip: set_map)
  have arrived: "snd ` set (sort as) \<subseteq> {..<length (ee_datagrams enc)}"
    "profile = Clean \<longrightarrow> {..<length (ee_datagrams enc)} \<subseteq> snd ` set (sort as) \<and> dropped = bn_dropped s"
    using network_arrivals [OF net] unfolding wire s2 by auto
  have start: "done_inv (arrivals_start s2)" "as_delivered (arrivals_start s2) = {}"
      "as_decoder (arrivals_start s2) = bn_decoder s"
    by (simp_all add: done_inv_def arrivals_start_def s2)
  have fresh: "fresh_for (audio_block_id (bn_encoder s)) (as_decoder (arrivals_start s2))"
    using older_fresh [of "audio_block_id (bn_encoder s)" "bn_decoder s"] old id start(3) by simp
  obtain a where rec: "receive_arrivals crc rq (ck_encode ck seed epoch_id) (ck_decode ck seed epoch_id) ?gs absolute lost enc 0
        (sort as) (arrivals_start s2) = Inr a"
    and a: "audio_inv (as_decoder a)" "known_ids (as_decoder a) \<subseteq> insert (audio_block_id (bn_encoder s)) (known_ids (bn_decoder s))"
      "{..<length (ee_datagrams enc)} \<subseteq> snd ` set (sort as) \<longrightarrow> as_arrival_done a \<noteq> None"
    using arrivals_of_epoch [OF lawful send enc fresh arrived(1) start(1,2), of
        "ck_encode ck seed epoch_id" "ck_decode ck seed epoch_id" absolute lost]
    by (auto simp: bench_epoch_def start(3))
  let ?s3 = "close_arrivals (ee_block_id enc) a (s2\<lparr>bn_dropped := dropped\<rparr>)"
  let ?s' = "classify_epoch deadline_ms channels (epoch_energy absolute ?gs) a ?s3"
  have run: "run_epoch crc rq ck profile channels n deadline_ms seed epoch_id s = Inr ?s'"
    unfolding run_epoch_def Let_def absolute_def [symmetric] pay_def [symmetric] pay(1) enc prod.case sum.case
      s2_def [symmetric] net rec rbind_simps ..
  have dec: "audio_inv (bn_decoder ?s3)"
      "known_ids (bn_decoder ?s3) \<subseteq> insert (audio_block_id (bn_encoder s)) (known_ids (bn_decoder s))"
    using a(1,2) audio_expire_inv [OF a(1), of "ee_block_id enc"] audio_expire_known [of "as_decoder a" "ee_block_id enc"]
    by (auto simp: close_arrivals_def block(1) audio_inv_def)
  have "older (m + 1) (bn_decoder ?s3)"
    using older_next [OF old dec] id by simp
  moreover have "unat (audio_block_id e') = m + 1"
    using unat_next [of "audio_block_id (bn_encoder s)"] m id by (simp add: block(2))
  moreover have "ae_config e' = c" using encode_epoch_config [OF enc] cfg by simp
  ultimately have "bench_inv c (m + 1) ?s'"
    by (simp add: bench_inv_def classify_epoch_frame) (simp add: close_arrivals_def s2)
  moreover have "bn_dropped ?s' = dropped" by (simp add: classify_epoch_frame close_arrivals_def)
  moreover have "as_arrival_done a \<noteq> None \<Longrightarrow> bn_unrecovered ?s' = bn_unrecovered s"
    by (simp add: classify_epoch_frame(4) close_arrivals_def s2)
  ultimately show ?thesis using run arrived(2) a(3) by blast
qed

lemma run_epochs_exact:
  assumes lawful: "rq_lawful rq" "systematic rq" and ch: "bench_channels channels"
    and c: "c = audio_config_default\<lparr>ac_repair_symbols := repair\<rparr>" "unat repair \<le> 2 ^ 24 - 56403"
  shows "bench_inv c m s \<Longrightarrow> m + length ids < 2 ^ 32 \<Longrightarrow>
    \<exists>s'. run_epochs crc rq ck profile channels n deadline_ms seed ids s = Inr s' \<and> bench_inv c (m + length ids) s' \<and>
    (profile = Clean \<longrightarrow> bn_dropped s' = bn_dropped s \<and> bn_unrecovered s' = bn_unrecovered s)"
proof (induction ids arbitrary: m s)
  case (Cons i ids)
  obtain s1 where s1: "run_epoch crc rq ck profile channels n deadline_ms seed i s = Inr s1" "bench_inv c (m + 1) s1"
      "profile = Clean \<longrightarrow> bn_dropped s1 = bn_dropped s \<and> bn_unrecovered s1 = bn_unrecovered s"
    using run_epoch_exact [OF lawful ch c Cons.prems(1), of crc ck profile n deadline_ms seed i] Cons.prems(2) by auto
  show ?case using Cons.IH [OF s1(2)] Cons.prems(2) s1 by auto
qed simp

lemma run_seeds_exact:
  assumes lawful: "rq_lawful rq" "systematic rq" and ch: "bench_channels channels"
    and c: "c = audio_config_default\<lparr>ac_repair_symbols := repair\<rparr>" "unat repair \<le> 2 ^ 24 - 56403"
  shows "bench_inv c m s \<Longrightarrow> m + unat n * length seeds < 2 ^ 32 \<Longrightarrow>
    \<exists>s'. run_seeds crc rq ck profile channels n deadline_ms seeds s = Inr s' \<and>
    (profile = Clean \<longrightarrow> bn_dropped s' = bn_dropped s \<and> bn_unrecovered s' = bn_unrecovered s)"
proof (induction seeds arbitrary: m s)
  case (Cons seed seeds)
  have "bench_inv c m (s\<lparr>bn_missing_run := 0\<rparr>)" using Cons.prems(1) by (simp add: bench_inv_def)
  moreover have "m + length (map of_nat [0..<unat n] :: u64 list) < 2 ^ 32" using Cons.prems(2) by simp
  ultimately obtain s1 where s1: "run_seed crc rq ck profile channels n deadline_ms seed s = Inr s1" "bench_inv c (m + unat n) s1"
      "profile = Clean \<longrightarrow> bn_dropped s1 = bn_dropped s \<and> bn_unrecovered s1 = bn_unrecovered s"
    using run_epochs_exact [OF lawful ch c, of m "s\<lparr>bn_missing_run := 0\<rparr>" "map of_nat [0..<unat n]" crc ck profile n deadline_ms seed]
    unfolding run_seed_def by auto
  have "m + unat n + unat n * length seeds < 2 ^ 32" using Cons.prems(2) by simp
  from Cons.IH [OF s1(2) this] s1(1,3) show ?case by auto
qed simp

lemma bench_start_inv: "bench_inv c 0 (bench_start c)"
proof -
  have "older 0 (with_in_flight_limit 128 audio_decoder_new)"
    using older_new [of 0] by (simp add: with_in_flight_limit_def audio_decoder_new_def)
  then show ?thesis
    by (simp add: bench_inv_def bench_start_def audio_encoder_new_def audio_block_id_def encoder_new_def)
qed

lemma repair_budget:
  assumes "unat (k :: u16) \<le> 256" "pct \<le> (100 :: u32)"
  shows "unat (if pct = 0 then 0 else max (of_nat (div_ceil (unat (sat_mul (ucast k) pct)) 100)) 1 :: u32) \<le> 2 ^ 24 - 56403"
proof -
  have "unat (sat_mul (ucast k) pct) \<le> unat (ucast k :: u32) * unat pct" by (simp add: unat_sat_mul)
  also have "unat (ucast k :: u32) = unat k"
    by (simp add: unsigned_ucast_eq take_bit_nat_eq_self order_less_trans [OF unat_16])
  also have "unat k * unat pct \<le> 256 * 100"
    using assms by (intro mult_le_mono) (simp_all add: word_le_nat_alt)
  finally have "div_ceil (unat (sat_mul (ucast k) pct)) 100 \<le> 256" by (simp add: div_ceil_le_iff)
  then have "unat (of_nat (div_ceil (unat (sat_mul (ucast k) pct)) 100) :: u32) \<le> 256"
    by (simp add: unat_of_nat take_bit_nat_eq_self)
  then show ?thesis by (auto simp: max_def)
qed

lemma run_case_exact:
  assumes lawful: "rq_lawful rq" "systematic rq" and ch: "bench_channels channels"
    and pct: "cd_repair_percent cd \<le> 100" and n: "unat n * unat (profile_seeds profile) < 2 ^ 32"
  shows "\<exists>row. run_case log10 crc rq ck cd profile channels n deadline_ms = Inr row \<and> br_candidate row = cd_name cd \<and>
    br_loss_profile row = loss_profile_name profile \<and>
    (profile = Clean \<longrightarrow> br_dropped row = 0 \<and> br_unrecovered row = 0)"
proof -
  obtain geo where "audio_sendable audio_config_default (bench_epoch 0 (make_groups 0 channels)) geo"
    using bench_sendable [OF ch, of audio_config_default 4 0 0] by (auto simp: audio_config_default_def)
  then obtain mp where mp: "max_fragment_payload audio_config_default = Inr mp"
    and geo: "geometry_for_groups audio_config_default (make_groups 0 channels) = Inr geo"
    by (auto simp: audio_sendable_def bench_epoch_def)
  have k: "unat (ag_source_symbols geo) \<le> 256"
    using geometry_Inr(5,7) [OF geo mp] by (simp add: audio_config_default_def)
  define repair :: u32 where "repair = (if cd_repair_percent cd = 0 then 0
      else max (of_nat (div_ceil (unat (sat_mul (ucast (ag_source_symbols geo)) (cd_repair_percent cd))) 100)) 1)"
  have "unat repair \<le> 2 ^ 24 - 56403" unfolding repair_def by (rule repair_budget [OF k pct])
  note seeds = run_seeds_exact [OF lawful ch refl this bench_start_inv]
  obtain s where "run_seeds crc rq ck profile channels n deadline_ms (map of_nat [0..<unat (profile_seeds profile)])
      (bench_start (audio_config_default\<lparr>ac_repair_symbols := repair\<rparr>)) = Inr s"
    and clean: "profile = Clean \<longrightarrow> bn_dropped s = 0 \<and> bn_unrecovered s = 0"
    using seeds [of n "map of_nat [0..<unat (profile_seeds profile)]" crc ck profile deadline_ms] n by (auto simp: bench_start_def)
  then have "run_case log10 crc rq ck cd profile channels n deadline_ms =
      Inr (bench_report log10 cd profile n (ag_source_symbols geo) repair s)"
    unfolding run_case_def geo map_err_simps rbind_simps Let_def repair_def [symmetric] by simp
  then show ?thesis using clean by (simp add: bench_report_def Let_def)
qed

section \<open>The benchmark completes\<close>

text \<open>What a row says of the epochs of its case.\<close>

definition row_adds_up :: "u64 \<Rightarrow> bench_candidate \<times> loss_profile \<Rightarrow> baseline_row \<Rightarrow> bool" where
  "row_adds_up n x row \<longleftrightarrow> (let profile = snd x in
     br_candidate row = cd_name (fst x) \<and> br_loss_profile row = loss_profile_name profile \<and>
     unat (br_epochs row) = unat n * unat (profile_seeds profile) \<and>
     unat (br_exact row) + unat (br_late_exact row) + unat (br_unrecovered row) = unat (br_epochs row) \<and>
     unat (br_deadline_misses row) = unat (br_late_exact row) + unat (br_unrecovered row) \<and>
     unat (br_max_missing_epochs row) \<le> unat (br_deadline_misses row) \<and>
     unat (br_observed_exact row) + unat (br_observed_late row) = unat (br_exact row) + unat (br_late_exact row) \<and>
     br_observed_exact row \<le> br_exact row \<and>
     (profile = Clean \<longrightarrow> br_dropped row = 0 \<and> br_unrecovered row = 0))"

lemma run_cases_exact:
  assumes lawful: "rq_lawful rq" "systematic rq" and ch: "bench_channels channels" and n: "10 * unat n < 2 ^ 32"
  shows "\<forall>x \<in> set cases. cd_repair_percent (fst x) \<le> 100 \<Longrightarrow>
    \<exists>rows. run_cases log10 crc rq ck channels n deadline_ms cases = Inr rows \<and> list_all2 (row_adds_up n) cases rows"
proof (induction cases)
  case (Cons x cases)
  obtain cd profile where x: "x = (cd, profile)" by (cases x)
  have "unat (profile_seeds profile) \<le> 10" by (simp add: profile_seeds_def)
  then have "unat n * unat (profile_seeds profile) \<le> unat n * 10" by (rule mult_le_mono2)
  then have small: "unat n * unat (profile_seeds profile) < 2 ^ 32" using n by linarith
  obtain row where row: "run_case log10 crc rq (ck cd profile) cd profile channels n deadline_ms = Inr row"
      "br_candidate row = cd_name cd" "br_loss_profile row = loss_profile_name profile"
      "profile = Clean \<longrightarrow> br_dropped row = 0 \<and> br_unrecovered row = 0"
    using run_case_exact [OF lawful ch _ small, of cd log10 crc "ck cd profile" deadline_ms] Cons.prems by (auto simp: x)
  have "row_adds_up n x row"
    using case_tally [OF row(1)] small row(2-4) by (simp add: row_adds_up_def x)
  then show ?case using Cons row(1) by (auto simp: x)
qed simp

text \<open>
  The recovery benchmark completes and its rows add up. With a lawful and systematic codec, for 1 to
  128 channels and fewer than 2^32 epochs in a case, whatever the wall clock measures, no case fails:
  every shard the decoder delivers equals the bytes that were encoded, under every loss profile. The
  rows come in the order of the cases; in each, every epoch that was sent is exact in time, exact but
  late or not recovered, and only one of these; the deadline misses are the last two, no run of misses is
  longer than their number, and the epochs observed in time are among the exact ones. On a clean
  network nothing is dropped and every epoch is recovered.
\<close>
lemma benchmark_completes:
  assumes "rq_lawful rq" "systematic rq" "0 < channels" "channels \<le> 128" "0 < n" "10 * unat n < 2 ^ 32" "0 < deadline_ms"
  shows "\<exists>rows. bench_rows log10 crc rq ck channels n deadline_ms = Inr rows \<and>
    list_all2 (row_adds_up n) (List.product bench_candidates bench_profiles) rows"
proof -
  have cases: "concat (map (\<lambda>cd. map (Pair cd) bench_profiles) bench_candidates) = List.product bench_candidates bench_profiles"
    by (simp add: product_concat_map)
  have "\<forall>x \<in> set (List.product bench_candidates bench_profiles). cd_repair_percent (fst x) \<le> 100"
    by (auto simp: bench_candidates_def)
  moreover have "bench_channels channels" using assms(3,4) by (simp add: bench_channels_def)
  ultimately obtain rows where "run_cases log10 crc rq ck channels n deadline_ms (List.product bench_candidates bench_profiles) = Inr rows"
      "list_all2 (row_adds_up n) (List.product bench_candidates bench_profiles) rows"
    using run_cases_exact [OF assms(1,2) _ assms(6), of channels _ log10 crc ck deadline_ms] by blast
  then show ?thesis
    using assms(3-5,7) unfolding bench_rows_def cases by (auto simp: not_less word_neq_0_conv)
qed

end
