(* ===== verification/Recovery_Quality.thy ===== *)
theory Recovery_Quality
  imports Recovery_Exactness
begin

text \<open>
  The quality figures of the recovery benchmark, which are computed in \<^verbatim>\<open>f64\<close>: the energies of the signal and of
  what had to be replaced by silence, their ratio in decibels, and the ratios of counts and bytes.
\<close>

section \<open>Energies are bounded\<close>

lemma f64_of_small_int:
  assumes "\<bar>k\<bar> \<le> 2 ^ 53"
  shows "f64_of_int k = Fin64 (of_int k)"
proof (cases "0 \<le> k")
  case True
  then show ?thesis using f64_of_int_exact [of k] assms by simp
next
  case False
  then have "f64_round (of_int (- k)) = Fin64 (of_int (- k))"
    using f64_round_exact [of "- k" 0] assms by (simp add: pow2_def)
  then show ?thesis using False by (auto simp: f64_of_int_def f64_round_def split: if_splits)
qed

lemma sample_range: "\<bar>sint (sample_value e fr c)\<bar> \<le> 2 ^ 23"
proof -
  define a :: u64 where "a = mix64 (e XOR word_rotl 19 (ucast fr) XOR word_rotl 43 (ucast c)) AND 0x00ffffff"
  have "a \<le> 0x00ffffff" unfolding a_def by (rule word_and_le1)
  then have "uint a \<le> 16777215" by (simp add: word_le_def)
  then have "sint (of_int (uint a - 8388608) :: u32) = uint a - 8388608"
    unfolding signed_of_int of_int_eq_id id_apply by (intro signed_take_bit_int_eq_self) simp_all
  moreover have "(ucast a :: u32) - 0x00800000 = of_int (uint a - 8388608)" by simp
  ultimately have "sint ((ucast a :: u32) - 0x00800000) = uint a - 8388608" by (simp only:)
  then show ?thesis using \<open>uint a \<le> 16777215\<close> uint_ge_0 [of a]
    by (simp add: abs_le_iff sample_value_def Let_def a_def [symmetric])
qed

lemma sample_energy_upto: "energy_upto (of_int 1 * pow2 46) (sample_energy (sample_value e fr c))"
proof -
  define k where "k = sint (sample_value e fr c)"
  have k: "\<bar>k\<bar> \<le> 2 ^ 23" unfolding k_def by (rule sample_range)
  have "k * k = \<bar>k\<bar> * \<bar>k\<bar>" by simp
  also have "\<dots> \<le> 2 ^ 23 * 2 ^ 23" by (rule mult_mono [OF k k]) simp_all
  finally have "(of_int (k * k) :: rat) \<le> of_int (2 ^ 46)" by (simp only: of_int_le_iff) simp
  then have le: "(of_int k * of_int k :: rat) \<le> of_int 1 * pow2 46" by (simp add: pow2_def)
  have "k * k = 0 \<or> 1 \<le> k * k" by (cases "k = 0") (auto simp: int_one_le_iff_zero_less zero_less_mult_iff)
  then have "(of_int (k * k) :: rat) = 0 \<or> 1 \<le> (of_int (k * k) :: rat)" by (simp only: of_int_eq_0_iff of_int_1_le_iff)
  then have "energy_upto (of_int 1 * pow2 46) (f64_round (of_int k * of_int k))"
    by (intro energy_round le) simp_all
  moreover have "\<bar>k\<bar> \<le> 2 ^ 53" using k by simp
  ultimately show ?thesis by (simp add: sample_energy_def k_def [symmetric] f64_of_small_int)
qed

lemma length_group_samples: "length (group_samples e start n) = 240 * unat n"
  by (simp add: group_samples_def length_concat comp_def BENCH_FRAME_COUNT_def map_replicate_const sum_list_replicate)

lemma signal_energy_upto:
  assumes "unat (gp_channel_count g) \<le> 8"
  shows "energy_upto (of_int 1920 * pow2 46) (signal_energy e g)"
proof -
  let ?es = "map sample_energy (group_samples e (gp_channel_start g) (gp_channel_count g))"
  have "length ?es \<le> 1920" using assms by (simp add: length_group_samples)
  then have len: "int (length ?es) \<le> 1920" by linarith
  have "\<forall>x \<in> set ?es. energy_upto (of_int 1 * pow2 46) x"
    by (simp only: set_map group_samples_def set_concat) (auto simp: sample_energy_upto [simplified])
  then have "energy_upto (of_int (0 + int (length ?es) * 1) * pow2 46) (signal_energy e g)"
    unfolding signal_energy_def by (intro sum_upto) (use len in simp_all)
  then show ?thesis
    by (rule energy_upto_mono) (intro mult_right_mono less_imp_le [OF pow2_pos], use len in simp)
qed

lemma epoch_energy_upto: "energy_upto (pow2 70) (epoch_energy e (make_groups k channels))"
proof -
  let ?es = "map (signal_energy e) (make_groups k channels)"
  have "8 * length ?es \<le> unat channels + 7"
    using length_make_groups_from [of k channels 0] by (simp add: make_groups_def)
  then have "length ?es \<le> 8192" using unat_16 [of channels] by linarith
  then have len: "int (length ?es) \<le> 8192" by linarith
  have "\<forall>x \<in> set ?es. energy_upto (of_int 1920 * pow2 46) x"
    using signal_energy_upto make_groups_from_facts by (auto simp: make_groups_def)
  then have "energy_upto (of_int (0 + int (length ?es) * 1920) * pow2 46) (epoch_energy e (make_groups k channels))"
    unfolding epoch_energy_def by (intro sum_upto) (use len in simp_all)
  then show ?thesis
  proof (rule energy_upto_mono)
    have "of_int (0 + int (length ?es) * 1920) \<le> (of_int (2 ^ 24) :: rat)" using len by (simp only: of_int_le_iff) simp
    then have "of_int (0 + int (length ?es) * 1920) * pow2 46 \<le> of_int (2 ^ 24) * pow2 46"
      by (rule mult_right_mono) (rule less_imp_le [OF pow2_pos])
    then show "of_int (0 + int (length ?es) * 1920) * pow2 46 \<le> pow2 70" by (simp add: pow2_def [of 46] pow2_def [of 70])
  qed
qed

section \<open>What was lost is part of the signal\<close>

definition missed_some :: "'d bench \<Rightarrow> bool" where
  "missed_some s \<longleftrightarrow> bn_late_exact s \<noteq> 0 \<or> bn_unrecovered s \<noteq> 0"

definition quality_inv :: "'d bench \<Rightarrow> bool" where
  "quality_inv s \<longleftrightarrow> (\<exists>e t. bn_error_energy s = Fin64 e \<and> bn_total_energy s = Fin64 t \<and>
     energy_upto (pow2 125) (Fin64 e) \<and> energy_upto (pow2 125) (Fin64 t) \<and> float64 t \<and> e \<le> t \<and>
     (e \<noteq> 0 \<longrightarrow> missed_some s))"

lemma sat_add_one: "sat_add c (1 :: u64) \<noteq> 0"
proof
  assume "sat_add c (1 :: u64) = 0"
  then have "unat (sat_add c (1 :: u64)) = 0" by simp
  then show False by (simp add: unat_sat_add)
qed

lemma classify_energy:
  "bn_total_energy (classify_epoch deadline_ms channels energy a s) = bn_total_energy s"
  "missed_some s \<Longrightarrow> missed_some (classify_epoch deadline_ms channels energy a s)"
  "bn_error_energy (classify_epoch deadline_ms channels energy a s) = bn_error_energy s \<or>
   bn_error_energy (classify_epoch deadline_ms channels energy a s) = f64_add (bn_error_energy s) energy \<and>
   missed_some (classify_epoch deadline_ms channels energy a s)"
  by (auto simp: classify_epoch_def miss_epoch_def missed_some_def Let_def sat_add_one split: option.split)

lemma count_datagrams_energy [simp]:
  "bn_total_energy (fold count_datagram ds s) = bn_total_energy s"
  "bn_error_energy (fold count_datagram ds s) = bn_error_energy s"
  "missed_some (fold count_datagram ds s) = missed_some s"
  by (induction ds arbitrary: s) (simp_all add: count_datagram_def missed_some_def split: audio_role.split)

lemma run_epoch_quality:
  assumes run: "run_epoch crc rq ck profile channels n deadline_ms seed epoch_id s = Inr s'" and inv: "quality_inv s"
  shows "quality_inv s'"
proof -
  obtain energy a block_id d ds s1 where s1:
      "energy = epoch_energy (sat_add (sat_mul seed n) epoch_id) (make_groups (sat_add (sat_mul seed n) epoch_id) channels)"
      "bn_total_energy s1 = f64_add (bn_total_energy s) energy" "bn_error_energy s1 = bn_error_energy s"
      "bn_late_exact s1 = bn_late_exact s" "bn_unrecovered s1 = bn_unrecovered s"
    and s': "s' = classify_epoch deadline_ms channels energy a
       (close_arrivals block_id a ((fold count_datagram ds s1)\<lparr>bn_dropped := d\<rparr>))"
    by (rule run_epoch_shape [OF run]) blast
  let ?s2 = "close_arrivals block_id a ((fold count_datagram ds s1)\<lparr>bn_dropped := d\<rparr>)"
  have frame: "bn_total_energy ?s2 = f64_add (bn_total_energy s) energy" "bn_error_energy ?s2 = bn_error_energy s"
      "missed_some ?s2 = missed_some s"
    using count_datagrams_energy(3) [of ds s1] s1 by (simp_all add: close_arrivals_def missed_some_def)
  obtain e t where et: "bn_error_energy s = Fin64 e" "bn_total_energy s = Fin64 t" "energy_upto (pow2 125) (Fin64 e)"
      "energy_upto (pow2 125) (Fin64 t)" "float64 t" "e \<le> t" "e \<noteq> 0 \<longrightarrow> missed_some s"
    using inv by (auto simp: quality_inv_def)
  have z: "energy_upto (pow2 70) energy" unfolding s1(1) by (rule epoch_energy_upto)
  then obtain x where x: "energy = Fin64 x" "0 \<le> x" by (rule energy_uptoE)
  obtain e1 t1 where add: "f64_add (Fin64 e) energy = Fin64 e1" "f64_add (Fin64 t) energy = Fin64 t1" "e1 \<le> t1"
    using add_both [OF et(3,4,6) z] by blast
  have up: "energy_upto (pow2 125) (Fin64 e1)" "energy_upto (pow2 125) (Fin64 t1)"
    using add_saturates [OF et(3) z] add_saturates [OF et(4) z] by (simp_all only: add)
  have "0 \<le> t" using et(4) by auto
  then have grow: "t \<le> t1" "float64 t1" using add_grows [OF et(5) _ x(2) add(2) [unfolded x(1)]] by blast+
  have total: "bn_total_energy s' = Fin64 t1" unfolding s' classify_energy(1) frame et(2) by (rule add(2))
  consider "bn_error_energy s' = Fin64 e" "missed_some s \<longrightarrow> missed_some s'"
    | "bn_error_energy s' = Fin64 e1" "missed_some s'"
    using classify_energy(2) [of ?s2 deadline_ms channels energy a] classify_energy(3) [of deadline_ms channels energy a ?s2]
    unfolding s' frame et(1) add(1) by blast
  then show ?thesis
  proof cases
    case 1
    then show ?thesis unfolding quality_inv_def using et(3,6,7) up(2) grow total by (intro exI [of _ e] exI [of _ t1]) auto
  next
    case 2
    then show ?thesis unfolding quality_inv_def using up grow(2) add(3) total by (intro exI [of _ e1] exI [of _ t1]) auto
  qed
qed

lemma run_epochs_quality:
  "run_epochs crc rq ck profile channels n deadline_ms seed ids s = Inr s' \<Longrightarrow> quality_inv s \<Longrightarrow> quality_inv s'"
  by (induction ids arbitrary: s) (auto simp: rbind_eq_Inr dest: run_epoch_quality)

lemma run_seeds_quality:
  "run_seeds crc rq ck profile channels n deadline_ms seeds s = Inr s' \<Longrightarrow> quality_inv s \<Longrightarrow> quality_inv s'"
proof (induction seeds arbitrary: s)
  case (Cons seed seeds)
  have "quality_inv (s\<lparr>bn_missing_run := 0\<rparr>)" using Cons.prems(2) by (simp add: quality_inv_def missed_some_def)
  then show ?case using Cons by (auto simp: rbind_eq_Inr run_seed_def dest: run_epochs_quality)
qed simp

lemma start_quality: "quality_inv (bench_start c)"
  by (simp add: quality_inv_def bench_start_def float64_def less_imp_le [OF pow2_pos])

section \<open>Properties\<close>

text \<open>
  C37. The signal-to-noise ratio of a row. In the row of any case that ran through, with any codec, loss profile,
  wall clock and number of channels and epochs, the quality of a stream whose missed epochs are replaced by silence
  is given only when an epoch was missed, and it is then ten times the logarithm of a finite number of at least one:
  rounding never makes what was lost more than the whole signal, the sums of squared samples never overflow, and no
  infinity or NaN comes from the division.
\<close>

theorem silence_fallback_quality:
  assumes "run_case log10 crc rq ck cd profile channels n deadline_ms = Inr row"
  shows "case br_silence_snr_db row of
      None \<Rightarrow> True
    | Some db \<Rightarrow> (br_late_exact row \<noteq> 0 \<or> br_unrecovered row \<noteq> 0) \<and>
        (\<exists>q \<ge> 1. db = f64_mul (Fin64 10) (log10 (Fin64 q)))"
proof -
  obtain k repair s where run: "run_seeds crc rq ck profile channels n deadline_ms
      (map of_nat [0..<unat (profile_seeds profile)])
      (bench_start (audio_config_default\<lparr>ac_repair_symbols := repair\<rparr>)) = Inr s"
    and row: "row = bench_report log10 cd profile n k repair s"
    using assms by (auto simp: run_case_def rbind_eq_Inr Let_def)
  obtain e t where et: "bn_error_energy s = Fin64 e" "bn_total_energy s = Fin64 t" "energy_upto (pow2 125) (Fin64 e)"
      "energy_upto (pow2 125) (Fin64 t)" "e \<le> t" "e \<noteq> 0 \<longrightarrow> missed_some s"
    using run_seeds_quality [OF run start_quality] by (auto simp: quality_inv_def)
  show ?thesis
  proof (cases "0 < e")
    case True
    obtain q where "f64_div (Fin64 t) (Fin64 e) = Fin64 q" "1 \<le> q"
      using energy_quotient [OF et(4) True et(5,3)] by blast
    then show ?thesis
      using True et(6) unfolding row bench_report_def Let_def et(1,2) by (auto simp: missed_some_def)
  qed (simp add: row bench_report_def Let_def et(1))
qed

theorem silence_fallback_quality_witness:
  "\<exists>row. run_case id crc_reference rep_codec \<lparr>ck_encode = \<lambda>_ _. 1000, ck_decode = \<lambda>_ _ _. 500\<rparr>
       \<lparr>cd_name = ''none'', cd_repair_percent = 0\<rparr> (Independent 50000) 20 3 20 = Inr row \<and>
     (br_silence_snr_db row = None \<or>
      (br_late_exact row \<noteq> 0 \<or> br_unrecovered row \<noteq> 0) \<and>
      (\<exists>q \<ge> 1. br_silence_snr_db row = Some (f64_mul (Fin64 10) (Fin64 q))))"
proof -
  let ?cd = "\<lparr>cd_name = ''none'', cd_repair_percent = 0\<rparr>"
  have ch: "bench_channels 20" by (simp add: bench_channels_def)
  have n: "unat (3 :: u64) * unat (profile_seeds (Independent 50000)) < 2 ^ 32" by (simp add: profile_seeds_def)
  have pct: "cd_repair_percent ?cd \<le> 100" by simp
  obtain row where "run_case id crc_reference rep_codec \<lparr>ck_encode = \<lambda>_ _. 1000, ck_decode = \<lambda>_ _ _. 500\<rparr>
       ?cd (Independent 50000) 20 3 20 = Inr row"
    using run_case_exact [OF rep_codec_lawful rep_codec_systematic ch pct n] by blast
  then show ?thesis using silence_fallback_quality [of id] by (fastforce split: option.splits)
qed

lemma f64_of_word:
  assumes "unat (w :: u64) \<le> 2 ^ 53"
  shows "f64_of_int (uint w) = Fin64 (of_nat (unat w))"
proof -
  have "int (unat w) \<le> int (2 ^ 53)" using assms by (rule of_nat_mono)
  then have "f64_of_int (int (unat w)) = Fin64 (of_int (int (unat w)))" by (intro f64_of_int_exact) simp_all
  then show ?thesis by simp
qed

text \<open>
  The ratios of the report are accurate. For counts and byte sums up to 2^53, the ratio of two of them is a
  finite \<^verbatim>\<open>f64\<close> that is off the exact quotient by a relative error of at most 2^-53, the best there is; and it is zero
  when there is nothing to divide by.
\<close>

lemma ratio_is_nearest:
  assumes "unat numerator \<le> 2 ^ 53" "unat denominator \<le> 2 ^ 53"
  shows "\<exists>r. ratio numerator denominator = Fin64 r \<and>
    (if denominator = 0 then r = 0
     else \<bar>r - of_nat (unat numerator) / of_nat (unat denominator)\<bar>
       \<le> of_nat (unat numerator) / of_nat (unat denominator) / 2 ^ 53)"
proof (cases "denominator = 0")
  case False
  let ?n = "unat numerator" and ?d = "unat denominator"
  let ?x = "of_nat ?n / of_nat ?d :: rat"
  have d: "0 < ?d" using False by (simp add: unat_gt_0)
  have ratio: "ratio numerator denominator = f64_round ?x"
    using False d f64_of_word [OF assms(1)] f64_of_word [OF assms(2)] by (simp add: ratio_def del: of_nat_unat)
  show ?thesis
  proof (cases "?n = 0")
    case False
    have nat: "0 < k \<Longrightarrow> 1 \<le> (of_nat k :: rat)" "k \<le> 2 ^ 53 \<Longrightarrow> of_nat k \<le> pow2 53" for k
      by simp (simp add: pow2_nat)
    have one: "1 \<le> (of_nat ?n :: rat)" "1 \<le> (of_nat ?d :: rat)" using False nat(1) [OF d] nat(1) [of ?n] by blast+
    have le: "(of_nat ?n :: rat) \<le> pow2 53" "(of_nat ?d :: rat) \<le> pow2 53" using nat(2) assms by blast+
    have "?x \<le> of_nat ?n / 1" using one by (intro divide_left_mono) auto
    then have up: "?x \<le> of_int 1 * pow2 53" using le(1) by simp
    have "1 / pow2 53 \<le> ?x" using one le by (intro frac_le) auto
    moreover have "pow2 (- 1022) \<le> pow2 (- 53)" by (rule pow2_mono) simp
    moreover have "pow2 (- 53) = 1 / pow2 53" by (simp add: pow2_def)
    ultimately have low: "pow2 (- 1022) \<le> ?x" by linarith
    obtain q where "f64_round ?x = Fin64 q" "\<bar>q - ?x\<bar> \<le> ?x / 2 ^ 53"
      by (rule f64_round_nearest [OF low up]) simp_all
    then show ?thesis using \<open>denominator \<noteq> 0\<close> by (simp add: ratio)
  qed (simp add: ratio)
qed (simp add: ratio_def)

end
