(* ===== verification/Payload_Geometry.thy ===== *)
theory Payload_Geometry
  imports Loss_Model Audio_Transfer
begin

text \<open>
  The geometry table of \<^verbatim>\<open>raptorq-datagram-fec/examples/audio_recovery_baseline.rs\<close>:
  \<open>payload_geometry_cases\<close> encodes one mono group per payload length and reports its datagrams.
\<close>

record geometry_case =
  gc_case :: string
  gc_kind :: string
  gc_semantics :: string
  gc_payload_kind :: payload_kind
  gc_sample_format :: sample_format
  gc_payload_len :: nat

record geometry_row =
  gr_case :: string
  gr_payload_kind :: string
  gr_semantics :: string
  gr_channels :: u16
  gr_payload_bytes :: nat
  gr_source_symbols :: u16
  gr_repair_symbols :: u32
  gr_source_datagrams :: nat
  gr_repair_datagrams :: nat
  gr_source_bytes :: u64
  gr_repair_bytes :: u64
  gr_maximum_bytes :: nat
  gr_mtu :: nat
  gr_padded :: bool
  gr_repair_count_ratio :: f64
  gr_repair_byte_ratio :: f64

definition opus_case :: "string \<Rightarrow> string \<Rightarrow> nat \<Rightarrow> geometry_case" where
  "opus_case case_name semantics n =
     \<lparr>gc_case = case_name, gc_kind = ''opus'', gc_semantics = semantics, gc_payload_kind = Opus,
      gc_sample_format = Unspecified, gc_payload_len = n\<rparr>"

definition geometry_cases :: "geometry_case list" where
  "geometry_cases =
     (let opaque = ''opaque encoded-payload length fixture; no codec decode'' in
     [\<lparr>gc_case = ''pcm_s24le_mono_5ms'', gc_kind = ''pcm'', gc_semantics = ''one 5 ms S24LE mono epoch'',
       gc_payload_kind = Pcm, gc_sample_format = S24Le, gc_payload_len = 720\<rparr>,
      \<lparr>gc_case = ''flac_s24le_mono_360_bytes'', gc_kind = ''flac'', gc_semantics = opaque,
       gc_payload_kind = Flac, gc_sample_format = S24Le, gc_payload_len = 360\<rparr>,
      opus_case ''opus_mono_5_bytes'' opaque 5,
      opus_case ''opus_mono_20_bytes'' opaque 20,
      opus_case ''opus_mono_60_bytes'' opaque 60,
      opus_case ''opus_mono_160_bytes'' opaque 160,
      opus_case ''opus_mono_400_bytes'' opaque 400,
      opus_case ''opus_mono_maximum_1275_bytes''
        ''opaque maximum Opus packet length fixture; no codec decode'' 1275])"

definition case_group :: "nat \<Rightarrow> geometry_case \<Rightarrow> audio_group" where
  "case_group case_index gc =
     \<lparr>gp_group_id = 0, gp_channel_start = 0, gp_channel_count = 1, gp_payload_kind = gc_payload_kind gc,
      gp_sample_format = gc_sample_format gc, gp_flags = 0,
      gp_payload = map (\<lambda>i. ucast (mix64 (of_nat case_index XOR of_nat i))) [0..<gc_payload_len gc]\<rparr>"

definition case_epoch :: "nat \<Rightarrow> geometry_case \<Rightarrow> audio_epoch" where
  "case_epoch case_index gc =
     \<lparr>ep_session_id = 0x47454f4d45545259, ep_config_generation = 1, ep_epoch_id = of_nat case_index,
      ep_pts_samples = of_nat case_index * ucast BENCH_FRAME_COUNT, ep_sample_rate = BENCH_SAMPLE_RATE,
      ep_frame_count = BENCH_FRAME_COUNT, ep_groups = [case_group case_index gc]\<rparr>"

text \<open>The sum of the payload lengths of the datagrams that \<open>p\<close> selects.\<close>

definition role_bytes :: "(audio_role \<Rightarrow> bool) \<Rightarrow> encoded_epoch \<Rightarrow> u64" where
  "role_bytes p encoded =
     sum_list (map (\<lambda>d. of_nat (length (adg_payload d))) (filter (p \<circ> adg_role) (ee_datagrams encoded)))"

definition geometry_row_for ::
    "crc_fun \<Rightarrow> ('e, 'd) raptorq \<Rightarrow> nat \<times> geometry_case \<Rightarrow> (audio_fec_error, geometry_row) result" where
  "geometry_row_for crc rq x =
     (let (case_index, gc) = x
      in rbind (geometry_for_groups audio_config_default [case_group case_index gc]) (\<lambda>geo.
        (let source_symbols = ag_source_symbols geo;
             repair = max (of_nat (div_ceil (unat (sat_mul (ucast source_symbols) (20 :: u32))) 100)) 1;
             config = audio_config_default\<lparr>ac_repair_symbols := repair\<rparr>
         in rbind (snd (encode_epoch crc rq (audio_encoder_new config) (case_epoch case_index gc))) (\<lambda>encoded.
           (let maximum = fold max (map (length \<circ> adg_payload) (ee_datagrams encoded)) 0;
                source_bytes = role_bytes is_source encoded;
                repair_bytes = role_bytes (\<lambda>r. \<not> is_source r) encoded
            in Inr \<lparr>gr_case = gc_case gc, gr_payload_kind = gc_kind gc, gr_semantics = gc_semantics gc,
                 gr_channels = 1, gr_payload_bytes = gc_payload_len gc, gr_source_symbols = source_symbols,
                 gr_repair_symbols = repair, gr_source_datagrams = source_datagram_count encoded,
                 gr_repair_datagrams = repair_datagram_count encoded,
                 gr_source_bytes = source_bytes,
                 gr_repair_bytes = repair_bytes, gr_maximum_bytes = maximum,
                 gr_mtu = ac_max_datagram_size config,
                 gr_padded = (maximum = ac_max_datagram_size config),
                 gr_repair_count_ratio = ratio (of_nat (repair_datagram_count encoded)) (of_nat (source_datagram_count encoded)),
                 gr_repair_byte_ratio = ratio repair_bytes source_bytes\<rparr>)))))"

fun collect_rows ::
    "crc_fun \<Rightarrow> ('e, 'd) raptorq \<Rightarrow> (nat \<times> geometry_case) list \<Rightarrow> (audio_fec_error, geometry_row list) result" where
  "collect_rows crc rq [] = Inr []"
| "collect_rows crc rq (x # xs) =
     rbind (geometry_row_for crc rq x) (\<lambda>row. rbind (collect_rows crc rq xs) (\<lambda>rows. Inr (row # rows)))"

definition payload_geometry_cases ::
    "crc_fun \<Rightarrow> ('e, 'd) raptorq \<Rightarrow> (audio_fec_error, geometry_row list) result" where
  "payload_geometry_cases crc rq = collect_rows crc rq (enumerate 0 geometry_cases)"

section \<open>The geometry of one group\<close>

text \<open>With \<open>n\<close> fragments of \<open>fp\<close> bytes the cheapest choice, the search finds it.\<close>

lemma one_group_geometry:
  assumes geo: "geometry_for_groups audio_config_default [g] = Inr geo" and len: "group_len g = len"
    and fp: "0 < fp" "fp \<le> 1084" "div_ceil len fp = n" "n \<le> 256"
    and fewest: "n = div_ceil len 1084" and tight: "n * fp < len + n" and small: "len \<le> 1275"
  shows "unat (ag_source_symbols geo) = n" "unat (ag_symbol_size geo) = 72 + fp"
proof -
  have mp: "max_fragment_payload audio_config_default = Inr 1084"
    by (simp add: max_fragment_payload_Inr audio_config_default_def usize_max_def)
  note g = geometry_Inr [OF geo mp]
  let ?fp = "ag_fragment_payload geo" and ?k = "div_ceil len (ag_fragment_payload geo)"
  have ms: "unat (ac_max_source_symbols audio_config_default) = 256" "ac_transport_overhead audio_config_default = 0"
    by (simp_all add: audio_config_default_def)
  have "n * (116 + fp) \<le> 256 * (116 + 1084)" using fp by (intro mult_le_mono) simp_all
  then have cost: "?k * (116 + ?fp) \<le> n * (116 + fp)"
    using g(8) [of fp] fp ms by (simp add: len usize_max_def)
  have k: "n \<le> ?k" using g(2,3) by (simp add: fewest div_ceil_mono)
  have cover: "len \<le> ?k * ?fp" using div_ceil_upper [OF g(2), of len] .
  have "?k * 116 + len \<le> ?k * (116 + ?fp)" using cover by (simp add: add_mult_distrib2)
  moreover have "n * (116 + fp) < n * 116 + (len + n)" using tight by (simp add: add_mult_distrib2)
  ultimately have "?k * 116 < n * 117" using cost by linarith
  moreover have "n \<le> 2" using fewest small by (simp add: div_ceil_le_iff)
  ultimately have kn: "?k = n" using k by linarith
  then show "unat (ag_source_symbols geo) = n" using g(5) by (simp add: len)
  have pos: "0 < n" using g(6) kn by (simp add: len)
  have "n * ?fp \<le> n * fp" using cost by (simp add: kn add_mult_distrib2)
  moreover have "n * fp < n * ?fp + n" using cover tight by (simp add: kn)
  ultimately have "?fp = fp"
    using pos by (metis (no_types) add_mult_distrib2 le_antisym less_Suc_eq_le mult_Suc_right mult_le_cancel1
      mult_less_cancel1 add.commute)
  then show "unat (ag_symbol_size geo) = 72 + fp" using g(4) by simp
qed

section \<open>The rows\<close>

lemma epoch_datagram_sizes:
  assumes lawful: "rq_lawful rq" and send: "audio_sendable (ae_config e) ep geo"
  defines "K \<equiv> unat (ag_source_symbols geo)" and "R \<equiv> unat (ac_repair_symbols (ae_config e))"
    and "s \<equiv> unat (ag_symbol_size geo)"
  shows "\<exists>e' enc. encode_epoch crc rq e ep = (e', Inr enc) \<and> source_datagram_count enc = K \<and>
    repair_datagram_count enc = R \<and> role_bytes is_source enc = of_nat (K * (36 + s)) \<and>
    role_bytes (\<lambda>r. \<not> is_source r) enc = of_nat (R * (44 + s)) \<and>
    (0 < R \<longrightarrow> fold max (map (length \<circ> adg_payload) (ee_datagrams enc)) 0 = 44 + s)"
proof -
  note blk = sendable_block [OF send]
  obtain e' enc where enc: "encode_epoch crc rq e ep = (e', Inr enc)" "length (ee_datagrams enc) = K + R"
    and pkts: "\<And>j. j < K + R \<Longrightarrow> audio_packet crc rq (ae_config e) (ep_session_id ep) (enc_block_id (ae_fec e))
        (epoch_object ep geo) (ag_symbol_size geo) (enc_packet_sequence (ae_fec e) + of_nat j) j (ee_datagrams enc ! j)"
    using encode_epoch_lawful [OF lawful send, of crc] by (auto simp: K_def R_def)
  let ?f = "\<lambda>j. ee_datagrams enc ! j"
  have ds: "ee_datagrams enc = map ?f [0..<K + R]" using map_nth [of "ee_datagrams enc"] enc(2) by simp
  have role: "is_source (adg_role (?f j)) \<longleftrightarrow> j < K" and len: "length (adg_payload (?f j)) = 36 + s + (if j < K then 0 else 8)"
    if "j < K + R" for j
    using pkts [OF that] blk(2) by (simp_all add: audio_packet_def is_source_def K_def s_def)
  have source: "filter (is_source \<circ> adg_role) (ee_datagrams enc) = map ?f [0..<K]"
  proof -
    have "filter (is_source \<circ> adg_role) (map ?f [0..<K + R]) = map ?f (filter (\<lambda>j. j < K) [0..<K + R])"
      unfolding filter_map comp_def by (rule arg_cong, rule filter_cong) (simp_all add: role)
    then show ?thesis by (simp only: ds [symmetric] filter_upt_less)
  qed
  have repair: "filter ((\<lambda>r. \<not> is_source r) \<circ> adg_role) (ee_datagrams enc) = map ?f [K..<K + R]"
  proof -
    have "filter ((\<lambda>r. \<not> is_source r) \<circ> adg_role) (map ?f [0..<K + R]) = map ?f (filter (\<lambda>j. \<not> j < K) [0..<K + R])"
      unfolding filter_map comp_def by (rule arg_cong, rule filter_cong) (simp_all add: role)
    then show ?thesis by (simp only: ds [symmetric] filter_upt_less)
  qed
  have const: "sum_list (map (\<lambda>j. of_nat (length (adg_payload (?f j))) :: u64) js) = of_nat (length js * n)"
    if "\<And>j. j \<in> set js \<Longrightarrow> length (adg_payload (?f j)) = n" for js n
    using that by (induction js) (simp_all add: distrib_right)
  have "role_bytes is_source enc = of_nat (K * (36 + s))"
    unfolding role_bytes_def source unfolding map_map comp_def using const [of "[0..<K]" "36 + s"] len by simp
  moreover have "role_bytes (\<lambda>r. \<not> is_source r) enc = of_nat (R * (44 + s))"
    unfolding role_bytes_def repair unfolding map_map comp_def using const [of "[K..<K + R]" "44 + s"] len by simp
  moreover have "source_datagram_count enc = K" "repair_datagram_count enc = R"
    using enc(2) source by (simp_all add: source_datagram_count_def repair_datagram_count_def)
  moreover have "fold max (map (length \<circ> adg_payload) (ee_datagrams enc)) 0 = 44 + s" if "0 < R"
  proof -
    have "fold max (map (length \<circ> adg_payload) (ee_datagrams enc)) 0 =
        Max (set (0 # map (length \<circ> adg_payload) (ee_datagrams enc)))"
      by (simp only: Max.set_eq_fold)
    also have "\<dots> = 44 + s"
    proof (rule Max_eqI)
      show "44 + s \<in> set (0 # map (length \<circ> adg_payload) (ee_datagrams enc))"
        using len [of K] that enc(2) by (auto simp: image_iff intro!: bexI [of _ "?f K"])
      show "y \<le> 44 + s" if "y \<in> set (0 # map (length \<circ> adg_payload) (ee_datagrams enc))" for y
        using that len enc(2) by (auto simp: in_set_conv_nth split: if_splits)
    qed simp
    finally show ?thesis .
  qed
  ultimately show ?thesis using enc(1) by (intro exI [of _ e'] exI [of _ enc]) simp
qed

text \<open>The numbers of a row: datagrams, bytes, the longest datagram and whether it fills the transport's.\<close>

definition row_numbers :: "geometry_row \<Rightarrow> nat \<times> nat \<times> nat \<times> nat \<times> nat \<times> bool" where
  "row_numbers row =
     (gr_source_datagrams row, gr_repair_datagrams row, unat (gr_source_bytes row), unat (gr_repair_bytes row),
      gr_maximum_bytes row, gr_padded row)"

lemma geometry_repair_symbols [simp]:
  "geometry_for_groups (c\<lparr>ac_repair_symbols := r\<rparr>) gs = geometry_for_groups c gs"
proof -
  have "framing_size (c\<lparr>ac_repair_symbols := r\<rparr>) = framing_size c" by (simp add: framing_size_def Let_def cong: if_cong)
  moreover from this have "max_fragment_payload (c\<lparr>ac_repair_symbols := r\<rparr>) = max_fragment_payload c"
    by (simp add: max_fragment_payload_def audio_symbol_size_def Let_def cong: if_cong)
  ultimately show ?thesis by (simp add: geometry_for_groups_def Let_def cong: if_cong option.case_cong)
qed

lemma geometry_row_numbers:
  assumes lawful: "rq_lawful rq" and len: "0 < gc_payload_len gc" "gc_payload_len gc \<le> 1275"
    and format: "gc_payload_kind gc = Opus \<or> gc_sample_format gc \<noteq> Unspecified"
    and fp: "0 < fp" "fp < 1084" "div_ceil (gc_payload_len gc) fp = n" "n = div_ceil (gc_payload_len gc) 1084"
      "n * fp < gc_payload_len gc + n"
  shows "\<exists>row. geometry_row_for crc rq (i, gc) = Inr row \<and> gr_case row = gc_case gc \<and>
    gr_payload_bytes row = gc_payload_len gc \<and> row_numbers row = (n, 1, n * (108 + fp), 116 + fp, 116 + fp, False)"
proof -
  let ?g = "case_group i gc"
  have glen: "group_len ?g = gc_payload_len gc" using len(1) by (simp add: group_len_def case_group_def)
  have n: "n \<le> 2" using fp(4) len(2) by (simp add: div_ceil_le_iff)
  have mp: "max_fragment_payload (audio_config_default\<lparr>ac_repair_symbols := r\<rparr>) = Inr 1084" for r
    by (simp add: max_fragment_payload_Inr audio_config_default_def usize_max_def)
  have mp0: "max_fragment_payload audio_config_default = Inr 1084"
    by (simp add: max_fragment_payload_Inr audio_config_default_def usize_max_def)
  have found: "\<exists>geo. geometry_for_groups c [?g] = Inr geo" if "c = audio_config_default\<lparr>ac_repair_symbols := r\<rparr>" for c r
  proof (cases "geometry_for_groups c [?g]")
    case (Inl err)
    from geometry_Inl(2) [OF this mp [of r, folded that]] show ?thesis
      using n fp(4) by (simp add: glen that audio_config_default_def)
  qed simp
  obtain geo where geo: "geometry_for_groups audio_config_default [?g] = Inr geo"
    using found [of _ 4] by auto
  note size = one_group_geometry [OF geo glen fp(1) _ fp(3) _ fp(4,5) len(2)]
  have k: "unat (ag_source_symbols geo) = n" and s: "unat (ag_symbol_size geo) = 72 + fp" using size fp(2) n by simp_all
  let ?r = "max (of_nat (div_ceil (unat (sat_mul (ucast (ag_source_symbols geo)) (20 :: u32))) 100)) 1 :: u32"
  have "unat (sat_mul (ucast (ag_source_symbols geo)) (20 :: u32)) \<le> unat (ucast (ag_source_symbols geo) :: u32) * 20"
    by (simp add: unat_sat_mul)
  also have "unat (ucast (ag_source_symbols geo) :: u32) = n"
    by (simp add: unsigned_ucast_eq take_bit_nat_eq_self order_less_trans [OF unat_16] k)
  finally have "div_ceil (unat (sat_mul (ucast (ag_source_symbols geo)) (20 :: u32))) 100 \<le> 1"
    using n by (simp add: div_ceil_le_iff)
  then have r: "?r = 1" by (auto simp: max_def le_Suc_eq)
  let ?c = "audio_config_default\<lparr>ac_repair_symbols := 1\<rparr>" and ?ep = "case_epoch i gc"
  have "valid_epoch ?ep"
    using format len(2) by (auto simp: valid_epoch_def case_epoch_def case_group_def validate_group_ok BENCH_FRAME_COUNT_def
        BENCH_SAMPLE_RATE_def U32_MAX_def)
  then have "audio_sendable ?c ?ep geo"
    using mp [of 1] geo by (simp add: audio_sendable_def case_epoch_def) (simp add: audio_config_default_def)
  then have send: "audio_sendable (ae_config (audio_encoder_new ?c)) ?ep geo" by (simp add: audio_encoder_new_def)
  obtain e' enc where enc: "encode_epoch crc rq (audio_encoder_new ?c) ?ep = (e', Inr enc)"
    and nums: "source_datagram_count enc = n" "repair_datagram_count enc = 1"
      "role_bytes is_source enc = of_nat (n * (108 + fp))" "role_bytes (\<lambda>r. \<not> is_source r) enc = of_nat (116 + fp)"
      "fold max (map (length \<circ> adg_payload) (ee_datagrams enc)) 0 = 116 + fp"
    using epoch_datagram_sizes [OF lawful send, of crc] by (auto simp: k s audio_encoder_new_def add.assoc)
  have "n * (108 + fp) \<le> 2 * (108 + 1084)" using n fp(2) by (intro mult_le_mono) simp_all
  then have "unat (of_nat (n * (108 + fp)) :: u64) = n * (108 + fp)" "unat (of_nat (116 + fp) :: u64) = 116 + fp"
    using fp(2) by (simp_all only: unat_of_nat) (simp_all add: take_bit_nat_eq_self)
  then show ?thesis
    unfolding geometry_row_for_def Let_def prod.case geo rbind_simps r enc snd_conv
    using fp(2) by (simp add: row_numbers_def nums audio_config_default_def del: of_nat_mult of_nat_add)
qed

lemma collect_rows_all:
  "(\<And>x. x \<in> set xs \<Longrightarrow> \<exists>row. geometry_row_for crc rq x = Inr row \<and> f row = u x \<and> g row = v x) \<Longrightarrow>
   \<exists>rows. collect_rows crc rq xs = Inr rows \<and> map f rows = map u xs \<and> map g rows = map v xs"
proof (induction xs)
  case (Cons x xs)
  obtain rows where rows: "collect_rows crc rq xs = Inr rows" "map f rows = map u xs" "map g rows = map v xs"
    using Cons by auto
  obtain row where "geometry_row_for crc rq x = Inr row" "f row = u x" "g row = v x"
    using Cons.prems [of x] by auto
  then show ?case using rows by (intro exI [of _ "row # rows"]) simp
qed simp

lemma case_facts:
  "map gc_payload_len geometry_cases = [720, 360, 5, 20, 60, 160, 400, 1275]"
  "\<forall>gc \<in> set geometry_cases. 0 < gc_payload_len gc \<and> (gc_payload_len gc < 1084 \<or> gc_payload_len gc = 1275) \<and>
     (gc_payload_kind gc = Opus \<or> gc_sample_format gc \<noteq> Unspecified)"
  by (simp_all add: geometry_cases_def opus_case_def Let_def)

definition expected_numbers :: "nat \<Rightarrow> nat \<times> nat \<times> nat \<times> nat \<times> nat \<times> bool" where
  "expected_numbers n =
     (if n = 1275 then (2, 1, 1492, 754, 754, False) else (1, 1, 108 + n, 116 + n, 116 + n, False))"

lemma geometry_case_row:
  assumes "rq_lawful rq" "gc \<in> set geometry_cases"
  shows "\<exists>row. geometry_row_for crc rq (i, gc) = Inr row \<and> gr_case row = gc_case gc \<and>
    (gr_payload_bytes row, row_numbers row) = (gc_payload_len gc, expected_numbers (gc_payload_len gc))"
proof -
  let ?n = "gc_payload_len gc"
  have facts: "0 < ?n" "?n < 1084 \<or> ?n = 1275" "gc_payload_kind gc = Opus \<or> gc_sample_format gc \<noteq> Unspecified"
    using case_facts(2) assms(2) by blast+
  show ?thesis
  proof (cases "?n = 1275")
    case True
    have "div_ceil ?n 638 = 2" "2 = div_ceil ?n 1084" by (simp_all add: True div_ceil_def)
    from geometry_row_numbers [OF assms(1) facts(1) _ facts(3) _ _ this, of crc i] show ?thesis
      by (simp add: True expected_numbers_def)
  next
    case False
    then have n: "?n < 1084" "?n \<le> 1275" using facts(2) by simp_all
    have "div_ceil ?n ?n = 1" "1 = div_ceil ?n 1084"
      using div_ceil_le_iff [of ?n ?n 1] div_ceil_pos [OF facts(1), of ?n]
        div_ceil_le_iff [of 1084 ?n 1] div_ceil_pos [OF facts(1), of 1084] facts(1) n by linarith+
    from geometry_row_numbers [OF assms(1) facts(1) n(2) facts(3) facts(1) n(1) this, of crc i] show ?thesis
      using False by (simp add: expected_numbers_def)
  qed
qed

text \<open>
  The geometry table. With a lawful codec the table of the benchmark has a row for each payload, in
  order, with the numbers of a cheapest packing: every payload up to 1084 bytes travels as a single
  source datagram of its own length and 108 bytes of framing, with one repair datagram 8 bytes longer;
  the largest Opus packet needs two source datagrams of 638 payload bytes each. No datagram is padded
  to the transport's limit.
\<close>
lemma payload_geometry_table:
  assumes "rq_lawful rq"
  shows "\<exists>rows. payload_geometry_cases crc rq = Inr rows \<and> map gr_case rows = map gc_case geometry_cases \<and>
    map (\<lambda>row. (gr_payload_bytes row, row_numbers row)) rows =
      [(720, (1, 1, 828, 836, 836, False)),
       (360, (1, 1, 468, 476, 476, False)),
       (5, (1, 1, 113, 121, 121, False)),
       (20, (1, 1, 128, 136, 136, False)),
       (60, (1, 1, 168, 176, 176, False)),
       (160, (1, 1, 268, 276, 276, False)),
       (400, (1, 1, 508, 516, 516, False)),
       (1275, (2, 1, 1492, 754, 754, False))]"
proof -
  have row: "\<exists>row. geometry_row_for crc rq x = Inr row \<and> gr_case row = gc_case (snd x) \<and>
      (gr_payload_bytes row, row_numbers row) = (\<lambda>n. (n, expected_numbers n)) (gc_payload_len (snd x))"
    if "x \<in> set (enumerate 0 geometry_cases)" for x
    using geometry_case_row [OF assms, of "snd x" crc "fst x"] in_enumerate [OF that] by simp
  obtain rows where rows: "collect_rows crc rq (enumerate 0 geometry_cases) = Inr rows"
      "map gr_case rows = map (\<lambda>x. gc_case (snd x)) (enumerate 0 geometry_cases)"
      "map (\<lambda>row. (gr_payload_bytes row, row_numbers row)) rows =
         map (\<lambda>x. (\<lambda>n. (n, expected_numbers n)) (gc_payload_len (snd x))) (enumerate 0 geometry_cases)"
    using collect_rows_all [where xs = "enumerate 0 geometry_cases", OF row] by auto
  have names: "map gr_case rows = map gc_case (map snd (enumerate 0 geometry_cases))"
    using rows(2) by (simp only: map_map comp_def)
  have "map (\<lambda>row. (gr_payload_bytes row, row_numbers row)) rows =
      map (\<lambda>n. (n, expected_numbers n)) (map gc_payload_len (map snd (enumerate 0 geometry_cases)))"
    using rows(3) by (simp only: map_map comp_def)
  also have "\<dots> = map (\<lambda>n. (n, expected_numbers n)) [720, 360, 5, 20, 60, 160, 400, 1275]"
    unfolding map_snd_enumerate case_facts(1) ..
  also have "\<dots> = [(720, (1, 1, 828, 836, 836, False)), (360, (1, 1, 468, 476, 476, False)),
      (5, (1, 1, 113, 121, 121, False)), (20, (1, 1, 128, 136, 136, False)), (60, (1, 1, 168, 176, 176, False)),
      (160, (1, 1, 268, 276, 276, False)), (400, (1, 1, 508, 516, 516, False)), (1275, (2, 1, 1492, 754, 754, False))]"
    by (simp add: expected_numbers_def)
  finally show ?thesis
    using rows(1) names unfolding map_snd_enumerate payload_geometry_cases_def by (intro exI [of _ rows] conjI)
qed

lemma payload_geometry_table_example:
  "\<exists>rows. payload_geometry_cases crc_reference rep_codec = Inr rows \<and> length rows = 8 \<and> gr_maximum_bytes (rows ! 7) = 754"
proof -
  obtain rows where "payload_geometry_cases crc_reference rep_codec = Inr rows"
    and nums: "map (\<lambda>row. (gr_payload_bytes row, row_numbers row)) rows =
      [(720, (1, 1, 828, 836, 836, False)), (360, (1, 1, 468, 476, 476, False)), (5, (1, 1, 113, 121, 121, False)),
       (20, (1, 1, 128, 136, 136, False)), (60, (1, 1, 168, 176, 176, False)), (160, (1, 1, 268, 276, 276, False)),
       (400, (1, 1, 508, 516, 516, False)), (1275, (2, 1, 1492, 754, 754, False))]"
    using payload_geometry_table [OF rep_codec_lawful, of crc_reference] by (elim exE conjE)
  moreover have "length rows = 8" using arg_cong [OF nums, of length] by simp
  moreover from this have "gr_maximum_bytes (rows ! 7) = 754"
    using arg_cong [OF nums, of "\<lambda>xs. xs ! 7"] by (simp add: row_numbers_def)
  ultimately show ?thesis by blast
qed

end
