(* ===== verification/Formatting.thy ===== *)
theory Formatting
  imports Prelude
begin

text \<open>
  The number formats of \<^verbatim>\<open>std::fmt\<close> that the messages of the program use: decimal, fixed-width hexadecimal
  and the debug form of byte arrays; and when a formatted string can be read back.
\<close>

section \<open>Formats\<close>

definition digit_char :: "nat \<Rightarrow> char" where
  "digit_char d = (if d < 10 then char_of (48 + d) else char_of (87 + d))"

function digits :: "nat \<Rightarrow> nat \<Rightarrow> string" where
  "digits b n = (if b < 2 \<or> n < b then [digit_char n] else digits b (n div b) @ [digit_char (n mod b)])"
  by pat_completeness auto

termination
  by (relation "measure snd") simp_all

declare digits.simps [simp del]

text \<open>\<^verbatim>\<open>{}\<close> of an unsigned and of a signed number.\<close>

definition decimal :: "nat \<Rightarrow> string" where
  "decimal n = digits 10 n"

definition signed_decimal :: "int \<Rightarrow> string" where
  "signed_decimal i = (if i < 0 then CHR ''-'' # decimal (nat (- i)) else decimal (nat i))"

abbreviation decimal_word :: "'a::len word \<Rightarrow> string" where
  "decimal_word w \<equiv> decimal (unat w)"

text \<open>\<^verbatim>\<open>{:#0w x}\<close>: the prefix, zeros up to the width and the digits.\<close>

definition alternate_hex :: "nat \<Rightarrow> nat \<Rightarrow> string" where
  "alternate_hex width n =
     ''0x'' @ replicate (width - 2 - length (digits 16 n)) (CHR ''0'') @ digits 16 n"

text \<open>\<^verbatim>\<open>{:?}\<close> of an array of bytes.\<close>

fun comma_separated :: "string list \<Rightarrow> string" where
  "comma_separated [] = []"
| "comma_separated [s] = s"
| "comma_separated (s # t # ss) = s @ '', '' @ comma_separated (t # ss)"

definition debug_bytes :: "bytes \<Rightarrow> string" where
  "debug_bytes bs = ''['' @ comma_separated (map decimal_word bs) @ '']''"

section \<open>Reading back\<close>

definition is_digit :: "char \<Rightarrow> bool" where
  "is_digit c \<longleftrightarrow> (48 :: nat) \<le> of_char c \<and> (of_char c :: nat) \<le> 57 \<or>
     (97 :: nat) \<le> of_char c \<and> (of_char c :: nat) \<le> 102"

definition digit_value :: "char \<Rightarrow> nat" where
  "digit_value c = (if of_char c \<le> (57 :: nat) then of_char c - 48 else of_char c - 87)"

definition number_value :: "nat \<Rightarrow> string \<Rightarrow> nat" where
  "number_value b s = foldl (\<lambda>a c. b * a + digit_value c) 0 s"

definition ends_number :: "string \<Rightarrow> bool" where
  "ends_number s \<longleftrightarrow> (case s of [] \<Rightarrow> True | c # _ \<Rightarrow> \<not> is_digit c)"

lemma of_digit_char: "d < 16 \<Longrightarrow> (of_char (digit_char d) :: nat) = (if d < 10 then 48 + d else 87 + d)"
  by (simp add: digit_char_def)

lemma digit_char_facts: "d < 16 \<Longrightarrow> is_digit (digit_char d)" "d < 16 \<Longrightarrow> digit_value (digit_char d) = d"
  by (auto simp: is_digit_def digit_value_def of_digit_char)

lemma digits_facts:
  assumes "1 < b" "b \<le> 16"
  shows "(\<forall>c \<in> set (digits b n). is_digit c) \<and> number_value b (digits b n) = n"
proof (induction n rule: less_induct)
  case (less n)
  show ?case
  proof (cases "n < b")
    case True
    then show ?thesis using assms by (subst (1 2) digits.simps) (simp add: digit_char_facts number_value_def)
  next
    case False
    have d: "n mod b < 16" using assms mod_less_divisor [of b n] by linarith
    have "n div b < n" using False assms by (intro div_less_dividend) simp_all
    note IH = less.IH [OF this]
    have "digits b n = digits b (n div b) @ [digit_char (n mod b)]" using False assms by (subst digits.simps) simp
    then show ?thesis
      using IH by (auto simp: digit_char_facts [OF d] number_value_def mult.commute)
  qed
qed

lemma run_split:
  assumes "\<forall>c \<in> set a. is_digit c" "\<forall>c \<in> set b. is_digit c" "ends_number x" "ends_number y"
  shows "a @ x = b @ y \<longleftrightarrow> a = b \<and> x = y"
  using assms
proof (induction a arbitrary: b)
  case Nil
  then show ?case by (cases b) (auto simp: ends_number_def)
next
  case (Cons c a)
  then show ?case by (cases b) (auto simp: ends_number_def)
qed

named_theorems message_simps

lemma ends_number_simps [message_simps]:
  "ends_number [] = True" "ends_number (c # s) \<longleftrightarrow> \<not> is_digit c"
  by (simp_all add: ends_number_def)

lemma digits_inj: "1 < b \<Longrightarrow> b \<le> 16 \<Longrightarrow> digits b m = digits b n \<Longrightarrow> m = n"
  by (metis digits_facts)

lemma decimal_digits: "\<forall>c \<in> set (decimal n). is_digit c"
  using digits_facts [of 10 n] by (simp add: decimal_def)

lemma decimal_eq [message_simps]: "decimal m = decimal n \<longleftrightarrow> m = n"
  using digits_inj [of 10 m n] by (auto simp: decimal_def)

lemma decimal_append [message_simps]:
  "ends_number x \<Longrightarrow> ends_number y \<Longrightarrow> decimal m @ x = decimal n @ y \<longleftrightarrow> m = n \<and> x = y"
  "ends_number x \<Longrightarrow> decimal m @ x = decimal n \<longleftrightarrow> m = n \<and> x = []"
  "ends_number y \<Longrightarrow> decimal m = decimal n @ y \<longleftrightarrow> m = n \<and> y = []"
  using run_split [OF decimal_digits decimal_digits, of x y m n] run_split [OF decimal_digits decimal_digits, of x "[]" m n]
    run_split [OF decimal_digits decimal_digits, of "[]" y m n]
  by (auto simp: decimal_eq ends_number_simps)

lemma decimal_starts: "\<exists>c s. decimal n = c # s \<and> is_digit c"
proof (cases "decimal n")
  case Nil
  moreover have "digits 10 n \<noteq> []" by (subst digits.simps) simp
  ultimately show ?thesis by (simp add: decimal_def)
next
  case (Cons c s)
  then show ?thesis using decimal_digits [of n] by simp
qed

lemma decimal_first: "\<exists>c s. decimal n = c # s \<and> (of_char c :: nat) \<le> 57"
proof (induction n rule: less_induct)
  case (less n)
  show ?case
  proof (cases "n < 10")
    case True
    then show ?thesis by (simp add: decimal_def digits.simps [of 10 n] of_digit_char)
  next
    case False
    then have "n div 10 < n" by simp
    from less.IH [OF this] show ?thesis using False by (auto simp: decimal_def digits.simps [of 10 n])
  qed
qed

lemma decimal_not_letter [message_simps]:
  "(57 :: nat) < of_char c \<Longrightarrow> decimal n @ x \<noteq> c # s" "(57 :: nat) < of_char c \<Longrightarrow> c # s \<noteq> decimal n @ x"
  using decimal_first [of n] by auto

lemma signed_decimal_append [message_simps]:
  assumes "ends_number x" "ends_number y"
  shows "signed_decimal i @ x = signed_decimal j @ y \<longleftrightarrow> i = j \<and> x = y"
proof -
  have minus: "\<not> is_digit (CHR ''-'')" by (simp add: is_digit_def)
  then have "decimal m @ x \<noteq> CHR ''-'' # s" "CHR ''-'' # s \<noteq> decimal m @ y" for m s
    using decimal_starts [of m] by auto
  then show ?thesis
    using assms by (auto simp: signed_decimal_def decimal_append)
qed

lemma hex_digits:
  "\<forall>c \<in> set (replicate k (CHR ''0'') @ digits 16 n). is_digit c"
  "number_value 16 (replicate k (CHR ''0'') @ digits 16 n) = n"
proof -
  have zero: "is_digit (CHR ''0'')" "digit_value (CHR ''0'') = 0" by (simp_all add: is_digit_def digit_value_def)
  show "\<forall>c \<in> set (replicate k (CHR ''0'') @ digits 16 n). is_digit c"
    using digits_facts [of 16 n] zero(1) by auto
  have "foldl (\<lambda>a c. 16 * a + digit_value c) 0 (replicate k (CHR ''0'')) = 0"
    by (induction k) (simp_all add: zero(2))
  then show "number_value 16 (replicate k (CHR ''0'') @ digits 16 n) = n"
    using digits_facts [of 16 n] by (simp add: number_value_def)
qed

lemma alternate_hex_append [message_simps]:
  "ends_number x \<Longrightarrow> ends_number y \<Longrightarrow> alternate_hex w m @ x = alternate_hex w n @ y \<longleftrightarrow> m = n \<and> x = y"
  "alternate_hex w m = alternate_hex w n \<longleftrightarrow> m = n"
proof -
  let ?z = "\<lambda>n. replicate (w - 2 - length (digits 16 n)) (CHR ''0'') @ digits 16 n"
  have inj: "?z m = ?z n \<Longrightarrow> m = n" for m n using hex_digits(2) by metis
  show "alternate_hex w m @ x = alternate_hex w n @ y \<longleftrightarrow> m = n \<and> x = y" if "ends_number x" "ends_number y"
  proof -
    have "?z m @ x = ?z n @ y \<longleftrightarrow> ?z m = ?z n \<and> x = y"
      by (rule run_split [OF hex_digits(1) hex_digits(1) that])
    then show ?thesis using inj [of m n] by (auto simp: alternate_hex_def)
  qed
  show "alternate_hex w m = alternate_hex w n \<longleftrightarrow> m = n"
    using inj [of m n] by (auto simp: alternate_hex_def)
qed

lemma comma_separated_append:
  "comma_separated (map decimal_word (a :: bytes)) @ CHR '']'' # x = comma_separated (map decimal_word b) @ CHR '']'' # y \<longleftrightarrow>
   a = b \<and> x = y"
proof -
  have close: "\<not> is_digit (CHR '']'')" "\<not> is_digit (CHR '','')" by (simp_all add: is_digit_def)
  have word: "unat (v :: u8) = unat w \<longleftrightarrow> v = w" for v w by (simp add: word_unat_eq_iff)
  have no: "decimal n @ s \<noteq> CHR '']'' # t" "CHR '']'' # t \<noteq> decimal n @ s" for n s t
    using decimal_starts [of n] close by auto
  have "comma_separated (map decimal_word (a :: bytes)) @ CHR '']'' # x =
      comma_separated (map decimal_word b) @ CHR '']'' # y \<Longrightarrow> a = b \<and> x = y" for a b
  proof (induction a arbitrary: b rule: induct_list012)
    case 1
    then show ?case by (cases b rule: remdups_adj.cases) (auto simp: no)
  next
    case (2 v)
    then show ?case
      by (cases b rule: remdups_adj.cases) (auto simp: no decimal_append ends_number_simps close word)
  next
    case (3 v w a)
    show ?case
    proof (cases b rule: remdups_adj.cases)
      case (3 v' w' b')
      then show ?thesis
        using "3.prems" "3.IH"(2) [of "w' # b'"] by (auto simp: decimal_append ends_number_simps close word)
    qed (use "3.prems" in \<open>auto simp: no decimal_append ends_number_simps close\<close>)
  qed
  then show ?thesis by auto
qed

lemma debug_bytes_eq [message_simps]: "debug_bytes a = debug_bytes b \<longleftrightarrow> a = b"
  using comma_separated_append [of a "[]" b "[]"] by (simp add: debug_bytes_def)

lemma word_eq [message_simps]: "unat (v :: 'a::len word) = unat w \<longleftrightarrow> v = w"
  by (simp add: word_unat_eq_iff)

lemma signed_word_eq [message_simps]: "sint (v :: 'a::len word) = sint w \<longleftrightarrow> v = w"
  using word_eq_iff_signed [where ?'a = int, of v w] by simp

end
