(* ===== verification/Bench_Command.thy ===== *)
theory Bench_Command
  imports Recovery_Quality Payload_Geometry Formatting
begin

text \<open>
  The command of \<^verbatim>\<open>raptorq-datagram-fec/examples/audio_recovery_baseline.rs\<close>: its environment variables, which it
  reads with \<^verbatim>\<open>str::parse\<close>, and \<open>main\<close>, which yields the report that \<^verbatim>\<open>serde_json\<close> prints. The environment is a
  function of the name of a variable.
\<close>

section \<open>Numbers\<close>

text \<open>\<^verbatim>\<open>from_str\<close> of the unsigned integers: an optional plus, then digits, with the kinds of its error.\<close>

datatype parse_error = EmptyNumber | InvalidDigit | PosOverflow

definition ascii_digit :: "char \<Rightarrow> bool" where
  "ascii_digit c \<longleftrightarrow> (48 :: nat) \<le> of_char c \<and> (of_char c :: nat) \<le> 57"

fun parse_digits :: "nat \<Rightarrow> nat \<Rightarrow> string \<Rightarrow> (parse_error, nat) result" where
  "parse_digits limit acc [] = Inr acc"
| "parse_digits limit acc (c # cs) =
     (if \<not> ascii_digit c then Inl InvalidDigit
      else if limit \<le> 10 * acc + (of_char c - 48) then Inl PosOverflow
      else parse_digits limit (10 * acc + (of_char c - 48)) cs)"

definition parse_word :: "string \<Rightarrow> (parse_error, 'a::len word) result" where
  "parse_word s =
     rbind (case s of
         [] \<Rightarrow> Inl EmptyNumber
       | c # cs \<Rightarrow> parse_digits (2 ^ LENGTH('a)) 0 (if c = CHR ''+'' \<and> cs \<noteq> [] then cs else s))
       (\<lambda>n. Inr (of_nat n))"

section \<open>Environment\<close>

datatype env_var = NotPresent | NotUnicode string | Present string

datatype command_error =
    DebugBuild
  | VariableNotUnicode string
  | VariableNotNumber parse_error
  | RowsFailed main_error
  | GeometryFailed audio_fec_error

definition env_u64 :: "(string \<Rightarrow> env_var) \<Rightarrow> string \<Rightarrow> u64 \<Rightarrow> (command_error, u64) result" where
  "env_u64 env name fallback =
     (case env name of
        Present v \<Rightarrow> map_err VariableNotNumber (parse_word v)
      | NotPresent \<Rightarrow> Inr fallback
      | NotUnicode v \<Rightarrow> Inl (VariableNotUnicode v))"

definition env_u16 :: "(string \<Rightarrow> env_var) \<Rightarrow> string \<Rightarrow> u16 \<Rightarrow> (command_error, u16) result" where
  "env_u16 env name fallback =
     (case env name of
        Present v \<Rightarrow> map_err VariableNotNumber (parse_word v)
      | NotPresent \<Rightarrow> Inr fallback
      | NotUnicode v \<Rightarrow> Inl (VariableNotUnicode v))"

section \<open>The report\<close>

record baseline_report =
  rp_schema :: string
  rp_build_profile :: string
  rp_payload_case :: string
  rp_source_corpus :: string
  rp_exactness_gate :: string
  rp_deadline_origin :: string
  rp_deadline_classification :: string
  rp_deadline_fallback :: string
  rp_latency_model :: string
  rp_timing_scope :: string
  rp_observed_elapsed_interpretation :: string
  rp_elapsed_timing_clock :: string
  rp_network_wire_model :: string
  rp_sample_rate :: u32
  rp_sample_format :: string
  rp_channels :: u16
  rp_frame_count :: u32
  rp_epoch_ms :: u32
  rp_epoch_us :: u64
  rp_deadline_ms :: u64
  rp_mtu_bytes :: nat
  rp_base_one_way_us :: u64
  rp_jitter_us :: u64
  rp_pacing_us :: u64
  rp_epochs_per_seed :: u64
  rp_payload_geometry_cases :: "geometry_row list"
  rp_rows :: "baseline_row list"

definition baseline_report_of ::
    "u16 \<Rightarrow> u64 \<Rightarrow> u64 \<Rightarrow> geometry_row list \<Rightarrow> baseline_row list \<Rightarrow> baseline_report" where
  "baseline_report_of channels epochs_per_seed deadline_ms geometry rows =
     \<lparr>rp_schema = ''needletail.audio-recovery-baseline.v2'', rp_build_profile = ''release'',
      rp_payload_case = ''pcm_s24le'', rp_source_corpus = ''deterministic_decorrelated_full_scale_noise_v1'',
      rp_exactness_gate = ''trace gate: all encoded PCM bytes equal by the deterministic packet-arrival deadline'',
      rp_deadline_origin = ''first sample of each 5 ms capture epoch'',
      rp_deadline_classification = ''deterministic capture-plus-arrival trace; measured encode/decode elapsed time is reported separately and never changes recovery outcomes'',
      rp_deadline_fallback = ''trace-quality fallback: silence the whole multichannel epoch'',
      rp_latency_model = ''capture interval + measured encode elapsed time + paced synthetic one-way path + measured single-thread decode pipeline elapsed time'',
      rp_timing_scope = ''each epoch starts with an empty simulated execution queue; elapsed percentiles do not model sustained decoder backlog'',
      rp_observed_elapsed_interpretation = ''measured diagnostic: use observed_elapsed_* and capture_to_render_ready_elapsed_us for host execution results; never present trace_* success as measured capture-to-render success'',
      rp_elapsed_timing_clock = ''std::time::Instant monotonic wall elapsed; not CPU time'',
      rp_network_wire_model = ''encoded application datagram bytes plus 40-byte IPv6 and 8-byte UDP headers; excludes link-layer overhead'',
      rp_sample_rate = BENCH_SAMPLE_RATE, rp_sample_format = ''s24le'', rp_channels = channels,
      rp_frame_count = BENCH_FRAME_COUNT, rp_epoch_ms = BENCH_FRAME_COUNT * 1000 div BENCH_SAMPLE_RATE,
      rp_epoch_us = EPOCH_US, rp_deadline_ms = deadline_ms,
      rp_mtu_bytes = ac_max_datagram_size audio_config_default, rp_base_one_way_us = BASE_ONE_WAY_US,
      rp_jitter_us = JITTER_US, rp_pacing_us = PACING_US, rp_epochs_per_seed = epochs_per_seed,
      rp_payload_geometry_cases = geometry, rp_rows = rows\<rparr>"

text \<open>\<open>debug\<close> is \<^verbatim>\<open>cfg!(debug_assertions)\<close>.\<close>

definition bench_main ::
    "bool \<Rightarrow> (string \<Rightarrow> env_var) \<Rightarrow> (f64 \<Rightarrow> f64) \<Rightarrow> crc_fun \<Rightarrow> ('e, 'd) raptorq \<Rightarrow>
     (bench_candidate \<Rightarrow> loss_profile \<Rightarrow> clock) \<Rightarrow> (command_error, baseline_report) result" where
  "bench_main debug env log10 crc rq ck =
     (if debug then Inl DebugBuild
      else
        rbind (env_u16 env ''NEEDLETAIL_AUDIO_BENCH_CHANNELS'' 16) (\<lambda>channels.
        rbind (env_u64 env ''NEEDLETAIL_AUDIO_BENCH_EPOCHS'' 200) (\<lambda>epochs_per_seed.
        rbind (env_u64 env ''NEEDLETAIL_AUDIO_BENCH_DEADLINE_MS'' 20) (\<lambda>deadline_ms.
        rbind (map_err RowsFailed (bench_rows log10 crc rq ck channels epochs_per_seed deadline_ms)) (\<lambda>rows.
        rbind (map_err GeometryFailed (payload_geometry_cases crc rq)) (\<lambda>geometry.
          Inr (baseline_report_of channels epochs_per_seed deadline_ms geometry rows)))))))"

section \<open>Parsing\<close>

definition decimal_value :: "string \<Rightarrow> nat" where
  "decimal_value s = foldl (\<lambda>a c. 10 * a + (of_char c - 48)) 0 s"

lemma foldl_value_ge: "(acc :: nat) \<le> foldl (\<lambda>a c. 10 * a + (of_char c - 48)) acc s"
proof (induction s arbitrary: acc)
  case (Cons c s)
  have "acc \<le> 10 * acc + (of_char c - 48)" by simp
  also have "\<dots> \<le> foldl (\<lambda>a c. 10 * a + (of_char c - 48)) (10 * acc + (of_char c - 48)) s" by (rule Cons.IH)
  finally show ?case by simp
qed simp

lemma parse_digits_Inr:
  "acc < limit \<Longrightarrow> parse_digits limit acc s = Inr n \<longleftrightarrow>
     list_all ascii_digit s \<and> n = foldl (\<lambda>a c. 10 * a + (of_char c - 48)) acc s \<and> n < limit"
proof (induction s arbitrary: acc)
  case (Cons c s)
  show ?case
  proof (cases "limit \<le> 10 * acc + (of_char c - 48)")
    case True
    then have "limit \<le> foldl (\<lambda>a c. 10 * a + (of_char c - 48)) (10 * acc + (of_char c - 48)) s"
      using foldl_value_ge [of "10 * acc + (of_char c - 48)" s] by linarith
    then show ?thesis using True by auto
  next
    case False
    then show ?thesis using Cons.IH [of "10 * acc + (of_char c - 48)"] by auto
  qed
qed auto

lemma plus_no_digit: "\<not> ascii_digit (CHR ''+'')"
  by (simp add: ascii_digit_def)

lemma parse_word_exact:
  "(parse_word s = Inr (w :: 'a::len word) \<longleftrightarrow>
     (\<exists>ds. (s = ds \<or> s = CHR ''+'' # ds) \<and> ds \<noteq> [] \<and> list_all ascii_digit ds \<and> decimal_value ds = unat w)) \<and>
   parse_word (decimal (unat w)) = Inr w"
proof
  have bound: "unat w < 2 ^ LENGTH('a)" by (rule unsigned_less)
  have parsed: "rbind (parse_digits (2 ^ LENGTH('a)) 0 ds) (\<lambda>n. Inr (of_nat n)) = Inr w \<longleftrightarrow>
      list_all ascii_digit ds \<and> decimal_value ds = unat w" for ds
  proof -
    have "of_nat n = w \<longleftrightarrow> n = unat w" if "n < 2 ^ LENGTH('a)" for n
      using that by (auto simp: unat_of_nat take_bit_nat_eq_self)
    then show ?thesis
      using parse_digits_Inr [of 0 "2 ^ LENGTH('a)" ds] bound
      by (auto simp: rbind_eq_Inr decimal_value_def)
  qed
  show exact: "parse_word s = Inr w \<longleftrightarrow>
     (\<exists>ds. (s = ds \<or> s = CHR ''+'' # ds) \<and> ds \<noteq> [] \<and> list_all ascii_digit ds \<and> decimal_value ds = unat w)" for s
  proof (cases s)
    case (Cons c cs)
    then show ?thesis
      using parsed [of cs] parsed [of s] plus_no_digit by (auto simp: parse_word_def)
  qed (auto simp: parse_word_def)
  have "list_all ascii_digit (decimal n) \<and> decimal_value (decimal n) = n" for n
  proof (induction n rule: less_induct)
    case (less n)
    have digit: "ascii_digit (digit_char d) \<and> of_char (digit_char d) - (48 :: nat) = d" if "d < 10" for d
      using that by (simp add: ascii_digit_def of_digit_char)
    show ?case
    proof (cases "n < 10")
      case True
      then show ?thesis using digit [of n] by (simp add: decimal_def digits.simps [of 10 n] decimal_value_def)
    next
      case False
      then have n: "n div 10 < n" and eq: "decimal n = decimal (n div 10) @ [digit_char (n mod 10)]"
        by (simp_all add: decimal_def digits.simps [of 10 n])
      have "decimal_value (decimal n) = 10 * decimal_value (decimal (n div 10)) + (of_char (digit_char (n mod 10)) - 48)"
        unfolding eq by (simp add: decimal_value_def)
      then show ?thesis using less.IH [OF n] digit [of "n mod 10"] by (simp add: eq)
    qed
  qed
  moreover have "decimal (unat w) \<noteq> []" using decimal_starts [of "unat w"] by auto
  ultimately show "parse_word (decimal (unat w)) = Inr w" using exact by blast
qed

text \<open>
  C38. Settings are read exactly. A variable of the environment gives a number exactly when it is not set, and then
  the default, or when it is set to a nonempty run of decimal digits, with a plus in front or without, whose value is
  that number; so every other string and every value too large for the type is an error. The decimal that \<^verbatim>\<open>Display\<close>
  prints of a number is read back as that number.
\<close>

theorem settings_read_exactly:
  "(env_u64 env name fallback = Inr w \<longleftrightarrow>
      env name = NotPresent \<and> w = fallback \<or>
      (\<exists>v ds. env name = Present v \<and> (v = ds \<or> v = CHR ''+'' # ds) \<and> ds \<noteq> [] \<and> list_all ascii_digit ds \<and>
        decimal_value ds = unat w)) \<and>
   (env_u16 env name fallback' = Inr w' \<longleftrightarrow>
      env name = NotPresent \<and> w' = fallback' \<or>
      (\<exists>v ds. env name = Present v \<and> (v = ds \<or> v = CHR ''+'' # ds) \<and> ds \<noteq> [] \<and> list_all ascii_digit ds \<and>
        decimal_value ds = unat w')) \<and>
   env_u64 (env(name := Present (decimal (unat w)))) name fallback = Inr w \<and>
   env_u16 (env(name := Present (decimal (unat w')))) name fallback' = Inr w'"
proof -
  have parse: "map_err f (parse_word v) = Inr u \<longleftrightarrow> parse_word v = Inr u"
    for f :: "parse_error \<Rightarrow> command_error" and v and u :: "'a::len word"
    by (cases "parse_word v :: (parse_error, 'a word) result") simp_all
  show ?thesis
    using parse_word_exact [of _ w] parse_word_exact [of _ w']
    by (cases "env name") (auto simp: env_u64_def env_u16_def parse)
qed

section \<open>The command\<close>

text \<open>
  C36. The recovery benchmark completes and its report adds up. With a lawful and systematic codec, whatever the wall
  clock measures: a release build that reads its three variables refuses channels outside 1 to 128 first and then
  epochs or a deadline of zero; with all others, and fewer than 2^32 epochs in a case, it always yields a report. The
  report repeats the settings. No case failed: every shard the decoder delivered equals the bytes that were encoded,
  under every loss profile. The rows come in the order of the cases; in each, every epoch that was sent is exact in
  time, exact but late or not recovered, and only one of these; the deadline misses are the last two, no run of misses
  is longer than their number, and the epochs observed in time are among the exact ones; on a clean network nothing is
  dropped and every epoch is recovered. The geometry table has a row for each payload, with the numbers of a cheapest
  packing: payloads up to 1084 bytes in one source datagram of their own length and 108 bytes of framing and one
  repair datagram 8 bytes longer, the largest Opus packet in two.
\<close>

theorem command_completes:
  assumes "rq_lawful rq" "systematic rq"
    and "env_u16 env ''NEEDLETAIL_AUDIO_BENCH_CHANNELS'' 16 = Inr channels"
    and "env_u64 env ''NEEDLETAIL_AUDIO_BENCH_EPOCHS'' 200 = Inr n"
    and "env_u64 env ''NEEDLETAIL_AUDIO_BENCH_DEADLINE_MS'' 20 = Inr deadline_ms"
    and "10 * unat n < 2 ^ 32"
  shows "if channels = 0 \<or> channels > 128 then bench_main False env log10 crc rq ck = Inl (RowsFailed BadChannels)
    else if n = 0 \<or> deadline_ms = 0 then bench_main False env log10 crc rq ck = Inl (RowsFailed BadEpochsOrDeadline)
    else (\<exists>report. bench_main False env log10 crc rq ck = Inr report \<and>
      rp_channels report = channels \<and> rp_epochs_per_seed report = n \<and> rp_deadline_ms report = deadline_ms \<and>
      list_all2 (row_adds_up n) (List.product bench_candidates bench_profiles) (rp_rows report) \<and>
      map gr_case (rp_payload_geometry_cases report) = map gc_case geometry_cases \<and>
      map (\<lambda>row. (gr_payload_bytes row, row_numbers row)) (rp_payload_geometry_cases report) =
        [(720, (1, 1, 828, 836, 836, False)),
         (360, (1, 1, 468, 476, 476, False)),
         (5, (1, 1, 113, 121, 121, False)),
         (20, (1, 1, 128, 136, 136, False)),
         (60, (1, 1, 168, 176, 176, False)),
         (160, (1, 1, 268, 276, 276, False)),
         (400, (1, 1, 508, 516, 516, False)),
         (1275, (2, 1, 1492, 754, 754, False))])"
proof (cases "channels = 0 \<or> channels > 128 \<or> n = 0 \<or> deadline_ms = 0")
  case True
  then show ?thesis by (auto simp: bench_main_def assms(3-5) bench_rows_def)
next
  case False
  then have ok: "0 < channels" "channels \<le> 128" "0 < n" "0 < deadline_ms" by (auto simp: word_neq_0_conv not_less)
  obtain rows where rows: "bench_rows log10 crc rq ck channels n deadline_ms = Inr rows"
      "list_all2 (row_adds_up n) (List.product bench_candidates bench_profiles) rows"
    using benchmark_completes [OF assms(1,2) ok(1-3) assms(6) ok(4)] by blast
  obtain table where table: "payload_geometry_cases crc rq = Inr table" "map gr_case table = map gc_case geometry_cases"
      "map (\<lambda>row. (gr_payload_bytes row, row_numbers row)) table =
        [(720, (1, 1, 828, 836, 836, False)), (360, (1, 1, 468, 476, 476, False)), (5, (1, 1, 113, 121, 121, False)),
         (20, (1, 1, 128, 136, 136, False)), (60, (1, 1, 168, 176, 176, False)), (160, (1, 1, 268, 276, 276, False)),
         (400, (1, 1, 508, 516, 516, False)), (1275, (2, 1, 1492, 754, 754, False))]"
    using payload_geometry_table [OF assms(1), of crc] by (elim exE conjE)
  have "bench_main False env log10 crc rq ck = Inr (baseline_report_of channels n deadline_ms table rows)"
    by (simp add: bench_main_def assms(3-5) rows(1) table(1))
  then show ?thesis
    using False rows(2) table(2,3) by (simp add: baseline_report_of_def del: map_eq_Cons_conv Cons_eq_map_conv)
qed

definition example_env :: "string \<Rightarrow> env_var" where
  "example_env = (\<lambda>_. NotPresent)(''NEEDLETAIL_AUDIO_BENCH_EPOCHS'' := Present ''3'')"

theorem command_completes_witness:
  "\<exists>report. bench_main False example_env id crc_reference rep_codec
       (\<lambda>_ _. \<lparr>ck_encode = \<lambda>_ _. 1000, ck_decode = \<lambda>_ _ _. 500\<rparr>) = Inr report \<and>
     rp_channels report = 16 \<and> length (rp_rows report) = 18 \<and> br_loss_profile (rp_rows report ! 0) = ''clean'' \<and>
     br_epochs (rp_rows report ! 0) = 3 \<and> br_unrecovered (rp_rows report ! 0) = 0 \<and>
     length (rp_payload_geometry_cases report) = 8"
proof -
  let ?ck = "\<lambda>_ _. \<lparr>ck_encode = \<lambda>_ _. 1000, ck_decode = \<lambda>_ _ _. 500\<rparr>"
  have read: "env_u16 example_env ''NEEDLETAIL_AUDIO_BENCH_CHANNELS'' 16 = Inr 16"
      "env_u64 example_env ''NEEDLETAIL_AUDIO_BENCH_EPOCHS'' 200 = Inr 3"
      "env_u64 example_env ''NEEDLETAIL_AUDIO_BENCH_DEADLINE_MS'' 20 = Inr 20"
    by (simp_all add: env_u16_def env_u64_def example_env_def parse_word_def ascii_digit_def)
  have few: "10 * unat (3 :: u64) < 2 ^ 32" by simp
  obtain report where report: "bench_main False example_env id crc_reference rep_codec ?ck = Inr report"
      "rp_channels report = 16" "list_all2 (row_adds_up 3) (List.product bench_candidates bench_profiles) (rp_rows report)"
      "map gr_case (rp_payload_geometry_cases report) = map gc_case geometry_cases"
    using command_completes [OF rep_codec_lawful rep_codec_systematic read few, of id crc_reference ?ck]
    by (auto simp del: map_eq_Cons_conv Cons_eq_map_conv)
  have len: "length (rp_rows report) = 18"
    using list_all2_lengthD [OF report(3)] by (simp add: bench_candidates_def bench_profiles_def)
  have "row_adds_up 3 (List.product bench_candidates bench_profiles ! 0) (rp_rows report ! 0)"
    using list_all2_nthD2 [OF report(3)] len by simp
  moreover have "length (rp_payload_geometry_cases report) = length geometry_cases"
    using report(4) by (metis length_map)
  ultimately show ?thesis
    using report(1,2) len
    by (auto simp: row_adds_up_def bench_candidates_def bench_profiles_def profile_seeds_def loss_profile_name_def Let_def
        word_unat_eq_iff geometry_cases_def)
qed

end
