(* ===== verification/Error_Messages.thy ===== *)
theory Error_Messages
  imports Formatting Transport
begin

text \<open>
  The \<^verbatim>\<open>Display\<close> implementations of the error types: the text of each error, as it reaches a log or, through
  the browser binding, a script. A text determines its error, so nothing is lost by passing it on.
\<close>

section \<open>The block layer\<close>

fun datagram_fec_message :: "datagram_fec_error \<Rightarrow> string" where
  "datagram_fec_message (HeaderTooShort actual) =
     ''datagram FEC header too short: expected '' @ decimal HEADER_LEN @ '', got '' @ decimal actual"
| "datagram_fec_message (PacketTooShort actual) =
     ''datagram FEC packet too short: expected at least '' @
     decimal (HEADER_LEN + ENCODING_PACKET_HEADER_LEN) @ '', got '' @ decimal actual"
| "datagram_fec_message (InvalidMagic actual) =
     ''invalid datagram FEC magic: expected '' @ debug_bytes DATAGRAM_MAGIC @ '', got '' @ debug_bytes actual"
| "datagram_fec_message (UnsupportedVersion version) =
     ''unsupported datagram FEC version: expected '' @ decimal_word DATAGRAM_VERSION @ '', got '' @ decimal_word version"
| "datagram_fec_message (UnsupportedHeaderLength len) =
     ''unsupported datagram FEC header length: expected '' @ decimal HEADER_LEN @ '', got '' @ decimal_word len"
| "datagram_fec_message (UnsupportedPacketKind kind) =
     ''unsupported datagram FEC packet kind: '' @ decimal_word kind"
| "datagram_fec_message (UnsupportedPacketFlags flags) =
     ''unsupported datagram FEC packet flags: '' @ alternate_hex 4 (unat flags)"
| "datagram_fec_message (InvalidSourceSymbols v) =
     ''invalid datagram FEC source symbol count: '' @ decimal_word v"
| "datagram_fec_message (InvalidSymbolSize v) = ''invalid datagram FEC symbol size: '' @ decimal_word v"
| "datagram_fec_message (InvalidTransferLength v) = ''invalid datagram FEC transfer length: '' @ decimal_word v"
| "datagram_fec_message (SourceSymbolLimitExceeded actual m) =
     ''datagram FEC source symbol count '' @ decimal_word actual @ '' exceeds the one-block limit '' @ decimal_word m"
| "datagram_fec_message (SourceSymbolCountMismatch declared required) =
     ''datagram FEC source symbol count mismatch: header declares '' @ decimal_word declared @
     '', transfer geometry requires '' @ decimal_word required"
| "datagram_fec_message (PayloadLengthMismatch expected actual) =
     ''datagram FEC payload length mismatch: expected '' @ decimal expected @ '' bytes, got '' @ decimal actual"
| "datagram_fec_message (SymbolSizeMismatch expected actual) =
     ''datagram FEC symbol size mismatch: expected '' @ decimal expected @ '' bytes, got '' @ decimal actual"
| "datagram_fec_message (UnsupportedSourceBlockNumber v) =
     ''datagram FEC source block number must be zero for one-block framing, got '' @ decimal_word v"
| "datagram_fec_message (InconsistentBlockGeometry b) =
     ''datagram FEC block '' @ decimal_word b @ '' changed transmission geometry before completion''"
| "datagram_fec_message (PacketCrc32Mismatch expected actual) =
     ''datagram FEC packet CRC32 mismatch: expected '' @ alternate_hex 10 (unat expected) @ '', got '' @
     alternate_hex 10 (unat actual)"
| "datagram_fec_message (PayloadTooLong actual) =
     ''datagram FEC payload too long for u32 header: '' @ decimal actual"
| "datagram_fec_message (PayloadTooLargeForBlock actual m) =
     ''datagram FEC block payload too large: got '' @ decimal actual @ '' bytes, max is '' @ decimal m"
| "datagram_fec_message (TransferLengthMismatch expected actual) =
     ''datagram FEC source bytes do not match the coding profile: expected '' @ decimal_word expected @
     '' bytes, got '' @ decimal actual"
| "datagram_fec_message (RepairSourceTooLarge actual m) =
     ''RaptorQ repair source is '' @ decimal actual @ '' bytes, exceeding the '' @ decimal m @ ''-byte bound''"
| "datagram_fec_message (AdditionalRepairSymbolCount actual m) =
     ''additional RaptorQ repair count must be between 1 and '' @ decimal_word m @ '', got '' @ decimal_word actual"
| "datagram_fec_message (AdditionalRepairOutputTooLarge actual m) =
     ''additional RaptorQ repair output is '' @ decimal actual @ '' bytes, exceeding the '' @ decimal m @ ''-byte bound''"
| "datagram_fec_message (RepairSymbolIdExhausted k ordinal requested) =
     ''RaptorQ repair ESI namespace exhausted: K='' @ decimal_word k @ '', next repair ordinal='' @
     decimal_word ordinal @ '', requested='' @ decimal_word requested"

section \<open>The media layer\<close>

fun media_fec_message :: "media_fec_error \<Rightarrow> string" where
  "media_fec_message (MediaFec err) = datagram_fec_message err"
| "media_fec_message (MediaHeaderTooShort actual) =
     ''media frame header too short: expected '' @ decimal MEDIA_FRAME_HEADER_LEN @ '', got '' @ decimal actual"
| "media_fec_message (FlagsTooLarge actual) =
     ''media frame flags too large for compact header: '' @ decimal_word actual"
| "media_fec_message (DurationTooLarge actual) =
     ''media frame duration too large for compact header: '' @ decimal_word actual @ '' ms''"
| "media_fec_message (DtsDeltaOutOfRange pts dts) =
     ''media frame DTS delta out of compact header range: pts='' @ decimal_word pts @ '', dts='' @ decimal_word dts"
| "media_fec_message (InvalidDtsDelta pts delta) =
     ''invalid media frame DTS delta '' @ signed_decimal (sint delta) @ '' for pts='' @ decimal_word pts"
| "media_fec_message (BlockTooSmall max_block len) =
     ''FEC block payload too small for media header: block '' @ decimal max_block @ '', header '' @
     decimal len"
| "media_fec_message (TooManyFragments actual) = ''too many media frame fragments: '' @ decimal actual"
| "media_fec_message (AccessUnitTooLarge actual) =
     ''media access unit too large for u32 length: '' @ decimal actual"
| "media_fec_message (MediaInvalidFragmentIndex i n) =
     ''invalid media fragment index '' @ decimal_word i @ '' for count '' @ decimal_word n"
| "media_fec_message ConflictingMetadata = ''conflicting media frame metadata''"
| "media_fec_message ConflictingAccessUnitLength = ''conflicting media access-unit length''"
| "media_fec_message (AccessUnitLengthMismatch expected actual) =
     ''media access-unit length mismatch: expected '' @ decimal expected @ '', got '' @ decimal actual"
| "media_fec_message IncompleteFrame = ''media frame is incomplete''"

section \<open>The audio layer\<close>

fun audio_fec_message :: "audio_fec_error \<Rightarrow> string" where
  "audio_fec_message (AudioFec err) = datagram_fec_message err"
| "audio_fec_message (DatagramBudgetTooSmall budget required) =
     ''audio datagram budget '' @ decimal budget @ '' is smaller than required '' @ decimal required"
| "audio_fec_message (SymbolSizeTooLarge actual) =
     ''audio RaptorQ symbol size '' @ decimal actual @ '' exceeds u16''"
| "audio_fec_message EmptyEpoch = ''multichannel audio epoch has no groups''"
| "audio_fec_message InvalidFrameCount = ''audio epoch frame count must be nonzero''"
| "audio_fec_message InvalidSampleRate = ''audio epoch sample rate must be nonzero''"
| "audio_fec_message (TooManyGroups actual) = ''audio epoch has too many groups: '' @ decimal actual"
| "audio_fec_message (InvalidChannelCount gid) =
     ''audio group '' @ decimal_word gid @ '' has no channels''"
| "audio_fec_message (PcmFormatRequired gid) =
     ''PCM audio group '' @ decimal_word gid @ '' requires a sample format''"
| "audio_fec_message (FlacFormatRequired gid) =
     ''FLAC audio group '' @ decimal_word gid @ '' requires a decoded sample format''"
| "audio_fec_message (GroupPayloadTooLong gid actual) =
     ''audio group '' @ decimal_word gid @ '' payload is too long: '' @ decimal actual @ '' bytes''"
| "audio_fec_message (AudioTooManyFragments gid actual) =
     ''audio group '' @ decimal_word gid @ '' requires too many fragments: '' @ decimal actual"
| "audio_fec_message (TooManySourceSymbols actual m) =
     ''audio epoch requires '' @ decimal actual @ '' source symbols, configured maximum is '' @ decimal_word m"
| "audio_fec_message (EncodedDatagramTooLarge actual m) =
     ''encoded audio datagram is '' @ decimal actual @ '' bytes, transport maximum is '' @ decimal m"
| "audio_fec_message (ShardTooShort actual) =
     ''multichannel audio shard header is too short: expected '' @ decimal SHARD_HEADER_LEN @ '', got '' @ decimal actual"
| "audio_fec_message (InvalidShardMagic actual) = ''invalid multichannel audio shard magic: '' @ debug_bytes actual"
| "audio_fec_message (UnsupportedShardVersion version) =
     ''unsupported multichannel audio shard version '' @ decimal_word version"
| "audio_fec_message (UnsupportedPayloadKind kind) =
     ''unsupported multichannel audio payload kind '' @ decimal_word kind"
| "audio_fec_message (UnsupportedSampleFormat fmt) =
     ''unsupported multichannel audio sample format '' @ decimal_word fmt"
| "audio_fec_message (InvalidGroupIndex i n) =
     ''invalid audio group index '' @ decimal_word i @ '' of '' @ decimal_word n"
| "audio_fec_message (InvalidFragmentIndex i n) =
     ''invalid audio fragment index '' @ decimal_word i @ '' of '' @ decimal_word n"
| "audio_fec_message (InvalidSourceIndex i n) =
     ''invalid audio source index '' @ decimal_word i @ '' of '' @ decimal_word n"
| "audio_fec_message (InvalidPayloadRange off len whole) =
     ''invalid audio payload range '' @ decimal_word off @ ''+'' @ decimal_word len @ '' for group length '' @
     decimal_word whole"
| "audio_fec_message (ShardPayloadTooLong actual m) =
     ''audio shard payload is '' @ decimal actual @ '' bytes, symbol capacity is '' @ decimal m"
| "audio_fec_message (SourceIdentityMismatch expected_index actual_index expected_count actual_count) =
     ''audio source identity mismatch: expected '' @ decimal_word expected_index @ ''/'' @ decimal_word expected_count @
     '', got '' @ decimal_word actual_index @ ''/'' @ decimal_word actual_count"
| "audio_fec_message (DecodedObjectLengthMismatch expected actual) =
     ''decoded audio object length mismatch: expected '' @ decimal expected @ '', got '' @ decimal actual"

section \<open>Session and transport\<close>

fun session_message :: "session_error \<Rightarrow> string" where
  "session_message (SessionFec err) = audio_fec_message err"
| "session_message (EpochMetadataMismatch b field) =
     ''audio epoch block '' @ decimal_word b @ '' has inconsistent '' @ field"
| "session_message (GroupMetadataMismatch b g field) =
     ''audio epoch block '' @ decimal_word b @ '' group '' @ decimal_word g @ '' has inconsistent '' @ field"
| "session_message (NonContiguousGroupPayload b g) =
     ''audio epoch block '' @ decimal_word b @ '' group '' @ decimal_word g @ '' payload is not contiguous''"
| "session_message (IncompleteEpoch b) = ''audio epoch block '' @ decimal_word b @ '' is incomplete''"

fun transport_message :: "transport_error \<Rightarrow> string" where
  "transport_message MissingStreamIdPrefix = ''missing stream id prefix''"
| "transport_message (UnexpectedStreamId expected actual) =
     ''unexpected stream id prefix: expected '' @ decimal_word expected @ '', got '' @ decimal_word actual"
| "transport_message (TransportFec err) = datagram_fec_message err"

fun audio_transport_message :: "audio_transport_error \<Rightarrow> string" where
  "audio_transport_message (AudioFraming err) = transport_message err"
| "audio_transport_message (AudioCodec err) = audio_fec_message err"
| "audio_transport_message (DatagramTooLarge actual m) =
     ''audio transport datagram is '' @ decimal actual @ '' bytes; maximum is '' @ decimal m"
| "audio_transport_message (SourceAfterRepair packet_seq) =
     ''audio source packet '' @ decimal_word packet_seq @ '' appears after repair traffic''"
| "audio_transport_message MissingAudioEpochPrefix = ''missing multichannel audio transport prefix''"

fun transport_media_message :: "transport_media_error \<Rightarrow> string" where
  "transport_media_message (MediaFraming err) = transport_message err"
| "transport_media_message (MediaCodec err) = media_fec_message err"

text \<open>The send errors pass on the text of the sender's own error.\<close>

fun fec_send_message :: "('x \<Rightarrow> string) \<Rightarrow> 'x fec_send_error \<Rightarrow> string" where
  "fec_send_message show_x (SendFec err) = datagram_fec_message err"
| "fec_send_message show_x (SendTransport x) = show_x x"

fun audio_send_message :: "('x \<Rightarrow> string) \<Rightarrow> 'x audio_send_error \<Rightarrow> string" where
  "audio_send_message show_x (SendAdapter err) = audio_transport_message err"
| "audio_send_message show_x (SendFailed x) = show_x x"

section \<open>A message determines its error\<close>

lemma separators [message_simps]:
  "\<not> is_digit (CHR '' '')" "\<not> is_digit (CHR '','')" "\<not> is_digit (CHR ''-'')" "\<not> is_digit (CHR ''/'')"
  "\<not> is_digit (CHR ''+'')" "\<not> is_digit (CHR '';'')"
  by (simp_all add: is_digit_def)

lemma datagram_fec_message_inj: "datagram_fec_message x = datagram_fec_message y \<Longrightarrow> x = y"
  by (cases x; cases y) (simp_all add: message_simps)

lemma media_fec_own: "(\<forall>e. x \<noteq> MediaFec e) \<Longrightarrow> media_fec_message x \<noteq> datagram_fec_message err"
  by (cases x; cases err) (simp_all add: message_simps)

lemma media_fec_message_inj: "media_fec_message x = media_fec_message y \<Longrightarrow> x = y"
proof (cases "\<exists>e. x = MediaFec e"; cases "\<exists>e. y = MediaFec e")
  assume "media_fec_message x = media_fec_message y" "\<exists>e. x = MediaFec e" "\<exists>e. y = MediaFec e"
  then show ?thesis using datagram_fec_message_inj by auto
next
  assume "media_fec_message x = media_fec_message y" "\<exists>e. x = MediaFec e" "\<not> (\<exists>e. y = MediaFec e)"
  then obtain err where "media_fec_message y = datagram_fec_message err" by (metis media_fec_message.simps(1))
  then show ?thesis using media_fec_own [of y err] \<open>\<not> (\<exists>e. y = MediaFec e)\<close> by simp
next
  assume "media_fec_message x = media_fec_message y" "\<not> (\<exists>e. x = MediaFec e)" "\<exists>e. y = MediaFec e"
  then obtain err where "media_fec_message x = datagram_fec_message err" by (metis media_fec_message.simps(1))
  then show ?thesis using media_fec_own [of x err] \<open>\<not> (\<exists>e. x = MediaFec e)\<close> by simp
next
  assume "media_fec_message x = media_fec_message y" "\<not> (\<exists>e. x = MediaFec e)" "\<not> (\<exists>e. y = MediaFec e)"
  then show ?thesis by (cases x; cases y) (simp_all add: message_simps)
qed

lemma audio_fec_own: "(\<forall>e. x \<noteq> AudioFec e) \<Longrightarrow> audio_fec_message x \<noteq> datagram_fec_message err"
  by (cases x; cases err) (simp_all add: message_simps)

lemma audio_fec_message_inj: "audio_fec_message x = audio_fec_message y \<Longrightarrow> x = y"
proof (cases "\<exists>e. x = AudioFec e"; cases "\<exists>e. y = AudioFec e")
  assume "audio_fec_message x = audio_fec_message y" "\<exists>e. x = AudioFec e" "\<exists>e. y = AudioFec e"
  then show ?thesis using datagram_fec_message_inj by auto
next
  assume "audio_fec_message x = audio_fec_message y" "\<exists>e. x = AudioFec e" "\<not> (\<exists>e. y = AudioFec e)"
  then obtain err where "audio_fec_message y = datagram_fec_message err" by (metis audio_fec_message.simps(1))
  then show ?thesis using audio_fec_own [of y err] \<open>\<not> (\<exists>e. y = AudioFec e)\<close> by simp
next
  assume "audio_fec_message x = audio_fec_message y" "\<not> (\<exists>e. x = AudioFec e)" "\<exists>e. y = AudioFec e"
  then obtain err where "audio_fec_message x = datagram_fec_message err" by (metis audio_fec_message.simps(1))
  then show ?thesis using audio_fec_own [of x err] \<open>\<not> (\<exists>e. x = AudioFec e)\<close> by simp
next
  assume "audio_fec_message x = audio_fec_message y" "\<not> (\<exists>e. x = AudioFec e)" "\<not> (\<exists>e. y = AudioFec e)"
  then show ?thesis by (cases x; cases y) (simp_all add: message_simps)
qed

lemma datagram_fec_message_start:
  "datagram_fec_message err \<noteq> CHR ''a'' # CHR ''u'' # s" "datagram_fec_message err \<noteq> CHR ''m'' # s"
  "datagram_fec_message err \<noteq> CHR ''u'' # CHR ''n'' # CHR ''e'' # s"
  by (cases err; simp)+

lemmas message_starts = datagram_fec_message_start datagram_fec_message_start [symmetric]

lemma session_own: "(\<forall>e. x \<noteq> SessionFec e) \<Longrightarrow> session_message x \<noteq> audio_fec_message err"
  by (cases x; cases err) (simp_all add: message_simps message_starts)

lemma session_message_inj: "session_message x = session_message y \<Longrightarrow> x = y"
proof (cases "\<exists>e. x = SessionFec e"; cases "\<exists>e. y = SessionFec e")
  assume "session_message x = session_message y" "\<exists>e. x = SessionFec e" "\<exists>e. y = SessionFec e"
  then show ?thesis using audio_fec_message_inj by auto
next
  assume "session_message x = session_message y" "\<exists>e. x = SessionFec e" "\<not> (\<exists>e. y = SessionFec e)"
  then obtain err where "session_message y = audio_fec_message err" by (metis session_message.simps(1))
  then show ?thesis using session_own [of y err] \<open>\<not> (\<exists>e. y = SessionFec e)\<close> by simp
next
  assume "session_message x = session_message y" "\<not> (\<exists>e. x = SessionFec e)" "\<exists>e. y = SessionFec e"
  then obtain err where "session_message x = audio_fec_message err" by (metis session_message.simps(1))
  then show ?thesis using session_own [of x err] \<open>\<not> (\<exists>e. x = SessionFec e)\<close> by simp
next
  assume "session_message x = session_message y" "\<not> (\<exists>e. x = SessionFec e)" "\<not> (\<exists>e. y = SessionFec e)"
  then show ?thesis by (cases x; cases y) (simp_all add: message_simps)
qed

lemma transport_message_inj: "transport_message x = transport_message y \<Longrightarrow> x = y"
  using datagram_fec_message_inj by (cases x; cases y) (auto simp: message_simps message_starts)

end
