(* ===== verification/Browser.thy ===== *)
theory Browser
  imports Error_Messages Transport_Laws Audio_Playback
begin

text \<open>
  \<^verbatim>\<open>music-audio-session-wasm/src/lib.rs\<close>: the receiver as a browser sees it. Groups and statistics become
  JavaScript objects and errors are thrown as their text. The objects are a parameter, of which
  only what a script can do with an ordinary object is assumed; the \<^verbatim>\<open>into\<close> conversions are those of
  \<^verbatim>\<open>wasm_bindgen\<close>: integers of at most 32 bits become numbers, 64-bit ones a \<^verbatim>\<open>BigInt\<close>.
\<close>

section \<open>JavaScript objects\<close>

datatype js_value = JsUndefined | JsNumber nat | JsBigInt nat | JsString string | JsUint8Array bytes

text \<open>\<^verbatim>\<open>Object::new\<close>, \<^verbatim>\<open>Reflect::set\<close> and \<^verbatim>\<open>Reflect::get\<close>.\<close>

record 'o js_objects =
  js_new :: 'o
  js_set :: "'o \<Rightarrow> string \<Rightarrow> js_value \<Rightarrow> (js_value, 'o) result"
  js_get :: "'o \<Rightarrow> string \<Rightarrow> js_value"

primrec set_fields :: "'o js_objects \<Rightarrow> (string \<times> js_value) list \<Rightarrow> 'o \<Rightarrow> (js_value, 'o) result" where
  "set_fields js [] object = Inr object"
| "set_fields js (x # xs) object = rbind (js_set js object (fst x) (snd x)) (set_fields js xs)"

definition group_fields :: "decoded_group \<Rightarrow> (string \<times> js_value) list" where
  "group_fields g =
     [(''sessionId'', JsString (decimal_word (dg_session_id g))),
      (''configGeneration'', JsNumber (unat (dg_config_generation g))),
      (''epochId'', JsString (decimal_word (dg_epoch_id g))),
      (''ptsSamples'', JsString (decimal_word (dg_pts_samples g))),
      (''sampleRate'', JsNumber (unat (dg_sample_rate g))),
      (''frameCount'', JsNumber (unat (dg_frame_count g))),
      (''groupCount'', JsNumber (unat (dg_group_count g))),
      (''groupId'', JsNumber (unat (dg_group_id g))),
      (''groupIndex'', JsNumber (unat (dg_group_index g))),
      (''channelStart'', JsNumber (unat (dg_channel_start g))),
      (''channelCount'', JsNumber (unat (dg_channel_count g))),
      (''payloadKind'', JsNumber (unat (kind_to_u8 (dg_payload_kind g)))),
      (''sampleFormat'', JsNumber (unat (format_to_u8 (dg_sample_format g)))),
      (''flags'', JsNumber (unat (dg_flags g))),
      (''raptorqRecoveredFragments'', JsNumber (unat (dg_recovered_fragments g))),
      (''payload'', JsUint8Array (dg_payload g))]"

definition group_to_js :: "'o js_objects \<Rightarrow> decoded_group \<Rightarrow> (js_value, 'o) result" where
  "group_to_js js g = set_fields js (group_fields g) (js_new js)"

section \<open>The receiver\<close>

primrec push_groups :: "'o js_objects \<Rightarrow> decoded_group list \<Rightarrow> 'o list \<Rightarrow> (js_value, 'o list) result" where
  "push_groups js [] array = Inr array"
| "push_groups js (g # gs) array = rbind (group_to_js js g) (\<lambda>object. push_groups js gs (array @ [object]))"

definition browser_receiver_new :: "'d audio_receiver" where
  "browser_receiver_new = audio_receiver_new session_config_default"

definition browser_push_datagram ::
    "crc_fun \<Rightarrow> ('e, 'd) raptorq \<Rightarrow> 'o js_objects \<Rightarrow> 'd audio_receiver \<Rightarrow> bytes \<Rightarrow>
     'd audio_receiver \<times> (js_value, 'o list) result" where
  "browser_push_datagram crc rq js r datagram =
     (case map_err (JsString \<circ> audio_transport_message) (strip_audio_epoch_prefix datagram) of
        Inl thrown \<Rightarrow> (r, Inl thrown)
      | Inr payload \<Rightarrow>
          (case receiver_push_datagram crc rq r payload of
             (r1, q) \<Rightarrow>
               (r1, rbind (map_err (JsString \<circ> session_message) q) (\<lambda>out. push_groups js (ro_completed_groups out) []))))"

definition browser_expire_before ::
    "(u32 list \<Rightarrow> u32 list) \<Rightarrow> u64 \<Rightarrow> 'd audio_receiver \<Rightarrow> 'd audio_receiver \<times> nat" where
  "browser_expire_before ord pts r = receiver_expire_before ord pts r"

definition browser_reset :: "'d audio_receiver \<Rightarrow> 'd audio_receiver" where
  "browser_reset r = browser_receiver_new"

definition stats_fields :: "sequence_stats \<Rightarrow> (string \<times> js_value) list" where
  "stats_fields s =
     [(''received'', JsBigInt (unat (received s))), (''missing'', JsBigInt (unat (missing_count s))),
      (''duplicateOrReordered'', JsBigInt (unat (duplicate_or_reordered s)))] @
     (case highest_seen s of Some h \<Rightarrow> [(''highestSeen'', JsNumber (unat h))] | None \<Rightarrow> [])"

definition browser_sequence_stats :: "'o js_objects \<Rightarrow> 'd audio_receiver \<Rightarrow> (js_value, 'o) result" where
  "browser_sequence_stats js r =
     set_fields js (stats_fields (decoder_sequence_stats (ad_fec (rc_decoder r)))) (js_new js)"

section \<open>What a script can read\<close>

text \<open>Ordinary objects keep what is stored under the keys of the binding.\<close>

definition script_keys :: "string set" where
  "script_keys = fst ` set (group_fields undefined) \<union> {''received'', ''missing'', ''duplicateOrReordered'', ''highestSeen''}"

definition ordinary :: "'o js_objects \<Rightarrow> bool" where
  "ordinary js \<longleftrightarrow> (\<forall>k \<in> script_keys. js_get js (js_new js) k = JsUndefined) \<and>
     (\<forall>object v. \<forall>k \<in> script_keys. \<exists>object'. js_set js object k v = Inr object' \<and>
        (\<forall>k' \<in> script_keys. js_get js object' k' = (if k' = k then v else js_get js object k')))"

definition plain_objects :: "(string \<Rightarrow> js_value) js_objects" where
  "plain_objects = \<lparr>js_new = \<lambda>_. JsUndefined, js_set = \<lambda>object k v. Inr (object(k := v)), js_get = \<lambda>object. object\<rparr>"

lemma plain_objects_ordinary: "ordinary plain_objects"
  by (simp add: ordinary_def plain_objects_def)

lemma set_fields_ordinary:
  assumes "ordinary js"
  shows "fst ` set xs \<subseteq> script_keys \<Longrightarrow> distinct (map fst xs) \<Longrightarrow>
    \<exists>object'. set_fields js xs object = Inr object' \<and>
      (\<forall>k \<in> script_keys. js_get js object' k = (case map_of xs k of Some v \<Rightarrow> v | None \<Rightarrow> js_get js object k))"
proof (induction xs arbitrary: object)
  case (Cons x xs)
  have key: "fst x \<in> script_keys" using Cons.prems(1) by simp
  obtain o1 where o1: "js_set js object (fst x) (snd x) = Inr o1"
      "\<forall>k \<in> script_keys. js_get js o1 k = (if k = fst x then snd x else js_get js object k)"
    using bspec [OF spec [OF spec [OF conjunct2 [OF assms [unfolded ordinary_def]]]] key] by blast
  obtain o2 where o2: "set_fields js xs o1 = Inr o2"
      "\<forall>k \<in> script_keys. js_get js o2 k = (case map_of xs k of Some v \<Rightarrow> v | None \<Rightarrow> js_get js o1 k)"
    using Cons.IH [of o1] Cons.prems by auto
  have "map_of xs (fst x) = None" using Cons.prems(2) by (simp add: map_of_eq_None_iff)
  then show ?case using o1 o2 by (auto split: option.split)
qed simp

definition shows_group :: "'o js_objects \<Rightarrow> 'o \<Rightarrow> decoded_group \<Rightarrow> bool" where
  "shows_group js object g \<longleftrightarrow> (\<forall>x \<in> set (group_fields g). js_get js object (fst x) = snd x)"

text \<open>An object shows one group only: 64-bit numbers travel as text and nothing is rounded.\<close>

lemma codes_inj:
  "kind_to_u8 j = kind_to_u8 k \<longleftrightarrow> j = k" "format_to_u8 f = format_to_u8 h \<longleftrightarrow> f = h"
  by (metis kind_round_trip sum.inject(2)) (metis format_round_trip sum.inject(2))

lemma shows_group_unique:
  assumes "shows_group js object g" "shows_group js object h"
  shows "g = h"
proof -
  have "\<forall>x \<in> set (group_fields g). \<forall>y \<in> set (group_fields h). fst x = fst y \<longrightarrow> snd x = snd y"
    using assms unfolding shows_group_def by metis
  then have "group_fields g = group_fields h" by (simp add: group_fields_def)
  then show ?thesis
    by (cases g; cases h) (simp add: group_fields_def decimal_eq word_eq codes_inj)
qed

lemma group_to_js_shows:
  assumes "ordinary js"
  shows "\<exists>object. group_to_js js g = Inr object \<and> shows_group js object g"
proof -
  have keys: "map fst (group_fields g) = map fst (group_fields undefined)" by (simp add: group_fields_def)
  then have sub: "fst ` set (group_fields g) \<subseteq> script_keys"
    unfolding script_keys_def by (metis Un_upper1 list.set_map)
  have dist: "distinct (map fst (group_fields g))" by (simp add: group_fields_def)
  obtain object where obj: "set_fields js (group_fields g) (js_new js) = Inr object"
      "\<forall>k \<in> script_keys. js_get js object k =
         (case map_of (group_fields g) k of Some v \<Rightarrow> v | None \<Rightarrow> js_get js (js_new js) k)"
    using set_fields_ordinary [OF assms sub dist] by blast
  have "js_get js object (fst x) = snd x" if "x \<in> set (group_fields g)" for x
    using obj(2) sub that map_of_is_SomeI [OF dist, of "fst x" "snd x"] by force
  then show ?thesis using obj(1) by (simp add: group_to_js_def shows_group_def)
qed

lemma push_groups_shows:
  assumes "ordinary js"
  shows "\<exists>objects. push_groups js gs array = Inr (array @ objects) \<and> list_all2 (shows_group js) objects gs"
proof (induction gs arbitrary: array)
  case (Cons g gs)
  obtain object where "group_to_js js g = Inr object" "shows_group js object g"
    using group_to_js_shows [OF assms] by blast
  moreover obtain objects where "push_groups js gs (array @ [object]) = Inr ((array @ [object]) @ objects)"
      "list_all2 (shows_group js) objects gs"
    using Cons.IH by blast
  ultimately show ?case by (intro exI [of _ "object # objects"]) simp
qed simp

section \<open>What a script receives\<close>

primrec browser_push_all ::
    "crc_fun \<Rightarrow> ('e, 'd) raptorq \<Rightarrow> 'o js_objects \<Rightarrow> 'd audio_receiver \<Rightarrow> bytes list \<Rightarrow>
     'd audio_receiver \<times> (js_value, 'o list) result list" where
  "browser_push_all crc rq js r [] = (r, [])"
| "browser_push_all crc rq js r (x # xs) =
     (case browser_push_datagram crc rq js r x of
        (r1, q) \<Rightarrow> (case browser_push_all crc rq js r1 xs of (r2, qs) \<Rightarrow> (r2, q # qs)))"

definition objects_out :: "(js_value, 'o list) result list \<Rightarrow> 'o list" where
  "objects_out qs = concat (map (\<lambda>q. case q of Inl _ \<Rightarrow> [] | Inr objects \<Rightarrow> objects) qs)"

lemma browser_stream:
  assumes "ordinary js"
  shows "receiver_push_all crc rq r xs = (r', qs) \<Longrightarrow> all_ok qs \<Longrightarrow>
    \<exists>outs. browser_push_all crc rq js r (map add_audio_epoch_prefix xs) = (r', outs) \<and> all_ok outs \<and>
      list_all2 (shows_group js) (objects_out outs) (groups_out qs)"
proof (induction xs arbitrary: r qs)
  case Nil
  then show ?case by (simp add: objects_out_def groups_out_def)
next
  case (Cons x xs)
  obtain r1 q where one: "receiver_push_datagram crc rq r x = (r1, q)" by fastforce
  obtain ps where rest: "receiver_push_all crc rq r1 xs = (r', ps)" "qs = q # ps"
    using Cons.prems(1) one by (auto split: prod.splits)
  obtain out where q: "q = Inr out" using Cons.prems(2) rest(2) by (cases q) (auto simp: all_ok_def)
  obtain objects where objects: "push_groups js (ro_completed_groups out) [] = Inr objects"
      "list_all2 (shows_group js) objects (ro_completed_groups out)"
    using push_groups_shows [OF assms, of "ro_completed_groups out" "[]"] by auto
  obtain outs where outs: "browser_push_all crc rq js r1 (map add_audio_epoch_prefix xs) = (r', outs)" "all_ok outs"
      "list_all2 (shows_group js) (objects_out outs) (groups_out ps)"
    using Cons.IH [OF rest(1)] Cons.prems(2) rest(2) q by auto
  have "browser_push_datagram crc rq js r (add_audio_epoch_prefix x) = (r1, Inr objects)"
    by (simp add: browser_push_datagram_def magic.unframe_frame one q objects(1))
  then show ?case
    using outs objects(2) by (auto simp: rest(2) q objects_out_def groups_out_def intro: list_all2_appendI)
qed

text \<open>Without a stream id a message is the datagram behind the prefix of audio epochs.\<close>

lemma wrapped_messages:
  assumes "wrap_epoch a enc = Inr w" "tc_stream_id_mode (ta_transport a) = NoStreamId"
  shows "map tad_payload (tae_datagrams w) = map (add_audio_epoch_prefix \<circ> adg_payload) (ee_datagrams enc)"
  using wrap_epoch_ok [OF assms(1)] assms(2)
  by (simp add: framed_as_def frame_audio_datagram_def mode_prefix_def add_prefix_def)

text \<open>
  C3. A browser receives exactly what was sent. Prepare a sender for a transport without stream ids, encode
  a valid epoch and wrap it; wrapping succeeds. Push any of the messages into a new browser receiver, in any
  order, with losses and repetitions: no push throws, and the objects it returns are those of groups of the
  epoch, each once and with its payload and metadata; the properties a script reads from an object
  fit no other group. A group all of whose source datagrams arrived is among them, and all groups are once
  the codec can recover the block or all source datagrams arrived.
\<close>
theorem browser_receives_exact_groups:
  assumes "rq_lawful rq" "systematic rq" "ordinary js"
    and "ae_config (as_encoder s) = prepare_fec_config a c" "tc_stream_id_mode (ta_transport a) = NoStreamId"
    and "audio_sendable (ae_config (as_encoder s)) ep geo"
  shows "\<exists>s' enc w. sender_encode_epoch crc rq s ep = (s', Inr enc) \<and> wrap_epoch a enc = Inr w \<and>
    length (epoch_shards ep geo) \<le> length (tae_datagrams w) \<and>
    (\<forall>got r' outs. set got \<subseteq> {..<length (tae_datagrams w)} \<longrightarrow>
       browser_push_all crc rq js browser_receiver_new (map (\<lambda>j. tad_payload (tae_datagrams w ! j)) got) = (r', outs) \<longrightarrow>
       (let recovered = codec_run rq (block_decoder rq (length (epoch_object ep geo)) (ag_symbol_size geo))
              (map (block_packet rq (epoch_object ep geo) (ag_symbol_size geo)) got) \<noteq> None
        in all_ok outs \<and>
           (\<exists>ids gs. distinct ids \<and> list_all2 (exact_group ep) ids gs \<and>
              list_all2 (\<lambda>object g. \<forall>h. shows_group js object h \<longleftrightarrow> h = g) (objects_out outs) gs \<and>
              (\<forall>gi < length (ep_groups ep).
                 recovered \<or> (\<forall>i < fragment_total ep geo gi. fragment_position ep geo (gi, i) \<in> set got) \<longrightarrow> gi \<in> set ids)) \<and>
           ({..<length (epoch_shards ep geo)} \<subseteq> set got \<longrightarrow> recovered)))"
proof -
  let ?e = "as_encoder s"
  obtain e' enc where enc: "encode_epoch crc rq ?e ep = (e', Inr enc)"
    using encode_epoch_lawful [OF assms(1,6), of crc] by blast
  then obtain s' where sent: "sender_encode_epoch crc rq s ep = (s', Inr enc)" by (simp add: sender_encode_epoch_def)
  note wraps = prepared_epoch_wraps [OF assms(1,4,6) enc]
  obtain w where w: "wrap_epoch a enc = Inr w" using wraps(1) by blast
  note msgs = wrapped_messages [OF w assms(5)]
  have len: "length (tae_datagrams w) = length (ee_datagrams enc)" using arg_cong [OF msgs, of length] by simp
  have msg: "tad_payload (tae_datagrams w ! j) = add_audio_epoch_prefix (adg_payload (ee_datagrams enc ! j))"
    if "j < length (ee_datagrams enc)" for j
    using arg_cong [OF msgs, of "\<lambda>xs. xs ! j"] that len by simp
  have short: "length (epoch_shards ep geo) \<le> length (tae_datagrams w)"
    using wraps(4) unat_block_symbols(1) [OF assms(6)] len by simp
  {
    fix got r' outs
    assume got: "set got \<subseteq> {..<length (tae_datagrams w)}"
      and push: "browser_push_all crc rq js browser_receiver_new (map (\<lambda>j. tad_payload (tae_datagrams w ! j)) got) = (r', outs)"
    let ?xs = "map (\<lambda>j. adg_payload (ee_datagrams enc ! j)) got"
    obtain r1 qs where rec: "receiver_push_all crc rq (audio_receiver_new session_config_default) ?xs = (r1, qs)" by fastforce
    have got1: "set got \<subseteq> {..<length (ee_datagrams enc)}" using got len by simp
    note received = session_receives [OF assms(1,2,6) enc got1 rec, unfolded epoch_received_def Let_def]
    have msgs_got: "map (\<lambda>j. tad_payload (tae_datagrams w ! j)) got = map add_audio_epoch_prefix ?xs"
      using got len by (auto intro: msg)
    have "all_ok qs" using received by blast
    from browser_stream [OF assms(3) rec this] push [unfolded msgs_got browser_receiver_new_def]
    have outs: "all_ok outs" "list_all2 (shows_group js) (objects_out outs) (groups_out qs)" by auto
    have "list_all2 (\<lambda>object g. \<forall>h. shows_group js object h \<longleftrightarrow> h = g) (objects_out outs) (groups_out qs)"
      by (rule list_all2_mono [OF outs(2)]) (blast intro: shows_group_unique)
    with received outs(1) have "let recovered = codec_run rq (block_decoder rq (length (epoch_object ep geo)) (ag_symbol_size geo))
              (map (block_packet rq (epoch_object ep geo) (ag_symbol_size geo)) got) \<noteq> None
        in all_ok outs \<and>
           (\<exists>ids gs. distinct ids \<and> list_all2 (exact_group ep) ids gs \<and>
              list_all2 (\<lambda>object g. \<forall>h. shows_group js object h \<longleftrightarrow> h = g) (objects_out outs) gs \<and>
              (\<forall>gi < length (ep_groups ep).
                 recovered \<or> (\<forall>i < fragment_total ep geo gi. fragment_position ep geo (gi, i) \<in> set got) \<longrightarrow> gi \<in> set ids)) \<and>
           ({..<length (epoch_shards ep geo)} \<subseteq> set got \<longrightarrow> recovered)"
      unfolding Let_def by blast
  }
  then show ?thesis using sent w short by blast
qed

definition example_browser_adapter :: audio_adapter where
  "example_browser_adapter = audio_adapter_new config_webtransport 131"

definition example_browser_session :: session_config where
  "example_browser_session = example_session\<lparr>sc_fec := prepare_fec_config example_browser_adapter example_audio_config\<rparr>"

lemma example_browser_sendable:
  "\<exists>geo. audio_sendable (prepare_fec_config example_browser_adapter example_audio_config) example_epoch geo"
proof -
  let ?c = "prepare_fec_config example_browser_adapter example_audio_config"
  have c: "?c = \<lparr>ac_max_datagram_size = 131, ac_transport_overhead = 4, ac_repair_symbols = 2, ac_max_source_symbols = 4\<rparr>"
    by (simp add: prepare_fec_config_def example_browser_adapter_def audio_adapter_new_def example_audio_config_def
        transport_overhead_def config_webtransport_def AUDIO_TRANSPORT_MAGIC_LEN_def)
  have mp: "max_fragment_payload ?c = Inr 11" unfolding max_fragment_payload_Inr by (simp add: c usize_max_def)
  obtain geo where geo: "geometry_for_groups ?c example_groups = Inr geo"
  proof (cases "geometry_for_groups ?c example_groups")
    case (Inl err)
    from geometry_Inl(2) [OF Inl mp example_groups_ne] show ?thesis
      by (simp add: example_needed div_ceil_def c)
  qed
  have "valid_epoch example_epoch" using example_audio_sendable by (auto simp: audio_sendable_def)
  moreover have "ep_groups example_epoch = example_groups" by (simp add: example_epoch_def)
  ultimately show ?thesis using geo mp by (auto simp: audio_sendable_def c)
qed

theorem browser_receives_exact_groups_witness:
  "\<exists>s' enc w outs. sender_encode_epoch crc_reference rep_codec (audio_sender_new example_browser_session) example_epoch =
       (s', Inr enc) \<and>
     wrap_epoch example_browser_adapter enc = Inr w \<and>
     outs = snd (browser_push_all crc_reference rep_codec plain_objects browser_receiver_new
       (map (\<lambda>j. tad_payload (tae_datagrams w ! j)) (rev [0..<length (tae_datagrams w)]))) \<and>
     all_ok outs \<and> 2 \<le> length (objects_out outs)"
proof -
  let ?s = "audio_sender_new example_browser_session" and ?a = example_browser_adapter
  have cfg: "ae_config (as_encoder ?s) = prepare_fec_config ?a example_audio_config"
    by (simp add: audio_sender_new_def audio_encoder_new_def session_config_normalized_def example_browser_session_def)
  have mode: "tc_stream_id_mode (ta_transport ?a) = NoStreamId"
    by (simp add: example_browser_adapter_def audio_adapter_new_def config_webtransport_def)
  obtain geo where geo: "audio_sendable (ae_config (as_encoder ?s)) example_epoch geo"
    using example_browser_sendable unfolding cfg by blast
  obtain s' enc w where enc: "sender_encode_epoch crc_reference rep_codec ?s example_epoch = (s', Inr enc)"
      "wrap_epoch ?a enc = Inr w" and len: "length (epoch_shards example_epoch geo) \<le> length (tae_datagrams w)"
    and all: "\<forall>got r' outs. set got \<subseteq> {..<length (tae_datagrams w)} \<longrightarrow>
       browser_push_all crc_reference rep_codec plain_objects browser_receiver_new
         (map (\<lambda>j. tad_payload (tae_datagrams w ! j)) got) = (r', outs) \<longrightarrow>
       (let recovered = codec_run rep_codec (block_decoder rep_codec (length (epoch_object example_epoch geo)) (ag_symbol_size geo))
              (map (block_packet rep_codec (epoch_object example_epoch geo) (ag_symbol_size geo)) got) \<noteq> None
        in all_ok outs \<and>
           (\<exists>ids gs. distinct ids \<and> list_all2 (exact_group example_epoch) ids gs \<and>
              list_all2 (\<lambda>object g. \<forall>h. shows_group plain_objects object h \<longleftrightarrow> h = g) (objects_out outs) gs \<and>
              (\<forall>gi < length (ep_groups example_epoch). recovered \<or> (\<forall>i < fragment_total example_epoch geo gi.
                 fragment_position example_epoch geo (gi, i) \<in> set got) \<longrightarrow> gi \<in> set ids)) \<and>
           ({..<length (epoch_shards example_epoch geo)} \<subseteq> set got \<longrightarrow> recovered))"
    using browser_receives_exact_groups [OF rep_codec_lawful rep_codec_systematic plain_objects_ordinary cfg mode geo,
        of crc_reference] by (elim exE conjE)
  let ?got = "rev [0..<length (tae_datagrams w)]"
  have "set ?got \<subseteq> {..<length (tae_datagrams w)}" "{..<length (epoch_shards example_epoch geo)} \<subseteq> set ?got"
    using len by auto
  note result = all [unfolded Let_def, rule_format, OF this(1) surjective_pairing] and every = this(2)
  from result every obtain ids gs where ids: "distinct ids" "list_all2 (exact_group example_epoch) ids gs"
      "list_all2 (\<lambda>object g. \<forall>h. shows_group plain_objects object h \<longleftrightarrow> h = g)
        (objects_out (snd (browser_push_all crc_reference rep_codec plain_objects browser_receiver_new
          (map (\<lambda>j. tad_payload (tae_datagrams w ! j)) ?got)))) gs"
      "{..<length (ep_groups example_epoch)} \<subseteq> set ids"
    unfolding subset_iff lessThan_iff by blast
  have "card {..<length (ep_groups example_epoch)} \<le> card (set ids)" by (rule card_mono [OF finite_set ids(4)])
  then have "2 \<le> length ids"
    using distinct_card [OF ids(1)] by (simp add: example_epoch_def example_groups_def)
  then show ?thesis
    using enc result list_all2_lengthD [OF ids(2)] list_all2_lengthD [OF ids(3)] by auto
qed

end
