(* ===== verification/Separation.thy ===== *)
theory Separation
  imports Prelude
begin

text \<open>
  A system that serves several owners: every step belongs to one of them, and each has a view of the
  state. When a step of one owner changes no other's view, and what it answers depends on the owner's view
  alone, then in any interleaving every owner gets the answers it would get alone.
\<close>

section \<open>Runs\<close>

primrec run_steps :: "('i \<Rightarrow> 's \<Rightarrow> 's \<times> 'o) \<Rightarrow> 'i list \<Rightarrow> 's \<Rightarrow> 's \<times> 'o list" where
  "run_steps step [] s = (s, [])"
| "run_steps step (i # is) s =
     (case step i s of (s1, out) \<Rightarrow> (case run_steps step is s1 of (s2, outs) \<Rightarrow> (s2, out # outs)))"

definition inputs_for :: "('i \<Rightarrow> 'b) \<Rightarrow> 'b \<Rightarrow> 'i list \<Rightarrow> 'i list" where
  "inputs_for owner b is = filter (\<lambda>i. owner i = b) is"

definition answers_for :: "('i \<Rightarrow> 'b) \<Rightarrow> 'b \<Rightarrow> 'i list \<Rightarrow> 'o list \<Rightarrow> 'o list" where
  "answers_for owner b is outs = map snd (filter (\<lambda>x. owner (fst x) = b) (zip is outs))"

lemma inputs_for_simps [simp]:
  "inputs_for owner b [] = []"
  "inputs_for owner b (i # is) = (if owner i = b then i # inputs_for owner b is else inputs_for owner b is)"
  by (simp_all add: inputs_for_def)

lemma answers_for_simps [simp]:
  "answers_for owner b [] outs = []"
  "answers_for owner b (i # is) (out # outs) =
     (if owner i = b then out # answers_for owner b is outs else answers_for owner b is outs)"
  by (simp_all add: answers_for_def)

lemma answers_for_map: "answers_for owner b is (map f outs) = map f (answers_for owner b is outs)"
proof (induction "is" arbitrary: outs)
  case (Cons i "is")
  then show ?case by (cases outs) (simp_all add: answers_for_def)
qed simp

lemma answer_of_input:
  "length outs = length is \<Longrightarrow> x \<in> set (zip is outs) \<Longrightarrow> snd x \<in> set (answers_for owner (owner (fst x)) is outs)"
  by (auto simp: answers_for_def)

text \<open>Inputs under other names.\<close>

lemma inputs_for_map:
  "\<forall>x \<in> set xs. owner (f x) = b \<longleftrightarrow> own x = c \<Longrightarrow> inputs_for owner b (map f xs) = map f (inputs_for own c xs)"
  by (induction xs) simp_all

lemma answers_for_inputs:
  "\<forall>x \<in> set xs. owner (f x) = b \<longleftrightarrow> own x = c \<Longrightarrow> answers_for owner b (map f xs) outs = answers_for own c xs outs"
proof (induction xs arbitrary: outs)
  case (Cons x xs)
  then show ?case by (cases outs) (auto simp: answers_for_def)
qed simp

text \<open>Inputs that carry the answers of an earlier stage.\<close>

lemma inputs_for_zip:
  "length ls = length is \<Longrightarrow>
   inputs_for fst b (zip (map fst is) ls) = zip (map fst (inputs_for fst b is)) (answers_for fst b is ls)"
  by (induction ls "is" rule: list_induct2) simp_all

lemma answers_for_zip:
  "length ls = length is \<Longrightarrow> length outs = length is \<Longrightarrow>
   answers_for fst b (zip (map fst is) ls) outs = answers_for fst b is outs"
proof (induction ls "is" arbitrary: outs rule: list_induct2)
  case (Cons l ls i "is")
  then show ?case by (cases outs) simp_all
qed simp

lemma length_run_steps: "length (snd (run_steps step is s)) = length is"
  by (induction "is" arbitrary: s) (simp_all add: case_prod_beta)

section \<open>Interface\<close>

text \<open>
  \<open>ok\<close> are the states the system stays in, \<open>fine\<close> the inputs it is meant for.
\<close>

locale separation =
  fixes step :: "'i \<Rightarrow> 's \<Rightarrow> 's \<times> 'o" and owner :: "'i \<Rightarrow> 'b" and view :: "'b \<Rightarrow> 's \<Rightarrow> 'v"
    and ok :: "'s \<Rightarrow> bool" and fine :: "'i \<Rightarrow> bool"
  assumes ok_step: "ok s \<Longrightarrow> fine i \<Longrightarrow> ok (fst (step i s))"
    and locally_respects: "ok s \<Longrightarrow> fine i \<Longrightarrow> owner i \<noteq> b \<Longrightarrow> view b (fst (step i s)) = view b s"
    and output_consistent: "ok s \<Longrightarrow> ok t \<Longrightarrow> fine i \<Longrightarrow> view (owner i) s = view (owner i) t \<Longrightarrow>
      snd (step i s) = snd (step i t)"
    and step_consistent: "ok s \<Longrightarrow> ok t \<Longrightarrow> fine i \<Longrightarrow> view (owner i) s = view (owner i) t \<Longrightarrow>
      view (owner i) (fst (step i s)) = view (owner i) (fst (step i t))"
begin

lemma run_ok: "ok s \<Longrightarrow> list_all fine is \<Longrightarrow> ok (fst (run_steps step is s))"
proof (induction "is" arbitrary: s)
  case (Cons i "is")
  then show ?case using ok_step [of s i] Cons.IH [of "fst (step i s)"] by (simp add: case_prod_beta)
qed simp

text \<open>In an interleaved run every owner sees and hears what it would in a run of its own.\<close>

lemma run_alone:
  "ok s \<Longrightarrow> ok t \<Longrightarrow> list_all fine is \<Longrightarrow> view b s = view b t \<Longrightarrow>
   answers_for owner b is (snd (run_steps step is s)) = snd (run_steps step (inputs_for owner b is) t) \<and>
   view b (fst (run_steps step is s)) = view b (fst (run_steps step (inputs_for owner b is) t))"
proof (induction "is" arbitrary: s t)
  case (Cons i "is")
  have i: "ok s" "ok t" "fine i" using Cons.prems by simp_all
  have rest: "ok (fst (step i s))" "list_all fine is" using Cons.prems ok_step [OF i(1,3)] by simp_all
  show ?case
  proof (cases "owner i = b")
    case True
    have same: "view (owner i) s = view (owner i) t" using Cons.prems(4) True by simp
    have "view b (fst (step i s)) = view b (fst (step i t))" using step_consistent [OF i same] True by simp
    from Cons.IH [OF rest(1) ok_step [OF i(2,3)] rest(2) this] show ?thesis
      using True output_consistent [OF i same] by (simp add: case_prod_beta)
  next
    case False
    have "view b (fst (step i s)) = view b t" using locally_respects [OF i(1,3) False] Cons.prems(4) by simp
    from Cons.IH [OF rest(1) i(2) rest(2) this] show ?thesis
      using False by (simp add: case_prod_beta)
  qed
qed simp

end

end
