(* ===== verification/Audio_Interleaving.thy ===== *)
theory Audio_Interleaving
  imports Separation Audio_Delivery Interleaving
begin

text \<open>
  Several audio epochs on their way at the same time. As long as the decoder has room for all their blocks,
  and the ids lie in one pruning window, what it delivers for one of them does not depend on the others: an
  interpretation of \<open>separation\<close>.
\<close>

section \<open>Room for all blocks\<close>

definition roomy :: "u32 set \<Rightarrow> 'd audio_decoder \<Rightarrow> bool" where
  "roomy B d \<longleftrightarrow> finite B \<and> window B \<and> audio_inv d \<and> known_ids d \<subseteq> B \<and>
     card B \<le> ad_max_in_flight d \<and> card B \<le> ad_max_completed d"

definition block_view ::
    "u32 \<Rightarrow> 'd audio_decoder \<Rightarrow> bool \<times> bool \<times> 'd block_state option \<times> u16 set option" where
  "block_view b d =
     (b \<in> ad_completed d, b \<in> dec_completed (ad_fec d), dec_blocks (ad_fec d) b, ad_delivered d b)"

text \<open>An item is a datagram with the id of its block.\<close>

definition block_item :: "u32 set \<Rightarrow> u32 \<times> bytes \<Rightarrow> bool" where
  "block_item B i \<longleftrightarrow> fst i \<in> B \<and> (\<exists>h. decode_header (snd i) = Inr h \<and> hdr_block_id h = fst i)"

definition push_item_audio ::
    "crc_fun \<Rightarrow> ('e, 'd) raptorq \<Rightarrow> u32 \<times> bytes \<Rightarrow> 'd audio_decoder \<Rightarrow>
     'd audio_decoder \<times> (audio_fec_error, decoded_shard list) result" where
  "push_item_audio crc rq i d = audio_push_datagram crc rq d (snd i)"

lemma expire_oldest_room:
  "card (ad_in_flight d) \<le> ad_max_in_flight d \<Longrightarrow> expire_oldest order d = d\<lparr>ad_in_flight_order := order\<rparr>"
  by (cases order) simp_all

lemma observe_roomy:
  assumes "roomy B d" "b \<in> B"
  shows "\<exists>q l. observe_in_flight b d = d\<lparr>ad_in_flight := q, ad_in_flight_order := l\<rparr>"
proof (cases "b \<in> ad_in_flight d")
  case False
  have "insert b (ad_in_flight d) \<subseteq> B" using assms by (auto simp: roomy_def known_ids_def)
  then have "card (insert b (ad_in_flight d)) \<le> ad_max_in_flight d"
    using assms(1) card_mono [of B "insert b (ad_in_flight d)"] by (auto simp: roomy_def)
  then have "expire_oldest (ad_in_flight_order d @ [b]) (d\<lparr>ad_in_flight := insert b (ad_in_flight d)\<rparr>) =
      d\<lparr>ad_in_flight := insert b (ad_in_flight d), ad_in_flight_order := ad_in_flight_order d @ [b]\<rparr>"
    by (subst expire_oldest_room) simp_all
  then show ?thesis using False by (auto simp: observe_in_flight_def)
next
  case True
  then show ?thesis by (intro exI [of _ "ad_in_flight d"] exI [of _ "ad_in_flight_order d"]) (simp add: observe_in_flight_def)
qed

lemma remember_roomy:
  assumes "closed.inv d" "ad_completed d \<subseteq> B" "finite B" "card B \<le> ad_max_completed d" "b \<in> B"
  shows "ad_completed (remember_closed b d) = insert b (ad_completed d)"
proof -
  let ?l = "if b \<in> ad_completed d then ad_completed_order d else ad_completed_order d @ [b]"
  have q: "distinct ?l" "set ?l = insert b (ad_completed d)"
    using assms(1) by (auto simp: closed.inv_def ids_inv_def)
  have "length ?l = card (set ?l)" using distinct_card [OF q(1)] by simp
  also have "\<dots> \<le> card B" unfolding q(2) using assms(2,3,5) by (intro card_mono) auto
  finally have "drop (length ?l - ad_max_completed d) ?l = ?l" using assms(4) by simp
  then show ?thesis
    using closed.history_remember [OF assms(1), of b] q(2) by (simp add: Let_def)
qed

lemma close_view:
  assumes "closed.inv d" "ad_completed d \<subseteq> B" "finite B" "card B \<le> ad_max_completed d" "b \<in> B"
  shows "c \<noteq> b \<Longrightarrow> block_view c (close_block b d) = block_view c d"
    "block_view b (close_block b d) = (True, b \<in> dec_completed (ad_fec d), dec_blocks (ad_fec d) b, None)"
proof -
  let ?d = "d\<lparr>ad_in_flight := ad_in_flight d - {b}, ad_in_flight_order := filter (\<lambda>c. c \<noteq> b) (ad_in_flight_order d),
      ad_delivered := (ad_delivered d)(b := None)\<rparr>"
  have "ad_completed (remember_closed b ?d) = insert b (ad_completed ?d)"
    by (rule remember_roomy [where B = B]) (use assms in simp_all)
  then show "c \<noteq> b \<Longrightarrow> block_view c (close_block b d) = block_view c d"
    "block_view b (close_block b d) = (True, b \<in> dec_completed (ad_fec d), dec_blocks (ad_fec d) b, None)"
    by (simp_all add: close_block_def block_view_def)
qed

section \<open>One datagram\<close>

lemma fec_view:
  assumes "header_decode x = Inr h"
  shows "c \<noteq> hdr_block_id h \<Longrightarrow> kept_by_prune (hdr_block_id h) c \<Longrightarrow>
      dec_blocks (fst (push_datagram crc rq f x)) c = dec_blocks f c"
    "c \<noteq> hdr_block_id h \<Longrightarrow> kept_by_prune (hdr_block_id h) c \<Longrightarrow>
      c \<in> dec_completed (fst (push_datagram crc rq f x)) \<longleftrightarrow> c \<in> dec_completed f"
  using push_datagram_shape [OF assms, of crc rq f] by (auto simp: Let_def complete_block_known)

lemma fec_consistent:
  assumes "header_decode x = Inr h" "b = hdr_block_id h"
    and "dec_blocks f b = dec_blocks g b" "b \<in> dec_completed f \<longleftrightarrow> b \<in> dec_completed g"
  shows "snd (push_datagram crc rq f x) = snd (push_datagram crc rq g x) \<and>
    dec_blocks (fst (push_datagram crc rq f x)) b = dec_blocks (fst (push_datagram crc rq g x)) b \<and>
    (b \<in> dec_completed (fst (push_datagram crc rq f x)) \<longleftrightarrow> b \<in> dec_completed (fst (push_datagram crc rq g x)))"
proof (cases "header_payload crc h x")
  case (Inr p)
  let ?packet = "rq_deserialize rq p"
  obtain bs where bs: "bs = (case dec_blocks g b of Some bs \<Rightarrow> bs
      | None \<Rightarrow> \<lparr>bs_decoder = rq_decoder rq (header_oti h), bs_transfer_length = hdr_transfer_length h,
           bs_source_symbols = hdr_source_symbols h, bs_symbol_size = hdr_symbol_size h\<rparr>)" by simp
  obtain dec out where out: "rq_decode rq (bs_decoder bs) ?packet = (dec, out)" by fastforce
  show ?thesis
    using assms(4)
    by (cases out) (simp_all add: push_datagram_def assms(1,3) Inr Let_def bs [symmetric] out assms(2) [symmetric]
        complete_block_simps kept_self)
qed (use assms in \<open>simp add: push_datagram_def\<close>)

lemma roomy_fec:
  assumes "roomy B d" "header_decode x = Inr h" "hdr_block_id h \<in> B"
  shows "roomy B (d\<lparr>ad_fec := fst (push_datagram crc rq (ad_fec d) x)\<rparr>)"
proof -
  have "known_ids (d\<lparr>ad_fec := fst (push_datagram crc rq (ad_fec d) x)\<rparr>) \<subseteq> insert (hdr_block_id h) (known_ids d)"
    using push_datagram_known [OF assms(2), where crc = crc and rq = rq and f = "ad_fec d"]
    by (fastforce simp: known_iff)
  then show ?thesis using assms(1,3) unfolding roomy_def by auto
qed

lemma roomy_close:
  assumes "roomy B d" "b \<in> B"
  shows "c \<noteq> b \<Longrightarrow> block_view c (close_block b (d\<lparr>ad_delivered := m\<rparr>)) = block_view c (d\<lparr>ad_delivered := m\<rparr>)"
    "block_view b (close_block b (d\<lparr>ad_delivered := m\<rparr>)) =
       (True, b \<in> dec_completed (ad_fec d), dec_blocks (ad_fec d) b, None)"
  using assms close_view [of "d\<lparr>ad_delivered := m\<rparr>" B b]
  by (auto simp: roomy_def audio_inv_def known_ids_def)

lemma deliver_view:
  assumes d: "roomy B d" and b: "hdr_block_id h \<in> B" "c \<noteq> hdr_block_id h"
  shows "block_view c (fst (deliver_shards h source completed d)) = block_view c d"
proof (cases completed)
  case None
  obtain q l where "observe_in_flight (hdr_block_id h) d = d\<lparr>ad_in_flight := q, ad_in_flight_order := l\<rparr>"
    using observe_roomy [OF d b(1)] by blast
  then show ?thesis using b(2) by (simp add: deliver_shards_def Let_def None block_view_def)
next
  case (Some object)
  let ?put = "\<lambda>m. d\<lparr>ad_delivered := (ad_delivered d)(hdr_block_id h \<mapsto> m)\<rparr>"
  have "\<exists>m. fst (deliver_shards h source completed d) = ?put m \<or>
      fst (deliver_shards h source completed d) = close_block (hdr_block_id h) (?put m)"
    using Some by (auto simp: deliver_shards_def Let_def mark_completed_def split: prod.splits sum.splits)
  then show ?thesis using roomy_close(1) [OF d b(1) b(2)] b(2) by (auto simp: block_view_def)
qed

lemma deliver_consistent:
  assumes d: "roomy B d" and e: "roomy B e" and b: "hdr_block_id h \<in> B"
    and same: "block_view (hdr_block_id h) d = block_view (hdr_block_id h) e"
  shows "snd (deliver_shards h source completed d) = snd (deliver_shards h source completed e) \<and>
    block_view (hdr_block_id h) (fst (deliver_shards h source completed d)) =
    block_view (hdr_block_id h) (fst (deliver_shards h source completed e))"
proof (cases completed)
  case None
  obtain q l where od: "observe_in_flight (hdr_block_id h) d = d\<lparr>ad_in_flight := q, ad_in_flight_order := l\<rparr>"
    using observe_roomy [OF d b] by blast
  obtain q' l' where oe: "observe_in_flight (hdr_block_id h) e = e\<lparr>ad_in_flight := q', ad_in_flight_order := l'\<rparr>"
    using observe_roomy [OF e b] by blast
  have del: "ad_delivered (observe_in_flight (hdr_block_id h) d) (hdr_block_id h) =
      ad_delivered (observe_in_flight (hdr_block_id h) e) (hdr_block_id h)"
    using same by (simp add: od oe block_view_def)
  show ?thesis
    unfolding deliver_shards_def Let_def None option.case if_P [OF refl] del
    using same by (simp add: block_view_def od oe)
next
  case (Some object)
  have del: "ad_delivered d (hdr_block_id h) = ad_delivered e (hdr_block_id h)" using same by (simp add: block_view_def)
  let ?rec = "recover_symbols (hdr_block_id h) (hdr_source_symbols h) (chunks (unat (hdr_symbol_size h)) object) 0"
  show ?thesis
    unfolding deliver_shards_def Let_def Some option.case mark_completed_def del if_not_P [OF option.distinct(2)]
    using same roomy_close(2) [OF d b] roomy_close(2) [OF e b]
    by (simp add: block_view_def split: prod.split sum.split)
qed

lemma block_itemE:
  assumes "block_item B i"
  obtains h where "decode_header (snd i) = Inr h" "header_decode (snd i) = Inr h" "hdr_block_id h = fst i" "fst i \<in> B"
  using assms by (auto simp: block_item_def decode_header_def)

lemma push_item_roomy:
  assumes "roomy B d" "block_item B i"
  shows "roomy B (fst (push_item_audio crc rq i d))"
proof -
  obtain h where h: "decode_header (snd i) = Inr h" "hdr_block_id h = fst i" "fst i \<in> B" using block_itemE [OF assms(2)] .
  have inv: "audio_inv d" "closed.inv d" using assms(1) by (simp_all add: roomy_def audio_inv_def)
  show ?thesis
    using assms(1) run_op_inv [OF inv(1), of crc rq "AudioPush (snd i)"] audio_push_known [OF inv(2) h(1), of crc rq] h(2,3)
    by (auto simp: roomy_def push_item_audio_def run_audio_op_def same_limits_def)
qed

lemma push_item_view:
  assumes "roomy B d" "block_item B i" "c \<noteq> fst i" "c \<in> B"
  shows "block_view c (fst (push_item_audio crc rq i d)) = block_view c d"
proof -
  obtain h where h: "decode_header (snd i) = Inr h" "header_decode (snd i) = Inr h" "hdr_block_id h = fst i" "fst i \<in> B"
    using block_itemE [OF assms(2)] .
  let ?fec = "d\<lparr>ad_fec := fst (push_datagram crc rq (ad_fec d) (snd i))\<rparr>"
  have "kept_by_prune (fst i) c" using assms(1,4) h(4) by (simp add: roomy_def window_def)
  then have fec: "block_view c ?fec = block_view c d"
    using fec_view [OF h(2), where crc = crc and rq = rq and f = "ad_fec d" and c = c] assms(3) h(3) by (simp add: block_view_def)
  have room: "roomy B ?fec" using roomy_fec [OF assms(1) h(2)] h(3,4) by simp
  have "block_view c (fst (deliver_shards h source completed ?fec)) = block_view c d" for source completed
    using deliver_view [OF room, of h c] fec h(3,4) assms(3) by simp
  then show ?thesis
    using push_audio_cases [of crc rq d "snd i"] fec h(1) by (auto simp: push_item_audio_def)
qed

lemma push_item_consistent:
  assumes d: "roomy B d" and e: "roomy B e" and i: "block_item B i"
    and same: "block_view (fst i) d = block_view (fst i) e"
  shows "snd (push_item_audio crc rq i d) = snd (push_item_audio crc rq i e) \<and>
    block_view (fst i) (fst (push_item_audio crc rq i d)) = block_view (fst i) (fst (push_item_audio crc rq i e))"
proof -
  obtain h where h: "decode_header (snd i) = Inr h" "header_decode (snd i) = Inr h" "hdr_block_id h = fst i" "fst i \<in> B"
    using block_itemE [OF i] .
  obtain fd qd where fd: "push_datagram crc rq (ad_fec d) (snd i) = (fd, qd)" by fastforce
  obtain fe qe where fe: "push_datagram crc rq (ad_fec e) (snd i) = (fe, qe)" by fastforce
  have fec: "qe = qd" "block_view (fst i) (d\<lparr>ad_fec := fd\<rparr>) = block_view (fst i) (e\<lparr>ad_fec := fe\<rparr>)"
    using fec_consistent [OF h(2) h(3) [symmetric], of "ad_fec d" "ad_fec e" crc rq] same fd fe
    by (auto simp: block_view_def h(3))
  have room: "roomy B (d\<lparr>ad_fec := fd\<rparr>)" "roomy B (e\<lparr>ad_fec := fe\<rparr>)"
    using roomy_fec [OF d h(2)] roomy_fec [OF e h(2)] h(3,4) fd fe by (metis fst_conv)+
  have del: "snd (deliver_shards h source completed (d\<lparr>ad_fec := fd\<rparr>)) = snd (deliver_shards h source completed (e\<lparr>ad_fec := fe\<rparr>)) \<and>
      block_view (fst i) (fst (deliver_shards h source completed (d\<lparr>ad_fec := fd\<rparr>))) =
      block_view (fst i) (fst (deliver_shards h source completed (e\<lparr>ad_fec := fe\<rparr>)))" for source completed
    using deliver_consistent [OF room, of h source completed] fec(2) h(3,4) by simp
  have closed: "fst i \<in> ad_completed d \<longleftrightarrow> fst i \<in> ad_completed e" using same by (simp add: block_view_def)
  show ?thesis
  proof (cases "header_payload crc h (snd i)")
    case (Inr p)
    show ?thesis
      unfolding push_item_audio_def audio_push_datagram_def h(1) sum.case h(3) closed Inr fd fe prod.case fec(1) Let_def
      using del fec(2) same by (simp split: sum.split)
  qed (use same closed in \<open>simp add: push_item_audio_def audio_push_datagram_def h(1,3)\<close>)
qed

section \<open>Interleaved blocks\<close>

interpretation audio: separation "push_item_audio crc rq" fst "\<lambda>b d. if b \<in> B then Some (block_view b d) else None"
  "roomy B" "block_item B" for crc rq B
proof (unfold_locales, goal_cases)
  case (1 d i)
  then show ?case by (rule push_item_roomy)
next
  case (2 d i b)
  then show ?case by (simp add: push_item_view)
next
  case (3 d e i)
  then have "block_view (fst i) d = block_view (fst i) e" by (simp add: block_item_def)
  then show ?case by (rule conjunct1 [OF push_item_consistent [OF 3(1-3)]])
next
  case (4 d e i)
  then have "block_view (fst i) d = block_view (fst i) e" by (simp add: block_item_def)
  from conjunct2 [OF push_item_consistent [OF 4(1-3) this, of crc rq]] show ?case by simp
qed

lemma run_push_items: "run_steps (push_item_audio crc rq) is d = audio_push_all crc rq d (map snd is)"
  by (induction "is" arbitrary: d) (simp_all add: push_item_audio_def case_prod_beta)

lemma interleaved_decoder:
  assumes "roomy B d" "list_all (block_item B) is" "b \<in> B"
  shows "answers_for fst b is (snd (audio_push_all crc rq d (map snd is))) =
    snd (audio_push_all crc rq d (map snd (inputs_for fst b is)))"
  using audio.run_alone [OF assms(1,1,2) refl, of b crc rq] by (simp add: run_push_items)

lemma new_roomy:
  "finite B \<Longrightarrow> window B \<Longrightarrow> card B \<le> 128 \<Longrightarrow> roomy B audio_decoder_new"
  using new_fresh [of 0] by (simp add: roomy_def fresh_for_def known_ids_def audio_decoder_new_def decoder_new_def)

text \<open>Consecutive block ids that do not wrap around, at most as many as the window is wide.\<close>

lemma consecutive_window:
  assumes "n \<le> 64" "unat (b :: u32) + n \<le> 2 ^ 32"
  shows "window ((\<lambda>i. b + of_nat i) ` {..<n})" "card ((\<lambda>i. b + of_nat i) ` {..<n}) = n"
    "inj_on (\<lambda>i. b + of_nat i) {..<n}"
proof -
  have val: "unat (b + of_nat i) = unat b + i" if "i < n" for i
    using that assms by (simp add: unat_word_ariths unat_of_nat take_bit_nat_eq_self)
  show inj: "inj_on (\<lambda>i. b + of_nat i) {..<n}"
    by (rule inj_onI) (metis val add_left_cancel lessThan_iff)
  then show "card ((\<lambda>i. b + of_nat i) ` {..<n}) = n" by (simp add: card_image)
  have "kept_by_prune (b + of_nat i) (b + of_nat j)" if ij: "i < n" "j < n" for i j
  proof (cases "b + of_nat i < 64")
    case False
    then have "unat (b + of_nat i - 64) = unat (b + of_nat i) - 64" by (simp add: unat_sub not_less)
    then have "b + of_nat i - 64 \<le> b + of_nat j" using val ij assms(1) by (simp add: word_le_nat_alt)
    then show ?thesis by (simp add: kept_by_prune_def COMPLETED_WINDOW_def)
  qed (simp add: kept_by_prune_def COMPLETED_WINDOW_def)
  then show "window ((\<lambda>i. b + of_nat i) ` {..<n})" by (auto simp: window_def)
qed

end
