(* ===== verification/Session_Stream.thy ===== *)
theory Session_Stream
  imports Audio_Playback Audio_Stream
begin

text \<open>
  A live session: the sender of \<^verbatim>\<open>music-audio-session/src/lib.rs\<close> encodes epoch after epoch, the receiver
  gets what arrives of each and plays it at its time. Losses leave traces in the receiver (blocks it
  ignores, ids its decoder remembers, the time played last), which must not touch later epochs.
\<close>

section \<open>Sender and receiver over a stream\<close>

primrec sender_encode_epochs ::
    "crc_fun \<Rightarrow> ('e, 'd) raptorq \<Rightarrow> audio_sender \<Rightarrow> audio_epoch list \<Rightarrow>
     audio_sender \<times> (session_error, encoded_epoch list) result" where
  "sender_encode_epochs crc rq s [] = (s, Inr [])"
| "sender_encode_epochs crc rq s (ep # eps) =
     (case sender_encode_epoch crc rq s ep of
        (s1, Inl err) \<Rightarrow> (s1, Inl err)
      | (s1, Inr enc) \<Rightarrow>
          (case sender_encode_epochs crc rq s1 eps of (s2, r) \<Rightarrow> (s2, rbind r (\<lambda>encs. Inr (enc # encs)))))"

text \<open>For every epoch the datagrams that arrived and the time at which it is played.\<close>

primrec session_run ::
    "crc_fun \<Rightarrow> ('e, 'd) raptorq \<Rightarrow> (u32 list \<Rightarrow> u32 list) \<Rightarrow> 'd audio_receiver \<Rightarrow> (bytes list \<times> u64) list \<Rightarrow>
     'd audio_receiver \<times> ((session_error, receive_outcome) result list \<times> playout_read) list" where
  "session_run crc rq ord r [] = (r, [])"
| "session_run crc rq ord r (x # xs) =
     (case receiver_push_all crc rq r (fst x) of
        (r1, qs) \<Rightarrow>
          (case receiver_take_for_playout ord (snd x) r1 of
             (r2, p) \<Rightarrow> (case session_run crc rq ord r2 xs of (r3, outs) \<Rightarrow> (r3, (qs, p) # outs))))"

text \<open>An epoch is played exactly when it was completed, and otherwise reported missing.\<close>

definition epoch_played ::
    "('e, 'd) raptorq \<Rightarrow> audio_epoch \<Rightarrow> audio_geometry \<Rightarrow> nat list \<Rightarrow>
     (session_error, receive_outcome) result list \<times> playout_read \<Rightarrow> bool" where
  "epoch_played rq ep geo got out \<longleftrightarrow> epoch_received rq ep geo got (fst out) \<and>
     snd out = (case epochs_out (fst out) of [] \<Rightarrow> Missing (ep_pts_samples ep) | e # _ \<Rightarrow> Exact e)"

lemma epoch_played_iff:
  "epoch_played rq ep geo got out \<longleftrightarrow>
     (let qs = fst out; read = snd out;
          recovered = codec_run rq (block_decoder rq (length (epoch_object ep geo)) (ag_symbol_size geo))
            (map (block_packet rq (epoch_object ep geo) (ag_symbol_size geo)) got) \<noteq> None
      in all_ok qs \<and>
         (\<exists>ids. distinct ids \<and> list_all2 (exact_group ep) ids (groups_out qs) \<and>
            (\<forall>gi < length (ep_groups ep).
               recovered \<or> (\<forall>j < fragment_total ep geo gi. fragment_position ep geo (gi, j) \<in> set got) \<longrightarrow> gi \<in> set ids)) \<and>
         ({..<length (epoch_shards ep geo)} \<subseteq> set got \<longrightarrow> recovered) \<and>
         (epochs_out qs = [] \<and> read = Missing (ep_pts_samples ep) \<and> \<not> recovered \<or>
          (\<exists>e. exact_epoch ep e \<and> epochs_out qs = [e] \<and> read = Exact e)))"
  unfolding epoch_played_def epoch_received_def Let_def by (cases "epochs_out (fst out)") auto

section \<open>One epoch after the other\<close>

definition session_idle :: "nat \<Rightarrow> u64 option \<Rightarrow> 'd audio_receiver \<Rightarrow> bool" where
  "session_idle n played r \<longleftrightarrow>
     between_epochs played r \<and> older n (rc_decoder r) \<and> (\<forall>c \<in> rc_ignored r. unat c < n)"

lemma new_session_idle: "session_idle n None (audio_receiver_new c)"
  by (simp add: session_idle_def between_epochs_def audio_receiver_new_def Let_def older_new ignored.inv_def ids_inv_def
      playout_new_def session_config_normalized_def less_max_iff_disj)

lemma idle_receiving:
  assumes "session_idle (unat b) played r" "\<forall>t. played = Some t \<longrightarrow> t < ep_pts_samples ep"
    and "epoch_fine ep geo" "ep_groups ep \<noteq> []"
  shows "receiving ep geo b {} [] r" "fresh_for b (rc_decoder r)"
proof -
  have "\<not> whole_epoch ep geo {}" by (rule nothing_is_no_epoch [OF assms(4,3)])
  then show "receiving ep geo b {} [] r"
    using assms(1,2)
    by (auto simp: session_idle_def between_epochs_def receiving_def ready_for_def late_for_def word_less_nat_alt not_le
        split: option.split)
  show "fresh_for b (rc_decoder r)" using assms(1) older_fresh by (auto simp: session_idle_def)
qed

lemma encode_sender_config:
  "sender_encode_epoch crc rq s ep = (s', r) \<Longrightarrow> ae_config (as_encoder s') = ae_config (as_encoder s)"
  by (auto simp: sender_encode_epoch_def dest: encode_epoch_config split: prod.splits sum.splits)

lemma sender_encode_lawful:
  assumes "rq_lawful rq" "audio_sendable (ae_config (as_encoder s)) ep geo"
  shows "\<exists>s' enc. sender_encode_epoch crc rq s ep = (s', Inr enc) \<and> sender_block_id s' = sender_block_id s + 1 \<and>
    encode_epoch crc rq (as_encoder s) ep = (as_encoder s', Inr enc) \<and>
    length (epoch_shards ep geo) \<le> length (ee_datagrams enc)"
proof -
  obtain e' enc where "encode_epoch crc rq (as_encoder s) ep = (e', Inr enc)" "audio_block_id e' = sender_block_id s + 1"
      "length (ee_datagrams enc) = unat (ag_source_symbols geo) + unat (ac_repair_symbols (ae_config (as_encoder s)))"
    using encode_epoch_lawful [OF assms, of crc] by (auto simp: audio_block_id_def sender_block_id_def)
  then show ?thesis using unat_block_symbols(1) [OF assms(2)] by (simp add: sender_encode_epoch_def sender_block_id_def)
qed

lemma sender_encode_epochs_lawful:
  assumes lawful: "rq_lawful rq"
  shows "list_all2 (audio_sendable (ae_config (as_encoder s))) eps geos \<Longrightarrow>
    \<exists>s' encs. sender_encode_epochs crc rq s eps = (s', Inr encs) \<and> length encs = length eps \<and>
      (\<forall>i < length eps. length (epoch_shards (eps ! i) (geos ! i)) \<le> length (ee_datagrams (encs ! i)))"
proof (induction eps arbitrary: s geos)
  case (Cons ep eps)
  obtain geo gs where gs: "geos = geo # gs" "audio_sendable (ae_config (as_encoder s)) ep geo"
      "list_all2 (audio_sendable (ae_config (as_encoder s))) eps gs"
    using Cons.prems by (cases geos) auto
  obtain s1 enc where one: "sender_encode_epoch crc rq s ep = (s1, Inr enc)"
    and len: "length (epoch_shards ep geo) \<le> length (ee_datagrams enc)"
    using sender_encode_lawful [OF lawful gs(2), of crc] by blast
  have "list_all2 (audio_sendable (ae_config (as_encoder s1))) eps gs" using gs(3) encode_sender_config [OF one] by simp
  then obtain s2 es where es: "sender_encode_epochs crc rq s1 eps = (s2, Inr es)" "length es = length eps"
      "\<forall>i < length eps. length (epoch_shards (eps ! i) (gs ! i)) \<le> length (ee_datagrams (es ! i))"
    using Cons.IH by blast
  then have "\<forall>i < length (ep # eps). length (epoch_shards ((ep # eps) ! i) (geos ! i)) \<le> length (ee_datagrams ((enc # es) ! i))"
    using len by (auto simp: gs(1) nth_Cons split: nat.split)
  then show ?case using one es(1,2) by (intro exI [of _ s2] exI [of _ "enc # es"]) simp
qed simp

lemma idle_after_epoch:
  assumes lawful: "rq_lawful rq" "systematic rq" and send: "audio_sendable (ae_config e) ep geo"
    and enc: "encode_epoch crc rq e ep = (e', Inr enc)" and got: "picks enc got"
    and ord: "\<forall>xs. mset (ord xs) = mset xs"
    and idle: "session_idle (unat (audio_block_id e)) played r" "\<forall>t. played = Some t \<longrightarrow> t < ep_pts_samples ep"
    and push: "receiver_push_all crc rq r (picked enc got) = (r1, qs)"
    and take: "receiver_take_for_playout ord (ep_pts_samples ep) r1 = (r2, p)"
  shows "epoch_played rq ep geo got (qs, p)" "session_idle (Suc (unat (audio_block_id e))) (Some (ep_pts_samples ep)) r2"
proof -
  note ready = idle_receiving [OF idle sendable_epoch_fine [OF send]]
  note received = epoch_into_receiver [OF lawful send enc got [unfolded picks_def] ready push [unfolded picked_def]]
  obtain S where S: "receiving ep geo (audio_block_id e) S (epochs_out qs) r1" using received(2) by blast
  note taken = take_after_epoch [OF S ord take]
  show "epoch_played rq ep geo got (qs, p)" using received(1) taken(1) by (simp add: epoch_played_def)
  have "older (Suc (unat (audio_block_id e))) (rc_decoder r2)"
    unfolding taken(4) using idle(1) older_next [OF _ received(3,4) refl] by (simp add: session_idle_def)
  moreover have "\<forall>c \<in> rc_ignored r1. c < audio_block_id e" using S by (simp add: receiving_def ready_for_def)
  then have "\<forall>c \<in> rc_ignored r2. unat c < Suc (unat (audio_block_id e))"
    using taken(3) by (fastforce simp: word_less_nat_alt less_Suc_eq)
  ultimately show "session_idle (Suc (unat (audio_block_id e))) (Some (ep_pts_samples ep)) r2"
    using taken(2) by (simp add: session_idle_def)
qed

lemma stream_is_played:
  assumes lawful: "rq_lawful rq" "systematic rq" and ord: "\<forall>xs. mset (ord xs) = mset xs"
  shows "list_all2 (audio_sendable (ae_config (as_encoder s))) eps geos \<Longrightarrow>
    sender_encode_epochs crc rq s eps = (s', Inr encs) \<Longrightarrow>
    session_idle (unat (sender_block_id s)) played r \<Longrightarrow> unat (sender_block_id s) + length eps \<le> 2 ^ 32 \<Longrightarrow>
    sorted_wrt (<) (map ep_pts_samples eps) \<Longrightarrow> \<forall>t. played = Some t \<longrightarrow> (\<forall>ep \<in> set eps. t < ep_pts_samples ep) \<Longrightarrow>
    list_all2 picks encs gots \<Longrightarrow>
    session_run crc rq ord r (zip (map2 picked encs gots) (map ep_pts_samples eps)) = (r', outs) \<Longrightarrow>
    length outs = length eps \<and> (\<forall>i < length eps. epoch_played rq (eps ! i) (geos ! i) (gots ! i) (outs ! i))"
proof (induction eps arbitrary: s geos encs gots r outs played)
  case (Cons ep eps)
  obtain geo gs where gs: "geos = geo # gs" "audio_sendable (ae_config (as_encoder s)) ep geo"
      "list_all2 (audio_sendable (ae_config (as_encoder s))) eps gs"
    using Cons.prems(1) by (cases geos) auto
  obtain s1 enc where one: "sender_encode_epoch crc rq s ep = (s1, Inr enc)"
    and id: "sender_block_id s1 = sender_block_id s + 1" and enc: "encode_epoch crc rq (as_encoder s) ep = (as_encoder s1, Inr enc)"
    using sender_encode_lawful [OF lawful(1) gs(2), of crc] by blast
  obtain es where es: "sender_encode_epochs crc rq s1 eps = (s', Inr es)" "encs = enc # es"
    using Cons.prems(2) one by (auto simp: rbind_eq_Inr split: prod.splits)
  obtain got gts where gts: "gots = got # gts" "picks enc got" "list_all2 picks es gts"
    using Cons.prems(7) es(2) by (cases gots) auto
  obtain r1 qs where push: "receiver_push_all crc rq r (picked enc got) = (r1, qs)" by fastforce
  obtain r2 p where take: "receiver_take_for_playout ord (ep_pts_samples ep) r1 = (r2, p)" by fastforce
  obtain os where os: "session_run crc rq ord r2 (zip (map2 picked es gts) (map ep_pts_samples eps)) = (r', os)"
      "outs = (qs, p) # os"
    using Cons.prems(8) push take by (auto simp: es(2) gts(1) split: prod.splits)
  have later: "\<forall>t. played = Some t \<longrightarrow> t < ep_pts_samples ep" using Cons.prems(6) by simp
  note step = idle_after_epoch [OF lawful gs(2) enc gts(2) ord Cons.prems(3) [unfolded sender_block_id_def] later push take]
  show ?case
  proof (cases eps)
    case Nil
    then show ?thesis using step(1) os by (simp add: gs(1) gts(1))
  next
    case more: (Cons ep2 eps2)
    then have next_id: "unat (sender_block_id s1) = Suc (unat (sender_block_id s))"
      using Cons.prems(4) unat_next [of "sender_block_id s"] by (simp add: id)
    have cfg: "list_all2 (audio_sendable (ae_config (as_encoder s1))) eps gs" using gs(3) encode_sender_config [OF one] by simp
    have idle: "session_idle (unat (sender_block_id s1)) (Some (ep_pts_samples ep)) r2"
      unfolding next_id using step(2) by (simp add: sender_block_id_def)
    have room: "unat (sender_block_id s1) + length eps \<le> 2 ^ 32" using Cons.prems(4) by (simp add: next_id)
    have order: "sorted_wrt (<) (map ep_pts_samples eps)"
      "\<forall>t. Some (ep_pts_samples ep) = Some t \<longrightarrow> (\<forall>ep \<in> set eps. t < ep_pts_samples ep)"
      using Cons.prems(5) by simp_all
    from Cons.IH [OF cfg es(1) idle room order gts(3) os(1)] step(1) show ?thesis
      by (auto simp: os(2) gs(1) gts(1) nth_Cons split: nat.splits)
  qed
qed simp

text \<open>
  C2. A session plays exactly what was sent. A sender encodes any number of valid epochs with increasing
  playout times. Of each epoch any of the datagrams reach a new receiver, in any order, with losses and
  repetitions, and the epoch is played at its time. No push fails. Of every epoch, whatever happened to
  earlier ones: every group that is reported is reported once, with its payload and metadata exactly as
  encoded; a group all of whose source datagrams arrived is reported, even if the epoch is not complete;
  when the codec can recover the block, in particular when all source datagrams arrived, all groups are
  reported, the exact epoch is completed once, and playout returns it; otherwise playout returns it or
  says that it is missing, and never anything else.
\<close>
theorem session_plays_stream:
  assumes "rq_lawful rq" "systematic rq" "\<forall>xs. mset (ord xs) = mset xs"
    and "list_all2 (audio_sendable (ae_config (as_encoder s))) eps geos"
    and "sorted_wrt (<) (map ep_pts_samples eps)" "unat (sender_block_id s) + length eps \<le> 2 ^ 32"
  shows "\<exists>s' encs. sender_encode_epochs crc rq s eps = (s', Inr encs) \<and> length encs = length eps \<and>
    (\<forall>i < length eps. length (epoch_shards (eps ! i) (geos ! i)) \<le> length (ee_datagrams (encs ! i))) \<and>
    (\<forall>gots r' outs. list_all2 picks encs gots \<longrightarrow>
       session_run crc rq ord (audio_receiver_new c) (zip (map2 picked encs gots) (map ep_pts_samples eps)) = (r', outs) \<longrightarrow>
       length outs = length eps \<and>
       (\<forall>i < length eps.
          let ep = eps ! i; geo = geos ! i; got = gots ! i; qs = fst (outs ! i); read = snd (outs ! i);
              recovered = codec_run rq (block_decoder rq (length (epoch_object ep geo)) (ag_symbol_size geo))
                (map (block_packet rq (epoch_object ep geo) (ag_symbol_size geo)) got) \<noteq> None
          in all_ok qs \<and>
             (\<exists>ids. distinct ids \<and> list_all2 (exact_group ep) ids (groups_out qs) \<and>
                (\<forall>gi < length (ep_groups ep).
                   recovered \<or> (\<forall>j < fragment_total ep geo gi. fragment_position ep geo (gi, j) \<in> set got) \<longrightarrow> gi \<in> set ids)) \<and>
             ({..<length (epoch_shards ep geo)} \<subseteq> set got \<longrightarrow> recovered) \<and>
             (epochs_out qs = [] \<and> read = Missing (ep_pts_samples ep) \<and> \<not> recovered \<or>
              (\<exists>e. exact_epoch ep e \<and> epochs_out qs = [e] \<and> read = Exact e))))"
proof -
  obtain s' encs where encs: "sender_encode_epochs crc rq s eps = (s', Inr encs)" "length encs = length eps"
      "\<forall>i < length eps. length (epoch_shards (eps ! i) (geos ! i)) \<le> length (ee_datagrams (encs ! i))"
    using sender_encode_epochs_lawful [OF assms(1,4), of crc] by blast
  have none: "\<forall>t. None = Some t \<longrightarrow> (\<forall>ep \<in> set eps. t < ep_pts_samples ep)" by simp
  note played = stream_is_played [OF assms(1-4) encs(1) new_session_idle assms(6,5) none]
  show ?thesis
    using encs played unfolding epoch_played_iff Let_def by blast
qed

definition example_next_epoch :: audio_epoch where
  "example_next_epoch = example_epoch\<lparr>ep_epoch_id := 6, ep_pts_samples := 5040\<rparr>"

lemma example_next_sendable: "audio_sendable c example_epoch geo \<Longrightarrow> audio_sendable c example_next_epoch geo"
  by (simp add: audio_sendable_def valid_epoch_def example_next_epoch_def)

theorem session_plays_stream_witness:
  "\<exists>s' encs outs e. sender_encode_epochs crc_reference rep_codec (audio_sender_new example_session)
       [example_epoch, example_next_epoch] = (s', Inr encs) \<and>
     outs = snd (session_run crc_reference rep_codec rev (audio_receiver_new example_session)
       (zip (map2 picked encs [[], rev [0..<length (ee_datagrams (encs ! 1))]]) [4800, 5040])) \<and>
     snd (outs ! 0) = Missing 4800 \<and> snd (outs ! 1) = Exact e \<and> exact_epoch example_next_epoch e"
proof -
  let ?s = "audio_sender_new example_session" and ?eps = "[example_epoch, example_next_epoch]"
  have cfg: "ae_config (as_encoder ?s) = example_audio_config"
    by (simp add: audio_sender_new_def audio_encoder_new_def session_config_normalized_def example_session_def)
  obtain geo where geo: "audio_sendable (ae_config (as_encoder ?s)) example_epoch geo" "unat (ag_source_symbols geo) = 2"
    using example_audio_sendable unfolding cfg by blast
  have send: "list_all2 (audio_sendable (ae_config (as_encoder ?s))) ?eps [geo, geo]"
    using geo(1) example_next_sendable by simp
  have ord: "\<forall>xs :: u32 list. mset (rev xs) = mset xs" by simp
  have pts: "map ep_pts_samples ?eps = [4800, 5040]" by (simp add: example_epoch_def example_next_epoch_def)
  have up: "sorted_wrt (<) (map ep_pts_samples ?eps)" unfolding pts by simp
  have id: "unat (sender_block_id ?s) + length ?eps \<le> 2 ^ 32"
    by (simp add: sender_block_id_def audio_sender_new_def audio_block_id_def audio_encoder_new_def encoder_new_def)
  let ?all = "\<lambda>encs. [[], rev [0..<length (ee_datagrams (encs ! 1))]]"
  obtain s' encs where encs: "sender_encode_epochs crc_reference rep_codec ?s ?eps = (s', Inr encs)" "length encs = 2"
      "\<forall>i < length ?eps. length (epoch_shards (?eps ! i) ([geo, geo] ! i)) \<le> length (ee_datagrams (encs ! i))"
    and all: "\<And>gots r' outs. list_all2 picks encs gots \<Longrightarrow>
       session_run crc_reference rep_codec rev (audio_receiver_new example_session)
         (zip (map2 picked encs gots) (map ep_pts_samples ?eps)) = (r', outs) \<Longrightarrow>
       \<forall>i < length ?eps. epoch_played rep_codec (?eps ! i) ([geo, geo] ! i) (gots ! i) (outs ! i)"
    using session_plays_stream [OF rep_codec_lawful rep_codec_systematic ord send up id, of crc_reference example_session]
    unfolding epoch_played_iff Let_def by auto
  obtain enc1 enc2 where two: "encs = [enc1, enc2]" using encs(2) by (auto simp: length_Suc_conv numeral_2_eq_2)
  let ?got = "rev [0..<length (ee_datagrams enc2)]"
  have "list_all2 picks encs [[], ?got]" by (auto simp: two picks_def)
  note played = all [OF this surjective_pairing, unfolded pts]
  let ?outs = "snd (session_run crc_reference rep_codec rev (audio_receiver_new example_session)
    (zip (map2 picked encs [[], ?got]) [4800, 5040]))"
  have "epoch_played rep_codec example_epoch geo [] (?outs ! 0)" "epoch_played rep_codec example_next_epoch geo ?got (?outs ! 1)"
    using played [rule_format, of 0] played [rule_format, of 1] by simp_all
  moreover have "fst (?outs ! 0) = []" by (simp add: two picked_def split: prod.split)
  moreover have "{..<length (epoch_shards example_next_epoch geo)} \<subseteq> set ?got"
    using encs(3) [rule_format, of 1] by (auto simp: two)
  ultimately have "snd (?outs ! 0) = Missing 4800" "\<exists>e. snd (?outs ! 1) = Exact e \<and> exact_epoch example_next_epoch e"
    unfolding epoch_played_iff Let_def by (auto simp: epochs_out_def example_epoch_def)
  then show ?thesis using encs(1) by (auto simp: two)
qed

end
