(* ===== verification/Session_Interleaving.thy ===== *)
theory Session_Interleaving
  imports Audio_Interleaving Session_Stream
begin

text \<open>
  A receiver whose epochs overlap on the way: their datagrams arrive interleaved in any order. With room
  for all of them every epoch is received as if it were alone, and playout in order of time then plays each
  or reports it missing. What one shard does to the receiver is a function of what the receiver has of the
  shard's block, which makes the receiver, too, an instance of \<open>separation\<close>.
\<close>

section \<open>What a shard does to its block\<close>

text \<open>The assembly of the block, and the buffered epoch of its playout time.\<close>

type_synonym assembly_view = "epoch_assembly option \<times> decoded_epoch option"

definition shard_effect ::
    "decoded_shard \<Rightarrow> receive_outcome \<Rightarrow> assembly_view \<Rightarrow> assembly_view \<times> (session_error, receive_outcome) result" where
  "shard_effect shard out v =
     (let a = (case fst v of Some a \<Rightarrow> a | None \<Rightarrow> epoch_assembly_new (dsh_block_id shard) (dsh_header shard))
      in case epoch_push a shard of
           (a1, Inl err) \<Rightarrow> ((Some a1, snd v), Inl err)
         | (a1, Inr finished) \<Rightarrow>
             (let out1 = (case finished of None \<Rightarrow> out
                          | Some g \<Rightarrow> out\<lparr>ro_completed_groups := ro_completed_groups out @ [g]\<rparr>)
              in if epoch_is_complete a1 then
                   (case epoch_finish a1 of
                      Inl err \<Rightarrow> ((None, snd v), Inl err)
                    | Inr e \<Rightarrow> ((None, if snd v = None then Some e else snd v), Inr (out1\<lparr>ro_completed_epoch := Some e\<rparr>)))
                 else ((Some a1, snd v), Inr out1)))"

fun shards_effect ::
    "decoded_shard list \<Rightarrow> receive_outcome \<Rightarrow> assembly_view \<Rightarrow> assembly_view \<times> (session_error, receive_outcome) result" where
  "shards_effect [] out v = (v, Inr out)"
| "shards_effect (shard # shards) out v =
     (case shard_effect shard out v of
        (v1, Inl err) \<Rightarrow> (v1, Inl err)
      | (v1, Inr out1) \<Rightarrow> shards_effect shards out1 v1)"

section \<open>Room for all epochs\<close>

text \<open>\<open>T\<close> gives the playout time of each block of \<open>B\<close>.\<close>

definition session_roomy :: "u32 set \<Rightarrow> (u32 \<Rightarrow> u64) \<Rightarrow> 'd audio_receiver \<Rightarrow> bool" where
  "session_roomy B T r \<longleftrightarrow> finite B \<and> inj_on T B \<and> rc_ignored r = {} \<and> pb_last_played (rc_playout r) = None \<and>
     distinct (map fst (rc_inflight r)) \<and> fst ` set (rc_inflight r) \<subseteq> B \<and> card B \<le> rc_max_inflight r \<and>
     (\<forall>b a. map_of (rc_inflight r) b = Some a \<longrightarrow> ea_pts_samples a = T b) \<and>
     playout_inv (rc_playout r) \<and> dom (playout_map (rc_playout r)) \<subseteq> T ` B \<and> card B \<le> pb_max_buffered (rc_playout r)"

definition session_view :: "(u32 \<Rightarrow> u64) \<Rightarrow> u32 \<Rightarrow> 'd audio_receiver \<Rightarrow> assembly_view" where
  "session_view T b r = (map_of (rc_inflight r) b, playout_map (rc_playout r) (T b))"

lemma session_view_decoder: "session_view T b (r\<lparr>rc_decoder := d\<rparr>) = session_view T b r"
  by (simp add: session_view_def)

definition shard_of_block :: "(u32 \<Rightarrow> u64) \<Rightarrow> u32 \<Rightarrow> decoded_shard \<Rightarrow> bool" where
  "shard_of_block T b shard \<longleftrightarrow> dsh_block_id shard = b \<and> sh_pts_samples (dsh_header shard) = T b"

lemma slot_is_free:
  assumes "session_roomy B T r" "b \<in> B"
  shows "ensure_inflight_slot b r = r"
proof (cases "map_of (rc_inflight r) b = None")
  case True
  then have "fst ` set (rc_inflight r) \<subset> B"
    using assms by (auto simp: session_roomy_def map_of_eq_None_iff)
  then have "card (fst ` set (rc_inflight r)) < card B"
    using assms(1) by (intro psubset_card_mono) (simp_all add: session_roomy_def)
  moreover have "card (fst ` set (rc_inflight r)) = length (rc_inflight r)"
    using assms(1) distinct_card [of "map fst (rc_inflight r)"] by (simp add: session_roomy_def)
  ultimately have "\<not> rc_max_inflight r \<le> length (rc_inflight r)" using assms(1) by (simp add: session_roomy_def)
  then show ?thesis by (cases "rc_inflight_order r") (simp_all add: ensure_inflight_slot_def True)
qed (simp add: ensure_inflight_slot_def)

lemma pushed_pts: "epoch_push a shard = (a1, p) \<Longrightarrow> ea_pts_samples a1 = ea_pts_samples a"
  by (auto simp: epoch_push_def Let_def split: sum.splits if_splits prod.splits option.splits)

lemma finished_pts: "epoch_finish a = Inr e \<Longrightarrow> de_pts_samples e = ea_pts_samples a"
  by (auto simp: epoch_finish_def split: if_splits)

lemma insert_with_room:
  assumes "playout_inv pb" "pb_last_played pb = None" "dom (playout_map pb) \<subseteq> X" "finite X" "card X \<le> pb_max_buffered pb"
    and "de_pts_samples e \<in> X"
  shows "playout_inv (fst (playout_insert e pb)) \<and> pb_last_played (fst (playout_insert e pb)) = None \<and>
    pb_max_buffered (fst (playout_insert e pb)) = pb_max_buffered pb \<and>
    playout_map (fst (playout_insert e pb)) =
      (if playout_map pb (de_pts_samples e) = None then (playout_map pb)(de_pts_samples e \<mapsto> e) else playout_map pb)"
proof -
  let ?m = "playout_map pb" and ?p = "de_pts_samples e"
  have "card (dom (?m(?p \<mapsto> e))) \<le> card X" using assms(3,4,6) by (intro card_mono) auto
  then have "spec_step (pb_max_buffered pb) (InsertOp e) (?m, None) =
      ((if ?m ?p = None then ?m(?p \<mapsto> e) else ?m, None), Outcome (if ?m ?p = None then Inserted else DuplicateOrLate))"
    using assms(5) by (auto simp: Let_def domIff)
  then show ?thesis
    using insert_refines [OF assms(1), of e] assms(2)
    by (auto simp: refines_step_def abs_playout_def split: prod.splits)
qed

text \<open>Replacing what is kept of one block.\<close>

lemma roomy_update:
  assumes "session_roomy B T r" "b \<in> B"
    and "map_of l = (map_of (rc_inflight r))(b := x)" "distinct (map fst l)" "\<forall>a. x = Some a \<longrightarrow> ea_pts_samples a = T b"
    and "rc_inflight r' = l" "rc_ignored r' = rc_ignored r" "rc_max_inflight r' = rc_max_inflight r"
    and "rc_playout r' = rc_playout r \<or> (\<exists>e. rc_playout r' = fst (playout_insert e (rc_playout r)) \<and> de_pts_samples e = T b)"
  shows "session_roomy B T r'" "c \<in> B \<Longrightarrow> c \<noteq> b \<Longrightarrow> session_view T c r' = session_view T c r"
proof -
  have keys: "fst ` set l \<subseteq> B"
    using assms(1-3) by (auto simp: session_roomy_def dom_map_of_conv_image_fst [symmetric] split: if_splits)
  have pb: "playout_inv (rc_playout r') \<and> pb_last_played (rc_playout r') = None \<and>
      pb_max_buffered (rc_playout r') = pb_max_buffered (rc_playout r) \<and>
      (\<exists>y. playout_map (rc_playout r') = (playout_map (rc_playout r))(T b := y))"
    using assms(9)
  proof
    assume "rc_playout r' = rc_playout r"
    then show ?thesis
      using assms(1) by (auto simp: session_roomy_def intro!: exI [of _ "playout_map (rc_playout r) (T b)"])
  next
    assume "\<exists>e. rc_playout r' = fst (playout_insert e (rc_playout r)) \<and> de_pts_samples e = T b"
    then obtain e where e: "rc_playout r' = fst (playout_insert e (rc_playout r))" "de_pts_samples e = T b" by blast
    have "card (T ` B) \<le> pb_max_buffered (rc_playout r)"
      using assms(1) card_image_le [of B T] by (simp add: session_roomy_def)
    then have ins: "playout_inv (rc_playout r') \<and> pb_last_played (rc_playout r') = None \<and>
      pb_max_buffered (rc_playout r') = pb_max_buffered (rc_playout r) \<and> playout_map (rc_playout r') =
      (if playout_map (rc_playout r) (T b) = None then (playout_map (rc_playout r))(T b \<mapsto> e) else playout_map (rc_playout r))"
      using insert_with_room [of "rc_playout r" "T ` B" e] assms(1,2) e by (simp add: session_roomy_def)
    then show ?thesis by (auto simp: fun_upd_idem intro: exI [of _ "playout_map (rc_playout r) (T b)"])
  qed
  then obtain y where y: "playout_map (rc_playout r') = (playout_map (rc_playout r))(T b := y)" by blast
  have "ea_pts_samples a = T d" if "map_of l d = Some a" for d a
    using that assms(1,5) unfolding assms(3) by (auto simp: session_roomy_def split: if_splits)
  moreover have "dom (playout_map (rc_playout r')) \<subseteq> T ` B"
    using assms(1,2) unfolding y by (auto simp: session_roomy_def split: if_splits)
  ultimately show "session_roomy B T r'" using assms(1,4,6-8) keys pb by (simp add: session_roomy_def)
  show "session_view T c r' = session_view T c r" if "c \<in> B" "c \<noteq> b"
  proof -
    have "T c \<noteq> T b" using assms(1,2) that by (auto simp: session_roomy_def inj_on_def)
    then show ?thesis using that by (simp add: session_view_def assms(3,6) y)
  qed
qed

lemma receive_shard_view:
  assumes r: "session_roomy B T r" and b: "b \<in> B" and s: "shard_of_block T b shard"
    and push: "receive_shard shard out r = (r', q)"
  shows "session_roomy B T r' \<and> (\<forall>c \<in> B. c \<noteq> b \<longrightarrow> session_view T c r' = session_view T c r) \<and>
    (session_view T b r', q) = shard_effect shard out (session_view T b r)"
proof -
  have blk: "dsh_block_id shard = b" "sh_pts_samples (dsh_header shard) = T b" using s by (simp_all add: shard_of_block_def)
  let ?r1 = "r\<lparr>rc_stats := count_shard shard (rc_stats r)\<rparr>"
  have r1: "session_roomy B T ?r1" using r by (simp add: session_roomy_def)
  let ?a = "case map_of (rc_inflight r) b of Some a \<Rightarrow> a | None \<Rightarrow> epoch_assembly_new b (dsh_header shard)"
  obtain r2 where op: "open_assembly b (dsh_header shard) ?r1 = (r2, ?a)" and
    st: "rc_ignored r2 = rc_ignored r" "rc_max_inflight r2 = rc_max_inflight r" "rc_playout r2 = rc_playout r"
      "\<And>a. map_of (AList.update b a (rc_inflight r2)) = (map_of (rc_inflight r))(b \<mapsto> a)"
      "distinct (map fst (rc_inflight r2))"
    using r by (cases "map_of (rc_inflight r) b")
      (auto simp: open_assembly_def Let_def session_roomy_def update_conv' AList.distinct_update)
  obtain a1 p where ep: "epoch_push ?a shard = (a1, p)" by fastforce
  have "ea_pts_samples ?a = T b"
    using r blk(2) by (auto simp: session_roomy_def epoch_assembly_new_def split: option.split)
  then have pts: "ea_pts_samples a1 = T b" using pushed_pts [OF ep] by simp
  let ?l = "AList.update b a1 (rc_inflight r2)"
  have l: "map_of ?l = (map_of (rc_inflight r))(b := Some a1)" "distinct (map fst ?l)"
    using st(4,5) by (simp_all add: AList.distinct_update)
  have d: "map_of (AList.delete b ?l) = (map_of (rc_inflight r))(b := None)" "distinct (map fst (AList.delete b ?l))"
    using l by (auto simp: delete_conv' AList.distinct_delete)
  have not_dropped: "b \<notin> rc_ignored ?r1" "\<not> receiver_is_late (sh_pts_samples (dsh_header shard)) ?r1"
    using r by (simp_all add: session_roomy_def receiver_is_late_def late_for_def)
  note step = receive_shard_def Let_def blk(1) slot_is_free [OF r1 b] op ep prod.case
  note eff = shard_effect_def session_view_def Let_def blk(1) fst_conv snd_conv ep prod.case
  note keep = roomy_update [OF r b l]
  note gone = roomy_update [OF r b d]
  show ?thesis
  proof (cases p)
    case (Inl err)
    then have res: "r' = r2\<lparr>rc_inflight := ?l\<rparr>" "q = Inl err"
      using push not_dropped unfolding step by auto
    have "shard_effect shard out (session_view T b r) = ((Some a1, playout_map (rc_playout r) (T b)), Inl err)"
      unfolding eff Inl by simp
    then show ?thesis
      using keep [of r'] pts st(1-3) l(1) by (simp add: res session_view_def)
  next
    case (Inr finished)
    define r4 where "r4 = (case finished of None \<Rightarrow> r2\<lparr>rc_inflight := ?l\<rparr>
      | Some g \<Rightarrow> (r2\<lparr>rc_inflight := ?l\<rparr>)\<lparr>rc_stats := bump_groups_completed 1 (rc_stats r2)\<rparr>)"
    define out1 where "out1 = (case finished of None \<Rightarrow> out
      | Some g \<Rightarrow> out\<lparr>ro_completed_groups := ro_completed_groups out @ [g]\<rparr>)"
    have r4: "rc_inflight r4 = ?l" "rc_ignored r4 = rc_ignored r" "rc_max_inflight r4 = rc_max_inflight r"
        "rc_playout r4 = rc_playout r"
      using st(1-3) by (auto simp: r4_def split: option.split)
    have res: "(r', q) = (if epoch_is_complete a1 then complete_epoch b a1 out1 r4 else (r4, Inr out1))"
      using push not_dropped unfolding step Inr r4_def out1_def by (cases finished) auto
    have eff1: "shard_effect shard out (session_view T b r) =
        (if epoch_is_complete a1 then
           (case epoch_finish a1 of
              Inl err \<Rightarrow> ((None, playout_map (rc_playout r) (T b)), Inl err)
            | Inr e \<Rightarrow> ((None, if playout_map (rc_playout r) (T b) = None then Some e else playout_map (rc_playout r) (T b)),
                Inr (out1\<lparr>ro_completed_epoch := Some e\<rparr>)))
         else ((Some a1, playout_map (rc_playout r) (T b)), Inr out1))"
      unfolding eff Inr out1_def by simp
    show ?thesis
    proof (cases "epoch_is_complete a1")
      case False
      then have "r' = r4" "q = Inr out1" using res by simp_all
      then show ?thesis using keep [of r4] pts r4 l(1) False unfolding eff1 by (simp add: session_view_def)
    next
      case True
      let ?r5 = "r4\<lparr>rc_inflight := AList.delete b ?l, rc_inflight_order := filter (\<lambda>c. c \<noteq> b) (rc_inflight_order r4)\<rparr>"
      show ?thesis
      proof (cases "epoch_finish a1")
        case (Inl err)
        then have "r' = ?r5" "q = Inl err" using res True by (simp_all add: complete_epoch_def Let_def r4(1))
        then show ?thesis using gone [of ?r5] r4 d(1) True Inl unfolding eff1 by (simp add: session_view_def)
      next
        case (Inr e)
        have e: "de_pts_samples e = T b" using finished_pts [OF Inr] pts by simp
        have room: "card (T ` B) \<le> pb_max_buffered (rc_playout r)"
          using r card_image_le [of B T] by (simp add: session_roomy_def)
        have ins: "playout_map (fst (playout_insert e (rc_playout r))) (T b) =
            (if playout_map (rc_playout r) (T b) = None then Some e else playout_map (rc_playout r) (T b))"
          using insert_with_room [of "rc_playout r" "T ` B" e] r b e room by (simp add: session_roomy_def)
        have "rc_inflight r' = AList.delete b ?l" "rc_ignored r' = rc_ignored r" "rc_max_inflight r' = rc_max_inflight r"
            "rc_playout r' = fst (playout_insert e (rc_playout r))" "q = Inr (out1\<lparr>ro_completed_epoch := Some e\<rparr>)"
          using res True Inr r4 by (auto simp: complete_epoch_def Let_def split: prod.splits)
        then show ?thesis using gone [of r'] e d(1) True Inr ins unfolding eff1 by (auto simp: session_view_def)
      qed
    qed
  qed
qed

lemma receive_shards_view:
  assumes "session_roomy B T r" "b \<in> B" "\<forall>shard \<in> set shards. shard_of_block T b shard"
    and "receive_shards shards out r = (r', q)"
  shows "session_roomy B T r' \<and> (\<forall>c \<in> B. c \<noteq> b \<longrightarrow> session_view T c r' = session_view T c r) \<and>
    (session_view T b r', q) = shards_effect shards out (session_view T b r)"
  using assms(1,3,4)
proof (induction shards arbitrary: out r)
  case (Cons shard shards)
  obtain r1 p where one: "receive_shard shard out r = (r1, p)" by fastforce
  have "shard_of_block T b shard" using Cons.prems(2) by simp
  note st = receive_shard_view [OF Cons.prems(1) assms(2) this one]
  show ?case
  proof (cases p)
    case (Inl err)
    then have "r' = r1" "q = Inl err" using Cons.prems(3) one by simp_all
    then show ?thesis using st by (simp add: Inl flip: conjunct2 [OF conjunct2 [OF st]])
  next
    case (Inr out1)
    have roomy: "session_roomy B T r1" and rest: "\<forall>shard \<in> set shards. shard_of_block T b shard"
      and more: "receive_shards shards out1 r1 = (r', q)"
      using st Cons.prems(2,3) one Inr by simp_all
    have "shards_effect (shard # shards) out (session_view T b r) = shards_effect shards out1 (session_view T b r1)"
      using st by (simp add: Inr flip: conjunct2 [OF conjunct2 [OF st]])
    then show ?thesis using Cons.IH [OF roomy rest more] st by simp
  qed
qed simp

section \<open>Interleaved shards\<close>

definition receive_batch ::
    "u32 \<times> decoded_shard list \<Rightarrow> 'd audio_receiver \<Rightarrow> 'd audio_receiver \<times> (session_error, receive_outcome) result" where
  "receive_batch i r =
     receive_shards (snd i) receive_outcome_default (r\<lparr>rc_stats := bump_datagrams_received 1 (rc_stats r)\<rparr>)"

definition batch_fine :: "u32 set \<Rightarrow> (u32 \<Rightarrow> u64) \<Rightarrow> u32 \<times> decoded_shard list \<Rightarrow> bool" where
  "batch_fine B T i \<longleftrightarrow> fst i \<in> B \<and> (\<forall>shard \<in> set (snd i). shard_of_block T (fst i) shard)"

lemma receive_batch_view:
  assumes "session_roomy B T r" "batch_fine B T i"
  shows "session_roomy B T (fst (receive_batch i r))"
    "c \<in> B \<Longrightarrow> c \<noteq> fst i \<Longrightarrow> session_view T c (fst (receive_batch i r)) = session_view T c r"
    "(session_view T (fst i) (fst (receive_batch i r)), snd (receive_batch i r)) =
       shards_effect (snd i) receive_outcome_default (session_view T (fst i) r)"
proof -
  let ?r = "r\<lparr>rc_stats := bump_datagrams_received 1 (rc_stats r)\<rparr>"
  have "session_roomy B T ?r" "\<And>c. session_view T c ?r = session_view T c r"
    using assms(1) by (simp_all add: session_roomy_def session_view_def)
  then show "session_roomy B T (fst (receive_batch i r))"
    "c \<in> B \<Longrightarrow> c \<noteq> fst i \<Longrightarrow> session_view T c (fst (receive_batch i r)) = session_view T c r"
    "(session_view T (fst i) (fst (receive_batch i r)), snd (receive_batch i r)) =
       shards_effect (snd i) receive_outcome_default (session_view T (fst i) r)"
    using receive_shards_view [of B T ?r "fst i" "snd i" receive_outcome_default, OF _ _ _ surjective_pairing] assms(2)
    by (simp_all add: receive_batch_def batch_fine_def)
qed

interpretation session: separation receive_batch fst "\<lambda>b r. if b \<in> B then Some (session_view T b r) else None"
  "session_roomy B T" "batch_fine B T" for B T
proof (unfold_locales, goal_cases)
  case (1 r i)
  then show ?case by (rule receive_batch_view(1))
next
  case (2 r i b)
  then show ?case using receive_batch_view(2) [OF 2(1,2), of b] by simp
next
  case (3 r t i)
  then have "session_view T (fst i) r = session_view T (fst i) t" by (simp add: batch_fine_def)
  with receive_batch_view(3) [OF 3(1,3)] receive_batch_view(3) [OF 3(2,3)] show ?case by (metis snd_conv)
next
  case (4 r t i)
  then have "session_view T (fst i) r = session_view T (fst i) t" by (simp add: batch_fine_def)
  with receive_batch_view(3) [OF 4(1,3)] receive_batch_view(3) [OF 4(2,3)] show ?case by (metis fst_conv)
qed

section \<open>Shards come from datagrams\<close>

text \<open>What the receiver does with shards does not depend on its decoder.\<close>

lemma remember_ignored_decoder:
  "remember_ignored b (r\<lparr>rc_decoder := d\<rparr>) = (remember_ignored b r)\<lparr>rc_decoder := d\<rparr>"
  by (simp add: remember_ignored_def split: prod.split)

lemma make_slot_decoder: "make_slot order (r\<lparr>rc_decoder := d\<rparr>) = (make_slot order r)\<lparr>rc_decoder := d\<rparr>"
proof (induction order arbitrary: r)
  case (Cons b order)
  let ?r = "r\<lparr>rc_inflight := AList.delete b (rc_inflight r), rc_stats := bump_incomplete_epochs_dropped 1 (rc_stats r)\<rparr>"
  have eq: "r\<lparr>rc_decoder := d, rc_inflight := AList.delete b (rc_inflight r),
      rc_stats := bump_incomplete_epochs_dropped 1 (rc_stats r)\<rparr> = ?r\<lparr>rc_decoder := d\<rparr>"
    by simp
  have "remember_ignored b (r\<lparr>rc_decoder := d, rc_inflight := AList.delete b (rc_inflight r),
      rc_stats := bump_incomplete_epochs_dropped 1 (rc_stats r)\<rparr>) = (remember_ignored b ?r)\<lparr>rc_decoder := d\<rparr>"
    unfolding eq by (rule remember_ignored_decoder)
  then show ?case using Cons.IH by (simp del: One_nat_def)
qed simp

lemma complete_epoch_decoder:
  "complete_epoch b a out (r\<lparr>rc_decoder := d\<rparr>) = (case complete_epoch b a out r of (r1, q) \<Rightarrow> (r1\<lparr>rc_decoder := d\<rparr>, q))"
  by (simp add: complete_epoch_def Let_def split: sum.split prod.split)

lemma receive_shard_decoder:
  "receive_shard shard out (r\<lparr>rc_decoder := d\<rparr>) = (case receive_shard shard out r of (r1, q) \<Rightarrow> (r1\<lparr>rc_decoder := d\<rparr>, q))"
proof -
  let ?b = "dsh_block_id shard" and ?h = "dsh_header shard"
  let ?r = "r\<lparr>rc_stats := count_shard shard (rc_stats r)\<rparr>"
  have eq: "r\<lparr>rc_decoder := d, rc_stats := count_shard shard (rc_stats (r\<lparr>rc_decoder := d\<rparr>))\<rparr> = ?r\<lparr>rc_decoder := d\<rparr>"
    by simp
  have slot: "ensure_inflight_slot ?b (?r\<lparr>rc_decoder := d\<rparr>) = (ensure_inflight_slot ?b ?r)\<lparr>rc_decoder := d\<rparr>"
    by (simp add: ensure_inflight_slot_def make_slot_decoder)
  obtain r2 a where r2: "open_assembly ?b ?h (ensure_inflight_slot ?b ?r) = (r2, a)" by fastforce
  then have op: "open_assembly ?b ?h ((ensure_inflight_slot ?b ?r)\<lparr>rc_decoder := d\<rparr>) = (r2\<lparr>rc_decoder := d\<rparr>, a)"
    by (auto simp: open_assembly_def Let_def split: option.splits)
  obtain a1 p where ep: "epoch_push a shard = (a1, p)" by fastforce
  let ?r3 = "r2\<lparr>rc_inflight := AList.update ?b a1 (rc_inflight r2)\<rparr>"
  have r3: "r2\<lparr>rc_decoder := d, rc_inflight := AList.update ?b a1 (rc_inflight (r2\<lparr>rc_decoder := d\<rparr>))\<rparr> = ?r3\<lparr>rc_decoder := d\<rparr>"
    "?r3\<lparr>rc_decoder := d, rc_stats := bump_groups_completed 1 (rc_stats (?r3\<lparr>rc_decoder := d\<rparr>))\<rparr> =
       (?r3\<lparr>rc_stats := bump_groups_completed 1 (rc_stats ?r3)\<rparr>)\<lparr>rc_decoder := d\<rparr>" by simp_all
  show ?thesis
  proof (cases "?b \<in> rc_ignored r \<or> receiver_is_late (sh_pts_samples ?h) r")
    case True
    then show ?thesis by (simp add: receive_shard_def Let_def receiver_is_late_def)
  next
    case False
    then have live: "\<not> (?b \<in> rc_ignored ?r \<or> receiver_is_late (sh_pts_samples ?h) ?r)"
      "\<not> (?b \<in> rc_ignored (?r\<lparr>rc_decoder := d\<rparr>) \<or> receiver_is_late (sh_pts_samples ?h) (?r\<lparr>rc_decoder := d\<rparr>))"
      by (simp_all add: receiver_is_late_def)
    show ?thesis
    proof (cases p)
      case (Inr finished)
      show ?thesis
        unfolding receive_shard_def Let_def eq if_not_P [OF live(1)] if_not_P [OF live(2)] slot op r2 prod.case ep Inr sum.case r3
        by (cases finished) (simp_all only: option.case r3 complete_epoch_decoder if_distrib prod.case, simp_all)
    next
      case (Inl err)
      show ?thesis
        unfolding receive_shard_def Let_def eq if_not_P [OF live(1)] if_not_P [OF live(2)] slot op r2 prod.case ep Inl sum.case r3
        by simp
    qed
  qed
qed

lemma receive_shards_decoder:
  "receive_shards shards out (r\<lparr>rc_decoder := d\<rparr>) = (case receive_shards shards out r of (r1, q) \<Rightarrow> (r1\<lparr>rc_decoder := d\<rparr>, q))"
proof (induction shards arbitrary: out r)
  case (Cons shard shards)
  obtain r1 q where "receive_shard shard out r = (r1, q)" by fastforce
  then show ?case using Cons.IH by (cases q) (simp_all add: receive_shard_decoder)
qed simp

lemma receive_batch_decoder:
  "receive_batch i (r\<lparr>rc_decoder := d\<rparr>) = (case receive_batch i r of (r1, q) \<Rightarrow> (r1\<lparr>rc_decoder := d\<rparr>, q))"
proof -
  have "r\<lparr>rc_decoder := d, rc_stats := bump_datagrams_received 1 (rc_stats (r\<lparr>rc_decoder := d\<rparr>))\<rparr> =
      (r\<lparr>rc_stats := bump_datagrams_received 1 (rc_stats r)\<rparr>)\<lparr>rc_decoder := d\<rparr>" by simp
  then show ?thesis unfolding receive_batch_def by (simp only: receive_shards_decoder)
qed

lemma run_batches_decoder:
  "run_steps receive_batch is (r\<lparr>rc_decoder := d\<rparr>) =
     (case run_steps receive_batch is r of (r1, qs) \<Rightarrow> (r1\<lparr>rc_decoder := d\<rparr>, qs))"
  by (induction "is" arbitrary: r) (simp_all add: receive_batch_decoder case_prod_beta)

text \<open>The receiver is its decoder followed by the assembly of the shards.\<close>

lemma push_all_batches:
  assumes "audio_push_all crc rq (rc_decoder r) xs = (d, map Inr ls)" "length bs = length xs"
  shows "receiver_push_all crc rq r xs =
    (case run_steps receive_batch (zip bs ls) r of (r1, qs) \<Rightarrow> (r1\<lparr>rc_decoder := d\<rparr>, qs))"
  using assms
proof (induction xs arbitrary: r bs ls)
  case (Cons x xs)
  obtain b bs1 where bs: "bs = b # bs1" "length bs1 = length xs" using Cons.prems(2) by (cases bs) auto
  obtain d1 p where one: "audio_push_datagram crc rq (rc_decoder r) x = (d1, p)" by fastforce
  obtain ps where rest: "audio_push_all crc rq d1 xs = (d, ps)" "map Inr ls = p # ps"
    using Cons.prems(1) one by (auto split: prod.splits)
  then obtain l ls1 where ls: "ls = l # ls1" "p = Inr l" "ps = map Inr ls1" by (cases ls) auto
  obtain r1 q where batch: "receive_batch (b, l) r = (r1, q)" by fastforce
  have "r\<lparr>rc_stats := bump_datagrams_received 1 (rc_stats r), rc_decoder := d1\<rparr> =
      (r\<lparr>rc_stats := bump_datagrams_received 1 (rc_stats r)\<rparr>)\<lparr>rc_decoder := d1\<rparr>" by simp
  then have step: "receiver_push_datagram crc rq r x = (r1\<lparr>rc_decoder := d1\<rparr>, q)"
    using batch unfolding receiver_push_datagram_def one prod.case Let_def ls(2) sum.case
    by (simp only: receive_shards_decoder) (simp add: receive_batch_def)
  have "receiver_push_all crc rq (r1\<lparr>rc_decoder := d1\<rparr>) xs =
      (case run_steps receive_batch (zip bs1 ls1) (r1\<lparr>rc_decoder := d1\<rparr>) of (r1, qs) \<Rightarrow> (r1\<lparr>rc_decoder := d\<rparr>, qs))"
    by (rule Cons.IH [OF _ bs(2)]) (simp add: rest(1) ls(3))
  then show ?case
    by (simp add: step bs(1) ls(1) batch run_batches_decoder case_prod_beta)
qed simp

lemma length_audio_push_all: "length (snd (audio_push_all crc rq d xs)) = length xs"
  by (induction xs arbitrary: d) (simp_all add: case_prod_beta)

lemma all_ok_values: "all_ok rs \<Longrightarrow> \<exists>ls. rs = map Inr ls"
proof (induction rs)
  case (Cons r rs)
  then obtain ls where "rs = map Inr ls" by (auto simp: all_ok_def)
  moreover obtain l where "r = Inr l" using Cons.prems by (cases r) (auto simp: all_ok_def)
  ultimately show ?case by (intro exI [of _ "l # ls"]) simp
qed simp

lemma shards_out_values: "shards_out (map Inr ls) = concat ls"
  by (induction ls) (simp_all add: shards_out_def)

text \<open>
  Every block of an interleaved run is received as by a receiver of its own, when alone each would be received
  without error and its shards bear its id and its time.
\<close>

lemma interleaved_receiver:
  assumes d: "roomy B (rc_decoder r)" and r: "session_roomy B T r" and items: "list_all (block_item B) is"
    and alone: "\<And>b. b \<in> B \<Longrightarrow> all_ok (snd (audio_push_all crc rq (rc_decoder r) (map snd (inputs_for fst b is)))) \<and>
      (\<forall>shard \<in> set (shards_out (snd (audio_push_all crc rq (rc_decoder r) (map snd (inputs_for fst b is))))). shard_of_block T b shard)"
    and push: "receiver_push_all crc rq r (map snd is) = (r', qs)"
  shows "session_roomy B T r'"
    "b \<in> B \<Longrightarrow> receiver_push_all crc rq r (map snd (inputs_for fst b is)) = (rb, qsb) \<Longrightarrow>
       answers_for fst b is qs = qsb \<and> session_view T b r' = session_view T b rb"
proof -
  obtain d' rs where dec: "audio_push_all crc rq (rc_decoder r) (map snd is) = (d', rs)" by fastforce
  have len: "length rs = length is" using length_audio_push_all [of crc rq "rc_decoder r" "map snd is"] dec by simp
  have part: "answers_for fst b is rs = snd (audio_push_all crc rq (rc_decoder r) (map snd (inputs_for fst b is)))" if "b \<in> B" for b
    using interleaved_decoder [OF d items that, of crc rq] dec by simp
  have good: "is_ok (snd x) \<and> (\<forall>l. snd x = Inr l \<longrightarrow> (\<forall>shard \<in> set l. shard_of_block T (fst (fst x)) shard))"
    if x: "x \<in> set (zip is rs)" for x
  proof -
    have "fst x \<in> set is" using x by (auto simp: set_zip)
    then have b: "fst (fst x) \<in> B" using items by (auto simp: list_all_iff block_item_def)
    have mem: "snd x \<in> set (snd (audio_push_all crc rq (rc_decoder r) (map snd (inputs_for fst (fst (fst x)) is))))"
      using answer_of_input [OF len x, of fst] part [OF b] by simp
    obtain ls where ls: "snd (audio_push_all crc rq (rc_decoder r) (map snd (inputs_for fst (fst (fst x)) is))) = map Inr ls"
      using all_ok_values alone [OF b] by blast
    then show ?thesis using mem alone [OF b] by (auto simp: ls shards_out_values is_ok_def)
  qed
  have "\<forall>y \<in> set rs. \<exists>x \<in> set (zip is rs). snd x = y" using len by (metis in_set_impl_in_set_zip2 snd_conv)
  then have "all_ok rs" using good by (auto simp: all_ok_def list_all_iff)
  then obtain ls where ls: "rs = map Inr ls" using all_ok_values by blast
  have lenl: "length ls = length is" using len by (simp add: ls)
  let ?js = "zip (map fst is) ls"
  have fine: "list_all (batch_fine B T) ?js"
    unfolding list_all_iff
  proof
    fix j assume "j \<in> set ?js"
    then obtain k where k: "k < length is" "j = (fst (is ! k), ls ! k)" using lenl by (auto simp: set_zip)
    then have x: "(is ! k, rs ! k) \<in> set (zip is rs)" using len by (auto simp: set_zip)
    have "is ! k \<in> set is" using k(1) by simp
    then have "fst (is ! k) \<in> B" using items by (auto simp: list_all_iff block_item_def)
    then show "batch_fine B T j" using good [OF x] k lenl by (simp add: batch_fine_def ls)
  qed
  obtain r1 qs1 where run: "run_steps receive_batch ?js r = (r1, qs1)" by fastforce
  have split: "r' = r1\<lparr>rc_decoder := d'\<rparr>" "qs = qs1"
    using push_all_batches [of crc rq r "map snd is" d' ls "map fst is"] dec push run by (simp_all add: ls)
  have "session_roomy B T r1" using session.run_ok [OF r fine] run by simp
  then show "session_roomy B T r'" by (simp add: split session_roomy_def)
  show "answers_for fst b is qs = qsb \<and> session_view T b r' = session_view T b rb"
    if b: "b \<in> B" and pushb: "receiver_push_all crc rq r (map snd (inputs_for fst b is)) = (rb, qsb)"
  proof -
    let ?lb = "answers_for fst b is ls"
    obtain db where db: "audio_push_all crc rq (rc_decoder r) (map snd (inputs_for fst b is)) = (db, map Inr ?lb)"
      using part [OF b] by (metis answers_for_map ls prod.collapse)
    obtain r2 qs2 where run2: "run_steps receive_batch (inputs_for fst b ?js) r = (r2, qs2)" by fastforce
    have "receiver_push_all crc rq r (map snd (inputs_for fst b is)) = (r2\<lparr>rc_decoder := db\<rparr>, qs2)"
      using push_all_batches [OF db, of "map fst (inputs_for fst b is)"] run2 inputs_for_zip [OF lenl, of b] by simp
    then have rb: "rb = r2\<lparr>rc_decoder := db\<rparr>" "qsb = qs2" using pushb by simp_all
    have "length qs1 = length is" using length_run_steps [of receive_batch ?js r] run lenl by simp
    then have "answers_for fst b is qs = answers_for fst b ?js qs1"
      using answers_for_zip [OF lenl, of qs1 b] split(2) by simp
    then show ?thesis
      using session.run_alone [OF r r fine refl, of b] run run2 b by (simp add: rb split session_view_decoder)
  qed
qed

section \<open>Playout in order of time\<close>

primrec play_all ::
    "(u32 list \<Rightarrow> u32 list) \<Rightarrow> 'd audio_receiver \<Rightarrow> u64 list \<Rightarrow> 'd audio_receiver \<times> playout_read list" where
  "play_all ord r [] = (r, [])"
| "play_all ord r (t # ts) =
     (case receiver_take_for_playout ord t r of
        (r1, p) \<Rightarrow> (case play_all ord r1 ts of (r2, ps) \<Rightarrow> (r2, p # ps)))"

lemma drop_inflight_playout: "rc_playout (drop_inflight b r) = rc_playout r"
  by (simp add: drop_inflight_def remember_ignored_def split: prod.split)

lemma abandon_playout: "rc_playout (abandon_inflight_through ord pts r) = rc_playout r"
proof -
  have "rc_playout (fold (\<lambda>b r. (drop_inflight b r)\<lparr>rc_stats := bump_incomplete_epochs_dropped 1 (rc_stats (drop_inflight b r))\<rparr>) bs r) =
      rc_playout r" for bs and r :: "'a audio_receiver"
    by (induction bs arbitrary: r) (simp_all add: drop_inflight_playout)
  then show ?thesis by (simp add: abandon_inflight_through_def)
qed

lemma take_playout:
  assumes "playout_inv (rc_playout r)" "receiver_take_for_playout ord t r = (r1, p)"
  shows "p = (case playout_map (rc_playout r) t of Some e \<Rightarrow> Exact e | None \<Rightarrow> Missing t)"
    "playout_inv (rc_playout r1)" "playout_map (rc_playout r1) = playout_map (rc_playout r) |` {t<..}"
proof -
  have "rc_playout r1 = fst (playout_take t (rc_playout r)) \<and> p = snd (playout_take t (rc_playout r))"
    using assms(2) by (auto simp: receiver_take_for_playout_def Let_def abandon_playout split: prod.splits playout_read.splits)
  moreover have "refines_step (TakeOp t) (rc_playout r)" using take_refines [OF assms(1)] .
  ultimately show "p = (case playout_map (rc_playout r) t of Some e \<Rightarrow> Exact e | None \<Rightarrow> Missing t)"
    "playout_inv (rc_playout r1)" "playout_map (rc_playout r1) = playout_map (rc_playout r) |` {t<..}"
    by (auto simp: refines_step_def abs_playout_def split: prod.splits)
qed

lemma play_all_reads:
  assumes "playout_inv (rc_playout r)" "sorted_wrt (<) ts" "play_all ord r ts = (r', ps)"
  shows "ps = map (\<lambda>t. case playout_map (rc_playout r) t of Some e \<Rightarrow> Exact e | None \<Rightarrow> Missing t) ts"
  using assms
proof (induction ts arbitrary: r ps)
  case (Cons t ts)
  obtain r1 p where take: "receiver_take_for_playout ord t r = (r1, p)" by fastforce
  obtain qs where rest: "play_all ord r1 ts = (r', qs)" "ps = p # qs"
    using Cons.prems(3) take by (auto split: prod.splits)
  note st = take_playout [OF Cons.prems(1) take]
  have "qs = map (\<lambda>t. case playout_map (rc_playout r1) t of Some e \<Rightarrow> Exact e | None \<Rightarrow> Missing t) ts"
    using Cons.IH [OF st(2) _ rest(1)] Cons.prems(2) by simp
  also have "\<dots> = map (\<lambda>t. case playout_map (rc_playout r) t of Some e \<Rightarrow> Exact e | None \<Rightarrow> Missing t) ts"
    using Cons.prems(2) by (simp add: st(3))
  finally show ?case by (simp add: rest(2) st(1))
qed simp

section \<open>Epochs on their way together\<close>

lemma sender_encode_epochs_each:
  assumes lawful: "rq_lawful rq"
  shows "list_all2 (audio_sendable (ae_config (as_encoder s))) eps geos \<Longrightarrow>
    sender_encode_epochs crc rq s eps = (s', Inr encs) \<Longrightarrow> i < length eps \<Longrightarrow>
    \<exists>e e'. ae_config e = ae_config (as_encoder s) \<and> audio_block_id e = sender_block_id s + of_nat i \<and>
      encode_epoch crc rq e (eps ! i) = (e', Inr (encs ! i))"
proof (induction eps arbitrary: s geos encs i)
  case (Cons ep eps)
  obtain geo gs where gs: "geos = geo # gs" "audio_sendable (ae_config (as_encoder s)) ep geo"
      "list_all2 (audio_sendable (ae_config (as_encoder s))) eps gs"
    using Cons.prems(1) by (cases geos) auto
  obtain s1 enc where one: "sender_encode_epoch crc rq s ep = (s1, Inr enc)"
    and id: "sender_block_id s1 = sender_block_id s + 1" and enc: "encode_epoch crc rq (as_encoder s) ep = (as_encoder s1, Inr enc)"
    using sender_encode_lawful [OF lawful gs(2), of crc] by blast
  obtain es where es: "sender_encode_epochs crc rq s1 eps = (s', Inr es)" "encs = enc # es"
    using Cons.prems(2) one by (auto simp: rbind_eq_Inr split: prod.splits)
  show ?case
  proof (cases i)
    case 0
    then show ?thesis using enc by (intro exI [of _ "as_encoder s"] exI [of _ "as_encoder s1"]) (simp add: es(2) sender_block_id_def)
  next
    case (Suc k)
    note cfg = encode_sender_config [OF one]
    have "list_all2 (audio_sendable (ae_config (as_encoder s1))) eps gs" using gs(3) by (simp add: cfg)
    from Cons.IH [OF this es(1), of k] Cons.prems(3) show ?thesis by (simp add: es(2) Suc cfg id add.assoc)
  qed
qed simp

lemma encoded_datagram_block:
  assumes "rq_lawful rq" "systematic rq" "audio_sendable (ae_config e) ep geo" "encode_epoch crc rq e ep = (e', Inr enc)"
    and "j < length (ee_datagrams enc)"
  shows "\<exists>h. decode_header (adg_payload (ee_datagrams enc ! j)) = Inr h \<and> hdr_block_id h = audio_block_id e"
proof -
  have "audio_packet crc rq (ae_config e) (ep_session_id ep) (audio_block_id e) (epoch_object ep geo) (ag_symbol_size geo)
      (enc_packet_sequence (ae_fec e) + of_nat j) j (ee_datagrams enc ! j)"
    using encode_epoch_lawful [OF assms(1,3), of crc] assms(4,5) by (auto simp: audio_block_id_def)
  then show ?thesis by (force simp: audio_packet_def carries_def decode_header_def dest: accept_split)
qed

lemma delivered_of_block:
  assumes "epoch_delivered rq ep geo b got rs"
  shows "all_ok rs" "\<forall>shard \<in> set (shards_out rs). dsh_block_id shard = b \<and> sh_pts_samples (dsh_header shard) = ep_pts_samples ep"
proof -
  have del: "all_ok rs" "\<forall>x \<in> set (shards_out rs). \<exists>j < length (epoch_shards ep geo). \<exists>r. x = shard_at b r (epoch_shards ep geo ! j)"
    using assms unfolding epoch_delivered_def Let_def delivers_def by blast+
  show "all_ok rs" by (rule del(1))
  show "\<forall>shard \<in> set (shards_out rs). dsh_block_id shard = b \<and> sh_pts_samples (dsh_header shard) = ep_pts_samples ep"
  proof
    fix x assume "x \<in> set (shards_out rs)"
    then obtain j r where j: "j < length (epoch_shards ep geo)" "x = shard_at b r (epoch_shards ep geo ! j)" using del(2) by blast
    obtain y where "y \<in> fragment_ids ep geo" "fragment_position ep geo y = j" using position_surj [OF j(1)] by blast
    then have "epoch_shards ep geo ! j = shard_pair ep geo y j" using shard_at_position(2) by blast
    then show "dsh_block_id x = b \<and> sh_pts_samples (dsh_header x) = ep_pts_samples ep" by (simp add: j(2) shard_pair_pts)
  qed
qed

text \<open>Everything of one epoch alone.\<close>

lemma epoch_alone:
  assumes lawful: "rq_lawful rq" "systematic rq" and send: "audio_sendable (ae_config e) ep geo"
    and enc: "encode_epoch crc rq e ep = (e', Inr enc)" and got: "picks enc got"
    and push: "receiver_push_all crc rq (audio_receiver_new c) (picked enc got) = (r', qs)"
  shows "epoch_received rq ep geo got qs"
    "playout_map (rc_playout r') (ep_pts_samples ep) = (case epochs_out qs of [] \<Rightarrow> None | x # _ \<Rightarrow> Some x)"
    "epoch_delivered rq ep geo (audio_block_id e) got (snd (audio_push_all crc rq audio_decoder_new (picked enc got)))"
proof -
  note fine = sendable_epoch_fine [OF send]
  have "fresh_for b (rc_decoder (audio_receiver_new c))" for b
    by (simp add: audio_receiver_new_def Let_def new_fresh)
  note received = epoch_into_receiver [OF lawful send enc got [unfolded picks_def]
      receiver_new_receiving [OF fine(2,1)] this push [unfolded picked_def]]
  show "epoch_received rq ep geo got qs" by (rule received(1))
  show "playout_map (rc_playout r') (ep_pts_samples ep) = (case epochs_out qs of [] \<Rightarrow> None | x # _ \<Rightarrow> Some x)"
    using received(2) by (auto simp: receiving_def playout_map_def split: if_splits)
  show "epoch_delivered rq ep geo (audio_block_id e) got (snd (audio_push_all crc rq audio_decoder_new (picked enc got)))"
    unfolding picked_def
    by (rule epoch_into_decoder(1) [OF lawful send enc new_fresh got [unfolded picks_def] prod.collapse [symmetric]])
qed

text \<open>A receiver whose limits exceed the number of epochs on their way has room for all of them.\<close>

lemma new_session_roomy:
  assumes "finite B" "inj_on T B" "card B \<le> sc_max_inflight_epochs c" "card B \<le> sc_max_buffered_epochs c"
  shows "session_roomy B T (audio_receiver_new c)"
  using assms playout_new_inv [of "sc_max_buffered_epochs (session_config_normalized c)"]
  by (simp add: session_roomy_def audio_receiver_new_def Let_def session_config_normalized_def playout_new_def
      playout_map_def le_max_iff_disj)

lemma interleaved_epochs:
  assumes lawful: "rq_lawful rq" "systematic rq" "\<forall>xs. mset (ord xs) = mset xs"
    and send: "list_all2 (audio_sendable (ae_config (as_encoder s))) eps geos"
    and times: "sorted_wrt (<) (map ep_pts_samples eps)" and ids: "unat (sender_block_id s) + length eps \<le> 2 ^ 32"
    and room: "length eps \<le> 64" "length eps \<le> sc_max_inflight_epochs c" "length eps \<le> sc_max_buffered_epochs c"
    and encs: "sender_encode_epochs crc rq s eps = (s', Inr encs)"
    and arrive: "\<forall>x \<in> set incoming. fst x < length eps \<and> snd x < length (ee_datagrams (encs ! fst x))"
    and push: "receiver_push_all crc rq (audio_receiver_new c)
      (map (\<lambda>x. adg_payload (ee_datagrams (encs ! fst x) ! snd x)) incoming) = (r1, qs)"
    and play: "play_all ord r1 (map ep_pts_samples eps) = (r2, reads)"
  shows "length reads = length eps" "i < length eps \<Longrightarrow> epoch_played rq (eps ! i) (geos ! i)
    (map snd (filter (\<lambda>x. fst x = i) incoming)) (answers_for fst i incoming qs, reads ! i)"
proof -
  let ?n = "length eps" and ?b = "\<lambda>i. sender_block_id s + of_nat i"
  let ?B = "?b ` {..<?n}" and ?T = "\<lambda>b. ep_pts_samples (eps ! the_inv_into {..<?n} ?b b)"
  let ?f = "\<lambda>x. (?b (fst x), adg_payload (ee_datagrams (encs ! fst x) ! snd x))"
  let ?got = "\<lambda>i. map snd (filter (\<lambda>x. fst x = i) incoming)"
  let ?is = "map ?f incoming" and ?r = "audio_receiver_new c"
  note window = consecutive_window [OF room(1) ids]
  have time: "?T (?b i) = ep_pts_samples (eps ! i)" if "i < ?n" for i
    using the_inv_into_f_f [OF window(3)] that by simp
  have inj: "inj_on ?T ?B"
  proof (rule inj_onI)
    fix x y assume x: "x \<in> ?B" "y \<in> ?B" "?T x = ?T y"
    then obtain i j where ij: "i < ?n" "j < ?n" "x = ?b i" "y = ?b j" by blast
    then have "map ep_pts_samples eps ! i = map ep_pts_samples eps ! j" using x(3) time by simp
    moreover have "distinct (map ep_pts_samples eps)" using times strict_sorted_iff by blast
    ultimately have "i = j" using ij(1,2) by (metis length_map nth_eq_iff_index_eq)
    then show "x = y" using ij by simp
  qed
  have dec: "roomy ?B (rc_decoder ?r)"
    using new_roomy [OF finite_imageI [OF finite_lessThan] window(1)] window(2) room(1)
    by (simp add: audio_receiver_new_def Let_def)
  have roomy: "session_roomy ?B ?T ?r"
    by (rule new_session_roomy [OF finite_imageI [OF finite_lessThan] inj]) (use window(2) room in simp_all)
  have each: "\<exists>e e'. audio_sendable (ae_config e) (eps ! i) (geos ! i) \<and> audio_block_id e = ?b i \<and>
      encode_epoch crc rq e (eps ! i) = (e', Inr (encs ! i))" if "i < ?n" for i
    using sender_encode_epochs_each [OF lawful(1) send encs that] list_all2_nthD [OF send that] by metis
  have items: "list_all (block_item ?B) ?is"
    unfolding list_all_iff
  proof
    fix y assume "y \<in> set ?is"
    then obtain x where x: "x \<in> set incoming" "y = ?f x" by auto
    then have i: "fst x < ?n" "snd x < length (ee_datagrams (encs ! fst x))" using arrive by auto
    obtain e e' where e: "audio_sendable (ae_config e) (eps ! fst x) (geos ! fst x)" "audio_block_id e = ?b (fst x)"
        "encode_epoch crc rq e (eps ! fst x) = (e', Inr (encs ! fst x))"
      using each [OF i(1)] by blast
    show "block_item ?B y"
      using encoded_datagram_block [OF lawful(1,2) e(1,3) i(2)] i(1) by (auto simp: block_item_def x(2) e(2))
  qed
  have own: "\<forall>x \<in> set incoming. fst (?f x) = ?b i \<longleftrightarrow> fst x = i" if "i < ?n" for i
    using arrive that inj_onD [OF window(3), of _ i] by auto
  have named: "inputs_for fst (?b i) ?is = map ?f (inputs_for fst i incoming)"
      "answers_for fst (?b i) ?is outs = answers_for fst i incoming outs" if "i < ?n"
    for i and outs :: "(session_error, receive_outcome) result list"
    by (rule inputs_for_map answers_for_inputs, use own [OF that] in simp)+
  have part: "map snd (inputs_for fst (?b i) ?is) = picked (encs ! i) (?got i)" if "i < ?n" for i
    using named(1) [OF that] by (simp add: inputs_for_def picked_def comp_def)
  have picks: "picks (encs ! i) (?got i)" for i
    using arrive by (auto simp: picks_def)
  have decoder: "rc_decoder ?r = audio_decoder_new" by (simp add: audio_receiver_new_def Let_def)
  have alone: "all_ok (snd (audio_push_all crc rq (rc_decoder ?r) (map snd (inputs_for fst b ?is)))) \<and>
      (\<forall>shard \<in> set (shards_out (snd (audio_push_all crc rq (rc_decoder ?r) (map snd (inputs_for fst b ?is))))).
         shard_of_block ?T b shard)" if b: "b \<in> ?B" for b
  proof -
    obtain i where i: "i < ?n" "b = ?b i" using b by blast
    obtain e e' where e: "audio_sendable (ae_config e) (eps ! i) (geos ! i)" "audio_block_id e = ?b i"
        "encode_epoch crc rq e (eps ! i) = (e', Inr (encs ! i))"
      using each [OF i(1)] by blast
    note del = epoch_alone(3) [OF lawful(1,2) e(1,3) picks surjective_pairing, unfolded e(2)]
    show ?thesis
      using delivered_of_block [OF del] time [OF i(1)] unfolding decoder part [OF i(1), folded i(2)] shard_of_block_def
      by (simp add: i(2))
  qed
  have push': "receiver_push_all crc rq ?r (map snd ?is) = (r1, qs)" using push by (simp add: comp_def)
  note inter = interleaved_receiver [OF dec roomy items alone push']
  have inv: "playout_inv (rc_playout r1)" using inter(1) by (simp add: session_roomy_def)
  note reads = play_all_reads [OF inv times play]
  show "length reads = length eps" by (simp add: reads)
  show "epoch_played rq (eps ! i) (geos ! i) (?got i) (answers_for fst i incoming qs, reads ! i)" if i: "i < length eps"
  proof -
    obtain e e' where e: "audio_sendable (ae_config e) (eps ! i) (geos ! i)"
        "encode_epoch crc rq e (eps ! i) = (e', Inr (encs ! i))"
      using each [OF i] by blast
    obtain rb qsb where alone_i: "receiver_push_all crc rq ?r (picked (encs ! i) (?got i)) = (rb, qsb)" by fastforce
    have same: "answers_for fst (?b i) ?is qs = qsb" "session_view ?T (?b i) r1 = session_view ?T (?b i) rb"
      using inter(2) [of "?b i" rb qsb] i alone_i by (simp_all add: part [OF i])
    note got = epoch_alone(1,2) [OF lawful(1,2) e picks alone_i]
    have "playout_map (rc_playout r1) (ep_pts_samples (eps ! i)) = playout_map (rc_playout rb) (ep_pts_samples (eps ! i))"
      using same(2) time [OF i] by (simp add: session_view_def)
    then have "reads ! i = (case epochs_out qsb of [] \<Rightarrow> Missing (ep_pts_samples (eps ! i)) | x # _ \<Rightarrow> Exact x)"
      using i got(2) by (simp add: reads split: list.split)
    moreover have "answers_for fst i incoming qs = qsb" using same(1) named(2) [OF i] by simp
    ultimately show ?thesis using got(1) by (simp add: epoch_played_def)
  qed
qed

section \<open>Playback of interleaved epochs\<close>

text \<open>
  C1. A session works when the datagrams of its epochs arrive mixed up with each other. A sender encodes at most
  64 epochs of increasing time, and no more than the receiver keeps in flight and keeps for playout; a fresh
  receiver is pushed any datagrams of any of them (\<open>(i, j)\<close> is datagram \<open>j\<close> of epoch \<open>i\<close>), some lost, some twice,
  in any order whatever across all the epochs, and is then read at their times. Every epoch fares as if it had the
  receiver to itself: its pushes all answer without error, the channel groups they release are exact and each is
  released once, every group of which the datagrams that arrived hold all fragments is among them, and so is every
  group once the datagrams that arrived determine the block in the sense of the codec; and the read at its time
  gives the exact epoch when they do, and otherwise that same epoch or \<open>Missing\<close>, never anything else.
\<close>

theorem session_plays_interleaved:
  assumes "rq_lawful rq" "systematic rq" "\<forall>xs. mset (ord xs) = mset xs"
    and "list_all2 (audio_sendable (ae_config (as_encoder s))) eps geos"
    and "sorted_wrt (<) (map ep_pts_samples eps)" "unat (sender_block_id s) + length eps \<le> 2 ^ 32"
    and "length eps \<le> 64" "length eps \<le> sc_max_inflight_epochs c" "length eps \<le> sc_max_buffered_epochs c"
  shows "\<exists>s' encs. sender_encode_epochs crc rq s eps = (s', Inr encs) \<and> length encs = length eps \<and>
    (\<forall>i < length eps. length (epoch_shards (eps ! i) (geos ! i)) \<le> length (ee_datagrams (encs ! i))) \<and>
    (\<forall>incoming r1 qs r2 reads.
       (\<forall>x \<in> set incoming. fst x < length eps \<and> snd x < length (ee_datagrams (encs ! fst x))) \<longrightarrow>
       receiver_push_all crc rq (audio_receiver_new c)
         (map (\<lambda>x. adg_payload (ee_datagrams (encs ! fst x) ! snd x)) incoming) = (r1, qs) \<longrightarrow>
       play_all ord r1 (map ep_pts_samples eps) = (r2, reads) \<longrightarrow>
       length reads = length eps \<and>
       (\<forall>i < length eps.
          let ep = eps ! i; geo = geos ! i; got = map snd (filter (\<lambda>x. fst x = i) incoming);
              answers = map snd (filter (\<lambda>x. fst (fst x) = i) (zip incoming qs)); read = reads ! i;
              recovered = codec_run rq (block_decoder rq (length (epoch_object ep geo)) (ag_symbol_size geo))
                (map (block_packet rq (epoch_object ep geo) (ag_symbol_size geo)) got) \<noteq> None
          in all_ok answers \<and>
             (\<exists>ids. distinct ids \<and> list_all2 (exact_group ep) ids (groups_out answers) \<and>
                (\<forall>gi < length (ep_groups ep).
                   recovered \<or> (\<forall>j < fragment_total ep geo gi. fragment_position ep geo (gi, j) \<in> set got) \<longrightarrow> gi \<in> set ids)) \<and>
             ({..<length (epoch_shards ep geo)} \<subseteq> set got \<longrightarrow> recovered) \<and>
             (epochs_out answers = [] \<and> read = Missing (ep_pts_samples ep) \<and> \<not> recovered \<or>
              (\<exists>e. exact_epoch ep e \<and> epochs_out answers = [e] \<and> read = Exact e))))"
proof -
  obtain s' encs where encs: "sender_encode_epochs crc rq s eps = (s', Inr encs)" "length encs = length eps"
      "\<forall>i < length eps. length (epoch_shards (eps ! i) (geos ! i)) \<le> length (ee_datagrams (encs ! i))"
    using sender_encode_epochs_lawful [OF assms(1,4), of crc] by blast
  note played = interleaved_epochs [OF assms encs(1), unfolded answers_for_def]
  show ?thesis
    using encs played unfolding epoch_played_iff Let_def fst_conv snd_conv by blast
qed

lemma whole_epoch_plays:
  "epoch_played rq ep geo got out \<Longrightarrow> {..<length (epoch_shards ep geo)} \<subseteq> set got \<Longrightarrow>
   \<exists>e. exact_epoch ep e \<and> snd out = Exact e"
  unfolding epoch_played_iff Let_def by blast

theorem session_plays_interleaved_witness:
  "\<exists>s' encs r1 qs reads e1 e2.
     sender_encode_epochs crc_reference rep_codec (audio_sender_new example_session)
       [example_epoch, example_next_epoch] = (s', Inr encs) \<and>
     receiver_push_all crc_reference rep_codec (audio_receiver_new example_session)
       (map (\<lambda>x. adg_payload (ee_datagrams (encs ! fst x) ! snd x)) [(1, 1), (0, 1), (1, 0), (0, 0), (1, 1)]) = (r1, qs) \<and>
     reads = snd (play_all rev r1 [4800, 5040]) \<and>
     reads ! 0 = Exact e1 \<and> exact_epoch example_epoch e1 \<and> reads ! 1 = Exact e2 \<and> exact_epoch example_next_epoch e2"
proof -
  let ?s = "audio_sender_new example_session" and ?eps = "[example_epoch, example_next_epoch]"
  let ?in = "[(1, 1), (0, 1), (1, 0), (0, 0), (1, 1)] :: (nat \<times> nat) list"
  have cfg: "ae_config (as_encoder ?s) = example_audio_config"
    by (simp add: audio_sender_new_def audio_encoder_new_def session_config_normalized_def example_session_def)
  obtain geo where geo: "audio_sendable (ae_config (as_encoder ?s)) example_epoch geo" "unat (ag_source_symbols geo) = 2"
    using example_audio_sendable unfolding cfg by blast
  note geo2 = example_next_sendable [OF geo(1)]
  have send: "list_all2 (audio_sendable (ae_config (as_encoder ?s))) ?eps [geo, geo]" using geo(1) geo2 by simp
  have shards: "length (epoch_shards example_epoch geo) = 2" "length (epoch_shards example_next_epoch geo) = 2"
    using sendable_block(6) [OF geo(1)] sendable_block(6) [OF geo2] geo(2) by simp_all
  have ord: "\<forall>xs :: u32 list. mset (rev xs) = mset xs" by simp
  have pts: "map ep_pts_samples ?eps = [4800, 5040]" by (simp add: example_epoch_def example_next_epoch_def)
  have up: "sorted_wrt (<) (map ep_pts_samples ?eps)" unfolding pts by simp
  have id: "unat (sender_block_id ?s) + length ?eps \<le> 2 ^ 32"
    by (simp add: sender_block_id_def audio_sender_new_def audio_block_id_def audio_encoder_new_def encoder_new_def)
  have room: "length ?eps \<le> 64" "length ?eps \<le> sc_max_inflight_epochs example_session"
      "length ?eps \<le> sc_max_buffered_epochs example_session" by (simp_all add: example_session_def)
  let ?runs = "\<lambda>encs. \<forall>incoming r1 qs r2 reads.
      (\<forall>x \<in> set incoming. fst x < length ?eps \<and> snd x < length (ee_datagrams (encs ! fst x))) \<longrightarrow>
      receiver_push_all crc_reference rep_codec (audio_receiver_new example_session)
        (map (\<lambda>x. adg_payload (ee_datagrams (encs ! fst x) ! snd x)) incoming) = (r1, qs) \<longrightarrow>
      play_all rev r1 (map ep_pts_samples ?eps) = (r2, reads) \<longrightarrow>
      length reads = length ?eps \<and>
      (\<forall>i < length ?eps. epoch_played rep_codec (?eps ! i) ([geo, geo] ! i) (map snd (filter (\<lambda>x. fst x = i) incoming))
         (map snd (filter (\<lambda>x. fst (fst x) = i) (zip incoming qs)), reads ! i))"
  have "\<exists>s' encs. sender_encode_epochs crc_reference rep_codec ?s ?eps = (s', Inr encs) \<and> length encs = length ?eps \<and>
      (\<forall>i < length ?eps. length (epoch_shards (?eps ! i) ([geo, geo] ! i)) \<le> length (ee_datagrams (encs ! i))) \<and> ?runs encs"
    unfolding epoch_played_iff Let_def fst_conv snd_conv
    by (rule session_plays_interleaved [OF rep_codec_lawful rep_codec_systematic ord send up id room, of crc_reference,
          unfolded Let_def])
  then obtain s' encs where encs: "sender_encode_epochs crc_reference rep_codec ?s ?eps = (s', Inr encs)"
      "\<forall>i < length ?eps. length (epoch_shards (?eps ! i) ([geo, geo] ! i)) \<le> length (ee_datagrams (encs ! i))"
    and runs: "?runs encs" by (elim exE conjE)
  have size: "2 \<le> length (ee_datagrams (encs ! 0))" "2 \<le> length (ee_datagrams (encs ! 1))"
    using encs(2) [rule_format, of 0] encs(2) [rule_format, of 1] by (simp_all add: shards)
  have fine: "\<forall>x \<in> set ?in. fst x < length ?eps \<and> snd x < length (ee_datagrams (encs ! fst x))"
    using size by auto
  obtain r1 qs where push: "receiver_push_all crc_reference rep_codec (audio_receiver_new example_session)
      (map (\<lambda>x. adg_payload (ee_datagrams (encs ! fst x) ! snd x)) ?in) = (r1, qs)" by fastforce
  have played: "\<forall>i < length ?eps. epoch_played rep_codec (?eps ! i) ([geo, geo] ! i) (map snd (filter (\<lambda>x. fst x = i) ?in))
      (map snd (filter (\<lambda>x. fst (fst x) = i) (zip ?in qs)), snd (play_all rev r1 [4800, 5040]) ! i)"
    by (rule runs [THEN spec, THEN spec, THEN spec, THEN spec, THEN spec, THEN mp, THEN mp, THEN mp, THEN conjunct2,
          OF fine push, unfolded pts, OF prod.collapse [symmetric]])
  have sets: "{..<2} \<subseteq> set [1, 0 :: nat]" "{..<2} \<subseteq> set [1, 0, 1 :: nat]" by (auto simp: less_2_cases_iff)
  let ?reads = "snd (play_all rev r1 [4800, 5040])"
  have "\<exists>e. exact_epoch example_epoch e \<and> ?reads ! 0 = Exact e"
    using whole_epoch_plays [OF played [rule_format, of 0]] sets(1) by (simp add: shards)
  moreover have "\<exists>e. exact_epoch example_next_epoch e \<and> ?reads ! 1 = Exact e"
    using whole_epoch_plays [OF played [rule_format, of 1]] sets(2) by (simp add: shards)
  ultimately show ?thesis using encs(1) push by blast
qed

end
