(* ===== verification/Spec2Isabelle.thy ===== *)
theory Spec2Isabelle
  imports Sequence Repair_Encoder Media_Transfer Telemetry Backfill Audio_Playback Audio_Bounds Transport_Laws Udp
    Bench_Command Browser Session_Interleaving
begin

text \<open>
  A verification development of \<^verbatim>\<open>raptor-fec\<close>: forward error correction for datagrams with RaptorQ, for
  media frames and for multichannel audio. Paths below are under \<^verbatim>\<open>src/crates\<close>.

  \<^bold>\<open>The program.\<close> The crate \<^verbatim>\<open>raptorq-datagram-fec\<close> cuts a payload into blocks, has the RaptorQ codec encode
  each block into packets and sends every packet in a datagram with a 32-byte header and a checksum; its
  decoder collects packets per block until the codec yields the block. Above the block layer are a media
  layer (frames cut into fragments, one block each, with send plans, a deadline scheduler, an adaptive
  controller, a store for retransmission and counters) and an audio layer (all channel groups of one
  playout time in one block, whose source symbols describe themselves). \<^verbatim>\<open>music-audio-session\<close> puts audio
  shards together again into groups and epochs and plays them at their time; \<^verbatim>\<open>raptorq-fec-transport\<close> adds
  and removes transport prefixes and sends; \<^verbatim>\<open>music-audio-session-wasm\<close> exposes the receiver to a browser.

  \<^bold>\<open>Theories and the code they model.\<close>

  \<^item> \<^theory_text>\<open>Prelude\<close>: bytes and words, little-endian fields, slices, errors as sums, saturating arithmetic,
    rounding division, and the automation the other theories share. \<^theory_text>\<open>Header_Interface\<close>: the locales of a
    header codec, interpreted for the three headers of the program. \<^theory_text>\<open>Bounded_Ids\<close>: the memory of the
    last ids as a locale, interpreted for the audio decoder and for the receiver.
  \<^item> \<^theory_text>\<open>Crc\<close>, \<^theory_text>\<open>Wire\<close>, \<^theory_text>\<open>Buffer_Pool\<close>, \<^theory_text>\<open>Fec_Encoder\<close>, \<^theory_text>\<open>Repair_Encoder\<close>, \<^theory_text>\<open>Fec_Decoder\<close>: the header,
    checksum, buffer pool, encoder, repair producer and decoder of \<^verbatim>\<open>raptorq-datagram-fec/src/lib.rs\<close>.
    \<^theory_text>\<open>Raptorq_Codec\<close>: the codec as a parameter with its laws. \<^theory_text>\<open>Payload_Transfer\<close>, \<^theory_text>\<open>Interleaving\<close>: encoder
    and decoder together, and blocks that arrive interleaved.
  \<^item> \<^theory_text>\<open>Sequence\<close>: \<^verbatim>\<open>sequence.rs\<close>. \<^theory_text>\<open>Float_Rounding\<close>: rounding to binary floating point, for
    \<^theory_text>\<open>F32\<close> and \<^theory_text>\<open>F64\<close>, the arithmetic of \<^verbatim>\<open>f32\<close> and of \<^verbatim>\<open>f64\<close>. \<^theory_text>\<open>Adaptive\<close>: \<^verbatim>\<open>adaptive.rs\<close>.
  \<^item> \<^theory_text>\<open>Media_Wire\<close>, \<^theory_text>\<open>Media\<close>, \<^theory_text>\<open>Media_Transfer\<close>: \<^verbatim>\<open>media.rs\<close>, its header, encoder, send plans and
    reassembling decoder, and the delivery of frames. \<^theory_text>\<open>Schedule\<close>, \<^theory_text>\<open>Send_Planner\<close>: \<^verbatim>\<open>schedule.rs\<close>.
    \<^theory_text>\<open>Backfill\<close>: \<^verbatim>\<open>backfill.rs\<close>. \<^theory_text>\<open>Telemetry\<close>: \<^verbatim>\<open>telemetry.rs\<close>.
  \<^item> \<^theory_text>\<open>Udp\<close>: the UDP sender and receiver at the end of \<^verbatim>\<open>lib.rs\<close>, a decoder per peer address.
  \<^item> \<^theory_text>\<open>Audio_Wire\<close>, \<^theory_text>\<open>Audio_Geometry\<close>, \<^theory_text>\<open>Audio_Encoder\<close>, \<^theory_text>\<open>Audio_Symbols\<close>, \<^theory_text>\<open>Audio_Decoder\<close>, \<^theory_text>\<open>Audio_Transfer\<close>,
    \<^theory_text>\<open>Audio_Delivery\<close>, \<^theory_text>\<open>Audio_Retention\<close>, \<^theory_text>\<open>Audio_Stream\<close>: \<^verbatim>\<open>multichannel_audio.rs\<close>, from the shard header and
    the choice of the symbol size to what the decoder delivers and retains, for one epoch and for a stream of them.
  \<^item> \<^theory_text>\<open>Audio_Assembly\<close>, \<^theory_text>\<open>Audio_Playout\<close>, \<^theory_text>\<open>Audio_Session\<close>, \<^theory_text>\<open>Audio_Reassembly\<close>, \<^theory_text>\<open>Audio_Playback\<close>,
    \<^theory_text>\<open>Audio_Bounds\<close>, \<^theory_text>\<open>Session_Stream\<close>: \<^verbatim>\<open>music-audio-session/src/lib.rs\<close>, the latter a sender and a receiver over
    a stream of epochs that are played as they come. \<^theory_text>\<open>Separation\<close>: the locale of a system that serves several
    owners apart from each other, with two interpretations, \<^theory_text>\<open>Audio_Interleaving\<close> for the audio decoder and
    \<^theory_text>\<open>Session_Interleaving\<close> for the receiver, for datagrams of several epochs that arrive mixed up.
  \<^item> \<^theory_text>\<open>Transport\<close>, \<^theory_text>\<open>Transport_Laws\<close>: \<^verbatim>\<open>raptorq-fec-transport/src/lib.rs\<close>. \<^theory_text>\<open>Formatting\<close>, \<^theory_text>\<open>Error_Messages\<close>: the
    \<^verbatim>\<open>Display\<close> implementations of the error types of all crates. \<^theory_text>\<open>Browser\<close>: the receiver of
    \<^verbatim>\<open>music-audio-session-wasm/src/lib.rs\<close> with the objects it returns and the texts it throws.
  \<^item> \<^theory_text>\<open>Loss_Model\<close>, \<^theory_text>\<open>Recovery_Baseline\<close>, \<^theory_text>\<open>Recovery_Exactness\<close>, \<^theory_text>\<open>Recovery_Quality\<close>,
    \<^theory_text>\<open>Payload_Geometry\<close>, \<^theory_text>\<open>Bench_Command\<close>: the benchmark \<^verbatim>\<open>raptorq-datagram-fec/examples/audio_recovery_baseline.rs\<close>:
    its loss profiles and random numbers, the simulated network, the decoding of what arrives, the rows of the report
    with their figures in binary64, the table of geometries, and the command with the environment variables it reads.

  \<^bold>\<open>How state and operations correspond.\<close> A struct is a record with the struct's fields, an enum a datatype, a
  w-bit integer a w-bit word and \<^verbatim>\<open>usize\<close> a natural number below \<^verbatim>\<open>2^64\<close>, with the wrapping, saturating and
  checked operations written out. A method with \<^verbatim>\<open>&mut self\<close> is a function from the state to the new state and
  the result; \<^verbatim>\<open>Result\<close> is a sum whose left side is the error, and every early return is a branch. A
  \<^verbatim>\<open>HashMap\<close> is a map or, where its size matters, an association list with distinct keys; a \<^verbatim>\<open>HashSet\<close> is a
  set; where the source iterates over a \<^verbatim>\<open>HashMap\<close> the order is a parameter. Definitions have the names of the
  source where these are free in HOL.

  \<^bold>\<open>Parameters.\<close> The \<^verbatim>\<open>raptorq\<close> crate is not in the repository: it is a record of functions, and what the code
  relies on are the named hypotheses \<^theory_text>\<open>rq_lawful\<close> (packets serialize and deserialize, the ids are those asked for,
  a decoder yields nothing or the encoded data, and yields it when all source packets arrived) and
  \<^theory_text>\<open>systematic\<close> (a source packet carries its source symbol). A repetition code satisfies both and is the
  instance of every witness. The checksum is a parameter where only its use matters, and the CRC-32 of the source's
  reference function where its strength does. A \<^verbatim>\<open>DatagramSender\<close> is a function from its state and a
  datagram, a UDP socket a record of functions on its state, the clock of the benchmark a function that gives the
  duration of each call, its environment a function of the name of a variable, and \<^verbatim>\<open>log10\<close>, whose precision the
  standard library leaves open, any function. JavaScript objects are a record of functions, of which
  \<^theory_text>\<open>ordinary\<close> says that a value stored under a key of the binding is read back; string-keyed functions satisfy it.

  \<^bold>\<open>What the lemmas show.\<close> Headers decode exactly what encodes to them; corruption of one byte is found; a
  payload, a media frame and an audio epoch survive loss, repetition and reordering as far as the codec can
  recover their blocks; decoders deliver nothing else, and nothing twice within the window of
  ids they remember (64 blocks, 128 frames of a stream, exact bounds that the lemmas give); what the audio decoder and
  the receiver retain is bounded, over streams of epochs too; epochs whose datagrams arrive mixed up do not disturb each
  other; plans cover every datagram, meet deadlines and keep to their limits; counters agree with what happened;
  prefixes are undone exactly; the UDP receiver keeps peers apart; a script in a browser gets objects that determine
  the groups sent, and a text that determines the error; the benchmark reads its settings exactly, never fails on
  those it accepts, classifies every epoch once, its trace fields do not depend on measured time, and its sums and
  quotients of energies in binary64 stay finite and in order. Five contracts are refinements: the block
  decoder of the codec's own run, interleaved blocks of separate decoders, the UDP receiver of a decoder per peer,
  the playout buffer of a finite map, and the session receiver of a receiver per epoch (for at most 64 epochs at
  once, the window of the block decoder, and no more than the receiver is configured to keep).

  \<^bold>\<open>Bounds and fuel.\<close> No definition takes fuel. Loops over a list are structural; the loops that drop the oldest
  entries recurse over the queue they pop; the catch-up loop of the sequence tracker recurses on the size of
  its set and is shown equal to the \<^verbatim>\<open>while\<close> loop of the source. The audio theorems assume at most 56403 source
  symbols, the codec's own limit, and fewer than \<^verbatim>\<open>2^24\<close> symbols in all, the size of a symbol id.

  \<^bold>\<open>Not modelled.\<close> The \<^verbatim>\<open>raptorq\<close> crate itself, which is a parameter; the futures of the transport crate (a loop
  awaits each send before the next, so it is modelled as sequential); the chain of causes that \<^verbatim>\<open>source()\<close> of an
  error gives; the printing of the benchmark's report by \<^verbatim>\<open>serde_json\<close>; memory allocation, except
  that \<^verbatim>\<open>Vec::with_capacity\<close> in the buffer pool gives exactly the capacity asked for; tests.
\<close>

end
